(* ===== verification/LT_Prelude.thy ===== *)
theory LT_Prelude
  imports Main "HOL-Library.Word" "HOL-Library.Signed_Division"
begin

text \<open>
  The vocabulary every component of the development shares.

  \<^item> Kernel outcomes: an operation either returns (\<open>Ret\<close>) or brings the kernel down
    (\<open>Fault\<close>): an \<open>LASSERT\<close> that fails (\<open>LBUG\<close>), a division trap, a
    null dereference, a write past the end of an array, a loop that never ends (\<open>LOCKUP\<close>).
  \<^item> C integers: \<open>__u64\<close> and \<open>__u32\<close> are words, the signed types are \<open>int\<close> with the
    two's-complement wrap-around written out (\<open>s32\<close>, \<open>s64\<close>; the kernel is compiled
    with wrapping signed arithmetic) and division that truncates and can trap.
  \<^item> C strings (without their terminating NUL) and the decimal conversions of the kernel's
    \<open>snprintf\<close> and \<open>simple_strtoull\<close>.
\<close>

named_theorems c_arith \<open>ranges and identities of the wrapped C integer types\<close>
named_theorems c_string \<open>facts on decimal digits and C strings\<close>

section \<open>Kernel outcomes\<close>

datatype fault = LBUG | DIV_TRAP | NULL_DEREF | OVERRUN | LOCKUP

datatype 'a outcome = Ret 'a | Fault fault

definition bindO :: "'a outcome \<Rightarrow> ('a \<Rightarrow> 'b outcome) \<Rightarrow> 'b outcome" where
  "bindO m f = (case m of Ret x \<Rightarrow> f x | Fault e \<Rightarrow> Fault e)"

definition lassert :: "bool \<Rightarrow> 'a outcome \<Rightarrow> 'a outcome" where
  "lassert b m = (if b then m else Fault LBUG)"

lemma bindO_simps [simp]:
  "bindO (Ret x) f = f x"
  "bindO (Fault e) f = Fault e"
  by (simp_all add: bindO_def)

lemma bindO_bindO: "bindO (bindO m f) g = bindO m (\<lambda>x. bindO (f x) g)"
  by (cases m) simp_all

lemma bindO_Ret_conv: "bindO m f = Ret y \<longleftrightarrow> (\<exists>x. m = Ret x \<and> f x = Ret y)"
  by (cases m) simp_all

lemma bindO_RetE [elim!]:
  assumes "bindO m f = Ret y"
  obtains x where "m = Ret x" "f x = Ret y"
  using assms by (auto simp: bindO_Ret_conv)

lemma lassert_simps [simp]:
  "lassert True m = m"
  "lassert False m = Fault LBUG"
  by (simp_all add: lassert_def)

lemma lassert_Ret_conv [simp]: "lassert b m = Ret y \<longleftrightarrow> b \<and> m = Ret y"
  by (simp add: lassert_def)

section \<open>Error numbers\<close>

abbreviation (input) EPERM :: int where "EPERM \<equiv> 1"
abbreviation (input) ENOENT :: int where "ENOENT \<equiv> 2"
abbreviation (input) EIO :: int where "EIO \<equiv> 5"
abbreviation (input) ENOMEM :: int where "ENOMEM \<equiv> 12"
abbreviation (input) EFAULT :: int where "EFAULT \<equiv> 14"
abbreviation (input) EEXIST :: int where "EEXIST \<equiv> 17"
abbreviation (input) ENODEV :: int where "ENODEV \<equiv> 19"
abbreviation (input) EINVAL :: int where "EINVAL \<equiv> 22"
abbreviation (input) ENOSPC :: int where "ENOSPC \<equiv> 28"
abbreviation (input) ERANGE :: int where "ERANGE \<equiv> 34"
abbreviation (input) EPROTO :: int where "EPROTO \<equiv> 71"
abbreviation (input) ENOTSUPP :: int where "ENOTSUPP \<equiv> 524"

section \<open>C integers\<close>

type_synonym u8 = "8 word"
type_synonym u16 = "16 word"
type_synonym u32 = "32 word"
type_synonym u64 = "64 word"

definition s32 :: "int \<Rightarrow> int" where
  "s32 x = signed_take_bit 31 x"

definition s64 :: "int \<Rightarrow> int" where
  "s64 x = signed_take_bit 63 x"

lemma s32_range [c_arith]: "- (2 ^ 31) \<le> s32 x" "s32 x < 2 ^ 31"
  using signed_take_bit_int_greater_eq_minus_exp [of 31 x] signed_take_bit_int_less_exp [of 31 x]
  by (simp_all add: s32_def)

lemma s64_range [c_arith]: "- (2 ^ 63) \<le> s64 x" "s64 x < 2 ^ 63"
  using signed_take_bit_int_greater_eq_minus_exp [of 63 x] signed_take_bit_int_less_exp [of 63 x]
  by (simp_all add: s64_def)

lemma s32_id [c_arith]: "- (2 ^ 31) \<le> x \<Longrightarrow> x < 2 ^ 31 \<Longrightarrow> s32 x = x"
  by (simp add: s32_def signed_take_bit_int_eq_self)

lemma s64_id [c_arith]: "- (2 ^ 63) \<le> x \<Longrightarrow> x < 2 ^ 63 \<Longrightarrow> s64 x = x"
  by (simp add: s64_def signed_take_bit_int_eq_self)

lemma s32_idem [simp]: "s32 (s32 x) = s32 x"
  by (simp add: s32_def)

lemma s64_idem [simp]: "s64 (s64 x) = s64 x"
  by (simp add: s64_def)

lemma s32_0 [simp]: "s32 0 = 0" and s64_0 [simp]: "s64 0 = 0"
  by (simp_all add: s32_def s64_def)

text \<open>
  The quotient of two signed machine integers: it truncates towards zero, and the
  processor traps on a zero divisor and on the one quotient that does not fit.
\<close>

definition quot32 :: "int \<Rightarrow> int \<Rightarrow> int outcome" where
  "quot32 a b =
     (if b = 0 \<or> (a = - (2 ^ 31) \<and> b = -1) then Fault DIV_TRAP else Ret (a sdiv b))"

definition quot64 :: "int \<Rightarrow> int \<Rightarrow> int outcome" where
  "quot64 a b =
     (if b = 0 \<or> (a = - (2 ^ 63) \<and> b = -1) then Fault DIV_TRAP else Ret (a sdiv b))"

lemma sdiv_nonneg: "0 \<le> (a :: int) \<Longrightarrow> 0 \<le> b \<Longrightarrow> a sdiv b = a div b"
  by (simp add: signed_divide_int_def sgn_if)

lemma abs_sdiv: "b \<noteq> 0 \<Longrightarrow> \<bar>(a :: int) sdiv b\<bar> = \<bar>a\<bar> div \<bar>b\<bar>"
  using pos_imp_zdiv_nonneg_iff [of "\<bar>b\<bar>" "\<bar>a\<bar>"]
  by (cases "a = 0") (simp_all add: signed_divide_int_def abs_mult abs_sgn_eq)

lemma abs_sdiv_le: "\<bar>(a :: int) sdiv b\<bar> \<le> \<bar>a\<bar>"
proof (cases "b = 0")
  case False
  then show ?thesis using zdiv_mono2 [of "\<bar>a\<bar>" 1 "\<bar>b\<bar>"] by (simp add: abs_sdiv)
qed (simp add: signed_divide_int_def)

lemma sdiv_nonzero: "b \<noteq> 0 \<Longrightarrow> \<bar>b\<bar> \<le> \<bar>a\<bar> \<Longrightarrow> (a :: int) sdiv b \<noteq> 0"
proof -
  assume b: "b \<noteq> 0" and le: "\<bar>b\<bar> \<le> \<bar>a\<bar>"
  then have "\<bar>b\<bar> div \<bar>b\<bar> \<le> \<bar>a\<bar> div \<bar>b\<bar>" by (intro zdiv_mono1) simp_all
  with b have "0 < \<bar>a sdiv b\<bar>" by (simp add: abs_sdiv)
  then show ?thesis by simp
qed

lemma sdiv_mono:
  assumes "(a :: int) \<le> b" and "0 < k"
  shows "a sdiv k \<le> b sdiv k"
proof -
  have neg: "a sdiv k = - ((- a) div k)" if "a < 0" for a :: int
    using that assms(2) by (simp add: signed_divide_int_def sgn_if mult_less_0_iff zero_less_mult_iff)
  have pos: "a sdiv k = a div k" if "0 \<le> a" for a :: int
    using that assms(2) by (simp add: sdiv_nonneg)
  consider "0 \<le> a" | "a < 0" "0 \<le> b" | "b < 0" using assms(1) by linarith
  then show ?thesis
  proof cases
    case 1
    with assms show ?thesis by (simp add: pos zdiv_mono1)
  next
    case 2
    with assms(2) have "0 \<le> (- a) div k" "0 \<le> b div k"
      by (simp_all add: pos_imp_zdiv_nonneg_iff)
    with 2 show ?thesis by (simp add: pos neg)
  next
    case 3
    with assms show ?thesis by (simp add: neg zdiv_mono1)
  qed
qed

lemma of_int_s64 [simp]: "(of_int (s64 x) :: u64) = of_int x"
proof (rule bit_word_eqI)
  fix n
  assume "n < LENGTH(64)"
  then have "min n 63 = n" by simp
  then show "bit (of_int (s64 x) :: u64) n = bit (of_int x :: u64) n"
    by (simp add: s64_def bit_simps)
qed

lemma sint_of_int_u64 [simp]: "sint (of_int x :: u64) = s64 x"
  by (simp add: s64_def sint_sbintrunc')

lemma sint_eq_u64 [simp]: "sint (a :: u64) = sint b \<longleftrightarrow> a = b"
  by (auto intro: signed_word_eqI)

section \<open>Time\<close>

text \<open>The kernel's \<open>struct timeval\<close>, as \<open>do_gettimeofday\<close> fills it.\<close>

record timeval =
  tv_sec :: int
  tv_usec :: int

section \<open>Words as numbers\<close>

lemma unat_of_nat_small: "n < 2 ^ 64 \<Longrightarrow> unat (of_nat n :: u64) = n"
  by (simp add: unat_of_nat take_bit_nat_eq_self)

text \<open>An unsigned difference wraps around when the subtrahend is the larger one.\<close>

lemma unat_minus_wrap:
  fixes a b :: u64
  assumes "unat a < unat b"
  shows "unat (a - b) = 2 ^ 64 + unat a - unat b"
  using assms by (simp add: unat_sub_if_size word_size)

lemma unat_pred: "(x :: u64) \<noteq> 0 \<Longrightarrow> unat (x - 1) + 1 = unat x"
  using unat_gt_0 [of x] by (simp add: unat_minus_one)

lemma sint_pos_of_unat:
  assumes "0 < unat (x :: u64)" and "unat x < 2 ^ 63"
  shows "0 < sint x"
proof -
  have "(of_int (uint x) :: u64) = x" by simp
  then have "sint x = s64 (uint x)" by (metis sint_of_int_u64)
  moreover have e: "int (unat x) = uint x" by simp
  moreover have "int 0 < int (unat x)" "int (unat x) < int (2 ^ 63)"
    using assms by (simp_all only: of_nat_less_iff)
  then have u: "0 < uint x" "uint x < 2 ^ 63" unfolding e by simp_all
  moreover have "s64 (uint x) = uint x" by (rule s64_id) (use u in simp_all)
  ultimately show ?thesis using u by (simp only:)
qed

lemma unat_mono_u64: "(a :: u64) \<le> b \<longleftrightarrow> unat a \<le> unat b" "(a :: u64) < b \<longleftrightarrow> unat a < unat b"
  by (simp_all add: word_le_nat_alt word_less_nat_alt)

end
