(* ===== verification/C_String.thy ===== *)
theory C_String
  imports LT_Prelude
begin

text \<open>
  C strings and the part of the kernel's string library the code uses: character classes,
  \<open>strsep\<close>, \<open>simple_strtoull\<close> and the integer conversions of \<open>snprintf\<close>. A C string is
  the list of its characters before the terminating NUL.
\<close>

section \<open>Character classes\<close>

abbreviation ch :: "char \<Rightarrow> nat" where "ch c \<equiv> of_char c"

definition isdigit :: "char \<Rightarrow> bool" where
  "isdigit c \<longleftrightarrow> 48 \<le> ch c \<and> ch c \<le> 57"

definition isspace :: "char \<Rightarrow> bool" where
  "isspace c \<longleftrightarrow> (9 \<le> ch c \<and> ch c \<le> 13) \<or> ch c = 32 \<or> ch c = 160"

text \<open>The kernel's table also classifies the Latin-1 letters as alphabetic.\<close>

definition isalnum :: "char \<Rightarrow> bool" where
  "isalnum c \<longleftrightarrow> isdigit c \<or> (65 \<le> ch c \<and> ch c \<le> 90) \<or> (97 \<le> ch c \<and> ch c \<le> 122)
     \<or> (192 \<le> ch c \<and> ch c \<noteq> 215 \<and> ch c \<noteq> 247)"

definition digit_val :: "char \<Rightarrow> nat" where
  "digit_val c = ch c - 48"

definition digit_char :: "nat \<Rightarrow> char" where
  "digit_char d = char_of (48 + d)"

lemma of_char_digit_char: "d < 10 \<Longrightarrow> ch (digit_char d) = 48 + d"
  by (simp add: digit_char_def)

lemma isdigit_digit_char [c_string]: "d < 10 \<Longrightarrow> isdigit (digit_char d)"
  by (simp add: isdigit_def of_char_digit_char)

lemma digit_val_digit_char [c_string]: "d < 10 \<Longrightarrow> digit_val (digit_char d) = d"
  by (simp add: digit_val_def of_char_digit_char)

lemma isdigit_not_isspace [c_string]: "isdigit c \<Longrightarrow> \<not> isspace c"
  by (auto simp: isdigit_def isspace_def)

section \<open>Cutting strings\<close>

definition cstr :: "string \<Rightarrow> string" where
  "cstr b = takeWhile (\<lambda>c. c \<noteq> CHR 0x00) b"

text \<open>
  \<open>strsep(&s, d)\<close> for a one-character set of delimiters: the token, and the new value of
  \<open>s\<close> (\<open>None\<close> is NULL: no delimiter was found).
\<close>

definition strsep :: "char \<Rightarrow> string \<Rightarrow> string \<times> string option" where
  "strsep d s = (takeWhile (\<lambda>c. c \<noteq> d) s,
     case dropWhile (\<lambda>c. c \<noteq> d) s of [] \<Rightarrow> None | _ # r \<Rightarrow> Some r)"

lemma strsep_join: "strsep d s = (t, Some r) \<longleftrightarrow> s = t @ d # r \<and> d \<notin> set t"
proof
  assume a: "strsep d s = (t, Some r)"
  then obtain x where x: "dropWhile (\<lambda>c. c \<noteq> d) s = x # r" and t: "t = takeWhile (\<lambda>c. c \<noteq> d) s"
    by (auto simp: strsep_def split: list.splits)
  then have "x = d" using hd_dropWhile [of "\<lambda>c. c \<noteq> d" s] by simp
  with x t have "s = t @ d # r" using takeWhile_dropWhile_id [of "\<lambda>c. c \<noteq> d" s] by simp
  moreover have "d \<notin> set t" using t by (auto dest: set_takeWhileD)
  ultimately show "s = t @ d # r \<and> d \<notin> set t" ..
next
  assume a: "s = t @ d # r \<and> d \<notin> set t"
  then have "takeWhile (\<lambda>c. c \<noteq> d) s = t" "dropWhile (\<lambda>c. c \<noteq> d) s = d # r"
    by (auto simp: takeWhile_append dropWhile_append)
  then show "strsep d s = (t, Some r)" by (simp add: strsep_def)
qed

lemma strsep_none: "strsep d s = (t, None) \<longleftrightarrow> t = s \<and> d \<notin> set s"
proof (cases "d \<in> set s")
  case True
  then have "dropWhile (\<lambda>c. c \<noteq> d) s \<noteq> []" by (auto simp: dropWhile_eq_Nil_conv)
  with True show ?thesis by (auto simp: strsep_def split: list.split)
next
  case False
  then have dt: "dropWhile (\<lambda>c. c \<noteq> d) s = []" "takeWhile (\<lambda>c. c \<noteq> d) s = s"
    by (auto simp: dropWhile_eq_Nil_conv takeWhile_eq_all_conv)
  have "strsep d s = (s, None)" unfolding strsep_def dt by simp
  with False show ?thesis by auto
qed

lemma strsep_append [simp]: "d \<notin> set t \<Longrightarrow> strsep d (t @ d # r) = (t, Some r)"
  by (simp add: strsep_join)

section \<open>Decimal numbers\<close>

fun dec_acc :: "nat \<Rightarrow> string \<Rightarrow> nat" where
  "dec_acc a [] = a"
| "dec_acc a (c # cs) = dec_acc (10 * a + digit_val c) cs"

text \<open>
  \<open>simple_strtoull(s, &end, 10)\<close>: the value of the longest digit prefix and \<open>end\<close>. The
  kernel routine lets the value wrap, so callers convert it with \<open>of_nat\<close>.
\<close>

definition strtoull :: "string \<Rightarrow> nat \<times> string" where
  "strtoull s = (dec_acc 0 (takeWhile isdigit s), dropWhile isdigit s)"

fun show_nat :: "nat \<Rightarrow> string" where
  "show_nat n = (if n < 10 then [digit_char n] else show_nat (n div 10) @ [digit_char (n mod 10)])"

declare show_nat.simps [simp del]

definition show_int :: "int \<Rightarrow> string" where
  "show_int i = (if i < 0 then CHR ''-'' # show_nat (nat (- i)) else show_nat (nat i))"

lemma dec_acc_append: "dec_acc a (xs @ ys) = dec_acc (dec_acc a xs) ys"
  by (induction xs arbitrary: a) simp_all

lemma show_nat_digits [c_string]: "\<forall>c \<in> set (show_nat n). isdigit c"
proof (induction n rule: show_nat.induct)
  case (1 n)
  then show ?case
    by (cases "n < 10") (auto simp: show_nat.simps [of n] isdigit_digit_char)
qed

lemma show_nat_nonempty [c_string]: "show_nat n \<noteq> []"
  by (subst show_nat.simps) simp

lemma dec_acc_show_nat [c_string]: "dec_acc 0 (show_nat n) = n"
proof (induction n rule: show_nat.induct)
  case (1 n)
  then show ?case
    by (cases "n < 10") (simp_all add: show_nat.simps [of n] digit_val_digit_char dec_acc_append)
qed

lemma hd_show_nat_digit: "isdigit (hd (show_nat n))"
  using show_nat_digits [of n] show_nat_nonempty [of n] by simp

text \<open>Reading back a printed number: the round trip on which the file formats rest.\<close>

lemma strtoull_show_nat:
  assumes "r = [] \<or> \<not> isdigit (hd r)"
  shows "strtoull (show_nat n @ r) = (n, r)"
proof -
  have "takeWhile isdigit (show_nat n @ r) = show_nat n @ takeWhile isdigit r"
    "dropWhile isdigit (show_nat n @ r) = dropWhile isdigit r"
    using show_nat_digits [of n] by (simp_all add: takeWhile_append dropWhile_append)
  moreover have "takeWhile isdigit r = []" "dropWhile isdigit r = r"
    using assms by (cases r; auto)+
  ultimately show ?thesis by (simp add: strtoull_def dec_acc_show_nat)
qed

section \<open>Sequence files\<close>

text \<open>
  The buffer of a \<open>seq_file\<close>: \<open>seq_printf\<close> appends its text when there is room for it and for
  one character more, and otherwise fills the buffer up and returns -1; the caller of the show
  function then starts again with a larger buffer.
\<close>

record seq_file =
  sf_text :: string
  sf_size :: nat
  sf_full :: bool

definition seq_printf :: "string \<Rightarrow> seq_file \<Rightarrow> int \<times> seq_file" where
  "seq_printf str m =
     (if \<not> sf_full m \<and> length (sf_text m) + length str < sf_size m then (0, m\<lparr>sf_text := sf_text m @ str\<rparr>)
      else (- 1, m\<lparr>sf_full := True\<rparr>))"

end
