(* ===== verification/Sscanf.thy ===== *)
theory Sscanf
  imports C_String
begin

text \<open>
  The kernel's \<open>sscanf\<close>, as far as the rule parser uses it: a format is a list of
  directives, and the interpreter stops at the first directive that does not match. The
  result is the list of the values converted so far (its length is the return value of
  \<open>sscanf\<close>) and, when a \<open>%n\<close> was reached, the input that was left there.
\<close>

datatype conv = Conv_d | Conv_u | Conv_llu

datatype directive = Ws | Lit char | Conv conv | CountN

definition skip_spaces :: "string \<Rightarrow> string" where
  "skip_spaces s = dropWhile isspace s"

text \<open>
  One integer conversion. It fails at the end of the input, then skips white space, and
  needs a digit (after a minus sign for \<open>%d\<close>). The parsed value is cut to the width of
  the argument.
\<close>

definition convert :: "conv \<Rightarrow> string \<Rightarrow> (int \<times> string) option" where
  "convert k s =
     (if s = [] then None
      else let t = skip_spaces s in
        (case k of
          Conv_d \<Rightarrow>
            (case t of
              [] \<Rightarrow> None
            | c # r \<Rightarrow>
                if c = CHR ''-'' then
                  (if r \<noteq> [] \<and> isdigit (hd r)
                   then let (v, e) = strtoull r in Some (s32 (- int v), e) else None)
                else if isdigit c then let (v, e) = strtoull t in Some (s32 (int v), e)
                else None)
        | Conv_u \<Rightarrow>
            (if t \<noteq> [] \<and> isdigit (hd t)
             then let (v, e) = strtoull t in Some (int v mod 2 ^ 32, e) else None)
        | Conv_llu \<Rightarrow>
            (if t \<noteq> [] \<and> isdigit (hd t)
             then let (v, e) = strtoull t in Some (int v mod 2 ^ 64, e) else None)))"

fun vsscanf :: "directive list \<Rightarrow> string \<Rightarrow> int list \<times> string option" where
  "vsscanf [] s = ([], None)"
| "vsscanf (Ws # f) s = vsscanf f (skip_spaces s)"
| "vsscanf (Lit c # f) s =
     (case s of
       [] \<Rightarrow> ([], None)
     | x # r \<Rightarrow> if x = c then vsscanf f r else ([], None))"
| "vsscanf (CountN # f) s =
     (let (vs, n) = vsscanf f s in (vs, case n of None \<Rightarrow> Some s | Some r \<Rightarrow> Some r))"
| "vsscanf (Conv k # f) s =
     (case convert k s of
       None \<Rightarrow> ([], None)
     | Some (v, r) \<Rightarrow> let (vs, n) = vsscanf f r in (v # vs, n))"

section \<open>Reading back printed numbers\<close>

definition stops :: "string \<Rightarrow> bool" where
  "stops r \<longleftrightarrow> r = [] \<or> \<not> isdigit (hd r)"

lemma stops_simps [simp]: "stops []" "stops (c # r) \<longleftrightarrow> \<not> isdigit c"
  by (simp_all add: stops_def)

lemma not_isdigit_simps [simp]:
  "\<not> isdigit CHR '',''" "\<not> isdigit CHR 0x0A" "\<not> isdigit CHR ''-''"
  by (simp_all add: isdigit_def)

lemma isspace_simps [simp]: "isspace CHR 0x0A" "\<not> isspace CHR '',''" "\<not> isspace CHR ''-''"
  by (simp_all add: isspace_def)

lemma skip_spaces_digit: "isdigit c \<Longrightarrow> skip_spaces (c # r) = c # r"
  by (simp add: skip_spaces_def isdigit_not_isspace)

lemma skip_spaces_show_nat [simp]: "skip_spaces (show_nat n @ r) = show_nat n @ r"
  using hd_show_nat_digit [of n] show_nat_nonempty [of n]
  by (cases "show_nat n") (simp_all add: skip_spaces_digit)

lemma strtoull_stops: "stops r \<Longrightarrow> strtoull (show_nat n @ r) = (n, r)"
  by (simp add: strtoull_show_nat stops_def)

lemma convert_llu_show [simp]:
  assumes "stops r"
  shows "convert Conv_llu (show_nat (unat (w :: u64)) @ r) = Some (uint w, r)"
proof -
  have "int (unat w) mod 2 ^ 64 = uint w"
    using uint_lt2p [of w] by simp
  with assms show ?thesis
    by (simp add: convert_def show_nat_nonempty hd_append hd_show_nat_digit strtoull_stops)
qed

lemma convert_u_show [simp]:
  assumes "stops r"
  shows "convert Conv_u (show_nat (unat (w :: u32)) @ r) = Some (uint w, r)"
proof -
  have "int (unat w) mod 2 ^ 32 = uint w"
    using uint_lt2p [of w] by simp
  with assms show ?thesis
    by (simp add: convert_def show_nat_nonempty hd_append hd_show_nat_digit strtoull_stops)
qed

lemma convert_d_show [simp]:
  assumes "stops r" and "s32 i = i"
  shows "convert Conv_d (show_int i @ r) = Some (i, r)"
proof (cases "i < 0")
  case True
  have "strtoull (show_nat (nat (- i)) @ r) = (nat (- i), r)" using assms(1) by (rule strtoull_stops)
  with True assms(2) show ?thesis
    by (simp add: convert_def show_int_def skip_spaces_def show_nat_nonempty hd_append
        hd_show_nat_digit)
next
  case False
  obtain c cs where c: "show_nat (nat i) = c # cs" using show_nat_nonempty [of "nat i"]
    by (cases "show_nat (nat i)") auto
  then have d: "isdigit c" using hd_show_nat_digit [of "nat i"] by simp
  then have m: "c \<noteq> CHR ''-''" by auto
  have "strtoull (show_nat (nat i) @ r) = (nat i, r)" using assms(1) by (rule strtoull_stops)
  with False assms(2) c d m show ?thesis
    by (simp add: convert_def show_int_def skip_spaces_digit)
qed

text \<open>The number of values \<open>sscanf\<close> reports is at most the number of conversions asked for.\<close>

lemma vsscanf_length: "length (fst (vsscanf f s)) \<le> length (filter (\<lambda>d. case d of Conv _ \<Rightarrow> True | _ \<Rightarrow> False) f)"
  by (induction f s rule: vsscanf.induct) (auto split: list.splits option.splits prod.splits)

end
