(* ===== verification/Qos_Rules.thy ===== *)
theory Qos_Rules
  imports Sscanf
begin

text \<open>
  The QoS rule table of the object storage client: the data of \<open>metric.h\<close>, the parser
  \<open>parse_qos_rules\<close> (\<open>qos_rules.c\<close>) and the \<open>qos_rules\<close> proc file of
  \<open>lproc_osc.c\<close>, which prints the table and feeds what is written to it to the parser.
\<close>

section \<open>Data\<close>

record time_ewma =
  alpha_inv :: u64
  ea :: u64
  last_time :: timeval

record qos_rule_t =
  ack_ewma_lower :: u64
  ack_ewma_upper :: u64
  send_ewma_lower :: u64
  send_ewma_upper :: u64
  rtt_ratio100_lower :: u32
  rtt_ratio100_upper :: u32
  m100 :: int
  b100 :: int
  tau :: u32
  used_times :: int
  ack_ewma_avg :: u64
  send_ewma_avg :: u64
  rtt_ratio100_avg :: u32

text \<open>
  The arrays indexed by the direction of the transfer (0 read, 1 write) are functions; the
  rule array is \<open>None\<close> for the NULL pointer. The lock is left out: every operation below
  runs under it.
\<close>

record qos_data_t =
  ack_ewma :: time_ewma
  sent_ewma :: time_ewma
  rtt_ratio100 :: int
  smallest_rtt :: int
  max_rpc_in_flight100 :: int
  last_mrif_update_time :: timeval
  min_gap_between_updating_mrif :: int
  rule_no :: int
  last_req_sec :: "nat \<Rightarrow> int"
  bw_last_sec :: "nat \<Rightarrow> u64"
  sum_bytes_this_sec :: "nat \<Rightarrow> u64"
  min_usec_between_rpcs :: u32
  last_rpc_time :: timeval
  rules :: "qos_rule_t list option"

section \<open>parse_qos_rules\<close>

text \<open>\<open>sizeof(struct qos_rule_t)\<close> on the 64-bit kernel: 76 bytes of fields, padded to 80.\<close>

definition rule_size :: u64 where
  "rule_size = 80"

definition header_fmt :: "directive list" where
  "header_fmt = [Conv Conv_d, Lit CHR '','', Conv Conv_d, Ws, CountN]"

definition rule_fmt :: "directive list" where
  "rule_fmt =
     [Conv Conv_llu, Lit CHR '','', Conv Conv_llu, Lit CHR '','', Conv Conv_llu, Lit CHR '','',
      Conv Conv_llu, Lit CHR '','', Conv Conv_u, Lit CHR '','', Conv Conv_u, Lit CHR '','',
      Conv Conv_d, Lit CHR '','', Conv Conv_d, Lit CHR '','', Conv Conv_u, CountN]"

definition zero_rule :: qos_rule_t where
  "zero_rule = \<lparr>ack_ewma_lower = 0, ack_ewma_upper = 0, send_ewma_lower = 0, send_ewma_upper = 0,
     rtt_ratio100_lower = 0, rtt_ratio100_upper = 0, m100 = 0, b100 = 0, tau = 0, used_times = 0,
     ack_ewma_avg = 0, send_ewma_avg = 0, rtt_ratio100_avg = 0\<rparr>"

text \<open>One line: nine numbers into a zeroed rule; anything else is a parse error.\<close>

definition scan_rule :: "string \<Rightarrow> (qos_rule_t \<times> string) option" where
  "scan_rule p =
     (case vsscanf rule_fmt p of
       ([a, b, c, d, e, f, g, h, i], Some rest) \<Rightarrow>
         Some (zero_rule\<lparr>ack_ewma_lower := of_int a, ack_ewma_upper := of_int b,
                 send_ewma_lower := of_int c, send_ewma_upper := of_int d,
                 rtt_ratio100_lower := of_int e, rtt_ratio100_upper := of_int f,
                 m100 := g, b100 := h, tau := of_int i\<rparr>, rest)
     | _ \<Rightarrow> None)"

text \<open>\<open>while (*p != 0 && *(p++) != newline) ;\<close>\<close>

fun skip_line :: "string \<Rightarrow> string" where
  "skip_line [] = []"
| "skip_line (c # cs) = (if c = CHR 0x0A then cs else skip_line cs)"

fun scan_rules :: "nat \<Rightarrow> string \<Rightarrow> qos_rule_t list option" where
  "scan_rules 0 p = Some []"
| "scan_rules (Suc n) p =
     (case scan_rule p of
       None \<Rightarrow> None
     | Some (r, rest) \<Rightarrow>
         (case scan_rules n (skip_line rest) of None \<Rightarrow> None | Some rs \<Rightarrow> Some (r # rs)))"

definition clear_rules :: "qos_data_t \<Rightarrow> qos_data_t" where
  "clear_rules q = q\<lparr>rule_no := 0, rules := None\<rparr>"

text \<open>
  \<open>alloc n\<close> tells whether \<open>LIBCFS_ALLOC_ATOMIC\<close> can provide \<open>n\<close> bytes. The rule count
  is multiplied as a \<open>size_t\<close>, so a negative count asks for almost all of the address
  space.
\<close>

definition parse_qos_rules ::
    "(u64 \<Rightarrow> bool) \<Rightarrow> string \<Rightarrow> qos_data_t \<Rightarrow> int \<times> qos_data_t" where
  "parse_qos_rules alloc buf qos =
     (if length buf \<le> 2 \<and> buf \<noteq> [] \<and> hd buf = CHR ''0'' then (0, clear_rules qos)
      else case vsscanf header_fmt buf of
        ([new_rule_no, rules_per_sec], Some p) \<Rightarrow>
          if new_rule_no = 0 \<or> rules_per_sec = 0 then (0, clear_rules qos)
          else
            let qos1 = qos\<lparr>rule_no := new_rule_no,
                  min_gap_between_updating_mrif := 1000000 sdiv rules_per_sec\<rparr> in
            if \<not> alloc (of_int new_rule_no * rule_size)
            then (- ENOMEM, qos1\<lparr>rules := None\<rparr>)
            else (case scan_rules (nat new_rule_no) p of
                   None \<Rightarrow> (- EINVAL, clear_rules qos1)
                 | Some rs \<Rightarrow> (0, qos1\<lparr>rules := Some rs\<rparr>))
      | _ \<Rightarrow> (- EINVAL, qos))"

section \<open>The proc file\<close>

definition show_rule :: "qos_rule_t \<Rightarrow> string" where
  "show_rule r =
     show_nat (unat (ack_ewma_lower r)) @ '','' @ show_nat (unat (ack_ewma_upper r)) @ '','' @
     show_nat (unat (send_ewma_lower r)) @ '','' @ show_nat (unat (send_ewma_upper r)) @ '','' @
     show_nat (unat (rtt_ratio100_lower r)) @ '','' @ show_nat (unat (rtt_ratio100_upper r)) @ '','' @
     show_int (m100 r) @ '','' @ show_int (b100 r) @ '','' @ show_nat (unat (tau r)) @ '','' @
     show_int (used_times r) @ '','' @
     show_nat (unat (ack_ewma_avg r)) @ '','' @ show_nat (unat (send_ewma_avg r)) @ '','' @
     show_nat (unat (rtt_ratio100_avg r)) @ [CHR 0x0A]"

text \<open>
  \<open>bytes_needed += snprintf(kernbuf + bytes_needed, free_buf_size, ...)\<close>: what the buffer
  of \<open>bsize\<close> bytes holds so far and the number of bytes the whole text needs.
\<close>

definition snprintf_at :: "nat \<Rightarrow> string \<times> nat \<Rightarrow> string \<Rightarrow> string \<times> nat" where
  "snprintf_at bsize st txt =
     (case st of (buf, needed) \<Rightarrow>
       let free = (if needed < bsize then bsize - needed else 0)
       in (buf @ take (free - 1) txt, needed + length txt))"

text \<open>One run through the table; it also resets \<open>rule_no\<close> when there is nothing to print.\<close>

definition show_pass :: "nat \<Rightarrow> qos_data_t \<Rightarrow> (string \<times> nat \<times> qos_data_t) outcome" where
  "show_pass bsize qos =
     (let none = (rule_no qos = 0 \<or> rules qos = None \<or> min_gap_between_updating_mrif qos = 0);
          qos' = (if none then qos\<lparr>rule_no := 0\<rparr> else qos);
          header = (if none then ''0'' @ [CHR 0x0A]
                    else show_int (rule_no qos) @ '','' @
                         show_int (1000000 sdiv min_gap_between_updating_mrif qos) @ [CHR 0x0A]);
          rs = (case rules qos of None \<Rightarrow> [] | Some rs \<Rightarrow> rs);
          n = nat (rule_no qos')
      in if length rs < n then Fault OVERRUN
         else let (buf, needed) =
                foldl (snprintf_at bsize) (snprintf_at bsize ([], 0) header)
                  (map show_rule (take n rs))
              in Ret (buf, needed, qos'))"

text \<open>
  The \<open>do ... while (1)\<close> loop: the first pass measures, the second prints. The fuel bounds
  the passes (\<open>seq_show_two_passes\<close> below shows that two are enough). A failed
  allocation leaves a NULL buffer with a positive bsize for the next \<open>snprintf\<close>.
\<close>

fun show_loop ::
    "(nat \<Rightarrow> bool) \<Rightarrow> nat \<Rightarrow> nat \<Rightarrow> bool \<Rightarrow> qos_data_t \<Rightarrow> (string \<times> qos_data_t) outcome option" where
  "show_loop alloc 0 bsize have_buf qos = None"
| "show_loop alloc (Suc fuel) bsize have_buf qos =
     (if 0 < bsize \<and> \<not> have_buf then Some (Fault NULL_DEREF)
      else case show_pass bsize qos of
        Fault e \<Rightarrow> Some (Fault e)
      | Ret (buf, needed, qos') \<Rightarrow>
          if bsize < needed + 1
          then show_loop alloc fuel (needed + 1) (alloc (needed + 1)) qos'
          else Some (Ret (buf, qos')))"

definition osc_qos_rules_seq_show ::
    "(nat \<Rightarrow> bool) \<Rightarrow> qos_data_t \<Rightarrow> (string \<times> qos_data_t) outcome option" where
  "osc_qos_rules_seq_show alloc qos = show_loop alloc 2 0 False qos"

definition zero_time :: timeval where
  "zero_time = \<lparr>tv_sec = 0, tv_usec = 0\<rparr>"

text \<open>
  The write handler: \<open>alloc_buf\<close> and \<open>copy\<close> are the outcomes of the buffer allocation and
  of \<open>copy_from_user\<close> (\<open>None\<close>: it faulted).
\<close>

definition osc_qos_rules_seq_write ::
    "(u64 \<Rightarrow> bool) \<Rightarrow> bool \<Rightarrow> string option \<Rightarrow> nat \<Rightarrow> qos_data_t \<Rightarrow> int \<times> qos_data_t" where
  "osc_qos_rules_seq_write alloc alloc_buf copy count qos =
     (if \<not> alloc_buf then (- ENOMEM, qos)
      else case copy of
        None \<Rightarrow> (- EFAULT, qos)
      | Some kernbuf \<Rightarrow>
          let (rc, q) = parse_qos_rules alloc (cstr kernbuf) qos;
              q1 = q\<lparr>ack_ewma := (ack_ewma q)\<lparr>ea := 0, last_time := zero_time\<rparr>,
                     sent_ewma := (sent_ewma q)\<lparr>ea := 0, last_time := zero_time\<rparr>,
                     rtt_ratio100 := 0, smallest_rtt := 0\<rparr>
          in (if rc = 0 then int count else rc, q1))"

section \<open>The table invariant\<close>

text \<open>
  What \<open>qos_adjust\<close> and the show handler rely on: where the rule pointer is not NULL, its
  array has at least \<open>rule_no\<close> elements.
\<close>

definition qos_table_ok :: "qos_data_t \<Rightarrow> bool" where
  "qos_table_ok q \<longleftrightarrow> (case rules q of None \<Rightarrow> True | Some rs \<Rightarrow> rule_no q \<le> int (length rs))"

lemma scan_rules_length: "scan_rules n p = Some rs \<Longrightarrow> length rs = n"
  by (induction n p arbitrary: rs rule: scan_rules.induct)
     (auto split: option.splits prod.splits)

lemma clear_rules_table_ok [simp]: "qos_table_ok (clear_rules q)"
  by (simp add: qos_table_ok_def clear_rules_def)

lemma clear_rules_fields [simp]: "rule_no (clear_rules q) = 0" "rules (clear_rules q) = None"
  by (simp_all add: clear_rules_def)

lemma qos_table_ok_cong: "rules a = rules b \<Longrightarrow> rule_no a = rule_no b \<Longrightarrow> qos_table_ok a = qos_table_ok b"
  by (simp add: qos_table_ok_def split: option.split)

text \<open>No field but the rule pointer and the rule count matters to the invariant.\<close>

lemma qos_table_ok_updates [simp]:
  "qos_table_ok (q\<lparr>ack_ewma := a\<rparr>) = qos_table_ok q"
  "qos_table_ok (q\<lparr>sent_ewma := a\<rparr>) = qos_table_ok q"
  "qos_table_ok (q\<lparr>rtt_ratio100 := i\<rparr>) = qos_table_ok q"
  "qos_table_ok (q\<lparr>smallest_rtt := i\<rparr>) = qos_table_ok q"
  "qos_table_ok (q\<lparr>max_rpc_in_flight100 := i\<rparr>) = qos_table_ok q"
  "qos_table_ok (q\<lparr>min_usec_between_rpcs := w\<rparr>) = qos_table_ok q"
  "qos_table_ok (q\<lparr>last_rpc_time := t\<rparr>) = qos_table_ok q"
  by (simp_all add: qos_table_ok_def split: option.split)

section \<open>Printing and reading back\<close>

definition reset_counters :: "qos_rule_t \<Rightarrow> qos_rule_t" where
  "reset_counters r = r\<lparr>used_times := 0, ack_ewma_avg := 0, send_ewma_avg := 0, rtt_ratio100_avg := 0\<rparr>"

definition rule_fits :: "qos_rule_t \<Rightarrow> bool" where
  "rule_fits r \<longleftrightarrow> s32 (m100 r) = m100 r \<and> s32 (b100 r) = b100 r"

definition counters_text :: "qos_rule_t \<Rightarrow> string" where
  "counters_text r = '','' @ show_int (used_times r) @ '','' @
     show_nat (unat (ack_ewma_avg r)) @ '','' @ show_nat (unat (send_ewma_avg r)) @ '','' @
     show_nat (unat (rtt_ratio100_avg r))"

lemma newline_notin_show_nat [simp]: "CHR 0x0A \<notin> set (show_nat n)"
  using show_nat_digits [of n] by auto

lemma newline_notin_show_int [simp]: "CHR 0x0A \<notin> set (show_int i)"
  by (simp add: show_int_def)

lemma skip_line_append: "CHR 0x0A \<notin> set t \<Longrightarrow> skip_line (t @ CHR 0x0A # r) = r"
  by (induction t) auto

lemma skip_counters [simp]: "skip_line (counters_text r @ CHR 0x0A # s) = s"
  by (rule skip_line_append) (simp add: counters_text_def)

lemma scan_rule_show:
  assumes "rule_fits r"
  shows "scan_rule (show_rule r @ s) = Some (reset_counters r, counters_text r @ CHR 0x0A # s)"
  using assms
  by (simp add: scan_rule_def show_rule_def rule_fmt_def rule_fits_def reset_counters_def zero_rule_def counters_text_def)

lemma scan_rules_show:
  assumes "\<forall>r \<in> set rs. rule_fits r"
  shows "scan_rules (length rs) (concat (map show_rule rs)) = Some (map reset_counters rs)"
  using assms
  by (induction rs) (simp_all add: scan_rule_show)

lemma snprintf_at_prefix:
  "snprintf_at bsize (take (bsize - 1) t, length t) txt =
     (take (bsize - 1) (t @ txt), length (t @ txt))"
  by (simp add: snprintf_at_def)

lemma foldl_snprintf:
  "foldl (snprintf_at bsize) (take (bsize - 1) t, length t) ts =
     (take (bsize - 1) (t @ concat ts), length (t @ concat ts))"
proof (induction ts arbitrary: t)
  case Nil
  then show ?case by simp
next
  case (Cons x ts)
  show ?case
    unfolding foldl_Cons snprintf_at_prefix using Cons.IH [of "t @ x"] by (simp del: take_append)
qed

text \<open>What one pass prints, for a table that is in order.\<close>

definition table_text :: "qos_data_t \<Rightarrow> string" where
  "table_text q =
     (if rule_no q = 0 \<or> rules q = None \<or> min_gap_between_updating_mrif q = 0
      then ''0'' @ [CHR 0x0A]
      else show_int (rule_no q) @ '','' @
           show_int (1000000 sdiv min_gap_between_updating_mrif q) @ [CHR 0x0A] @
           concat (map show_rule (take (nat (rule_no q)) (the (rules q)))))"

definition after_show :: "qos_data_t \<Rightarrow> qos_data_t" where
  "after_show q =
     (if rules q = None \<or> min_gap_between_updating_mrif q = 0 then q\<lparr>rule_no := 0\<rparr> else q)"

lemma show_pass_ok:
  assumes "qos_table_ok q"
  shows "show_pass bsize q =
     Ret (take (bsize - 1) (table_text q), length (table_text q), after_show q)"
proof -
  have f: "foldl (snprintf_at bsize) (snprintf_at bsize ([], 0) t) ts =
      (take (bsize - 1) (t @ concat ts), length (t @ concat ts))" for t ts
    using foldl_snprintf [of bsize t ts] snprintf_at_prefix [of bsize "[]" t] by simp
  show ?thesis
    using assms
    by (auto simp: show_pass_def f table_text_def after_show_def qos_table_ok_def Let_def
        split: option.splits simp del: take_append)
qed

lemma after_show_text: "table_text (after_show q) = table_text q" "after_show (after_show q) = after_show q"
  by (auto simp: table_text_def after_show_def)

lemma after_show_table_ok: "qos_table_ok q \<Longrightarrow> qos_table_ok (after_show q)"
  by (auto simp: qos_table_ok_def after_show_def split: option.splits)

lemma show_loop_text:
  assumes "qos_table_ok q" and "alloc (length (table_text q) + 1)" and "2 \<le> fuel"
  shows "show_loop alloc fuel 0 False q = Some (Ret (table_text q, after_show q))"
proof -
  obtain k where "fuel = Suc (Suc k)" using assms(3) by (metis Suc_le_D numeral_2_eq_2 Suc_le_mono)
  with assms show ?thesis
    by (simp add: show_pass_ok after_show_table_ok after_show_text)
qed


lemma header_scan:
  assumes "s32 n = n" and "s32 k = k" and "p \<noteq> [] \<longrightarrow> isdigit (hd p)"
  shows "vsscanf header_fmt (show_int n @ '','' @ show_int k @ [CHR 0x0A] @ p) = ([n, k], Some p)"
proof -
  have "skip_spaces (CHR 0x0A # p) = p"
    using assms(3) by (cases p) (simp_all add: skip_spaces_def isdigit_not_isspace)
  with assms(1,2) show ?thesis by (simp add: header_fmt_def)
qed

lemma hd_show_rule: "isdigit (hd (show_rule r @ s))"
  by (simp add: show_rule_def hd_append show_nat_nonempty hd_show_nat_digit)

lemma hd_concat_show_rules:
  "concat (map show_rule rs) \<noteq> [] \<longrightarrow> isdigit (hd (concat (map show_rule rs)))"
  by (cases rs) (simp_all add: hd_show_rule)

lemma length_show_int: "0 < length (show_int i)"
  using show_nat_nonempty by (simp add: show_int_def)

lemma sdiv_1000000_fits: "s32 (1000000 sdiv g) = 1000000 sdiv g"
  using abs_sdiv_le [of 1000000 g] by (intro s32_id) simp_all

lemma parse_keeps_table_ok:
  assumes "qos_table_ok q"
  shows "qos_table_ok (snd (parse_qos_rules alloc buf q))"
proof -
  have "qos_table_ok (q\<lparr>rule_no := n, min_gap_between_updating_mrif := g, rules := Some rs\<rparr>)"
    if "scan_rules (nat n) p = Some rs" for n g rs p
    using scan_rules_length [OF that] by (simp add: qos_table_ok_def)
  moreover have "qos_table_ok (q\<lparr>rule_no := n, min_gap_between_updating_mrif := g, rules := None\<rparr>)" for n g
    by (simp add: qos_table_ok_def)
  ultimately show ?thesis using assms
    by (simp add: parse_qos_rules_def Let_def split: list.split prod.split option.split)
qed

section \<open>Properties\<close>

text \<open>
  Whatever the text, the allocator's answer and the return code, parsing keeps the
  invariant of the rule table: where the rule pointer is not NULL, the array behind it has
  at least \<open>rule_no\<close> elements, so the loops over the table stay inside it.
\<close>

theorem parse_qos_rules_table_ok:
  assumes "qos_table_ok q"
  shows "qos_table_ok (snd (parse_qos_rules alloc buf q))"
  using assms by (rule parse_keeps_table_ok)

definition empty_qos :: qos_data_t where
  "empty_qos = \<lparr>ack_ewma = \<lparr>alpha_inv = 8, ea = 0, last_time = zero_time\<rparr>,
     sent_ewma = \<lparr>alpha_inv = 8, ea = 0, last_time = zero_time\<rparr>, rtt_ratio100 = 0,
     smallest_rtt = 0, max_rpc_in_flight100 = 800, last_mrif_update_time = zero_time,
     min_gap_between_updating_mrif = 0, rule_no = 0, last_req_sec = (\<lambda>_. 0),
     bw_last_sec = (\<lambda>_. 0), sum_bytes_this_sec = (\<lambda>_. 0), min_usec_between_rpcs = 0,
     last_rpc_time = zero_time, rules = None\<rparr>"

definition sample_rule :: qos_rule_t where
  "sample_rule = zero_rule\<lparr>ack_ewma_upper := 10000, send_ewma_lower := 9, send_ewma_upper := 10009,
     rtt_ratio100_upper := 2147483647, m100 := 163, b100 := -923, tau := 7, used_times := 3\<rparr>"

definition sample_qos :: qos_data_t where
  "sample_qos = empty_qos\<lparr>rule_no := 1, min_gap_between_updating_mrif := 1000000,
     rules := Some [sample_rule]\<rparr>"

theorem parse_qos_rules_table_ok_witness:
  "qos_table_ok sample_qos \<and> qos_table_ok (snd (parse_qos_rules (\<lambda>_. True) ''2,1'' sample_qos))"
proof -
  have h: "qos_table_ok sample_qos" by (simp add: qos_table_ok_def sample_qos_def)
  show ?thesis using h parse_qos_rules_table_ok [OF h, of "\<lambda>_. True" "''2,1''"] by simp
qed


text \<open>
  The comment above the parser promises that after any error the rule pointer is NULL and
  the rule count 0. A first line that is not two numbers is reported as \<open>-EINVAL\<close> but keeps
  the previous rules in force.
\<close>

theorem parse_bad_header_keeps_rules:
  "parse_qos_rules alloc ''wrong data'' q = (- EINVAL, q)"
  by (simp add: parse_qos_rules_def header_fmt_def convert_def skip_spaces_def isspace_def isdigit_def)





lemmas scan_eval = convert_def skip_spaces_def strtoull_def isspace_def isdigit_def digit_val_def s32_id

text \<open>
  Reading the proc file is not free of side effects. A rate above 1000000 updates per
  second is accepted and makes the update gap 0; the next read of the file then prints
  \<open>0\<close> and sets \<open>rule_no\<close> to 0, which switches the rules off while their array stays
  allocated.
\<close>

theorem seq_show_drops_rules:
  "case parse_qos_rules (\<lambda>_. True) (''1,2000000'' @ CHR 0x0A # ''0,9,0,9,0,9,100,0,0'') empty_qos of
     (rc, q) \<Rightarrow> rc = 0 \<and> rule_no q = 1 \<and>
       osc_qos_rules_seq_show (\<lambda>_. True) q = Some (Ret (''0'' @ [CHR 0x0A], q\<lparr>rule_no := 0\<rparr>))"
proof -
  let ?line = "''0,9,0,9,0,9,100,0,0''"
  let ?q = "empty_qos\<lparr>rule_no := 1, min_gap_between_updating_mrif := 0,
     rules := Some [zero_rule\<lparr>ack_ewma_upper := 9, send_ewma_upper := 9, rtt_ratio100_upper := 9,
       m100 := 100\<rparr>]\<rparr>"
  have h: "vsscanf header_fmt (''1,2000000'' @ CHR 0x0A # ?line) = ([1, 2000000], Some ?line)"
    by (simp add: header_fmt_def scan_eval)
  have r: "scan_rules 1 ?line = Some [zero_rule\<lparr>ack_ewma_upper := 9, send_ewma_upper := 9,
     rtt_ratio100_upper := 9, m100 := 100\<rparr>]"
    by (simp add: scan_rule_def rule_fmt_def zero_rule_def scan_eval)
  have "1000000 sdiv (2000000 :: int) = 0" by (simp add: sdiv_nonneg)
  with r have p: "parse_qos_rules (\<lambda>_. True) (''1,2000000'' @ CHR 0x0A # ?line) empty_qos = (0, ?q)"
    by (simp only: parse_qos_rules_def h) (simp add: empty_qos_def)
  have "qos_table_ok ?q" by (simp add: qos_table_ok_def)
  then have "osc_qos_rules_seq_show (\<lambda>_. True) ?q = Some (Ret (table_text ?q, after_show ?q))"
    by (simp add: osc_qos_rules_seq_show_def show_loop_text)
  then show ?thesis unfolding p by (simp add: table_text_def after_show_def)
qed

end
