(* ===== verification/Second_Meter.thy ===== *)
theory Second_Meter
  imports Main
begin

text \<open>
  Per-second accounting. Three components count bytes per wall-clock second with the same
  discipline (the QoS bandwidth estimate, the server's lprocfs bandwidth counters and the
  LFZ byte budget): a sample of the current second is added, a sample of a later second
  starts a new count, a sample of an earlier second is ignored. The locales state that
  discipline and derive from it what the counter holds after a whole trace.
\<close>

definition bytes_in :: "int \<Rightarrow> (int \<times> 'w :: comm_monoid_add) list \<Rightarrow> 'w" where
  "bytes_in t es = sum_list (map snd (filter (\<lambda>(sec, b). sec = t) es))"

lemma bytes_in_simps [simp]:
  "bytes_in t [] = 0"
  "bytes_in t (es @ fs) = bytes_in t es + bytes_in t fs"
  "bytes_in t [(sec, b)] = (if sec = t then b else 0)"
  by (simp_all add: bytes_in_def)

lemma bytes_in_none: "\<forall>(sec, b) \<in> set es. sec \<noteq> t \<Longrightarrow> bytes_in t es = 0"
  by (induction es) (auto simp: bytes_in_def)

text \<open>A trace whose clock never runs backwards, from a starting second on.\<close>

definition clocked :: "int \<Rightarrow> (int \<times> 'w) list \<Rightarrow> bool" where
  "clocked t0 es \<longleftrightarrow> sorted (t0 # map fst es)"

lemma clocked_snoc: "clocked t0 (es @ [(sec, b)]) \<longleftrightarrow> clocked t0 es \<and> (\<forall>e \<in> set es. fst e \<le> sec) \<and> t0 \<le> sec"
  by (auto simp: clocked_def sorted_append)

lemma clocked_last_le:
  assumes "clocked t0 (es @ [(sec, b)])"
  shows "last (t0 # map fst es) \<le> sec"
proof -
  have "last (t0 # map fst es) \<in> set (t0 # map fst es)" by (rule last_in_set) simp
  with assms show ?thesis by (auto simp: clocked_snoc)
qed

locale second_meter =
  fixes last_sec :: "'s \<Rightarrow> int"
    and acc :: "'s \<Rightarrow> 'w :: comm_monoid_add"
    and sample :: "int \<Rightarrow> 'w \<Rightarrow> 's \<Rightarrow> 's"
    and counted :: "int \<Rightarrow> 'w \<Rightarrow> bool"
  assumes sample_same: "counted sec b \<Longrightarrow> sec = last_sec s \<Longrightarrow> last_sec (sample sec b s) = sec \<and> acc (sample sec b s) = acc s + b"
    and sample_later: "counted sec b \<Longrightarrow> last_sec s < sec \<Longrightarrow> last_sec (sample sec b s) = sec \<and> acc (sample sec b s) = b"
    and sample_earlier: "counted sec b \<Longrightarrow> sec < last_sec s \<Longrightarrow> last_sec (sample sec b s) = last_sec s \<and> acc (sample sec b s) = acc s"
begin

text \<open>A trace of samples the meter counts, with a clock that never runs backwards.\<close>

definition trace :: "'s \<Rightarrow> (int \<times> 'w) list \<Rightarrow> bool" where
  "trace s es \<longleftrightarrow> clocked (last_sec s) es \<and> (\<forall>e \<in> set es. counted (fst e) (snd e))"

lemma trace_snoc:
  "trace s (es @ [(sec, b)]) \<longleftrightarrow>
     trace s es \<and> (\<forall>e \<in> set es. fst e \<le> sec) \<and> last_sec s \<le> sec \<and> counted sec b"
  by (auto simp: trace_def clocked_snoc)

lemma trace_last_le: "trace s (es @ [(sec, b)]) \<Longrightarrow> last (last_sec s # map fst es) \<le> sec"
  by (auto simp: trace_def intro: clocked_last_le simp del: last.simps)

abbreviation run :: "(int \<times> 'w) list \<Rightarrow> 's \<Rightarrow> 's" where
  "run es s \<equiv> fold (\<lambda>(sec, b). sample sec b) es s"

lemma run_last_sec: "trace s es \<Longrightarrow> last_sec (run es s) = last (last_sec s # map fst es)"
proof (induction es rule: rev_induct)
  case (snoc e es)
  obtain sec b where e: "e = (sec, b)" by (cases e)
  from snoc e have IH: "last_sec (run es s) = last (last_sec s # map fst es)" and v: "counted sec b"
    by (simp_all add: trace_snoc)
  have "last (last_sec s # map fst es) \<le> sec"
    using snoc.prems e trace_last_le by metis
  then consider "sec = last_sec (run es s)" | "last_sec (run es s) < sec" using IH by linarith
  then show ?case using v by cases (simp_all add: e sample_same sample_later)
qed simp

lemma run_secs_le: "trace s es \<Longrightarrow> \<forall>(sec, b) \<in> set es. sec \<le> last_sec (run es s)"
  using run_last_sec [of s es]
  by (cases es rule: rev_cases) (fastforce simp: trace_snoc)+

lemma run_start_le: "trace s es \<Longrightarrow> last_sec s \<le> last_sec (run es s)"
  using run_last_sec [of s es] by (cases es rule: rev_cases) (auto simp: trace_snoc)

text \<open>
  After any trace the counter holds exactly the bytes of the trace's last second (and what
  it held before, if the clock has not moved since).
\<close>

lemma run_acc:
  assumes "trace s es"
  shows "acc (run es s) =
    (if last_sec (run es s) = last_sec s then acc s else 0) + bytes_in (last_sec (run es s)) es"
  using assms
proof (induction es rule: rev_induct)
  case (snoc e es)
  obtain sec b where e: "e = (sec, b)" by (cases e)
  let ?m = "run es s"
  from snoc.prems e have c: "trace s es" and s0: "last_sec s \<le> sec" and v: "counted sec b"
    by (simp_all add: trace_snoc)
  have IH: "acc ?m = (if last_sec ?m = last_sec s then acc s else 0) + bytes_in (last_sec ?m) es"
    by (rule snoc.IH [OF c])
  have "last_sec (run (es @ [e]) s) = sec"
    using run_last_sec [OF snoc.prems] e by simp
  then have lst: "last_sec (sample sec b ?m) = sec" using e by simp
  have "last_sec ?m \<le> sec"
    using run_last_sec [OF c] snoc.prems e trace_last_le by metis
  then consider "sec = last_sec ?m" | "last_sec ?m < sec" by linarith
  then show ?case
  proof cases
    case 1
    with IH lst v show ?thesis by (simp add: e sample_same ac_simps)
  next
    case 2
    then have "bytes_in sec es = 0" using run_secs_le [OF c] by (intro bytes_in_none) fastforce
    moreover have "sec \<noteq> last_sec s" using 2 run_start_le [OF c] by simp
    ultimately show ?thesis using 2 lst v by (simp add: e sample_later)
  qed
qed simp

end

text \<open>A meter that also remembers the count of the second before the current one.\<close>

locale second_meter_prev = second_meter +
  fixes prev :: "'a \<Rightarrow> 'b"
  assumes prev_same: "counted sec b \<Longrightarrow> sec = last_sec s \<Longrightarrow> prev (sample sec b s) = prev s"
    and prev_next: "counted sec b \<Longrightarrow> sec = last_sec s + 1 \<Longrightarrow> prev (sample sec b s) = acc s"
    and prev_gap: "counted sec b \<Longrightarrow> last_sec s + 1 < sec \<Longrightarrow> prev (sample sec b s) = 0"
begin

text \<open>
  Once the clock has moved past the second the trace started in, the remembered value is
  exactly the number of bytes of the previous second, 0 if it had none.
\<close>

lemma run_prev:
  assumes "trace s es" and "last_sec s + 1 < last_sec (run es s)"
  shows "prev (run es s) = bytes_in (last_sec (run es s) - 1) es"
  using assms
proof (induction es rule: rev_induct)
  case (snoc e es)
  obtain sec b where e: "e = (sec, b)" by (cases e)
  let ?m = "run es s"
  from snoc.prems e have c: "trace s es" and v: "counted sec b" by (simp_all add: trace_snoc)
  have "last_sec (run (es @ [e]) s) = sec"
    using run_last_sec [OF snoc.prems(1)] e by simp
  then have lst: "last_sec (sample sec b ?m) = sec" using e by simp
  have far: "last_sec s + 1 < sec" using snoc.prems(2) e lst by simp
  have "last_sec ?m \<le> sec"
    using run_last_sec [OF c] snoc.prems(1) e trace_last_le by metis
  then consider "sec = last_sec ?m" | "sec = last_sec ?m + 1" | "last_sec ?m + 1 < sec" by linarith
  then show ?case
  proof cases
    case 1
    with far snoc.IH [OF c] lst v show ?thesis by (simp add: e prev_same)
  next
    case 2
    then have "acc ?m = bytes_in (sec - 1) es" using run_acc [OF c] far by simp
    with 2 lst v show ?thesis by (simp add: e prev_next)
  next
    case 3
    then have "bytes_in (sec - 1) es = 0" using run_secs_le [OF c] by (intro bytes_in_none) fastforce
    with 3 lst v show ?thesis by (simp add: e prev_gap)
  qed
qed simp

end

end
