(* ===== verification/Qos_Control.thy ===== *)
theory Qos_Control
  imports Qos_Rules Second_Meter
begin

text \<open>
  The QoS controller of the object storage client: the moving averages, the bandwidth
  estimate and the RPC throttle of \<open>metric.h\<close>, \<open>time_ewma_add_extlock\<close> and
  \<open>qos_adjust\<close> of \<open>osc_request.c\<close>, the initialisation in \<open>genops.c\<close>,
  \<open>client_adjust_max_dirty\<close> of \<open>obd.h\<close> and the \<open>max_rpcs_in_flight\<close> and
  \<open>min_brw_rpc_gap\<close> handlers of \<open>lproc_osc.c\<close>.

  \<open>tv_sub\<close> stands for libcfs' \<open>cfs_timeval_sub\<close> (the difference of two times in
  microseconds); the current time is an argument wherever the code calls
  \<open>do_gettimeofday\<close>.
\<close>

type_synonym tv_diff = "timeval \<Rightarrow> timeval \<Rightarrow> int"

section \<open>Moving averages\<close>

definition init_time_ewma :: time_ewma where
  "init_time_ewma = \<lparr>alpha_inv = 8, ea = 0, last_time = zero_time\<rparr>"

definition qos_get_ewma_usec :: "time_ewma \<Rightarrow> u64 outcome" where
  "qos_get_ewma_usec te =
     (if alpha_inv te = 0 then Fault DIV_TRAP else Ret (ea te div alpha_inv te))"

text \<open>\<open>do_div\<close> divides by the low 32 bits of its second argument.\<close>

definition time_ewma_add_extlock :: "tv_diff \<Rightarrow> timeval \<Rightarrow> time_ewma \<Rightarrow> time_ewma outcome" where
  "time_ewma_add_extlock tv_sub new_time te =
     (if tv_sec (last_time te) \<noteq> 0 then
        let d = tv_sub new_time (last_time te);
            timediff = (if d < 0 then s64 (- d) else d);
            base = (ucast (alpha_inv te) :: u32)
        in if timediff > 600000000 then Ret (te\<lparr>ea := 0, last_time := new_time\<rparr>)
           else if base = 0 then Fault DIV_TRAP
           else Ret (te\<lparr>ea := (ea te div ucast base) * (alpha_inv te - 1) + of_int timediff,
                        last_time := new_time\<rparr>)
      else Ret (te\<lparr>last_time := new_time\<rparr>))"

section \<open>Bandwidth of the last second\<close>

definition calc_bandwidth :: "timeval \<Rightarrow> int \<Rightarrow> int \<Rightarrow> qos_data_t \<Rightarrow> qos_data_t" where
  "calc_bandwidth now dir bytes q =
     (if dir \<noteq> 0 \<and> dir \<noteq> 1 then q
      else let i = nat dir in
        if tv_sec now = last_req_sec q i then
          q\<lparr>sum_bytes_this_sec := (sum_bytes_this_sec q)(i := sum_bytes_this_sec q i + of_int bytes)\<rparr>
        else if tv_sec now = last_req_sec q i + 1 then
          q\<lparr>bw_last_sec := (bw_last_sec q)(i := sum_bytes_this_sec q i),
            last_req_sec := (last_req_sec q)(i := tv_sec now),
            sum_bytes_this_sec := (sum_bytes_this_sec q)(i := of_int bytes)\<rparr>
        else if tv_sec now > last_req_sec q i + 1 then
          q\<lparr>bw_last_sec := (bw_last_sec q)(i := 0),
            last_req_sec := (last_req_sec q)(i := tv_sec now),
            sum_bytes_this_sec := (sum_bytes_this_sec q)(i := of_int bytes)\<rparr>
        else q)"

section \<open>Throttling\<close>

text \<open>
  The delay the kernel is asked for: \<open>udelay\<close>, \<open>usleep_range\<close> or \<open>msleep\<close> with their
  arguments, or none.
\<close>

datatype delay = No_Delay | Udelay int | Usleep_Range int int | Msleep int

definition qos_throttle :: "tv_diff \<Rightarrow> timeval \<Rightarrow> qos_data_t \<Rightarrow> delay \<times> qos_data_t" where
  "qos_throttle tv_sub now q =
     (if min_usec_between_rpcs q = 0 then (No_Delay, q)
      else
        let d = tv_sub now (last_rpc_time q);
            since = (if d < 0 then 0 else d);
            need = (if since < uint (min_usec_between_rpcs q)
                    then uint (min_usec_between_rpcs q) - since else 0);
            q' = q\<lparr>last_rpc_time := now\<rparr>
        in (if need = 0 then No_Delay
            else if need < 1000 then Udelay need
            else if need < 20000 then Usleep_Range (need - 1) need
            else Msleep (need div 1000), q'))"

section \<open>The controller\<close>

definition rule_matches :: "u64 \<Rightarrow> u64 \<Rightarrow> int \<Rightarrow> qos_rule_t \<Rightarrow> bool" where
  "rule_matches ack sent ratio r \<longleftrightarrow>
     ack_ewma_lower r \<le> ack \<and> ack < ack_ewma_upper r \<and>
     send_ewma_lower r \<le> sent \<and> sent < send_ewma_upper r \<and>
     rtt_ratio100_lower r \<le> of_int ratio \<and> of_int ratio < rtt_ratio100_upper r"

text \<open>The loop over \<open>rules[0 .. rule_no)\<close> up to the first match.\<close>

fun match_rules :: "(qos_rule_t \<Rightarrow> bool) \<Rightarrow> nat \<Rightarrow> qos_rule_t list \<Rightarrow> nat option outcome" where
  "match_rules p 0 rs = Ret None"
| "match_rules p (Suc n) [] = Fault OVERRUN"
| "match_rules p (Suc n) (r # rs) =
     (if p r then Ret (Some 0) else bindO (match_rules p n rs) (\<lambda>i. Ret (map_option Suc i)))"

text \<open>The usage statistics of a rule that matched: running means over \<open>used_times\<close> samples.\<close>

definition use_rule :: "u64 \<Rightarrow> u64 \<Rightarrow> int \<Rightarrow> qos_rule_t \<Rightarrow> qos_rule_t outcome" where
  "use_rule ack sent ratio r =
     (let n = s32 (used_times r + 1) in
      bindO (quot64 (s64 (sint ack - sint (ack_ewma_avg r))) n) (\<lambda>da.
      bindO (quot64 (s64 (sint sent - sint (send_ewma_avg r))) n) (\<lambda>ds.
      bindO (quot32 (s32 (ratio - sint (rtt_ratio100_avg r))) n) (\<lambda>dr.
      Ret (r\<lparr>used_times := n, ack_ewma_avg := ack_ewma_avg r + of_int da,
             send_ewma_avg := send_ewma_avg r + of_int ds,
             rtt_ratio100_avg := rtt_ratio100_avg r + of_int dr\<rparr>)))))"

definition mrif_upper_limit :: int where
  "mrif_upper_limit = 30"

text \<open>
  The new value of \<open>max_rpc_in_flight100\<close> under a rule (an \<open>int\<close>, computed with
  wrap-around and then clamped), and the whole number of RPCs it stands for.
\<close>

definition next_mrif100 :: "qos_rule_t \<Rightarrow> int \<Rightarrow> int" where
  "next_mrif100 r m =
     (let m1 = (if m100 r \<ge> 0 then s32 (m * m100 r) sdiv 100 else m);
          m2 = s32 (m1 + b100 r);
          m3 = (if m2 < 0 then 0 else m2)
      in if m3 > mrif_upper_limit * 100 then mrif_upper_limit * 100 else m3)"

definition whole_mrif :: "int \<Rightarrow> int" where
  "whole_mrif m = (let n = m sdiv 100 in if n < 1 then 1 else n)"

text \<open>What the controller does with the rule at index \<open>i\<close>; \<open>-1\<close> means no change.\<close>

definition apply_rule ::
    "tv_diff \<Rightarrow> timeval \<Rightarrow> u64 \<Rightarrow> u64 \<Rightarrow> int \<Rightarrow> nat \<Rightarrow> qos_rule_t list \<Rightarrow> qos_data_t \<Rightarrow> (int \<times> qos_data_t) outcome" where
  "apply_rule tv_sub now ack sent ratio i rs q =
     bindO (use_rule ack sent ratio (rs ! i)) (\<lambda>r.
       let q1 = q\<lparr>rules := Some (rs[i := r])\<rparr>;
           since = tv_sub now (last_mrif_update_time q)
       in if since > 0 \<and> since \<ge> min_gap_between_updating_mrif q
          then let m = next_mrif100 r (max_rpc_in_flight100 q)
               in Ret (whole_mrif m,
                       q1\<lparr>last_mrif_update_time := now, max_rpc_in_flight100 := m,
                          min_usec_between_rpcs := tau r\<rparr>)
          else Ret (-1, q1\<lparr>min_usec_between_rpcs := tau r\<rparr>))"

text \<open>The round trip time and its ratio to the smallest one seen, in percent.\<close>

definition update_rtt :: "tv_diff \<Rightarrow> timeval \<Rightarrow> timeval \<Rightarrow> qos_data_t \<Rightarrow> qos_data_t outcome" where
  "update_rtt tv_sub now sent_time q =
     (let rtt = tv_sub now sent_time;
          smallest = (if smallest_rtt q = 0 \<or> rtt < smallest_rtt q then rtt else smallest_rtt q)
      in bindO (quot64 (s64 (rtt * 100)) smallest) (\<lambda>v.
           Ret (q\<lparr>smallest_rtt := smallest, rtt_ratio100 := s32 v\<rparr>)))"

text \<open>
  The part of \<open>qos_adjust\<close> under the QoS lock: \<open>now\<close> is its own reading of the clock,
  \<open>now_bw\<close> the one inside \<open>calc_bandwidth\<close>, \<open>import\<close> whether \<open>cl_import\<close> is set.
\<close>

definition qos_adjust_locked ::
    "tv_diff \<Rightarrow> timeval \<Rightarrow> timeval \<Rightarrow> bool \<Rightarrow> timeval \<Rightarrow> timeval \<Rightarrow> int \<Rightarrow> int \<Rightarrow> qos_data_t \<Rightarrow> (int \<times> qos_data_t) outcome" where
  "qos_adjust_locked tv_sub now now_bw import ack_time sent_time dir bytes q =
     bindO (time_ewma_add_extlock tv_sub ack_time (ack_ewma q)) (\<lambda>ta.
     bindO (qos_get_ewma_usec ta) (\<lambda>ack.
     bindO (time_ewma_add_extlock tv_sub sent_time (sent_ewma q)) (\<lambda>ts.
     bindO (qos_get_ewma_usec ts) (\<lambda>sent.
     bindO (update_rtt tv_sub now sent_time (q\<lparr>ack_ewma := ta, sent_ewma := ts\<rparr>)) (\<lambda>q1.
       let q2 = calc_bandwidth now_bw dir bytes q1 in
       case rules q2 of
         None \<Rightarrow> Ret (-1, q2)
       | Some rs \<Rightarrow>
           if \<not> import then Ret (-1, q2)
           else bindO (match_rules (rule_matches ack sent (rtt_ratio100 q2)) (nat (rule_no q2)) rs) (\<lambda>i.
             case i of
               None \<Rightarrow> Ret (-1, q2)
             | Some i \<Rightarrow> apply_rule tv_sub now ack sent (rtt_ratio100 q2) i rs q2))))))"

section \<open>The client device\<close>

record client_obd =
  cl_import :: bool
  cl_max_rpcs_in_flight :: u32
  cl_max_pages_per_rpc :: u32
  cl_dirty_max_pages :: u64
  cl_qos :: qos_data_t

record osc_pool =
  osc_pool_req_count :: int
  osc_reqpool_maxreqcount :: u32

text \<open>\<open>totalram\<close> is the kernel's \<open>totalram_pages\<close>; the page size is 4096.\<close>

definition client_adjust_max_dirty :: "u64 \<Rightarrow> client_obd \<Rightarrow> client_obd" where
  "client_adjust_max_dirty totalram cli =
     (let dirty_max = (ucast (cl_max_rpcs_in_flight cli * cl_max_pages_per_rpc cli) :: u64);
          d1 = (if cl_dirty_max_pages cli = 0 then 8192
                else if dirty_max > cl_dirty_max_pages cli then dirty_max
                else cl_dirty_max_pages cli);
          d2 = (if d1 > totalram div 8 then totalram div 8 else d1)
      in cli\<lparr>cl_dirty_max_pages := d2\<rparr>)"

text \<open>
  Growing the request pool before the limit is raised; \<open>populate n\<close> is the number of
  requests \<open>prp_populate\<close> could add when asked for \<open>n\<close>.
\<close>

definition grow_pool :: "(int \<Rightarrow> int) \<Rightarrow> int \<Rightarrow> osc_pool \<Rightarrow> osc_pool" where
  "grow_pool populate adding p =
     (let count = osc_pool_req_count p; maxc = osc_reqpool_maxreqcount p in
      if adding > 0 \<and> (of_int count :: u32) < maxc then
        let adding' = (if (of_int (count + adding) :: u32) > maxc
                       then s32 (uint maxc - count) else adding)
        in p\<lparr>osc_pool_req_count := s32 (count + populate adding')\<rparr>
      else p)"

definition set_max_rpcs :: "u64 \<Rightarrow> (int \<Rightarrow> int) \<Rightarrow> int \<Rightarrow> client_obd \<times> osc_pool \<Rightarrow> client_obd \<times> osc_pool" where
  "set_max_rpcs totalram populate val st =
     (case st of (cli, p) \<Rightarrow>
       (client_adjust_max_dirty totalram (cli\<lparr>cl_max_rpcs_in_flight := of_int val\<rparr>),
        grow_pool populate (s32 (val - uint (cl_max_rpcs_in_flight cli))) p))"

text \<open>
  \<open>import_later\<close> is \<open>cl_import\<close> when \<open>LPROCFS_CLIMP_CHECK\<close> looks at it, after the QoS
  lock was dropped.
\<close>

definition qos_adjust ::
    "tv_diff \<Rightarrow> timeval \<Rightarrow> timeval \<Rightarrow> bool \<Rightarrow> u64 \<Rightarrow> (int \<Rightarrow> int) \<Rightarrow> timeval \<Rightarrow> timeval \<Rightarrow> int \<Rightarrow> int \<Rightarrow>
     client_obd \<times> osc_pool \<Rightarrow> (int \<times> client_obd \<times> osc_pool) outcome" where
  "qos_adjust tv_sub now now_bw import_later totalram populate ack_time sent_time dir bytes st =
     (case st of (cli, p) \<Rightarrow>
       bindO (qos_adjust_locked tv_sub now now_bw (cl_import cli) ack_time sent_time dir bytes (cl_qos cli))
        (\<lambda>(new_mrif, q).
          let cli1 = cli\<lparr>cl_qos := q\<rparr> in
          if new_mrif = -1 then Ret (0, cli1, p)
          else if \<not> import_later then Ret (- ENODEV, cli1, p)
          else Ret (0, set_max_rpcs totalram populate new_mrif (cli1, p))))"

definition init_qos :: "client_obd \<Rightarrow> client_obd" where
  "init_qos cli = cli\<lparr>cl_qos := (cl_qos cli)\<lparr>ack_ewma := init_time_ewma, sent_ewma := init_time_ewma,
     max_rpc_in_flight100 := sint (cl_max_rpcs_in_flight cli * 100)\<rparr>\<rparr>"

text \<open>
  The proc handlers. \<open>val\<close> is the result of \<open>lprocfs_write_helper\<close>: the error code, or
  the number it read; the helper leaves the caller's variable alone when it fails early,
  so the second handler, which ignores the code, may look at a stale value (\<open>stale\<close>).
\<close>

definition osc_max_rpcs_in_flight_seq_write ::
    "u64 \<Rightarrow> (int \<Rightarrow> int) \<Rightarrow> int + int \<Rightarrow> nat \<Rightarrow> client_obd \<times> osc_pool \<Rightarrow> int \<times> client_obd \<times> osc_pool" where
  "osc_max_rpcs_in_flight_seq_write totalram populate val count st =
     (case val of
       Inl rc \<Rightarrow> (rc, st)
     | Inr v \<Rightarrow>
         if v < 1 \<or> v > 256 then (- ERANGE, st)
         else if \<not> cl_import (fst st) then (- ENODEV, st)
         else (case set_max_rpcs totalram populate v st of (cli, p) \<Rightarrow>
                (int count, cli\<lparr>cl_qos := (cl_qos cli)\<lparr>max_rpc_in_flight100 := v * 100\<rparr>\<rparr>, p)))"

definition osc_min_brw_rpc_gap_seq_write ::
    "int \<Rightarrow> int + int \<Rightarrow> nat \<Rightarrow> qos_data_t \<Rightarrow> int \<times> qos_data_t" where
  "osc_min_brw_rpc_gap_seq_write stale val count q =
     (let v = (case val of Inl rc \<Rightarrow> stale | Inr v \<Rightarrow> v) in
      if v < 0 then (- ERANGE, q)
      else (int count, q\<lparr>min_usec_between_rpcs := of_int v\<rparr>))"

definition osc_min_brw_rpc_gap_seq_show :: "qos_data_t \<Rightarrow> string" where
  "osc_min_brw_rpc_gap_seq_show q = show_nat (unat (min_usec_between_rpcs q)) @ [CHR 0x0A]"

definition osc_max_rpcs_in_flight_seq_show :: "client_obd \<Rightarrow> string" where
  "osc_max_rpcs_in_flight_seq_show cli = show_nat (unat (cl_max_rpcs_in_flight cli)) @ [CHR 0x0A]"

section \<open>The controller's lemmas\<close>

subsection \<open>Limits and averages\<close>

lemma next_mrif100_bounds: "0 \<le> next_mrif100 r m" "next_mrif100 r m \<le> 3000"
  by (simp_all add: next_mrif100_def mrif_upper_limit_def Let_def)

lemma whole_mrif_bounds:
  assumes "0 \<le> m" and "m \<le> 3000"
  shows "1 \<le> whole_mrif m" and "whole_mrif m \<le> 30"
  using assms by (auto simp: whole_mrif_def Let_def sdiv_nonneg)

definition ewma_ok :: "time_ewma \<Rightarrow> bool" where
  "ewma_ok te \<longleftrightarrow> alpha_inv te = 8 \<and> unat (ea te) \<le> 4800000000"

lemma ewma_step:
  assumes "unat (e :: u64) \<le> 4800000000" and "0 \<le> d" and "d \<le> 600000000"
  shows "unat ((e div 8) * 7 + of_int d) = unat e div 8 * 7 + nat d"
proof -
  have "(e div 8) * 7 + of_int d = (of_nat (unat e div 8 * 7 + nat d) :: u64)"
  proof -
    have "unat e div 8 = unat (e div 8)" by (simp add: unat_div)
    then have "(of_nat (unat e div 8) :: u64) = e div 8" by simp
    then show ?thesis using assms by (simp add: of_nat_nat)
  qed
  moreover have "unat e div 8 * 7 + nat d < 2 ^ 64"
  proof -
    have "nat d \<le> 600000000" "unat e div 8 \<le> 600000000" using assms by linarith+
    then show ?thesis by simp
  qed
  ultimately show ?thesis by (simp only: unat_of_nat_small)
qed

lemma ewma_add_ok:
  assumes "ewma_ok te" and "- (2 ^ 63) < tv_sub t (last_time te)" and "tv_sub t (last_time te) < 2 ^ 63"
  shows "\<exists>te'. time_ewma_add_extlock tv_sub t te = Ret te' \<and> ewma_ok te' \<and> last_time te' = t"
proof -
  let ?d = "tv_sub t (last_time te)"
  let ?td = "if ?d < 0 then s64 (- ?d) else ?d"
  have td: "0 \<le> ?td" using assms(2,3) by (simp add: s64_id)
  have b: "(ucast (alpha_inv te) :: u32) = 8" "(ucast (8 :: u32) :: u64) = 8"
    using assms(1) by (simp_all add: ewma_ok_def)
  show ?thesis
  proof (cases "tv_sec (last_time te) \<noteq> 0 \<and> ?td \<le> 600000000")
    case True
    then have "unat ((ea te div 8) * 7 + of_int ?td) = unat (ea te) div 8 * 7 + nat ?td"
      using assms(1) td by (intro ewma_step) (simp_all add: ewma_ok_def)
    moreover have "unat (ea te) div 8 * 7 + nat ?td \<le> 4800000000"
      using True td assms(1) unfolding ewma_ok_def by linarith
    ultimately have "unat ((ea te div 8) * 7 + of_int ?td) \<le> 4800000000" by linarith
    with True assms(1) show ?thesis
      by (simp add: time_ewma_add_extlock_def ewma_ok_def b Let_def)
  next
    case False
    with assms(1) show ?thesis by (auto simp: time_ewma_add_extlock_def ewma_ok_def Let_def)
  qed
qed

lemma ewma_get_ok:
  assumes "ewma_ok te"
  shows "\<exists>w. qos_get_ewma_usec te = Ret w \<and> unat w = unat (ea te) div 8 \<and> unat w \<le> 600000000"
proof -
  have "unat (ea te div 8) = unat (ea te) div 8" by (simp add: unat_div)
  moreover have "unat (ea te) div 8 \<le> 600000000" using assms unfolding ewma_ok_def by linarith
  ultimately show ?thesis using assms by (simp add: qos_get_ewma_usec_def ewma_ok_def)
qed

lemma match_rules_ok:
  "n \<le> length rs \<Longrightarrow> \<exists>i. match_rules p n rs = Ret i \<and> (\<forall>j. i = Some j \<longrightarrow> j < n \<and> p (rs ! j) \<and> (\<forall>k < j. \<not> p (rs ! k)))"
proof (induction p n rs rule: match_rules.induct)
  case (3 p n r rs)
  show ?case
  proof (cases "p r")
    case False
    then obtain i where i: "match_rules p n rs = Ret i"
      "\<forall>j. i = Some j \<longrightarrow> j < n \<and> p (rs ! j) \<and> (\<forall>k < j. \<not> p (rs ! k))"
      using "3.IH" "3.prems" by auto
    show ?thesis
    proof (cases i)
      case None
      with False i show ?thesis by simp
    next
      case (Some j)
      with i(2) have "\<forall>k < Suc j. \<not> p ((r # rs) ! k)" using False by (auto simp: less_Suc_eq_0_disj)
      with False i Some show ?thesis by simp
    qed
  qed simp
qed auto

lemma quot_ok:
  assumes "0 < n"
  shows "quot64 a n = Ret (a sdiv n)" "quot32 a n = Ret (a sdiv n)"
  using assms by (simp_all add: quot64_def quot32_def)

lemma use_rule_ok:
  assumes "0 \<le> used_times r" and "used_times r < 2 ^ 31 - 1"
  shows "\<exists>r'. use_rule ack sent ratio r = Ret r' \<and> used_times r' = used_times r + 1 \<and>
     m100 r' = m100 r \<and> b100 r' = b100 r \<and> tau r' = tau r"
proof -
  have "s32 (used_times r + 1) = used_times r + 1" using assms by (intro s32_id) simp_all
  with assms show ?thesis by (simp add: use_rule_def quot_ok Let_def)
qed


lemma calc_bandwidth_frame [simp]:
  "rules (calc_bandwidth now dir b q) = rules q"
  "rule_no (calc_bandwidth now dir b q) = rule_no q"
  "ack_ewma (calc_bandwidth now dir b q) = ack_ewma q"
  "sent_ewma (calc_bandwidth now dir b q) = sent_ewma q"
  "max_rpc_in_flight100 (calc_bandwidth now dir b q) = max_rpc_in_flight100 q"
  "rtt_ratio100 (calc_bandwidth now dir b q) = rtt_ratio100 q"
  "smallest_rtt (calc_bandwidth now dir b q) = smallest_rtt q"
  "last_mrif_update_time (calc_bandwidth now dir b q) = last_mrif_update_time q"
  "min_gap_between_updating_mrif (calc_bandwidth now dir b q) = min_gap_between_updating_mrif q"
  by (simp_all add: calc_bandwidth_def Let_def)

lemma apply_rule_mrif:
  assumes "apply_rule tv_sub now ack sent ratio i rs q = Ret (n, q')"
  shows "n = -1 \<and> max_rpc_in_flight100 q' = max_rpc_in_flight100 q \<or>
     1 \<le> n \<and> n \<le> 30 \<and> 0 \<le> max_rpc_in_flight100 q' \<and> max_rpc_in_flight100 q' \<le> 3000"
  using assms unfolding apply_rule_def
  by (auto simp: Let_def whole_mrif_bounds next_mrif100_bounds split: if_splits)

lemma update_rtt_frame:
  assumes "update_rtt tv_sub now st q = Ret q'"
  shows "rules q' = rules q \<and> rule_no q' = rule_no q \<and> ack_ewma q' = ack_ewma q \<and> sent_ewma q' = sent_ewma q \<and>
    max_rpc_in_flight100 q' = max_rpc_in_flight100 q"
  using assms by (auto simp: update_rtt_def Let_def)

lemma qos_adjust_lockedE:
  assumes "qos_adjust_locked tv_sub now now_bw import ack_time sent_time dir bytes q = Ret (n, q')"
  obtains ta ack ts sent q1 where
    "time_ewma_add_extlock tv_sub ack_time (ack_ewma q) = Ret ta"
    "qos_get_ewma_usec ta = Ret ack"
    "time_ewma_add_extlock tv_sub sent_time (sent_ewma q) = Ret ts"
    "qos_get_ewma_usec ts = Ret sent"
    "update_rtt tv_sub now sent_time (q\<lparr>ack_ewma := ta, sent_ewma := ts\<rparr>) = Ret q1"
    "n = -1 \<and> q' = calc_bandwidth now_bw dir bytes q1 \<or>
     (\<exists>rs i. rules q1 = Some rs \<and> import \<and>
        match_rules (rule_matches ack sent (rtt_ratio100 q1)) (nat (rule_no q1)) rs = Ret (Some i) \<and>
        apply_rule tv_sub now ack sent (rtt_ratio100 q1) i rs (calc_bandwidth now_bw dir bytes q1) = Ret (n, q'))"
  using assms unfolding qos_adjust_locked_def
  by (elim bindO_RetE) (auto simp: Let_def split: option.splits if_splits elim!: bindO_RetE)

lemma qos_adjust_locked_mrif:
  assumes "qos_adjust_locked tv_sub now now_bw import ack_time sent_time dir bytes q = Ret (n, q')"
  shows "n = -1 \<and> max_rpc_in_flight100 q' = max_rpc_in_flight100 q \<or>
     1 \<le> n \<and> n \<le> 30 \<and> 0 \<le> max_rpc_in_flight100 q' \<and> max_rpc_in_flight100 q' \<le> 3000"
  using assms
proof (rule qos_adjust_lockedE, goal_cases)
  case (1 ta ack ts sent q1)
  from update_rtt_frame [OF 1(5)] have "max_rpc_in_flight100 q1 = max_rpc_in_flight100 q" by simp
  with 1(6) show ?case using apply_rule_mrif by fastforce
qed

subsection \<open>Round trip times\<close>

lemma update_rtt_outcome:
  assumes "\<bar>tv_sub now st\<bar> < 2 ^ 56"
  shows "update_rtt tv_sub now st q =
     (if tv_sub now st = 0 \<and> 0 \<le> smallest_rtt q then Fault DIV_TRAP
      else let rtt = tv_sub now st;
               smallest = (if smallest_rtt q = 0 \<or> rtt < smallest_rtt q then rtt else smallest_rtt q)
           in Ret (q\<lparr>smallest_rtt := smallest, rtt_ratio100 := s32 (rtt * 100 sdiv smallest)\<rparr>))"
proof -
  have r: "s64 (tv_sub now st * 100) = tv_sub now st * 100" "tv_sub now st * 100 \<noteq> - (2 ^ 63)"
    using assms by (auto intro!: s64_id)
  show ?thesis using r(2) by (auto simp: update_rtt_def quot64_def r(1) Let_def)
qed

definition qos_inv :: "qos_data_t \<Rightarrow> bool" where
  "qos_inv q \<longleftrightarrow> ewma_ok (ack_ewma q) \<and> ewma_ok (sent_ewma q) \<and> qos_table_ok q"

definition tv_sane :: "tv_diff \<Rightarrow> bool" where
  "tv_sane tv_sub \<longleftrightarrow> (\<forall>a b. - (2 ^ 63) < tv_sub a b \<and> tv_sub a b < 2 ^ 63)"

lemma tv_saneD: "tv_sane tv_sub \<Longrightarrow> - (2 ^ 63) < tv_sub a b" "tv_sane tv_sub \<Longrightarrow> tv_sub a b < 2 ^ 63"
  by (simp_all add: tv_sane_def)

lemma apply_rule_ok:
  assumes "i < length rs" and "0 \<le> used_times (rs ! i)" and "used_times (rs ! i) < 2 ^ 31 - 1"
  shows "\<exists>n q'. apply_rule tv_sub now ack sent ratio i rs q = Ret (n, q')"
  using use_rule_ok [OF assms(2,3), of ack sent ratio]
  by (auto simp: apply_rule_def Let_def)

lemma qos_adjust_locked_ewma_fault:
  assumes "qos_inv q" and "tv_sane tv_sub"
  shows "\<exists>ta ack ts sent. qos_adjust_locked tv_sub now now_bw import ack_time sent_time dir bytes q =
     bindO (update_rtt tv_sub now sent_time (q\<lparr>ack_ewma := ta, sent_ewma := ts\<rparr>)) (\<lambda>q1.
       let q2 = calc_bandwidth now_bw dir bytes q1 in
       case rules q2 of
         None \<Rightarrow> Ret (-1, q2)
       | Some rs \<Rightarrow>
           if \<not> import then Ret (-1, q2)
           else bindO (match_rules (rule_matches ack sent (rtt_ratio100 q2)) (nat (rule_no q2)) rs) (\<lambda>i.
             case i of
               None \<Rightarrow> Ret (-1, q2)
             | Some i \<Rightarrow> apply_rule tv_sub now ack sent (rtt_ratio100 q2) i rs q2))"
proof -
  obtain ta where a: "time_ewma_add_extlock tv_sub ack_time (ack_ewma q) = Ret ta" "ewma_ok ta"
    using ewma_add_ok [of "ack_ewma q" tv_sub ack_time] assms tv_saneD by (auto simp: qos_inv_def)
  obtain ts where t: "time_ewma_add_extlock tv_sub sent_time (sent_ewma q) = Ret ts" "ewma_ok ts"
    using ewma_add_ok [of "sent_ewma q" tv_sub sent_time] assms tv_saneD by (auto simp: qos_inv_def)
  obtain wa ws where "qos_get_ewma_usec ta = Ret wa" "qos_get_ewma_usec ts = Ret ws"
    using ewma_get_ok [OF a(2)] ewma_get_ok [OF t(2)] by auto
  with a t show ?thesis by (simp add: qos_adjust_locked_def) blast
qed

definition usage_ok :: "qos_data_t \<Rightarrow> bool" where
  "usage_ok q \<longleftrightarrow> (case rules q of None \<Rightarrow> True
     | Some rs \<Rightarrow> \<forall>r \<in> set rs. 0 \<le> used_times r \<and> used_times r < 2 ^ 31 - 1)"

lemma calc_bandwidth_table_ok [simp]: "qos_table_ok (calc_bandwidth now dir b q) = qos_table_ok q"
  by (rule qos_table_ok_cong) simp_all

lemma apply_rule_inv:
  assumes "apply_rule tv_sub now ack sent ratio i rs q = Ret (n, q')" and "rule_no q \<le> int (length rs)"
  shows "qos_table_ok q' \<and> ack_ewma q' = ack_ewma q \<and> sent_ewma q' = sent_ewma q"
  using assms unfolding apply_rule_def by (auto simp: Let_def qos_table_ok_def split: if_splits)

lemma qos_adjust_locked_inv:
  assumes "qos_inv q" and "tv_sane tv_sub"
    and "qos_adjust_locked tv_sub now now_bw import ack_time sent_time dir bytes q = Ret (n, q')"
  shows "qos_inv q'"
  using assms(3)
proof (rule qos_adjust_lockedE, goal_cases)
  case (1 ta ack ts sent q1)
  have e: "ewma_ok ta" "ewma_ok ts"
    using ewma_add_ok [of "ack_ewma q" tv_sub ack_time] ewma_add_ok [of "sent_ewma q" tv_sub sent_time]
      assms(1) 1(1,3) tv_saneD [OF assms(2)] by (auto simp: qos_inv_def)
  have f: "rules q1 = rules q" "rule_no q1 = rule_no q" "ack_ewma q1 = ta" "sent_ewma q1 = ts"
    using update_rtt_frame [OF 1(5)] by simp_all
  from 1(6) show ?case
  proof
    assume "n = -1 \<and> q' = calc_bandwidth now_bw dir bytes q1"
    with e f assms(1) show ?thesis using qos_table_ok_cong [OF f(1,2)] by (simp add: qos_inv_def)
  next
    assume "\<exists>rs i. rules q1 = Some rs \<and> import \<and>
        match_rules (rule_matches ack sent (rtt_ratio100 q1)) (nat (rule_no q1)) rs = Ret (Some i) \<and>
        apply_rule tv_sub now ack sent (rtt_ratio100 q1) i rs (calc_bandwidth now_bw dir bytes q1) = Ret (n, q')"
    then obtain rs i where r: "rules q1 = Some rs"
      "apply_rule tv_sub now ack sent (rtt_ratio100 q1) i rs (calc_bandwidth now_bw dir bytes q1) = Ret (n, q')"
      by blast
    from apply_rule_inv [OF r(2)] r(1) f e assms(1) show ?thesis by (simp add: qos_inv_def qos_table_ok_def)
  qed
qed
subsection \<open>Bandwidth\<close>

abbreviation at_sec :: "int \<Rightarrow> timeval" where
  "at_sec sec \<equiv> \<lparr>tv_sec = sec, tv_usec = 0\<rparr>"

interpretation bw: second_meter_prev "\<lambda>q. last_req_sec q (of_bool w)" "\<lambda>q. sum_bytes_this_sec q (of_bool w)"
  "\<lambda>sec b. calc_bandwidth (at_sec sec) (of_bool w) (uint b)" "\<lambda>_ _. True" "\<lambda>q. bw_last_sec q (of_bool w)" for w :: bool
  by unfold_locales (auto simp: calc_bandwidth_def Let_def)

lemma calc_bandwidth_cong:
  assumes "tv_sec t = tv_sec t'" and "(of_int b :: u64) = of_int b'"
  shows "calc_bandwidth t dir b = calc_bandwidth t' dir b'"
  unfolding calc_bandwidth_def assms by (rule refl)

definition sampled :: "(timeval \<times> int) list \<Rightarrow> (int \<times> u64) list" where
  "sampled es = map (\<lambda>(t, b). (tv_sec t, of_int b)) es"

lemma fold_calc_bandwidth:
  "fold (\<lambda>(t, b). calc_bandwidth t dir b) es q =
   fold (\<lambda>(sec, b). calc_bandwidth (at_sec sec) dir (uint b)) (sampled es) q"
proof (induction es arbitrary: q)
  case (Cons e es)
  obtain t b where e: "e = (t, b)" by (cases e)
  have "calc_bandwidth t dir b = calc_bandwidth (at_sec (tv_sec t)) dir (uint (of_int b :: u64))"
    by (rule calc_bandwidth_cong) simp_all
  with Cons.IH e show ?case by (simp add: sampled_def)
qed (simp add: sampled_def)

subsection \<open>Throttling\<close>

fun delay_usec :: "delay \<Rightarrow> int" where
  "delay_usec No_Delay = 0"
| "delay_usec (Udelay n) = n"
| "delay_usec (Usleep_Range lo hi) = lo"
| "delay_usec (Msleep n) = n * 1000"

text \<open>The difference of two times, in microseconds.\<close>

definition usec_diff :: tv_diff where
  "usec_diff a b = (tv_sec a - tv_sec b) * 1000000 + (tv_usec a - tv_usec b)"

definition usec_at :: "int \<Rightarrow> timeval" where
  "usec_at n = \<lparr>tv_sec = n div 1000000, tv_usec = n mod 1000000\<rparr>"


text \<open>A sane instance of \<open>cfs_timeval_sub\<close> on all times, for the examples.\<close>

definition usec_clip :: tv_diff where
  "usec_clip a b = max (- (2 ^ 55)) (min (2 ^ 55) (usec_diff a b))"

lemma usec_clip_sane: "tv_sane usec_clip"
  by (auto simp: tv_sane_def usec_clip_def)

lemma sample_qos_inv: "qos_inv sample_qos" "usage_ok sample_qos" "smallest_rtt sample_qos = 0"
  by (simp_all add: qos_inv_def usage_ok_def sample_qos_def empty_qos_def sample_rule_def zero_rule_def
      ewma_ok_def qos_table_ok_def)

section \<open>Properties\<close>



text \<open>
  Whatever a rule's multiplier and offset are (the intermediate products may wrap), the
  controller either leaves the limit on concurrent RPCs alone or sets it to a value between
  1 and 30.
\<close>

theorem qos_adjust_limit:
  assumes "qos_adjust tv_sub now now_bw import_later totalram populate ack_time sent_time dir bytes (cli, p) =
      Ret (rc, cli', p')"
  shows "cl_max_rpcs_in_flight cli' = cl_max_rpcs_in_flight cli \<or>
     1 \<le> cl_max_rpcs_in_flight cli' \<and> cl_max_rpcs_in_flight cli' \<le> 30"
proof -
  obtain n q where l: "qos_adjust_locked tv_sub now now_bw (cl_import cli) ack_time sent_time dir bytes (cl_qos cli) = Ret (n, q)"
    and r: "cli' = cli\<lparr>cl_qos := q\<rparr> \<or> n \<noteq> -1 \<and> set_max_rpcs totalram populate n (cli\<lparr>cl_qos := q\<rparr>, p) = (cli', p')"
    using assms by (auto simp: qos_adjust_def Let_def split: if_splits)
  have u: "1 \<le> (of_int n :: u32) \<and> (of_int n :: u32) \<le> 30" if "1 \<le> n" "n \<le> 30"
  proof -
    have "uint (of_int n :: u32) = n" using that by (simp add: uint_word_of_int)
    with that show ?thesis by (simp add: word_le_def)
  qed
  from r qos_adjust_locked_mrif [OF l] show ?thesis
    by (auto simp: set_max_rpcs_def client_adjust_max_dirty_def Let_def dest: u)
qed

definition sample_client :: client_obd where
  "sample_client = \<lparr>cl_import = True, cl_max_rpcs_in_flight = 8, cl_max_pages_per_rpc = 256,
     cl_dirty_max_pages = 8192, cl_qos = empty_qos\<rparr>"

definition sample_pool :: osc_pool where
  "sample_pool = \<lparr>osc_pool_req_count = 0, osc_reqpool_maxreqcount = 16\<rparr>"

lemma sample_adjust: "\<exists>cli'. qos_adjust usec_clip (usec_at 6) (usec_at 6) True 1000000 id (usec_at 5) (usec_at 5) 0 100
    (sample_client, sample_pool) = Ret (0, cli', sample_pool)"
  by (simp add: qos_adjust_def qos_adjust_locked_def sample_client_def empty_qos_def zero_time_def
      time_ewma_add_extlock_def qos_get_ewma_usec_def update_rtt_def usec_clip_def usec_diff_def usec_at_def
      quot64_def s64_id Let_def)

theorem qos_adjust_limit_witness:
  "\<exists>cli'. qos_adjust usec_clip (usec_at 6) (usec_at 6) True 1000000 id (usec_at 5) (usec_at 5) 0 100
      (sample_client, sample_pool) = Ret (0, cli', sample_pool) \<and>
     (cl_max_rpcs_in_flight cli' = 8 \<or> 1 \<le> cl_max_rpcs_in_flight cli' \<and> cl_max_rpcs_in_flight cli' \<le> 30)"
proof -
  obtain cli' where c: "qos_adjust usec_clip (usec_at 6) (usec_at 6) True 1000000 id (usec_at 5) (usec_at 5) 0 100
    (sample_client, sample_pool) = Ret (0, cli', sample_pool)" using sample_adjust by blast
  show ?thesis using c qos_adjust_limit [OF c] by (auto simp: sample_client_def)
qed

text \<open>
  The moving average is computed without wrap-around and stays bounded: from a state whose
  scaled average is at most 8 times ten minutes, a new sample (whose distance is not longer
  than ten minutes) gives exactly seven eighths of the old value, rounded down, plus the
  distance; the reported average is again at most ten minutes.
\<close>

theorem ewma_sample:
  assumes "ewma_ok te" and "tv_sane tv_sub" and "tv_sec (last_time te) \<noteq> 0"
    and "\<bar>tv_sub t (last_time te)\<bar> \<le> 600000000"
  shows "\<exists>te' w. time_ewma_add_extlock tv_sub t te = Ret te' \<and> qos_get_ewma_usec te' = Ret w \<and>
     unat (ea te') = unat (ea te) div 8 * 7 + nat \<bar>tv_sub t (last_time te)\<bar> \<and>
     unat w \<le> 600000000 \<and> ewma_ok te'"
proof -
  let ?d = "\<bar>tv_sub t (last_time te)\<bar>"
  obtain te' where te': "time_ewma_add_extlock tv_sub t te = Ret te'" "ewma_ok te'"
    using ewma_add_ok [OF assms(1)] tv_saneD [OF assms(2)] by blast
  obtain w where w: "qos_get_ewma_usec te' = Ret w" "unat w \<le> 600000000"
    using ewma_get_ok [OF te'(2)] by blast
  have td: "(if tv_sub t (last_time te) < 0 then s64 (- tv_sub t (last_time te)) else tv_sub t (last_time te)) = ?d"
    using tv_saneD [OF assms(2), of t "last_time te"] by (simp add: s64_id)
  have "ea te' = (ea te div 8) * 7 + of_int ?d"
    using te'(1) assms(1,3,4) td by (auto simp: time_ewma_add_extlock_def ewma_ok_def Let_def split: if_splits)
  moreover have "unat ((ea te div 8) * 7 + of_int ?d) = unat (ea te) div 8 * 7 + nat ?d"
    using assms(1,4) by (intro ewma_step) (simp_all add: ewma_ok_def)
  ultimately show ?thesis using te' w by metis
qed

theorem ewma_sample_witness:
  "\<exists>te' w. time_ewma_add_extlock usec_clip (usec_at 3000000) \<lparr>alpha_inv = 8, ea = 800, last_time = usec_at 2000000\<rparr> = Ret te' \<and>
     qos_get_ewma_usec te' = Ret w \<and> unat (ea te') = 1000700 \<and> unat w \<le> 600000000 \<and> ewma_ok te'"
  using ewma_sample [of "\<lparr>alpha_inv = 8, ea = 800, last_time = usec_at 2000000\<rparr>" usec_clip "usec_at 3000000", OF _ usec_clip_sane]
  by (simp add: ewma_ok_def usec_at_def usec_clip_def usec_diff_def)

text \<open>
  C25: The bandwidth estimate is what its name says. After any sequence of transfers in one
  direction whose clock does not run backwards and has moved on by more than one second,
  \<open>bw_last_sec\<close> is the number of bytes transferred in the second before the last one, and
  \<open>sum_bytes_this_sec\<close> the number of bytes of the last one.
\<close>

theorem bandwidth_is_last_second:
  fixes w :: bool
  assumes "clocked (last_req_sec q (of_bool w)) (sampled es)"
    and "q' = fold (\<lambda>(t, b). calc_bandwidth t (of_bool w) b) es q"
    and "last_req_sec q (of_bool w) + 1 < last_req_sec q' (of_bool w)"
  shows "bw_last_sec q' (of_bool w) = bytes_in (last_req_sec q' (of_bool w) - 1) (sampled es) \<and>
     sum_bytes_this_sec q' (of_bool w) = bytes_in (last_req_sec q' (of_bool w)) (sampled es)"
  using assms bw.run_prev [of w q "sampled es"] bw.run_acc [of w q "sampled es"]
  by (simp add: fold_calc_bandwidth bw.trace_def)

theorem bandwidth_is_last_second_witness:
  "let es = [(usec_at 7000000, 10), (usec_at 8000000, 20), (usec_at 8500000, 5), (usec_at 9000000, 1)];
       q' = fold (\<lambda>(t, b). calc_bandwidth t (of_bool False) b) es empty_qos
   in bw_last_sec q' 0 = 25 \<and> sum_bytes_this_sec q' 0 = 1"
  using bandwidth_is_last_second [of empty_qos False
      "[(usec_at 7000000, 10), (usec_at 8000000, 20), (usec_at 8500000, 5), (usec_at 9000000, 1)]", OF _ refl]
  by (simp add: clocked_def sampled_def usec_at_def empty_qos_def calc_bandwidth_def bytes_in_def)

text \<open>
  The delay the throttle asks for. It never makes an RPC wait longer than the configured
  gap counted from the recorded time of the previous RPC, and falls short of it by less than
  a millisecond (the \<open>msleep\<close> branch rounds down).
\<close>

theorem throttle_delay_bounds:
  assumes "0 \<le> tv_sub now (last_rpc_time q)" and "qos_throttle tv_sub now q = (d, q')"
  shows "0 \<le> delay_usec d \<and>
     delay_usec d \<le> max 0 (uint (min_usec_between_rpcs q) - tv_sub now (last_rpc_time q)) \<and>
     uint (min_usec_between_rpcs q) - 999 \<le> tv_sub now (last_rpc_time q) + delay_usec d"
proof (cases "min_usec_between_rpcs q = 0")
  case True
  with assms show ?thesis by (auto simp: qos_throttle_def)
next
  case False
  define need where "need = uint (min_usec_between_rpcs q) - tv_sub now (last_rpc_time q)"
  have d: "d = (if need \<le> 0 then No_Delay else if need < 1000 then Udelay need
      else if need < 20000 then Usleep_Range (need - 1) need else Msleep (need div 1000))"
    using False assms by (simp add: qos_throttle_def Let_def need_def split: if_splits)
  have "need - 999 \<le> need div 1000 * 1000" "need div 1000 * 1000 \<le> need" by presburger+
  then have "0 \<le> delay_usec d \<and> delay_usec d \<le> max 0 need \<and> need - 999 \<le> delay_usec d"
    by (simp add: d)
  then show ?thesis by (simp add: need_def)
qed

theorem throttle_delay_bounds_witness:
  "case qos_throttle usec_diff (usec_at 1500) (empty_qos\<lparr>min_usec_between_rpcs := 50000\<rparr>) of (d, q') \<Rightarrow>
     0 \<le> delay_usec d \<and> delay_usec d \<le> 48500 \<and> 49001 \<le> 1500 + delay_usec d"
proof -
  let ?q = "empty_qos\<lparr>min_usec_between_rpcs := 50000\<rparr>"
  obtain d q' where e: "qos_throttle usec_diff (usec_at 1500) ?q = (d, q')"
    by (cases "qos_throttle usec_diff (usec_at 1500) ?q")
  have u: "usec_diff (usec_at 1500) (last_rpc_time empty_qos) = 1500"
    by (simp add: usec_diff_def usec_at_def empty_qos_def zero_time_def)
  from throttle_delay_bounds [of usec_diff "usec_at 1500" ?q d q'] e show ?thesis
    by (simp add: u)
qed

text \<open>
  The gap between two RPCs is not kept. The throttle records the time of the call, not the
  time after the delay, so an RPC that was delayed does not push back the next one: with a
  configured gap of 10 microseconds two RPCs leave 1 microsecond apart.
\<close>

theorem throttle_gap_not_kept:
  "let q0 = empty_qos\<lparr>min_usec_between_rpcs := 10, last_rpc_time := usec_at 5000000\<rparr>;
       (d1, q1) = qos_throttle usec_diff (usec_at 5000001) q0;
       released1 = 5000001 + delay_usec d1;
       (d2, q2) = qos_throttle usec_diff (usec_at released1) q1;
       released2 = released1 + delay_usec d2
   in released2 - released1 = 1 \<and> min_usec_between_rpcs q1 = 10"
  by (simp add: qos_throttle_def usec_diff_def usec_at_def empty_qos_def zero_time_def)
end
