(* ===== verification/Lfz_Throttle.thy ===== *)
theory Lfz_Throttle
  imports C_String Second_Meter
begin

text \<open>
  The byte budget of the LFZ variant of the target module (\<open>lfz/lfz.c\<close>, \<open>lfz/lfz.h\<close>): a
  global counter holds the bytes that may still be transferred in the current second;
  \<open>throttle_bandwidth\<close> charges a transfer to it and is meant to delay the caller to the end of
  the second when the budget is spent. The time of day is an argument; the delay in
  microseconds is a result.
\<close>

section \<open>Model\<close>

record tbf_counter_t =
  total_tbf_rate :: u64
  resid_tbf :: u64
  last_time :: timeval

abbreviation ONE_MILLION :: int where "ONE_MILLION \<equiv> 1000000"

text \<open>\<open>simple_strtoll(s, NULL, 10)\<close>, stored into a \<open>__u64\<close>.\<close>

definition strtoll_u64 :: "string \<Rightarrow> u64" where
  "strtoll_u64 s =
     (if s \<noteq> [] \<and> hd s = CHR ''-'' then - of_nat (fst (strtoull (tl s))) else of_nat (fst (strtoull s)))"

text \<open>
  What \<open>filp_open\<close> can return: a null pointer, an error pointer (how it reports a missing
  file), a file without a dentry, or a file; \<open>Opened\<close> carries what the 128-byte buffer holds
  after the read.
\<close>

datatype filp = Null_File | Err_File int | No_Dentry | Opened string

definition total_tbf_rate_init :: "filp \<Rightarrow> timeval \<Rightarrow> tbf_counter_t \<Rightarrow> (int \<times> tbf_counter_t) outcome" where
  "total_tbf_rate_init f now c =
     (let set_rate = (\<lambda>r. c\<lparr>resid_tbf := r, total_tbf_rate := r, last_time := now\<rparr>) in
      case f of
        Null_File \<Rightarrow> Ret (-1, set_rate (push_bit 30 1))
      | No_Dentry \<Rightarrow> Ret (-1, set_rate (push_bit 30 1))
      | Err_File e \<Rightarrow> Fault NULL_DEREF
      | Opened buf \<Rightarrow> Ret (0, set_rate (strtoll_u64 (cstr buf))))"

text \<open>
  The comparison \<open>resid_tbf - bytes_transferred < 0\<close> is made at the type of its left operand,
  an unsigned 64-bit word, to which the \<open>int\<close> operand is converted.
\<close>

definition throttle_bandwidth :: "timeval \<Rightarrow> int \<Rightarrow> tbf_counter_t \<Rightarrow> int \<times> tbf_counter_t" where
  "throttle_bandwidth now bytes_transferred c =
     (if bytes_transferred = 0 then (0, c)
      else if tv_sec now < tv_sec (last_time c) then (0, c)
      else
        let c1 = (if tv_sec now > tv_sec (last_time c)
                  then c\<lparr>last_time := now, resid_tbf := total_tbf_rate c\<rparr> else c)
        in if resid_tbf c1 - of_int bytes_transferred < 0
           then (ONE_MILLION - tv_usec now smod ONE_MILLION, c1)
           else (0, c1\<lparr>resid_tbf := resid_tbf c1 - of_int bytes_transferred\<rparr>))"

section \<open>Budget accounting\<close>

definition consumed :: "tbf_counter_t \<Rightarrow> u64" where
  "consumed c = total_tbf_rate c - resid_tbf c"

abbreviation charge :: "timeval \<times> int \<Rightarrow> tbf_counter_t \<Rightarrow> tbf_counter_t" where
  "charge \<equiv> \<lambda>(t, b) c. snd (throttle_bandwidth t b c)"

lemma throttle_total [simp]: "total_tbf_rate (snd (throttle_bandwidth t b c)) = total_tbf_rate c"
  by (simp add: throttle_bandwidth_def Let_def)

interpretation lfz: second_meter "\<lambda>c. tv_sec (last_time c)" consumed
  "\<lambda>sec b c. snd (throttle_bandwidth \<lparr>tv_sec = sec, tv_usec = 0\<rparr> (uint b) c)" "\<lambda>_ b. b \<noteq> 0"
  by unfold_locales (auto simp: throttle_bandwidth_def consumed_def Let_def uint_0_iff)

text \<open>Only the second of the clock matters for the account, not the microseconds.\<close>

definition same_account :: "tbf_counter_t \<Rightarrow> tbf_counter_t \<Rightarrow> bool" where
  "same_account c d \<longleftrightarrow> total_tbf_rate c = total_tbf_rate d \<and> resid_tbf c = resid_tbf d \<and>
     tv_sec (last_time c) = tv_sec (last_time d)"

lemma throttle_same_account:
  assumes "same_account c d" and "0 < b" and "b < 2 ^ 31"
  shows "same_account (snd (throttle_bandwidth t b c))
    (snd (throttle_bandwidth \<lparr>tv_sec = tv_sec t, tv_usec = 0\<rparr> (uint (of_int b :: u64)) d))"
proof -
  have "uint (of_int b :: u64) = b" using assms(2,3) by (simp add: uint_word_of_int_eq take_bit_int_eq_self)
  with assms(1,2) show ?thesis by (auto simp: throttle_bandwidth_def same_account_def Let_def)
qed

definition transfers :: "(timeval \<times> int) list \<Rightarrow> (int \<times> u64) list" where
  "transfers es = map (\<lambda>(t, b). (tv_sec t, of_int b)) es"

lemma fold_charge_same_account:
  assumes "same_account c d" and "\<forall>(t, b) \<in> set es. 0 < b \<and> b < 2 ^ 31"
  shows "same_account (fold charge es c) (lfz.run (transfers es) d)"
  using assms
proof (induction es arbitrary: c d)
  case (Cons e es)
  obtain t b where e: "e = (t, b)" by (cases e)
  have "same_account (snd (throttle_bandwidth t b c))
      (snd (throttle_bandwidth \<lparr>tv_sec = tv_sec t, tv_usec = 0\<rparr> (uint (of_int b :: u64)) d))"
    using Cons.prems by (intro throttle_same_account) (simp_all add: e)
  with Cons.IH Cons.prems(2) show ?case by (simp add: e transfers_def)
qed (simp add: transfers_def)

lemma positive_int_counted: "0 < b \<Longrightarrow> b < 2 ^ 31 \<Longrightarrow> (of_int b :: u64) \<noteq> 0"
  using zdvd_imp_le [of "2 ^ 64" b] by (auto simp: word_of_int_eq_0_iff)

section \<open>Properties\<close>

text \<open>
  C28: the LFZ throttle never delays anyone. Whatever the clock, the size of the transfer and
  the state of the budget, \<open>throttle_bandwidth\<close> asks for no delay, because the test for an
  exhausted budget compares an unsigned difference with 0; a transfer above the residual
  budget wraps the residual around to a huge one instead.
\<close>

theorem throttle_bandwidth_never_delays:
  "fst (throttle_bandwidth now b c) = 0 \<and>
   (tv_sec now = tv_sec (last_time c) \<longrightarrow> 0 < b \<longrightarrow> b < 2 ^ 31 \<longrightarrow> unat (resid_tbf c) < nat b \<longrightarrow>
      unat (resid_tbf (snd (throttle_bandwidth now b c))) = 2 ^ 64 + unat (resid_tbf c) - nat b)"
proof -
  have "unat (r - of_int b :: u64) = 2 ^ 64 + unat r - nat b"
    if "0 < b" "b < 2 ^ 31" "unat r < nat b" for r
  proof -
    have "unat (of_int b :: u64) = nat b"
      using that(1,2) by (simp add: unat_eq_nat_uint uint_word_of_int_eq take_bit_int_eq_self)
    then show ?thesis using unat_minus_wrap [of r "of_int b"] that(3) by simp
  qed
  then show ?thesis by (auto simp: throttle_bandwidth_def Let_def)
qed

theorem throttle_bandwidth_never_delays_witness:
  "let c = \<lparr>total_tbf_rate = 100, resid_tbf = 10, last_time = \<lparr>tv_sec = 5, tv_usec = 0\<rparr>\<rparr> in
   unat (resid_tbf (snd (throttle_bandwidth \<lparr>tv_sec = 5, tv_usec = 7\<rparr> 11 c))) = 2 ^ 64 - 1"
  using throttle_bandwidth_never_delays [of "\<lparr>tv_sec = 5, tv_usec = 7\<rparr>" 11
      "\<lparr>total_tbf_rate = 100, resid_tbf = 10, last_time = \<lparr>tv_sec = 5, tv_usec = 0\<rparr>\<rparr>"]
  by simp

text \<open>
  the LFZ budget accounts exactly for the current second. After a trace of non-empty
  transfers whose clock does not run backwards and that has left the starting second, the
  total rate less the residual budget is the number of bytes of the last second (modulo
  \<open>2 ^ 64\<close>), however often the budget was exceeded before.
\<close>

theorem lfz_budget_per_second:
  assumes "clocked (tv_sec (last_time c)) (transfers es)"
    and "\<forall>(t, b) \<in> set es. 0 < b \<and> b < 2 ^ 31"
    and "c' = fold (\<lambda>(t, b) c. snd (throttle_bandwidth t b c)) es c"
    and "tv_sec (last_time c) < tv_sec (last_time c')"
  shows "total_tbf_rate c' = total_tbf_rate c \<and>
    total_tbf_rate c' - resid_tbf c' = bytes_in (tv_sec (last_time c')) (transfers es)"
proof -
  let ?d = "lfz.run (transfers es) c"
  have "same_account c' ?d"
    using fold_charge_same_account [of c c es] assms(2,3) by (simp add: same_account_def)
  moreover have "lfz.trace c (transfers es)"
    using assms(1,2) positive_int_counted by (fastforce simp: lfz.trace_def transfers_def)
  note lfz.run_acc [OF this]
  moreover have "total_tbf_rate c' = total_tbf_rate c"
    unfolding assms(3) by (rule fold_invariant [where Q = "\<lambda>_. True"]) auto
  ultimately show ?thesis using assms(4) by (auto simp: same_account_def consumed_def)
qed

theorem lfz_budget_per_second_witness:
  "let c = \<lparr>total_tbf_rate = 100, resid_tbf = 10, last_time = \<lparr>tv_sec = 5, tv_usec = 0\<rparr>\<rparr>;
       c' = fold (\<lambda>(t, b) c. snd (throttle_bandwidth t b c))
         [(\<lparr>tv_sec = 5, tv_usec = 7\<rparr>, 11), (\<lparr>tv_sec = 6, tv_usec = 0\<rparr>, 40), (\<lparr>tv_sec = 6, tv_usec = 9\<rparr>, 30)] c
   in total_tbf_rate c' - resid_tbf c' = 70"
  using lfz_budget_per_second [of "\<lparr>total_tbf_rate = 100, resid_tbf = 10, last_time = \<lparr>tv_sec = 5, tv_usec = 0\<rparr>\<rparr>"
      "[(\<lparr>tv_sec = 5, tv_usec = 7\<rparr>, 11), (\<lparr>tv_sec = 6, tv_usec = 0\<rparr>, 40), (\<lparr>tv_sec = 6, tv_usec = 9\<rparr>, 30)]",
      OF _ _ refl]
  by (simp add: throttle_bandwidth_def transfers_def clocked_def bytes_in_def)

text \<open>
  the configuration file of the LFZ throttle. The number at the start of the file
  becomes the rate, with a full budget; a missing file, which \<open>filp_open\<close> reports by an error
  pointer, passes the null test and is dereferenced.
\<close>

theorem total_tbf_rate_init_cases:
  assumes "\<not> isdigit d" and "d \<noteq> CHR 0x00" and "n < 2 ^ 64"
  shows "(\<exists>c'. total_tbf_rate_init (Opened (show_nat n @ d # junk)) now c = Ret (0, c') \<and>
      unat (total_tbf_rate c') = n \<and> consumed c' = 0 \<and> last_time c' = now) \<and>
    total_tbf_rate_init (Err_File (- ENOENT)) now c = Fault NULL_DEREF"
proof -
  have nz: "\<forall>x \<in> set (show_nat n). x \<noteq> CHR 0x00"
    using show_nat_digits [of n] by (auto simp: isdigit_def)
  then have cs: "cstr (show_nat n @ d # junk) = show_nat n @ d # cstr junk"
    using assms(2) by (simp add: cstr_def takeWhile_append)
  have ne: "hd (show_nat n) \<noteq> CHR ''-''" using hd_show_nat_digit [of n] by (auto simp: isdigit_def)
  have "strtoll_u64 (show_nat n @ d # cstr junk) = of_nat n"
    using ne show_nat_nonempty [of n] strtoull_show_nat [of "d # cstr junk" n] assms(1)
    by (simp add: strtoll_u64_def)
  then show ?thesis using assms(3)
    by (simp add: total_tbf_rate_init_def consumed_def cs unat_of_nat_small)
qed

theorem total_tbf_rate_init_cases_witness:
  "\<exists>c'. total_tbf_rate_init (Opened (show_nat 1000 @ CHR 0x0A # []))
      \<lparr>tv_sec = 1, tv_usec = 2\<rparr> \<lparr>total_tbf_rate = 0, resid_tbf = 0, last_time = \<lparr>tv_sec = 0, tv_usec = 0\<rparr>\<rparr>
      = Ret (0, c') \<and> unat (total_tbf_rate c') = 1000"
  using total_tbf_rate_init_cases [of "CHR 0x0A" 1000] by (fastforce simp: isdigit_def)

end
