(* ===== verification/Lprocfs_Counters.thy ===== *)
theory Lprocfs_Counters
  imports Second_Meter LT_Prelude
begin

text \<open>
  The statistics counters of the servers (\<open>lprocfs_counters.c\<close>, the counter half of
  \<open>lprocfs_status.c\<close> and \<open>lprocfs_status.h\<close>). A statistics object has one array of counters
  per CPU, allocated when a CPU first counts something, or a single array; a sample is
  added to the array of the current CPU and a reader adds the arrays up. The bandwidth
  counters reuse the same slots for a per-second count.

  The current CPU, the interrupt context, the outcome of the allocation and the time of day
  are arguments. The \<open>__s64\<close> fields are 64-bit words, compared as signed numbers.
\<close>

section \<open>Data\<close>

record lprocfs_counter_header =
  lc_config :: u32
  lc_name :: string
  lc_units :: string

record lprocfs_counter =
  lc_count :: u64
  lc_min :: u64
  lc_max :: u64
  lc_sumsquare :: u64
  lc_sum :: u64

text \<open>Only the counters of an IRQ-safe object have the second sum.\<close>

record lprocfs_counter_irq = lprocfs_counter +
  lc_sum_irq :: u64

record lprocfs_stats =
  ls_num :: nat
  ls_biggest_alloc_num :: nat
  nopercpu :: bool
  irq_safe :: bool
  ls_cnt_header :: "lprocfs_counter_header list"
  ls_percpu :: "lprocfs_counter_irq list option list"

abbreviation LPROCFS_CNTR_AVGMINMAX :: u32 where "LPROCFS_CNTR_AVGMINMAX \<equiv> 2"
abbreviation LPROCFS_CNTR_STDDEV :: u32 where "LPROCFS_CNTR_STDDEV \<equiv> 4"

abbreviation LC_MIN_INIT :: u64 where "LC_MIN_INIT \<equiv> 0x7FFFFFFFFFFFFFFF"

datatype lprocfs_stats_lock_ops = LPROCFS_GET_NUM_CPU | LPROCFS_GET_SMP_ID

unbundle bit_operations_syntax

definition has_flag :: "u32 \<Rightarrow> u32 \<Rightarrow> bool" where
  "has_flag c f \<longleftrightarrow> c AND f \<noteq> 0"

definition zero_counter :: lprocfs_counter_irq where
  "zero_counter = \<lparr>lc_count = 0, lc_min = 0, lc_max = 0, lc_sumsquare = 0, lc_sum = 0, lc_sum_irq = 0\<rparr>"

section \<open>Memory layout\<close>

abbreviation sizeof_counter :: nat where "sizeof_counter \<equiv> 40"
abbreviation sizeof_s64 :: nat where "sizeof_s64 \<equiv> 8"

definition L1_CACHE_ALIGN :: "nat \<Rightarrow> nat \<Rightarrow> nat" where
  "L1_CACHE_ALIGN line x = (x + line - 1) div line * line"

definition lprocfs_stats_counter_size :: "nat \<Rightarrow> lprocfs_stats \<Rightarrow> nat" where
  "lprocfs_stats_counter_size line stats =
     (let percpusize = ls_num stats * sizeof_counter;
          percpusize = (if irq_safe stats then percpusize + ls_num stats * sizeof_s64 else percpusize)
      in if nopercpu stats then percpusize else L1_CACHE_ALIGN line percpusize)"

text \<open>The byte offset of the counter \<open>lprocfs_stats_counter_get\<close> returns.\<close>

definition lprocfs_stats_counter_get :: "lprocfs_stats \<Rightarrow> nat \<Rightarrow> nat" where
  "lprocfs_stats_counter_get stats index =
     index * sizeof_counter + (if irq_safe stats then index * sizeof_s64 else 0)"

section \<open>Locking and allocation\<close>

definition lprocfs_stats_alloc_one :: "nat \<Rightarrow> bool \<Rightarrow> lprocfs_stats \<Rightarrow> (int \<times> lprocfs_stats) outcome" where
  "lprocfs_stats_alloc_one cpuid mem stats =
     lassert (ls_percpu stats ! cpuid = None) (lassert (\<not> nopercpu stats)
       (Ret (if mem then
          (0, stats\<lparr>ls_biggest_alloc_num :=
                (if ls_biggest_alloc_num stats \<le> cpuid then cpuid + 1 else ls_biggest_alloc_num stats),
              ls_percpu := (ls_percpu stats)
                [cpuid := Some (replicate (ls_num stats) (zero_counter\<lparr>lc_min := LC_MIN_INIT\<rparr>))]\<rparr>)
          else (- ENOMEM, stats))))"

definition lprocfs_stats_lock ::
  "nat \<Rightarrow> bool \<Rightarrow> lprocfs_stats_lock_ops \<Rightarrow> lprocfs_stats \<Rightarrow> (int \<times> lprocfs_stats) outcome" where
  "lprocfs_stats_lock cpuid mem opc stats =
     (if nopercpu stats then Ret (if opc = LPROCFS_GET_NUM_CPU then 1 else 0, stats)
      else case opc of
        LPROCFS_GET_SMP_ID \<Rightarrow>
          (if cpuid \<ge> length (ls_percpu stats) then Fault OVERRUN
           else if ls_percpu stats ! cpuid = None then
             bindO (lprocfs_stats_alloc_one cpuid mem stats) (\<lambda>(rc, st).
               Ret (if rc < 0 then (rc, st) else (int cpuid, st)))
           else Ret (int cpuid, stats))
      | LPROCFS_GET_NUM_CPU \<Rightarrow> Ret (int (ls_biggest_alloc_num stats), stats))"

definition modify_counter ::
  "nat \<Rightarrow> nat \<Rightarrow> (lprocfs_counter_irq \<Rightarrow> lprocfs_counter_irq) \<Rightarrow> lprocfs_stats \<Rightarrow> lprocfs_stats outcome" where
  "modify_counter cpuid idx f stats =
     (if cpuid \<ge> length (ls_percpu stats) then Fault OVERRUN
      else case ls_percpu stats ! cpuid of
        None \<Rightarrow> Fault NULL_DEREF
      | Some cs \<Rightarrow>
          if idx \<ge> length cs then Fault OVERRUN
          else Ret (stats\<lparr>ls_percpu := (ls_percpu stats)[cpuid := Some (cs[idx := f (cs ! idx)])]\<rparr>))"

text \<open>
  The frame the update functions share: nothing for a null object, an assertion on the
  index, the lock, which may fail to allocate, and the update of one counter.
\<close>

definition with_counter ::
  "(lprocfs_counter_header \<Rightarrow> lprocfs_stats \<Rightarrow> lprocfs_counter_irq \<Rightarrow> lprocfs_counter_irq) \<Rightarrow>
   nat \<Rightarrow> bool \<Rightarrow> int \<Rightarrow> lprocfs_stats option \<Rightarrow> lprocfs_stats option outcome" where
  "with_counter f cpuid mem idx stats =
     (case stats of
        None \<Rightarrow> Ret None
      | Some st \<Rightarrow>
          lassert (0 \<le> idx \<and> idx < int (ls_num st))
            (bindO (lprocfs_stats_lock cpuid mem LPROCFS_GET_SMP_ID st) (\<lambda>(smp_id, st1).
               if smp_id < 0 then Ret (Some st1)
               else bindO (modify_counter (nat smp_id) (nat idx)
                              (f (ls_cnt_header st1 ! nat idx) st1) st1)
                      (\<lambda>st2. Ret (Some st2)))))"

section \<open>Counting\<close>

definition add_counter :: "bool \<Rightarrow> int \<Rightarrow> lprocfs_counter_header \<Rightarrow> lprocfs_stats \<Rightarrow>
  lprocfs_counter_irq \<Rightarrow> lprocfs_counter_irq" where
  "add_counter in_interrupt amount header st c =
     (let c = c\<lparr>lc_count := lc_count c + 1\<rparr> in
      if has_flag (lc_config header) LPROCFS_CNTR_AVGMINMAX then
        let c = (if in_interrupt \<and> irq_safe st
                 then c\<lparr>lc_sum_irq := lc_sum_irq c + of_int amount\<rparr>
                 else c\<lparr>lc_sum := lc_sum c + of_int amount\<rparr>);
            c = (if has_flag (lc_config header) LPROCFS_CNTR_STDDEV
                 then c\<lparr>lc_sumsquare := lc_sumsquare c + of_int amount * of_int amount\<rparr> else c);
            c = (if amount < sint (lc_min c) then c\<lparr>lc_min := of_int amount\<rparr> else c)
        in (if sint (lc_max c) < amount then c\<lparr>lc_max := of_int amount\<rparr> else c)
      else c)"

definition lprocfs_counter_add ::
  "nat \<Rightarrow> bool \<Rightarrow> bool \<Rightarrow> int \<Rightarrow> int \<Rightarrow> lprocfs_stats option \<Rightarrow> lprocfs_stats option outcome" where
  "lprocfs_counter_add cpuid mem in_interrupt idx amount stats =
     with_counter (add_counter in_interrupt amount) cpuid mem idx stats"

definition sub_counter :: "bool \<Rightarrow> int \<Rightarrow> lprocfs_counter_header \<Rightarrow> lprocfs_stats \<Rightarrow>
  lprocfs_counter_irq \<Rightarrow> lprocfs_counter_irq" where
  "sub_counter in_interrupt amount header st c =
     (if has_flag (lc_config header) LPROCFS_CNTR_AVGMINMAX then
        if in_interrupt \<and> irq_safe st
        then c\<lparr>lc_sum_irq := lc_sum_irq c - of_int amount\<rparr>
        else c\<lparr>lc_sum := lc_sum c - of_int amount\<rparr>
      else c)"

definition lprocfs_counter_sub ::
  "nat \<Rightarrow> bool \<Rightarrow> bool \<Rightarrow> int \<Rightarrow> int \<Rightarrow> lprocfs_stats option \<Rightarrow> lprocfs_stats option outcome" where
  "lprocfs_counter_sub cpuid mem in_interrupt idx amount stats =
     with_counter (sub_counter in_interrupt amount) cpuid mem idx stats"

text \<open>
  The bandwidth counters keep the current second in \<open>lc_min\<close>. The additions to it are made
  at 64 bits and wrap.
\<close>

definition bandwidth_counter :: "int \<Rightarrow> int \<Rightarrow> 'a lprocfs_counter_scheme \<Rightarrow> 'a lprocfs_counter_scheme" where
  "bandwidth_counter now_sec amount c =
     (let c = c\<lparr>lc_count := lc_count c + 1\<rparr> in
      if now_sec = sint (lc_min c) then
        let c = c\<lparr>lc_sum := lc_sum c + of_int amount\<rparr>
        in (if sint (lc_max c) < sint (lc_sum c) then c\<lparr>lc_max := lc_sum c\<rparr> else c)
      else if now_sec = sint (lc_min c + 1) then
        let c = (if sint (lc_max c) < sint (lc_sum c) then c\<lparr>lc_max := lc_sum c\<rparr> else c)
        in c\<lparr>lc_sumsquare := lc_sumsquare c + lc_sum c * lc_sum c,
             lc_min := of_int now_sec, lc_sum := of_int amount\<rparr>
      else if sint (lc_min c + 1) < now_sec then
        c\<lparr>lc_min := of_int now_sec, lc_sum := of_int amount\<rparr>
      else c)"

definition lprocfs_calc_bandwidth ::
  "nat \<Rightarrow> bool \<Rightarrow> timeval \<Rightarrow> int \<Rightarrow> int \<Rightarrow> lprocfs_stats option \<Rightarrow> lprocfs_stats option outcome" where
  "lprocfs_calc_bandwidth cpuid mem now idx amount stats =
     with_counter (\<lambda>_ _. bandwidth_counter (tv_sec now) amount) cpuid mem idx stats"

section \<open>Reading and clearing\<close>

definition entries :: "nat \<Rightarrow> lprocfs_stats \<Rightarrow> lprocfs_counter_irq list list" where
  "entries n stats = List.map_filter id (take n (ls_percpu stats))"

definition merge :: "lprocfs_counter \<Rightarrow> lprocfs_counter \<Rightarrow> lprocfs_counter" where
  "merge cnt c = \<lparr>
     lc_count = lc_count cnt + lc_count c,
     lc_min = (if sint (lc_min c) < sint (lc_min cnt) then lc_min c else lc_min cnt),
     lc_max = (if sint (lc_max cnt) < sint (lc_max c) then lc_max c else lc_max cnt),
     lc_sumsquare = lc_sumsquare cnt + lc_sumsquare c,
     lc_sum = lc_sum cnt + lc_sum c\<rparr>"

definition collect_start :: lprocfs_counter where
  "collect_start = \<lparr>lc_count = 0, lc_min = LC_MIN_INIT, lc_max = 0, lc_sumsquare = 0, lc_sum = 0\<rparr>"

definition num_entries :: "lprocfs_stats \<Rightarrow> nat" where
  "num_entries st = (if nopercpu st then 1 else ls_biggest_alloc_num st)"

definition lprocfs_stats_collect :: "lprocfs_stats option \<Rightarrow> nat \<Rightarrow> lprocfs_counter" where
  "lprocfs_stats_collect stats idx =
     (case stats of
        None \<Rightarrow> \<lparr>lc_count = 1, lc_min = 0, lc_max = 0, lc_sumsquare = 0, lc_sum = 0\<rparr>
      | Some st \<Rightarrow>
          fold (\<lambda>cs cnt. merge cnt (lprocfs_counter.truncate (cs ! idx)))
            (entries (num_entries st) st) collect_start)"

definition cleared :: "lprocfs_stats \<Rightarrow> lprocfs_counter_irq \<Rightarrow> lprocfs_counter_irq" where
  "cleared st c =
     (let c = c\<lparr>lc_count := 0, lc_min := LC_MIN_INIT, lc_max := 0, lc_sumsquare := 0, lc_sum := 0\<rparr>
      in if irq_safe st then c\<lparr>lc_sum_irq := 0\<rparr> else c)"

definition map_entries ::
  "(lprocfs_counter_irq list \<Rightarrow> lprocfs_counter_irq list) \<Rightarrow> lprocfs_stats \<Rightarrow> lprocfs_stats" where
  "map_entries f st = st\<lparr>ls_percpu :=
     map (map_option f) (take (num_entries st) (ls_percpu st)) @ drop (num_entries st) (ls_percpu st)\<rparr>"

definition lprocfs_clear_stats :: "lprocfs_stats \<Rightarrow> lprocfs_stats" where
  "lprocfs_clear_stats st = map_entries (map (cleared st)) st"

definition lprocfs_counter_init ::
  "nat \<Rightarrow> u32 \<Rightarrow> string \<Rightarrow> string \<Rightarrow> lprocfs_stats option \<Rightarrow> lprocfs_stats outcome" where
  "lprocfs_counter_init index conf name units stats =
     (case stats of
        None \<Rightarrow> Fault LBUG
      | Some st \<Rightarrow>
          if index \<ge> length (ls_cnt_header st) then Fault OVERRUN
          else Ret (map_entries (\<lambda>cs. cs[index := cleared st (cs ! index)])
            (st\<lparr>ls_cnt_header := (ls_cnt_header st)
               [index := \<lparr>lc_config = conf, lc_name = name, lc_units = units\<rparr>]\<rparr>)))"

datatype lprocfs_fields_flags = FLAGS_CONFIG | FLAGS_SUM | FLAGS_MIN | FLAGS_MAX | FLAGS_AVG
  | FLAGS_SUMSQUARE | FLAGS_COUNT | FLAGS_OTHER

definition lprocfs_read_helper ::
  "lprocfs_counter_irq option \<Rightarrow> lprocfs_counter_header option \<Rightarrow> bool \<Rightarrow> lprocfs_fields_flags \<Rightarrow> u64" where
  "lprocfs_read_helper lc header irq field =
     (case (lc, header) of
        (Some c, Some h) \<Rightarrow>
          (case field of
             FLAGS_CONFIG \<Rightarrow> ucast (lc_config h)
           | FLAGS_SUM \<Rightarrow> if irq then lc_sum c + lc_sum_irq c else lc_sum c
           | FLAGS_MIN \<Rightarrow> lc_min c
           | FLAGS_MAX \<Rightarrow> lc_max c
           | FLAGS_AVG \<Rightarrow> of_int (sint (lc_max c - lc_min c) sdiv 2)
           | FLAGS_SUMSQUARE \<Rightarrow> lc_sumsquare c
           | FLAGS_COUNT \<Rightarrow> lc_count c
           | FLAGS_OTHER \<Rightarrow> 0)
      | _ \<Rightarrow> 0)"

definition lprocfs_stats_collector :: "lprocfs_stats option \<Rightarrow> nat \<Rightarrow> lprocfs_fields_flags \<Rightarrow> u64 outcome" where
  "lprocfs_stats_collector stats idx field =
     (case stats of
        None \<Rightarrow> Fault LBUG
      | Some st \<Rightarrow> Ret (sum_list (map (\<lambda>cs.
          lprocfs_read_helper (Some (cs ! idx)) (Some (ls_cnt_header st ! idx)) (irq_safe st) field)
          (entries (num_entries st) st))))"

text \<open>
  \<open>lprocfs_alloc_stats\<close>: \<open>mem i\<close> tells whether the \<open>i\<close>-th allocation succeeds (the object, the
  headers, then the counter arrays); all allocated memory is zeroed.
\<close>

fun alloc_all :: "(nat \<Rightarrow> bool) \<Rightarrow> nat list \<Rightarrow> lprocfs_stats \<Rightarrow> lprocfs_stats option outcome" where
  "alloc_all mem [] st = Ret (Some st)"
| "alloc_all mem (i # is) st =
     bindO (lprocfs_stats_alloc_one i (mem (i + 2)) st) (\<lambda>(rc, st1).
       if rc < 0 then Ret None else alloc_all mem is st1)"

definition lprocfs_alloc_stats ::
  "nat \<Rightarrow> bool \<Rightarrow> (nat \<Rightarrow> bool) \<Rightarrow> nat \<Rightarrow> bool \<Rightarrow> bool \<Rightarrow> lprocfs_stats option outcome" where
  "lprocfs_alloc_stats ncpus no_percpu_stats mem num nopercpu0 irq =
     (if num = 0 then Ret None
      else
        let noper = (nopercpu0 \<or> no_percpu_stats);
            num_entry = (if noper then 1 else ncpus);
            st = \<lparr>ls_num = num mod 2 ^ 16, ls_biggest_alloc_num = 0, nopercpu = noper, irq_safe = irq,
                  ls_cnt_header = replicate (num mod 2 ^ 16) \<lparr>lc_config = 0, lc_name = [], lc_units = []\<rparr>,
                  ls_percpu = replicate num_entry None\<rparr>
        in if \<not> mem 0 then Ret None
           else if \<not> mem 1 then Ret None
           else if noper then
             (if mem 2 then Ret (Some (st\<lparr>ls_percpu := [Some (replicate (ls_num st) zero_counter)],
                                          ls_biggest_alloc_num := 1\<rparr>))
              else Ret None)
           else if irq then alloc_all mem [0..<num_entry] st
           else Ret (Some st))"

section \<open>Histograms\<close>

abbreviation OBD_HIST_MAX :: nat where "OBD_HIST_MAX \<equiv> 32"

type_synonym obd_histogram = "u64 list"

definition lprocfs_oh_tally :: "u32 \<Rightarrow> obd_histogram \<Rightarrow> obd_histogram" where
  "lprocfs_oh_tally value oh =
     (let v = (if unat value \<ge> OBD_HIST_MAX then OBD_HIST_MAX - 1 else unat value)
      in oh[v := oh ! v + 1])"

fun fls :: "nat \<Rightarrow> nat" where
  "fls n = (if n = 0 then 0 else 1 + fls (n div 2))"

declare fls.simps [simp del]

definition lprocfs_oh_tally_log2 :: "u32 \<Rightarrow> obd_histogram \<Rightarrow> obd_histogram" where
  "lprocfs_oh_tally_log2 value oh =
     lprocfs_oh_tally (if value \<noteq> 0 then of_nat (min (fls (unat (value - 1))) OBD_HIST_MAX) else 0) oh"

definition lprocfs_oh_sum :: "obd_histogram \<Rightarrow> u64" where
  "lprocfs_oh_sum oh = sum_list (take OBD_HIST_MAX oh)"

definition lprocfs_oh_clear :: "obd_histogram \<Rightarrow> obd_histogram" where
  "lprocfs_oh_clear oh = replicate OBD_HIST_MAX 0"

section \<open>The shape of a statistics object\<close>

definition stats_ok :: "lprocfs_stats \<Rightarrow> bool" where
  "stats_ok st \<longleftrightarrow>
     length (ls_cnt_header st) = ls_num st \<and>
     (nopercpu st \<longrightarrow> length (ls_percpu st) = 1 \<and> ls_percpu st ! 0 \<noteq> None) \<and>
     (\<forall>i < length (ls_percpu st). ls_percpu st ! i \<noteq> None \<longrightarrow> i < num_entries st) \<and>
     (\<forall>cs. Some cs \<in> set (ls_percpu st) \<longrightarrow> length cs = ls_num st)"

lemma map_filter_id_append: "List.map_filter id (xs @ ys) = List.map_filter id xs @ List.map_filter id ys"
  by (simp add: map_filter_def)

lemma stats_ok_unallocated:
  assumes "stats_ok st" and "x \<in> set (drop (num_entries st) (ls_percpu st))"
  shows "x = None"
proof -
  from assms(2) obtain j where "j < length (ls_percpu st) - num_entries st"
    "x = ls_percpu st ! (num_entries st + j)"
    by (auto simp: in_set_conv_nth)
  moreover from assms(1) have "\<forall>i < length (ls_percpu st). ls_percpu st ! i \<noteq> None \<longrightarrow> i < num_entries st"
    by (simp add: stats_ok_def)
  ultimately show ?thesis by (metis less_diff_conv add.commute not_add_less1)
qed

lemma entries_all:
  assumes "stats_ok st"
  shows "entries (num_entries st) st = List.map_filter id (ls_percpu st)"
proof -
  have "List.map_filter id (drop (num_entries st) (ls_percpu st)) = []"
    using stats_ok_unallocated [OF assms] by (simp add: map_filter_def filter_empty_conv)
  moreover have "List.map_filter id (ls_percpu st) =
      entries (num_entries st) st @ List.map_filter id (drop (num_entries st) (ls_percpu st))"
    unfolding entries_def map_filter_id_append [symmetric] by simp
  ultimately show ?thesis by simp
qed

section \<open>Adding up the CPUs\<close>

interpretation merging: abel_semigroup merge
proof
  show "merge (merge a b) c = merge a (merge b c)" for a b c
    by (simp add: merge_def)
  show "merge a b = merge b a" for a b
    using sint_eq_u64 [of "lc_min a" "lc_min b"] sint_eq_u64 [of "lc_max a" "lc_max b"]
    by (auto simp: merge_def add.commute not_less simp del: sint_eq_u64)
qed

definition sample :: "int \<Rightarrow> lprocfs_counter" where
  "sample a = \<lparr>lc_count = 1, lc_min = of_int a, lc_max = of_int a,
     lc_sumsquare = of_int a * of_int a, lc_sum = of_int a\<rparr>"

text \<open>One counting step is a merge with the sample.\<close>

lemma add_counter_merge:
  assumes "has_flag (lc_config h) LPROCFS_CNTR_AVGMINMAX" "has_flag (lc_config h) LPROCFS_CNTR_STDDEV"
    and "- (2 ^ 63) \<le> a" "a < 2 ^ 63"
  shows "lprocfs_counter.truncate (add_counter False a h st c) =
    merge (lprocfs_counter.truncate c) (sample a)"
proof -
  have "sint (of_int a :: u64) = a"
    using assms(3,4) by (simp add: s64_id)
  then show ?thesis
    using assms(1,2)
    by (auto simp: add_counter_def merge_def sample_def lprocfs_counter.truncate_def Let_def)
qed

definition total :: "nat \<Rightarrow> lprocfs_counter_irq list option list \<Rightarrow> lprocfs_counter" where
  "total idx ps = fold (\<lambda>cs cnt. merge cnt (lprocfs_counter.truncate (cs ! idx)))
     (List.map_filter id ps) collect_start"

lemma collect_total: "stats_ok st \<Longrightarrow> lprocfs_stats_collect (Some st) idx = total idx (ls_percpu st)"
  by (simp add: lprocfs_stats_collect_def total_def entries_all)

lemma fold_merge_out:
  "fold (\<lambda>cs cnt. merge cnt (g cs)) xs (merge u s) = merge (fold (\<lambda>cs cnt. merge cnt (g cs)) xs u) s"
proof (induction xs arbitrary: u)
  case (Cons x xs)
  have "merge (merge u s) (g x) = merge (merge u (g x)) s" by (simp add: merging.assoc merging.commute merging.left_commute)
  with Cons show ?case by simp
qed simp

lemma total_update:
  assumes "i < length ps" and "ps ! i = Some cs"
    and "lprocfs_counter.truncate (cs' ! idx) = merge (lprocfs_counter.truncate (cs ! idx)) s"
  shows "total idx (ps[i := Some cs']) = merge (total idx ps) s"
proof -
  have 1: "ps = take i ps @ Some cs # drop (Suc i) ps" using assms(1,2) by (metis id_take_nth_drop)
  have 2: "ps[i := Some cs'] = take i ps @ Some cs' # drop (Suc i) ps"
    using assms(1) by (simp add: upd_conv_take_nth_drop)
  show ?thesis
    unfolding total_def 2 by (subst (3) 1)
      (simp add: map_filter_id_append assms(3) fold_merge_out merging.assoc [symmetric])
qed

lemma merge_start_start: "merge (merge u collect_start) collect_start = merge u collect_start"
  by (simp add: merge_def collect_start_def)

lemma total_start: "merge (total idx ps) collect_start = total idx ps"
proof -
  have "merge collect_start collect_start = collect_start" by (simp add: merge_def collect_start_def)
  then show ?thesis unfolding total_def by (metis fold_merge_out)
qed

lemma total_alloc:
  assumes "i < length ps" and "ps ! i = None" and "lprocfs_counter.truncate (cs ! idx) = collect_start"
  shows "total idx (ps[i := Some cs]) = total idx ps"
proof -
  have 1: "ps = take i ps @ None # drop (Suc i) ps"
    using assms(1,2) by (metis id_take_nth_drop)
  have 2: "ps[i := Some cs] = take i ps @ Some cs # drop (Suc i) ps"
    using assms(1) by (simp add: upd_conv_take_nth_drop)
  have "total idx (ps[i := Some cs]) = merge (total idx (take i ps @ None # drop (Suc i) ps)) collect_start"
    unfolding total_def 2 by (simp add: map_filter_id_append assms(3) fold_merge_out)
  then show ?thesis using 1 total_start by metis
qed

section \<open>The update functions on a well-formed object\<close>

text \<open>What the lock with \<open>LPROCFS_GET_SMP_ID\<close> gives: an allocated slot, or a refusal.\<close>

lemma stats_lock_ok:
  assumes "stats_ok st" and "cpuid < length (ls_percpu st)"
  shows "\<exists>rc st1. lprocfs_stats_lock cpuid mem LPROCFS_GET_SMP_ID st = Ret (rc, st1) \<and> stats_ok st1 \<and>
    ls_num st1 = ls_num st \<and> ls_cnt_header st1 = ls_cnt_header st \<and> irq_safe st1 = irq_safe st \<and>
    length (ls_percpu st1) = length (ls_percpu st) \<and>
    (idx < ls_num st \<longrightarrow> total idx (ls_percpu st1) = total idx (ls_percpu st)) \<and>
    (mem \<longrightarrow> 0 \<le> rc) \<and> (0 \<le> rc \<longrightarrow> nat rc < length (ls_percpu st1) \<and> ls_percpu st1 ! nat rc \<noteq> None)"
proof (cases "\<not> nopercpu st \<and> ls_percpu st ! cpuid = None \<and> mem")
  case False
  with assms show ?thesis
    by (auto simp: lprocfs_stats_lock_def lprocfs_stats_alloc_one_def stats_ok_def)
next
  case True
  let ?new = "replicate (ls_num st) (zero_counter\<lparr>lc_min := LC_MIN_INIT\<rparr>)"
  let ?st = "st\<lparr>ls_biggest_alloc_num :=
      (if ls_biggest_alloc_num st \<le> cpuid then cpuid + 1 else ls_biggest_alloc_num st),
    ls_percpu := (ls_percpu st)[cpuid := Some ?new]\<rparr>"
  have lock: "lprocfs_stats_lock cpuid mem LPROCFS_GET_SMP_ID st = Ret (int cpuid, ?st)"
    using True assms(2) by (simp add: lprocfs_stats_lock_def lprocfs_stats_alloc_one_def)
  have "i < num_entries ?st"
    if "i < length (ls_percpu st)" "(ls_percpu st)[cpuid := Some ?new] ! i \<noteq> None" for i
    using that assms True by (cases "i = cpuid") (auto simp: num_entries_def stats_ok_def)
  moreover have "length cs = ls_num st" if "Some cs \<in> set ((ls_percpu st)[cpuid := Some ?new])" for cs
    using set_update_subset_insert that assms(1) by (fastforce simp: stats_ok_def)
  ultimately have "stats_ok ?st" using assms(1) True by (simp add: stats_ok_def)
  moreover have "idx < ls_num st \<longrightarrow> total idx (ls_percpu ?st) = total idx (ls_percpu st)"
    using assms(2) True
    by (auto intro!: total_alloc simp: lprocfs_counter.truncate_def zero_counter_def collect_start_def)
  ultimately show ?thesis using lock True assms(2) by simp
qed

lemma modify_counter_ok:
  assumes "stats_ok st" and "cpuid < length (ls_percpu st)" "ls_percpu st ! cpuid \<noteq> None" "idx < ls_num st"
  shows "\<exists>cs. ls_percpu st ! cpuid = Some cs \<and> idx < length cs \<and>
    modify_counter cpuid idx f st =
      Ret (st\<lparr>ls_percpu := (ls_percpu st)[cpuid := Some (cs[idx := f (cs ! idx)])]\<rparr>) \<and>
    stats_ok (st\<lparr>ls_percpu := (ls_percpu st)[cpuid := Some (cs[idx := f (cs ! idx)])]\<rparr>)"
proof -
  obtain cs where cs: "ls_percpu st ! cpuid = Some cs" using assms(3) by blast
  then have len: "length cs = ls_num st"
    using assms(1,2) nth_mem by (metis stats_ok_def)
  let ?ps = "(ls_percpu st)[cpuid := Some (cs[idx := f (cs ! idx)])]"
  have "length ds = ls_num st" if "Some ds \<in> set ?ps" for ds
    using set_update_subset_insert that assms(1) len by (fastforce simp: stats_ok_def)
  moreover have "(?ps ! i \<noteq> None) = (ls_percpu st ! i \<noteq> None)" if "i < length (ls_percpu st)" for i
    using that cs by (cases "i = cpuid") simp_all
  ultimately have "stats_ok (st\<lparr>ls_percpu := ?ps\<rparr>)"
    using assms(1) by (auto simp: stats_ok_def num_entries_def)
  with assms cs len show ?thesis by (simp add: modify_counter_def)
qed

lemma with_counter_ok:
  assumes "stats_ok st" "cpuid < length (ls_percpu st)" "idx < ls_num st"
  shows "\<exists>st'. with_counter f cpuid mem (int idx) (Some st) = Ret (Some st') \<and> stats_ok st' \<and>
    ls_num st' = ls_num st \<and> ls_cnt_header st' = ls_cnt_header st \<and>
    length (ls_percpu st') = length (ls_percpu st)"
proof -
  obtain rc st1 where l: "lprocfs_stats_lock cpuid mem LPROCFS_GET_SMP_ID st = Ret (rc, st1)" "stats_ok st1"
    "ls_num st1 = ls_num st" "ls_cnt_header st1 = ls_cnt_header st"
    "length (ls_percpu st1) = length (ls_percpu st)"
    "0 \<le> rc \<longrightarrow> nat rc < length (ls_percpu st1) \<and> ls_percpu st1 ! nat rc \<noteq> None"
    using stats_lock_ok [OF assms(1,2)] by metis
  show ?thesis
  proof (cases "rc < 0")
    case True
    with l assms(3) show ?thesis by (simp add: with_counter_def)
  next
    case False
    with l assms(3) modify_counter_ok [OF l(2), of "nat rc" idx "f (ls_cnt_header st ! idx) st1"]
    show ?thesis by (auto simp: with_counter_def)
  qed
qed

text \<open>With memory available, counting merges the sample into the sum over the CPUs.\<close>

lemma counter_add_total:
  assumes "stats_ok st" "cpuid < length (ls_percpu st)" "idx < ls_num st"
    and "has_flag (lc_config (ls_cnt_header st ! idx)) LPROCFS_CNTR_AVGMINMAX"
      "has_flag (lc_config (ls_cnt_header st ! idx)) LPROCFS_CNTR_STDDEV"
    and "- (2 ^ 63) \<le> a" "a < 2 ^ 63"
  shows "\<exists>st'. lprocfs_counter_add cpuid True False (int idx) a (Some st) = Ret (Some st') \<and> stats_ok st' \<and>
    ls_num st' = ls_num st \<and> ls_cnt_header st' = ls_cnt_header st \<and>
    length (ls_percpu st') = length (ls_percpu st) \<and>
    total idx (ls_percpu st') = merge (total idx (ls_percpu st)) (sample a)"
proof -
  let ?h = "ls_cnt_header st ! idx"
  obtain rc st1 where l: "lprocfs_stats_lock cpuid True LPROCFS_GET_SMP_ID st = Ret (rc, st1)" "stats_ok st1"
    "ls_num st1 = ls_num st" "ls_cnt_header st1 = ls_cnt_header st"
    "length (ls_percpu st1) = length (ls_percpu st)" "0 \<le> rc"
    "total idx (ls_percpu st1) = total idx (ls_percpu st)"
    "nat rc < length (ls_percpu st1)" "ls_percpu st1 ! nat rc \<noteq> None"
    using stats_lock_ok [OF assms(1,2), of True idx] assms(3) by auto
  obtain cs where m: "ls_percpu st1 ! nat rc = Some cs" "idx < length cs"
    "modify_counter (nat rc) idx (add_counter False a ?h st1) st1 =
      Ret (st1\<lparr>ls_percpu := (ls_percpu st1)[nat rc := Some (cs[idx := add_counter False a ?h st1 (cs ! idx)])]\<rparr>)"
    "stats_ok (st1\<lparr>ls_percpu := (ls_percpu st1)[nat rc := Some (cs[idx := add_counter False a ?h st1 (cs ! idx)])]\<rparr>)"
    using modify_counter_ok [OF l(2,8,9), of idx "add_counter False a ?h st1"] assms(3) l(3) by auto
  have "total idx ((ls_percpu st1)[nat rc := Some (cs[idx := add_counter False a ?h st1 (cs ! idx)])]) =
      merge (total idx (ls_percpu st1)) (sample a)"
    using l(8) m(1,2) add_counter_merge [OF assms(4-7)] by (intro total_update) simp_all
  with l m assms(3) show ?thesis by (simp add: lprocfs_counter_add_def with_counter_def)
qed

text \<open>A sequence of samples, each on some CPU.\<close>

fun count_all :: "nat \<Rightarrow> (nat \<times> int) list \<Rightarrow> lprocfs_stats option \<Rightarrow> lprocfs_stats option outcome" where
  "count_all idx [] stats = Ret stats"
| "count_all idx ((cpuid, a) # es) stats =
     bindO (lprocfs_counter_add cpuid True False (int idx) a stats) (count_all idx es)"

lemma count_all_total:
  assumes "stats_ok st" "idx < ls_num st" "\<forall>(cpuid, a) \<in> set es. cpuid < length (ls_percpu st) \<and>
      - (2 ^ 63) \<le> a \<and> a < 2 ^ 63"
    and "has_flag (lc_config (ls_cnt_header st ! idx)) LPROCFS_CNTR_AVGMINMAX"
      "has_flag (lc_config (ls_cnt_header st ! idx)) LPROCFS_CNTR_STDDEV"
  shows "\<exists>st'. count_all idx es (Some st) = Ret (Some st') \<and> stats_ok st' \<and>
    total idx (ls_percpu st') = fold (\<lambda>a c. merge c (sample a)) (map snd es) (total idx (ls_percpu st))"
  using assms
proof (induction es arbitrary: st)
  case (Cons e es)
  obtain cpuid a where e: "e = (cpuid, a)" by (cases e)
  obtain st1 where "lprocfs_counter_add cpuid True False (int idx) a (Some st) = Ret (Some st1)"
    "stats_ok st1" "ls_num st1 = ls_num st" "ls_cnt_header st1 = ls_cnt_header st"
    "length (ls_percpu st1) = length (ls_percpu st)"
    "total idx (ls_percpu st1) = merge (total idx (ls_percpu st)) (sample a)"
    using counter_add_total [of st cpuid idx a] Cons.prems e by auto
  with Cons.IH [of st1] Cons.prems e show ?case by auto
qed simp

lemma fold_merge_samples:
  assumes "\<forall>a \<in> set as. - (2 ^ 63) \<le> a \<and> a < 2 ^ 63"
  shows "lc_count (fold (\<lambda>a c. merge c (sample a)) as c) = lc_count c + of_nat (length as) \<and>
    lc_sum (fold (\<lambda>a c. merge c (sample a)) as c) = lc_sum c + of_int (sum_list as) \<and>
    sint (lc_min (fold (\<lambda>a c. merge c (sample a)) as c)) = Min (insert (sint (lc_min c)) (set as)) \<and>
    sint (lc_max (fold (\<lambda>a c. merge c (sample a)) as c)) = Max (insert (sint (lc_max c)) (set as))"
  using assms
proof (induction as arbitrary: c)
  case (Cons a as)
  have mn: "sint (lc_min (merge c (sample a))) = min a (sint (lc_min c))"
    and mx: "sint (lc_max (merge c (sample a))) = max a (sint (lc_max c))"
    using Cons.prems by (simp_all add: merge_def sample_def s64_id min_def max_def)
  have "Min (insert (min a m) (set as)) = Min (insert m (insert a (set as)))"
    "Max (insert (max a m) (set as)) = Max (insert m (insert a (set as)))" for m
    by (cases "set as = {}"; simp add: ac_simps)+
  with Cons mn mx show ?case by (simp add: merge_def sample_def)
qed simp

lemma total_all_start:
  assumes "\<forall>cs. Some cs \<in> set ps \<longrightarrow> lprocfs_counter.truncate (cs ! idx) = collect_start"
  shows "total idx ps = collect_start"
proof -
  have "merge collect_start collect_start = collect_start" by (simp add: merge_def collect_start_def)
  with assms show ?thesis
    by (induction ps) (auto simp: total_def split: option.splits)
qed

lemma map_entries_ok:
  assumes "stats_ok st" and "\<And>cs. length cs = ls_num st \<Longrightarrow> length (f cs) = ls_num st"
  shows "stats_ok (map_entries f st)" and "ls_percpu (map_entries f st) = map (map_option f) (ls_percpu st)"
proof -
  have "map (map_option f) (drop (num_entries st) (ls_percpu st)) = drop (num_entries st) (ls_percpu st)"
    using stats_ok_unallocated [OF assms(1)] by (intro map_idI) fastforce
  then show eq: "ls_percpu (map_entries f st) = map (map_option f) (ls_percpu st)"
    by (simp add: map_entries_def flip: map_append) (metis append_take_drop_id map_append)
  have "ls_num (map_entries f st) = ls_num st" "ls_cnt_header (map_entries f st) = ls_cnt_header st"
    "nopercpu (map_entries f st) = nopercpu st" "num_entries (map_entries f st) = num_entries st"
    by (simp_all add: map_entries_def num_entries_def)
  with eq assms show "stats_ok (map_entries f st)"
    by (auto simp: stats_ok_def map_option_case split: option.splits)
qed

lemma counter_init_ok:
  assumes "stats_ok st" "idx < ls_num st" "lprocfs_counter_init idx conf name units (Some st) = Ret st0"
  shows "stats_ok st0 \<and> ls_num st0 = ls_num st \<and> lc_config (ls_cnt_header st0 ! idx) = conf \<and>
    length (ls_percpu st0) = length (ls_percpu st) \<and> total idx (ls_percpu st0) = collect_start"
proof -
  let ?h = "st\<lparr>ls_cnt_header := (ls_cnt_header st)[idx := \<lparr>lc_config = conf, lc_name = name, lc_units = units\<rparr>]\<rparr>"
  let ?f = "\<lambda>cs. cs[idx := cleared st (cs ! idx)]"
  have len: "length (ls_cnt_header st) = ls_num st" using assms(1) by (simp add: stats_ok_def)
  then have st0: "st0 = map_entries ?f ?h" using assms(2,3) by (simp add: lprocfs_counter_init_def)
  have h: "stats_ok ?h" using assms(1) by (auto simp: stats_ok_def num_entries_def)
  note e = map_entries_ok [OF h, of ?f]
  have "lprocfs_counter.truncate (ds ! idx) = collect_start" if "Some ds \<in> set (ls_percpu st0)" for ds
  proof -
    have "Some ds \<in> map_option ?f ` set (ls_percpu st)" using that st0 e(2) by simp
    then obtain cs where "Some cs \<in> set (ls_percpu st)" "ds = ?f cs" by (auto simp: map_option_case split: option.splits)
    moreover from this have "idx < length cs" using assms(1,2) by (simp add: stats_ok_def)
    ultimately show ?thesis
      by (simp add: cleared_def lprocfs_counter.truncate_def collect_start_def Let_def)
  qed
  then have "total idx (ls_percpu st0) = collect_start" by (intro total_all_start) blast
  moreover have "stats_ok st0" using e(1) st0 by simp
  moreover have "lc_config (ls_cnt_header st0 ! idx) = conf" using assms(2) len by (simp add: st0 map_entries_def)
  ultimately show ?thesis using e(2) by (simp add: st0) (simp add: map_entries_def)
qed

lemma alloc_stats_ok:
  assumes "lprocfs_alloc_stats ncpus nops mem num noper False = Ret (Some st)"
  shows "stats_ok st \<and> length (ls_percpu st) = (if noper \<or> nops then 1 else ncpus) \<and> ls_num st = num mod 2 ^ 16"
  using assms
  by (auto simp: lprocfs_alloc_stats_def stats_ok_def num_entries_def Let_def split: if_splits)

section \<open>The bandwidth counters\<close>

text \<open>
  The second a counter is in. A fresh counter holds \<open>LC_MIN_INIT\<close>, the largest signed number,
  and its successor wraps around to the smallest: it is in a second before every other.
\<close>

definition counter_sec :: "'a lprocfs_counter_scheme \<Rightarrow> int" where
  "counter_sec c = sint (lc_min c + 1) - 1"

lemma sint_u64_range: "- (2 ^ 63) \<le> sint (a :: u64)" "sint (a :: u64) < 2 ^ 63"
  using sint_range_size [of a] by (simp_all add: word_size)

lemma counter_sec_cases:
  "(lc_min c = LC_MIN_INIT \<and> counter_sec c = - (2 ^ 63) - 1) \<or>
   (sint (lc_min c) < 2 ^ 63 - 1 \<and> counter_sec c = sint (lc_min c))"
proof (cases "sint (lc_min c) = 2 ^ 63 - 1")
  case True
  have "sint (LC_MIN_INIT :: u64) = 2 ^ 63 - 1" by simp
  with True have "lc_min c = LC_MIN_INIT" by (metis sint_eq_u64)
  then show ?thesis by (simp add: counter_sec_def)
next
  case False
  have "lc_min c + 1 = of_int (sint (lc_min c) + 1)" by simp
  then have "sint (lc_min c + 1) = s64 (sint (lc_min c) + 1)" by (metis sint_of_int_u64)
  with False sint_u64_range [of "lc_min c"] show ?thesis
    by (auto simp: counter_sec_def s64_id)
qed

lemma counter_sec_set:
  "0 \<le> sec \<Longrightarrow> sec < 2 ^ 63 - 1 \<Longrightarrow> lc_min c = of_int sec \<Longrightarrow> counter_sec c = sec"
proof -
  assume s: "0 \<le> sec" "sec < 2 ^ 63 - 1" and c: "lc_min c = of_int sec"
  have "sint (lc_min c) = sec" using s by (simp add: c s64_id)
  moreover have "sint LC_MIN_INIT = 2 ^ 63 - 1" by simp
  ultimately show ?thesis using counter_sec_cases [of c] s by auto
qed

lemma bandwidth_counter_later:
  assumes "counter_sec c < sec" "0 \<le> sec" "sec < 2 ^ 63 - 1"
  shows "lc_min (bandwidth_counter sec a c) = of_int sec \<and> lc_sum (bandwidth_counter sec a c) = of_int a"
proof -
  have "sec \<noteq> sint (lc_min c)" using counter_sec_cases [of c] assms by auto
  moreover have "sec = sint (lc_min c + 1) \<or> sint (lc_min c + 1) < sec"
    using assms(1) by (auto simp: counter_sec_def)
  ultimately show ?thesis by (auto simp: bandwidth_counter_def Let_def)
qed

lemma bandwidth_counter_same:
  assumes "sec = counter_sec c" "0 \<le> sec"
  shows "lc_min (bandwidth_counter sec a c) = lc_min c \<and> lc_sum (bandwidth_counter sec a c) = lc_sum c + of_int a"
  using assms counter_sec_cases [of c] by (auto simp: bandwidth_counter_def Let_def)

lemma bandwidth_counter_earlier:
  assumes "sec < counter_sec c"
  shows "lc_min (bandwidth_counter sec a c) = lc_min c \<and> lc_sum (bandwidth_counter sec a c) = lc_sum c"
proof -
  have "sec \<noteq> sint (lc_min c)"
    using assms counter_sec_cases [of c] sint_u64_range [of "lc_min c"] by auto
  moreover have "\<not> sint (lc_min c + 1) < sec" "sec \<noteq> sint (lc_min c + 1)"
    using assms by (simp_all add: counter_sec_def)
  ultimately show ?thesis by (simp add: bandwidth_counter_def Let_def)
qed

interpretation srv_bw: second_meter counter_sec lc_sum
  "\<lambda>sec (b :: u64) (c :: lprocfs_counter). bandwidth_counter sec (sint b) c" "\<lambda>sec _. 0 \<le> sec \<and> sec < 2 ^ 63 - 1"
proof
  fix sec :: int and b :: u64 and s :: lprocfs_counter
  assume sec: "0 \<le> sec \<and> sec < 2 ^ 63 - 1"
  let ?c = "bandwidth_counter sec (sint b) s"
  show "counter_sec ?c = sec \<and> lc_sum ?c = lc_sum s + b" if "sec = counter_sec s"
    using bandwidth_counter_same [OF that] that sec by (simp add: counter_sec_def)
  show "counter_sec ?c = sec \<and> lc_sum ?c = b" if "counter_sec s < sec"
    using bandwidth_counter_later [OF that] sec counter_sec_set [of sec ?c] by simp
  show "counter_sec ?c = counter_sec s \<and> lc_sum ?c = lc_sum s" if "sec < counter_sec s"
    using bandwidth_counter_earlier [OF that] by (simp add: counter_sec_def)
qed

section \<open>Properties\<close>

definition slot_size :: "lprocfs_stats \<Rightarrow> nat" where
  "slot_size st = sizeof_counter + (if irq_safe st then sizeof_s64 else 0)"

text \<open>
  counters of one CPU never overlap and stay inside the allocation, for both layouts (with
  and without the extra interrupt sum), whatever the cache line size.
\<close>

theorem counter_layout_disjoint:
  assumes "i < j" and "j < ls_num st" and "0 < line"
  shows "lprocfs_stats_counter_get st i + slot_size st \<le> lprocfs_stats_counter_get st j \<and>
    lprocfs_stats_counter_get st j + slot_size st \<le> lprocfs_stats_counter_size line st"
proof -
  have get: "lprocfs_stats_counter_get st k = k * slot_size st" for k
    by (simp add: lprocfs_stats_counter_get_def slot_size_def)
  have align: "x \<le> L1_CACHE_ALIGN line x" for x
  proof -
    have "x + line - 1 < (x + line - 1) div line * line + line"
      using assms(3) by (metis add.commute div_mult_mod_eq mod_less_divisor nat_add_left_cancel_less)
    then show ?thesis by (simp add: L1_CACHE_ALIGN_def)
  qed
  have "ls_num st * slot_size st \<le> lprocfs_stats_counter_size line st"
    using align [of "ls_num st * 40"] align [of "ls_num st * 40 + ls_num st * 8"]
    by (simp add: lprocfs_stats_counter_size_def slot_size_def Let_def)
  moreover have "Suc j * slot_size st \<le> ls_num st * slot_size st" "Suc i * slot_size st \<le> j * slot_size st"
    using assms(1,2) by (intro mult_le_mono1; simp)+
  ultimately show ?thesis by (simp add: get)
qed

definition sample_stats :: lprocfs_stats where
  "sample_stats = \<lparr>ls_num = 2, ls_biggest_alloc_num = 0, nopercpu = False, irq_safe = False,
     ls_cnt_header = replicate 2 \<lparr>lc_config = 0, lc_name = [], lc_units = []\<rparr>, ls_percpu = replicate 2 None\<rparr>"

theorem counter_layout_disjoint_witness:
  "lprocfs_stats_counter_get sample_stats 0 + 40 \<le> lprocfs_stats_counter_get sample_stats 1 \<and>
   lprocfs_stats_counter_get sample_stats 1 + 40 \<le> lprocfs_stats_counter_size 64 sample_stats"
  using counter_layout_disjoint [of 0 1 sample_stats 64] by (simp add: sample_stats_def slot_size_def)

lemma sample_stats_ok: "stats_ok sample_stats"
  by (simp add: stats_ok_def sample_stats_def less_Suc_eq)

text \<open>
  the update functions are safe. On a well-formed object, with a valid CPU and index,
  \<open>lprocfs_counter_add\<close>, \<open>lprocfs_counter_sub\<close> and \<open>lprocfs_calc_bandwidth\<close> return without an
  assertion failure or a null dereference, whether or not memory for a new CPU is available,
  and leave a well-formed object; with an index out of range they assert.
\<close>

theorem counter_updates_safe:
  assumes "stats_ok st" and "cpuid < length (ls_percpu st)" and "idx < ls_num st"
    and "op \<in> {lprocfs_counter_add cpuid mem intr (int idx) a, lprocfs_counter_sub cpuid mem intr (int idx) a,
           lprocfs_calc_bandwidth cpuid mem now (int idx) a}"
  shows "(\<exists>st'. op (Some st) = Ret (Some st') \<and> stats_ok st' \<and> ls_num st' = ls_num st \<and>
      length (ls_percpu st') = length (ls_percpu st)) \<and>
    lprocfs_counter_add cpuid mem intr (int (ls_num st)) a (Some st) = Fault LBUG"
proof -
  have "\<exists>st'. with_counter f cpuid mem (int idx) (Some st) = Ret (Some st') \<and> stats_ok st' \<and>
      ls_num st' = ls_num st \<and> length (ls_percpu st') = length (ls_percpu st)" for f
    using with_counter_ok [OF assms(1-3)] by metis
  moreover have "lprocfs_counter_add cpuid mem intr (int (ls_num st)) a (Some st) = Fault LBUG"
    by (simp add: lprocfs_counter_add_def with_counter_def)
  ultimately show ?thesis using assms(4)
    by (auto simp: lprocfs_counter_add_def lprocfs_counter_sub_def lprocfs_calc_bandwidth_def)
qed

theorem counter_updates_safe_witness:
  "\<exists>st'. lprocfs_counter_add 1 True False 0 5 (Some sample_stats) = Ret (Some st') \<and> stats_ok st'"
  using counter_updates_safe [of sample_stats 1 0 "lprocfs_counter_add 1 True False (int 0) 5" True False 5]
    sample_stats_ok by (auto simp: sample_stats_def)



text \<open>
  the server's bandwidth counter holds exactly the bytes of the current second: after any
  trace of transfers whose clock does not run backwards, from a freshly initialised counter,
  \<open>lc_sum\<close> is the number of bytes transferred in the second of the last transfer. (The first
  transfer counts because \<open>LC_MIN_INIT + 1\<close> wraps around.)
\<close>

theorem server_bandwidth_current_second:
  assumes "lc_min c = LC_MIN_INIT" and "es \<noteq> []" and "sorted (map fst es)"
    and "\<forall>(sec, b) \<in> set es. 0 \<le> sec \<and> sec < 2 ^ 63 - 1"
  shows "lc_sum (fold (\<lambda>(sec, b) (c :: lprocfs_counter). bandwidth_counter sec (sint (b :: u64)) c) es c) =
    bytes_in (fst (last es)) es"
proof -
  let ?c = "srv_bw.run es c"
  have c0: "counter_sec c = - (2 ^ 63) - 1" using assms(1) by (simp add: counter_sec_def)
  have r: "0 \<le> fst e \<and> fst e < 2 ^ 63 - 1" if "e \<in> set es" for e using assms(4) that by fastforce
  then have "counter_sec c \<le> fst e" if "e \<in> set es" for e using c0 that by fastforce
  with r have t: "srv_bw.trace c es"
    using assms(3) unfolding srv_bw.trace_def clocked_def by simp
  have "counter_sec ?c = fst (last es)"
    using srv_bw.run_last_sec [OF t] assms(2) by (simp add: last_map)
  moreover have "counter_sec ?c \<noteq> counter_sec c"
    using calculation c0 r [OF last_in_set [OF assms(2)]] by simp
  ultimately show ?thesis using srv_bw.run_acc [OF t] by simp
qed

theorem server_bandwidth_current_second_witness:
  "lc_sum (fold (\<lambda>(sec, b) (c :: lprocfs_counter). bandwidth_counter sec (sint (b :: u64)) c)
     [(10, 100), (11, 200), (11, 50)] collect_start) = 250"
  using server_bandwidth_current_second [of collect_start "[(10, 100), (11, 200), (11, 50)]"]
  by (simp add: collect_start_def bytes_in_def)

text \<open>
  the peak bandwidth of the server can be missed. A second with a single transfer that is
  followed by at least one idle second never reaches \<open>lc_max\<close>: after 500 bytes in one second
  and 1 byte ten seconds later the recorded maximum is still 0.
\<close>

theorem server_bandwidth_peak_missed:
  "lc_max (bandwidth_counter 20 1 (bandwidth_counter 10 500 collect_start)) = 0"
  by (simp add: bandwidth_counter_def collect_start_def Let_def)

text \<open>
  a histogram keeps count. Tallying any value, plainly or by its logarithm, adds exactly
  one to the sum of the buckets, and never writes outside them.
\<close>

theorem histogram_tally_counts:
  assumes "length oh = OBD_HIST_MAX"
  shows "lprocfs_oh_sum (lprocfs_oh_tally v oh) = lprocfs_oh_sum oh + 1 \<and>
    lprocfs_oh_sum (lprocfs_oh_tally_log2 v oh) = lprocfs_oh_sum oh + 1 \<and>
    length (lprocfs_oh_tally_log2 v oh) = OBD_HIST_MAX"
proof -
  have "sum_list (xs[i := xs ! i + 1]) = sum_list xs + (1 :: u64)" if "i < length xs" for i xs
    using that by (induction xs arbitrary: i) (auto simp: nth_Cons' less_Suc_eq_0_disj add.assoc)
  then have "lprocfs_oh_sum (lprocfs_oh_tally v oh) = lprocfs_oh_sum oh + 1" for v
    using assms by (simp add: lprocfs_oh_sum_def lprocfs_oh_tally_def Let_def)
  then show ?thesis using assms
    by (simp add: lprocfs_oh_tally_log2_def) (simp add: lprocfs_oh_tally_def Let_def)
qed

theorem histogram_tally_counts_witness:
  "lprocfs_oh_sum (lprocfs_oh_tally_log2 4000000000 (lprocfs_oh_clear [])) = 1"
proof -
  have "lprocfs_oh_sum (lprocfs_oh_clear []) = 0" "length (lprocfs_oh_clear []) = OBD_HIST_MAX"
    by (simp_all add: lprocfs_oh_clear_def lprocfs_oh_sum_def sum_list_replicate)
  then show ?thesis using histogram_tally_counts [of "lprocfs_oh_clear []" 4000000000] by simp
qed

end
