(* ===== verification/Nrs_Heap.thy ===== *)
theory Nrs_Heap
  imports LT_Prelude "HOL-Library.Multiset"
begin

text \<open>
  What the request schedulers use of their environment. The binary heap \<open>cfs_binheap\<close> is part
  of libcfs, not of this repository: its operations are a parameter \<open>B\<close> of the schedulers, and
  the hypothesis \<open>binheap_ok B elems ordered\<close> states what the libcfs documentation promises of
  them. The locale \<open>nrs_policy\<close> is the contract between the NRS core and a policy: which
  requests a policy holds after each call.
\<close>

section \<open>Requests\<close>

text \<open>What the policies read of a \<open>ptlrpc_request\<close>: when and by whom it was sent.\<close>

record ptlrpc_request =
  rq_sent :: int
  rq_peer_nid :: u64
  rq_peer_pid :: u32

section \<open>Binary heaps\<close>

text \<open>
  A heap operation may call the comparison \<open>hop_compare\<close>, which may fault. The integer of an
  insertion is 0 or a negative error number.
\<close>

record ('e, 'h) binheap_ops =
  cfs_binheap_create :: 'h
  cfs_binheap_insert :: "('e \<Rightarrow> 'e \<Rightarrow> bool outcome) \<Rightarrow> 'e \<Rightarrow> 'h \<Rightarrow> (int \<times> 'h) outcome"
  cfs_binheap_remove :: "('e \<Rightarrow> 'e \<Rightarrow> bool outcome) \<Rightarrow> 'e \<Rightarrow> 'h \<Rightarrow> 'h outcome"
  cfs_binheap_relocate :: "('e \<Rightarrow> 'e \<Rightarrow> bool outcome) \<Rightarrow> 'e \<Rightarrow> 'h \<Rightarrow> 'h outcome"
  cfs_binheap_root :: "'h \<Rightarrow> 'e option"
  cfs_binheap_is_empty :: "'h \<Rightarrow> bool"

definition cmp_total :: "'e set \<Rightarrow> ('e \<Rightarrow> 'e \<Rightarrow> bool outcome) \<Rightarrow> bool" where
  "cmp_total S cmp \<longleftrightarrow> (\<forall>a \<in> S. \<forall>b \<in> S. \<exists>t. cmp a b = Ret t)"

text \<open>\<open>cmp\<close> decides the preorder \<open>le\<close> on a set: true only if the first argument may stand above
  the second, false only if the second may stand above the first.\<close>

definition cmp_decides :: "'e set \<Rightarrow> ('e \<Rightarrow> 'e \<Rightarrow> bool outcome) \<Rightarrow> ('e \<Rightarrow> 'e \<Rightarrow> bool) \<Rightarrow> bool" where
  "cmp_decides S cmp le \<longleftrightarrow>
     (\<forall>a \<in> S. \<forall>b \<in> S. \<exists>t. cmp a b = Ret t \<and> (if t then le a b else le b a)) \<and>
     (\<forall>a \<in> S. \<forall>b \<in> S. \<forall>c \<in> S. le a b \<longrightarrow> le b c \<longrightarrow> le a c)"

lemma cmp_decides_total: "cmp_decides S cmp le \<Longrightarrow> cmp_total S cmp"
  unfolding cmp_decides_def cmp_total_def by blast

lemma cmp_decides_trans:
  "cmp_decides S cmp le \<Longrightarrow> a \<in> S \<Longrightarrow> b \<in> S \<Longrightarrow> c \<in> S \<Longrightarrow> le a b \<Longrightarrow> le b c \<Longrightarrow> le a c"
  unfolding cmp_decides_def by blast

lemma cmp_total_subset: "cmp_total S cmp \<Longrightarrow> T \<subseteq> S \<Longrightarrow> cmp_total T cmp"
  unfolding cmp_total_def by blast

lemma cmp_decides_subset: "cmp_decides S cmp le \<Longrightarrow> T \<subseteq> S \<Longrightarrow> cmp_decides T cmp le"
  unfolding cmp_decides_def by blast

definition heap_reads_ok ::
  "('e, 'h, 'z) binheap_ops_scheme \<Rightarrow> ('h \<Rightarrow> 'e set) \<Rightarrow> (('e \<Rightarrow> 'e \<Rightarrow> bool) \<Rightarrow> 'h \<Rightarrow> bool) \<Rightarrow> bool" where
  "heap_reads_ok B elems ordered \<longleftrightarrow>
     elems (cfs_binheap_create B) = {} \<and>
     (\<forall>le. ordered le (cfs_binheap_create B)) \<and>
     (\<forall>h. cfs_binheap_is_empty B h \<longleftrightarrow> elems h = {}) \<and>
     (\<forall>h. cfs_binheap_root B h = None \<longleftrightarrow> elems h = {}) \<and>
     (\<forall>h e. cfs_binheap_root B h = Some e \<longrightarrow> e \<in> elems h) \<and>
     (\<forall>le h e x. ordered le h \<longrightarrow> cfs_binheap_root B h = Some e \<longrightarrow> x \<in> elems h \<longrightarrow> x \<noteq> e \<longrightarrow> le e x)"

text \<open>The order of a heap concerns only its elements.\<close>

definition heap_order_local :: "('h \<Rightarrow> 'e set) \<Rightarrow> (('e \<Rightarrow> 'e \<Rightarrow> bool) \<Rightarrow> 'h \<Rightarrow> bool) \<Rightarrow> bool" where
  "heap_order_local elems ordered \<longleftrightarrow>
     (\<forall>le le' h. ordered le h \<longrightarrow> (\<forall>x \<in> elems h. \<forall>y \<in> elems h. le' x y = le x y) \<longrightarrow> ordered le' h)"

definition heap_insert_ok ::
  "('e, 'h, 'z) binheap_ops_scheme \<Rightarrow> ('h \<Rightarrow> 'e set) \<Rightarrow> (('e \<Rightarrow> 'e \<Rightarrow> bool) \<Rightarrow> 'h \<Rightarrow> bool) \<Rightarrow> bool" where
  "heap_insert_ok B elems ordered \<longleftrightarrow>
     (\<forall>cmp e h. cmp_total (insert e (elems h)) cmp \<longrightarrow> e \<notin> elems h \<longrightarrow>
        (\<exists>rc h'. cfs_binheap_insert B cmp e h = Ret (rc, h') \<and> rc \<le> 0 \<and>
           elems h' = (if rc = 0 then insert e (elems h) else elems h) \<and>
           (\<forall>le. cmp_decides (insert e (elems h)) cmp le \<longrightarrow> ordered le h \<longrightarrow> ordered le h')))"

text \<open>
  Removal and relocation of an element: the order that held of the others before (with the
  element's old position) holds of all afterwards, under the comparison in force then.
\<close>

definition heap_reorders :: "('e \<Rightarrow> 'e \<Rightarrow> bool outcome) \<Rightarrow> (('e \<Rightarrow> 'e \<Rightarrow> bool) \<Rightarrow> 'h \<Rightarrow> bool) \<Rightarrow>
  'e set \<Rightarrow> 'e \<Rightarrow> 'h \<Rightarrow> 'h \<Rightarrow> bool" where
  "heap_reorders cmp ordered S e h h' \<longleftrightarrow>
     (\<forall>le le'. cmp_decides S cmp le' \<longrightarrow> ordered le h \<longrightarrow>
        (\<forall>x \<in> S - {e}. \<forall>y \<in> S - {e}. le' x y = le x y) \<longrightarrow> ordered le' h')"

definition heap_remove_ok ::
  "('e, 'h, 'z) binheap_ops_scheme \<Rightarrow> ('h \<Rightarrow> 'e set) \<Rightarrow> (('e \<Rightarrow> 'e \<Rightarrow> bool) \<Rightarrow> 'h \<Rightarrow> bool) \<Rightarrow> bool" where
  "heap_remove_ok B elems ordered \<longleftrightarrow>
     (\<forall>cmp e h. cmp_total (elems h) cmp \<longrightarrow> e \<in> elems h \<longrightarrow>
        (\<exists>h'. cfs_binheap_remove B cmp e h = Ret h' \<and> elems h' = elems h - {e} \<and>
           heap_reorders cmp ordered (elems h) e h h'))"

definition heap_relocate_ok ::
  "('e, 'h, 'z) binheap_ops_scheme \<Rightarrow> ('h \<Rightarrow> 'e set) \<Rightarrow> (('e \<Rightarrow> 'e \<Rightarrow> bool) \<Rightarrow> 'h \<Rightarrow> bool) \<Rightarrow> bool" where
  "heap_relocate_ok B elems ordered \<longleftrightarrow>
     (\<forall>cmp e h. cmp_total (elems h) cmp \<longrightarrow> e \<in> elems h \<longrightarrow>
        (\<exists>h'. cfs_binheap_relocate B cmp e h = Ret h' \<and> elems h' = elems h \<and>
           heap_reorders cmp ordered (elems h) e h h'))"

definition binheap_ok ::
  "('e, 'h, 'z) binheap_ops_scheme \<Rightarrow> ('h \<Rightarrow> 'e set) \<Rightarrow> (('e \<Rightarrow> 'e \<Rightarrow> bool) \<Rightarrow> 'h \<Rightarrow> bool) \<Rightarrow> bool" where
  "binheap_ok B elems ordered \<longleftrightarrow>
     heap_reads_ok B elems ordered \<and> heap_order_local elems ordered \<and> heap_insert_ok B elems ordered \<and>
     heap_remove_ok B elems ordered \<and> heap_relocate_ok B elems ordered"

lemma binheap_readsD:
  assumes "binheap_ok B elems ordered"
  shows binheap_create_elems: "elems (cfs_binheap_create B) = {}"
    and binheap_create_ordered: "ordered le (cfs_binheap_create B)"
    and binheap_is_empty: "cfs_binheap_is_empty B h \<longleftrightarrow> elems h = {}"
    and binheap_root_None: "cfs_binheap_root B h = None \<longleftrightarrow> elems h = {}"
    and binheap_root_elem: "cfs_binheap_root B h = Some e \<Longrightarrow> e \<in> elems h"
  using assms unfolding binheap_ok_def heap_reads_ok_def by simp_all

lemma binheap_root_least:
  assumes "binheap_ok B elems ordered" "ordered le h" "cfs_binheap_root B h = Some e" "x \<in> elems h" "x \<noteq> e"
  shows "le e x"
proof -
  have "heap_reads_ok B elems ordered" using assms(1) by (simp add: binheap_ok_def)
  then show ?thesis unfolding heap_reads_ok_def using assms(2-5) by blast
qed

lemma binheap_ordered_cong:
  assumes "binheap_ok B elems ordered" "ordered le h"
    and "\<And>x y. x \<in> elems h \<Longrightarrow> y \<in> elems h \<Longrightarrow> le' x y = le x y"
  shows "ordered le' h"
proof -
  have "heap_order_local elems ordered" using assms(1) by (simp add: binheap_ok_def)
  then show ?thesis unfolding heap_order_local_def using assms(2,3) by blast
qed

lemma binheap_insertE:
  assumes "binheap_ok B elems ordered" and "cmp_total (insert e (elems h)) cmp" and "e \<notin> elems h"
  obtains rc h' where "cfs_binheap_insert B cmp e h = Ret (rc, h')" "rc \<le> 0"
     "elems h' = (if rc = 0 then insert e (elems h) else elems h)"
     "\<And>le. cmp_decides (insert e (elems h)) cmp le \<Longrightarrow> ordered le h \<Longrightarrow> ordered le h'"
proof -
  have "heap_insert_ok B elems ordered" using assms(1) by (simp add: binheap_ok_def)
  then show ?thesis using that assms(2,3) unfolding heap_insert_ok_def by metis
qed

lemma binheap_removeE:
  assumes "binheap_ok B elems ordered" and "cmp_total (elems h) cmp" and "e \<in> elems h"
  obtains h' where "cfs_binheap_remove B cmp e h = Ret h'" "elems h' = elems h - {e}"
     "heap_reorders cmp ordered (elems h) e h h'"
proof -
  have "heap_remove_ok B elems ordered" using assms(1) by (simp add: binheap_ok_def)
  then show ?thesis using that assms(2,3) unfolding heap_remove_ok_def by metis
qed

lemma binheap_relocateE:
  assumes "binheap_ok B elems ordered" and "cmp_total (elems h) cmp" and "e \<in> elems h"
  obtains h' where "cfs_binheap_relocate B cmp e h = Ret h'" "elems h' = elems h"
     "heap_reorders cmp ordered (elems h) e h h'"
proof -
  have "heap_relocate_ok B elems ordered" using assms(1) by (simp add: binheap_ok_def)
  then show ?thesis using that assms(2,3) unfolding heap_relocate_ok_def by metis
qed

lemma heap_reordersD:
  "heap_reorders cmp ordered S e h h' \<Longrightarrow> cmp_decides S cmp le' \<Longrightarrow> ordered le h \<Longrightarrow>
   (\<And>x y. x \<in> S - {e} \<Longrightarrow> y \<in> S - {e} \<Longrightarrow> le' x y = le x y) \<Longrightarrow> ordered le' h'"
  unfolding heap_reorders_def by blast

section \<open>A heap that keeps the contract\<close>

text \<open>
  A sorted list with the interface of the heap: it shows that the contract can be met, and it
  is the heap the examples run on.
\<close>

fun list_insert :: "('e \<Rightarrow> 'e \<Rightarrow> bool outcome) \<Rightarrow> 'e \<Rightarrow> 'e list \<Rightarrow> 'e list outcome" where
  "list_insert cmp e [] = Ret [e]"
| "list_insert cmp e (x # xs) =
     bindO (cmp e x) (\<lambda>t. if t then Ret (e # x # xs)
       else bindO (list_insert cmp e xs) (\<lambda>ys. Ret (x # ys)))"

definition list_heap :: "('e, 'e list) binheap_ops" where
  "list_heap = \<lparr>
     cfs_binheap_create = [],
     cfs_binheap_insert = (\<lambda>cmp e h. bindO (list_insert cmp e h) (\<lambda>h'. Ret (0, h'))),
     cfs_binheap_remove = (\<lambda>cmp e h. Ret (filter (\<lambda>x. x \<noteq> e) h)),
     cfs_binheap_relocate = (\<lambda>cmp e h. list_insert cmp e (filter (\<lambda>x. x \<noteq> e) h)),
     cfs_binheap_root = (\<lambda>h. case h of [] \<Rightarrow> None | e # _ \<Rightarrow> Some e),
     cfs_binheap_is_empty = (\<lambda>h. h = [])\<rparr>"

lemma list_heap_simps [simp]:
  "cfs_binheap_create list_heap = []"
  "cfs_binheap_insert list_heap = (\<lambda>cmp e h. bindO (list_insert cmp e h) (\<lambda>h'. Ret (0, h')))"
  "cfs_binheap_remove list_heap = (\<lambda>cmp e h. Ret (filter (\<lambda>x. x \<noteq> e) h))"
  "cfs_binheap_relocate list_heap = (\<lambda>cmp e h. list_insert cmp e (filter (\<lambda>x. x \<noteq> e) h))"
  "cfs_binheap_root list_heap = (\<lambda>h. case h of [] \<Rightarrow> None | e # _ \<Rightarrow> Some e)"
  "cfs_binheap_is_empty list_heap = (\<lambda>h. h = [])"
  by (simp_all add: list_heap_def)

definition list_ordered :: "('e \<Rightarrow> 'e \<Rightarrow> bool) \<Rightarrow> 'e list \<Rightarrow> bool" where
  "list_ordered le h \<longleftrightarrow> sorted_wrt (\<lambda>x y. x = y \<or> le x y) h"

lemma list_insert_total: "cmp_total (insert e (set h)) cmp \<Longrightarrow> \<exists>h'. list_insert cmp e h = Ret h' \<and> set h' = insert e (set h)"
proof (induction h)
  case (Cons x xs)
  obtain t where t: "cmp e x = Ret t" using Cons.prems unfolding cmp_total_def by auto
  have "cmp_total (insert e (set xs)) cmp" using Cons.prems by (rule cmp_total_subset) auto
  with Cons.IH t show ?case by (cases t) auto
qed simp

lemma list_insert_sorted:
  assumes "cmp_decides (insert e (set h)) cmp le" and "sorted_wrt (\<lambda>x y. x = y \<or> le x y) h" and "list_insert cmp e h = Ret h'"
  shows "sorted_wrt (\<lambda>x y. x = y \<or> le x y) h'"
  using assms
proof (induction h arbitrary: h')
  case (Cons x xs)
  obtain t where t: "cmp e x = Ret t" "if t then le e x else le x e"
    using Cons.prems(1) unfolding cmp_decides_def by (metis insertCI list.set_intros(1))
  have sub: "cmp_decides (insert e (set xs)) cmp le"
    using Cons.prems(1) by (rule cmp_decides_subset) auto
  show ?case
  proof (cases t)
    case True
    have tr: "le e y" if "le x y" "y \<in> set xs" for y
      using cmp_decides_trans [OF Cons.prems(1), of e x y] True t(2) that by simp
    from True t have "h' = e # x # xs" "le e x" using Cons.prems(3) by simp_all
    with Cons.prems(2) show ?thesis by (auto dest: tr)
  next
    case False
    then obtain ys where ys: "list_insert cmp e xs = Ret ys" "h' = x # ys"
      using t Cons.prems(3) by auto
    then have "set ys = insert e (set xs)"
      using list_insert_total [OF cmp_decides_total [OF sub]] by simp
    with Cons.IH [OF sub] Cons.prems(2) ys t False show ?thesis by auto
  qed
qed auto

lemma sorted_wrt_cong_set:
  "sorted_wrt P xs \<Longrightarrow> (\<And>x y. x \<in> set xs \<Longrightarrow> y \<in> set xs \<Longrightarrow> P x y \<Longrightarrow> Q x y) \<Longrightarrow> sorted_wrt Q xs"
  by (rule sorted_wrt_mono_rel [of xs P Q])

lemma list_ordered_filter:
  assumes "list_ordered le h" and "\<forall>x \<in> set h - {e}. \<forall>y \<in> set h - {e}. le' x y = le x y"
  shows "sorted_wrt (\<lambda>x y. x = y \<or> le' x y) (filter (\<lambda>x. x \<noteq> e) h)"
  using assms by (auto simp: list_ordered_def intro: sorted_wrt_cong_set [OF sorted_wrt_filter])

lemma list_heap_ok: "binheap_ok (list_heap :: ('e, 'e list) binheap_ops) set list_ordered"
  unfolding binheap_ok_def
proof (intro conjI)
  show "heap_reads_ok (list_heap :: ('e, 'e list) binheap_ops) set list_ordered"
    by (auto simp: heap_reads_ok_def list_ordered_def split: list.splits)
  show "heap_order_local (set :: 'e list \<Rightarrow> 'e set) list_ordered"
    by (auto simp: heap_order_local_def list_ordered_def intro: sorted_wrt_cong_set)
  show "heap_insert_ok (list_heap :: ('e, 'e list) binheap_ops) set list_ordered"
    unfolding heap_insert_ok_def
  proof (intro allI impI)
    fix cmp :: "'e \<Rightarrow> 'e \<Rightarrow> bool outcome" and e :: 'e and h assume c: "cmp_total (insert e (set h)) cmp"
    obtain h' where h': "list_insert cmp e h = Ret h'" "set h' = insert e (set h)"
      using list_insert_total [OF c] by blast
    have "list_ordered le h'" if "cmp_decides (insert e (set h)) cmp le" "list_ordered le h" for le
      using list_insert_sorted [OF that(1) _ h'(1)] that(2) unfolding list_ordered_def by blast
    with h' show "\<exists>rc h'. cfs_binheap_insert list_heap cmp e h = Ret (rc, h') \<and> rc \<le> 0 \<and>
        set h' = (if rc = 0 then insert e (set h) else set h) \<and>
        (\<forall>le. cmp_decides (insert e (set h)) cmp le \<longrightarrow> list_ordered le h \<longrightarrow> list_ordered le h')"
      by simp
  qed
  show "heap_remove_ok (list_heap :: ('e, 'e list) binheap_ops) set list_ordered"
    using list_ordered_filter by (auto simp: heap_remove_ok_def heap_reorders_def list_ordered_def)
  show "heap_relocate_ok (list_heap :: ('e, 'e list) binheap_ops) set list_ordered"
    unfolding heap_relocate_ok_def
  proof (intro allI impI)
    fix cmp :: "'e \<Rightarrow> 'e \<Rightarrow> bool outcome" and e :: 'e and h assume c0: "cmp_total (set h) cmp" and e: "e \<in> set h"
    have c: "cmp_total (insert e (set (filter (\<lambda>x. x \<noteq> e) h))) cmp"
      using c0 by (rule cmp_total_subset) (use e in auto)
    obtain h' where h': "list_insert cmp e (filter (\<lambda>x. x \<noteq> e) h) = Ret h'"
        "set h' = insert e (set (filter (\<lambda>x. x \<noteq> e) h))"
      using list_insert_total [OF c] by blast
    have "heap_reorders cmp list_ordered (set h) e h h'"
      unfolding heap_reorders_def
    proof (intro allI impI)
      fix le le' assume d: "cmp_decides (set h) cmp le'" and o: "list_ordered le h"
        "\<forall>x \<in> set h - {e}. \<forall>y \<in> set h - {e}. le' x y = le x y"
      have "cmp_decides (insert e (set (filter (\<lambda>x. x \<noteq> e) h))) cmp le'"
        using d by (rule cmp_decides_subset) (use e in auto)
      from list_insert_sorted [OF this list_ordered_filter [OF o] h'(1)]
      show "list_ordered le' h'" unfolding list_ordered_def .
    qed
    with h' e show "\<exists>h'. cfs_binheap_relocate list_heap cmp e h = Ret h' \<and> set h' = set h \<and>
       heap_reorders cmp list_ordered (set h) e h h'"
      by auto
  qed
qed

text \<open>The contract only concerns the heap operations of a larger interface.\<close>

lemma binheap_ok_truncate: "binheap_ok (binheap_ops.truncate B) elems ordered = binheap_ok B elems ordered"
  by (simp add: binheap_ok_def heap_reads_ok_def heap_insert_ok_def heap_remove_ok_def heap_relocate_ok_def
      binheap_ops.truncate_def)

section \<open>Policies\<close>

text \<open>
  A history of a policy: the requests accepted, handed out and withdrawn so far, along any
  sequence of calls, where \<open>accepts\<close> tells which requests the NRS core may enqueue.
\<close>

inductive nrs_history ::
  "('r \<Rightarrow> 's \<Rightarrow> bool) \<Rightarrow> ('s \<Rightarrow> 'r multiset) \<Rightarrow> ('r \<Rightarrow> 's \<Rightarrow> (int \<times> 's) outcome) \<Rightarrow>
   ('s \<Rightarrow> ('r option \<times> 's) outcome) \<Rightarrow> ('r \<Rightarrow> 's \<Rightarrow> 's outcome) \<Rightarrow>
   's \<Rightarrow> 'r multiset \<Rightarrow> 'r multiset \<Rightarrow> 'r multiset \<Rightarrow> 's \<Rightarrow> bool"
  for accepts pending req_enqueue req_get req_dequeue s0 where
  history_start: "nrs_history accepts pending req_enqueue req_get req_dequeue s0 {#} {#} {#} s0"
| history_enqueue: "nrs_history accepts pending req_enqueue req_get req_dequeue s0 A G D s \<Longrightarrow>
    accepts r s \<Longrightarrow> req_enqueue r s = Ret (rc, s') \<Longrightarrow>
    nrs_history accepts pending req_enqueue req_get req_dequeue s0 (if rc = 0 then add_mset r A else A) G D s'"
| history_get: "nrs_history accepts pending req_enqueue req_get req_dequeue s0 A G D s \<Longrightarrow>
    req_get s = Ret (x, s') \<Longrightarrow>
    nrs_history accepts pending req_enqueue req_get req_dequeue s0 A
      (case x of None \<Rightarrow> G | Some r \<Rightarrow> add_mset r G) D s'"
| history_dequeue: "nrs_history accepts pending req_enqueue req_get req_dequeue s0 A G D s \<Longrightarrow>
    r \<in># pending s \<Longrightarrow> req_dequeue r s = Ret s' \<Longrightarrow>
    nrs_history accepts pending req_enqueue req_get req_dequeue s0 A G (add_mset r D) s'"

text \<open>
  The contract between the NRS core and a policy. \<open>pending\<close> is the collection of requests the
  policy holds. An accepted request is held; \<open>get\<close> either hands out one held request, which is
  then no longer held, or nothing; a dequeued request is no longer held. Every call keeps the
  policy's invariant and returns.
\<close>

locale nrs_policy =
  fixes inv :: "'s \<Rightarrow> bool"
    and pending :: "'s \<Rightarrow> 'r multiset"
    and accepts :: "'r \<Rightarrow> 's \<Rightarrow> bool"
    and req_enqueue :: "'r \<Rightarrow> 's \<Rightarrow> (int \<times> 's) outcome"
    and req_get :: "'s \<Rightarrow> ('r option \<times> 's) outcome"
    and req_dequeue :: "'r \<Rightarrow> 's \<Rightarrow> 's outcome"
  assumes enqueue_ok: "inv s \<Longrightarrow> accepts r s \<Longrightarrow> \<exists>rc s'. req_enqueue r s = Ret (rc, s') \<and> inv s' \<and>
      pending s' = (if rc = 0 then add_mset r (pending s) else pending s)"
    and get_ok: "inv s \<Longrightarrow> \<exists>x s'. req_get s = Ret (x, s') \<and> inv s' \<and>
      (case x of None \<Rightarrow> pending s' = pending s | Some r \<Rightarrow> pending s = add_mset r (pending s'))"
    and dequeue_ok: "inv s \<Longrightarrow> r \<in># pending s \<Longrightarrow> \<exists>s'. req_dequeue r s = Ret s' \<and> inv s' \<and>
      pending s = add_mset r (pending s')"
begin

text \<open>No request is lost, invented or served twice.\<close>

lemma history_conserved:
  assumes "nrs_history accepts pending req_enqueue req_get req_dequeue s0 A G D s" and "inv s0"
  shows "inv s \<and> pending s0 + A = pending s + G + D"
  using assms
proof induction
  case (history_enqueue A G D s r rc s')
  then show ?case using enqueue_ok [of s r] by auto
next
  case (history_get A G D s x s')
  then show ?case using get_ok [of s] by (auto split: option.splits)
next
  case (history_dequeue A G D s r s')
  then show ?case using dequeue_ok [of s r] by auto
qed simp

text \<open>A call the contract allows is never stuck, and never faults.\<close>

lemma history_progress:
  assumes "nrs_history accepts pending req_enqueue req_get req_dequeue s0 A G D s" and "inv s0"
  shows "(accepts r s \<longrightarrow> (\<exists>y. req_enqueue r s = Ret y)) \<and> (\<exists>y. req_get s = Ret y) \<and>
    (r \<in># pending s \<longrightarrow> (\<exists>y. req_dequeue r s = Ret y))"
  using history_conserved [OF assms] enqueue_ok [of s r] get_ok [of s] dequeue_ok [of s r] by blast

end

end
