(* ===== verification/Nrs_Sscdt.thy ===== *)
theory Nrs_Sscdt
  imports Nrs_Heap
begin

text \<open>
  The SSCDT scheduling policy (\<open>code/nrs_sscdt.c\<close>, \<open>code/lustre_nrs_sscdt.h\<close>): queued
  requests are handed out in the order of the time window they were sent in, and within a
  window in the order of the client's NID and process. The requests are kept in a libcfs
  binary heap, the parameter \<open>B\<close>; \<open>rq\<close> gives the request a heap node is embedded in.
\<close>

section \<open>Model\<close>

record 'h nrs_sscdt_head =
  st_binheap :: 'h
  st_sequence :: u64

text \<open>The policy: its private data, the module's window width and the numbers given to requests.\<close>

record 'h sscdt =
  pol_private :: "'h nrs_sscdt_head option"
  interval :: u32
  nr_sequence :: "nat \<Rightarrow> u64"

text \<open>
  The window of a request is computed at the type of \<open>rq_sent\<close>, a \<open>long\<close>, and stored as
  \<open>__u64\<close>; a window of width 0 traps.
\<close>

definition time_window :: "u32 \<Rightarrow> ptlrpc_request \<Rightarrow> u64 outcome" where
  "time_window ivl req = bindO (quot64 (s64 (rq_sent req * 1000)) (uint ivl)) (\<lambda>w. Ret (of_int w))"

definition sscdt_req_compare :: "u32 \<Rightarrow> ptlrpc_request \<Rightarrow> ptlrpc_request \<Rightarrow> bool outcome" where
  "sscdt_req_compare ivl req1 req2 =
     bindO (time_window ivl req1) (\<lambda>time_window1.
     bindO (time_window ivl req2) (\<lambda>time_window2.
       if time_window1 \<noteq> time_window2 then Ret (rq_sent req1 < rq_sent req2)
       else if rq_peer_nid req1 = rq_peer_nid req2 then Ret (rq_peer_pid req1 < rq_peer_pid req2)
       else Ret (rq_peer_nid req1 < rq_peer_nid req2)))"

abbreviation sscdt_hop :: "(nat \<Rightarrow> ptlrpc_request) \<Rightarrow> u32 \<Rightarrow> nat \<Rightarrow> nat \<Rightarrow> bool outcome" where
  "sscdt_hop rq ivl e1 e2 \<equiv> sscdt_req_compare ivl (rq e1) (rq e2)"

definition nrs_sscdt_start ::
  "(nat, 'h, 'z) binheap_ops_scheme \<Rightarrow> bool \<Rightarrow> bool \<Rightarrow> 'h sscdt \<Rightarrow> int \<times> 'h sscdt" where
  "nrs_sscdt_start B mem_head mem_heap policy =
     (if \<not> mem_head then (- ENOMEM, policy)
      else if \<not> mem_heap then (- ENOMEM, policy)
      else (0, policy\<lparr>pol_private := Some \<lparr>st_binheap = cfs_binheap_create B, st_sequence = 1\<rparr>\<rparr>))"

text \<open>\<open>nrs_sscdt_stop\<close> frees the private data (and leaves \<open>pol_private\<close> pointing to it).\<close>

definition nrs_sscdt_stop :: "(nat, 'h, 'z) binheap_ops_scheme \<Rightarrow> 'h sscdt \<Rightarrow> 'h sscdt outcome" where
  "nrs_sscdt_stop B policy =
     (case pol_private policy of
        None \<Rightarrow> Fault LBUG
      | Some head \<Rightarrow> lassert (cfs_binheap_is_empty B (st_binheap head)) (Ret (policy\<lparr>pol_private := None\<rparr>)))"

datatype nrs_ctl_sscdt = NRS_CTL_SSCDT_RD_INTERVAL | NRS_CTL_SSCDT_WR_INTERVAL | Other_ctl

definition nrs_sscdt_ctl :: "nrs_ctl_sscdt \<Rightarrow> u64 \<Rightarrow> 'h sscdt \<Rightarrow> int \<times> u64 \<times> 'h sscdt" where
  "nrs_sscdt_ctl opc arg policy =
     (case opc of
        NRS_CTL_SSCDT_RD_INTERVAL \<Rightarrow> (0, ucast (interval policy), policy)
      | NRS_CTL_SSCDT_WR_INTERVAL \<Rightarrow> (0, arg, policy\<lparr>interval := ucast arg\<rparr>)
      | Other_ctl \<Rightarrow> (- EINVAL, arg, policy))"

text \<open>The resource of every request is the one of the policy itself.\<close>

definition nrs_sscdt_res_get :: "'h sscdt \<Rightarrow> (int \<times> 'h nrs_sscdt_head) outcome" where
  "nrs_sscdt_res_get policy =
     (case pol_private policy of None \<Rightarrow> Fault NULL_DEREF | Some head \<Rightarrow> Ret (1, head))"

definition set_heap :: "'h nrs_sscdt_head \<Rightarrow> 'h \<Rightarrow> 'h sscdt \<Rightarrow> 'h sscdt" where
  "set_heap head h policy = policy\<lparr>pol_private := Some (head\<lparr>st_binheap := h\<rparr>)\<rparr>"

definition nrs_sscdt_req_get ::
  "(nat, 'h, 'z) binheap_ops_scheme \<Rightarrow> (nat \<Rightarrow> ptlrpc_request) \<Rightarrow> bool \<Rightarrow> 'h sscdt \<Rightarrow>
   (nat option \<times> 'h sscdt) outcome" where
  "nrs_sscdt_req_get B rq peek policy =
     (case pol_private policy of
        None \<Rightarrow> Fault NULL_DEREF
      | Some head \<Rightarrow>
          let nrq = cfs_binheap_root B (st_binheap head) in
          (case nrq of
             None \<Rightarrow> Ret (None, policy)
           | Some node \<Rightarrow>
               if peek then Ret (Some node, policy)
               else bindO (cfs_binheap_remove B (sscdt_hop rq (interval policy)) node (st_binheap head))
                 (\<lambda>h. Ret (Some node, set_heap head h policy))))"

definition nrs_sscdt_req_add ::
  "(nat, 'h, 'z) binheap_ops_scheme \<Rightarrow> (nat \<Rightarrow> ptlrpc_request) \<Rightarrow> nat \<Rightarrow> 'h sscdt \<Rightarrow>
   (int \<times> 'h sscdt) outcome" where
  "nrs_sscdt_req_add B rq nrq policy =
     (case pol_private policy of
        None \<Rightarrow> Fault NULL_DEREF
      | Some head \<Rightarrow>
          bindO (cfs_binheap_insert B (sscdt_hop rq (interval policy)) nrq (st_binheap head)) (\<lambda>(rc, h).
            Ret (rc, (set_heap (head\<lparr>st_sequence := st_sequence head + 1\<rparr>) h policy)
                 \<lparr>nr_sequence := (nr_sequence policy)(nrq := st_sequence head)\<rparr>)))"

definition nrs_sscdt_req_del ::
  "(nat, 'h, 'z) binheap_ops_scheme \<Rightarrow> (nat \<Rightarrow> ptlrpc_request) \<Rightarrow> nat \<Rightarrow> 'h sscdt \<Rightarrow> 'h sscdt outcome" where
  "nrs_sscdt_req_del B rq nrq policy =
     (case pol_private policy of
        None \<Rightarrow> Fault NULL_DEREF
      | Some head \<Rightarrow>
          bindO (cfs_binheap_remove B (sscdt_hop rq (interval policy)) nrq (st_binheap head))
            (\<lambda>h. Ret (set_heap head h policy)))"

section \<open>The order of service\<close>

definition sane_sent :: "(nat \<Rightarrow> ptlrpc_request) \<Rightarrow> bool" where
  "sane_sent rq \<longleftrightarrow> (\<forall>i. \<bar>rq_sent (rq i)\<bar> \<le> 2 ^ 53)"

text \<open>The priority of a request: its window, then the client's NID, then the process.\<close>

definition sscdt_key :: "u32 \<Rightarrow> ptlrpc_request \<Rightarrow> int \<times> int \<times> int" where
  "sscdt_key ivl req = ((rq_sent req * 1000) sdiv uint ivl, uint (rq_peer_nid req), uint (rq_peer_pid req))"

fun lex_le :: "int \<times> int \<times> int \<Rightarrow> int \<times> int \<times> int \<Rightarrow> bool" where
  "lex_le (a, b, c) (a', b', c') \<longleftrightarrow> a < a' \<or> a = a' \<and> (b < b' \<or> b = b' \<and> c \<le> c')"

lemma lex_le_refl: "lex_le k k"
  by (cases k) simp

lemma lex_le_trans: "lex_le k l \<Longrightarrow> lex_le l m \<Longrightarrow> lex_le k m"
  by (cases k; cases l; cases m) auto

definition sscdt_le :: "(nat \<Rightarrow> ptlrpc_request) \<Rightarrow> u32 \<Rightarrow> nat \<Rightarrow> nat \<Rightarrow> bool" where
  "sscdt_le rq ivl a b \<longleftrightarrow> lex_le (sscdt_key ivl (rq a)) (sscdt_key ivl (rq b))"

lemma time_window_sane:
  assumes "\<bar>rq_sent req\<bar> \<le> 2 ^ 53" and "ivl \<noteq> 0"
  shows "time_window ivl req = Ret (of_int ((rq_sent req * 1000) sdiv uint ivl))"
proof -
  have u: "0 < uint ivl" using assms(2) by (metis uint_ge_0 uint_0_iff order_le_less)
  have "s64 (rq_sent req * 1000) = rq_sent req * 1000" using assms(1) by (intro s64_id) (auto simp: abs_le_iff)
  with u show ?thesis by (auto simp: time_window_def quot64_def)
qed

lemma window_inj:
  assumes "\<bar>x\<bar> \<le> 2 ^ 53 * 1000" "\<bar>y\<bar> \<le> 2 ^ 53 * 1000"
  shows "(of_int (x sdiv k) :: u64) = of_int (y sdiv k) \<longleftrightarrow> x sdiv k = y sdiv k"
proof -
  have "s64 (z sdiv k) = z sdiv k" if "\<bar>z\<bar> \<le> 2 ^ 53 * 1000" for z
    using abs_sdiv_le [of z k] that by (intro s64_id; simp)
  with assms show ?thesis by (metis sint_of_int_u64)
qed

lemma sscdt_cmp_decides:
  assumes "sane_sent rq" and "ivl \<noteq> 0"
  shows "cmp_decides S (sscdt_hop rq ivl) (sscdt_le rq ivl)"
  unfolding cmp_decides_def
proof (intro conjI ballI impI)
  fix a b c assume "sscdt_le rq ivl a b" "sscdt_le rq ivl b c"
  then show "sscdt_le rq ivl a c" unfolding sscdt_le_def by (rule lex_le_trans)
next
  fix a b
  let ?w = "\<lambda>i. (rq_sent (rq i) * 1000) sdiv uint ivl"
  have k: "0 < uint ivl" using assms(2) by (metis uint_ge_0 uint_0_iff order_le_less)
  have sent: "\<bar>rq_sent (rq i)\<bar> \<le> 2 ^ 53" for i using assms(1) by (simp add: sane_sent_def)
  have tw: "time_window ivl (rq i) = Ret (of_int (?w i))" for i
    using time_window_sane [OF sent assms(2)] .
  have inj: "(of_int (?w a) :: u64) = of_int (?w b) \<longleftrightarrow> ?w a = ?w b"
    using sent [of a] sent [of b] by (intro window_inj) (simp_all add: abs_mult)
  have mono: "rq_sent (rq i) \<le> rq_sent (rq j) \<Longrightarrow> ?w i \<le> ?w j" for i j
    using k by (intro sdiv_mono) simp_all
  have "\<exists>t. sscdt_hop rq ivl a b = Ret t \<and> (if t then sscdt_le rq ivl a b else sscdt_le rq ivl b a)"
  proof (cases "?w a = ?w b")
    case True
    then show ?thesis
      by (auto simp: sscdt_req_compare_def tw sscdt_le_def sscdt_key_def word_less_def not_less word_uint_eq_iff)
  next
    case False
    with mono [of a b] mono [of b a] show ?thesis
      by (auto simp: sscdt_req_compare_def tw inj sscdt_le_def sscdt_key_def)
  qed
  then show "\<exists>t. sscdt_hop rq ivl a b = Ret t \<and> (if t then sscdt_le rq ivl a b else sscdt_le rq ivl b a)" .
qed

section \<open>The policy keeps its contract\<close>

definition sscdt_inv ::
  "(nat, 'h, 'z) binheap_ops_scheme \<Rightarrow> ('h \<Rightarrow> nat set) \<Rightarrow> ((nat \<Rightarrow> nat \<Rightarrow> bool) \<Rightarrow> 'h \<Rightarrow> bool) \<Rightarrow>
   (nat \<Rightarrow> ptlrpc_request) \<Rightarrow> 'h sscdt \<Rightarrow> bool" where
  "sscdt_inv B elems ordered rq policy \<longleftrightarrow>
     binheap_ok B elems ordered \<and> sane_sent rq \<and> interval policy \<noteq> 0 \<and>
     (\<exists>head. pol_private policy = Some head \<and> finite (elems (st_binheap head)) \<and>
        ordered (sscdt_le rq (interval policy)) (st_binheap head))"

definition sscdt_pending :: "('h \<Rightarrow> nat set) \<Rightarrow> 'h sscdt \<Rightarrow> nat multiset" where
  "sscdt_pending elems policy =
     (case pol_private policy of None \<Rightarrow> {#} | Some head \<Rightarrow> mset_set (elems (st_binheap head)))"

definition sscdt_accepts :: "('h \<Rightarrow> nat set) \<Rightarrow> nat \<Rightarrow> 'h sscdt \<Rightarrow> bool" where
  "sscdt_accepts elems nrq policy \<longleftrightarrow> nrq \<notin># sscdt_pending elems policy"

lemma sscdt_invE:
  assumes "sscdt_inv B elems ordered rq policy"
  obtains head where "pol_private policy = Some head" "finite (elems (st_binheap head))"
    "ordered (sscdt_le rq (interval policy)) (st_binheap head)" "binheap_ok B elems ordered"
    "interval policy \<noteq> 0" "sane_sent rq"
  using assms that unfolding sscdt_inv_def by metis

lemma sscdt_inv_cmp:
  assumes "sscdt_inv B elems ordered rq policy"
  shows "cmp_decides S (sscdt_hop rq (interval policy)) (sscdt_le rq (interval policy))"
    and "cmp_total S (sscdt_hop rq (interval policy))"
  using assms sscdt_cmp_decides cmp_decides_total [OF sscdt_cmp_decides] by (auto simp: sscdt_inv_def)

lemma sscdt_inv_set_heap:
  assumes "sscdt_inv B elems ordered rq policy" and "finite (elems h)"
    and "ordered (sscdt_le rq (interval policy)) h"
  shows "sscdt_inv B elems ordered rq (set_heap head h policy)"
    and "sscdt_pending elems (set_heap head h policy) = mset_set (elems h)"
  using assms by (simp_all add: sscdt_inv_def set_heap_def sscdt_pending_def)

lemma sscdt_inv_sequence:
  "sscdt_inv B elems ordered rq (policy\<lparr>nr_sequence := f\<rparr>) = sscdt_inv B elems ordered rq policy"
  "sscdt_pending elems (policy\<lparr>nr_sequence := f\<rparr>) = sscdt_pending elems policy"
  by (simp_all add: sscdt_inv_def sscdt_pending_def)

text \<open>Removing a queued request, as both \<open>req_get\<close> and \<open>req_del\<close> do.\<close>

lemma sscdt_remove:
  assumes "sscdt_inv B elems ordered rq policy" and "pol_private policy = Some head"
    and "e \<in> elems (st_binheap head)"
  shows "\<exists>h. cfs_binheap_remove B (sscdt_hop rq (interval policy)) e (st_binheap head) = Ret h \<and>
    sscdt_inv B elems ordered rq (set_heap head h policy) \<and>
    sscdt_pending elems policy = add_mset e (sscdt_pending elems (set_heap head h policy))"
proof -
  from assms(1) obtain head' where i: "pol_private policy = Some head'" "finite (elems (st_binheap head'))"
    "ordered (sscdt_le rq (interval policy)) (st_binheap head')" "binheap_ok B elems ordered"
    by (elim sscdt_invE)
  with assms(2) have "head' = head" by simp
  obtain h where h: "cfs_binheap_remove B (sscdt_hop rq (interval policy)) e (st_binheap head) = Ret h"
    "elems h = elems (st_binheap head) - {e}"
    "heap_reorders (sscdt_hop rq (interval policy)) ordered (elems (st_binheap head)) e (st_binheap head) h"
    using binheap_removeE [OF i(4) sscdt_inv_cmp(2) [OF assms(1)] assms(3)] by blast
  have "ordered (sscdt_le rq (interval policy)) h"
    using heap_reordersD [OF h(3) sscdt_inv_cmp(1) [OF assms(1)]] i(3) \<open>head' = head\<close> by blast
  with h i sscdt_inv_set_heap [OF assms(1), of h head] assms(2,3) show ?thesis
    by (simp add: sscdt_pending_def mset_set.remove)
qed

interpretation sscdt: nrs_policy "sscdt_inv B elems ordered rq" "sscdt_pending elems" "sscdt_accepts elems"
  "nrs_sscdt_req_add B rq" "nrs_sscdt_req_get B rq False" "nrs_sscdt_req_del B rq"
  for B :: "(nat, 'h, 'z) binheap_ops_scheme" and elems ordered rq
proof
  fix policy :: "'h sscdt" and nrq :: nat
  assume inv: "sscdt_inv B elems ordered rq policy"
  then obtain head where i: "pol_private policy = Some head" "finite (elems (st_binheap head))"
    "ordered (sscdt_le rq (interval policy)) (st_binheap head)" "binheap_ok B elems ordered"
    by (elim sscdt_invE)
  { assume "sscdt_accepts elems nrq policy"
    then have "nrq \<notin> elems (st_binheap head)" using i by (simp add: sscdt_accepts_def sscdt_pending_def)
    then obtain rc h where h: "cfs_binheap_insert B (sscdt_hop rq (interval policy)) nrq (st_binheap head) = Ret (rc, h)"
      "elems h = (if rc = 0 then insert nrq (elems (st_binheap head)) else elems (st_binheap head))"
      "ordered (sscdt_le rq (interval policy)) h"
      using binheap_insertE [OF i(4) sscdt_inv_cmp(2) [OF inv]] i(3) sscdt_inv_cmp(1) [OF inv] by metis
    let ?head = "head\<lparr>st_sequence := st_sequence head + 1\<rparr>"
    from sscdt_inv_set_heap [OF inv, of h ?head] h i \<open>nrq \<notin> elems (st_binheap head)\<close>
    show "\<exists>rc s'. nrs_sscdt_req_add B rq nrq policy = Ret (rc, s') \<and> sscdt_inv B elems ordered rq s' \<and>
        sscdt_pending elems s' = (if rc = 0 then add_mset nrq (sscdt_pending elems policy)
                                  else sscdt_pending elems policy)"
      by (cases "rc = 0") (auto simp: nrs_sscdt_req_add_def sscdt_inv_sequence sscdt_pending_def) }
  { show "\<exists>x s'. nrs_sscdt_req_get B rq False policy = Ret (x, s') \<and> sscdt_inv B elems ordered rq s' \<and>
        (case x of None \<Rightarrow> sscdt_pending elems s' = sscdt_pending elems policy
         | Some r \<Rightarrow> sscdt_pending elems policy = add_mset r (sscdt_pending elems s'))"
    proof (cases "cfs_binheap_root B (st_binheap head)")
      case None
      with inv i show ?thesis by (simp add: nrs_sscdt_req_get_def)
    next
      case (Some e)
      then have "e \<in> elems (st_binheap head)" by (rule binheap_root_elem [OF i(4)])
      with Some sscdt_remove [OF inv i(1)] i(1) show ?thesis
        by (fastforce simp: nrs_sscdt_req_get_def)
    qed }
  { assume "nrq \<in># sscdt_pending elems policy"
    then have "nrq \<in> elems (st_binheap head)" using i by (simp add: sscdt_pending_def)
    with sscdt_remove [OF inv i(1)] i(1)
    show "\<exists>s'. nrs_sscdt_req_del B rq nrq policy = Ret s' \<and> sscdt_inv B elems ordered rq s' \<and>
        sscdt_pending elems policy = add_mset nrq (sscdt_pending elems s')"
      by (fastforce simp: nrs_sscdt_req_del_def) }
qed

section \<open>Properties\<close>

text \<open>
  C22: the SSCDT policy neither loses nor invents nor repeats a request. Along every history of
  calls the NRS core may make, starting from a sound state, no call faults (no assertion, no
  division trap), and the requests held at the start and accepted since are exactly those still
  held, handed out or withdrawn.
\<close>

theorem sscdt_conserves_requests:
  assumes "sscdt_inv B elems ordered rq s0"
    and "nrs_history (sscdt_accepts elems) (sscdt_pending elems) (nrs_sscdt_req_add B rq)
      (nrs_sscdt_req_get B rq False) (nrs_sscdt_req_del B rq) s0 A G D s"
  shows "sscdt_pending elems s0 + A = sscdt_pending elems s + G + D \<and>
    (sscdt_accepts elems r s \<longrightarrow> (\<exists>y. nrs_sscdt_req_add B rq r s = Ret y)) \<and>
    (\<exists>y. nrs_sscdt_req_get B rq False s = Ret y) \<and>
    (r \<in># sscdt_pending elems s \<longrightarrow> (\<exists>y. nrs_sscdt_req_del B rq r s = Ret y))"
  using sscdt.history_conserved [OF assms(2,1)] sscdt.history_progress [OF assms(2,1), of r] by blast

text \<open>A started policy is sound, and empty.\<close>

lemma sscdt_start_inv:
  assumes "binheap_ok B elems ordered" and "sane_sent rq" and "interval policy \<noteq> 0"
  shows "sscdt_inv B elems ordered rq (snd (nrs_sscdt_start B True True policy)) \<and>
    sscdt_pending elems (snd (nrs_sscdt_start B True True policy)) = {#}"
  using assms binheap_create_elems [OF assms(1)] binheap_create_ordered [OF assms(1)]
  by (simp add: nrs_sscdt_start_def sscdt_inv_def sscdt_pending_def)

definition sample_requests :: "nat \<Rightarrow> ptlrpc_request" where
  "sample_requests i = (if i = 0 then \<lparr>rq_sent = 5, rq_peer_nid = 9, rq_peer_pid = 1\<rparr>
     else if i = 1 then \<lparr>rq_sent = 5, rq_peer_nid = 2, rq_peer_pid = 7\<rparr>
     else \<lparr>rq_sent = 4, rq_peer_nid = 9, rq_peer_pid = 0\<rparr>)"

definition sample_sscdt :: "nat list sscdt" where
  "sample_sscdt = snd (nrs_sscdt_start list_heap True True
     \<lparr>pol_private = None, interval = 1000, nr_sequence = (\<lambda>_. 0)\<rparr>)"

lemma sample_sscdt_inv: "sscdt_inv list_heap set list_ordered sample_requests sample_sscdt"
  using sscdt_start_inv [OF list_heap_ok, of sample_requests
      "\<lparr>pol_private = None, interval = 1000, nr_sequence = (\<lambda>_. 0)\<rparr>"]
  by (simp add: sample_sscdt_def sane_sent_def sample_requests_def)

theorem sscdt_conserves_requests_witness:
  "\<exists>y. nrs_sscdt_req_get list_heap sample_requests False sample_sscdt = Ret y"
  using sscdt_conserves_requests [OF sample_sscdt_inv history_start] by blast

text \<open>Handing out requests until there are none left.\<close>

fun drain ::
  "(nat, 'h, 'z) binheap_ops_scheme \<Rightarrow> (nat \<Rightarrow> ptlrpc_request) \<Rightarrow> nat \<Rightarrow> 'h sscdt \<Rightarrow> nat list outcome" where
  "drain B rq 0 policy = Ret []"
| "drain B rq (Suc n) policy =
     bindO (nrs_sscdt_req_get B rq False policy) (\<lambda>(nrq, policy').
       case nrq of None \<Rightarrow> Ret []
       | Some e \<Rightarrow> bindO (drain B rq n policy') (\<lambda>es. Ret (e # es)))"

lemma sscdt_get_least:
  assumes "sscdt_inv B elems ordered rq policy"
    and "nrs_sscdt_req_get B rq False policy = Ret (Some e, policy')"
  shows "interval policy' = interval policy \<and> (\<forall>x \<in># sscdt_pending elems policy. sscdt_le rq (interval policy) e x)"
proof -
  from assms(1) obtain head where i: "pol_private policy = Some head" "finite (elems (st_binheap head))"
    "ordered (sscdt_le rq (interval policy)) (st_binheap head)" "binheap_ok B elems ordered"
    by (elim sscdt_invE)
  with assms(2) have root: "cfs_binheap_root B (st_binheap head) = Some e"
    and "interval policy' = interval policy"
    by (auto simp: nrs_sscdt_req_get_def set_heap_def split: option.splits)
  moreover have "sscdt_le rq (interval policy) e x" if "x \<in> elems (st_binheap head)" for x
    using binheap_root_least [OF i(4,3) root that] lex_le_refl by (cases "x = e") (auto simp: sscdt_le_def)
  ultimately show ?thesis using i by (simp add: sscdt_pending_def)
qed

text \<open>
  C14: the SSCDT policy serves in priority order. Draining a sound policy hands out every held
  request exactly once, sorted by time window, within a window by the client's NID and then by
  process, whatever heap implementation keeps the libcfs contract.
\<close>

theorem sscdt_serves_in_order:
  assumes "sscdt_inv B elems ordered rq policy" and "size (sscdt_pending elems policy) = n"
  shows "\<exists>es. drain B rq n policy = Ret es \<and> mset es = sscdt_pending elems policy \<and>
    sorted_wrt (\<lambda>a b. lex_le (sscdt_key (interval policy) (rq a)) (sscdt_key (interval policy) (rq b))) es"
  using assms
proof (induction n arbitrary: policy)
  case (Suc n)
  obtain x policy' where g: "nrs_sscdt_req_get B rq False policy = Ret (x, policy')"
    "sscdt_inv B elems ordered rq policy'"
    "case x of None \<Rightarrow> sscdt_pending elems policy' = sscdt_pending elems policy
     | Some r \<Rightarrow> sscdt_pending elems policy = add_mset r (sscdt_pending elems policy')"
    using sscdt.get_ok [OF Suc.prems(1)] by blast
  have "x \<noteq> None"
  proof
    assume "x = None"
    with g(1) obtain head where "pol_private policy = Some head" "cfs_binheap_root B (st_binheap head) = None"
      by (auto simp: nrs_sscdt_req_get_def split: option.splits if_splits)
    moreover have "binheap_ok B elems ordered" using Suc.prems(1) by (simp add: sscdt_inv_def)
    ultimately have "sscdt_pending elems policy = {#}" by (simp add: sscdt_pending_def binheap_root_None)
    with Suc.prems(2) show False by simp
  qed
  then obtain e where e: "x = Some e" by blast
  note least = sscdt_get_least [OF Suc.prems(1) g(1) [unfolded e]]
  obtain es where "drain B rq n policy' = Ret es" "mset es = sscdt_pending elems policy'"
    "sorted_wrt (\<lambda>a b. lex_le (sscdt_key (interval policy) (rq a)) (sscdt_key (interval policy) (rq b))) es"
    using Suc.IH [OF g(2)] g(3) Suc.prems(2) e least by auto
  moreover from this have "set es = set_mset (sscdt_pending elems policy')" by (metis set_mset_mset)
  moreover have p: "sscdt_pending elems policy = add_mset e (sscdt_pending elems policy')" using g(3) e by simp
  ultimately show ?case using g(1) e least by (simp add: sscdt_le_def)
qed simp

theorem sscdt_serves_in_order_witness:
  "drain list_heap sample_requests 3
     (sample_sscdt\<lparr>pol_private := Some \<lparr>st_binheap = [2, 1, 0], st_sequence = 4\<rparr>\<rparr>) = Ret [2, 1, 0]"
proof -
  let ?s = "sample_sscdt\<lparr>pol_private := Some \<lparr>st_binheap = [2, 1, 0], st_sequence = 4\<rparr>\<rparr>"
  have inv: "sscdt_inv list_heap set list_ordered sample_requests ?s"
    using list_heap_ok sample_sscdt_inv
    by (simp add: sscdt_inv_def list_ordered_def sscdt_le_def sscdt_key_def sample_requests_def sample_sscdt_def
        nrs_sscdt_start_def signed_divide_int_def)
  have "\<exists>es. drain list_heap sample_requests 3 ?s = Ret es"
    using sscdt_serves_in_order [OF inv, of 3] by (auto simp: sscdt_pending_def)
  then show ?thesis
    by (simp add: numeral_3_eq_3 nrs_sscdt_req_get_def set_heap_def)
qed

text \<open>
  the control call writes the window width through a 32-bit truncation, so a width of
  \<open>2 ^ 32\<close> (or 0) is accepted and read back as 0, after which every comparison of two requests
  traps on a division by zero.
\<close>

theorem sscdt_interval_truncated:
  "nrs_sscdt_ctl NRS_CTL_SSCDT_RD_INTERVAL x (snd (snd (nrs_sscdt_ctl NRS_CTL_SSCDT_WR_INTERVAL arg policy)))
     = (0, of_nat (unat arg mod 2 ^ 32), policy\<lparr>interval := of_nat (unat arg mod 2 ^ 32)\<rparr>) \<and>
   sscdt_req_compare (interval (snd (snd (nrs_sscdt_ctl NRS_CTL_SSCDT_WR_INTERVAL (2 ^ 32) policy)))) r1 r2
     = Fault DIV_TRAP"
proof -
  have "(ucast arg :: u32) = of_nat (unat arg)" by simp
  also have "\<dots> = of_nat (unat arg mod 2 ^ 32)" by (simp only: word_of_nat_eq_iff take_bit_eq_mod) simp
  finally have "(ucast arg :: u32) = of_nat (unat arg mod 2 ^ 32)" .
  moreover have "(ucast (of_nat (unat arg mod 2 ^ 32) :: u32) :: u64) = of_nat (unat arg mod 2 ^ 32)"
    by (simp add: unsigned_of_nat take_bit_eq_mod)
  ultimately show ?thesis
    by (simp add: nrs_sscdt_ctl_def sscdt_req_compare_def time_window_def quot64_def)
qed

text \<open>
  changing the window width while requests are queued breaks the order of service. The heap
  is not rebuilt, so the request handed out next need not be first under the new width.
\<close>

theorem sscdt_interval_change_inversion:
  "\<exists>policy :: nat list sscdt. \<exists>e x.
     sscdt_inv list_heap set list_ordered sample_requests policy \<and> x \<in># sscdt_pending set policy \<and>
     (let policy' = snd (snd (nrs_sscdt_ctl NRS_CTL_SSCDT_WR_INTERVAL 10000 policy)) in
        \<not> sscdt_le sample_requests (interval policy') e x \<and>
        map_option fst (case nrs_sscdt_req_get list_heap sample_requests False policy' of
           Ret y \<Rightarrow> Some y | Fault _ \<Rightarrow> None) = Some (Some e))"
proof (intro exI conjI)
  let ?s = "sample_sscdt\<lparr>pol_private := Some \<lparr>st_binheap = [2, 1], st_sequence = 4\<rparr>\<rparr>"
  show "sscdt_inv list_heap set list_ordered sample_requests ?s"
    using list_heap_ok sample_sscdt_inv
    by (simp add: sscdt_inv_def list_ordered_def sscdt_le_def sscdt_key_def sample_requests_def sample_sscdt_def
        nrs_sscdt_start_def signed_divide_int_def)
  show "1 \<in># sscdt_pending set ?s" by (simp add: sscdt_pending_def)
  show "let policy' = snd (snd (nrs_sscdt_ctl NRS_CTL_SSCDT_WR_INTERVAL 10000 ?s)) in
        \<not> sscdt_le sample_requests (interval policy') 2 1 \<and>
        map_option fst (case nrs_sscdt_req_get list_heap sample_requests False policy' of
           Ret y \<Rightarrow> Some y | Fault _ \<Rightarrow> None) = Some (Some 2)"
    by (simp add: nrs_sscdt_ctl_def nrs_sscdt_req_get_def sscdt_le_def sscdt_key_def sample_requests_def
        signed_divide_int_def)
qed

end
