(* ===== verification/Tbf_Rules.thy ===== *)
theory Tbf_Rules
  imports Nrs_Heap C_String
begin

text \<open>
  The rules and clients of the token bucket filter policy (\<open>nrs_tbf.c\<close>, \<open>lustre_nrs_tbf.h\<close>).
  A rule gives the clients it matches a rate; a client is linked to one rule, holds a reference
  on it, and is freed with it only when the last reference goes. Objects live in a store: rules
  and clients are named by numbers standing for their addresses, \<open>None\<close> is memory that is not
  allocated, and using it is a fault.

  libcfs (the heap, the hash table, the tokenizer, the NID lists) is the parameter \<open>L\<close>; a parsed
  NID list is the set of NIDs it matches.
\<close>

section \<open>Data\<close>

datatype tbf_type = NRS_TBF_TYPE_JOBID | NRS_TBF_TYPE_NID

text \<open>The values the function pointer \<open>hop_compare\<close> takes.\<close>

datatype hop = Tbf_cli_compare | Sscdt_req_compare_nid | Sscdt_req_compare_jobid

datatype cli_key = Nid_key u64 | Job_key string

abbreviation MAX_TBF_NAME :: nat where "MAX_TBF_NAME \<equiv> 16"
abbreviation LUSTRE_JOBID_SIZE :: nat where "LUSTRE_JOBID_SIZE \<equiv> 32"
abbreviation NSEC_PER_SEC :: u64 where "NSEC_PER_SEC \<equiv> 1000000000"
abbreviation NRS_TBF_DEFAULT_RULE :: string where "NRS_TBF_DEFAULT_RULE \<equiv> ''default''"

record nrs_tbf_rule =
  tr_name :: string
  tr_nids :: "(u64 \<Rightarrow> bool) option"
  tr_nids_str :: "string option"
  tr_jobids :: "string list"
  tr_jobids_str :: "string option"
  tr_rpc_rate :: u64
  tr_nsecs :: u64
  tr_depth :: u64
  tr_cli_list :: "nat list"
  tr_stopping :: bool
  tr_default :: bool
  tr_ref :: int
  tr_generation :: u64

record nrs_tbf_client =
  tc_nid :: u64
  tc_jobid :: string
  tc_ref :: int
  tc_linkage :: "nat option"
  tc_rule :: "nat option"
  tc_rule_generation :: u64
  tc_rpc_rate :: u64
  tc_nsecs :: u64
  tc_ntoken :: u64
  tc_depth :: u64
  tc_check_time :: u64
  tc_list :: "nat list"
  tc_in_heap :: bool
  tc_rule_sequence :: u32

text \<open>
  The private data of a policy instance together with the module's variables it uses. The
  queues hold request numbers; \<open>th_lru\<close> has the LRU list of each hash bucket.
\<close>

record ('h, 't) nrs_tbf_head =
  th_type :: tbf_type
  th_list :: "nat list"
  th_rules :: "nat \<Rightarrow> nrs_tbf_rule option"
  th_clients :: "nat \<Rightarrow> nrs_tbf_client option"
  th_rule_sequence :: u32
  th_rule :: "nat option"
  th_timer :: "u64 option"
  th_deadline :: u64
  th_sequence :: u64
  th_binheap :: 'h
  th_cli_hash :: 't
  th_hash_bits :: nat
  th_lru :: "nat \<Rightarrow> nat list"
  nrs_throttling :: bool
  tr_sequence :: "nat \<Rightarrow> u64"
  hop_compare :: hop
  sscdt_req_compare_ptr :: "hop option"
  tbf_tw_interval :: int
  tbf_jobid_cache_size :: int
  tbf_rate :: int
  tbf_depth :: int

datatype nrs_tbf_cmd_type = NRS_CTL_TBF_START_RULE | NRS_CTL_TBF_STOP_RULE | NRS_CTL_TBF_CHANGE_RATE
  | NRS_CTL_TBF_START_SSCDT | NRS_CTL_TBF_CHANGE_TW_INTERVAL | NRS_CTL_TBF_STOP_SSCDT

record nrs_tbf_cmd =
  tc_cmd :: nrs_tbf_cmd_type
  tc_name :: string
  tc_cmd_rate :: u64
  tc_nids :: "(u64 \<Rightarrow> bool) option"
  tc_nids_str :: "string option"
  tc_jobids :: "string list"
  tc_jobids_str :: "string option"
  tc_valid_jobid :: bool
  tc_valid_nid :: bool
  tc_rule_default :: bool
  tc_tw_interval :: u32

record tbf_request = ptlrpc_request +
  rq_jobid :: "string option"

text \<open>
  libcfs. \<open>node_as_req c\<close> is what the memory around the heap node of client \<open>c\<close> reads as when
  it is taken for the node of a request, as the SSCDT comparisons do.
\<close>

record ('h, 't) libcfs = "(nat, 'h) binheap_ops" +
  cfs_hash_create :: 't
  cfs_hash_peek :: "cli_key \<Rightarrow> 't \<Rightarrow> nat option"
  cfs_hash_add :: "cli_key \<Rightarrow> nat \<Rightarrow> 't \<Rightarrow> 't"
  cfs_hash_del :: "cli_key \<Rightarrow> 't \<Rightarrow> 't"
  cfs_hash_bd :: "cli_key \<Rightarrow> nat"
  cfs_hash_bd_count :: "nat \<Rightarrow> 't \<Rightarrow> nat"
  cfs_hash_items :: "'t \<Rightarrow> nat list"
  cfs_gettok :: "char \<Rightarrow> string \<Rightarrow> (string \<times> string option) option"
  cfs_parse_nidlist :: "string \<Rightarrow> (u64 \<Rightarrow> bool) option"
  node_as_req :: "nat \<Rightarrow> ptlrpc_request"

section \<open>The store\<close>

definition get_rule :: "('h, 't) nrs_tbf_head \<Rightarrow> nat \<Rightarrow> nrs_tbf_rule outcome" where
  "get_rule s r = (case th_rules s r of None \<Rightarrow> Fault NULL_DEREF | Some rule \<Rightarrow> Ret rule)"

definition get_cli :: "('h, 't) nrs_tbf_head \<Rightarrow> nat \<Rightarrow> nrs_tbf_client outcome" where
  "get_cli s c = (case th_clients s c of None \<Rightarrow> Fault NULL_DEREF | Some cli \<Rightarrow> Ret cli)"

definition set_rule :: "nat \<Rightarrow> nrs_tbf_rule option \<Rightarrow> ('h, 't) nrs_tbf_head \<Rightarrow> ('h, 't) nrs_tbf_head" where
  "set_rule r x s = s\<lparr>th_rules := (th_rules s)(r := x)\<rparr>"

definition set_cli :: "nat \<Rightarrow> nrs_tbf_client option \<Rightarrow> ('h, 't) nrs_tbf_head \<Rightarrow> ('h, 't) nrs_tbf_head" where
  "set_cli c x s = s\<lparr>th_clients := (th_clients s)(c := x)\<rparr>"

section \<open>Comparing heap nodes\<close>

definition tbf_cli_compare :: "nrs_tbf_client \<Rightarrow> nrs_tbf_client \<Rightarrow> bool" where
  "tbf_cli_compare cli1 cli2 =
     (if tc_check_time cli1 + tc_nsecs cli1 < tc_check_time cli2 + tc_nsecs cli2 then True
      else if tc_check_time cli1 + tc_nsecs cli1 > tc_check_time cli2 + tc_nsecs cli2 then False
      else if tc_check_time cli1 < tc_check_time cli2 then True
      else if tc_check_time cli1 > tc_check_time cli2 then False
      else True)"

definition tw_window :: "int \<Rightarrow> 'a ptlrpc_request_scheme \<Rightarrow> u64 outcome" where
  "tw_window ivl req = bindO (quot64 (s64 (rq_sent req * 1000)) ivl) (\<lambda>w. Ret (of_int w))"

definition sscdt_req_compare_nid ::
  "int \<Rightarrow> 'a ptlrpc_request_scheme \<Rightarrow> 'a ptlrpc_request_scheme \<Rightarrow> bool outcome" where
  "sscdt_req_compare_nid ivl req1 req2 =
     bindO (tw_window ivl req1) (\<lambda>time_window1.
     bindO (tw_window ivl req2) (\<lambda>time_window2.
       if time_window1 \<noteq> time_window2 then Ret (rq_sent req1 < rq_sent req2)
       else if rq_peer_nid req1 = rq_peer_nid req2 then Ret (rq_peer_pid req1 < rq_peer_pid req2)
       else Ret (rq_peer_nid req1 < rq_peer_nid req2)))"

text \<open>Here the result of \<open>strcmp\<close> is returned: it is non-zero when the names differ.\<close>

definition sscdt_req_compare_jobid ::
  "int \<Rightarrow> 'a ptlrpc_request_scheme \<Rightarrow> string \<Rightarrow> 'a ptlrpc_request_scheme \<Rightarrow> string \<Rightarrow> bool outcome" where
  "sscdt_req_compare_jobid ivl req1 jobid1 req2 jobid2 =
     bindO (tw_window ivl req1) (\<lambda>time_window1.
     bindO (tw_window ivl req2) (\<lambda>time_window2.
       if time_window1 \<noteq> time_window2 then Ret (rq_sent req1 < rq_sent req2)
       else if rq_peer_nid req1 = rq_peer_nid req2 then Ret (jobid1 \<noteq> jobid2)
       else Ret (rq_peer_nid req1 < rq_peer_nid req2)))"

definition hop_fn :: "('h, 't) libcfs \<Rightarrow> ('h, 't) nrs_tbf_head \<Rightarrow> nat \<Rightarrow> nat \<Rightarrow> bool outcome" where
  "hop_fn L s e1 e2 =
     bindO (get_cli s e1) (\<lambda>cli1. bindO (get_cli s e2) (\<lambda>cli2.
       case hop_compare s of
         Tbf_cli_compare \<Rightarrow> Ret (tbf_cli_compare cli1 cli2)
       | Sscdt_req_compare_nid \<Rightarrow> sscdt_req_compare_nid (tbf_tw_interval s) (node_as_req L e1) (node_as_req L e2)
       | Sscdt_req_compare_jobid \<Rightarrow>
           sscdt_req_compare_jobid (tbf_tw_interval s) (node_as_req L e1) (tc_jobid cli1)
             (node_as_req L e2) (tc_jobid cli2)))"

definition relocate :: "('h, 't) libcfs \<Rightarrow> nat \<Rightarrow> ('h, 't) nrs_tbf_head \<Rightarrow> ('h, 't) nrs_tbf_head outcome" where
  "relocate L c s = bindO (cfs_binheap_relocate L (hop_fn L s) c (th_binheap s)) (\<lambda>h. Ret (s\<lparr>th_binheap := h\<rparr>))"

definition heap_remove :: "('h, 't) libcfs \<Rightarrow> nat \<Rightarrow> ('h, 't) nrs_tbf_head \<Rightarrow> ('h, 't) nrs_tbf_head outcome" where
  "heap_remove L c s = bindO (cfs_binheap_remove L (hop_fn L s) c (th_binheap s)) (\<lambda>h. Ret (s\<lparr>th_binheap := h\<rparr>))"

section \<open>Job and NID lists\<close>

definition nrs_tbf_jobid_list_match :: "string list \<Rightarrow> string \<Rightarrow> bool" where
  "nrs_tbf_jobid_list_match jobid_list jobid = list_ex (\<lambda>tj. jobid = tj) jobid_list"

text \<open>
  The parsing loop; \<open>mem n\<close> tells whether the allocations for token \<open>n\<close> succeed. The guard on
  the length of the rest holds for every tokenizer that consumes its token.
\<close>

function jobid_list_loop ::
  "('h, 't) libcfs \<Rightarrow> (nat \<Rightarrow> bool) \<Rightarrow> string \<Rightarrow> string list \<Rightarrow> int \<times> string list" where
  "jobid_list_loop L mem str acc =
     (case cfs_gettok L CHR '' '' str of
        None \<Rightarrow> (- EINVAL, [])
      | Some (res, rest) \<Rightarrow>
          if \<not> mem (length acc) then (- ENOMEM, [])
          else case rest of
            None \<Rightarrow> (0, acc @ [res])
          | Some str' \<Rightarrow>
              if length str' < length str then jobid_list_loop L mem str' (acc @ [res]) else (- EINVAL, []))"
  by pat_completeness auto
termination
  by (relation "measure (\<lambda>(L, mem, str, acc). length str)") auto

declare jobid_list_loop.simps [simp del]

definition nrs_tbf_jobid_list_parse ::
  "('h, 't) libcfs \<Rightarrow> (nat \<Rightarrow> bool) \<Rightarrow> string \<Rightarrow> int \<times> string list" where
  "nrs_tbf_jobid_list_parse L mem str = jobid_list_loop L mem str []"

section \<open>References and links\<close>

text \<open>The type-specific end of a rule: both versions assert their list string.\<close>

definition o_rule_fini :: "tbf_type \<Rightarrow> nrs_tbf_rule \<Rightarrow> bool" where
  "o_rule_fini ty rule = (case ty of NRS_TBF_TYPE_JOBID \<Rightarrow> tr_jobids_str rule \<noteq> None
     | NRS_TBF_TYPE_NID \<Rightarrow> tr_nids_str rule \<noteq> None)"

definition nrs_tbf_rule_fini :: "nat \<Rightarrow> ('h, 't) nrs_tbf_head \<Rightarrow> ('h, 't) nrs_tbf_head outcome" where
  "nrs_tbf_rule_fini r s =
     bindO (get_rule s r) (\<lambda>rule.
       lassert (tr_ref rule = 0) (lassert (tr_cli_list rule = []) (lassert (r \<notin> set (th_list s))
         (lassert (o_rule_fini (th_type s) rule) (Ret (set_rule r None s))))))"

definition nrs_tbf_rule_put :: "nat \<Rightarrow> ('h, 't) nrs_tbf_head \<Rightarrow> ('h, 't) nrs_tbf_head outcome" where
  "nrs_tbf_rule_put r s =
     bindO (get_rule s r) (\<lambda>rule.
       let s1 = set_rule r (Some (rule\<lparr>tr_ref := tr_ref rule - 1\<rparr>)) s
       in if tr_ref rule - 1 = 0 then nrs_tbf_rule_fini r s1 else Ret s1)"

definition nrs_tbf_rule_get :: "nat \<Rightarrow> ('h, 't) nrs_tbf_head \<Rightarrow> ('h, 't) nrs_tbf_head outcome" where
  "nrs_tbf_rule_get r s =
     bindO (get_rule s r) (\<lambda>rule. Ret (set_rule r (Some (rule\<lparr>tr_ref := tr_ref rule + 1\<rparr>)) s))"

text \<open>\<open>list_del_init(&cli->tc_linkage)\<close> takes the client off the list it is linked on.\<close>

definition unlink_cli :: "nat \<Rightarrow> ('h, 't) nrs_tbf_head \<Rightarrow> ('h, 't) nrs_tbf_head outcome" where
  "unlink_cli c s =
     bindO (get_cli s c) (\<lambda>cli.
       case tc_linkage cli of
         None \<Rightarrow> Ret s
       | Some r \<Rightarrow>
           bindO (get_rule s r) (\<lambda>rule.
             Ret (set_cli c (Some (cli\<lparr>tc_linkage := None\<rparr>))
               (set_rule r (Some (rule\<lparr>tr_cli_list := removeAll c (tr_cli_list rule)\<rparr>)) s))))"

definition nrs_tbf_cli_rule_put :: "nat \<Rightarrow> ('h, 't) nrs_tbf_head \<Rightarrow> ('h, 't) nrs_tbf_head outcome" where
  "nrs_tbf_cli_rule_put c s =
     bindO (get_cli s c) (\<lambda>cli.
       lassert (tc_linkage cli \<noteq> None)
         (case tc_rule cli of
            None \<Rightarrow> Fault LBUG
          | Some r \<Rightarrow>
              bindO (unlink_cli c s) (\<lambda>s1.
              bindO (nrs_tbf_rule_put r s1) (\<lambda>s2.
              bindO (get_cli s2 c) (\<lambda>cli2. Ret (set_cli c (Some (cli2\<lparr>tc_rule := None\<rparr>)) s2))))))"

definition nrs_tbf_cli_reset_value ::
  "('h, 't) libcfs \<Rightarrow> u64 \<Rightarrow> nat \<Rightarrow> ('h, 't) nrs_tbf_head \<Rightarrow> ('h, 't) nrs_tbf_head outcome" where
  "nrs_tbf_cli_reset_value L now c s =
     bindO (get_cli s c) (\<lambda>cli.
       case tc_rule cli of
         None \<Rightarrow> Fault NULL_DEREF
       | Some r \<Rightarrow>
           bindO (get_rule s r) (\<lambda>rule.
             let s1 = set_cli c (Some (cli\<lparr>
                   tc_rpc_rate := tr_rpc_rate rule,
                   tc_nsecs := tr_nsecs rule,
                   tc_depth := tr_depth rule,
                   tc_ntoken := tr_depth rule,
                   tc_check_time := now,
                   tc_rule_sequence := th_rule_sequence s,
                   tc_rule_generation := tr_generation rule\<rparr>)) s
             in if tc_in_heap cli then relocate L c s1 else Ret s1))"

definition nrs_tbf_cli_reset ::
  "('h, 't) libcfs \<Rightarrow> u64 \<Rightarrow> nat \<Rightarrow> nat \<Rightarrow> ('h, 't) nrs_tbf_head \<Rightarrow> ('h, 't) nrs_tbf_head outcome" where
  "nrs_tbf_cli_reset L now r c s =
     bindO (get_cli s c) (\<lambda>cli.
     bindO (if tc_rule cli \<noteq> None \<and> tc_linkage cli \<noteq> None
            then lassert (tc_rule cli \<noteq> Some r) (nrs_tbf_cli_rule_put c s)
            else Ret s) (\<lambda>s1.
     bindO (get_cli s1 c) (\<lambda>cli1.
       lassert (tc_rule cli1 = None) (lassert (tc_linkage cli1 = None)
         (bindO (get_rule s1 r) (\<lambda>rule.
            nrs_tbf_cli_reset_value L now c
              (set_cli c (Some (cli1\<lparr>tc_rule := Some r, tc_linkage := Some r\<rparr>))
                (set_rule r (Some (rule\<lparr>tr_cli_list := tr_cli_list rule @ [c]\<rparr>)) s1))))))))"

section \<open>Finding rules\<close>

text \<open>
  \<open>strcmp(rule->tr_name, name)\<close>: a name that fills its array has no terminating NUL, and the
  comparison runs into the fields behind it.
\<close>

definition rule_named :: "nrs_tbf_rule \<Rightarrow> string \<Rightarrow> bool outcome" where
  "rule_named rule name = (if length (tr_name rule) \<ge> MAX_TBF_NAME then Fault OVERRUN else Ret (tr_name rule = name))"

fun scan_rules :: "('h, 't) nrs_tbf_head \<Rightarrow> (nrs_tbf_rule \<Rightarrow> bool outcome) \<Rightarrow> nat list \<Rightarrow> nat option outcome" where
  "scan_rules s p [] = Ret None"
| "scan_rules s p (r # rs) =
     bindO (get_rule s r) (\<lambda>rule. lassert (\<not> tr_stopping rule)
       (bindO (p rule) (\<lambda>found. if found then Ret (Some r) else scan_rules s p rs)))"

definition nrs_tbf_rule_find ::
  "string \<Rightarrow> ('h, 't) nrs_tbf_head \<Rightarrow> (nat option \<times> ('h, 't) nrs_tbf_head) outcome" where
  "nrs_tbf_rule_find name s =
     bindO (scan_rules s (\<lambda>rule. rule_named rule name) (th_list s)) (\<lambda>x.
       case x of
         None \<Rightarrow> Ret (None, s)
       | Some r \<Rightarrow> bindO (nrs_tbf_rule_get r s) (\<lambda>s1. Ret (Some r, s1)))"

definition o_rule_match :: "tbf_type \<Rightarrow> nrs_tbf_rule \<Rightarrow> nrs_tbf_client \<Rightarrow> bool" where
  "o_rule_match ty rule cli =
     (case ty of
        NRS_TBF_TYPE_JOBID \<Rightarrow> nrs_tbf_jobid_list_match (tr_jobids rule) (tc_jobid cli)
      | NRS_TBF_TYPE_NID \<Rightarrow> (case tr_nids rule of None \<Rightarrow> False | Some nids \<Rightarrow> nids (tc_nid cli)))"

definition nrs_tbf_rule_match ::
  "nat \<Rightarrow> ('h, 't) nrs_tbf_head \<Rightarrow> (nat \<times> ('h, 't) nrs_tbf_head) outcome" where
  "nrs_tbf_rule_match c s =
     bindO (get_cli s c) (\<lambda>cli.
     bindO (scan_rules s (\<lambda>rule. Ret (o_rule_match (th_type s) rule cli)) (th_list s)) (\<lambda>x.
       case (case x of Some r \<Rightarrow> Some r | None \<Rightarrow> th_rule s) of
         None \<Rightarrow> Fault NULL_DEREF
       | Some r \<Rightarrow> bindO (nrs_tbf_rule_get r s) (\<lambda>s1. Ret (r, s1))))"

section \<open>Starting, changing and stopping rules\<close>

definition o_rule_init ::
  "('h, 't) libcfs \<Rightarrow> bool \<Rightarrow> (nat \<Rightarrow> bool) \<Rightarrow> tbf_type \<Rightarrow> nrs_tbf_cmd \<Rightarrow> nrs_tbf_rule \<Rightarrow>
   (int \<times> nrs_tbf_rule) outcome" where
  "o_rule_init L mem_str mem ty start rule =
     (case ty of
        NRS_TBF_TYPE_JOBID \<Rightarrow>
          (case tc_jobids_str start of
             None \<Rightarrow> Fault LBUG
           | Some str \<Rightarrow>
               Ret (if \<not> mem_str then (- ENOMEM, rule)
                    else if tc_jobids start \<noteq> [] then
                      (case nrs_tbf_jobid_list_parse L mem str of (rc, ids) \<Rightarrow>
                         (rc, rule\<lparr>tr_jobids_str := (if rc = 0 then Some str else None), tr_jobids := ids\<rparr>))
                    else (0, rule\<lparr>tr_jobids_str := Some str, tr_jobids := []\<rparr>)))
      | NRS_TBF_TYPE_NID \<Rightarrow>
          (case tc_nids_str start of
             None \<Rightarrow> Fault LBUG
           | Some str \<Rightarrow>
               Ret (if \<not> mem_str then (- ENOMEM, rule)
                    else if tc_nids start \<noteq> None then
                      (case cfs_parse_nidlist L str of
                         None \<Rightarrow> (- EINVAL, rule)
                       | Some nids \<Rightarrow> (0, rule\<lparr>tr_nids_str := Some str, tr_nids := Some nids\<rparr>))
                    else (0, rule\<lparr>tr_nids_str := Some str, tr_nids := None\<rparr>))))"

text \<open>
  \<open>new\<close> is the address the allocator returns for the rule, if it returns one. The second lookup
  is made under the rule lock after the rule has been built.
\<close>

definition nrs_tbf_rule_start ::
  "('h, 't) libcfs \<Rightarrow> nat option \<Rightarrow> bool \<Rightarrow> (nat \<Rightarrow> bool) \<Rightarrow> nrs_tbf_cmd \<Rightarrow> ('h, 't) nrs_tbf_head \<Rightarrow>
   (int \<times> ('h, 't) nrs_tbf_head) outcome" where
  "nrs_tbf_rule_start L new mem_str mem start s =
     bindO (nrs_tbf_rule_find (tc_name start) s) (\<lambda>(found, s).
       case found of
         Some r \<Rightarrow> bindO (nrs_tbf_rule_put r s) (\<lambda>s. Ret (- EEXIST, s))
       | None \<Rightarrow>
           (case new of
              None \<Rightarrow> Ret (- ENOMEM, s)
            | Some r \<Rightarrow>
                if length (tc_name start) > MAX_TBF_NAME then Fault OVERRUN
                else if tc_cmd_rate start = 0 then Fault DIV_TRAP
                else
                  bindO (o_rule_init L mem_str mem (th_type s) start
                    \<lparr>tr_name = tc_name start, tr_nids = None, tr_nids_str = None, tr_jobids = [],
                     tr_jobids_str = None, tr_rpc_rate = tc_cmd_rate start,
                     tr_nsecs = NSEC_PER_SEC div tc_cmd_rate start, tr_depth = of_int (tbf_depth s),
                     tr_cli_list = [], tr_stopping = False, tr_default = False, tr_ref = 1,
                     tr_generation = 0\<rparr>) (\<lambda>(rc, rule).
                  if rc \<noteq> 0 then Ret (rc, s)
                  else
                    bindO (nrs_tbf_rule_find (tc_name start) s) (\<lambda>(tmp, s).
                      case tmp of
                        Some r' \<Rightarrow>
                          bindO (nrs_tbf_rule_put r' s) (\<lambda>s.
                          bindO (nrs_tbf_rule_put r (set_rule r (Some rule) s)) (\<lambda>s. Ret (- EEXIST, s)))
                      | None \<Rightarrow>
                          let s = s\<lparr>th_list := r # th_list s, th_rule_sequence := th_rule_sequence s + 1\<rparr>
                          in if tc_rule_default start
                             then lassert (th_rule s = None)
                               (Ret (0, (set_rule r (Some (rule\<lparr>tr_default := True\<rparr>)) s)\<lparr>th_rule := Some r\<rparr>))
                             else Ret (0, set_rule r (Some rule) s)))))"

definition nrs_tbf_rule_change ::
  "nrs_tbf_cmd \<Rightarrow> ('h, 't) nrs_tbf_head \<Rightarrow> (int \<times> ('h, 't) nrs_tbf_head) outcome" where
  "nrs_tbf_rule_change change s =
     bindO (nrs_tbf_rule_find (tc_name change) s) (\<lambda>(found, s).
       case found of
         None \<Rightarrow> Ret (- ENOENT, s)
       | Some r \<Rightarrow>
           bindO (get_rule s r) (\<lambda>rule.
             if tc_cmd_rate change = 0 then Fault DIV_TRAP
             else
               bindO (nrs_tbf_rule_put r (set_rule r (Some (rule\<lparr>tr_rpc_rate := tc_cmd_rate change,
                   tr_nsecs := NSEC_PER_SEC div tc_cmd_rate change,
                   tr_generation := tr_generation rule + 1\<rparr>)) s)) (\<lambda>s. Ret (0, s))))"

definition nrs_tbf_rule_stop ::
  "nrs_tbf_cmd \<Rightarrow> ('h, 't) nrs_tbf_head \<Rightarrow> (int \<times> ('h, 't) nrs_tbf_head) outcome" where
  "nrs_tbf_rule_stop stop s =
     (if tc_name stop = NRS_TBF_DEFAULT_RULE then Ret (- EPERM, s)
      else
        bindO (nrs_tbf_rule_find (tc_name stop) s) (\<lambda>(found, s).
          case found of
            None \<Rightarrow> Ret (- ENOENT, s)
          | Some r \<Rightarrow>
              bindO (get_rule s r) (\<lambda>rule.
                let s = (set_rule r (Some (rule\<lparr>tr_stopping := True\<rparr>)) s)\<lparr>th_list := removeAll r (th_list s)\<rparr>
                in bindO (nrs_tbf_rule_put r s) (\<lambda>s.
                   bindO (nrs_tbf_rule_put r s) (\<lambda>s. Ret (0, s))))))"

section \<open>SSCDT ordering inside the TBF policy\<close>

definition nrs_tbf_sscdt_start :: "nrs_tbf_cmd \<Rightarrow> ('h, 't) nrs_tbf_head \<Rightarrow> (int \<times> ('h, 't) nrs_tbf_head) outcome" where
  "nrs_tbf_sscdt_start change s =
     (case sscdt_req_compare_ptr s of
        None \<Rightarrow> Fault NULL_DEREF
      | Some cmp \<Rightarrow> Ret (0, s\<lparr>hop_compare := cmp, tbf_tw_interval := sint (tc_tw_interval change)\<rparr>))"

definition nrs_tbf_sscdt_stop :: "nrs_tbf_cmd \<Rightarrow> ('h, 't) nrs_tbf_head \<Rightarrow> int \<times> ('h, 't) nrs_tbf_head" where
  "nrs_tbf_sscdt_stop change s =
     (0, s\<lparr>hop_compare := Tbf_cli_compare, tbf_tw_interval := sint (tc_tw_interval change)\<rparr>)"

definition nrs_tbf_tw_interval_change :: "nrs_tbf_cmd \<Rightarrow> ('h, 't) nrs_tbf_head \<Rightarrow> int \<times> ('h, 't) nrs_tbf_head" where
  "nrs_tbf_tw_interval_change change s = (0, s\<lparr>tbf_tw_interval := sint (tc_tw_interval change)\<rparr>)"

section \<open>Commands\<close>

definition valid_for :: "tbf_type \<Rightarrow> nrs_tbf_cmd \<Rightarrow> bool" where
  "valid_for ty cmd = (case ty of NRS_TBF_TYPE_JOBID \<Rightarrow> tc_valid_jobid cmd | NRS_TBF_TYPE_NID \<Rightarrow> tc_valid_nid cmd)"

definition nrs_tbf_command ::
  "('h, 't) libcfs \<Rightarrow> nat option \<Rightarrow> bool \<Rightarrow> (nat \<Rightarrow> bool) \<Rightarrow> nrs_tbf_cmd \<Rightarrow> ('h, 't) nrs_tbf_head \<Rightarrow>
   (int \<times> ('h, 't) nrs_tbf_head) outcome" where
  "nrs_tbf_command L new mem_str mem cmd s =
     (case tc_cmd cmd of
        NRS_CTL_TBF_START_RULE \<Rightarrow>
          if \<not> valid_for (th_type s) cmd then Ret (- EINVAL, s)
          else nrs_tbf_rule_start L new mem_str mem cmd s
      | NRS_CTL_TBF_CHANGE_RATE \<Rightarrow> nrs_tbf_rule_change cmd s
      | NRS_CTL_TBF_STOP_RULE \<Rightarrow>
          bindO (nrs_tbf_rule_stop cmd s) (\<lambda>(rc, s). Ret (if rc = - ENOENT then 0 else rc, s))
      | NRS_CTL_TBF_START_SSCDT \<Rightarrow> nrs_tbf_sscdt_start cmd s
      | NRS_CTL_TBF_CHANGE_TW_INTERVAL \<Rightarrow> Ret (nrs_tbf_tw_interval_change cmd s)
      | NRS_CTL_TBF_STOP_SSCDT \<Rightarrow> Ret (nrs_tbf_sscdt_stop cmd s))"

text \<open>Listing the rules, newest first: one line per rule, \<open>"name {list} rate, ref n"\<close>.\<close>

definition rule_line :: "tbf_type \<Rightarrow> nrs_tbf_rule \<Rightarrow> string" where
  "rule_line ty rule =
     tr_name rule @ '' {'' @
     (case (case ty of NRS_TBF_TYPE_JOBID \<Rightarrow> tr_jobids_str rule | NRS_TBF_TYPE_NID \<Rightarrow> tr_nids_str rule) of
        None \<Rightarrow> ''(null)'' | Some str \<Rightarrow> str) @
     ''} '' @ show_nat (unat (tr_rpc_rate rule)) @ '', ref '' @ show_int (tr_ref rule - 1) @ [CHR 0x0A]"

definition nrs_tbf_rule_dump :: "tbf_type \<Rightarrow> nrs_tbf_rule \<Rightarrow> seq_file \<Rightarrow> (int \<times> seq_file) outcome" where
  "nrs_tbf_rule_dump ty rule m =
     (if length (tr_name rule) \<ge> MAX_TBF_NAME then Fault OVERRUN else Ret (seq_printf (rule_line ty rule) m))"

fun nrs_tbf_rule_dump_all :: "('h, 't) nrs_tbf_head \<Rightarrow> nat list \<Rightarrow> seq_file \<Rightarrow> (int \<times> seq_file) outcome" where
  "nrs_tbf_rule_dump_all s [] m = Ret (0, m)"
| "nrs_tbf_rule_dump_all s (r # rs) m =
     bindO (get_rule s r) (\<lambda>rule. lassert (\<not> tr_stopping rule)
       (bindO (nrs_tbf_rule_dump (th_type s) rule m) (\<lambda>(rc, m).
          if rc \<noteq> 0 then Ret (- ENOSPC, m) else nrs_tbf_rule_dump_all s rs m)))"

end
