(* ===== verification/Tbf_Clients.thy ===== *)
theory Tbf_Clients
  imports Tbf_Rules
begin

text \<open>
  The client table of the TBF policy, in its two variants (\<open>nrs_tbf_jobid_ops\<close> and
  \<open>nrs_tbf_nid_ops\<close>), and the resource operations that look clients up for the NRS core. The
  table is a libcfs hash. A job table holds no reference of its own: a client whose last
  reference goes moves to the LRU list of its bucket and is freed when the bucket is over its
  share of the cache. A NID table holds one reference per client, released when the table is
  destroyed.
\<close>

section \<open>Keys and references\<close>

definition req_jobid :: "tbf_request \<Rightarrow> string" where
  "req_jobid req = (case rq_jobid req of None \<Rightarrow> '''' | Some jobid \<Rightarrow> jobid)"

definition req_key :: "tbf_type \<Rightarrow> tbf_request \<Rightarrow> cli_key" where
  "req_key ty req = (case ty of NRS_TBF_TYPE_JOBID \<Rightarrow> Job_key (req_jobid req)
     | NRS_TBF_TYPE_NID \<Rightarrow> Nid_key (rq_peer_nid req))"

definition cli_key :: "tbf_type \<Rightarrow> nrs_tbf_client \<Rightarrow> cli_key" where
  "cli_key ty cli = (case ty of NRS_TBF_TYPE_JOBID \<Rightarrow> Job_key (tc_jobid cli)
     | NRS_TBF_TYPE_NID \<Rightarrow> Nid_key (tc_nid cli))"

definition hop_get :: "nat \<Rightarrow> ('h, 't) nrs_tbf_head \<Rightarrow> ('h, 't) nrs_tbf_head outcome" where
  "hop_get c s = bindO (get_cli s c) (\<lambda>cli. Ret (set_cli c (Some (cli\<lparr>tc_ref := tc_ref cli + 1\<rparr>)) s))"

definition hop_put :: "nat \<Rightarrow> ('h, 't) nrs_tbf_head \<Rightarrow> ('h, 't) nrs_tbf_head outcome" where
  "hop_put c s = bindO (get_cli s c) (\<lambda>cli. Ret (set_cli c (Some (cli\<lparr>tc_ref := tc_ref cli - 1\<rparr>)) s))"

section \<open>Creating and freeing clients\<close>

definition nrs_tbf_cli_fini :: "nat \<Rightarrow> ('h, 't) nrs_tbf_head \<Rightarrow> ('h, 't) nrs_tbf_head outcome" where
  "nrs_tbf_cli_fini c s =
     bindO (get_cli s c) (\<lambda>cli.
       lassert (tc_list cli = []) (lassert (\<not> tc_in_heap cli) (lassert (tc_ref cli = 0)
         (bindO (nrs_tbf_cli_rule_put c s) (\<lambda>s1. Ret (set_cli c None s1))))))"

definition new_client :: nrs_tbf_client where
  "new_client = \<lparr>tc_nid = 0, tc_jobid = [], tc_ref = 1, tc_linkage = None, tc_rule = None,
     tc_rule_generation = 0, tc_rpc_rate = 0, tc_nsecs = 0, tc_ntoken = 0, tc_depth = 0, tc_check_time = 0,
     tc_list = [], tc_in_heap = False, tc_rule_sequence = 0\<rparr>"

definition o_cli_init :: "tbf_type \<Rightarrow> tbf_request \<Rightarrow> nrs_tbf_client \<Rightarrow> nrs_tbf_client outcome" where
  "o_cli_init ty req cli =
     (case ty of
        NRS_TBF_TYPE_JOBID \<Rightarrow>
          lassert (length (req_jobid req) < LUSTRE_JOBID_SIZE) (Ret (cli\<lparr>tc_jobid := req_jobid req\<rparr>))
      | NRS_TBF_TYPE_NID \<Rightarrow> Ret (cli\<lparr>tc_nid := rq_peer_nid req\<rparr>))"

definition nrs_tbf_cli_init ::
  "('h, 't) libcfs \<Rightarrow> u64 \<Rightarrow> nat \<Rightarrow> tbf_request \<Rightarrow> ('h, 't) nrs_tbf_head \<Rightarrow> ('h, 't) nrs_tbf_head outcome" where
  "nrs_tbf_cli_init L now c req s =
     bindO (o_cli_init (th_type s) req new_client) (\<lambda>cli.
     bindO (nrs_tbf_rule_match c (set_cli c (Some cli) s)) (\<lambda>(r, s1).
       nrs_tbf_cli_reset L now r c s1))"

section \<open>The table\<close>

definition nrs_tbf_jobid_hash_lookup ::
  "('h, 't) libcfs \<Rightarrow> cli_key \<Rightarrow> ('h, 't) nrs_tbf_head \<Rightarrow> (nat option \<times> ('h, 't) nrs_tbf_head) outcome" where
  "nrs_tbf_jobid_hash_lookup L key s =
     (case cfs_hash_peek L key (th_cli_hash s) of
        None \<Rightarrow> Ret (None, s)
      | Some c \<Rightarrow>
          bindO (hop_get c s) (\<lambda>s1.
            let b = cfs_hash_bd L key
            in Ret (Some c, s1\<lparr>th_lru := (th_lru s1)(b := removeAll c (th_lru s1 b))\<rparr>)))"

definition o_cli_find ::
  "('h, 't) libcfs \<Rightarrow> tbf_request \<Rightarrow> ('h, 't) nrs_tbf_head \<Rightarrow> (nat option \<times> ('h, 't) nrs_tbf_head) outcome" where
  "o_cli_find L req s =
     (case th_type s of
        NRS_TBF_TYPE_JOBID \<Rightarrow> nrs_tbf_jobid_hash_lookup L (req_key NRS_TBF_TYPE_JOBID req) s
      | NRS_TBF_TYPE_NID \<Rightarrow>
          (case cfs_hash_peek L (req_key NRS_TBF_TYPE_NID req) (th_cli_hash s) of
             None \<Rightarrow> Ret (None, s)
           | Some c \<Rightarrow> bindO (hop_get c s) (\<lambda>s1. Ret (Some c, s1))))"

definition o_cli_findadd ::
  "('h, 't) libcfs \<Rightarrow> nat \<Rightarrow> ('h, 't) nrs_tbf_head \<Rightarrow> (nat \<times> ('h, 't) nrs_tbf_head) outcome" where
  "o_cli_findadd L c s =
     bindO (get_cli s c) (\<lambda>cli.
       let key = cli_key (th_type s) cli in
       case th_type s of
         NRS_TBF_TYPE_JOBID \<Rightarrow>
           bindO (nrs_tbf_jobid_hash_lookup L key s) (\<lambda>(ret, s1).
             case ret of
               None \<Rightarrow> Ret (c, s1\<lparr>th_cli_hash := cfs_hash_add L key c (th_cli_hash s1)\<rparr>)
             | Some c' \<Rightarrow> Ret (c', s1))
       | NRS_TBF_TYPE_NID \<Rightarrow>
           (case cfs_hash_peek L key (th_cli_hash s) of
              Some c' \<Rightarrow> bindO (hop_get c' s) (\<lambda>s1. Ret (c', s1))
            | None \<Rightarrow> bindO (hop_get c (s\<lparr>th_cli_hash := cfs_hash_add L key c (th_cli_hash s)\<rparr>)) (\<lambda>s1. Ret (c, s1))))"

text \<open>
  Purging the LRU list of a bucket: the clients to free (the last one moved comes first) and
  the state without them.
\<close>

fun purge_lru ::
  "('h, 't) libcfs \<Rightarrow> nat \<Rightarrow> int \<Rightarrow> nat list \<Rightarrow> ('h, 't) nrs_tbf_head \<Rightarrow>
   (nat list \<times> ('h, 't) nrs_tbf_head) outcome" where
  "purge_lru L b hw [] s = Ret ([], s)"
| "purge_lru L b hw (c # cs) s =
     (if int (cfs_hash_bd_count L b (th_cli_hash s)) > hw then
        bindO (get_cli s c) (\<lambda>cli. lassert (tc_ref cli = 0)
          (bindO (purge_lru L b hw cs
             (s\<lparr>th_cli_hash := cfs_hash_del L (cli_key (th_type s) cli) (th_cli_hash s),
                th_lru := (th_lru s)(b := cs)\<rparr>))
             (\<lambda>(zombies, s1). Ret (zombies @ [c], s1))))
      else Ret ([], s))"

fun fini_all :: "nat list \<Rightarrow> ('h, 't) nrs_tbf_head \<Rightarrow> ('h, 't) nrs_tbf_head outcome" where
  "fini_all [] s = Ret s"
| "fini_all (c # cs) s = bindO (nrs_tbf_cli_fini c s) (fini_all cs)"

abbreviation NRS_TBF_JOBID_BKT_BITS :: nat where "NRS_TBF_JOBID_BKT_BITS \<equiv> 10"

definition nrs_tbf_jobid_cli_put ::
  "('h, 't) libcfs \<Rightarrow> nat \<Rightarrow> ('h, 't) nrs_tbf_head \<Rightarrow> ('h, 't) nrs_tbf_head outcome" where
  "nrs_tbf_jobid_cli_put L c s =
     bindO (get_cli s c) (\<lambda>cli.
     bindO (hop_put c s) (\<lambda>s1.
       if tc_ref cli - 1 \<noteq> 0 then Ret s1
       else
         let b = cfs_hash_bd L (cli_key (th_type s1) cli);
             hw = tbf_jobid_cache_size s1 div 2 ^ (th_hash_bits s1 - NRS_TBF_JOBID_BKT_BITS)
         in lassert (c \<notin> set (th_lru s1 b))
           (let s2 = s1\<lparr>th_lru := (th_lru s1)(b := th_lru s1 b @ [c])\<rparr>
            in bindO (purge_lru L b hw (th_lru s2 b) s2) (\<lambda>(zombies, s3). fini_all zombies s3))))"

definition o_cli_put :: "('h, 't) libcfs \<Rightarrow> nat \<Rightarrow> ('h, 't) nrs_tbf_head \<Rightarrow> ('h, 't) nrs_tbf_head outcome" where
  "o_cli_put L c s =
     (case th_type s of NRS_TBF_TYPE_JOBID \<Rightarrow> nrs_tbf_jobid_cli_put L c s | NRS_TBF_TYPE_NID \<Rightarrow> hop_put c s)"

section \<open>Resources\<close>

text \<open>
  The rule of a client found in the table is brought up to date: after a rule was started or
  the client's rule stopped, by matching the rules again; otherwise, after a change of its
  rule's rate, by reloading the values.
\<close>

definition refresh_cli ::
  "('h, 't) libcfs \<Rightarrow> u64 \<Rightarrow> nat \<Rightarrow> ('h, 't) nrs_tbf_head \<Rightarrow> ('h, 't) nrs_tbf_head outcome" where
  "refresh_cli L now c s =
     bindO (get_cli s c) (\<lambda>cli.
       case tc_rule cli of
         None \<Rightarrow> Fault LBUG
       | Some r0 \<Rightarrow>
           bindO (get_rule s r0) (\<lambda>rule0.
             if tc_rule_sequence cli \<noteq> th_rule_sequence s \<or> tr_stopping rule0 then
               bindO (nrs_tbf_rule_match c s) (\<lambda>(r, s1).
                 if r \<noteq> r0 then nrs_tbf_cli_reset L now r c s1 else nrs_tbf_rule_put r s1)
             else if tc_rule_generation cli \<noteq> tr_generation rule0 then nrs_tbf_cli_reset_value L now c s
             else Ret s))"

text \<open>
  Without a parent the resource is the head itself (\<open>None\<close>); below the head it is the client of
  the request. \<open>new\<close> is the address the allocator returns, if any.
\<close>

definition nrs_tbf_res_get ::
  "('h, 't) libcfs \<Rightarrow> u64 \<Rightarrow> bool \<Rightarrow> nat option \<Rightarrow> tbf_request \<Rightarrow> ('h, 't) nrs_tbf_head \<Rightarrow>
   (int \<times> nat option \<times> ('h, 't) nrs_tbf_head) outcome" where
  "nrs_tbf_res_get L now parent new req s =
     (if \<not> parent then Ret (0, None, s) else
      bindO (o_cli_find L req s) (\<lambda>(found, s1).
       case found of
         Some c \<Rightarrow> bindO (refresh_cli L now c s1) (\<lambda>s2. Ret (1, Some c, s2))
       | None \<Rightarrow>
           (case new of
              None \<Rightarrow> Ret (- ENOMEM, None, s1)
            | Some c \<Rightarrow>
                bindO (nrs_tbf_cli_init L now c req s1) (\<lambda>s2.
                bindO (o_cli_findadd L c s2) (\<lambda>(tmp, s3).
                  if tmp \<noteq> c then
                    bindO (hop_put c s3) (\<lambda>s4.
                    bindO (nrs_tbf_cli_fini c s4) (\<lambda>s5. Ret (1, Some tmp, s5)))
                  else Ret (1, Some c, s3))))))"

definition nrs_tbf_res_put ::
  "('h, 't) libcfs \<Rightarrow> nat option \<Rightarrow> ('h, 't) nrs_tbf_head \<Rightarrow> ('h, 't) nrs_tbf_head outcome" where
  "nrs_tbf_res_put L res s = (case res of None \<Rightarrow> Ret s | Some c \<Rightarrow> o_cli_put L c s)"

end
