(* ===== verification/Tbf_Sched.thy ===== *)
theory Tbf_Sched
  imports Tbf_Clients
begin

text \<open>
  Queueing and token accounting of the TBF policy: requests wait in the queue of their client,
  the clients with waiting requests wait in a heap ordered by the time of their next token, and
  a request is handed out when the client at the root has a token. When it has none, the policy
  throttles itself until a timer fires at that client's deadline. The monotonic clock in
  nanoseconds is an argument; \<open>th_timer\<close> is the time the timer is armed for.
\<close>

section \<open>Tokens\<close>

text \<open>
  The number of tokens at time \<open>now\<close>: the product and the sum are made at 64 bits, the quotient
  is stored as a \<open>long\<close>; the comparison with the depth is unsigned.
\<close>

definition tokens_at :: "u64 \<Rightarrow> nrs_tbf_client \<Rightarrow> u64" where
  "tokens_at now cli =
     (let passed = now - tc_check_time cli;
          ntoken = (passed * tc_rpc_rate cli) div NSEC_PER_SEC + tc_ntoken cli
      in if ntoken > tc_depth cli then tc_depth cli else ntoken)"

definition deadline_of :: "nrs_tbf_client \<Rightarrow> u64" where
  "deadline_of cli = tc_check_time cli + tc_nsecs cli"

section \<open>Operations\<close>

definition nrs_tbf_req_get ::
  "('h, 't) libcfs \<Rightarrow> u64 \<Rightarrow> bool \<Rightarrow> ('h, 't) nrs_tbf_head \<Rightarrow> (nat option \<times> ('h, 't) nrs_tbf_head) outcome" where
  "nrs_tbf_req_get L now peek s =
     (if \<not> peek \<and> nrs_throttling s then Ret (None, s)
      else case cfs_binheap_root L (th_binheap s) of
        None \<Rightarrow> Ret (None, s)
      | Some c \<Rightarrow>
          bindO (get_cli s c) (\<lambda>cli. lassert (tc_in_heap cli)
            (if peek then
               (case tc_list cli of [] \<Rightarrow> Fault OVERRUN | nrq # _ \<Rightarrow> Ret (Some nrq, s))
             else
               lassert (now \<ge> tc_check_time cli)
                 (let ntoken = tokens_at now cli in
                  if 0 < sint ntoken then
                    (case tc_list cli of
                       [] \<Rightarrow> Fault OVERRUN
                     | nrq # rest \<Rightarrow>
                         let cli1 = cli\<lparr>tc_ntoken := ntoken - 1, tc_check_time := now, tc_list := rest\<rparr>;
                             s1 = set_cli c (Some cli1) s
                         in if rest = [] then
                              bindO (heap_remove L c s1) (\<lambda>s2.
                                Ret (Some nrq, set_cli c (Some (cli1\<lparr>tc_in_heap := False\<rparr>)) s2))
                            else bindO (relocate L c s1) (\<lambda>s2. Ret (Some nrq, s2)))
                  else
                    Ret (None, s\<lparr>nrs_throttling := True, th_deadline := deadline_of cli,
                       th_timer := Some (deadline_of cli)\<rparr>)))))"

text \<open>\<open>cancelled\<close> tells whether \<open>hrtimer_try_to_cancel\<close> succeeds (it does not while the callback
  runs).\<close>

definition nrs_tbf_req_add ::
  "('h, 't) libcfs \<Rightarrow> bool \<Rightarrow> nat \<Rightarrow> nat \<Rightarrow> ('h, 't) nrs_tbf_head \<Rightarrow> (int \<times> ('h, 't) nrs_tbf_head) outcome" where
  "nrs_tbf_req_add L cancelled c nrq s =
     bindO (get_cli s c) (\<lambda>cli.
       if tc_list cli = [] then
         lassert (\<not> tc_in_heap cli)
           (bindO (cfs_binheap_insert L (hop_fn L s) c (th_binheap s)) (\<lambda>(rc, h).
              if rc = 0 then
                let s1 = (set_cli c (Some (cli\<lparr>tc_in_heap := True, tc_list := [nrq]\<rparr>)) s)
                      \<lparr>th_binheap := h, tr_sequence := (tr_sequence s)(nrq := th_sequence s),
                       th_sequence := th_sequence s + 1\<rparr>
                in Ret (0, if nrs_throttling s \<and> th_deadline s > deadline_of cli \<and> cancelled
                           then s1\<lparr>th_deadline := deadline_of cli, th_timer := Some (deadline_of cli)\<rparr>
                           else s1)
              else Ret (rc, s\<lparr>th_binheap := h\<rparr>)))
       else
         lassert (tc_in_heap cli)
           (Ret (0, (set_cli c (Some (cli\<lparr>tc_list := tc_list cli @ [nrq]\<rparr>)) s)
              \<lparr>tr_sequence := (tr_sequence s)(nrq := th_sequence s), th_sequence := th_sequence s + 1\<rparr>)))"

definition nrs_tbf_req_del ::
  "('h, 't) libcfs \<Rightarrow> nat \<Rightarrow> nat \<Rightarrow> ('h, 't) nrs_tbf_head \<Rightarrow> ('h, 't) nrs_tbf_head outcome" where
  "nrs_tbf_req_del L c nrq s =
     bindO (get_cli s c) (\<lambda>cli.
       lassert (nrq \<in> set (tc_list cli))
         (let cli1 = cli\<lparr>tc_list := removeAll nrq (tc_list cli)\<rparr>;
              s1 = set_cli c (Some cli1) s
          in if tc_list cli1 = [] then
               bindO (heap_remove L c s1) (\<lambda>s2. Ret (set_cli c (Some (cli1\<lparr>tc_in_heap := False\<rparr>)) s2))
             else relocate L c s1))"

definition nrs_tbf_timer_cb :: "('h, 't) nrs_tbf_head \<Rightarrow> ('h, 't) nrs_tbf_head" where
  "nrs_tbf_timer_cb s = s\<lparr>nrs_throttling := False, th_timer := None\<rparr>"

section \<open>Reading and writing the store\<close>

lemma get_cli_simps [simp]:
  "get_cli s c = Ret cli \<longleftrightarrow> th_clients s c = Some cli"
  "th_clients s c = Some cli \<Longrightarrow> get_cli s c = Ret cli"
  "th_clients s c = None \<Longrightarrow> get_cli s c = Fault NULL_DEREF"
  by (auto simp: get_cli_def split: option.splits)

lemma set_cli_simps [simp]:
  "th_clients (set_cli c x s) = (th_clients s)(c := x)"
  "th_rules (set_cli c x s) = th_rules s" "th_list (set_cli c x s) = th_list s"
  "th_binheap (set_cli c x s) = th_binheap s" "hop_compare (set_cli c x s) = hop_compare s"
  "tbf_tw_interval (set_cli c x s) = tbf_tw_interval s" "nrs_throttling (set_cli c x s) = nrs_throttling s"
  "th_deadline (set_cli c x s) = th_deadline s" "th_timer (set_cli c x s) = th_timer s"
  "th_type (set_cli c x s) = th_type s" "th_rule (set_cli c x s) = th_rule s"
  "th_rule_sequence (set_cli c x s) = th_rule_sequence s" "th_cli_hash (set_cli c x s) = th_cli_hash s"
  "th_lru (set_cli c x s) = th_lru s" "th_sequence (set_cli c x s) = th_sequence s"
  "th_hash_bits (set_cli c x s) = th_hash_bits s" "tbf_jobid_cache_size (set_cli c x s) = tbf_jobid_cache_size s"
  by (simp_all add: set_cli_def)

section \<open>The order of the heap\<close>

definition cli_le :: "nrs_tbf_client \<Rightarrow> nrs_tbf_client \<Rightarrow> bool" where
  "cli_le x y \<longleftrightarrow> deadline_of x < deadline_of y \<or> deadline_of x = deadline_of y \<and> tc_check_time x \<le> tc_check_time y"

definition tbf_le :: "('h, 't) nrs_tbf_head \<Rightarrow> nat \<Rightarrow> nat \<Rightarrow> bool" where
  "tbf_le s a b \<longleftrightarrow> (\<exists>x y. th_clients s a = Some x \<and> th_clients s b = Some y \<and> cli_le x y)"

lemma cli_le_trans: "cli_le x y \<Longrightarrow> cli_le y z \<Longrightarrow> cli_le x z"
  by (auto simp: cli_le_def)

lemma tbf_cli_compare_decides: "if tbf_cli_compare x y then cli_le x y else cli_le y x"
  by (auto simp: tbf_cli_compare_def cli_le_def deadline_of_def not_less)

lemma hop_fn_decides:
  assumes "hop_compare s = Tbf_cli_compare" and "S \<subseteq> dom (th_clients s)"
  shows "cmp_decides S (hop_fn L s) (tbf_le s)"
  unfolding cmp_decides_def
proof (intro conjI ballI impI)
  fix a b assume "a \<in> S" "b \<in> S"
  then obtain x y where "th_clients s a = Some x" "th_clients s b = Some y" using assms(2) by blast
  then show "\<exists>t. hop_fn L s a b = Ret t \<and> (if t then tbf_le s a b else tbf_le s b a)"
    using assms(1) tbf_cli_compare_decides [of x y] by (auto simp: hop_fn_def tbf_le_def split: if_splits)
next
  fix a b c assume "tbf_le s a b" "tbf_le s b c"
  then show "tbf_le s a c" unfolding tbf_le_def using cli_le_trans by (metis option.inject)
qed

text \<open>With a window width other than 0 and -1 none of the comparisons traps.\<close>

definition hop_safe :: "('h, 't) nrs_tbf_head \<Rightarrow> bool" where
  "hop_safe s \<longleftrightarrow> hop_compare s = Tbf_cli_compare \<or> (tbf_tw_interval s \<noteq> 0 \<and> tbf_tw_interval s \<noteq> -1)"

lemma tw_window_safe: "ivl \<noteq> 0 \<Longrightarrow> ivl \<noteq> -1 \<Longrightarrow> \<exists>w. tw_window ivl req = Ret w"
  by (simp add: tw_window_def quot64_def)

lemma hop_fn_total:
  assumes "hop_safe s" and "S \<subseteq> dom (th_clients s)"
  shows "cmp_total S (hop_fn L s)"
proof (cases "hop_compare s = Tbf_cli_compare")
  case True
  then show ?thesis by (rule cmp_decides_total [OF hop_fn_decides [OF _ assms(2)]])
next
  case False
  with assms(1) have i: "tbf_tw_interval s \<noteq> 0" "tbf_tw_interval s \<noteq> -1" by (simp_all add: hop_safe_def)
  show ?thesis unfolding cmp_total_def
  proof (intro ballI)
    fix a b assume "a \<in> S" "b \<in> S"
    then obtain x y where "th_clients s a = Some x" "th_clients s b = Some y" using assms(2) by blast
    moreover obtain w1 w2 where "tw_window (tbf_tw_interval s) (node_as_req L a) = Ret w1"
        "tw_window (tbf_tw_interval s) (node_as_req L b) = Ret w2"
      using tw_window_safe [OF i] by blast
    ultimately show "\<exists>t. hop_fn L s a b = Ret t" using False
      by (cases "hop_compare s")
         (simp_all add: hop_fn_def sscdt_req_compare_nid_def sscdt_req_compare_jobid_def)
  qed
qed

definition heap_sorted :: "((nat \<Rightarrow> nat \<Rightarrow> bool) \<Rightarrow> 'h \<Rightarrow> bool) \<Rightarrow> ('h, 't) nrs_tbf_head \<Rightarrow> bool" where
  "heap_sorted ordered s \<longleftrightarrow> hop_compare s = Tbf_cli_compare \<and> ordered (tbf_le s) (th_binheap s)"

text \<open>Updating a queued client and moving or removing its node.\<close>

lemma tbf_le_other: "x \<noteq> c \<Longrightarrow> y \<noteq> c \<Longrightarrow> tbf_le (set_cli c z s) x y = tbf_le s x y"
  by (simp add: tbf_le_def)

lemma reorder_update:
  assumes "binheap_ok L elems ordered" and "hop_safe s" and "elems (th_binheap s) \<subseteq> dom (th_clients s)"
    and "c \<in> elems (th_binheap s)" and "s1 = set_cli c (Some cli) s"
    and "heap_reorders (hop_fn L s1) ordered (elems (th_binheap s)) c (th_binheap s) h"
  shows "heap_sorted ordered s \<longrightarrow> heap_sorted ordered (s1\<lparr>th_binheap := h\<rparr>)"
proof
  assume "heap_sorted ordered s"
  then have hs: "hop_compare s1 = Tbf_cli_compare" "ordered (tbf_le s) (th_binheap s)"
    by (simp_all add: heap_sorted_def assms(5))
  have dec: "cmp_decides (elems (th_binheap s)) (hop_fn L s1) (tbf_le s1)"
    using assms(3,4) by (intro hop_fn_decides hs) (auto simp: assms(5))
  have "ordered (tbf_le s1) h"
    using heap_reordersD [where le = "tbf_le s" and le' = "tbf_le s1" and h = "th_binheap s", OF assms(6) dec hs(2)]
    by (simp add: tbf_le_other assms(5))
  moreover have "tbf_le (s1\<lparr>th_binheap := h\<rparr>) = tbf_le s1" by (intro ext) (simp add: tbf_le_def)
  ultimately show "heap_sorted ordered (s1\<lparr>th_binheap := h\<rparr>)" using hs(1) by (simp add: heap_sorted_def)
qed

lemma update_total:
  assumes "hop_safe s" and "S \<subseteq> dom (th_clients s)" and "s1 = set_cli c (Some cli) s"
  shows "cmp_total S (hop_fn L s1)"
  using assms by (intro hop_fn_total) (auto simp: hop_safe_def)

lemma update_relocate:
  assumes "binheap_ok L elems ordered" and "hop_safe s" and "elems (th_binheap s) \<subseteq> dom (th_clients s)"
    and "c \<in> elems (th_binheap s)" and "s1 = set_cli c (Some cli) s"
  obtains h where "relocate L c s1 = Ret (s1\<lparr>th_binheap := h\<rparr>)" "elems h = elems (th_binheap s)"
    "heap_sorted ordered s \<longrightarrow> heap_sorted ordered (s1\<lparr>th_binheap := h\<rparr>)"
proof -
  obtain h where h: "cfs_binheap_relocate L (hop_fn L s1) c (th_binheap s) = Ret h"
    "elems h = elems (th_binheap s)"
    "heap_reorders (hop_fn L s1) ordered (elems (th_binheap s)) c (th_binheap s) h"
    using binheap_relocateE [where elems = elems and h = "th_binheap s", OF assms(1) update_total [OF assms(2,3,5)] assms(4)] by blast
  with reorder_update [of L elems ordered s c s1 cli h, OF assms h(3)] that show ?thesis by (simp add: relocate_def assms(5))
qed

lemma update_remove:
  assumes "binheap_ok L elems ordered" and "hop_safe s" and "elems (th_binheap s) \<subseteq> dom (th_clients s)"
    and "c \<in> elems (th_binheap s)" and "s1 = set_cli c (Some cli) s"
  obtains h where "heap_remove L c s1 = Ret (s1\<lparr>th_binheap := h\<rparr>)" "elems h = elems (th_binheap s) - {c}"
    "heap_sorted ordered s \<longrightarrow> heap_sorted ordered (s1\<lparr>th_binheap := h\<rparr>)"
proof -
  obtain h where h: "cfs_binheap_remove L (hop_fn L s1) c (th_binheap s) = Ret h"
    "elems h = elems (th_binheap s) - {c}"
    "heap_reorders (hop_fn L s1) ordered (elems (th_binheap s)) c (th_binheap s) h"
    using binheap_removeE [where elems = elems and h = "th_binheap s", OF assms(1) update_total [OF assms(2,3,5)] assms(4)] by blast
  with reorder_update [of L elems ordered s c s1 cli h, OF assms h(3)] that show ?thesis by (simp add: heap_remove_def assms(5))
qed

end
