(* ===== verification/Tbf_Queue.thy ===== *)
theory Tbf_Queue
  imports Tbf_Sched
begin

text \<open>
  What the queues of the TBF policy hold. The invariant \<open>queue_ok\<close> ties the flag
  \<open>tc_in_heap\<close>, the heap and the request lists of the clients together; every scheduling
  operation keeps it, keeps the heap sorted, and moves exactly the requests it should. The
  policy is an instance of the NRS contract.
\<close>

section \<open>The queue invariant\<close>

definition client_queue_ok :: "nrs_tbf_client \<Rightarrow> bool" where
  "client_queue_ok cli \<longleftrightarrow> tc_in_heap cli = (tc_list cli \<noteq> []) \<and> distinct (tc_list cli) \<and>
     unat (tc_ntoken cli) \<le> unat (tc_depth cli) \<and> unat (tc_depth cli) < 2 ^ 63"

definition queue_ok :: "('h \<Rightarrow> nat set) \<Rightarrow> ('h, 't) nrs_tbf_head \<Rightarrow> bool" where
  "queue_ok elems s \<longleftrightarrow>
     finite (elems (th_binheap s)) \<and> elems (th_binheap s) \<subseteq> dom (th_clients s) \<and>
     (\<forall>c cli. th_clients s c = Some cli \<longrightarrow>
        client_queue_ok cli \<and> tc_in_heap cli = (c \<in> elems (th_binheap s)))"

lemma queue_okD:
  assumes "queue_ok elems s"
  shows "finite (elems (th_binheap s))" and "elems (th_binheap s) \<subseteq> dom (th_clients s)"
    and "th_clients s c = Some cli \<Longrightarrow> client_queue_ok cli"
    and "th_clients s c = Some cli \<Longrightarrow> tc_in_heap cli = (c \<in> elems (th_binheap s))"
  using assms by (auto simp: queue_ok_def)

text \<open>A client is replaced by one in good order, and the heap by one that has it or not.\<close>

lemma queue_ok_update:
  assumes "queue_ok elems s" and "th_clients s c \<noteq> None" and "client_queue_ok cli"
    and "th_clients s' = (th_clients s)(c := Some cli)"
    and "elems (th_binheap s') = (if tc_in_heap cli then insert c (elems (th_binheap s)) else elems (th_binheap s) - {c})"
  shows "queue_ok elems s'"
  using assms by (auto simp: queue_ok_def)

section \<open>Pending requests\<close>

definition queued_at :: "('h, 't) nrs_tbf_head \<Rightarrow> nat \<Rightarrow> (nat \<times> nat) multiset" where
  "queued_at s c = (case th_clients s c of None \<Rightarrow> {#} | Some cli \<Rightarrow> image_mset (Pair c) (mset (tc_list cli)))"

definition tbf_pending :: "('h \<Rightarrow> nat set) \<Rightarrow> ('h, 't) nrs_tbf_head \<Rightarrow> (nat \<times> nat) multiset" where
  "tbf_pending elems s = (\<Sum>c \<in> elems (th_binheap s). queued_at s c)"

lemma pending_split:
  assumes "queue_ok elems s" and "th_clients s c = Some cli"
  shows "tbf_pending elems s = queued_at s c + (\<Sum>x \<in> elems (th_binheap s) - {c}. queued_at s x)"
proof (cases "c \<in> elems (th_binheap s)")
  case True
  then show ?thesis using queue_okD(1) [OF assms(1)] by (simp add: tbf_pending_def sum.remove)
next
  case False
  then have "tc_list cli = []" using queue_okD(3,4) [OF assms] by (simp add: client_queue_ok_def)
  with False assms(2) show ?thesis by (simp add: tbf_pending_def queued_at_def)
qed

lemma pending_update:
  assumes "queue_ok elems s" "queue_ok elems s'" and "th_clients s c = Some cli"
    and "th_clients s' = (th_clients s)(c := Some cli')"
    and "elems (th_binheap s') - {c} = elems (th_binheap s) - {c}"
  shows "tbf_pending elems s + image_mset (Pair c) (mset (tc_list cli')) =
    tbf_pending elems s' + image_mset (Pair c) (mset (tc_list cli))"
proof -
  have "(\<Sum>x \<in> elems (th_binheap s) - {c}. queued_at s' x) = (\<Sum>x \<in> elems (th_binheap s) - {c}. queued_at s x)"
    by (rule sum.cong) (auto simp: queued_at_def assms(4))
  then show ?thesis
    using pending_split [OF assms(1,3)] pending_split [OF assms(2), of c cli'] assms(3-5)
    by (simp add: queued_at_def)
qed

lemma pending_mem:
  assumes "queue_ok elems s"
  shows "(c, q) \<in># tbf_pending elems s \<longleftrightarrow> (\<exists>cli. th_clients s c = Some cli \<and> q \<in> set (tc_list cli))"
proof -
  have "(c, q) \<in># tbf_pending elems s \<longleftrightarrow> (\<exists>x \<in> elems (th_binheap s). (c, q) \<in># queued_at s x)"
    using queue_okD(1) [OF assms] by (simp add: tbf_pending_def set_mset_sum)
  also have "\<dots> \<longleftrightarrow> c \<in> elems (th_binheap s) \<and> (c, q) \<in># queued_at s c"
    by (auto simp: queued_at_def split: option.splits)
  also have "\<dots> \<longleftrightarrow> (\<exists>cli. th_clients s c = Some cli \<and> q \<in> set (tc_list cli))"
  proof -
    have "c \<in> elems (th_binheap s)" if "th_clients s c = Some cli" "q \<in> set (tc_list cli)" for cli
      using queue_okD(3,4) [OF assms that(1)] that(2) by (auto simp: client_queue_ok_def)
    then show ?thesis by (auto simp: queued_at_def split: option.splits)
  qed
  finally show ?thesis .
qed

section \<open>Adding a request\<close>

lemma heap_sorted_cong:
  assumes "heap_sorted ordered s" and "binheap_ok L elems ordered"
    and "hop_compare s' = hop_compare s" "th_binheap s' = th_binheap s"
    and "\<And>x y. x \<in> elems (th_binheap s) \<Longrightarrow> y \<in> elems (th_binheap s) \<Longrightarrow> tbf_le s' x y = tbf_le s x y"
  shows "heap_sorted ordered s'"
  using assms(1,3,4,5) binheap_ordered_cong [OF assms(2), where le = "tbf_le s" and le' = "tbf_le s'"]
  by (simp add: heap_sorted_def)

text \<open>Changes that do not concern the order: the queue and the flag of a client.\<close>

lemma tbf_le_requeue:
  assumes "th_clients s c = Some cli" and "th_clients s' = (th_clients s)(c := Some cli')"
    and "deadline_of cli' = deadline_of cli" "tc_check_time cli' = tc_check_time cli"
  shows "tbf_le s' = tbf_le s"
  using assms by (intro ext) (auto simp: tbf_le_def cli_le_def)

definition added :: "nat \<Rightarrow> nrs_tbf_client \<Rightarrow> nrs_tbf_client" where
  "added q cli = cli\<lparr>tc_in_heap := True, tc_list := tc_list cli @ [q]\<rparr>"

lemma added_simps [simp]:
  "tc_list (added q cli) = tc_list cli @ [q]" "tc_in_heap (added q cli)" "deadline_of (added q cli) = deadline_of cli"
  "tc_check_time (added q cli) = tc_check_time cli"
  by (simp_all add: added_def deadline_of_def)

lemma client_queue_ok_added: "client_queue_ok cli \<Longrightarrow> q \<notin> set (tc_list cli) \<Longrightarrow> client_queue_ok (added q cli)"
  by (auto simp: client_queue_ok_def added_def)

lemma req_add_cases:
  assumes "binheap_ok L elems ordered" and "queue_ok elems s" and "hop_safe s" and "th_clients s c = Some cli"
  shows "\<exists>rc s'. nrs_tbf_req_add L cancelled c q s = Ret (rc, s') \<and>
    hop_compare s' = hop_compare s \<and> tbf_tw_interval s' = tbf_tw_interval s \<and>
    nrs_throttling s' = nrs_throttling s \<and>
    (if rc = 0 then th_clients s' = (th_clients s)(c := Some (added q cli)) \<and>
        elems (th_binheap s') = insert c (elems (th_binheap s))
     else th_clients s' = th_clients s \<and> elems (th_binheap s') = elems (th_binheap s)) \<and>
    (heap_sorted ordered s \<longrightarrow> heap_sorted ordered s')"
proof (cases "tc_list cli = []")
  case True
  then have nh: "\<not> tc_in_heap cli" "c \<notin> elems (th_binheap s)"
    using queue_okD(3,4) [OF assms(2,4)] by (auto simp: client_queue_ok_def)
  have sub: "insert c (elems (th_binheap s)) \<subseteq> dom (th_clients s)" using queue_okD(2) [OF assms(2)] assms(4) by auto
  obtain rc h where h: "cfs_binheap_insert L (hop_fn L s) c (th_binheap s) = Ret (rc, h)"
    "elems h = (if rc = 0 then insert c (elems (th_binheap s)) else elems (th_binheap s))"
    "\<And>le. cmp_decides (insert c (elems (th_binheap s))) (hop_fn L s) le \<Longrightarrow> ordered le (th_binheap s) \<Longrightarrow> ordered le h"
    using binheap_insertE [where elems = elems and h = "th_binheap s", OF assms(1) hop_fn_total [OF assms(3) sub] nh(2)]
    by metis
  have srt: "ordered (tbf_le s) h" if "heap_sorted ordered s"
    using h(3) hop_fn_decides [OF _ sub] that by (simp add: heap_sorted_def)
  have le: "tbf_le t = tbf_le s" if "th_clients t = (th_clients s)(c := Some (added q cli))" for t :: "('a, 'b) nrs_tbf_head"
    using tbf_le_requeue [OF assms(4) that] by simp
  have le': "tbf_le (s\<lparr>th_binheap := h\<rparr>) = tbf_le s" by (intro ext) (simp add: tbf_le_def)
  show ?thesis
  proof (cases "rc = 0")
    case rc: True
    have ad: "cli\<lparr>tc_in_heap := True, tc_list := [q]\<rparr> = added q cli" using True by (simp add: added_def)
    show ?thesis
      using True nh h(1,2) rc srt assms(4) by (auto simp: nrs_tbf_req_add_def ad Let_def heap_sorted_def le)
  next
    case False
    then show ?thesis
      using True nh h(1,2) srt assms(4) by (auto simp: nrs_tbf_req_add_def heap_sorted_def le')
  qed
next
  case False
  then have ih: "tc_in_heap cli" "c \<in> elems (th_binheap s)"
    using queue_okD(3,4) [OF assms(2,4)] by (auto simp: client_queue_ok_def)
  let ?s = "(set_cli c (Some (added q cli)) s)
    \<lparr>tr_sequence := (tr_sequence s)(q := th_sequence s), th_sequence := th_sequence s + 1\<rparr>"
  have "cli\<lparr>tc_list := tc_list cli @ [q]\<rparr> = added q cli" using ih(1) by (simp add: added_def)
  then have "nrs_tbf_req_add L cancelled c q s = Ret (0, ?s)"
    using False ih assms(4) by (simp add: nrs_tbf_req_add_def)
  moreover have "tbf_le ?s = tbf_le s" using tbf_le_requeue [OF assms(4), of ?s "added q cli"] by simp
  ultimately show ?thesis using ih(2) by (auto simp: heap_sorted_def)
qed

lemma req_add_ok:
  assumes "binheap_ok L elems ordered" and "queue_ok elems s" and "hop_safe s"
    and "th_clients s c = Some cli" and "q \<notin> set (tc_list cli)"
  shows "\<exists>rc s'. nrs_tbf_req_add L cancelled c q s = Ret (rc, s') \<and> queue_ok elems s' \<and> hop_safe s' \<and>
    (heap_sorted ordered s \<longrightarrow> heap_sorted ordered s') \<and>
    th_clients s' = (if rc = 0 then (th_clients s)(c := Some (added q cli)) else th_clients s) \<and>
    tbf_pending elems s' = (if rc = 0 then add_mset (c, q) (tbf_pending elems s) else tbf_pending elems s)"
proof -
  obtain rc s' where r: "nrs_tbf_req_add L cancelled c q s = Ret (rc, s')"
    "hop_compare s' = hop_compare s" "tbf_tw_interval s' = tbf_tw_interval s"
    "if rc = 0 then th_clients s' = (th_clients s)(c := Some (added q cli)) \<and>
        elems (th_binheap s') = insert c (elems (th_binheap s))
     else th_clients s' = th_clients s \<and> elems (th_binheap s') = elems (th_binheap s)"
    "heap_sorted ordered s \<longrightarrow> heap_sorted ordered s'"
    using req_add_cases [OF assms(1-4)] by metis
  have safe: "hop_safe s'" using assms(3) r(2,3) by (simp add: hop_safe_def)
  show ?thesis
  proof (cases "rc = 0")
    case True
    with r have cl: "th_clients s' = (th_clients s)(c := Some (added q cli))"
      "elems (th_binheap s') = insert c (elems (th_binheap s))" by simp_all
    have q: "queue_ok elems s'"
      using queue_ok_update [OF assms(2) _ _ cl(1)] assms(4,5) cl(2)
        client_queue_ok_added queue_okD(3) [OF assms(2,4)] by simp
    have "tbf_pending elems s' = add_mset (c, q) (tbf_pending elems s)"
      using pending_update [OF assms(2) q assms(4) cl(1)] cl(2) by auto
    with True r(1,5) q safe cl(1) show ?thesis by auto
  next
    case False
    with r have "th_clients s' = th_clients s" "elems (th_binheap s') = elems (th_binheap s)" by simp_all
    moreover from this have "queue_ok elems s'" "tbf_pending elems s' = tbf_pending elems s"
      using assms(2) by (simp_all add: queue_ok_def tbf_pending_def queued_at_def)
    ultimately show ?thesis using False r(1,5) safe by auto
  qed
qed

section \<open>Removing a request\<close>

lemma req_del_ok:
  assumes "binheap_ok L elems ordered" and "queue_ok elems s" and "hop_safe s"
    and "th_clients s c = Some cli" and "q \<in> set (tc_list cli)"
  shows "\<exists>s' cli'. nrs_tbf_req_del L c q s = Ret s' \<and> queue_ok elems s' \<and> hop_safe s' \<and>
    (heap_sorted ordered s \<longrightarrow> heap_sorted ordered s') \<and>
    th_clients s' = (th_clients s)(c := Some cli') \<and> tc_list cli' = remove1 q (tc_list cli) \<and>
    tc_ntoken cli' = tc_ntoken cli \<and> tc_check_time cli' = tc_check_time cli \<and>
    tc_depth cli' = tc_depth cli \<and> tc_rpc_rate cli' = tc_rpc_rate cli \<and> tc_nsecs cli' = tc_nsecs cli \<and>
    tbf_pending elems s = add_mset (c, q) (tbf_pending elems s')"
proof -
  have qo: "client_queue_ok cli" "c \<in> elems (th_binheap s)" "tc_in_heap cli"
    using queue_okD(3,4) [OF assms(2,4)] assms(5) by (auto simp: client_queue_ok_def)
  then have d: "distinct (tc_list cli)" by (simp add: client_queue_ok_def)
  define cli1 where "cli1 = cli\<lparr>tc_list := removeAll q (tc_list cli)\<rparr>"
  have l1: "tc_list cli1 = remove1 q (tc_list cli)" "removeAll q (tc_list cli) = remove1 q (tc_list cli)"
    using d by (simp_all add: cli1_def distinct_remove1_removeAll)
  note sub = queue_okD(2) [OF assms(2)]
  have fin: "\<exists>s' cli'. nrs_tbf_req_del L c q s = Ret s' \<and>
      hop_compare s' = hop_compare s \<and> tbf_tw_interval s' = tbf_tw_interval s \<and>
      (heap_sorted ordered s \<longrightarrow> heap_sorted ordered s') \<and>
      th_clients s' = (th_clients s)(c := Some cli') \<and> tc_list cli' = remove1 q (tc_list cli) \<and>
      tc_ntoken cli' = tc_ntoken cli \<and> tc_depth cli' = tc_depth cli \<and> tc_check_time cli' = tc_check_time cli \<and>
      tc_rpc_rate cli' = tc_rpc_rate cli \<and> tc_nsecs cli' = tc_nsecs cli \<and>
      tc_in_heap cli' = (tc_list cli' \<noteq> []) \<and>
      elems (th_binheap s') = (if tc_in_heap cli' then elems (th_binheap s) else elems (th_binheap s) - {c})"
  proof (cases "tc_list cli1 = []")
    case True
    obtain h where h: "heap_remove L c (set_cli c (Some cli1) s) = Ret ((set_cli c (Some cli1) s)\<lparr>th_binheap := h\<rparr>)"
      "elems h = elems (th_binheap s) - {c}"
      "heap_sorted ordered s \<longrightarrow> heap_sorted ordered ((set_cli c (Some cli1) s)\<lparr>th_binheap := h\<rparr>)"
      using update_remove [where elems = elems, OF assms(1,3) sub qo(2) refl, of cli1] by metis
    let ?s = "set_cli c (Some (cli1\<lparr>tc_in_heap := False\<rparr>)) ((set_cli c (Some cli1) s)\<lparr>th_binheap := h\<rparr>)"
    have "nrs_tbf_req_del L c q s = Ret ?s"
      using True assms(4,5) h(1) by (simp add: nrs_tbf_req_del_def cli1_def Let_def)
    moreover have "tbf_le ?s = tbf_le ((set_cli c (Some cli1) s)\<lparr>th_binheap := h\<rparr>)"
      using tbf_le_requeue [of "(set_cli c (Some cli1) s)\<lparr>th_binheap := h\<rparr>" c cli1 ?s "cli1\<lparr>tc_in_heap := False\<rparr>"]
      by (simp add: deadline_of_def)
    ultimately show ?thesis using h True l1 by (auto simp: heap_sorted_def cli1_def)
  next
    case False
    obtain h where h: "relocate L c (set_cli c (Some cli1) s) = Ret ((set_cli c (Some cli1) s)\<lparr>th_binheap := h\<rparr>)"
      "elems h = elems (th_binheap s)"
      "heap_sorted ordered s \<longrightarrow> heap_sorted ordered ((set_cli c (Some cli1) s)\<lparr>th_binheap := h\<rparr>)"
      using update_relocate [where elems = elems, OF assms(1,3) sub qo(2) refl, of cli1] by metis
    have "nrs_tbf_req_del L c q s = Ret ((set_cli c (Some cli1) s)\<lparr>th_binheap := h\<rparr>)"
      using False assms(4,5) h(1) by (simp add: nrs_tbf_req_del_def cli1_def Let_def)
    with h False l1 qo(3) show ?thesis by (auto simp: cli1_def)
  qed
  then obtain s' cli' where r: "nrs_tbf_req_del L c q s = Ret s'"
    "hop_compare s' = hop_compare s" "tbf_tw_interval s' = tbf_tw_interval s"
    "heap_sorted ordered s \<longrightarrow> heap_sorted ordered s'"
    "th_clients s' = (th_clients s)(c := Some cli')" "tc_list cli' = remove1 q (tc_list cli)"
    "tc_ntoken cli' = tc_ntoken cli" "tc_depth cli' = tc_depth cli" "tc_check_time cli' = tc_check_time cli"
    "tc_in_heap cli' = (tc_list cli' \<noteq> [])"
    "elems (th_binheap s') = (if tc_in_heap cli' then elems (th_binheap s) else elems (th_binheap s) - {c})"
    "tc_rpc_rate cli' = tc_rpc_rate cli" "tc_nsecs cli' = tc_nsecs cli"
    by blast
  have "client_queue_ok cli'" using qo(1) r(6-10) by (simp add: client_queue_ok_def)
  then have q': "queue_ok elems s'"
    using queue_ok_update [OF assms(2) _ _ r(5)] assms(4) r(11) qo(2) by (simp add: insert_absorb)
  have "mset (tc_list cli) = add_mset q (mset (tc_list cli'))" using assms(5) r(6) by simp
  then have "tbf_pending elems s = add_mset (c, q) (tbf_pending elems s')"
    using pending_update [OF assms(2) q' assms(4) r(5)] r(11) by (auto split: if_splits)
  with r q' assms(3) show ?thesis by (auto simp: hop_safe_def)
qed

section \<open>Handing out a request\<close>

definition served :: "u64 \<Rightarrow> nrs_tbf_client \<Rightarrow> nrs_tbf_client" where
  "served now cli = cli\<lparr>tc_ntoken := tokens_at now cli - 1, tc_check_time := now, tc_list := tl (tc_list cli),
     tc_in_heap := tl (tc_list cli) \<noteq> []\<rparr>"

lemma served_simps [simp]:
  "tc_ntoken (served now cli) = tokens_at now cli - 1" "tc_check_time (served now cli) = now"
  "tc_list (served now cli) = tl (tc_list cli)" "tc_in_heap (served now cli) = (tl (tc_list cli) \<noteq> [])"
  "tc_depth (served now cli) = tc_depth cli" "tc_rpc_rate (served now cli) = tc_rpc_rate cli"
  "tc_nsecs (served now cli) = tc_nsecs cli"
  by (simp_all add: served_def)

lemma tokens_at_le_depth: "tokens_at now cli \<le> tc_depth cli"
  by (simp add: tokens_at_def Let_def linorder_not_less)

lemma client_queue_ok_served:
  assumes "client_queue_ok cli" and "tokens_at now cli \<noteq> 0"
  shows "client_queue_ok (served now cli)"
proof -
  have "unat (tokens_at now cli - 1) \<le> unat (tokens_at now cli)"
    using assms(2) by (simp add: unat_minus_one)
  also have "\<dots> \<le> unat (tc_depth cli)" using tokens_at_le_depth [of now cli] by (simp add: unat_mono_u64)
  finally show ?thesis using assms(1) by (simp add: client_queue_ok_def distinct_tl)
qed

text \<open>What an unthrottled, non-peeking \<open>req_get\<close> does with the client at the root.\<close>

lemma req_get_serve:
  assumes "binheap_ok L elems ordered" and "queue_ok elems s" and "hop_safe s" and "\<not> nrs_throttling s"
    and "cfs_binheap_root L (th_binheap s) = Some c" and "th_clients s c = Some cli"
    and "tc_check_time cli \<le> now" and "0 < sint (tokens_at now cli)"
  shows "\<exists>s'. nrs_tbf_req_get L now False s = Ret (Some (hd (tc_list cli)), s') \<and>
    hop_compare s' = hop_compare s \<and> tbf_tw_interval s' = tbf_tw_interval s \<and> \<not> nrs_throttling s' \<and>
    th_clients s' = (th_clients s)(c := Some (served now cli)) \<and>
    elems (th_binheap s') = (if tl (tc_list cli) = [] then elems (th_binheap s) - {c} else elems (th_binheap s)) \<and>
    (heap_sorted ordered s \<longrightarrow> heap_sorted ordered s')"
proof -
  have ce: "c \<in> elems (th_binheap s)" using binheap_root_elem [OF assms(1,5)] .
  then have qo: "tc_in_heap cli" "tc_list cli \<noteq> []"
    using queue_okD(3,4) [OF assms(2,6)] by (auto simp: client_queue_ok_def)
  then obtain nrq rest where l: "tc_list cli = nrq # rest" by (cases "tc_list cli") auto
  define cli1 where "cli1 = cli\<lparr>tc_ntoken := tokens_at now cli - 1, tc_check_time := now, tc_list := rest\<rparr>"
  note sub = queue_okD(2) [OF assms(2)]
  show ?thesis
  proof (cases "rest = []")
    case True
    obtain h where h: "heap_remove L c (set_cli c (Some cli1) s) = Ret ((set_cli c (Some cli1) s)\<lparr>th_binheap := h\<rparr>)"
      "elems h = elems (th_binheap s) - {c}"
      "heap_sorted ordered s \<longrightarrow> heap_sorted ordered ((set_cli c (Some cli1) s)\<lparr>th_binheap := h\<rparr>)"
      using update_remove [where elems = elems, OF assms(1,3) sub ce refl, of cli1] by metis
    let ?s = "set_cli c (Some (served now cli)) ((set_cli c (Some cli1) s)\<lparr>th_binheap := h\<rparr>)"
    have "nrs_tbf_req_get L now False s = Ret (Some nrq, ?s)"
      using True assms(4-8) h(1) qo l by (simp add: nrs_tbf_req_get_def cli1_def served_def Let_def)
    moreover have "tbf_le ?s = tbf_le ((set_cli c (Some cli1) s)\<lparr>th_binheap := h\<rparr>)"
      using tbf_le_requeue [of "(set_cli c (Some cli1) s)\<lparr>th_binheap := h\<rparr>" c cli1 ?s "served now cli"]
      by (simp add: deadline_of_def cli1_def)
    ultimately show ?thesis using h True l assms(4) by (auto simp: heap_sorted_def)
  next
    case False
    obtain h where h: "relocate L c (set_cli c (Some cli1) s) = Ret ((set_cli c (Some cli1) s)\<lparr>th_binheap := h\<rparr>)"
      "elems h = elems (th_binheap s)"
      "heap_sorted ordered s \<longrightarrow> heap_sorted ordered ((set_cli c (Some cli1) s)\<lparr>th_binheap := h\<rparr>)"
      using update_relocate [where elems = elems, OF assms(1,3) sub ce refl, of cli1] by metis
    have "cli1 = served now cli" using False l qo(1) by (simp add: cli1_def served_def)
    moreover have "nrs_tbf_req_get L now False s = Ret (Some nrq, (set_cli c (Some cli1) s)\<lparr>th_binheap := h\<rparr>)"
      using False assms(4-8) h(1) qo l by (simp add: nrs_tbf_req_get_def cli1_def Let_def)
    ultimately show ?thesis using h False l assms(4) by auto
  qed
qed

text \<open>The clock never shows a time before the last check of a client.\<close>

definition clock_ok :: "u64 \<Rightarrow> ('h, 't) nrs_tbf_head \<Rightarrow> bool" where
  "clock_ok now s \<longleftrightarrow> (\<forall>c cli. th_clients s c = Some cli \<longrightarrow> tc_check_time cli \<le> now)"

lemma sint_pos_nonzero: "0 < sint (x :: u64) \<Longrightarrow> x \<noteq> 0"
  by auto

text \<open>The effect of a poll: nothing, or one request of the client at the root.\<close>

definition get_effect ::
  "('h, 't) libcfs \<Rightarrow> ('h \<Rightarrow> nat set) \<Rightarrow> u64 \<Rightarrow> ('h, 't) nrs_tbf_head \<Rightarrow> nat option \<Rightarrow> ('h, 't) nrs_tbf_head \<Rightarrow> bool" where
  "get_effect L elems now s x s' \<longleftrightarrow>
    (case x of
       None \<Rightarrow> th_clients s' = th_clients s \<and> tbf_pending elems s' = tbf_pending elems s
     | Some q \<Rightarrow> \<exists>c cli. cfs_binheap_root L (th_binheap s) = Some c \<and> th_clients s c = Some cli \<and>
         tc_list cli \<noteq> [] \<and> q = hd (tc_list cli) \<and> 0 < sint (tokens_at now cli) \<and>
         th_clients s' = (th_clients s)(c := Some (served now cli)) \<and>
         tbf_pending elems s = add_mset (c, q) (tbf_pending elems s'))"

lemma req_get_ok:
  assumes "binheap_ok L elems ordered" and "queue_ok elems s" and "hop_safe s" and "clock_ok now s"
  shows "\<exists>x s'. nrs_tbf_req_get L now False s = Ret (x, s') \<and> queue_ok elems s' \<and> hop_safe s' \<and>
    clock_ok now s' \<and> (heap_sorted ordered s \<longrightarrow> heap_sorted ordered s') \<and>
    get_effect L elems now s x s'"
proof (cases "nrs_throttling s \<or> cfs_binheap_root L (th_binheap s) = None")
  case True
  with assms show ?thesis by (auto simp: nrs_tbf_req_get_def get_effect_def)
next
  case False
  then obtain c where root: "cfs_binheap_root L (th_binheap s) = Some c" and nt: "\<not> nrs_throttling s" by blast
  then have ce: "c \<in> elems (th_binheap s)" using binheap_root_elem [OF assms(1)] by blast
  then obtain cli where cli: "th_clients s c = Some cli" using queue_okD(2) [OF assms(2)] by blast
  have qo: "client_queue_ok cli" "tc_in_heap cli" "tc_list cli \<noteq> []"
    using queue_okD(3,4) [OF assms(2) cli] ce by (auto simp: client_queue_ok_def)
  have ck: "tc_check_time cli \<le> now" using assms(4) cli by (simp add: clock_ok_def)
  show ?thesis
  proof (cases "0 < sint (tokens_at now cli)")
    case tk: True
    obtain s' where r: "nrs_tbf_req_get L now False s = Ret (Some (hd (tc_list cli)), s')"
      "hop_compare s' = hop_compare s" "tbf_tw_interval s' = tbf_tw_interval s"
      "th_clients s' = (th_clients s)(c := Some (served now cli))"
      "elems (th_binheap s') = (if tl (tc_list cli) = [] then elems (th_binheap s) - {c} else elems (th_binheap s))"
      "heap_sorted ordered s \<longrightarrow> heap_sorted ordered s'"
      using req_get_serve [OF assms(1-3) nt root cli ck tk] by metis
    have "client_queue_ok (served now cli)"
      using client_queue_ok_served [OF qo(1) sint_pos_nonzero [OF tk]] .
    then have q': "queue_ok elems s'"
      using queue_ok_update [OF assms(2) _ _ r(4)] cli r(5) ce by (simp add: insert_absorb)
    have "mset (tc_list cli) = add_mset (hd (tc_list cli)) (mset (tl (tc_list cli)))"
      using qo(3) by (metis list.collapse mset.simps(2))
    then have "tbf_pending elems s = add_mset (c, hd (tc_list cli)) (tbf_pending elems s')"
      using pending_update [OF assms(2) q' cli r(4)] r(5) by (auto split: if_splits)
    moreover have "hop_safe s'" using assms(3) r(2,3) by (simp add: hop_safe_def)
    moreover have "clock_ok now s'" using assms(4) r(4) by (auto simp: clock_ok_def)
    ultimately show ?thesis using r(1,4,6) q' qo(3) root cli tk by (auto simp: get_effect_def)
  next
    case nk: False
    let ?s = "s\<lparr>nrs_throttling := True, th_deadline := deadline_of cli, th_timer := Some (deadline_of cli)\<rparr>"
    have "nrs_tbf_req_get L now False s = Ret (None, ?s)"
      using nt root cli qo ck nk by (simp add: nrs_tbf_req_get_def)
    moreover have "tbf_le ?s = tbf_le s" by (intro ext) (simp add: tbf_le_def)
    ultimately show ?thesis using assms(2-4)
      by (auto simp: get_effect_def queue_ok_def hop_safe_def clock_ok_def heap_sorted_def tbf_pending_def queued_at_def)
  qed
qed

section \<open>The policy as the NRS core polls it\<close>

text \<open>
  Between two polls the timer may fire: its callback has run by the time the clock shows the
  deadline it was armed for. \<open>tbf_poll\<close> is one poll at a clock reading; the state of a polled
  policy carries the readings to come.
\<close>

definition tbf_poll ::
  "('h, 't) libcfs \<Rightarrow> u64 \<Rightarrow> ('h, 't) nrs_tbf_head \<Rightarrow> (nat option \<times> ('h, 't) nrs_tbf_head) outcome" where
  "tbf_poll L now s =
     nrs_tbf_req_get L now False
       (case th_timer s of None \<Rightarrow> s | Some d \<Rightarrow> if d \<le> now then nrs_tbf_timer_cb s else s)"

type_synonym ('h, 't) polled = "('h, 't) nrs_tbf_head \<times> u64 list"

definition polled_inv ::
  "('h, 't) libcfs \<Rightarrow> ('h \<Rightarrow> nat set) \<Rightarrow> ((nat \<Rightarrow> nat \<Rightarrow> bool) \<Rightarrow> 'h \<Rightarrow> bool) \<Rightarrow> ('h, 't) polled \<Rightarrow> bool" where
  "polled_inv L elems ordered p \<longleftrightarrow> binheap_ok L elems ordered \<and> queue_ok elems (fst p) \<and> hop_safe (fst p) \<and>
     sorted (snd p) \<and> (\<forall>t \<in> set (snd p). clock_ok t (fst p))"

definition polled_pending :: "('h \<Rightarrow> nat set) \<Rightarrow> ('h, 't) polled \<Rightarrow> (nat \<times> nat) multiset" where
  "polled_pending elems p = tbf_pending elems (fst p)"

text \<open>The core enqueues a request once, with the resource it got for it.\<close>

definition polled_accepts :: "nat \<times> nat \<Rightarrow> ('h, 't) polled \<Rightarrow> bool" where
  "polled_accepts cq p \<longleftrightarrow> (\<exists>cli. th_clients (fst p) (fst cq) = Some cli \<and> snd cq \<notin> set (tc_list cli))"

definition polled_add ::
  "('h, 't) libcfs \<Rightarrow> bool \<Rightarrow> nat \<times> nat \<Rightarrow> ('h, 't) polled \<Rightarrow> (int \<times> ('h, 't) polled) outcome" where
  "polled_add L cancelled cq p =
     bindO (nrs_tbf_req_add L cancelled (fst cq) (snd cq) (fst p)) (\<lambda>(rc, s). Ret (rc, (s, snd p)))"

definition polled_get ::
  "('h, 't) libcfs \<Rightarrow> ('h, 't) polled \<Rightarrow> ((nat \<times> nat) option \<times> ('h, 't) polled) outcome" where
  "polled_get L p =
     (case snd p of
        [] \<Rightarrow> Ret (None, p)
      | now # ts \<Rightarrow>
          bindO (tbf_poll L now (fst p)) (\<lambda>(x, s).
            Ret (case x of None \<Rightarrow> None
                 | Some q \<Rightarrow> (case cfs_binheap_root L (th_binheap (fst p)) of None \<Rightarrow> None | Some c \<Rightarrow> Some (c, q)),
                 (s, ts))))"

definition polled_del ::
  "('h, 't) libcfs \<Rightarrow> nat \<times> nat \<Rightarrow> ('h, 't) polled \<Rightarrow> ('h, 't) polled outcome" where
  "polled_del L cq p = bindO (nrs_tbf_req_del L (fst cq) (snd cq) (fst p)) (\<lambda>s. Ret (s, snd p))"

definition woken :: "u64 \<Rightarrow> ('h, 't) nrs_tbf_head \<Rightarrow> ('h, 't) nrs_tbf_head" where
  "woken now s = (case th_timer s of None \<Rightarrow> s | Some d \<Rightarrow> if d \<le> now then nrs_tbf_timer_cb s else s)"

lemma woken_frame [simp]:
  "th_clients (woken now s) = th_clients s" "th_binheap (woken now s) = th_binheap s"
  "hop_compare (woken now s) = hop_compare s" "tbf_tw_interval (woken now s) = tbf_tw_interval s"
  "queue_ok elems (woken now s) = queue_ok elems s" "hop_safe (woken now s) = hop_safe s"
  "clock_ok t (woken now s) = clock_ok t s" "tbf_pending elems (woken now s) = tbf_pending elems s"
  "tbf_le (woken now s) = tbf_le s"
  by (auto simp: woken_def nrs_tbf_timer_cb_def queue_ok_def hop_safe_def clock_ok_def tbf_pending_def
      queued_at_def tbf_le_def fun_eq_iff split: option.splits)

lemma woken_sorted [simp]: "heap_sorted ordered (woken now s) = heap_sorted ordered s"
  by (simp add: heap_sorted_def)

lemma woken_effect [simp]: "get_effect L elems now (woken t s) x s' = get_effect L elems now s x s'"
  by (simp add: get_effect_def cong: option.case_cong)

lemma tbf_poll_woken: "tbf_poll L now s = nrs_tbf_req_get L now False (woken now s)"
  by (simp add: tbf_poll_def woken_def)

lemma clock_ok_mono: "clock_ok now s \<Longrightarrow> now \<le> t \<Longrightarrow> clock_ok t s"
  by (force simp: clock_ok_def)

interpretation tbf: nrs_policy "polled_inv L elems ordered" "polled_pending elems" polled_accepts
  "polled_add L cancelled" "polled_get L" "polled_del L"
  for L :: "('h, 't) libcfs" and elems ordered cancelled
proof
  fix p :: "('h, 't) polled" and r :: "nat \<times> nat"
  assume inv: "polled_inv L elems ordered p"
  obtain s ts where p: "p = (s, ts)" by (cases p)
  obtain c q where r: "r = (c, q)" by (cases r)
  from inv p have i: "binheap_ok L elems ordered" "queue_ok elems s" "hop_safe s" "sorted ts"
    "\<forall>t \<in> set ts. clock_ok t s" by (simp_all add: polled_inv_def)
  { assume "polled_accepts r p"
    then obtain cli where c: "th_clients s c = Some cli" "q \<notin> set (tc_list cli)"
      by (auto simp: polled_accepts_def p r)
    obtain rc s' where a: "nrs_tbf_req_add L cancelled c q s = Ret (rc, s')" "queue_ok elems s'" "hop_safe s'"
      "th_clients s' = (if rc = 0 then (th_clients s)(c := Some (added q cli)) else th_clients s)"
      "tbf_pending elems s' = (if rc = 0 then add_mset (c, q) (tbf_pending elems s) else tbf_pending elems s)"
      using req_add_ok [OF i(1-3) c, of cancelled] by metis
    have "\<forall>t \<in> set ts. clock_ok t s'" using i(5) a(4) c(1) by (auto simp: clock_ok_def split: if_splits)
    with a i show "\<exists>rc s'. polled_add L cancelled r p = Ret (rc, s') \<and> polled_inv L elems ordered s' \<and>
        polled_pending elems s' = (if rc = 0 then add_mset r (polled_pending elems p) else polled_pending elems p)"
      by (simp add: polled_add_def polled_inv_def polled_pending_def p r) }
  { show "\<exists>x s'. polled_get L p = Ret (x, s') \<and> polled_inv L elems ordered s' \<and>
        (case x of None \<Rightarrow> polled_pending elems s' = polled_pending elems p
         | Some r \<Rightarrow> polled_pending elems p = add_mset r (polled_pending elems s'))"
    proof (cases ts)
      case Nil
      with inv show ?thesis by (simp add: polled_get_def p)
    next
      case (Cons now ts')
      have ck: "clock_ok now s" using i(5) Cons by simp
      obtain x s' where g: "nrs_tbf_req_get L now False (woken now s) = Ret (x, s')"
        "queue_ok elems s'" "hop_safe s'" "clock_ok now s'"
        "get_effect L elems now s x s'"
        using req_get_ok [of L elems ordered "woken now s" now] i(1-3) ck by (metis woken_frame(5-7) woken_effect)
      have "\<forall>t \<in> set ts'. clock_ok t s'" using i(4) Cons g(4) clock_ok_mono by auto
      with g i Cons show ?thesis
        by (auto simp: polled_get_def p tbf_poll_woken polled_inv_def polled_pending_def get_effect_def split: option.splits)
    qed }
  { assume "r \<in># polled_pending elems p"
    then obtain cli where c: "th_clients s c = Some cli" "q \<in> set (tc_list cli)"
      using pending_mem [OF i(2)] by (auto simp: polled_pending_def p r)
    obtain s' cli' where d: "nrs_tbf_req_del L c q s = Ret s'" "queue_ok elems s'" "hop_safe s'"
      "th_clients s' = (th_clients s)(c := Some cli')" "tc_check_time cli' = tc_check_time cli"
      "tbf_pending elems s = add_mset (c, q) (tbf_pending elems s')"
      using req_del_ok [OF i(1-3) c] by metis
    have "\<forall>t \<in> set ts. clock_ok t s'" using i(5) d(4,5) c(1) by (auto simp: clock_ok_def)
    with d i show "\<exists>s'. polled_del L r p = Ret s' \<and> polled_inv L elems ordered s' \<and>
        polled_pending elems p = add_mset r (polled_pending elems s')"
      by (simp add: polled_del_def polled_inv_def polled_pending_def p r) }
qed

end
