(* ===== verification/Tbf_Service.thy ===== *)
theory Tbf_Service
  imports Tbf_Queue
begin

text \<open>
  What the clients of the TBF policy get: the rate limit, the order of service, and the time
  they wait. The locale \<open>token_bucket\<close> is the argument behind the rate limit, for any bucket
  that is refilled with at most \<open>rate\<close> tokens per \<open>unit\<close> of time.
\<close>

section \<open>Token buckets\<close>

locale token_bucket =
  fixes tokens :: "'s \<Rightarrow> nat"
    and checked :: "'s \<Rightarrow> nat"
    and can_take :: "nat \<Rightarrow> 's \<Rightarrow> bool"
    and take_token :: "nat \<Rightarrow> 's \<Rightarrow> 's"
    and rate :: nat
    and unit :: nat
  assumes take_tokens: "can_take now s \<Longrightarrow>
      tokens (take_token now s) + 1 \<le> tokens s + ((now - checked s) * rate) div unit"
    and take_checked: "can_take now s \<Longrightarrow> checked s \<le> now \<and> checked (take_token now s) = now"
begin

text \<open>Tokens taken at a sequence of times, each allowed when it is taken.\<close>

fun taken :: "nat list \<Rightarrow> 's \<Rightarrow> 's \<Rightarrow> bool" where
  "taken [] s s' \<longleftrightarrow> s' = s"
| "taken (t # ts) s s' \<longleftrightarrow> can_take t s \<and> taken ts (take_token t s) s'"

lemma taken_checked: "taken ts s s' \<Longrightarrow> checked s \<le> checked s' \<and> checked s' = last (checked s # ts)"
proof (induction ts arbitrary: s)
  case (Cons t ts)
  then have "checked s \<le> t" "checked (take_token t s) = t" using take_checked by auto
  with Cons.IH [of "take_token t s"] Cons.prems show ?case by (cases ts) auto
qed simp

lemma taken_snoc:
  "taken (ts @ [t]) s s' \<longleftrightarrow> (\<exists>m. taken ts s m \<and> can_take t m \<and> s' = take_token t m)"
  by (induction ts arbitrary: s) auto

text \<open>The tokens taken are covered by those saved up and the time that passed.\<close>

lemma taken_bound:
  "taken ts s s' \<Longrightarrow> length ts + tokens s' \<le> tokens s + ((checked s' - checked s) * rate) div unit"
proof (induction ts arbitrary: s)
  case (Cons t ts)
  then have ok: "can_take t s" and tk: "taken ts (take_token t s) s'" by simp_all
  let ?a = "(t - checked s) * rate" and ?b = "(checked s' - t) * rate"
  have ct: "checked s \<le> t" "checked (take_token t s) = t" using take_checked [OF ok] by simp_all
  with taken_checked [OF tk] have "?a + ?b = (checked s' - checked s) * rate"
    by (simp flip: add_mult_distrib)
  moreover have "?a div unit + ?b div unit \<le> (?a + ?b) div unit" by (metis div_add1_eq le_add1)
  ultimately show ?case using Cons.IH [OF tk] take_tokens [OF ok] ct by simp
qed simp

end

section \<open>The bucket of a client\<close>

text \<open>The token state of a client: tokens, time of the last check, rate, depth.\<close>

type_synonym bucket = "u64 \<times> u64 \<times> u64 \<times> u64"

definition bucket :: "nrs_tbf_client \<Rightarrow> bucket" where
  "bucket cli = (tc_ntoken cli, tc_check_time cli, tc_rpc_rate cli, tc_depth cli)"

fun bucket_tokens :: "u64 \<Rightarrow> bucket \<Rightarrow> u64" where
  "bucket_tokens now (n, t, r, d) =
     (let k = ((now - t) * r) div NSEC_PER_SEC + n in if k > d then d else k)"

fun bucket_take :: "nat \<Rightarrow> bucket \<Rightarrow> bucket" where
  "bucket_take now (n, t, r, d) = (bucket_tokens (of_nat now) (n, t, r, d) - 1, of_nat now, r, d)"

fun bucket_can :: "nat \<Rightarrow> nat \<Rightarrow> bucket \<Rightarrow> bool" where
  "bucket_can R now (n, t, r, d) \<longleftrightarrow>
     now < 2 ^ 64 \<and> unat r = R \<and> unat t \<le> now \<and> bucket_tokens (of_nat now) (n, t, r, d) \<noteq> 0"

lemma unat_refill:
  assumes "unat t \<le> now" "now < 2 ^ 64"
  shows "unat (((of_nat now - t) * r) div NSEC_PER_SEC + n :: u64) \<le> unat n + ((now - unat t) * unat r) div 10 ^ 9"
proof -
  have un: "unat (of_nat now :: u64) = now" using assms(2) by (rule unat_of_nat_small)
  then have p: "unat (of_nat now - t) = now - unat t"
    using assms(1) by (simp add: unat_sub_if_size)
  have "unat ((of_nat now - t) * r) \<le> (now - unat t) * unat r"
    unfolding unat_word_ariths(2) p by (rule mod_less_eq_dividend)
  then have "unat (((of_nat now - t) * r) div NSEC_PER_SEC) \<le> ((now - unat t) * unat r) div 10 ^ 9"
    by (simp add: unat_div div_le_mono)
  moreover have "unat (((of_nat now - t) * r) div NSEC_PER_SEC + n) \<le>
      unat (((of_nat now - t) * r) div NSEC_PER_SEC) + unat n"
    unfolding unat_word_ariths(1) by (rule mod_less_eq_dividend)
  ultimately show ?thesis by linarith
qed

interpretation tbf_bucket: token_bucket "\<lambda>(n, t, r, d). unat n" "\<lambda>(n, t, r, d). unat t"
  "bucket_can R" bucket_take R "10 ^ 9" for R
proof
  fix now and s :: bucket
  obtain n t r d where s: "s = (n, t, r, d)" by (cases s)
  assume ok: "bucket_can R now s"
  then have o: "now < 2 ^ 64" "unat r = R" "unat t \<le> now" and nz: "bucket_tokens (of_nat now) (n, t, r, d) \<noteq> 0"
    by (simp_all add: s del: bucket_tokens.simps)
  have "bucket_tokens (of_nat now) (n, t, r, d) \<le> ((of_nat now - t) * r) div NSEC_PER_SEC + n"
    by (auto simp: Let_def)
  then have "unat (bucket_tokens (of_nat now) (n, t, r, d)) \<le> unat n + ((now - unat t) * R) div 10 ^ 9"
    using unat_refill [OF o(3,1), of r n] o(2) by (simp add: unat_mono_u64 del: bucket_tokens.simps)
  moreover have "unat (bucket_tokens (of_nat now) (n, t, r, d) - 1) + 1 = unat (bucket_tokens (of_nat now) (n, t, r, d))"
    using nz by (rule unat_pred)
  ultimately show "(case bucket_take now s of (n, t, r, d) \<Rightarrow> unat n) + 1
      \<le> (case s of (n, t, r, d) \<Rightarrow> unat n) + (now - (case s of (n, t, r, d) \<Rightarrow> unat t)) * R div 10 ^ 9"
    by (simp add: s del: bucket_tokens.simps)
  show "(case s of (n, t, r, d) \<Rightarrow> unat t) \<le> now \<and> (case bucket_take now s of (n, t, r, d) \<Rightarrow> unat t) = now"
    using o by (simp add: s unat_of_nat_small del: bucket_tokens.simps)
qed

lemma bucket_served: "bucket (served now cli) = bucket_take (unat now) (bucket cli)"
  by (simp add: bucket_def tokens_at_def Let_def)

lemma bucket_can_served:
  assumes "tc_check_time cli \<le> now" and "0 < sint (tokens_at now cli)"
  shows "bucket_can (unat (tc_rpc_rate cli)) (unat now) (bucket cli)"
proof -
  have "unat now < 2 ^ 64" using unsigned_less [of now] by simp
  moreover have "bucket_tokens now (bucket cli) = tokens_at now cli"
    by (simp add: bucket_def tokens_at_def Let_def)
  ultimately show ?thesis
    using assms(1) sint_pos_nonzero [OF assms(2)] by (simp add: bucket_def unat_mono_u64 del: bucket_tokens.simps)
qed

section \<open>Runs of the scheduler\<close>

text \<open>What happens to the queues: a request is added, handed out at some time, or removed.\<close>

datatype event = Added nat nat | Served u64 nat nat | Removed nat nat

inductive sched_run ::
  "('h, 't) libcfs \<Rightarrow> ('h, 't) nrs_tbf_head \<Rightarrow> event list \<Rightarrow> ('h, 't) nrs_tbf_head \<Rightarrow> bool"
  for L s0 where
  run_start: "sched_run L s0 [] s0"
| run_add: "sched_run L s0 es s \<Longrightarrow> th_clients s c = Some cli \<Longrightarrow> q \<notin> set (tc_list cli) \<Longrightarrow>
    nrs_tbf_req_add L cancelled c q s = Ret (rc, s') \<Longrightarrow>
    sched_run L s0 (if rc = 0 then es @ [Added c q] else es) s'"
| run_poll: "sched_run L s0 es s \<Longrightarrow> clock_ok now s \<Longrightarrow> tbf_poll L now s = Ret (x, s') \<Longrightarrow>
    cfs_binheap_root L (th_binheap s) = root \<Longrightarrow>
    sched_run L s0 (case (x, root) of (Some q, Some c) \<Rightarrow> es @ [Served now c q] | _ \<Rightarrow> es) s'"
| run_del: "sched_run L s0 es s \<Longrightarrow> th_clients s c = Some cli \<Longrightarrow> q \<in> set (tc_list cli) \<Longrightarrow>
    nrs_tbf_req_del L c q s = Ret s' \<Longrightarrow> sched_run L s0 (es @ [Removed c q]) s'"

definition serve_times :: "nat \<Rightarrow> event list \<Rightarrow> nat list" where
  "serve_times c es = concat (map (\<lambda>e. case e of Served t c' q \<Rightarrow> if c' = c then [unat t] else [] | _ \<Rightarrow> []) es)"

definition served_reqs :: "nat \<Rightarrow> event list \<Rightarrow> nat list" where
  "served_reqs c es = concat (map (\<lambda>e. case e of Served t c' q \<Rightarrow> if c' = c then [q] else [] | _ \<Rightarrow> []) es)"

definition added_reqs :: "nat \<Rightarrow> event list \<Rightarrow> nat list" where
  "added_reqs c es = concat (map (\<lambda>e. case e of Added c' q \<Rightarrow> if c' = c then [q] else [] | _ \<Rightarrow> []) es)"

definition removed_reqs :: "nat \<Rightarrow> event list \<Rightarrow> nat list" where
  "removed_reqs c es = concat (map (\<lambda>e. case e of Removed c' q \<Rightarrow> if c' = c then [q] else [] | _ \<Rightarrow> []) es)"

lemmas trace_defs = serve_times_def served_reqs_def added_reqs_def removed_reqs_def

lemma run_trace_snoc [simp]:
  "serve_times c (es @ [Served t c' q]) = serve_times c es @ (if c' = c then [unat t] else [])"
  "serve_times c (es @ [Added c' q]) = serve_times c es" "serve_times c (es @ [Removed c' q]) = serve_times c es"
  "served_reqs c (es @ [Served t c' q]) = served_reqs c es @ (if c' = c then [q] else [])"
  "served_reqs c (es @ [Added c' q]) = served_reqs c es" "served_reqs c (es @ [Removed c' q]) = served_reqs c es"
  "added_reqs c (es @ [Added c' q]) = added_reqs c es @ (if c' = c then [q] else [])"
  "added_reqs c (es @ [Served t c' q]) = added_reqs c es" "added_reqs c (es @ [Removed c' q]) = added_reqs c es"
  "removed_reqs c (es @ [Removed c' q]) = removed_reqs c es @ (if c' = c then [q] else [])"
  "removed_reqs c (es @ [Added c' q]) = removed_reqs c es" "removed_reqs c (es @ [Served t c' q]) = removed_reqs c es"
  by (simp_all add: trace_defs)

lemma run_trace_Nil [simp]: "serve_times c [] = []" "served_reqs c [] = []" "added_reqs c [] = []" "removed_reqs c [] = []"
  by (simp_all add: trace_defs)

lemma length_served: "length (served_reqs c es) = length (serve_times c es)"
  by (induction es) (auto simp: trace_defs split: event.splits)

text \<open>What a run leaves of a client: the same rate, a bucket emptied once per request served,
  and its queue.\<close>

definition client_after :: "nat \<Rightarrow> event list \<Rightarrow> nrs_tbf_client \<Rightarrow> nrs_tbf_client \<Rightarrow> bool" where
  "client_after c es cli0 cli \<longleftrightarrow>
     tc_rpc_rate cli = tc_rpc_rate cli0 \<and> tc_nsecs cli = tc_nsecs cli0 \<and> tc_depth cli = tc_depth cli0 \<and>
     tbf_bucket.taken (unat (tc_rpc_rate cli0)) (serve_times c es) (bucket cli0) (bucket cli) \<and>
     (removed_reqs c es = [] \<longrightarrow> served_reqs c es @ tc_list cli = tc_list cli0 @ added_reqs c es)"

lemma client_after_start: "client_after c [] cli cli"
  by (simp add: client_after_def)

lemma client_after_other:
  assumes "client_after c es cli0 cli" and "case e of Added c' q \<Rightarrow> c' \<noteq> c | Served t c' q \<Rightarrow> c' \<noteq> c | Removed c' q \<Rightarrow> c' \<noteq> c"
  shows "client_after c (es @ [e]) cli0 cli"
  using assms by (cases e) (simp_all add: client_after_def)

lemma bucket_added [simp]: "bucket (added q cli) = bucket cli"
  by (simp add: added_def bucket_def)

lemma client_after_added:
  "client_after c es cli0 cli \<Longrightarrow> client_after c (es @ [Added c q]) cli0 (added q cli)"
  by (simp add: client_after_def) (simp add: added_def)

lemma client_after_removed:
  assumes "client_after c es cli0 cli" "bucket cli' = bucket cli" "tc_nsecs cli' = tc_nsecs cli"
  shows "client_after c (es @ [Removed c q]) cli0 cli'"
proof -
  have "tc_rpc_rate cli' = tc_rpc_rate cli" "tc_depth cli' = tc_depth cli" using assms(2) by (simp_all add: bucket_def)
  with assms show ?thesis by (simp add: client_after_def)
qed

lemma client_after_served:
  assumes "client_after c es cli0 cli" "tc_check_time cli \<le> now" "0 < sint (tokens_at now cli)" "tc_list cli \<noteq> []"
  shows "client_after c (es @ [Served now c (hd (tc_list cli))]) cli0 (served now cli)"
proof -
  have "bucket_can (unat (tc_rpc_rate cli0)) (unat now) (bucket cli)"
    using bucket_can_served [OF assms(2,3)] assms(1) by (simp add: client_after_def)
  then have "tbf_bucket.taken (unat (tc_rpc_rate cli0)) (serve_times c es @ [unat now])
      (bucket cli0) (bucket (served now cli))"
    using assms(1) unfolding tbf_bucket.taken_snoc client_after_def bucket_served by blast
  with assms(1,4) show ?thesis by (simp add: client_after_def)
qed

lemma sched_run_client:
  assumes "sched_run L s0 es s" and "binheap_ok L elems ordered" and "queue_ok elems s0" and "hop_safe s0"
    and "th_clients s0 c = Some cli0"
  shows "queue_ok elems s \<and> hop_safe s \<and> (heap_sorted ordered s0 \<longrightarrow> heap_sorted ordered s) \<and>
    (\<exists>cli. th_clients s c = Some cli \<and> client_after c es cli0 cli)"
  using assms
proof induction
  case run_start
  then show ?case by (auto intro: client_after_start)
next
  case (run_add es s c' cli' q cancelled rc s')
  then obtain cli where i: "queue_ok elems s" "hop_safe s" "heap_sorted ordered s0 \<longrightarrow> heap_sorted ordered s"
    "th_clients s c = Some cli" "client_after c es cli0 cli" by blast
  obtain rc1 s1 where a: "nrs_tbf_req_add L cancelled c' q s = Ret (rc1, s1)" "queue_ok elems s1" "hop_safe s1"
    "heap_sorted ordered s \<longrightarrow> heap_sorted ordered s1"
    "th_clients s1 = (if rc1 = 0 then (th_clients s)(c' := Some (added q cli')) else th_clients s)"
    using req_add_ok [OF run_add.prems(1) i(1,2) run_add.hyps(2,3), of cancelled] by metis
  have eq: "rc1 = rc" "s1 = s'" using a(1) run_add.hyps(4) by simp_all
  show ?case
  proof (cases "rc = 0 \<and> c' = c")
    case True
    with a eq i run_add.hyps(2) client_after_added show ?thesis by auto
  next
    case False
    with a eq i client_after_other [OF i(5), of "Added c' q"] show ?thesis by auto
  qed
next
  case (run_poll es s now x s' root)
  then obtain cli where i: "queue_ok elems s" "hop_safe s" "heap_sorted ordered s0 \<longrightarrow> heap_sorted ordered s"
    "th_clients s c = Some cli" "client_after c es cli0 cli" by blast
  obtain x1 s1 where g: "nrs_tbf_req_get L now False (woken now s) = Ret (x1, s1)" "queue_ok elems s1" "hop_safe s1"
    "heap_sorted ordered s \<longrightarrow> heap_sorted ordered s1" "get_effect L elems now s x1 s1"
    using req_get_ok [of L elems ordered "woken now s" now] run_poll.prems(1) i(1,2) run_poll.hyps(2)
    by (metis woken_frame(5-7) woken_effect woken_sorted)
  have eq: "x1 = x" "s1 = s'" using g(1) run_poll.hyps(3) by (simp_all add: tbf_poll_woken)
  show ?case
  proof (cases x)
    case None
    with g eq i show ?thesis by (auto simp: get_effect_def)
  next
    case (Some q)
    with g(5) eq obtain c' cli' where e: "cfs_binheap_root L (th_binheap s) = Some c'" "th_clients s c' = Some cli'"
      "tc_list cli' \<noteq> []" "q = hd (tc_list cli')" "0 < sint (tokens_at now cli')"
      "th_clients s' = (th_clients s)(c' := Some (served now cli'))"
      by (auto simp: get_effect_def)
    have "tc_check_time cli' \<le> now" using run_poll.hyps(2) e(2) by (simp add: clock_ok_def)
    show ?thesis
    proof (cases "c' = c")
      case True
      with e i have "client_after c (es @ [Served now c q]) cli0 (served now cli)"
        using client_after_served [OF i(5)] \<open>tc_check_time cli' \<le> now\<close> by simp
      with True Some e g eq i run_poll.hyps(4) show ?thesis by auto
    next
      case False
      with client_after_other [OF i(5), of "Served now c' q"] Some e g eq i run_poll.hyps(4) show ?thesis by auto
    qed
  qed
next
  case (run_del es s c' cli' q s')
  then obtain cli where i: "queue_ok elems s" "hop_safe s" "heap_sorted ordered s0 \<longrightarrow> heap_sorted ordered s"
    "th_clients s c = Some cli" "client_after c es cli0 cli" by blast
  obtain s1 cli1 where d: "nrs_tbf_req_del L c' q s = Ret s1" "queue_ok elems s1" "hop_safe s1"
    "heap_sorted ordered s \<longrightarrow> heap_sorted ordered s1" "th_clients s1 = (th_clients s)(c' := Some cli1)"
    "bucket cli1 = bucket cli'" "tc_nsecs cli1 = tc_nsecs cli'"
    using req_del_ok [OF run_del.prems(1) i(1,2) run_del.hyps(2,3)] by (auto simp: bucket_def)
  have eq: "s1 = s'" using d(1) run_del.hyps(4) by simp
  show ?case
  proof (cases "c' = c")
    case True
    with d eq i run_del.hyps(2) client_after_removed [OF i(5)] show ?thesis by auto
  next
    case False
    with d eq i client_after_other [OF i(5), of "Removed c' q"] show ?thesis by auto
  qed
qed

section \<open>An example\<close>

text \<open>A libcfs whose heap is a sorted list and whose hash table is an association list.\<close>

definition sample_libcfs :: "(nat list, (cli_key \<times> nat) list) libcfs" where
  "sample_libcfs = \<lparr>
     cfs_binheap_create = [],
     cfs_binheap_insert = (\<lambda>cmp e h. bindO (list_insert cmp e h) (\<lambda>h'. Ret (0, h'))),
     cfs_binheap_remove = (\<lambda>cmp e h. Ret (filter (\<lambda>x. x \<noteq> e) h)),
     cfs_binheap_relocate = (\<lambda>cmp e h. list_insert cmp e (filter (\<lambda>x. x \<noteq> e) h)),
     cfs_binheap_root = (\<lambda>h. case h of [] \<Rightarrow> None | e # _ \<Rightarrow> Some e),
     cfs_binheap_is_empty = (\<lambda>h. h = []),
     cfs_hash_create = [],
     cfs_hash_peek = (\<lambda>k t. map_of t k),
     cfs_hash_add = (\<lambda>k c t. (k, c) # t),
     cfs_hash_del = (\<lambda>k t. filter (\<lambda>e. fst e \<noteq> k) t),
     cfs_hash_bd = (\<lambda>k. 0),
     cfs_hash_bd_count = (\<lambda>b t. length t),
     cfs_hash_items = map snd,
     cfs_gettok = (\<lambda>d str. if str = [] then None else Some (strsep d str)),
     cfs_parse_nidlist = (\<lambda>str. Some (\<lambda>nid. True)),
     node_as_req = (\<lambda>c. \<lparr>rq_sent = 0, rq_peer_nid = 0, rq_peer_pid = 0\<rparr>)\<rparr>"

lemma sample_libcfs_heap: "binheap_ok sample_libcfs set list_ordered"
proof -
  have "binheap_ops.truncate sample_libcfs = list_heap"
    by (simp add: sample_libcfs_def list_heap_def binheap_ops.truncate_def)
  then show ?thesis using list_heap_ok binheap_ok_truncate by metis
qed

definition sample_rule :: nrs_tbf_rule where
  "sample_rule = \<lparr>tr_name = ''default'', tr_nids = None, tr_nids_str = Some ''*'', tr_jobids = [],
     tr_jobids_str = None, tr_rpc_rate = 1000, tr_nsecs = 1000000, tr_depth = 3, tr_cli_list = [0],
     tr_stopping = False, tr_default = True, tr_ref = 2, tr_generation = 0\<rparr>"

definition sample_client :: nrs_tbf_client where
  "sample_client = \<lparr>tc_nid = 7, tc_jobid = [], tc_ref = 3, tc_linkage = Some 0, tc_rule = Some 0,
     tc_rule_generation = 0, tc_rpc_rate = 1000, tc_nsecs = 1000000, tc_ntoken = 1, tc_depth = 3,
     tc_check_time = 5000, tc_list = [10, 11], tc_in_heap = True, tc_rule_sequence = 1\<rparr>"

definition sample_head :: "(nat list, (cli_key \<times> nat) list) nrs_tbf_head" where
  "sample_head = \<lparr>th_type = NRS_TBF_TYPE_NID, th_list = [0], th_rules = [0 \<mapsto> sample_rule],
     th_clients = [0 \<mapsto> sample_client], th_rule_sequence = 1, th_rule = Some 0, th_timer = None,
     th_deadline = 0, th_sequence = 2, th_binheap = [0], th_cli_hash = [(Nid_key 7, 0)], th_hash_bits = 16,
     th_lru = (\<lambda>_. []), nrs_throttling = False, tr_sequence = (\<lambda>_. 0), hop_compare = Tbf_cli_compare,
     sscdt_req_compare_ptr = Some Sscdt_req_compare_nid, tbf_tw_interval = 1000, tbf_jobid_cache_size = 8192,
     tbf_rate = 10000, tbf_depth = 3\<rparr>"

lemma sample_head_ok:
  "queue_ok set sample_head" "hop_safe sample_head" "heap_sorted list_ordered sample_head"
  "th_clients sample_head 0 = Some sample_client" "\<not> nrs_throttling sample_head"
  by (simp_all add: sample_head_def queue_ok_def client_queue_ok_def sample_client_def hop_safe_def
      heap_sorted_def list_ordered_def)

lemma sample_clock: "5000 \<le> unat now \<Longrightarrow> clock_ok now sample_head"
  by (simp add: clock_ok_def sample_head_def sample_client_def unat_mono_u64)

lemma sample_poll: "tbf_poll sample_libcfs 5000 sample_head =
  Ret (Some 10, sample_head\<lparr>th_clients := [0 \<mapsto> sample_client\<lparr>tc_ntoken := 0, tc_list := [11]\<rparr>]\<rparr>)"
  by (simp add: tbf_poll_def nrs_tbf_req_get_def sample_head_def sample_libcfs_def sample_client_def tokens_at_def
      relocate_def set_cli_def get_cli_def Let_def)

lemma sample_run: "sched_run sample_libcfs sample_head [Served 5000 0 10]
  (sample_head\<lparr>th_clients := [0 \<mapsto> sample_client\<lparr>tc_ntoken := 0, tc_list := [11]\<rparr>]\<rparr>)"
  using run_poll [OF run_start sample_clock sample_poll refl] by (simp add: sample_head_def sample_libcfs_def)

section \<open>Properties\<close>

text \<open>
  C2: the rate limit of the TBF policy. Along any run of the scheduler (requests added, handed
  out and removed for any clients, the timer firing in between), the number of requests of a
  client handed out up to a time \<open>T\<close> is at most the tokens it had saved up plus one per
  \<open>1/rate\<close> second since its last check, even where the 64-bit product of time and rate wraps.
\<close>

theorem tbf_rate_limit:
  assumes "binheap_ok L elems ordered" and "queue_ok elems s0" and "hop_safe s0"
    and "th_clients s0 c = Some cli0" and "sched_run L s0 es s"
    and "\<forall>t \<in> set (serve_times c es). t \<le> T"
  shows "length (served_reqs c es) \<le>
    unat (tc_ntoken cli0) + (T - unat (tc_check_time cli0)) * unat (tc_rpc_rate cli0) div 10 ^ 9"
proof -
  obtain cli where "client_after c es cli0 cli"
    using sched_run_client [OF assms(5,1-4)] by blast
  then have tk: "tbf_bucket.taken (unat (tc_rpc_rate cli0)) (serve_times c es) (bucket cli0) (bucket cli)"
    by (simp add: client_after_def)
  have b: "length (serve_times c es) + unat (tc_ntoken cli) \<le> unat (tc_ntoken cli0) +
      (unat (tc_check_time cli) - unat (tc_check_time cli0)) * unat (tc_rpc_rate cli0) div 10 ^ 9"
    using tbf_bucket.taken_bound [OF tk] by (simp add: bucket_def)
  show ?thesis
  proof (cases "serve_times c es = []")
    case True
    then show ?thesis by (simp add: length_served)
  next
    case False
    then have "unat (tc_check_time cli) = last (serve_times c es)"
      using tbf_bucket.taken_checked [OF tk] by (simp add: bucket_def)
    then have "unat (tc_check_time cli) \<le> T" using assms(6) last_in_set [OF False] by simp
    then have "(unat (tc_check_time cli) - unat (tc_check_time cli0)) * unat (tc_rpc_rate cli0) div 10 ^ 9 \<le>
        (T - unat (tc_check_time cli0)) * unat (tc_rpc_rate cli0) div 10 ^ 9"
      by (intro div_le_mono mult_le_mono1 diff_le_mono)
    with b show ?thesis by (simp add: length_served)
  qed
qed

theorem tbf_rate_limit_witness:
  "length (served_reqs 0 [Served 5000 0 10]) \<le>
     unat (tc_ntoken sample_client) + (5000 - unat (tc_check_time sample_client)) * unat (tc_rpc_rate sample_client) div 10 ^ 9"
  by (rule tbf_rate_limit [OF sample_libcfs_heap sample_head_ok(1,2,4) sample_run]) (simp add: trace_defs)

text \<open>
  C29: the TBF policy serves the requests of a client in order. Along any run in which none of
  the client's requests is withdrawn, those handed out, followed by those still queued, are
  those queued at the start followed by those added, in the order of their arrival.
\<close>

theorem tbf_fifo_per_client:
  assumes "binheap_ok L elems ordered" and "queue_ok elems s0" and "hop_safe s0"
    and "th_clients s0 c = Some cli0" and "sched_run L s0 es s" and "removed_reqs c es = []"
  shows "\<exists>cli. th_clients s c = Some cli \<and>
    served_reqs c es @ tc_list cli = tc_list cli0 @ added_reqs c es"
  using sched_run_client [OF assms(5,1-4)] assms(6) by (auto simp: client_after_def)

theorem tbf_fifo_per_client_witness:
  "served_reqs 0 [Served 5000 0 10] @ [11] = tc_list sample_client @ added_reqs 0 [Served 5000 0 10]"
  using tbf_fifo_per_client [OF sample_libcfs_heap sample_head_ok(1,2,4) sample_run] by (simp add: trace_defs)

text \<open>
  C5: the TBF policy neither loses nor invents nor repeats a request, and no call of the NRS
  core faults: along every history of enqueues, polls (at non-decreasing times, the timer
  firing in between) and dequeues, the requests held and accepted are exactly those still
  held, handed out or withdrawn.
\<close>

theorem tbf_conserves_requests:
  assumes "polled_inv L elems ordered p0"
    and "nrs_history polled_accepts (polled_pending elems) (polled_add L cancelled) (polled_get L) (polled_del L)
      p0 A G D p"
  shows "polled_pending elems p0 + A = polled_pending elems p + G + D \<and>
    (polled_accepts r p \<longrightarrow> (\<exists>y. polled_add L cancelled r p = Ret y)) \<and>
    (\<exists>y. polled_get L p = Ret y) \<and>
    (r \<in># polled_pending elems p \<longrightarrow> (\<exists>y. polled_del L r p = Ret y))"
  using tbf.history_conserved [OF assms(2,1)] tbf.history_progress [OF assms(2,1), of r] by blast

theorem tbf_conserves_requests_witness:
  "\<exists>y. polled_get sample_libcfs (sample_head, [5000]) = Ret y"
proof -
  have "polled_inv sample_libcfs set list_ordered (sample_head, [5000])"
    using sample_libcfs_heap sample_head_ok sample_clock [of 5000] by (simp add: polled_inv_def)
  from tbf_conserves_requests [OF this history_start [where req_enqueue = "polled_add sample_libcfs True"]]
  show ?thesis by blast
qed

text \<open>
  C30: when the policy throttles itself it wakes up in time for everyone. If a poll of an
  unthrottled policy with pending requests hands out nothing, the timer is armed for the
  deadline of a client with queued requests, and no other such client has an earlier one.
\<close>

theorem tbf_throttle_deadline:
  assumes "binheap_ok L elems ordered" and "queue_ok elems s" and "heap_sorted ordered s" and "clock_ok now s"
    and "\<not> nrs_throttling s" and "tbf_pending elems s \<noteq> {#}"
    and "nrs_tbf_req_get L now False s = Ret (None, s')"
  shows "nrs_throttling s' \<and> (\<exists>c cli. th_clients s c = Some cli \<and> tc_list cli \<noteq> [] \<and>
    th_timer s' = Some (deadline_of cli) \<and> th_deadline s' = deadline_of cli \<and>
    (\<forall>c' cli'. th_clients s c' = Some cli' \<and> tc_list cli' \<noteq> [] \<longrightarrow> deadline_of cli \<le> deadline_of cli'))"
proof -
  have ne: "elems (th_binheap s) \<noteq> {}" using assms(6) by (auto simp: tbf_pending_def)
  then obtain c where root: "cfs_binheap_root L (th_binheap s) = Some c"
    using binheap_root_None [OF assms(1), of "th_binheap s"] by blast
  then have ce: "c \<in> elems (th_binheap s)" using binheap_root_elem [OF assms(1)] by blast
  then obtain cli where cli: "th_clients s c = Some cli" using queue_okD(2) [OF assms(2)] by blast
  have qo: "tc_in_heap cli" "tc_list cli \<noteq> []"
    using queue_okD(3,4) [OF assms(2) cli] ce by (auto simp: client_queue_ok_def)
  have ck: "tc_check_time cli \<le> now" using assms(4) cli by (simp add: clock_ok_def)
  have hs: "hop_safe s" using assms(3) by (simp add: heap_sorted_def hop_safe_def)
  have "\<not> 0 < sint (tokens_at now cli)"
    using req_get_serve [OF assms(1,2) hs assms(5) root cli ck] assms(7) by auto
  with assms(5,7) root cli qo ck have s': "nrs_throttling s'" "th_timer s' = Some (deadline_of cli)"
    "th_deadline s' = deadline_of cli"
    by (auto simp: nrs_tbf_req_get_def)
  have "deadline_of cli \<le> deadline_of cli'" if "th_clients s c' = Some cli'" "tc_list cli' \<noteq> []" for c' cli'
  proof (cases "c' = c")
    case False
    have "c' \<in> elems (th_binheap s)"
      using queue_okD(3,4) [OF assms(2) that(1)] that(2) by (auto simp: client_queue_ok_def)
    moreover have "ordered (tbf_le s) (th_binheap s)" using assms(3) by (simp add: heap_sorted_def)
    ultimately have "tbf_le s c c'"
      using binheap_root_least [where le = "tbf_le s" and h = "th_binheap s", OF assms(1) _ root] False by blast
    then show ?thesis using that cli by (auto simp: tbf_le_def cli_le_def)
  qed (use that cli in simp)
  with s' cli qo show ?thesis by blast
qed

definition drained_head :: "(nat list, (cli_key \<times> nat) list) nrs_tbf_head" where
  "drained_head = sample_head\<lparr>th_clients := [0 \<mapsto> sample_client\<lparr>tc_ntoken := 0, tc_list := [11]\<rparr>]\<rparr>"

lemma drained_head_ok:
  "queue_ok set drained_head" "heap_sorted list_ordered drained_head" "clock_ok 5000 drained_head"
  "\<not> nrs_throttling drained_head" "tbf_pending set drained_head \<noteq> {#}"
  by (simp_all add: drained_head_def sample_head_def queue_ok_def client_queue_ok_def sample_client_def
      heap_sorted_def list_ordered_def clock_ok_def tbf_pending_def queued_at_def)

theorem tbf_throttle_deadline_witness:
  "\<exists>s'. nrs_tbf_req_get sample_libcfs 5000 False drained_head = Ret (None, s') \<and> nrs_throttling s' \<and>
    th_timer s' = Some 1005000"
proof -
  let ?s' = "drained_head\<lparr>nrs_throttling := True, th_deadline := 1005000, th_timer := Some 1005000\<rparr>"
  have "nrs_tbf_req_get sample_libcfs 5000 False drained_head = Ret (None, ?s')"
    by (simp add: nrs_tbf_req_get_def drained_head_def sample_head_def sample_libcfs_def sample_client_def
        tokens_at_def deadline_of_def get_cli_def Let_def)
  moreover from tbf_throttle_deadline [OF sample_libcfs_heap drained_head_ok this]
  have "nrs_throttling ?s'" by blast
  ultimately show ?thesis by auto
qed

lemma refill_after_period:
  assumes "0 < R" "10 ^ 9 div R < p"
  shows "1 \<le> p * R div (10 ^ 9 :: nat)"
proof -
  have "10 ^ 9 < (10 ^ 9 div R + 1) * R"
    using assms(1) dividend_less_times_div [of R "10 ^ 9"] by (simp add: algebra_simps)
  also have "\<dots> \<le> p * R" using assms(2) by (intro mult_le_mono1) simp
  finally have "10 ^ 9 div 10 ^ 9 \<le> p * R div (10 ^ 9 :: nat)" by (intro div_le_mono) simp
  then show ?thesis by simp
qed

text \<open>
  C31: a waiting client gets a token one nanosecond after its deadline. For a client whose
  interval is the one its rate gives, with a bucket that holds at least one token, as soon as
  the clock is past the deadline (and before the product of elapsed time and rate overflows)
  there is a token to hand out a request with.
\<close>

theorem tbf_token_after_deadline:
  assumes "client_queue_ok cli" and "0 < unat (tc_depth cli)" and "0 < unat (tc_rpc_rate cli)"
    and "unat (tc_nsecs cli) = 10 ^ 9 div unat (tc_rpc_rate cli)"
    and "unat (tc_check_time cli) + unat (tc_nsecs cli) < unat now"
    and "(unat now - unat (tc_check_time cli)) * unat (tc_rpc_rate cli) < 2 ^ 64"
  shows "0 < sint (tokens_at now cli)"
proof -
  let ?p = "unat now - unat (tc_check_time cli)" and ?R = "unat (tc_rpc_rate cli)"
  let ?k = "((now - tc_check_time cli) * tc_rpc_rate cli) div NSEC_PER_SEC"
  have p: "unat (now - tc_check_time cli) = ?p" using assms(5) by (simp add: unat_sub_if_size)
  have "unat ((now - tc_check_time cli) * tc_rpc_rate cli) = ?p * ?R"
    unfolding unat_word_ariths(2) p using assms(6) by simp
  then have k: "unat ?k = ?p * ?R div 10 ^ 9" by (simp add: unat_div)
  have k1: "1 \<le> unat ?k" unfolding k using assms(3-5) by (intro refill_after_period) linarith+
  have k2: "unat ?k < 2 ^ 63" unfolding k using assms(6) by (simp add: div_less_iff_less_mult)
  have n: "unat (tc_ntoken cli) \<le> unat (tc_depth cli)" "unat (tc_depth cli) < 2 ^ 63"
    using assms(1) by (simp_all add: client_queue_ok_def)
  have "unat (?k + tc_ntoken cli) = unat ?k + unat (tc_ntoken cli)"
    using k2 n by (simp add: unat_word_ariths)
  then have "0 < unat (tokens_at now cli)" "unat (tokens_at now cli) < 2 ^ 63"
    using k1 n assms(2) by (auto simp: tokens_at_def Let_def unat_mono_u64)
  then show ?thesis by (rule sint_pos_of_unat)
qed

theorem tbf_token_after_deadline_witness:
  "0 < sint (tokens_at 1005001 (sample_client\<lparr>tc_ntoken := 0\<rparr>))"
  by (rule tbf_token_after_deadline) (simp_all add: sample_client_def client_queue_ok_def)

end
