(* ===== verification/Tbf_Refs.thy ===== *)
theory Tbf_Refs
  imports Tbf_Service
begin

text \<open>
  The reference discipline of the TBF rules. \<open>rules_ok e U s\<close> says that every rule's reference
  count is exactly what holds it: its place in the list, its linked clients, and \<open>e r\<close>
  references in the hands of the running operation; that the clients outside \<open>U\<close> are linked to
  their rule and those in \<open>U\<close> to none; and that names, flags and values are as they should be.
  Every primitive is shown to keep it, so no assertion of the rule code fails and no freed
  rule is used.
\<close>

section \<open>The invariant\<close>

definition members :: "('h, 't) nrs_tbf_head \<Rightarrow> nat \<Rightarrow> nat set" where
  "members s r = {c. \<exists>cli. th_clients s c = Some cli \<and> tc_rule cli = Some r}"

definition rule_ok :: "int \<Rightarrow> ('h, 't) nrs_tbf_head \<Rightarrow> nat \<Rightarrow> nrs_tbf_rule \<Rightarrow> bool" where
  "rule_ok x s r rule \<longleftrightarrow>
     tr_ref rule = of_bool (r \<in> set (th_list s)) + int (length (tr_cli_list rule)) + x \<and>
     0 < tr_ref rule \<and> distinct (tr_cli_list rule) \<and>
     set (tr_cli_list rule) = members s r \<and>
     tr_stopping rule = (r \<notin> set (th_list s)) \<and> o_rule_fini (th_type s) rule \<and>
     length (tr_name rule) < MAX_TBF_NAME \<and> tr_rpc_rate rule \<noteq> 0 \<and>
     tr_nsecs rule = NSEC_PER_SEC div tr_rpc_rate rule \<and> unat (tr_depth rule) < 2 ^ 63"

definition cli_ok :: "nat set \<Rightarrow> ('h, 't) nrs_tbf_head \<Rightarrow> nat \<Rightarrow> nrs_tbf_client \<Rightarrow> bool" where
  "cli_ok U s c cli \<longleftrightarrow>
     (if c \<in> U then tc_rule cli = None \<and> tc_linkage cli = None
      else tc_linkage cli = tc_rule cli \<and> (\<exists>r. tc_rule cli = Some r \<and> th_rules s r \<noteq> None))"

text \<open>The rules in the list have different names, and the default rule is one of them.\<close>

definition named :: "('h, 't) nrs_tbf_head \<Rightarrow> nat \<Rightarrow> string" where
  "named s r = (case th_rules s r of None \<Rightarrow> [] | Some rule \<Rightarrow> tr_name rule)"

definition list_ok :: "('h, 't) nrs_tbf_head \<Rightarrow> bool" where
  "list_ok s \<longleftrightarrow> distinct (th_list s) \<and> set (th_list s) \<subseteq> dom (th_rules s) \<and> inj_on (named s) (set (th_list s)) \<and>
     (\<exists>d. th_rule s = Some d \<and> d \<in> set (th_list s) \<and> named s d = NRS_TBF_DEFAULT_RULE)"

definition rules_ok :: "(nat \<Rightarrow> int) \<Rightarrow> nat set \<Rightarrow> ('h, 't) nrs_tbf_head \<Rightarrow> bool" where
  "rules_ok e U s \<longleftrightarrow>
     list_ok s \<and> (\<forall>r. 0 \<le> e r) \<and> (\<forall>r. 0 < e r \<longrightarrow> th_rules s r \<noteq> None) \<and>
     (\<forall>r rule. th_rules s r = Some rule \<longrightarrow> rule_ok (e r) s r rule) \<and>
     (\<forall>c cli. th_clients s c = Some cli \<longrightarrow> cli_ok U s c cli)"

lemma rules_okD:
  assumes "rules_ok e U s"
  shows "list_ok s" and "0 \<le> e r" and "0 < e r \<Longrightarrow> th_rules s r \<noteq> None"
    and "th_rules s r = Some rule \<Longrightarrow> rule_ok (e r) s r rule"
    and "th_clients s c = Some cli \<Longrightarrow> cli_ok U s c cli"
  using assms by (auto simp: rules_ok_def)

lemma get_rule_simps [simp]:
  "get_rule s r = Ret rule \<longleftrightarrow> th_rules s r = Some rule"
  "th_rules s r = Some rule \<Longrightarrow> get_rule s r = Ret rule"
  by (auto simp: get_rule_def split: option.splits)

lemma set_rule_simps [simp]:
  "th_rules (set_rule r x s) = (th_rules s)(r := x)"
  "th_clients (set_rule r x s) = th_clients s" "th_list (set_rule r x s) = th_list s"
  "th_binheap (set_rule r x s) = th_binheap s" "hop_compare (set_rule r x s) = hop_compare s"
  "tbf_tw_interval (set_rule r x s) = tbf_tw_interval s" "th_type (set_rule r x s) = th_type s"
  "th_rule (set_rule r x s) = th_rule s" "th_rule_sequence (set_rule r x s) = th_rule_sequence s"
  "th_cli_hash (set_rule r x s) = th_cli_hash s" "th_lru (set_rule r x s) = th_lru s"
  by (simp_all add: set_rule_def)

lemma rule_ok_cong:
  assumes "th_list s' = th_list s" "members s' r = members s r" "th_type s' = th_type s"
  shows "rule_ok x s' r rule = rule_ok x s r rule"
  unfolding rule_ok_def assms ..

lemma set_rule_ok [simp]: "rule_ok x (set_rule r y s) r' rule = rule_ok x s r' rule"
  by (rule rule_ok_cong) (simp_all add: members_def)

lemma cli_ok_set_rule: "cli_ok U s c cli \<Longrightarrow> cli_ok U (set_rule r (Some rule) s) c cli"
  by (auto simp: cli_ok_def split: if_splits)

text \<open>Replacing one rule by another of the same name and place.\<close>

lemma named_set_rule: "named (set_rule r (Some rule) s) = (named s)(r := tr_name rule)"
  by (intro ext) (simp add: named_def)

lemma list_ok_cong:
  assumes "list_ok s" and "th_list s' = th_list s" "th_rule s' = th_rule s"
    and "\<And>x. x \<in> set (th_list s) \<Longrightarrow> th_rules s' x \<noteq> None \<and> named s' x = named s x"
  shows "list_ok s'"
proof -
  have "inj_on (named s') (set (th_list s)) = inj_on (named s) (set (th_list s))"
    using assms(4) by (intro inj_on_cong) simp
  with assms show ?thesis unfolding list_ok_def by (auto simp: subset_iff domIff)
qed

lemma list_ok_set_rule:
  assumes "list_ok s" and "th_rules s r = Some rule" and "tr_name rule' = tr_name rule"
  shows "list_ok (set_rule r (Some rule') s)"
  using assms by (intro list_ok_cong [OF assms(1)]) (auto simp: named_def list_ok_def)

lemma rules_ok_set_rule:
  assumes "rules_ok e U s" and "th_rules s r = Some rule" and "tr_name rule' = tr_name rule"
    and "0 \<le> x" and "rule_ok x s r rule'"
  shows "rules_ok (e(r := x)) U (set_rule r (Some rule') s)"
  unfolding rules_ok_def
proof (intro conjI allI impI)
  show "list_ok (set_rule r (Some rule') s)" using list_ok_set_rule [OF rules_okD(1) [OF assms(1)] assms(2,3)] .
  fix r' rule'' assume "th_rules (set_rule r (Some rule') s) r' = Some rule''"
  then show "rule_ok ((e(r := x)) r') (set_rule r (Some rule') s) r' rule''"
    using assms(5) rules_okD(4) [OF assms(1)] by (auto split: if_splits)
qed (use assms(1,4) in \<open>auto simp: rules_ok_def intro: cli_ok_set_rule\<close>)

section \<open>Taking and dropping references\<close>

lemma rule_get_ok:
  assumes "rules_ok e U s" and "th_rules s r = Some rule"
  shows "nrs_tbf_rule_get r s = Ret (set_rule r (Some (rule\<lparr>tr_ref := tr_ref rule + 1\<rparr>)) s)"
    and "rules_ok (e(r := e r + 1)) U (set_rule r (Some (rule\<lparr>tr_ref := tr_ref rule + 1\<rparr>)) s)"
proof -
  show "nrs_tbf_rule_get r s = Ret (set_rule r (Some (rule\<lparr>tr_ref := tr_ref rule + 1\<rparr>)) s)"
    using assms(2) by (simp add: nrs_tbf_rule_get_def)
  have "rule_ok (e r + 1) s r (rule\<lparr>tr_ref := tr_ref rule + 1\<rparr>)"
    using rules_okD(4) [OF assms] by (cases "th_type s") (simp_all add: rule_ok_def o_rule_fini_def)
  then show "rules_ok (e(r := e r + 1)) U (set_rule r (Some (rule\<lparr>tr_ref := tr_ref rule + 1\<rparr>)) s)"
    using rules_ok_set_rule [OF assms] rules_okD(2) [OF assms(1), of r] by simp
qed

text \<open>Freeing a rule that is not in the list and has no clients.\<close>

lemma rules_ok_free:
  assumes "rules_ok e U s" and "th_rules s r = Some rule" and "tr_cli_list rule = []" and "r \<notin> set (th_list s)"
  shows "rules_ok (e(r := 0)) U (set_rule r None s)"
  unfolding rules_ok_def
proof (intro conjI allI impI)
  have "members s r = {}" using rules_okD(4) [OF assms(1,2)] assms(3) by (simp add: rule_ok_def)
  then have nc: "tc_rule cli \<noteq> Some r" if "th_clients s c = Some cli" for c cli
    using that by (auto simp: members_def)
  have nm: "named (set_rule r None s) x = named s x" if "x \<in> set (th_list s)" for x
    using that assms(4) by (auto simp: named_def)
  from rules_okD(1) [OF assms(1)] show "list_ok (set_rule r None s)"
    by (rule list_ok_cong) (use nm assms(4) rules_okD(1) [OF assms(1)] in \<open>auto simp: list_ok_def\<close>)
  fix c cli assume c: "th_clients (set_rule r None s) c = Some cli"
  with rules_okD(5) [OF assms(1)] nc show "cli_ok U (set_rule r None s) c cli"
    by (fastforce simp: cli_ok_def split: if_splits)
qed (use assms(1) in \<open>auto simp: rules_ok_def split: if_splits\<close>)

lemma rule_put_ok:
  assumes "rules_ok e U s" and "0 < e r"
  shows "\<exists>s'. nrs_tbf_rule_put r s = Ret s' \<and> rules_ok (e(r := e r - 1)) U s' \<and>
    s' = s\<lparr>th_rules := th_rules s'\<rparr> \<and> (\<forall>r'. r' \<noteq> r \<longrightarrow> th_rules s' r' = th_rules s r')"
proof -
  obtain rule where r: "th_rules s r = Some rule" using rules_okD(3) [OF assms] by blast
  note ok = rules_okD(4) [OF assms(1) r]
  let ?rule = "rule\<lparr>tr_ref := tr_ref rule - 1\<rparr>"
  let ?s1 = "set_rule r (Some ?rule) s"
  have fin: "o_rule_fini (th_type s) ?rule" using ok by (cases "th_type s") (simp_all add: rule_ok_def o_rule_fini_def)
  show ?thesis
  proof (cases "tr_ref rule - 1 = 0")
    case True
    with ok assms(2) have em: "tr_cli_list rule = []" "r \<notin> set (th_list s)" "e r - 1 = 0"
      by (cases "tr_cli_list rule"; auto simp: rule_ok_def split: if_splits)+
    have "nrs_tbf_rule_put r s = Ret (set_rule r None s)"
      using r True em fin by (simp add: nrs_tbf_rule_put_def nrs_tbf_rule_fini_def) (simp add: set_rule_def)
    with rules_ok_free [OF assms(1) r em(1,2)] em(3) show ?thesis by (simp add: set_rule_def)
  next
    case False
    with ok assms(2) fin have "rule_ok (e r - 1) s r ?rule" by (auto simp: rule_ok_def)
    with rules_ok_set_rule [OF assms(1) r, of ?rule "e r - 1"] assms(2) False r show ?thesis
      by (simp add: nrs_tbf_rule_put_def Let_def) (simp add: set_rule_def)
  qed
qed

text \<open>Dropping one of several references, or one of a rule in the list, leaves the rule there.\<close>

lemma rule_put_keeps:
  assumes "rules_ok e U s" and "th_rules s r = Some rule" and "0 < e r"
    and "r \<in> set (th_list s) \<or> tr_cli_list rule \<noteq> [] \<or> 1 < e r"
  shows "nrs_tbf_rule_put r s = Ret (set_rule r (Some (rule\<lparr>tr_ref := tr_ref rule - 1\<rparr>)) s)"
proof -
  have "tr_ref rule - 1 \<noteq> 0"
    using rules_okD(4) [OF assms(1,2)] assms(3,4) by (auto simp: rule_ok_def Suc_le_eq neq_Nil_conv)
  with assms(2) show ?thesis by (simp add: nrs_tbf_rule_put_def)
qed

section \<open>Linking and unlinking clients\<close>

lemma rule_put_set_cli:
  "nrs_tbf_rule_put r (set_cli c x s) = bindO (nrs_tbf_rule_put r s) (\<lambda>s'. Ret (set_cli c x s'))"
proof (cases "th_rules s r")
  case (Some rule)
  have "set_rule r y (set_cli c x s) = set_cli c x (set_rule r y s)" for y and s :: "('a, 'b) nrs_tbf_head"
    by (simp add: set_rule_def set_cli_def)
  with Some show ?thesis
    by (simp add: nrs_tbf_rule_put_def nrs_tbf_rule_fini_def lassert_def Let_def)
qed (simp add: nrs_tbf_rule_put_def get_rule_def)

text \<open>The rest of a client, without its rule.\<close>

definition strip :: "nrs_tbf_client \<Rightarrow> nrs_tbf_client" where
  "strip cli = cli\<lparr>tc_linkage := None, tc_rule := None\<rparr>"

lemma rules_ok_unlink:
  assumes "rules_ok e U s" and "th_clients s c = Some cli" and "c \<notin> U" and "tc_rule cli = Some r"
    and "th_rules s r = Some rule"
  shows "rules_ok (e(r := e r + 1)) (insert c U)
    (set_cli c (Some (strip cli)) (set_rule r (Some (rule\<lparr>tr_cli_list := removeAll c (tr_cli_list rule)\<rparr>)) s))"
    (is "rules_ok ?e ?U ?s")
  unfolding rules_ok_def
proof (intro conjI allI impI)
  note ok = rules_okD(4) [OF assms(1,5)]
  have cm: "c \<in> members s r" using assms(2,4) by (auto simp: members_def)
  have mem: "members ?s x = (if x = r then members s r - {c} else members s x)" for x
    using assms(2,4) by (auto simp: members_def strip_def)
  show "list_ok ?s"
    by (rule list_ok_cong [OF rules_okD(1) [OF assms(1)]])
       (use rules_okD(1) [OF assms(1)] assms(5) in \<open>auto simp: list_ok_def named_def\<close>)
  fix r' rule' assume r': "th_rules ?s r' = Some rule'"
  show "rule_ok (?e r') ?s r' rule'"
  proof (cases "r' = r")
    case True
    have "length (removeAll c (tr_cli_list rule)) + 1 = length (tr_cli_list rule)"
      using ok cm by (simp add: rule_ok_def distinct_remove1_removeAll [symmetric] length_remove1)
         (metis One_nat_def Suc_pred length_pos_if_in_set)
    with True r' ok show ?thesis
      by (cases "th_type s") (auto simp: rule_ok_def mem o_rule_fini_def distinct_removeAll)
  next
    case False
    with r' rules_okD(4) [OF assms(1), of r' rule'] show ?thesis by (simp add: rule_ok_def mem)
  qed
next
  fix c' cli' assume "th_clients ?s c' = Some cli'"
  then show "cli_ok ?U ?s c' cli'"
    using rules_okD(5) [OF assms(1), of c'] by (auto simp: cli_ok_def strip_def split: if_splits)
qed (use assms(1,5) in \<open>auto simp: rules_ok_def add_nonneg_nonneg\<close>)

lemma cli_rule_put_ok:
  assumes "rules_ok e U s" and "th_clients s c = Some cli" and "c \<notin> U"
  shows "\<exists>s'. nrs_tbf_cli_rule_put c s = Ret s' \<and> rules_ok e (insert c U) s' \<and>
    s' = s\<lparr>th_clients := (th_clients s)(c := Some (strip cli)), th_rules := th_rules s'\<rparr>"
proof -
  from rules_okD(5) [OF assms(1,2)] assms(3) obtain r rule where
    r: "tc_rule cli = Some r" "tc_linkage cli = Some r" "th_rules s r = Some rule"
    by (auto simp: cli_ok_def)
  let ?rule = "rule\<lparr>tr_cli_list := removeAll c (tr_cli_list rule)\<rparr>"
  let ?s0 = "set_rule r (Some ?rule) s"
  note ok = rules_ok_unlink [OF assms r(1,3)]
  obtain s1 where s1: "nrs_tbf_rule_put r (set_cli c (Some (strip cli)) ?s0) = Ret s1"
    "rules_ok (e(r := e r)) (insert c U) s1" "s1 = (set_cli c (Some (strip cli)) ?s0)\<lparr>th_rules := th_rules s1\<rparr>"
    using rule_put_ok [OF ok, of r] rules_okD(2) [OF assms(1), of r] by auto
  obtain s2 where s2: "nrs_tbf_rule_put r ?s0 = Ret s2" "s1 = set_cli c (Some (strip cli)) s2"
    using s1(1) by (auto simp: rule_put_set_cli)
  have "nrs_tbf_cli_rule_put c s = Ret s1"
    using assms(2) r s2
    by (simp add: nrs_tbf_cli_rule_put_def unlink_cli_def rule_put_set_cli) (simp add: set_cli_def strip_def)
  moreover have "s1 = s\<lparr>th_clients := (th_clients s)(c := Some (strip cli)), th_rules := th_rules s1\<rparr>"
    using s1(3) by (simp add: set_cli_def set_rule_def)
  ultimately show ?thesis using s1(2) by auto
qed

lemma rules_ok_link:
  assumes "rules_ok e U s" and "th_clients s c = Some cli" and "c \<in> U" and "th_rules s r = Some rule" and "0 < e r"
  shows "rules_ok (e(r := e r - 1)) (U - {c})
    (set_cli c (Some (cli\<lparr>tc_rule := Some r, tc_linkage := Some r\<rparr>))
      (set_rule r (Some (rule\<lparr>tr_cli_list := tr_cli_list rule @ [c]\<rparr>)) s))"
    (is "rules_ok ?e ?U ?s")
  unfolding rules_ok_def
proof (intro conjI allI impI)
  note ok = rules_okD(4) [OF assms(1,4)]
  have nr: "tc_rule cli = None" using rules_okD(5) [OF assms(1,2)] assms(3) by (simp add: cli_ok_def)
  then have cm: "c \<notin> members s x" for x using assms(2) by (simp add: members_def)
  have mem: "members ?s x = (if x = r then insert c (members s r) else members s x)" for x
    using assms(2) nr by (auto simp: members_def)
  show "list_ok ?s"
    by (rule list_ok_cong [OF rules_okD(1) [OF assms(1)]])
       (use rules_okD(1) [OF assms(1)] assms(4) in \<open>auto simp: list_ok_def named_def\<close>)
  fix r' rule' assume r': "th_rules ?s r' = Some rule'"
  show "rule_ok (?e r') ?s r' rule'"
  proof (cases "r' = r")
    case True
    with r' have eq: "rule' = rule\<lparr>tr_cli_list := tr_cli_list rule @ [c]\<rparr>" by simp
    have "set (tr_cli_list rule) = members s r" using ok by (simp add: rule_ok_def)
    with ok cm [of r] show ?thesis unfolding True eq
      by (cases "th_type s") (simp_all add: rule_ok_def mem o_rule_fini_def)
  next
    case False
    with r' rules_okD(4) [OF assms(1), of r' rule'] show ?thesis by (simp add: rule_ok_def mem)
  qed
next
  fix c' cli' assume x: "th_clients ?s c' = Some cli'"
  show "cli_ok ?U ?s c' cli'"
  proof (cases "c' = c")
    case True
    with x show ?thesis by (auto simp: cli_ok_def)
  next
    case False
    with x rules_okD(5) [OF assms(1), of c' cli'] show ?thesis by (auto simp: cli_ok_def split: if_splits)
  qed
next
  fix r' assume "0 < ?e r'"
  then show "th_rules ?s r' \<noteq> None" using rules_okD(3) [OF assms(1), of r'] by (auto split: if_splits)
next
  fix r' show "0 \<le> ?e r'" using rules_okD(2) [OF assms(1), of r'] assms(5) by simp
qed

text \<open>Changes to a client that leave its rule alone, and to other parts of the head.\<close>

lemma rules_ok_set_cli:
  assumes "rules_ok e U s" and "th_clients s c = Some cli" and "tc_rule cli' = tc_rule cli"
    and "tc_linkage cli' = tc_linkage cli"
  shows "rules_ok e U (set_cli c (Some cli') s)"
proof -
  have mem: "members (set_cli c (Some cli') s) = members s"
    using assms(2,3) by (intro ext) (auto simp: members_def)
  have "list_ok (set_cli c (Some cli') s)"
    using rules_okD(1) [OF assms(1)]
    by (rule list_ok_cong) (use rules_okD(1) [OF assms(1)] in \<open>auto simp: named_def list_ok_def\<close>)
  moreover have "cli_ok U (set_cli c (Some cli') s) c' x" if x: "th_clients (set_cli c (Some cli') s) c' = Some x" for c' x
  proof (cases "c' = c")
    case True
    with x rules_okD(5) [OF assms(1,2)] assms(3,4) show ?thesis by (auto simp: cli_ok_def)
  next
    case False
    with x rules_okD(5) [OF assms(1), of c' x] show ?thesis by (auto simp: cli_ok_def split: if_splits)
  qed
  moreover have "rule_ok y (set_cli c (Some cli') s) r x = rule_ok y s r x" for y r x
    by (rule rule_ok_cong) (simp_all add: mem)
  ultimately show ?thesis using assms(1) by (simp add: rules_ok_def)
qed

lemma rules_ok_frame:
  assumes "rules_ok e U s" and "th_rules s' = th_rules s" "th_clients s' = th_clients s" "th_list s' = th_list s"
    "th_rule s' = th_rule s" "th_type s' = th_type s"
  shows "rules_ok e U s'"
proof -
  have nm: "named s' = named s" by (intro ext) (simp add: named_def assms(2))
  have mem: "members s' = members s" by (intro ext) (simp add: members_def assms(3))
  have "rule_ok y s' r x = rule_ok y s r x" for y r x by (rule rule_ok_cong) (simp_all add: assms mem)
  moreover have "cli_ok U s' c x = cli_ok U s c x" for c x by (simp add: cli_ok_def assms)
  moreover have "list_ok s' = list_ok s" by (simp add: list_ok_def assms nm)
  ultimately show ?thesis using assms(1) by (simp add: rules_ok_def assms)
qed

section \<open>Resetting a client\<close>

text \<open>What an operation on one client leaves alone.\<close>

definition frame :: "nat \<Rightarrow> ('h, 't) nrs_tbf_head \<Rightarrow> ('h, 't) nrs_tbf_head \<Rightarrow> bool" where
  "frame c s s' \<longleftrightarrow> (\<exists>C R H. s' = s\<lparr>th_clients := C, th_rules := R, th_binheap := H\<rparr> \<and> (\<forall>x. x \<noteq> c \<longrightarrow> C x = th_clients s x))"

lemma frame_trans: "frame c s s1 \<Longrightarrow> frame c s1 s2 \<Longrightarrow> frame c s s2"
  unfolding frame_def by (cases s) auto

lemma frameD:
  assumes "frame c s s'"
  shows "th_list s' = th_list s" "th_rule s' = th_rule s" "th_type s' = th_type s"
    "th_rule_sequence s' = th_rule_sequence s" "th_cli_hash s' = th_cli_hash s" "th_lru s' = th_lru s"
    "hop_compare s' = hop_compare s" "tbf_tw_interval s' = tbf_tw_interval s" "th_hash_bits s' = th_hash_bits s"
    "tbf_jobid_cache_size s' = tbf_jobid_cache_size s" "x \<noteq> c \<Longrightarrow> th_clients s' x = th_clients s x"
  using assms by (auto simp: frame_def)

lemma frameI:
  "s' = s\<lparr>th_clients := C, th_rules := R, th_binheap := H\<rparr> \<Longrightarrow> (\<And>x. x \<noteq> c \<Longrightarrow> C x = th_clients s x) \<Longrightarrow> frame c s s'"
  by (auto simp: frame_def)

lemma frame_set_cli: "frame c s (set_cli c x s)"
  by (rule frameI [where C = "(th_clients s)(c := x)" and R = "th_rules s" and H = "th_binheap s"])
     (cases s; simp add: set_cli_def)+

lemma frame_heap: "frame c s (s\<lparr>th_binheap := h\<rparr>)"
  by (rule frameI [where C = "th_clients s" and R = "th_rules s" and H = h]) (cases s; simp)+

lemma frame_rules: "s' = s\<lparr>th_rules := R\<rparr> \<Longrightarrow> frame c s s'"
  by (rule frameI [where C = "th_clients s" and R = R and H = "th_binheap s"]) (cases s; simp)+

lemma frame_set_rule: "frame c s (set_rule r x s)"
  by (rule frame_rules) (simp add: set_rule_def)

lemma queue_ok_cong:
  assumes "queue_ok elems s" and "th_clients s' = th_clients s" "th_binheap s' = th_binheap s"
  shows "queue_ok elems s'"
  using assms by (simp add: queue_ok_def)

text \<open>The queues of a policy, for a given clock.\<close>

definition sched_ok ::
  "('h, 't) libcfs \<Rightarrow> ('h \<Rightarrow> nat set) \<Rightarrow> ((nat \<Rightarrow> nat \<Rightarrow> bool) \<Rightarrow> 'h \<Rightarrow> bool) \<Rightarrow> u64 \<Rightarrow> ('h, 't) nrs_tbf_head \<Rightarrow> bool" where
  "sched_ok L elems ordered now s \<longleftrightarrow>
     binheap_ok L elems ordered \<and> queue_ok elems s \<and> hop_safe s \<and> clock_ok now s"

lemma sched_ok_cong:
  assumes "sched_ok L elems ordered now s" and "th_clients s' = th_clients s" "th_binheap s' = th_binheap s"
    "hop_compare s' = hop_compare s" "tbf_tw_interval s' = tbf_tw_interval s"
  shows "sched_ok L elems ordered now s'"
  using assms by (simp add: sched_ok_def queue_ok_def hop_safe_def clock_ok_def)

text \<open>A change of a client's links only.\<close>

lemma sched_ok_relink:
  assumes "sched_ok L elems ordered now s" and "th_clients s c = Some cli"
    and "th_clients s' = (th_clients s)(c := Some (cli\<lparr>tc_linkage := x, tc_rule := y\<rparr>))"
    and "th_binheap s' = th_binheap s" "hop_compare s' = hop_compare s" "tbf_tw_interval s' = tbf_tw_interval s"
  shows "sched_ok L elems ordered now s'"
  using assms by (auto simp: sched_ok_def queue_ok_def hop_safe_def clock_ok_def client_queue_ok_def)

text \<open>A client with the values of its rule loaded.\<close>

definition reloaded :: "nrs_tbf_rule \<Rightarrow> u64 \<Rightarrow> u32 \<Rightarrow> nrs_tbf_client \<Rightarrow> nrs_tbf_client" where
  "reloaded rule now seq cli = cli\<lparr>tc_rpc_rate := tr_rpc_rate rule, tc_nsecs := tr_nsecs rule,
     tc_depth := tr_depth rule, tc_ntoken := tr_depth rule, tc_check_time := now,
     tc_rule_sequence := seq, tc_rule_generation := tr_generation rule\<rparr>"

lemma reloaded_simps [simp]:
  "tc_rule (reloaded rule now seq cli) = tc_rule cli" "tc_linkage (reloaded rule now seq cli) = tc_linkage cli"
  "tc_in_heap (reloaded rule now seq cli) = tc_in_heap cli" "tc_list (reloaded rule now seq cli) = tc_list cli"
  "tc_check_time (reloaded rule now seq cli) = now" "tc_ntoken (reloaded rule now seq cli) = tr_depth rule"
  "tc_depth (reloaded rule now seq cli) = tr_depth rule"
  by (simp_all add: reloaded_def)

definition reset_to :: "nat \<Rightarrow> nrs_tbf_client \<Rightarrow> ('h, 't) nrs_tbf_head \<Rightarrow> 'h \<Rightarrow> ('h, 't) nrs_tbf_head" where
  "reset_to c cli s h = (set_cli c (Some cli) s)\<lparr>th_binheap := h\<rparr>"

lemma reset_to_simps [simp]:
  "th_clients (reset_to c cli s h) = (th_clients s)(c := Some cli)" "th_rules (reset_to c cli s h) = th_rules s"
  "th_binheap (reset_to c cli s h) = h" "hop_compare (reset_to c cli s h) = hop_compare s"
  "tbf_tw_interval (reset_to c cli s h) = tbf_tw_interval s" "th_list (reset_to c cli s h) = th_list s"
  "th_rule (reset_to c cli s h) = th_rule s" "th_type (reset_to c cli s h) = th_type s"
  by (simp_all add: reset_to_def)

lemma cli_reset_value_heap:
  assumes "sched_ok L elems ordered now s" and "th_clients s c = Some cli"
    and "tc_rule cli = Some r" "th_rules s r = Some rule"
  shows "\<exists>h. nrs_tbf_cli_reset_value L now c s = Ret (reset_to c (reloaded rule now (th_rule_sequence s) cli) s h) \<and>
    elems h = elems (th_binheap s)"
proof -
  let ?cli = "reloaded rule now (th_rule_sequence s) cli"
  let ?s1 = "set_cli c (Some ?cli) s"
  have so: "binheap_ok L elems ordered" "queue_ok elems s" "hop_safe s"
    using assms(1) by (simp_all add: sched_ok_def)
  have eq: "nrs_tbf_cli_reset_value L now c s = (if tc_in_heap cli then relocate L c ?s1 else Ret ?s1)"
    using assms(2-4) by (simp add: nrs_tbf_cli_reset_value_def reloaded_def)
  show ?thesis
  proof (cases "tc_in_heap cli")
    case True
    with queue_okD(4) [OF so(2) assms(2)] have ce: "c \<in> elems (th_binheap s)" by simp
    obtain h where h: "relocate L c ?s1 = Ret (?s1\<lparr>th_binheap := h\<rparr>)" "elems h = elems (th_binheap s)"
      using update_relocate [where elems = elems, OF so(1,3) queue_okD(2) [OF so(2)] ce refl, of ?cli] by metis
    with True eq show ?thesis by (auto simp: reset_to_def)
  next
    case False
    have "?s1 = reset_to c ?cli s (th_binheap s)" by (cases s) (simp add: reset_to_def set_cli_def)
    with False eq show ?thesis by auto
  qed
qed

lemma reset_to_ok:
  assumes "rules_ok e U s" and "sched_ok L elems ordered now s" and "th_clients s c = Some cli"
    and "th_rules s r = Some rule" and "elems h = elems (th_binheap s)"
  shows "rules_ok e U (reset_to c (reloaded rule now q cli) s h)"
    and "sched_ok L elems ordered now (reset_to c (reloaded rule now q cli) s h)"
proof -
  let ?cli = "reloaded rule now q cli"
  have so: "binheap_ok L elems ordered" "queue_ok elems s" "hop_safe s" "clock_ok now s"
    using assms(2) by (simp_all add: sched_ok_def)
  have "rules_ok e U (set_cli c (Some ?cli) s)" by (rule rules_ok_set_cli [OF assms(1,3)]) simp_all
  then show "rules_ok e U (reset_to c ?cli s h)" by (rule rules_ok_frame) simp_all
  have "unat (tr_depth rule) < 2 ^ 63" using rules_okD(4) [OF assms(1,4)] by (simp add: rule_ok_def)
  then have "client_queue_ok ?cli" using queue_okD(3) [OF so(2) assms(3)] by (simp add: client_queue_ok_def)
  then have "queue_ok elems (reset_to c ?cli s h)"
    by (rule queue_ok_update [OF so(2), rotated]) (use assms(3,5) queue_okD(4) [OF so(2) assms(3)] in auto)
  moreover have "clock_ok now (reset_to c ?cli s h)" using so(4) by (auto simp: clock_ok_def)
  moreover have "hop_safe (reset_to c ?cli s h)" using so(3) by (simp add: hop_safe_def)
  ultimately show "sched_ok L elems ordered now (reset_to c ?cli s h)" using so(1) by (simp add: sched_ok_def)
qed

text \<open>Taking a client off its rule, if it has one.\<close>

lemma detach_ok:
  assumes "rules_ok e U s" and "sched_ok L elems ordered now s" and "th_clients s c = Some cli"
    and "c \<in> U \<or> tc_rule cli \<noteq> Some r"
  shows "\<exists>s1. (if tc_rule cli \<noteq> None \<and> tc_linkage cli \<noteq> None
       then lassert (tc_rule cli \<noteq> Some r) (nrs_tbf_cli_rule_put c s) else Ret s) = Ret s1 \<and>
    rules_ok e (insert c U) s1 \<and> sched_ok L elems ordered now s1 \<and> frame c s s1 \<and>
    th_clients s1 c = Some (strip cli) \<and> th_binheap s1 = th_binheap s"
proof (cases "c \<in> U")
  case True
  then have "tc_rule cli = None" "tc_linkage cli = None"
    using rules_okD(5) [OF assms(1,3)] by (simp_all add: cli_ok_def)
  moreover from this have "strip cli = cli" by (simp add: strip_def)
  moreover have "frame c s s" using frame_set_cli [of c s "th_clients s c"] by (simp add: set_cli_def fun_upd_idem)
  ultimately show ?thesis using True assms(1-3) by (simp add: insert_absorb)
next
  case False
  obtain s1 where s1: "nrs_tbf_cli_rule_put c s = Ret s1" "rules_ok e (insert c U) s1"
    "s1 = s\<lparr>th_clients := (th_clients s)(c := Some (strip cli)), th_rules := th_rules s1\<rparr>"
    using cli_rule_put_ok [OF assms(1,3) False] by blast
  have cl: "th_clients s1 = (th_clients s)(c := Some (strip cli))" "th_binheap s1 = th_binheap s"
    "hop_compare s1 = hop_compare s" "tbf_tw_interval s1 = tbf_tw_interval s" by (subst s1(3), simp)+
  have "sched_ok L elems ordered now s1"
    by (rule sched_ok_relink [OF assms(2,3), where x = None and y = None]) (simp_all add: cl strip_def)
  moreover have "frame c s s1"
    by (rule frameI [where C = "th_clients s1" and R = "th_rules s1" and H = "th_binheap s"])
       (subst s1(3), cases s, simp_all add: cl)
  moreover have "tc_rule cli \<noteq> None \<and> tc_linkage cli \<noteq> None"
    using rules_okD(5) [OF assms(1,3)] False by (auto simp: cli_ok_def)
  ultimately show ?thesis using False assms(4) s1(1,2) cl by simp
qed

lemma cli_reset_ok:
  assumes "rules_ok e U s" and "sched_ok L elems ordered now s" and "th_clients s c = Some cli"
    and "c \<in> U \<or> tc_rule cli \<noteq> Some r" and "0 < e r"
  shows "\<exists>s' rule. nrs_tbf_cli_reset L now r c s = Ret s' \<and> rules_ok (e(r := e r - 1)) (U - {c}) s' \<and>
    sched_ok L elems ordered now s' \<and> frame c s s' \<and> elems (th_binheap s') = elems (th_binheap s) \<and>
    th_rules s' r = Some rule \<and>
    th_clients s' c = Some (reloaded rule now (th_rule_sequence s) (cli\<lparr>tc_rule := Some r, tc_linkage := Some r\<rparr>))"
proof -
  obtain s1 where d: "(if tc_rule cli \<noteq> None \<and> tc_linkage cli \<noteq> None
       then lassert (tc_rule cli \<noteq> Some r) (nrs_tbf_cli_rule_put c s) else Ret s) = Ret s1"
    and s1: "rules_ok e (insert c U) s1" "sched_ok L elems ordered now s1" "frame c s s1"
      "th_clients s1 c = Some (strip cli)" "th_binheap s1 = th_binheap s"
    using detach_ok [OF assms(1-4)] by blast
  obtain rule where r: "th_rules s1 r = Some rule" using rules_okD(3) [OF s1(1) assms(5)] by blast
  let ?cli = "cli\<lparr>tc_rule := Some r, tc_linkage := Some r\<rparr>"
  let ?rule = "rule\<lparr>tr_cli_list := tr_cli_list rule @ [c]\<rparr>"
  let ?s2 = "set_cli c (Some ?cli) (set_rule r (Some ?rule) s1)"
  have st: "(strip cli)\<lparr>tc_rule := Some r, tc_linkage := Some r\<rparr> = ?cli" by (simp add: strip_def)
  have ok2: "rules_ok (e(r := e r - 1)) (U - {c}) ?s2"
    using rules_ok_link [OF s1(1,4) _ r assms(5)] by (simp add: st)
  have so2: "sched_ok L elems ordered now ?s2"
    by (rule sched_ok_relink [OF s1(2,4), where x = "Some r" and y = "Some r"]) (cases cli; simp add: strip_def)+
  have fr: "frame c s ?s2" using frame_trans [OF frame_trans [OF s1(3) frame_set_rule] frame_set_cli] .
  have c2: "th_clients ?s2 c = Some ?cli" "tc_rule ?cli = Some r" "th_rules ?s2 r = Some ?rule" by simp_all
  obtain h where h: "nrs_tbf_cli_reset_value L now c ?s2 = Ret (reset_to c (reloaded ?rule now (th_rule_sequence ?s2) ?cli) ?s2 h)"
    "elems h = elems (th_binheap ?s2)"
    using cli_reset_value_heap [OF so2 c2] by blast
  have eq: "nrs_tbf_cli_reset L now r c s = nrs_tbf_cli_reset_value L now c ?s2"
    using assms(3) d s1(4) r st by (simp add: nrs_tbf_cli_reset_def) (simp add: strip_def)
  have sq: "th_rule_sequence ?s2 = th_rule_sequence s" using frameD(4) [OF fr] .
  have "frame c s (reset_to c (reloaded ?rule now (th_rule_sequence s) ?cli) ?s2 h)"
    unfolding reset_to_def using frame_trans [OF frame_trans [OF fr frame_set_cli] frame_heap] .
  with reset_to_ok [OF ok2 so2 c2(1,3) h(2)] h eq sq s1(5) c2(3) show ?thesis
    by (intro exI [of _ "reset_to c (reloaded ?rule now (th_rule_sequence s) ?cli) ?s2 h"] exI [of _ ?rule] conjI) simp_all
qed

end
