(* ===== verification/Tbf_Rulebook.thy ===== *)
theory Tbf_Rulebook
  imports Tbf_Refs
begin

text \<open>
  The rule commands over the reference discipline of \<open>Tbf_Refs\<close>: what finding, matching,
  starting, changing and stopping a rule do, that they keep the invariant, and when a change
  reaches the clients.
\<close>

section \<open>Searching the list\<close>

lemma scan_rules_find:
  assumes "\<And>r. r \<in> set rs \<Longrightarrow> \<exists>rule. th_rules s r = Some rule \<and> \<not> tr_stopping rule \<and> p rule = Ret (q r)"
  shows "scan_rules s p rs = Ret (find q rs)"
  using assms
proof (induction rs)
  case (Cons r rs)
  from Cons.prems [of r] obtain rule where "th_rules s r = Some rule" "\<not> tr_stopping rule" "p rule = Ret (q r)" by auto
  moreover have "scan_rules s p rs = Ret (find q rs)" using Cons by simp
  ultimately show ?case by simp
qed simp

lemma listed_rule:
  assumes "rules_ok e U s" and "r \<in> set (th_list s)"
  obtains rule where "th_rules s r = Some rule" "\<not> tr_stopping rule" "length (tr_name rule) < MAX_TBF_NAME"
    "named s r = tr_name rule"
proof -
  from rules_okD(1) [OF assms(1)] assms(2) obtain rule where r: "th_rules s r = Some rule" by (auto simp: list_ok_def)
  with rules_okD(4) [OF assms(1) r] assms(2) that show thesis by (simp add: rule_ok_def named_def)
qed

lemma rule_find_ok:
  assumes "rules_ok e U s"
  shows "(nrs_tbf_rule_find name s = Ret (None, s) \<and> (\<forall>r\<in>set (th_list s). named s r \<noteq> name)) \<or>
    (\<exists>r rule. r \<in> set (th_list s) \<and> th_rules s r = Some rule \<and> tr_name rule = name \<and>
       nrs_tbf_rule_find name s = Ret (Some r, set_rule r (Some (rule\<lparr>tr_ref := tr_ref rule + 1\<rparr>)) s) \<and>
       rules_ok (e(r := e r + 1)) U (set_rule r (Some (rule\<lparr>tr_ref := tr_ref rule + 1\<rparr>)) s))"
proof -
  have sc: "scan_rules s (\<lambda>rule. rule_named rule name) (th_list s) = Ret (find (\<lambda>r. named s r = name) (th_list s))"
  proof (rule scan_rules_find)
    fix r assume "r \<in> set (th_list s)"
    then show "\<exists>rule. th_rules s r = Some rule \<and> \<not> tr_stopping rule \<and> rule_named rule name = Ret (named s r = name)"
      by (rule listed_rule [OF assms]) (simp add: rule_named_def)
  qed
  show ?thesis
  proof (cases "find (\<lambda>r. named s r = name) (th_list s)")
    case None
    with sc show ?thesis by (auto simp: nrs_tbf_rule_find_def find_None_iff)
  next
    case (Some r)
    then have r: "r \<in> set (th_list s)" "named s r = name" by (auto simp: find_Some_iff)
    obtain rule where rl: "th_rules s r = Some rule" "named s r = tr_name rule" using listed_rule [OF assms r(1)] by blast
    from rule_get_ok [OF assms rl(1)] sc Some r rl show ?thesis
      by (intro disjI2 exI [of _ r] exI [of _ rule]) (simp add: nrs_tbf_rule_find_def)
  qed
qed

text \<open>Matching takes the newest rule that matches, and the default rule when none does.\<close>

definition newest_match :: "('h, 't) nrs_tbf_head \<Rightarrow> nrs_tbf_client \<Rightarrow> nat option" where
  "newest_match s cli =
     (case find (\<lambda>r. case th_rules s r of None \<Rightarrow> False | Some rule \<Rightarrow> o_rule_match (th_type s) rule cli) (th_list s) of
        None \<Rightarrow> th_rule s | Some r \<Rightarrow> Some r)"

lemma rule_match_ok:
  assumes "rules_ok e U s" and "th_clients s c = Some cli"
  obtains r rule where "newest_match s cli = Some r" "r \<in> set (th_list s)" "th_rules s r = Some rule"
    "nrs_tbf_rule_match c s = Ret (r, set_rule r (Some (rule\<lparr>tr_ref := tr_ref rule + 1\<rparr>)) s)"
    "rules_ok (e(r := e r + 1)) U (set_rule r (Some (rule\<lparr>tr_ref := tr_ref rule + 1\<rparr>)) s)"
proof -
  let ?q = "\<lambda>r. case th_rules s r of None \<Rightarrow> False | Some rule \<Rightarrow> o_rule_match (th_type s) rule cli"
  have sc: "scan_rules s (\<lambda>rule. Ret (o_rule_match (th_type s) rule cli)) (th_list s) = Ret (find ?q (th_list s))"
  proof (rule scan_rules_find)
    fix r assume "r \<in> set (th_list s)"
    then show "\<exists>rule. th_rules s r = Some rule \<and> \<not> tr_stopping rule \<and>
        Ret (o_rule_match (th_type s) rule cli) = Ret (?q r)"
      by (rule listed_rule [OF assms(1)]) simp
  qed
  obtain d where d: "th_rule s = Some d" "d \<in> set (th_list s)"
    using rules_okD(1) [OF assms(1)] by (auto simp: list_ok_def)
  obtain r where r: "newest_match s cli = Some r" "r \<in> set (th_list s)"
    using d by (cases "find ?q (th_list s)") (auto simp: newest_match_def find_Some_iff)
  obtain rule where rl: "th_rules s r = Some rule" using listed_rule [OF assms(1) r(2)] by blast
  have "nrs_tbf_rule_match c s = bindO (nrs_tbf_rule_get r s) (\<lambda>s1. Ret (r, s1))"
    using assms(2) sc r(1) by (cases "find ?q (th_list s)") (auto simp: nrs_tbf_rule_match_def newest_match_def)
  with rule_get_ok [OF assms(1) rl] that r rl show thesis by simp
qed

lemma rule_match_newest:
  assumes "rules_ok e U s" and "newest_match s cli = Some r"
  shows "(\<exists>newer older rule. th_list s = newer @ r # older \<and> th_rules s r = Some rule \<and>
       o_rule_match (th_type s) rule cli \<and>
       (\<forall>r'\<in>set newer. \<forall>rule'. th_rules s r' = Some rule' \<longrightarrow> \<not> o_rule_match (th_type s) rule' cli)) \<or>
     th_rule s = Some r \<and>
       (\<forall>r'\<in>set (th_list s). \<forall>rule'. th_rules s r' = Some rule' \<longrightarrow> \<not> o_rule_match (th_type s) rule' cli)"
proof (cases "find (\<lambda>r. case th_rules s r of None \<Rightarrow> False | Some rule \<Rightarrow> o_rule_match (th_type s) rule cli) (th_list s)")
  case None
  with assms(2) show ?thesis by (auto simp: newest_match_def find_None_iff split: option.splits)
next
  case (Some r')
  with assms(2) have "r' = r" by (simp add: newest_match_def)
  with Some have "r \<in> set (th_list s)" by (auto simp: find_Some_iff)
  then obtain rule where rl: "th_rules s r = Some rule" using listed_rule [OF assms(1)] by blast
  from Some \<open>r' = r\<close> obtain i where i: "i < length (th_list s)" "th_list s ! i = r"
    "o_rule_match (th_type s) rule cli"
    "\<forall>j<i. \<not> (case th_rules s (th_list s ! j) of None \<Rightarrow> False | Some rule \<Rightarrow> o_rule_match (th_type s) rule cli)"
    using rl by (auto simp: find_Some_iff)
  have "th_list s = take i (th_list s) @ r # drop (Suc i) (th_list s)" using i(1,2) id_take_nth_drop by metis
  moreover have "\<forall>r'\<in>set (take i (th_list s)). \<forall>rule'. th_rules s r' = Some rule' \<longrightarrow> \<not> o_rule_match (th_type s) rule' cli"
    using i(1,4) by (fastforce simp: in_set_conv_nth)
  ultimately show ?thesis using i(3) rl by blast
qed

section \<open>Changing and stopping a rule\<close>

lemma named_unique:
  assumes "rules_ok e U s" and "r \<in> set (th_list s)" "r' \<in> set (th_list s)" and "named s r = named s r'"
  shows "r = r'"
  using rules_okD(1) [OF assms(1)] assms(2-4) by (auto simp: list_ok_def inj_on_def)

lemma set_rule_set_rule [simp]: "set_rule r x (set_rule r y s) = set_rule r x s"
  by (simp add: set_rule_def)

lemma set_rule_same [simp]: "th_rules s r = x \<Longrightarrow> set_rule r x s = s"
  by (auto simp: set_rule_def)

text \<open>A rule as \<open>nrs_tbf_rule_change\<close> leaves it.\<close>

definition re_rated :: "u64 \<Rightarrow> nrs_tbf_rule \<Rightarrow> nrs_tbf_rule" where
  "re_rated rate rule = rule\<lparr>tr_rpc_rate := rate, tr_nsecs := NSEC_PER_SEC div rate,
     tr_generation := tr_generation rule + 1\<rparr>"

lemma re_rated_ok:
  assumes "rule_ok x s r rule" and "rate \<noteq> 0"
  shows "rule_ok x s r (re_rated rate rule)"
  using assms by (cases "th_type s") (simp_all add: rule_ok_def re_rated_def o_rule_fini_def)

lemma rule_change_ok:
  assumes "rules_ok e U s" and "tc_cmd_rate cmd \<noteq> 0"
  shows "(nrs_tbf_rule_change cmd s = Ret (- ENOENT, s) \<and> (\<forall>r\<in>set (th_list s). named s r \<noteq> tc_name cmd)) \<or>
    (\<exists>r rule. r \<in> set (th_list s) \<and> th_rules s r = Some rule \<and> tr_name rule = tc_name cmd \<and>
       nrs_tbf_rule_change cmd s = Ret (0, set_rule r (Some (re_rated (tc_cmd_rate cmd) rule)) s) \<and>
       rules_ok e U (set_rule r (Some (re_rated (tc_cmd_rate cmd) rule)) s))"
  using rule_find_ok [OF assms(1), of "tc_name cmd"]
proof (elim disjE exE conjE)
  assume "nrs_tbf_rule_find (tc_name cmd) s = Ret (None, s)" "\<forall>r\<in>set (th_list s). named s r \<noteq> tc_name cmd"
  then show ?thesis by (simp add: nrs_tbf_rule_change_def)
next
  fix r and rule :: nrs_tbf_rule
  let ?held = "rule\<lparr>tr_ref := tr_ref rule + 1\<rparr>"
  assume r: "r \<in> set (th_list s)" "th_rules s r = Some rule" "tr_name rule = tc_name cmd"
    and f: "nrs_tbf_rule_find (tc_name cmd) s = Ret (Some r, set_rule r (Some ?held) s)"
    and ok: "rules_ok (e(r := e r + 1)) U (set_rule r (Some ?held) s)"
  let ?new = "re_rated (tc_cmd_rate cmd) ?held"
  have e: "0 \<le> e r" using rules_okD(2) [OF assms(1)] .
  have rk: "rule_ok (e r + 1) (set_rule r (Some ?held) s) r ?new"
    using re_rated_ok [OF rules_okD(4) [OF ok, of r ?held] assms(2)] by simp
  have ok2: "rules_ok (e(r := e r + 1)) U (set_rule r (Some ?new) s)"
    using rules_ok_set_rule [OF ok _ _ _ rk, of ?held] e by (simp add: re_rated_def)
  have "nrs_tbf_rule_change cmd s = bindO (nrs_tbf_rule_put r (set_rule r (Some ?new) s)) (\<lambda>s. Ret (0, s))"
    using f assms(2) by (simp add: nrs_tbf_rule_change_def re_rated_def)
  also have "nrs_tbf_rule_put r (set_rule r (Some ?new) s) =
      Ret (set_rule r (Some (re_rated (tc_cmd_rate cmd) rule)) s)"
    using rule_put_keeps [OF ok2, of r ?new] r e by (simp add: re_rated_def)
  finally have res: "nrs_tbf_rule_change cmd s = Ret (0, set_rule r (Some (re_rated (tc_cmd_rate cmd) rule)) s)" by simp
  have "rules_ok (e(r := e r)) U (set_rule r (Some (re_rated (tc_cmd_rate cmd) rule)) s)"
    by (rule rules_ok_set_rule [OF assms(1) r(2)])
       (use re_rated_ok [OF rules_okD(4) [OF assms(1) r(2)] assms(2)] e in \<open>simp_all add: re_rated_def\<close>)
  with res r show ?thesis by (intro disjI2 exI [of _ r] exI [of _ rule]) simp
qed

text \<open>
  A rule taken off the list loses the list's reference; the last client that leaves it, or the
  command itself when there is none, frees it.
\<close>

definition unlisted :: "nat \<Rightarrow> nrs_tbf_rule option \<Rightarrow> ('h, 't) nrs_tbf_head \<Rightarrow> ('h, 't) nrs_tbf_head" where
  "unlisted r x s = (set_rule r x s)\<lparr>th_list := removeAll r (th_list s)\<rparr>"

lemma unlisted_simps [simp]:
  "th_rules (unlisted r x s) = (th_rules s)(r := x)" "th_clients (unlisted r x s) = th_clients s"
  "th_list (unlisted r x s) = removeAll r (th_list s)" "th_rule (unlisted r x s) = th_rule s"
  "th_type (unlisted r x s) = th_type s" "set_rule r y (unlisted r x s) = unlisted r y s"
  "unlisted r x (set_rule r y s) = unlisted r x s"
  by (simp_all add: unlisted_def set_rule_def)

lemma rules_ok_unlist:
  assumes "rules_ok e U s" and "r \<in> set (th_list s)" and "th_rules s r = Some rule" and "th_rule s \<noteq> Some r"
  shows "rules_ok (e(r := e r + 1)) U
    (unlisted r (Some (rule\<lparr>tr_stopping := True\<rparr>)) s)"
    (is "rules_ok ?e U ?s")
  unfolding rules_ok_def
proof (intro conjI allI impI)
  have nm: "named ?s = named s" using assms(3) by (intro ext) (simp add: named_def)
  show "list_ok ?s" using rules_okD(1) [OF assms(1)] assms(3,4) nm
    by (auto simp: list_ok_def distinct_removeAll inj_on_def)
  have mem: "members ?s x = members s x" for x by (simp add: members_def)
  fix r' rule' assume r': "th_rules ?s r' = Some rule'"
  show "rule_ok (?e r') ?s r' rule'"
  proof (cases "r' = r")
    case True
    with r' have eq: "rule' = rule\<lparr>tr_stopping := True\<rparr>" by simp
    show ?thesis using rules_okD(4) [OF assms(1,3)] assms(2) unfolding True eq
      by (cases "th_type s") (simp_all add: rule_ok_def mem o_rule_fini_def)
  next
    case False
    with r' rules_okD(4) [OF assms(1), of r' rule'] show ?thesis by (simp add: rule_ok_def mem)
  qed
next
  fix c cli assume "th_clients ?s c = Some cli"
  with rules_okD(5) [OF assms(1), of c cli] show "cli_ok U ?s c cli" by (auto simp: cli_ok_def split: if_splits)
next
  fix r' show "0 \<le> ?e r'" using rules_okD(2) [OF assms(1), of r'] rules_okD(2) [OF assms(1), of r] by simp
  assume "0 < ?e r'"
  then show "th_rules ?s r' \<noteq> None" using rules_okD(3) [OF assms(1), of r'] by (auto split: if_splits)
qed

text \<open>The rules after a stop: the stopped one is gone, or waits for its clients.\<close>

definition stopped_rule :: "nrs_tbf_rule \<Rightarrow> nrs_tbf_rule option" where
  "stopped_rule rule =
     (if tr_cli_list rule = [] then None else Some (rule\<lparr>tr_stopping := True, tr_ref := tr_ref rule - 1\<rparr>))"

lemma rule_put_twice:
  assumes "rules_ok (\<lambda>_. 0) U s" and "r \<in> set (th_list s)" and "th_rules s r = Some rule" and "th_rule s \<noteq> Some r"
  defines "s1 \<equiv> unlisted r (Some (rule\<lparr>tr_ref := tr_ref rule + 1, tr_stopping := True\<rparr>)) s"
  shows "bindO (nrs_tbf_rule_put r s1) (nrs_tbf_rule_put r) =
      Ret (unlisted r (stopped_rule rule) s)"
    and "rules_ok (\<lambda>_. 0) U (unlisted r (stopped_rule rule) s)"
proof -
  note ok = rules_okD(4) [OF assms(1,3)]
  have tr: "tr_ref rule = 1 + int (length (tr_cli_list rule))" using ok assms(2) by (simp add: rule_ok_def)
  let ?held = "rule\<lparr>tr_ref := tr_ref rule + 1\<rparr>"
  have h: "rules_ok ((\<lambda>_. 0)(r := 1)) U (set_rule r (Some ?held) s)" using rule_get_ok(2) [OF assms(1,3)] by simp
  have ok1: "rules_ok ((\<lambda>_. 0)(r := 2)) U s1"
    using rules_ok_unlist [OF h, of r ?held] assms(2,4) by (simp add: s1_def)
  obtain s2 where s2: "nrs_tbf_rule_put r s1 = Ret s2" "rules_ok ((\<lambda>_. 0)(r := 1)) U s2"
    using rule_put_ok [OF ok1, of r] by auto
  obtain s3 where s3: "nrs_tbf_rule_put r s2 = Ret s3" "rules_ok ((\<lambda>_. 0)(r := 0)) U s3"
    using rule_put_ok [OF s2(2), of r] by auto
  have e2: "s2 = unlisted r (Some (rule\<lparr>tr_stopping := True\<rparr>)) s"
    using s2(1) rule_put_keeps [OF ok1, of r "rule\<lparr>tr_ref := tr_ref rule + 1, tr_stopping := True\<rparr>"]
    by (simp add: s1_def)
  have fin: "o_rule_fini (th_type s) (rule\<lparr>tr_stopping := True, tr_ref := 0\<rparr>)"
    using ok by (cases "th_type s") (simp_all add: rule_ok_def o_rule_fini_def)
  have "s3 = unlisted r (stopped_rule rule) s"
  proof (cases "tr_cli_list rule = []")
    case True
    with s3(1) tr fin show ?thesis unfolding e2
      by (simp add: nrs_tbf_rule_put_def nrs_tbf_rule_fini_def stopped_rule_def)
  next
    case False
    with s3(1) tr show ?thesis unfolding e2
      by (simp add: nrs_tbf_rule_put_def stopped_rule_def Let_def)
  qed
  with s2 s3 show "bindO (nrs_tbf_rule_put r s1) (nrs_tbf_rule_put r) =
      Ret (unlisted r (stopped_rule rule) s)"
    "rules_ok (\<lambda>_. 0) U (unlisted r (stopped_rule rule) s)"
    by (simp_all add: fun_upd_idem)
qed

lemma rule_stop_ok:
  assumes "rules_ok (\<lambda>_. 0) U s"
  shows "(tc_name cmd = NRS_TBF_DEFAULT_RULE \<and> nrs_tbf_rule_stop cmd s = Ret (- EPERM, s)) \<or>
    (tc_name cmd \<noteq> NRS_TBF_DEFAULT_RULE \<and> nrs_tbf_rule_stop cmd s = Ret (- ENOENT, s) \<and>
       (\<forall>r\<in>set (th_list s). named s r \<noteq> tc_name cmd)) \<or>
    (\<exists>r rule. tc_name cmd \<noteq> NRS_TBF_DEFAULT_RULE \<and> r \<in> set (th_list s) \<and> th_rules s r = Some rule \<and>
       tr_name rule = tc_name cmd \<and>
       nrs_tbf_rule_stop cmd s = Ret (0, unlisted r (stopped_rule rule) s) \<and>
       rules_ok (\<lambda>_. 0) U (unlisted r (stopped_rule rule) s))"
proof (cases "tc_name cmd = NRS_TBF_DEFAULT_RULE")
  case True
  then show ?thesis by (simp add: nrs_tbf_rule_stop_def)
next
  case False
  from rule_find_ok [OF assms, of "tc_name cmd"] show ?thesis
  proof (elim disjE exE conjE)
    assume "nrs_tbf_rule_find (tc_name cmd) s = Ret (None, s)" "\<forall>r\<in>set (th_list s). named s r \<noteq> tc_name cmd"
    with False show ?thesis by (simp add: nrs_tbf_rule_stop_def)
  next
    fix r rule
    assume r: "r \<in> set (th_list s)" "th_rules s r = Some rule" "tr_name rule = tc_name cmd"
      and f: "nrs_tbf_rule_find (tc_name cmd) s = Ret (Some r, set_rule r (Some (rule\<lparr>tr_ref := tr_ref rule + 1\<rparr>)) s)"
    obtain d where d: "th_rule s = Some d" "named s d = NRS_TBF_DEFAULT_RULE"
      using rules_okD(1) [OF assms] by (auto simp: list_ok_def)
    have nd: "th_rule s \<noteq> Some r" using d r False by (auto simp: named_def)
    note p = rule_put_twice [OF assms r(1,2) nd]
    have "nrs_tbf_rule_stop cmd s = bindO (bindO (nrs_tbf_rule_put r
        (unlisted r (Some (rule\<lparr>tr_ref := tr_ref rule + 1, tr_stopping := True\<rparr>)) s))
        (nrs_tbf_rule_put r)) (\<lambda>s. Ret (0, s))"
      using False f by (simp add: nrs_tbf_rule_stop_def bindO_bindO unlisted_def set_rule_def)
    with p False r show ?thesis by (intro disjI2 exI [of _ r] exI [of _ rule]) simp
  qed
qed

section \<open>Starting a rule\<close>

lemma jobid_list_loop_rc: "fst (jobid_list_loop L mem str acc) \<in> {0, - EINVAL, - ENOMEM}"
proof (induction L mem str acc rule: jobid_list_loop.induct)
  case (1 L mem str acc)
  then show ?case by (subst jobid_list_loop.simps) (auto split: option.splits)
qed

text \<open>The list string a policy of each type needs in a command.\<close>

definition list_string :: "tbf_type \<Rightarrow> nrs_tbf_cmd \<Rightarrow> string option" where
  "list_string ty cmd = (case ty of NRS_TBF_TYPE_JOBID \<Rightarrow> tc_jobids_str cmd | NRS_TBF_TYPE_NID \<Rightarrow> tc_nids_str cmd)"

lemma o_rule_init_ok:
  assumes "list_string ty cmd \<noteq> None"
  shows "\<exists>rc rule'. o_rule_init L mem_str mem ty cmd rule = Ret (rc, rule') \<and> rc \<in> {0, - EINVAL, - ENOMEM} \<and>
    (rc = 0 \<longrightarrow> o_rule_fini ty rule' \<and> tr_name rule' = tr_name rule \<and> tr_ref rule' = tr_ref rule \<and>
       tr_cli_list rule' = tr_cli_list rule \<and> tr_stopping rule' = tr_stopping rule \<and>
       tr_rpc_rate rule' = tr_rpc_rate rule \<and> tr_nsecs rule' = tr_nsecs rule \<and> tr_depth rule' = tr_depth rule)"
proof (cases ty)
  case NRS_TBF_TYPE_JOBID
  with assms obtain str where str: "tc_jobids_str cmd = Some str" by (auto simp: list_string_def)
  obtain rc ids where p: "nrs_tbf_jobid_list_parse L mem str = (rc, ids)" by (cases "nrs_tbf_jobid_list_parse L mem str")
  have "rc \<in> {0, - EINVAL, - ENOMEM}"
    using jobid_list_loop_rc [of L mem str "[]"] p by (simp add: nrs_tbf_jobid_list_parse_def)
  with NRS_TBF_TYPE_JOBID str p show ?thesis by (auto simp: o_rule_init_def o_rule_fini_def)
next
  case NRS_TBF_TYPE_NID
  then show ?thesis using assms
    by (auto simp: o_rule_init_def list_string_def o_rule_fini_def split: option.splits)
qed

definition listed :: "nat \<Rightarrow> nrs_tbf_rule \<Rightarrow> ('h, 't) nrs_tbf_head \<Rightarrow> ('h, 't) nrs_tbf_head" where
  "listed r rule s =
     set_rule r (Some rule) (s\<lparr>th_list := r # th_list s, th_rule_sequence := th_rule_sequence s + 1\<rparr>)"

lemma listed_simps [simp]:
  "th_rules (listed r rule s) = (th_rules s)(r := Some rule)" "th_clients (listed r rule s) = th_clients s"
  "th_list (listed r rule s) = r # th_list s" "th_rule (listed r rule s) = th_rule s"
  "th_type (listed r rule s) = th_type s" "th_rule_sequence (listed r rule s) = th_rule_sequence s + 1"
  "th_binheap (listed r rule s) = th_binheap s" "hop_compare (listed r rule s) = hop_compare s"
  "tbf_tw_interval (listed r rule s) = tbf_tw_interval s"
  by (simp_all add: listed_def)

definition fresh_rule :: "tbf_type \<Rightarrow> nrs_tbf_rule \<Rightarrow> bool" where
  "fresh_rule ty rule \<longleftrightarrow> tr_ref rule = 1 \<and> tr_cli_list rule = [] \<and> \<not> tr_stopping rule \<and> o_rule_fini ty rule \<and>
     length (tr_name rule) < MAX_TBF_NAME \<and> tr_rpc_rate rule \<noteq> 0 \<and>
     tr_nsecs rule = NSEC_PER_SEC div tr_rpc_rate rule \<and> unat (tr_depth rule) < 2 ^ 63"

lemma unused_rule:
  assumes "rules_ok e U s" and "th_rules s r = None"
  shows "members s r = {}" and "r \<notin> set (th_list s)" and "e r = 0"
proof -
  have "tc_rule cli \<noteq> Some r" if "th_clients s c = Some cli" for c cli
    using rules_okD(5) [OF assms(1) that] assms(2) by (auto simp: cli_ok_def split: if_splits)
  then show "members s r = {}" by (auto simp: members_def)
  show "r \<notin> set (th_list s)" using rules_okD(1) [OF assms(1)] assms(2) by (auto simp: list_ok_def)
  have "\<not> 0 < e r" using rules_okD(3) [OF assms(1), of r] assms(2) by blast
  with rules_okD(2) [OF assms(1), of r] show "e r = 0" by simp
qed

lemma rules_ok_listed:
  assumes "rules_ok e U s" and "th_rules s r = None" and "fresh_rule (th_type s) rule"
    and "\<forall>r'\<in>set (th_list s). named s r' \<noteq> tr_name rule"
  shows "rules_ok e U (listed r rule s)"
  unfolding rules_ok_def
proof (intro conjI allI impI)
  note un = unused_rule [OF assms(1,2)]
  have nm: "named (listed r rule s) = (named s)(r := tr_name rule)" by (intro ext) (simp add: named_def)
  have mem: "members (listed r rule s) = members s" by (intro ext) (simp add: members_def)
  show "list_ok (listed r rule s)"
    using rules_okD(1) [OF assms(1)] un(2) assms(4) nm by (auto simp: list_ok_def inj_on_def)
  fix r' rule' assume r': "th_rules (listed r rule s) r' = Some rule'"
  show "rule_ok (e r') (listed r rule s) r' rule'"
  proof (cases "r' = r")
    case True
    with r' have "rule' = rule" by simp
    with True assms(3) un show ?thesis by (simp add: rule_ok_def fresh_rule_def mem)
  next
    case False
    with r' rules_okD(4) [OF assms(1), of r' rule'] show ?thesis by (simp add: rule_ok_def mem)
  qed
next
  fix c cli assume "th_clients (listed r rule s) c = Some cli"
  with rules_okD(5) [OF assms(1), of c cli] show "cli_ok U (listed r rule s) c cli"
    by (auto simp: cli_ok_def split: if_splits)
qed (use rules_okD(2,3) [OF assms(1)] in auto)

text \<open>A command that \<open>nrs_tbf_rule_start\<close> can carry out on an initialised policy.\<close>

definition start_ok :: "nrs_tbf_cmd \<Rightarrow> ('h, 't) nrs_tbf_head \<Rightarrow> bool" where
  "start_ok cmd s \<longleftrightarrow> length (tc_name cmd) < MAX_TBF_NAME \<and> tc_cmd_rate cmd \<noteq> 0 \<and>
     list_string (th_type s) cmd \<noteq> None \<and> \<not> tc_rule_default cmd \<and> unat (of_int (tbf_depth s) :: u64) < 2 ^ 63"

lemma rule_start_ok:
  assumes "rules_ok e U s" and "start_ok cmd s" and "\<And>r. new = Some r \<Longrightarrow> th_rules s r = None"
  shows "(\<exists>rc. nrs_tbf_rule_start L new mem_str mem cmd s = Ret (rc, s) \<and> rc \<in> {- EEXIST, - ENOMEM, - EINVAL} \<and>
       (rc = - EEXIST \<longleftrightarrow> (\<exists>r\<in>set (th_list s). named s r = tc_name cmd))) \<or>
    (\<exists>r rule. new = Some r \<and> nrs_tbf_rule_start L new mem_str mem cmd s = Ret (0, listed r rule s) \<and>
       (\<forall>r\<in>set (th_list s). named s r \<noteq> tc_name cmd) \<and>
       tr_name rule = tc_name cmd \<and> tr_rpc_rate rule = tc_cmd_rate cmd \<and>
       fresh_rule (th_type s) rule \<and> rules_ok e U (listed r rule s))"
  using rule_find_ok [OF assms(1), of "tc_name cmd"]
proof (elim disjE exE conjE)
  fix r and rule :: nrs_tbf_rule
  assume r: "r \<in> set (th_list s)" "th_rules s r = Some rule" "tr_name rule = tc_name cmd"
    and f: "nrs_tbf_rule_find (tc_name cmd) s = Ret (Some r, set_rule r (Some (rule\<lparr>tr_ref := tr_ref rule + 1\<rparr>)) s)"
    and ok: "rules_ok (e(r := e r + 1)) U (set_rule r (Some (rule\<lparr>tr_ref := tr_ref rule + 1\<rparr>)) s)"
  have "0 < (e(r := e r + 1)) r" using rules_okD(2) [OF assms(1), of r] by simp
  from rule_put_keeps [OF ok _ this, of "rule\<lparr>tr_ref := tr_ref rule + 1\<rparr>"] r(1)
  have "nrs_tbf_rule_put r (set_rule r (Some (rule\<lparr>tr_ref := tr_ref rule + 1\<rparr>)) s) = Ret (set_rule r (Some rule) s)"
    by simp
  also have "set_rule r (Some rule) s = s" using r(2) by (rule set_rule_same)
  finally have "nrs_tbf_rule_put r (set_rule r (Some (rule\<lparr>tr_ref := tr_ref rule + 1\<rparr>)) s) = Ret s" .
  with f have "nrs_tbf_rule_start L new mem_str mem cmd s = Ret (- EEXIST, s)" by (simp add: nrs_tbf_rule_start_def)
  moreover have "\<exists>r\<in>set (th_list s). named s r = tc_name cmd" using r by (intro bexI [of _ r]) (simp_all add: named_def)
  ultimately show ?thesis by (intro disjI1 exI [of _ "- EEXIST"]) simp
next
  assume f: "nrs_tbf_rule_find (tc_name cmd) s = Ret (None, s)" and nn: "\<forall>r\<in>set (th_list s). named s r \<noteq> tc_name cmd"
  note st = assms(2) [unfolded start_ok_def]
  show ?thesis
  proof (cases new)
    case None
    with f nn show ?thesis by (intro disjI1 exI [of _ "- ENOMEM"]) (auto simp: nrs_tbf_rule_start_def)
  next
    case (Some r)
    let ?rule = "\<lparr>tr_name = tc_name cmd, tr_nids = None, tr_nids_str = None, tr_jobids = [],
       tr_jobids_str = None, tr_rpc_rate = tc_cmd_rate cmd,
       tr_nsecs = NSEC_PER_SEC div tc_cmd_rate cmd, tr_depth = of_int (tbf_depth s),
       tr_cli_list = [], tr_stopping = False, tr_default = False, tr_ref = 1, tr_generation = 0\<rparr>"
    obtain rc rule where i: "o_rule_init L mem_str mem (th_type s) cmd ?rule = Ret (rc, rule)"
      "rc \<in> {0, - EINVAL, - ENOMEM}" "rc = 0 \<Longrightarrow> fresh_rule (th_type s) rule"
      "rc = 0 \<Longrightarrow> tr_name rule = tc_name cmd \<and> tr_rpc_rate rule = tc_cmd_rate cmd"
      using o_rule_init_ok [of "th_type s" cmd L mem_str mem ?rule] st by (auto simp: fresh_rule_def)
    show ?thesis
    proof (cases "rc = 0")
      case True
      then have "nrs_tbf_rule_start L new mem_str mem cmd s = Ret (0, listed r rule s)"
        using Some f i(1) st by (simp add: nrs_tbf_rule_start_def listed_def Let_def)
      with True Some i(3,4) nn rules_ok_listed [OF assms(1) assms(3) [OF Some], of rule] show ?thesis by auto
    next
      case False
      then have "nrs_tbf_rule_start L new mem_str mem cmd s = Ret (rc, s)"
        using Some f i(1) st by (simp add: nrs_tbf_rule_start_def)
      with False i(2) nn show ?thesis by (intro disjI1 exI [of _ rc]) auto
    qed
  qed
qed

end
