(* ===== verification/Tbf_Lifecycle.thy ===== *)
theory Tbf_Lifecycle
  imports Tbf_Rulebook
begin

text \<open>
  Clients and rules together: a client is created on the newest rule that matches it, is moved
  when the rules change, and leaves its rule when it is freed. The operations are put together
  in a step relation, and every state reached from a started policy satisfies the reference
  discipline, so that a rule is in memory exactly as long as it is listed or has clients.
\<close>

section \<open>Refreshing a client\<close>

text \<open>The four ways \<open>nrs_tbf_res_get\<close> treats a client it found in the table.\<close>

datatype refresh = Moved nat | Kept | Reloaded | Current

definition refresh_case :: "('h, 't) nrs_tbf_head \<Rightarrow> nrs_tbf_client \<Rightarrow> nrs_tbf_rule \<Rightarrow> refresh" where
  "refresh_case s cli rule0 =
     (if tc_rule_sequence cli \<noteq> th_rule_sequence s \<or> tr_stopping rule0 then
        (case newest_match s cli of None \<Rightarrow> Kept | Some r \<Rightarrow> if tc_rule cli = Some r then Kept else Moved r)
      else if tc_rule_generation cli \<noteq> tr_generation rule0 then Reloaded
      else Current)"

definition refreshed ::
  "u64 \<Rightarrow> nat \<Rightarrow> nrs_tbf_client \<Rightarrow> ('h, 't) nrs_tbf_head \<Rightarrow> ('h, 't) nrs_tbf_head \<Rightarrow> refresh \<Rightarrow> bool" where
  "refreshed now c cli s s' x =
     (case x of
        Moved r \<Rightarrow> (\<exists>rule. th_rules s' r = Some rule \<and> th_clients s' c =
          Some (reloaded rule now (th_rule_sequence s) (cli\<lparr>tc_rule := Some r, tc_linkage := Some r\<rparr>)))
      | Reloaded \<Rightarrow> (\<exists>r rule. tc_rule cli = Some r \<and> th_rules s' r = Some rule \<and> th_clients s' c =
          Some (reloaded rule now (th_rule_sequence s) cli))
      | _ \<Rightarrow> s' = s)"

lemma refresh_ok:
  assumes "rules_ok e U s" and "sched_ok L elems ordered now s" and "th_clients s c = Some cli" and "c \<notin> U"
    and "tc_rule cli = Some r0" "th_rules s r0 = Some rule0"
  shows "\<exists>s'. refresh_cli L now c s = Ret s' \<and> rules_ok e U s' \<and> sched_ok L elems ordered now s' \<and> frame c s s' \<and>
    elems (th_binheap s') = elems (th_binheap s) \<and> refreshed now c cli s s' (refresh_case s cli rule0)"
proof (cases "tc_rule_sequence cli \<noteq> th_rule_sequence s \<or> tr_stopping rule0")
  case seq: True
  obtain r rule where m: "newest_match s cli = Some r" "r \<in> set (th_list s)" "th_rules s r = Some rule"
    "nrs_tbf_rule_match c s = Ret (r, set_rule r (Some (rule\<lparr>tr_ref := tr_ref rule + 1\<rparr>)) s)"
    "rules_ok (e(r := e r + 1)) U (set_rule r (Some (rule\<lparr>tr_ref := tr_ref rule + 1\<rparr>)) s)"
    by (rule rule_match_ok [OF assms(1,3)])
  let ?held = "rule\<lparr>tr_ref := tr_ref rule + 1\<rparr>"
  let ?s1 = "set_rule r (Some ?held) s"
  have er: "0 < (e(r := e r + 1)) r" using rules_okD(2) [OF assms(1), of r] by simp
  show ?thesis
  proof (cases "r = r0")
    case True
    have "nrs_tbf_rule_put r ?s1 = Ret (set_rule r (Some rule) s)"
      using rule_put_keeps [OF m(5) _ er, of ?held] m(2) by simp
    also have "set_rule r (Some rule) s = s" using m(3) by (rule set_rule_same)
    finally have "refresh_cli L now c s = Ret s"
      using assms(3,5,6) seq m(4) True by (simp add: refresh_cli_def)
    moreover have "frame c s s" using frame_set_rule [of c s r "th_rules s r"] by simp
    ultimately show ?thesis using assms(1,2) True seq m(1) assms(5)
      by (intro exI [of _ s]) (auto simp: refreshed_def refresh_case_def)
  next
    case False
    have so: "sched_ok L elems ordered now ?s1" by (rule sched_ok_cong [OF assms(2)]) simp_all
    have cl: "th_clients ?s1 c = Some cli" using assms(3) by simp
    have nr: "c \<in> U \<or> tc_rule cli \<noteq> Some r" using assms(5) False by simp
    obtain s' rule' where s': "nrs_tbf_cli_reset L now r c ?s1 = Ret s'"
      "rules_ok ((e(r := e r + 1))(r := (e(r := e r + 1)) r - 1)) (U - {c}) s'" "sched_ok L elems ordered now s'"
      "frame c ?s1 s'" "elems (th_binheap s') = elems (th_binheap ?s1)" "th_rules s' r = Some rule'"
      "th_clients s' c = Some (reloaded rule' now (th_rule_sequence ?s1) (cli\<lparr>tc_rule := Some r, tc_linkage := Some r\<rparr>))"
      using cli_reset_ok [OF m(5) so cl nr er] by blast
    have "refresh_cli L now c s = Ret s'"
      using assms(3,5,6) seq m(4) False s'(1) by (simp add: refresh_cli_def)
    moreover have "refresh_case s cli rule0 = Moved r" using seq m(1) False assms(5) by (simp add: refresh_case_def)
    moreover have "rules_ok e U s'" using s'(2) assms(4) by simp
    moreover have "frame c s s'" using frame_trans [OF frame_set_rule s'(4)] .
    ultimately show ?thesis using s'(3,5-7) by (intro exI [of _ s']) (simp add: refreshed_def)
  qed
next
  case seq: False
  show ?thesis
  proof (cases "tc_rule_generation cli = tr_generation rule0")
    case True
    have "frame c s s" using frame_set_rule [of c s r0 "th_rules s r0"] by simp
    with True seq assms show ?thesis
      by (intro exI [of _ s]) (simp add: refresh_cli_def refreshed_def refresh_case_def)
  next
    case False
    obtain h where h: "nrs_tbf_cli_reset_value L now c s = Ret (reset_to c (reloaded rule0 now (th_rule_sequence s) cli) s h)"
      "elems h = elems (th_binheap s)"
      using cli_reset_value_heap [OF assms(2,3,5,6)] by blast
    let ?s' = "reset_to c (reloaded rule0 now (th_rule_sequence s) cli) s h"
    have "refresh_cli L now c s = Ret ?s'" using assms(3,5,6) seq False h(1) by (simp add: refresh_cli_def)
    moreover have "frame c s ?s'" unfolding reset_to_def by (rule frame_trans [OF frame_set_cli frame_heap])
    moreover have "refreshed now c cli s ?s' (refresh_case s cli rule0)"
      using seq False assms(5,6) by (simp add: refreshed_def refresh_case_def)
    ultimately show ?thesis using reset_to_ok [OF assms(1-3,6) h(2), where q = "th_rule_sequence s"] h(2)
      by (intro exI [of _ ?s']) simp
  qed
qed

section \<open>Creating and freeing a client\<close>

lemma rules_ok_new_cli:
  assumes "rules_ok e U s" and "th_clients s c = None" and "tc_rule cli = None" "tc_linkage cli = None"
  shows "rules_ok e (insert c U) (set_cli c (Some cli) s)"
proof -
  have mem: "members (set_cli c (Some cli) s) = members s"
    using assms(2,3) by (intro ext) (auto simp: members_def)
  have "list_ok (set_cli c (Some cli) s)"
    using rules_okD(1) [OF assms(1)]
    by (rule list_ok_cong) (use rules_okD(1) [OF assms(1)] in \<open>auto simp: named_def list_ok_def\<close>)
  moreover have "cli_ok (insert c U) (set_cli c (Some cli) s) c' x" if x: "th_clients (set_cli c (Some cli) s) c' = Some x" for c' x
  proof (cases "c' = c")
    case True
    with x assms(3,4) show ?thesis by (auto simp: cli_ok_def)
  next
    case False
    with x rules_okD(5) [OF assms(1), of c' x] show ?thesis by (auto simp: cli_ok_def split: if_splits)
  qed
  moreover have "rule_ok y (set_cli c (Some cli) s) r x = rule_ok y s r x" for y r x
    by (rule rule_ok_cong) (simp_all add: mem)
  ultimately show ?thesis using assms(1) by (simp add: rules_ok_def)
qed

lemma rules_ok_free_cli:
  assumes "rules_ok e U s" and "th_clients s c = Some cli" and "c \<in> U"
  shows "rules_ok e (U - {c}) (set_cli c None s)"
proof -
  have "tc_rule cli = None" using rules_okD(5) [OF assms(1,2)] assms(3) by (simp add: cli_ok_def)
  then have mem: "members (set_cli c None s) = members s"
    using assms(2) by (intro ext) (auto simp: members_def)
  have "list_ok (set_cli c None s)"
    using rules_okD(1) [OF assms(1)]
    by (rule list_ok_cong) (use rules_okD(1) [OF assms(1)] in \<open>auto simp: named_def list_ok_def\<close>)
  moreover have "cli_ok (U - {c}) (set_cli c None s) c' x" if x: "th_clients (set_cli c None s) c' = Some x" for c' x
  proof -
    from x have "c' \<noteq> c" "th_clients s c' = Some x" by (auto split: if_splits)
    with rules_okD(5) [OF assms(1), of c' x] show ?thesis by (auto simp: cli_ok_def split: if_splits)
  qed
  moreover have "rule_ok y (set_cli c None s) r x = rule_ok y s r x" for y r x
    by (rule rule_ok_cong) (simp_all add: mem)
  ultimately show ?thesis using assms(1) by (simp add: rules_ok_def)
qed

lemma sched_ok_new_cli:
  assumes "sched_ok L elems ordered now s" and "th_clients s c = None"
    and "tc_list cli = []" "\<not> tc_in_heap cli" "tc_ntoken cli = 0" "tc_depth cli = 0" "tc_check_time cli = 0"
  shows "sched_ok L elems ordered now (set_cli c (Some cli) s)"
proof -
  have q: "queue_ok elems s" and c: "clock_ok now s" using assms(1) by (simp_all add: sched_ok_def)
  have ne: "c \<notin> elems (th_binheap s)" using queue_okD(2) [OF q] assms(2) by auto
  have "client_queue_ok cli" using assms(3-6) by (simp add: client_queue_ok_def)
  with q assms(4) ne have "queue_ok elems (set_cli c (Some cli) s)" by (auto simp: queue_ok_def)
  moreover have "clock_ok now (set_cli c (Some cli) s)" using c assms(7) by (simp add: clock_ok_def)
  ultimately show ?thesis using assms(1) by (simp add: sched_ok_def hop_safe_def)
qed

text \<open>Whether a request can name a client of the policy.\<close>

definition req_ok :: "tbf_type \<Rightarrow> tbf_request \<Rightarrow> bool" where
  "req_ok ty req = (case ty of NRS_TBF_TYPE_JOBID \<Rightarrow> length (req_jobid req) < LUSTRE_JOBID_SIZE | NRS_TBF_TYPE_NID \<Rightarrow> True)"

definition req_client :: "tbf_type \<Rightarrow> tbf_request \<Rightarrow> nrs_tbf_client" where
  "req_client ty req = (case ty of NRS_TBF_TYPE_JOBID \<Rightarrow> new_client\<lparr>tc_jobid := req_jobid req\<rparr>
     | NRS_TBF_TYPE_NID \<Rightarrow> new_client\<lparr>tc_nid := rq_peer_nid req\<rparr>)"

lemma req_client_simps [simp]:
  "tc_rule (req_client ty req) = None" "tc_linkage (req_client ty req) = None" "tc_list (req_client ty req) = []"
  "\<not> tc_in_heap (req_client ty req)" "tc_ntoken (req_client ty req) = 0" "tc_depth (req_client ty req) = 0"
  "tc_check_time (req_client ty req) = 0" "tc_ref (req_client ty req) = 1"
  by (cases ty; simp add: req_client_def new_client_def)+

lemma newest_match_set_cli [simp]: "newest_match (set_cli c x s) cli = newest_match s cli"
  unfolding newest_match_def by (simp cong: option.case_cong)

lemma cli_init_ok:
  assumes "rules_ok e U s" and "sched_ok L elems ordered now s" and "th_clients s c = None" and "c \<notin> U"
    and "req_ok (th_type s) req"
  shows "\<exists>s' r rule. nrs_tbf_cli_init L now c req s = Ret s' \<and> rules_ok e U s' \<and> sched_ok L elems ordered now s' \<and>
    frame c s s' \<and> elems (th_binheap s') = elems (th_binheap s) \<and>
    newest_match s (req_client (th_type s) req) = Some r \<and> th_rules s' r = Some rule \<and>
    th_clients s' c = Some (reloaded rule now (th_rule_sequence s)
      ((req_client (th_type s) req)\<lparr>tc_rule := Some r, tc_linkage := Some r\<rparr>))"
proof -
  let ?cli = "req_client (th_type s) req"
  let ?s1 = "set_cli c (Some ?cli) s"
  have i: "o_cli_init (th_type s) req new_client = Ret ?cli"
    using assms(5) by (cases "th_type s") (simp_all add: o_cli_init_def req_client_def req_ok_def lassert_def)
  have ok1: "rules_ok e (insert c U) ?s1" by (rule rules_ok_new_cli [OF assms(1,3)]) simp_all
  have so1: "sched_ok L elems ordered now ?s1" by (rule sched_ok_new_cli [OF assms(2,3)]) simp_all
  have cl: "th_clients ?s1 c = Some ?cli" by simp
  obtain r rule where m: "newest_match ?s1 ?cli = Some r" "r \<in> set (th_list ?s1)" "th_rules ?s1 r = Some rule"
    "nrs_tbf_rule_match c ?s1 = Ret (r, set_rule r (Some (rule\<lparr>tr_ref := tr_ref rule + 1\<rparr>)) ?s1)"
    "rules_ok (e(r := e r + 1)) (insert c U) (set_rule r (Some (rule\<lparr>tr_ref := tr_ref rule + 1\<rparr>)) ?s1)"
    by (rule rule_match_ok [OF ok1 cl])
  let ?s2 = "set_rule r (Some (rule\<lparr>tr_ref := tr_ref rule + 1\<rparr>)) ?s1"
  have so2: "sched_ok L elems ordered now ?s2" by (rule sched_ok_cong [OF so1]) simp_all
  have cl2: "th_clients ?s2 c = Some ?cli" by simp
  have cu: "c \<in> insert c U \<or> tc_rule ?cli \<noteq> Some r" by simp
  have er: "0 < (e(r := e r + 1)) r" using rules_okD(2) [OF assms(1), of r] by simp
  obtain s' rule' where s': "nrs_tbf_cli_reset L now r c ?s2 = Ret s'"
    "rules_ok ((e(r := e r + 1))(r := (e(r := e r + 1)) r - 1)) (insert c U - {c}) s'" "sched_ok L elems ordered now s'"
    "frame c ?s2 s'" "elems (th_binheap s') = elems (th_binheap ?s2)" "th_rules s' r = Some rule'"
    "th_clients s' c = Some (reloaded rule' now (th_rule_sequence ?s2) (?cli\<lparr>tc_rule := Some r, tc_linkage := Some r\<rparr>))"
    using cli_reset_ok [OF m(5) so2 cl2 cu er] by blast
  have "nrs_tbf_cli_init L now c req s = Ret s'" using i m(4) s'(1) by (simp add: nrs_tbf_cli_init_def)
  moreover have "rules_ok e U s'" using s'(2) assms(4) by (simp add: insert_Diff_if)
  moreover have "frame c s s'" using frame_trans [OF frame_trans [OF frame_set_cli frame_set_rule] s'(4)] .
  moreover have "newest_match s ?cli = Some r" using m(1) by simp
  ultimately show ?thesis using s'(3,5-7) by (intro exI [of _ s'] exI [of _ r] exI [of _ rule']) simp
qed

text \<open>A client nobody uses can be freed, and leaves its rule.\<close>

definition idle :: "nrs_tbf_client \<Rightarrow> bool" where
  "idle cli \<longleftrightarrow> tc_list cli = [] \<and> tc_ref cli = 0"

lemma cli_fini_ok:
  assumes "rules_ok e U s" and "sched_ok L elems ordered now s" and "th_clients s c = Some cli" and "c \<notin> U"
    and "idle cli"
  shows "\<exists>s'. nrs_tbf_cli_fini c s = Ret s' \<and> rules_ok e U s' \<and> sched_ok L elems ordered now s' \<and>
    th_clients s' = (th_clients s)(c := None) \<and> th_list s' = th_list s \<and> th_type s' = th_type s"
proof -
  have q: "queue_ok elems s" and ck: "clock_ok now s" using assms(2) by (simp_all add: sched_ok_def)
  have nh: "\<not> tc_in_heap cli" "c \<notin> elems (th_binheap s)"
    using queue_okD(3,4) [OF q assms(3)] assms(5) by (auto simp: client_queue_ok_def idle_def)
  obtain s1 where s1: "nrs_tbf_cli_rule_put c s = Ret s1" "rules_ok e (insert c U) s1"
    "s1 = s\<lparr>th_clients := (th_clients s)(c := Some (strip cli)), th_rules := th_rules s1\<rparr>"
    using cli_rule_put_ok [OF assms(1,3,4)] by blast
  have f1: "th_clients s1 = (th_clients s)(c := Some (strip cli))" "th_binheap s1 = th_binheap s"
    "hop_compare s1 = hop_compare s" "tbf_tw_interval s1 = tbf_tw_interval s" "th_list s1 = th_list s"
    "th_type s1 = th_type s"
    by (subst s1(3), simp)+
  have "rules_ok e (insert c U - {c}) (set_cli c None s1)"
    by (rule rules_ok_free_cli [OF s1(2), of c "strip cli"]) (simp_all add: f1)
  then have "rules_ok e U (set_cli c None s1)" using assms(4) by simp
  moreover have "queue_ok elems (set_cli c None s1)" using q nh(2) f1 by (auto simp: queue_ok_def)
  moreover have "clock_ok now (set_cli c None s1)" using ck f1(1) by (simp add: clock_ok_def)
  moreover have "nrs_tbf_cli_fini c s = Ret (set_cli c None s1)"
    using assms(3,5) nh(1) s1(1) by (simp add: nrs_tbf_cli_fini_def idle_def lassert_def)
  ultimately show ?thesis using assms(2) f1 by (intro exI [of _ "set_cli c None s1"]) (simp add: sched_ok_def hop_safe_def)
qed

section \<open>Scheduling leaves the rules alone\<close>

definition links_kept :: "('h, 't) nrs_tbf_head \<Rightarrow> ('h, 't) nrs_tbf_head \<Rightarrow> bool" where
  "links_kept s s' \<longleftrightarrow> th_rules s' = th_rules s \<and> th_list s' = th_list s \<and> th_rule s' = th_rule s \<and>
     th_type s' = th_type s \<and>
     (\<forall>c. map_option (\<lambda>cli. (tc_rule cli, tc_linkage cli)) (th_clients s' c) =
          map_option (\<lambda>cli. (tc_rule cli, tc_linkage cli)) (th_clients s c))"

lemma links_kept_trans: "links_kept s s1 \<Longrightarrow> links_kept s1 s2 \<Longrightarrow> links_kept s s2"
  by (simp add: links_kept_def)

lemma links_kept_set_cli:
  assumes "th_clients s c = Some cli" and "tc_rule cli' = tc_rule cli" "tc_linkage cli' = tc_linkage cli"
  shows "links_kept s (set_cli c (Some cli') s)"
  using assms by (simp add: links_kept_def)

lemma links_kept_heap: "relocate L c s = Ret s' \<Longrightarrow> links_kept s s'" "heap_remove L c s = Ret s' \<Longrightarrow> links_kept s s'"
  by (auto simp: links_kept_def relocate_def heap_remove_def)

lemma rules_ok_links:
  assumes "rules_ok e U s" and "links_kept s s'"
  shows "rules_ok e U s'"
proof -
  note k = assms(2) [unfolded links_kept_def]
  have q: "map_option (\<lambda>cli. (tc_rule cli, tc_linkage cli)) (th_clients s' c) =
      map_option (\<lambda>cli. (tc_rule cli, tc_linkage cli)) (th_clients s c)" for c
    using k by blast
  have cl: "\<exists>cli. th_clients s c = Some cli \<and> tc_rule cli = tc_rule cli' \<and> tc_linkage cli = tc_linkage cli'"
    if "th_clients s' c = Some cli'" for c cli'
    using q [of c] that by (cases "th_clients s c") simp_all
  have lc: "\<exists>cli'. th_clients s' c = Some cli' \<and> tc_rule cli' = tc_rule cli"
    if "th_clients s c = Some cli" for c cli
    using q [of c] that by (cases "th_clients s' c") simp_all
  have mem: "members s' = members s"
  proof (intro ext set_eqI iffI)
    fix r c assume "c \<in> members s' r"
    then obtain cli' where c: "th_clients s' c = Some cli'" "tc_rule cli' = Some r" by (auto simp: members_def)
    obtain cli where "th_clients s c = Some cli" "tc_rule cli = tc_rule cli'" using cl [OF c(1)] by blast
    with c(2) show "c \<in> members s r" by (simp add: members_def)
  next
    fix r c assume "c \<in> members s r"
    then obtain cli where c: "th_clients s c = Some cli" "tc_rule cli = Some r" by (auto simp: members_def)
    obtain cli' where "th_clients s' c = Some cli'" "tc_rule cli' = tc_rule cli" using lc [OF c(1)] by blast
    with c(2) show "c \<in> members s' r" by (simp add: members_def)
  qed
  have nm: "named s' = named s" by (intro ext) (simp add: named_def k)
  have "rule_ok y s' r x = rule_ok y s r x" for y r x by (rule rule_ok_cong) (simp_all add: k mem)
  moreover have "cli_ok U s' c cli'" if c: "th_clients s' c = Some cli'" for c cli'
  proof -
    obtain cli where "th_clients s c = Some cli" "tc_rule cli = tc_rule cli'" "tc_linkage cli = tc_linkage cli'"
      using cl [OF c] by blast
    with rules_okD(5) [OF assms(1), of c cli] k show ?thesis by (auto simp: cli_ok_def split: if_splits)
  qed
  moreover have "list_ok s' = list_ok s" by (simp add: list_ok_def k nm)
  ultimately show ?thesis using assms(1) k by (simp add: rules_ok_def)
qed

lemma req_add_links: "nrs_tbf_req_add L cancelled c q s = Ret (rc, s') \<Longrightarrow> links_kept s s'"
  by (auto simp: nrs_tbf_req_add_def links_kept_def Let_def lassert_def split: if_splits)

lemma req_del_links:
  assumes "nrs_tbf_req_del L c q s = Ret s'"
  shows "links_kept s s'"
proof -
  from assms obtain cli where cli: "th_clients s c = Some cli"
    by (auto simp: nrs_tbf_req_del_def)
  let ?cli = "cli\<lparr>tc_list := removeAll q (tc_list cli)\<rparr>"
  have k: "links_kept s (set_cli c (Some ?cli) s)" by (rule links_kept_set_cli [OF cli]) simp_all
  show ?thesis
  proof (cases "tc_list ?cli = []")
    case True
    with assms cli obtain s2 where s2: "heap_remove L c (set_cli c (Some ?cli) s) = Ret s2"
      "s' = set_cli c (Some (?cli\<lparr>tc_in_heap := False\<rparr>)) s2"
      by (auto simp: nrs_tbf_req_del_def lassert_def Let_def split: if_splits)
    then have "th_clients s2 c = Some ?cli" by (auto simp: heap_remove_def)
    then have "links_kept s2 s'" unfolding s2(2) by (rule links_kept_set_cli) simp_all
    with k links_kept_heap(2) [OF s2(1)] show ?thesis by (blast intro: links_kept_trans)
  next
    case False
    with assms cli have "relocate L c (set_cli c (Some ?cli) s) = Ret s'"
      by (auto simp: nrs_tbf_req_del_def lassert_def Let_def split: if_splits)
    with k links_kept_heap(1) show ?thesis by (blast intro: links_kept_trans)
  qed
qed

lemma req_get_links:
  assumes "nrs_tbf_req_get L now False s = Ret (x, s')"
  shows "links_kept s s'"
proof (cases "nrs_throttling s \<or> cfs_binheap_root L (th_binheap s) = None")
  case True
  then have "nrs_tbf_req_get L now False s = Ret (None, s)" by (auto simp: nrs_tbf_req_get_def)
  with assms show ?thesis by (simp add: links_kept_def)
next
  case False
  then obtain c where c: "cfs_binheap_root L (th_binheap s) = Some c" "\<not> nrs_throttling s" by blast
  with assms obtain cli where cli: "th_clients s c = Some cli" by (auto simp: nrs_tbf_req_get_def)
  show ?thesis
  proof (cases "0 < sint (tokens_at now cli)")
    case nt: False
    with assms c cli show ?thesis
      by (auto simp: nrs_tbf_req_get_def lassert_def Let_def links_kept_def split: if_splits)
  next
    case tk: True
    with assms c cli obtain nrq rest where l: "tc_list cli = nrq # rest"
      by (auto simp: nrs_tbf_req_get_def lassert_def Let_def split: if_splits list.splits)
    define cli1 where "cli1 = cli\<lparr>tc_ntoken := tokens_at now cli - 1, tc_check_time := now, tc_list := rest\<rparr>"
    have k: "links_kept s (set_cli c (Some cli1) s)" by (rule links_kept_set_cli [OF cli]) (simp_all add: cli1_def)
    show ?thesis
    proof (cases "rest = []")
      case True
      with assms c cli tk l obtain s2 where s2: "heap_remove L c (set_cli c (Some cli1) s) = Ret s2"
        "s' = set_cli c (Some (cli1\<lparr>tc_in_heap := False\<rparr>)) s2"
        by (auto simp: nrs_tbf_req_get_def lassert_def Let_def cli1_def split: if_splits)
      then have "th_clients s2 c = Some cli1" by (auto simp: heap_remove_def)
      then have "links_kept s2 s'" unfolding s2(2) by (rule links_kept_set_cli) simp_all
      with k links_kept_heap(2) [OF s2(1)] show ?thesis by (blast intro: links_kept_trans)
    next
      case False
      with assms c cli tk l have "relocate L c (set_cli c (Some cli1) s) = Ret s'"
        by (auto simp: nrs_tbf_req_get_def lassert_def Let_def cli1_def split: if_splits)
      with k links_kept_heap(1) show ?thesis by (blast intro: links_kept_trans)
    qed
  qed
qed

lemma poll_links:
  assumes "tbf_poll L now s = Ret (x, s')"
  shows "links_kept s s'"
proof -
  have "links_kept s (woken now s)"
    by (auto simp: links_kept_def woken_def nrs_tbf_timer_cb_def split: option.splits)
  moreover have "nrs_tbf_req_get L now False (woken now s) = Ret (x, s')"
    using assms by (simp add: tbf_poll_def woken_def)
  ultimately show ?thesis using req_get_links links_kept_trans by blast
qed

section \<open>Commands\<close>

text \<open>A command the policy can carry out: what the parser of \<open>nrs_tbf_rule\<close> guarantees, except the
  bound on the name.\<close>

definition cmd_ok :: "nrs_tbf_cmd \<Rightarrow> ('h, 't) nrs_tbf_head \<Rightarrow> bool" where
  "cmd_ok cmd s =
     (case tc_cmd cmd of
        NRS_CTL_TBF_START_RULE \<Rightarrow> valid_for (th_type s) cmd \<longrightarrow> start_ok cmd s
      | NRS_CTL_TBF_CHANGE_RATE \<Rightarrow> tc_cmd_rate cmd \<noteq> 0
      | NRS_CTL_TBF_STOP_RULE \<Rightarrow> True
      | NRS_CTL_TBF_START_SSCDT \<Rightarrow> sscdt_req_compare_ptr s \<noteq> None \<and> sint (tc_tw_interval cmd) \<notin> {0, - 1}
      | NRS_CTL_TBF_CHANGE_TW_INTERVAL \<Rightarrow> sint (tc_tw_interval cmd) \<notin> {0, - 1}
      | NRS_CTL_TBF_STOP_SSCDT \<Rightarrow> True)"

lemma sched_ok_compare:
  assumes "sched_ok L elems ordered now s" and "th_clients s' = th_clients s" "th_binheap s' = th_binheap s" "hop_safe s'"
  shows "sched_ok L elems ordered now s'"
  using assms by (simp add: sched_ok_def queue_ok_def clock_ok_def)

lemma command_ok:
  assumes "rules_ok (\<lambda>_. 0) U s" and "sched_ok L elems ordered now s" and "cmd_ok cmd s"
    and "\<And>r. new = Some r \<Longrightarrow> th_rules s r = None"
  shows "\<exists>rc s'. nrs_tbf_command L new mem_str mem cmd s = Ret (rc, s') \<and> rules_ok (\<lambda>_. 0) U s' \<and>
    sched_ok L elems ordered now s' \<and> th_clients s' = th_clients s \<and> (rc \<noteq> 0 \<longrightarrow> s' = s)"
proof (cases "tc_cmd cmd")
  case NRS_CTL_TBF_START_RULE
  show ?thesis
  proof (cases "valid_for (th_type s) cmd")
    case True
    have st: "start_ok cmd s" using assms(3) True NRS_CTL_TBF_START_RULE by (simp add: cmd_ok_def)
    have so: "sched_ok L elems ordered now (listed r rule s)" for r rule
      by (rule sched_ok_cong [OF assms(2)]) simp_all
    from rule_start_ok [OF assms(1) st assms(4), where L = L and mem_str = mem_str and mem = mem] True NRS_CTL_TBF_START_RULE assms(1,2) so
    show ?thesis by (fastforce simp: nrs_tbf_command_def)
  qed (use assms(1,2) NRS_CTL_TBF_START_RULE in \<open>simp add: nrs_tbf_command_def\<close>)
next
  case NRS_CTL_TBF_CHANGE_RATE
  have so: "sched_ok L elems ordered now (set_rule r x s)" for r x
    by (rule sched_ok_cong [OF assms(2)]) simp_all
  have "tc_cmd_rate cmd \<noteq> 0" using assms(3) NRS_CTL_TBF_CHANGE_RATE by (simp add: cmd_ok_def)
  from rule_change_ok [OF assms(1) this] NRS_CTL_TBF_CHANGE_RATE assms(1,2) so
  show ?thesis by (fastforce simp: nrs_tbf_command_def)
next
  case NRS_CTL_TBF_STOP_RULE
  have so: "sched_ok L elems ordered now (unlisted r x s)" for r x
    by (rule sched_ok_cong [OF assms(2)]) (simp_all add: unlisted_def)
  from rule_stop_ok [OF assms(1), of cmd] NRS_CTL_TBF_STOP_RULE assms(1,2) so
  show ?thesis by (fastforce simp: nrs_tbf_command_def)
next
  case NRS_CTL_TBF_START_SSCDT
  then obtain cmp where cmp: "sscdt_req_compare_ptr s = Some cmp" "sint (tc_tw_interval cmd) \<notin> {0, - 1}"
    using assms(3) by (auto simp: cmd_ok_def)
  let ?s = "s\<lparr>hop_compare := cmp, tbf_tw_interval := sint (tc_tw_interval cmd)\<rparr>"
  have "rules_ok (\<lambda>_. 0) U ?s" by (rule rules_ok_frame [OF assms(1)]) simp_all
  moreover have "sched_ok L elems ordered now ?s" by (rule sched_ok_compare [OF assms(2)]) (use cmp(2) in \<open>simp_all add: hop_safe_def\<close>)
  ultimately show ?thesis using NRS_CTL_TBF_START_SSCDT cmp(1) by (simp add: nrs_tbf_command_def nrs_tbf_sscdt_start_def)
next
  case NRS_CTL_TBF_CHANGE_TW_INTERVAL
  let ?s = "s\<lparr>tbf_tw_interval := sint (tc_tw_interval cmd)\<rparr>"
  have "rules_ok (\<lambda>_. 0) U ?s" by (rule rules_ok_frame [OF assms(1)]) simp_all
  moreover have "sched_ok L elems ordered now ?s"
    by (rule sched_ok_compare [OF assms(2)])
       (use assms(3) NRS_CTL_TBF_CHANGE_TW_INTERVAL in \<open>simp_all add: hop_safe_def cmd_ok_def\<close>)
  ultimately show ?thesis using NRS_CTL_TBF_CHANGE_TW_INTERVAL
    by (simp add: nrs_tbf_command_def nrs_tbf_tw_interval_change_def)
next
  case NRS_CTL_TBF_STOP_SSCDT
  let ?s = "s\<lparr>hop_compare := Tbf_cli_compare, tbf_tw_interval := sint (tc_tw_interval cmd)\<rparr>"
  have "rules_ok (\<lambda>_. 0) U ?s" by (rule rules_ok_frame [OF assms(1)]) simp_all
  moreover have "sched_ok L elems ordered now ?s"
    by (rule sched_ok_compare [OF assms(2)]) (simp_all add: hop_safe_def)
  ultimately show ?thesis using NRS_CTL_TBF_STOP_SSCDT by (simp add: nrs_tbf_command_def nrs_tbf_sscdt_stop_def)
qed

end
