(* ===== verification/Tbf_Runs.thy ===== *)
theory Tbf_Runs
  imports Tbf_Lifecycle
begin

text \<open>
  Whole runs of a started TBF policy: rule commands, clients that come, are refreshed and go,
  and requests that are queued, polled and cancelled, in any order. Every state of such a run
  keeps the reference and queue invariants; the properties of the rule commands follow.
\<close>

section \<open>Runs\<close>

datatype life_event =
    Command "nat option" bool "nat \<Rightarrow> bool" nrs_tbf_cmd
  | Refresh nat
  | Create nat tbf_request
  | Free nat
  | Enqueue bool nat nat
  | Poll
  | Cancel nat nat

definition life_op ::
  "('h, 't) libcfs \<Rightarrow> u64 \<Rightarrow> life_event \<Rightarrow> ('h, 't) nrs_tbf_head \<Rightarrow> ('h, 't) nrs_tbf_head outcome" where
  "life_op L now ev s =
     (case ev of
        Command new mem_str mem cmd \<Rightarrow> bindO (nrs_tbf_command L new mem_str mem cmd s) (\<lambda>(rc, s). Ret s)
      | Refresh c \<Rightarrow> refresh_cli L now c s
      | Create c req \<Rightarrow> nrs_tbf_cli_init L now c req s
      | Free c \<Rightarrow> nrs_tbf_cli_fini c s
      | Enqueue cancelled c q \<Rightarrow> bindO (nrs_tbf_req_add L cancelled c q s) (\<lambda>(rc, s). Ret s)
      | Poll \<Rightarrow> bindO (tbf_poll L now s) (\<lambda>(x, s). Ret s)
      | Cancel c q \<Rightarrow> nrs_tbf_req_del L c q s)"

text \<open>What the NRS core and the allocator respect when they call the policy.\<close>

fun life_ok :: "('h, 't) nrs_tbf_head \<Rightarrow> life_event \<Rightarrow> bool" where
  "life_ok s (Command new mem_str mem cmd) =
     (cmd_ok cmd s \<and> (case new of None \<Rightarrow> True | Some r \<Rightarrow> th_rules s r = None))"
| "life_ok s (Refresh c) = (th_clients s c \<noteq> None)"
| "life_ok s (Create c req) = (th_clients s c = None \<and> req_ok (th_type s) req)"
| "life_ok s (Free c) = (case th_clients s c of None \<Rightarrow> False | Some cli \<Rightarrow> idle cli)"
| "life_ok s (Enqueue cancelled c q) = (case th_clients s c of None \<Rightarrow> False | Some cli \<Rightarrow> q \<notin> set (tc_list cli))"
| "life_ok s Poll = True"
| "life_ok s (Cancel c q) = (case th_clients s c of None \<Rightarrow> False | Some cli \<Rightarrow> q \<in> set (tc_list cli))"

inductive lived ::
  "('h, 't) libcfs \<Rightarrow> u64 \<Rightarrow> ('h, 't) nrs_tbf_head \<Rightarrow> u64 \<Rightarrow> ('h, 't) nrs_tbf_head \<Rightarrow> bool"
  for L t0 s0 where
  lived_start: "lived L t0 s0 t0 s0"
| lived_step: "lived L t0 s0 t s \<Longrightarrow> t \<le> t' \<Longrightarrow> life_ok s ev \<Longrightarrow> life_op L t' ev s = Ret s' \<Longrightarrow> lived L t0 s0 t' s'"

definition life_inv ::
  "('h, 't) libcfs \<Rightarrow> ('h \<Rightarrow> nat set) \<Rightarrow> ((nat \<Rightarrow> nat \<Rightarrow> bool) \<Rightarrow> 'h \<Rightarrow> bool) \<Rightarrow> u64 \<Rightarrow> ('h, 't) nrs_tbf_head \<Rightarrow> bool" where
  "life_inv L elems ordered now s \<longleftrightarrow> rules_ok (\<lambda>_. 0) {} s \<and> sched_ok L elems ordered now s"

lemma sched_ok_later: "sched_ok L elems ordered t s \<Longrightarrow> t \<le> t' \<Longrightarrow> sched_ok L elems ordered t' s"
  unfolding sched_ok_def clock_ok_def by (meson order_trans)

lemma linked_rule:
  assumes "rules_ok e U s" and "th_clients s c = Some cli" and "c \<notin> U"
  obtains r rule where "tc_rule cli = Some r" "th_rules s r = Some rule"
  using rules_okD(5) [OF assms(1,2)] assms(3) by (auto simp: cli_ok_def)

lemma sched_event_ok:
  assumes "rules_ok e U s" and "sched_ok L elems ordered now s" and "links_kept s s'"
    and "queue_ok elems s'" "hop_safe s'" "clock_ok now s'"
  shows "rules_ok e U s' \<and> sched_ok L elems ordered now s'"
  using rules_ok_links [OF assms(1,3)] assms(2,4-6) by (simp add: sched_ok_def)

lemma life_step:
  assumes "life_inv L elems ordered t s" and "t \<le> t'" and "life_ok s ev"
  shows "\<exists>s'. life_op L t' ev s = Ret s' \<and> life_inv L elems ordered t' s'"
proof -
  have ro: "rules_ok (\<lambda>_. 0) {} s" and so: "sched_ok L elems ordered t' s"
    using assms(1,2) sched_ok_later by (auto simp: life_inv_def)
  have sp: "binheap_ok L elems ordered" "queue_ok elems s" "hop_safe s" "clock_ok t' s"
    using so by (simp_all add: sched_ok_def)
  show ?thesis
  proof (cases ev)
    case (Command new mem_str mem cmd)
    with assms(3) have c: "cmd_ok cmd s" "\<And>r. new = Some r \<Longrightarrow> th_rules s r = None" by (auto split: option.splits)
    obtain rc s' where "nrs_tbf_command L new mem_str mem cmd s = Ret (rc, s')" "rules_ok (\<lambda>_. 0) {} s'"
      "sched_ok L elems ordered t' s'" using command_ok [OF ro so c] by metis
    with Command show ?thesis by (simp add: life_op_def life_inv_def)
  next
    case (Refresh c)
    with assms(3) obtain cli where cli: "th_clients s c = Some cli" by auto
    obtain r rule where r: "tc_rule cli = Some r" "th_rules s r = Some rule"
      using linked_rule [OF ro cli] by blast
    from refresh_ok [OF ro so cli _ r] Refresh show ?thesis by (auto simp: life_op_def life_inv_def)
  next
    case (Create c req)
    with assms(3) have "th_clients s c = None" "req_ok (th_type s) req" by auto
    from cli_init_ok [OF ro so this(1) _ this(2)] Create show ?thesis by (auto simp: life_op_def life_inv_def)
  next
    case (Free c)
    with assms(3) obtain cli where "th_clients s c = Some cli" "idle cli" by (auto split: option.splits)
    from cli_fini_ok [OF ro so this(1) _ this(2)] Free show ?thesis by (auto simp: life_op_def life_inv_def)
  next
    case (Enqueue cancelled c q)
    with assms(3) obtain cli where cli: "th_clients s c = Some cli" "q \<notin> set (tc_list cli)" by (auto split: option.splits)
    obtain rc s' where s': "nrs_tbf_req_add L cancelled c q s = Ret (rc, s')" "queue_ok elems s'" "hop_safe s'"
      "th_clients s' = (if rc = 0 then (th_clients s)(c := Some (added q cli)) else th_clients s)"
      using req_add_ok [OF sp(1-3) cli] by metis
    have "clock_ok t' s'" using sp(4) s'(4) cli(1) by (auto simp: clock_ok_def)
    from sched_event_ok [OF ro so req_add_links [OF s'(1)] s'(2,3) this] s'(1) Enqueue
    show ?thesis by (simp add: life_op_def life_inv_def)
  next
    case Poll
    obtain x s' where s': "nrs_tbf_req_get L t' False (woken t' s) = Ret (x, s')" "queue_ok elems s'" "hop_safe s'" "clock_ok t' s'"
      using req_get_ok [OF sp(1), of "woken t' s" t'] sp(2-4) by auto
    then have p: "tbf_poll L t' s = Ret (x, s')" by (simp add: tbf_poll_def woken_def)
    from sched_event_ok [OF ro so poll_links [OF p] s'(2-4)] p Poll show ?thesis by (simp add: life_op_def life_inv_def)
  next
    case (Cancel c q)
    with assms(3) obtain cli where cli: "th_clients s c = Some cli" "q \<in> set (tc_list cli)" by (auto split: option.splits)
    obtain s' cli' where s': "nrs_tbf_req_del L c q s = Ret s'" "queue_ok elems s'" "hop_safe s'"
      "th_clients s' = (th_clients s)(c := Some cli')" "tc_check_time cli' = tc_check_time cli"
      using req_del_ok [OF sp(1-3) cli] by metis
    have "clock_ok t' s'" using sp(4) s'(4,5) cli(1) by (auto simp: clock_ok_def)
    from sched_event_ok [OF ro so req_del_links [OF s'(1)] s'(2,3) this] s'(1) Cancel
    show ?thesis by (simp add: life_op_def life_inv_def)
  qed
qed

lemma lived_inv:
  assumes "lived L t0 s0 t s" and "life_inv L elems ordered t0 s0"
  shows "life_inv L elems ordered t s"
  using assms(1)
proof induction
  case (lived_step t s t' ev s')
  with life_step [of L elems ordered t s t' ev] show ?case by auto
qed (rule assms(2))

lemma rule_alive_iff:
  assumes "rules_ok (\<lambda>_. 0) {} s"
  shows "th_rules s r \<noteq> None \<longleftrightarrow> r \<in> set (th_list s) \<or> members s r \<noteq> {}"
proof
  assume "th_rules s r \<noteq> None"
  then obtain rule where "th_rules s r = Some rule" by blast
  from rules_okD(4) [OF assms this] show "r \<in> set (th_list s) \<or> members s r \<noteq> {}"
    by (auto simp: rule_ok_def split: if_splits)
next
  assume "r \<in> set (th_list s) \<or> members s r \<noteq> {}"
  then show "th_rules s r \<noteq> None" using unused_rule(1,2) [OF assms, of r] by blast
qed

section \<open>A policy to evaluate\<close>

lemma sample_rules_ok: "rules_ok (\<lambda>_. 0) {} (sample_head\<lparr>th_rule_sequence := q\<rparr>)"
proof -
  let ?s = "sample_head\<lparr>th_rule_sequence := q\<rparr>"
  have m: "members ?s 0 = {0}" by (auto simp: members_def sample_head_def sample_client_def split: if_splits)
  have "list_ok ?s" by (simp add: list_ok_def sample_head_def named_def sample_rule_def)
  moreover have "rule_ok 0 ?s 0 sample_rule"
    unfolding rule_ok_def m by (simp add: sample_head_def sample_rule_def o_rule_fini_def)
  moreover have "cli_ok {} ?s 0 sample_client" by (simp add: cli_ok_def sample_head_def sample_client_def)
  ultimately show ?thesis by (auto simp: rules_ok_def sample_head_def split: if_splits)
qed

lemma sample_sched_ok: "sched_ok sample_libcfs set list_ordered 5000 (sample_head\<lparr>th_rule_sequence := q\<rparr>)"
proof -
  have "sched_ok sample_libcfs set list_ordered 5000 sample_head"
    using sample_libcfs_heap sample_head_ok sample_clock [of 5000] by (simp add: sched_ok_def)
  then show ?thesis by (rule sched_ok_cong) simp_all
qed

lemma sample_seq: "sample_head\<lparr>th_rule_sequence := 1\<rparr> = sample_head" by (simp add: sample_head_def)

lemma sample_life_inv: "life_inv sample_libcfs set list_ordered 5000 sample_head"
  using sample_rules_ok [of 1] sample_sched_ok [of 1] by (simp add: life_inv_def sample_seq)

lemma sample_newest: "newest_match (sample_head\<lparr>th_rule_sequence := q\<rparr>) sample_client = Some 0"
  by (simp add: newest_match_def sample_head_def sample_rule_def o_rule_match_def)

definition sample_cmd :: nrs_tbf_cmd where
  "sample_cmd = \<lparr>tc_cmd = NRS_CTL_TBF_CHANGE_RATE, tc_name = ''default'', tc_cmd_rate = 500, tc_nids = None,
     tc_nids_str = None, tc_jobids = [], tc_jobids_str = None, tc_valid_jobid = False, tc_valid_nid = False,
     tc_rule_default = False, tc_tw_interval = 0\<rparr>"

lemma sample_change:
  "nrs_tbf_rule_change sample_cmd (sample_head\<lparr>th_rule_sequence := q\<rparr>) =
     Ret (0, set_rule 0 (Some (re_rated 500 sample_rule)) (sample_head\<lparr>th_rule_sequence := q\<rparr>))"
  by (simp add: nrs_tbf_rule_change_def nrs_tbf_rule_find_def sample_cmd_def sample_head_def sample_rule_def
      rule_named_def nrs_tbf_rule_get_def nrs_tbf_rule_put_def set_rule_def get_rule_def re_rated_def)

section \<open>Properties\<close>



text \<open>
  A client is matched with the newest listed rule whose list names it, and with the default
  rule when no listed rule does; the match takes one reference on that rule and changes nothing
  else.
\<close>

theorem tbf_rule_match_newest:
  assumes "rules_ok (\<lambda>_. 0) {} s" and "th_clients s c = Some cli"
  shows "\<exists>r rule. nrs_tbf_rule_match c s = Ret (r, set_rule r (Some (rule\<lparr>tr_ref := tr_ref rule + 1\<rparr>)) s) \<and>
    th_rules s r = Some rule \<and>
    ((\<exists>newer older. th_list s = newer @ r # older \<and> o_rule_match (th_type s) rule cli \<and>
       (\<forall>r'\<in>set newer. \<forall>rule'. th_rules s r' = Some rule' \<longrightarrow> \<not> o_rule_match (th_type s) rule' cli)) \<or>
     th_rule s = Some r \<and> tr_name rule = NRS_TBF_DEFAULT_RULE \<and>
       (\<forall>r'\<in>set (th_list s). \<forall>rule'. th_rules s r' = Some rule' \<longrightarrow> \<not> o_rule_match (th_type s) rule' cli))"
proof -
  obtain r rule where m: "newest_match s cli = Some r" "th_rules s r = Some rule"
    "nrs_tbf_rule_match c s = Ret (r, set_rule r (Some (rule\<lparr>tr_ref := tr_ref rule + 1\<rparr>)) s)"
    by (rule rule_match_ok [OF assms])
  have d: "tr_name rule = NRS_TBF_DEFAULT_RULE" if "th_rule s = Some r"
    using rules_okD(1) [OF assms(1)] that m(2) by (auto simp: list_ok_def named_def)
  from rule_match_newest [OF assms(1) m(1)] m(2,3) d show ?thesis
    by (intro exI [of _ r] exI [of _ rule] conjI) auto
qed

theorem tbf_rule_match_newest_witness:
  "\<exists>r rule. nrs_tbf_rule_match 0 sample_head = Ret (r, set_rule r (Some (rule\<lparr>tr_ref := tr_ref rule + 1\<rparr>)) sample_head)"
  using tbf_rule_match_newest [OF sample_rules_ok [of 1, unfolded sample_seq] sample_head_ok(4)] by blast



text \<open>
  A change of a rule's rate reaches a client of that rule at its next request: when the
  client was up to date with the rules, the refresh loads the new rate and interval and fills
  the bucket.
\<close>

theorem tbf_rate_change_applied:
  assumes "life_inv L elems ordered now s" and "th_clients s c = Some cli" and "tc_rule cli = Some r"
    and "th_rules s r = Some rule" "r \<in> set (th_list s)" "tr_name rule = tc_name cmd" and "tc_cmd_rate cmd \<noteq> 0"
    and "tc_rule_sequence cli = th_rule_sequence s" "tc_rule_generation cli = tr_generation rule"
  shows "\<exists>s1 s2 cli'. nrs_tbf_rule_change cmd s = Ret (0, s1) \<and> refresh_cli L now c s1 = Ret s2 \<and>
    th_clients s2 c = Some cli' \<and> tc_rpc_rate cli' = tc_cmd_rate cmd \<and>
    tc_nsecs cli' = NSEC_PER_SEC div tc_cmd_rate cmd \<and> tc_ntoken cli' = tr_depth rule \<and> tc_check_time cli' = now \<and>
    tc_list cli' = tc_list cli"
proof -
  have ro: "rules_ok (\<lambda>_. 0) {} s" and so: "sched_ok L elems ordered now s" using assms(1) by (simp_all add: life_inv_def)
  let ?new = "re_rated (tc_cmd_rate cmd) rule"
  let ?s1 = "set_rule r (Some ?new) s"
  have nm: "named s r = tc_name cmd" using assms(4,6) by (simp add: named_def)
  from rule_change_ok [OF ro assms(7)] nm assms(5)
  obtain r' rule' where r': "r' \<in> set (th_list s)" "th_rules s r' = Some rule'" "tr_name rule' = tc_name cmd"
    "nrs_tbf_rule_change cmd s = Ret (0, set_rule r' (Some (re_rated (tc_cmd_rate cmd) rule')) s)"
    "rules_ok (\<lambda>_. 0) {} (set_rule r' (Some (re_rated (tc_cmd_rate cmd) rule')) s)" by blast
  have "r' = r" using named_unique [OF ro r'(1) assms(5)] r'(2,3) nm by (simp add: named_def)
  with r' assms(4) have ch: "nrs_tbf_rule_change cmd s = Ret (0, ?s1)" "rules_ok (\<lambda>_. 0) {} ?s1" by auto
  have st: "\<not> tr_stopping rule" using rules_okD(4) [OF ro assms(4)] assms(5) by (simp add: rule_ok_def)
  have so1: "sched_ok L elems ordered now ?s1" by (rule sched_ok_cong [OF so]) simp_all
  have c1: "th_clients ?s1 c = Some cli" and r1: "th_rules ?s1 r = Some ?new" using assms(2) by simp_all
  have "refresh_case ?s1 cli ?new = Reloaded" using assms(8,9) st by (simp add: refresh_case_def re_rated_def)
  then obtain s2 where s2: "refresh_cli L now c ?s1 = Ret s2" "frame c ?s1 s2" "refreshed now c cli ?s1 s2 Reloaded"
    using refresh_ok [OF ch(2) so1 c1 _ assms(3) r1] by auto
  obtain h where h: "nrs_tbf_cli_reset_value L now c ?s1 = Ret (reset_to c (reloaded ?new now (th_rule_sequence ?s1) cli) ?s1 h)"
    using cli_reset_value_heap [OF so1 c1 assms(3) r1] by auto
  have "refresh_cli L now c ?s1 = nrs_tbf_cli_reset_value L now c ?s1"
    using assms(2,3,8,9) st by (simp add: refresh_cli_def re_rated_def)
  with h s2(1) have "th_clients s2 c = Some (reloaded ?new now (th_rule_sequence s) cli)" by auto
  with ch(1) s2(1) show ?thesis by (auto simp: reloaded_def re_rated_def)
qed

theorem tbf_rate_change_applied_witness:
  "\<exists>s1 s2 cli'. nrs_tbf_rule_change sample_cmd sample_head = Ret (0, s1) \<and> refresh_cli sample_libcfs 5000 0 s1 = Ret s2 \<and>
     th_clients s2 0 = Some cli' \<and> tc_rpc_rate cli' = 500"
proof -
  have "\<exists>s1 s2 cli'. nrs_tbf_rule_change sample_cmd sample_head = Ret (0, s1) \<and> refresh_cli sample_libcfs 5000 0 s1 = Ret s2 \<and>
     th_clients s2 0 = Some cli' \<and> tc_rpc_rate cli' = tc_cmd_rate sample_cmd \<and>
     tc_nsecs cli' = NSEC_PER_SEC div tc_cmd_rate sample_cmd \<and> tc_ntoken cli' = tr_depth sample_rule \<and> tc_check_time cli' = 5000 \<and>
     tc_list cli' = tc_list sample_client"
    by (rule tbf_rate_change_applied [OF sample_life_inv sample_head_ok(4), of 0 sample_rule])
       (simp_all add: sample_head_def sample_client_def sample_rule_def sample_cmd_def)
  then show ?thesis by (auto simp: sample_cmd_def)
qed

text \<open>
  A change of rate does not reach a client whose sequence number is behind: once any rule
  was started after the client was last reset, every refresh of the client whose newest match
  is still its old rule takes the matching branch, drops the extra reference and returns
  without looking at the rule's generation or updating the client's sequence number, so the
  client keeps its old rate however often the rule is changed.
\<close>

theorem tbf_rate_change_missed:
  assumes "life_inv L elems ordered now s" and "th_clients s c = Some cli" and "newest_match s cli = tc_rule cli"
    and "tc_rule_sequence cli \<noteq> th_rule_sequence s" and "tc_cmd_rate cmd \<noteq> 0"
    and "nrs_tbf_rule_change cmd s = Ret (0, s1)"
  shows "refresh_cli L now c s1 = Ret s1 \<and> th_clients s1 c = Some cli"
proof -
  have ro: "rules_ok (\<lambda>_. 0) {} s" and so: "sched_ok L elems ordered now s" using assms(1) by (simp_all add: life_inv_def)
  obtain r' rule' where r': "th_rules s r' = Some rule'" "s1 = set_rule r' (Some (re_rated (tc_cmd_rate cmd) rule')) s"
    "rules_ok (\<lambda>_. 0) {} s1"
    using rule_change_ok [OF ro assms(5)] assms(6) by auto
  have so1: "sched_ok L elems ordered now s1" by (rule sched_ok_cong [OF so]) (simp_all add: r'(2))
  have c1: "th_clients s1 c = Some cli" using assms(2) r'(2) by simp
  obtain r rule where r: "tc_rule cli = Some r" "th_rules s1 r = Some rule" using linked_rule [OF r'(3) c1] by blast
  have "(\<lambda>x. case th_rules s1 x of None \<Rightarrow> False | Some rule \<Rightarrow> o_rule_match (th_type s) rule cli) =
      (\<lambda>x. case th_rules s x of None \<Rightarrow> False | Some rule \<Rightarrow> o_rule_match (th_type s) rule cli)"
    using r'(1) by (intro ext, cases "th_type s") (simp_all add: r'(2) o_rule_match_def re_rated_def)
  moreover have "th_type s1 = th_type s" "th_list s1 = th_list s" "th_rule s1 = th_rule s" by (simp_all add: r'(2))
  ultimately have "newest_match s1 cli = newest_match s cli" unfolding newest_match_def by metis
  with assms(3,4) r have "refresh_case s1 cli rule = Kept" by (simp add: refresh_case_def r'(2))
  with refresh_ok [OF r'(3) so1 c1 _ r] have "refresh_cli L now c s1 = Ret s1" by (auto simp: refreshed_def)
  with c1 show ?thesis by simp
qed

theorem tbf_rate_change_missed_witness:
  "\<exists>s1. nrs_tbf_rule_change sample_cmd (sample_head\<lparr>th_rule_sequence := 2\<rparr>) = Ret (0, s1) \<and>
     refresh_cli sample_libcfs 5000 0 s1 = Ret s1 \<and> th_clients s1 0 = Some sample_client"
proof -
  have "refresh_cli sample_libcfs 5000 0 (set_rule 0 (Some (re_rated 500 sample_rule)) (sample_head\<lparr>th_rule_sequence := 2\<rparr>)) =
      Ret (set_rule 0 (Some (re_rated 500 sample_rule)) (sample_head\<lparr>th_rule_sequence := 2\<rparr>)) \<and>
    th_clients (set_rule 0 (Some (re_rated 500 sample_rule)) (sample_head\<lparr>th_rule_sequence := 2\<rparr>)) 0 = Some sample_client"
  proof (rule tbf_rate_change_missed [where cmd = sample_cmd])
    show "life_inv sample_libcfs set list_ordered 5000 (sample_head\<lparr>th_rule_sequence := 2\<rparr>)"
      using sample_rules_ok sample_sched_ok by (simp add: life_inv_def)
    show "th_clients (sample_head\<lparr>th_rule_sequence := 2\<rparr>) 0 = Some sample_client" using sample_head_ok(4) by simp
    show "newest_match (sample_head\<lparr>th_rule_sequence := 2\<rparr>) sample_client = tc_rule sample_client"
      using sample_newest by (simp add: sample_client_def)
    show "tc_rule_sequence sample_client \<noteq> th_rule_sequence (sample_head\<lparr>th_rule_sequence := 2\<rparr>)"
      by (simp add: sample_client_def)
    show "tc_cmd_rate sample_cmd \<noteq> 0" by (simp add: sample_cmd_def)
  qed (rule sample_change)
  then show ?thesis using sample_change by blast
qed

end
