(* ===== verification/Tbf_Parse.thy ===== *)
theory Tbf_Parse
  imports Tbf_Runs
begin

text \<open>
  The text interface of the TBF policy: the commands written to the proc files
  \<open>nrs_tbf_rule\<close> and \<open>nrs_tbf_tw_interval\<close>, their parser, and the listings read back. The NRS core
  (\<open>ptlrpc_nrs_policy_control\<close>, which finds the policy instances of a service and calls
  \<open>nrs_tbf_ctl\<close> on each) is a parameter.
\<close>

section \<open>Parsing\<close>

text \<open>Which allocations succeed.\<close>

record parse_mem =
  pm_cmd :: bool
  pm_jobids_str :: bool
  pm_jobids :: "nat \<Rightarrow> bool"
  pm_nids_str :: bool

text \<open>
  A failed parse leaves its string freed; the flag of the type is not set then, so that nobody
  reads it again.
\<close>

definition nrs_tbf_jobid_parse ::
  "('h, 't) libcfs \<Rightarrow> parse_mem \<Rightarrow> string \<Rightarrow> nrs_tbf_cmd \<Rightarrow> int \<times> nrs_tbf_cmd" where
  "nrs_tbf_jobid_parse L pm ids cmd =
     (if \<not> pm_jobids_str pm then (- ENOMEM, cmd)
      else case nrs_tbf_jobid_list_parse L (pm_jobids pm) ids of (rc, jobids) \<Rightarrow>
        if rc \<noteq> 0 then (rc, cmd\<lparr>tc_jobids_str := None, tc_jobids := []\<rparr>)
        else (0, cmd\<lparr>tc_jobids_str := Some ids, tc_jobids := jobids\<rparr>))"

definition nrs_tbf_nid_parse ::
  "('h, 't) libcfs \<Rightarrow> parse_mem \<Rightarrow> string \<Rightarrow> nrs_tbf_cmd \<Rightarrow> int \<times> nrs_tbf_cmd" where
  "nrs_tbf_nid_parse L pm ids cmd =
     (if \<not> pm_nids_str pm then (- ENOMEM, cmd)
      else case cfs_parse_nidlist L ids of
        None \<Rightarrow> (- EINVAL, cmd\<lparr>tc_nids_str := None, tc_nids := None\<rparr>)
      | Some nids \<Rightarrow> (0, cmd\<lparr>tc_nids_str := Some ids, tc_nids := Some nids\<rparr>))"

text \<open>The list in braces; the second component is the new value of \<open>*val\<close>.\<close>

definition nrs_tbf_id_parse ::
  "('h, 't) libcfs \<Rightarrow> parse_mem \<Rightarrow> string \<Rightarrow> nrs_tbf_cmd \<Rightarrow> int \<times> string option \<times> nrs_tbf_cmd" where
  "nrs_tbf_id_parse L pm val cmd =
     (case strsep CHR ''}'' val of
        (token, None) \<Rightarrow> (- EINVAL, None, cmd)
      | (token, Some v) \<Rightarrow>
          if length token \<le> 1 \<or> hd token \<noteq> CHR ''{'' then (- EINVAL, Some v, cmd)
          else if v \<noteq> [] \<and> hd v \<noteq> CHR '' '' then (- EINVAL, Some v, cmd)
          else
            (case nrs_tbf_jobid_parse L pm (tl token) cmd of (rc, cmd) \<Rightarrow>
             let cmd = (if rc = 0 then cmd\<lparr>tc_valid_jobid := True\<rparr> else cmd) in
             case nrs_tbf_nid_parse L pm (tl token) cmd of (rc, cmd) \<Rightarrow>
             let cmd = (if rc = 0 then cmd\<lparr>tc_valid_nid := True\<rparr> else cmd) in
             (if \<not> tc_valid_jobid cmd \<and> \<not> tc_valid_nid cmd then - EINVAL else 0,
              if v = [] then None else Some (tl v), cmd)))"

abbreviation LPROCFS_NRS_RATE_MAX :: u64 where "LPROCFS_NRS_RATE_MAX \<equiv> 65535"

definition zero_cmd :: nrs_tbf_cmd where
  "zero_cmd = \<lparr>tc_cmd = NRS_CTL_TBF_START_RULE, tc_name = [], tc_cmd_rate = 0, tc_nids = None, tc_nids_str = None,
     tc_jobids = [], tc_jobids_str = None, tc_valid_jobid = False, tc_valid_nid = False,
     tc_rule_default = False, tc_tw_interval = 0\<rparr>"

definition cmd_word :: "string \<Rightarrow> nrs_tbf_cmd_type option" where
  "cmd_word token =
     (if token = ''start'' then Some NRS_CTL_TBF_START_RULE
      else if token = ''stop'' then Some NRS_CTL_TBF_STOP_RULE
      else if token = ''change'' then Some NRS_CTL_TBF_CHANGE_RATE
      else None)"

text \<open>The branch for the name \<open>sscdt\<close>, which is not a rule but the window ordering.\<close>

definition parse_sscdt :: "int \<Rightarrow> nrs_tbf_cmd_type \<Rightarrow> string option \<Rightarrow> int + nrs_tbf_cmd" where
  "parse_sscdt tw cmd val =
     (let c = (case cmd of NRS_CTL_TBF_START_RULE \<Rightarrow> NRS_CTL_TBF_START_SSCDT
                 | NRS_CTL_TBF_STOP_RULE \<Rightarrow> NRS_CTL_TBF_STOP_SSCDT
                 | _ \<Rightarrow> NRS_CTL_TBF_CHANGE_TW_INTERVAL)
      in case val of
           None \<Rightarrow> Inr (zero_cmd\<lparr>tc_cmd := c, tc_tw_interval := of_int tw\<rparr>)
         | Some v \<Rightarrow>
             if v = [] \<or> \<not> isdigit (hd v) then Inl (- EINVAL)
             else let w = of_nat (fst (strtoull v))
                  in Inr (zero_cmd\<lparr>tc_cmd := c, tc_tw_interval := if w = 0 then of_int tw else w\<rparr>))"

text \<open>The rate at the end of a command, and the default rate when there is none.\<close>

definition parse_rate :: "int \<Rightarrow> nrs_tbf_cmd \<Rightarrow> string option \<Rightarrow> int + nrs_tbf_cmd" where
  "parse_rate rate cmd val =
     (case val of
        Some v \<Rightarrow>
          if tc_cmd cmd = NRS_CTL_TBF_STOP_RULE \<or> v = [] \<or> \<not> isdigit (hd v) then Inl (- EINVAL)
          else let x = of_nat (fst (strtoull v))
               in if x \<le> 0 \<or> x \<ge> LPROCFS_NRS_RATE_MAX then Inl (- EINVAL) else Inr (cmd\<lparr>tc_cmd_rate := x\<rparr>)
      | None \<Rightarrow>
          if tc_cmd cmd = NRS_CTL_TBF_CHANGE_RATE then Inl (- EINVAL)
          else Inr (cmd\<lparr>tc_cmd_rate := of_int rate\<rparr>))"

definition nrs_tbf_parse_cmd ::
  "('h, 't) libcfs \<Rightarrow> parse_mem \<Rightarrow> int \<Rightarrow> int \<Rightarrow> string \<Rightarrow> int + nrs_tbf_cmd" where
  "nrs_tbf_parse_cmd L pm rate tw buffer =
     (if \<not> pm_cmd pm then Inl (- ENOMEM)
      else case strsep CHR '' '' buffer of
        (token, None) \<Rightarrow> Inl (- EINVAL)
      | (token, Some val) \<Rightarrow>
          if val = [] then Inl (- EINVAL)
          else case cmd_word token of
            None \<Rightarrow> Inl (- EINVAL)
          | Some c \<Rightarrow>
              (case strsep CHR '' '' val of (name, val) \<Rightarrow>
                 if val = None \<and> c \<noteq> NRS_CTL_TBF_STOP_RULE then Inl (- EINVAL)
                 else if name = ''sscdt'' then parse_sscdt tw c val
                 else if list_ex (\<lambda>ch. \<not> isalnum ch \<and> ch \<noteq> CHR ''_'') name then Inl (- EINVAL)
                 else
                   let cmd = zero_cmd\<lparr>tc_cmd := c, tc_name := name\<rparr>
                   in if c = NRS_CTL_TBF_START_RULE then
                        (case val of
                           None \<Rightarrow> Inl (- EINVAL)
                         | Some v \<Rightarrow>
                             (case nrs_tbf_id_parse L pm v cmd of (rc, val, cmd) \<Rightarrow>
                                if rc \<noteq> 0 then Inl rc else parse_rate rate cmd val))
                      else parse_rate rate cmd val))"

section \<open>The proc files\<close>

datatype nrs_queue = PTLRPC_NRS_QUEUE_REG | PTLRPC_NRS_QUEUE_HP | PTLRPC_NRS_QUEUE_BOTH

datatype nrs_ctl_tbf = NRS_CTL_TBF_RD_RULE | NRS_CTL_TBF_WR_RULE | NRS_CTL_TBF_RD_TW_INTERVAL
  | NRS_CTL_TBF_WR_TW_INTERVAL | NRS_CTL_OTHER

abbreviation LPROCFS_WR_NRS_TBF_MAX_CMD :: nat where "LPROCFS_WR_NRS_TBF_MAX_CMD \<equiv> 4096"

text \<open>
  The front of both write handlers: the queue the command is for and its text. \<open>user\<close> is the
  user's buffer, \<open>None\<close> when it cannot be read; the kernel's copy is followed by NUL bytes.
\<close>

definition tbf_write_front ::
  "bool \<Rightarrow> bool \<Rightarrow> nat \<Rightarrow> string option \<Rightarrow> int + (nrs_queue \<times> string)" where
  "tbf_write_front mem has_hp cnt user =
     (if \<not> mem then Inl (- ENOMEM)
      else if cnt > LPROCFS_WR_NRS_TBF_MAX_CMD - 1 then Inl (- EINVAL)
      else case user of
        None \<Rightarrow> Inl (- EFAULT)
      | Some b \<Rightarrow>
          let kernbuf = cstr (take cnt b) in
          (case strsep CHR '' '' kernbuf of
             (token, None) \<Rightarrow> Inl (- EINVAL)
           | (token, Some v) \<Rightarrow>
               (case (if token = ''reg'' then (PTLRPC_NRS_QUEUE_REG, v)
                      else if token = ''hp'' then (PTLRPC_NRS_QUEUE_HP, v)
                      else (PTLRPC_NRS_QUEUE_BOTH, kernbuf)) of (queue, val) \<Rightarrow>
                if val = [] then Inl (- EINVAL)
                else if queue = PTLRPC_NRS_QUEUE_HP \<and> \<not> has_hp then Inl (- ENODEV)
                else if queue = PTLRPC_NRS_QUEUE_BOTH \<and> \<not> has_hp then Inr (PTLRPC_NRS_QUEUE_REG, val)
                else Inr (queue, val))))"

definition tbf_seq_write ::
  "(nrs_queue \<Rightarrow> nrs_tbf_cmd \<Rightarrow> 's \<Rightarrow> (int \<times> 's) outcome) \<Rightarrow> ('h, 't) libcfs \<Rightarrow> parse_mem \<Rightarrow> int \<Rightarrow> int \<Rightarrow>
   bool \<Rightarrow> bool \<Rightarrow> nat \<Rightarrow> string option \<Rightarrow> 's \<Rightarrow> (int \<times> 's) outcome" where
  "tbf_seq_write control L pm rate tw mem has_hp cnt user s =
     (case tbf_write_front mem has_hp cnt user of
        Inl rc \<Rightarrow> Ret (rc, s)
      | Inr (queue, val) \<Rightarrow>
          (case nrs_tbf_parse_cmd L pm rate tw val of
             Inl rc \<Rightarrow> Ret (rc, s)
           | Inr cmd \<Rightarrow> bindO (control queue cmd s) (\<lambda>(rc, s). Ret (if rc \<noteq> 0 then rc else int cnt, s))))"

definition ptlrpc_lprocfs_nrs_tbf_rule_seq_write where
  "ptlrpc_lprocfs_nrs_tbf_rule_seq_write control = tbf_seq_write (control NRS_CTL_TBF_WR_RULE)"

definition ptlrpc_lprocfs_nrs_tbf_tw_interval_seq_write where
  "ptlrpc_lprocfs_nrs_tbf_tw_interval_seq_write control = tbf_seq_write (control NRS_CTL_TBF_WR_TW_INTERVAL)"

text \<open>
  Reading: the regular queue first, then the high-priority one if the service has it. A full
  buffer ends the call with 0, and \<open>-ENODEV\<close> of the first queue is ignored.
\<close>

definition tbf_seq_show ::
  "(nrs_queue \<Rightarrow> seq_file \<Rightarrow> (int \<times> seq_file) outcome) \<Rightarrow> bool \<Rightarrow> seq_file \<Rightarrow> (int \<times> seq_file) outcome" where
  "tbf_seq_show control has_hp m =
     bindO (control PTLRPC_NRS_QUEUE_REG (snd (seq_printf (''regular_requests:'' @ [CHR 0x0A]) m))) (\<lambda>(rc, m).
       if rc = - ENOSPC then Ret (0, m)
       else if rc \<noteq> 0 \<and> rc \<noteq> - ENODEV then Ret (rc, m)
       else if \<not> has_hp then Ret (rc, m)
       else
         bindO (control PTLRPC_NRS_QUEUE_HP (snd (seq_printf (''high_priority_requests:'' @ [CHR 0x0A]) m))) (\<lambda>(rc, m).
           if rc = - ENOSPC then Ret (0, m) else Ret (rc, m)))"

definition ptlrpc_lprocfs_nrs_tbf_rule_seq_show where
  "ptlrpc_lprocfs_nrs_tbf_rule_seq_show control = tbf_seq_show (control NRS_CTL_TBF_RD_RULE)"

definition ptlrpc_lprocfs_nrs_tbf_tw_interval_seq_show where
  "ptlrpc_lprocfs_nrs_tbf_tw_interval_seq_show control = tbf_seq_show (control NRS_CTL_TBF_RD_TW_INTERVAL)"

section \<open>What the parser accepts\<close>

lemma parse_rate_ok:
  assumes "parse_rate rate cmd val = Inr cmd'"
  shows "(\<exists>x. cmd' = cmd\<lparr>tc_cmd_rate := x\<rparr> \<and>
     (val = None \<and> x = of_int rate \<or> val \<noteq> None \<and> 0 < x \<and> x < LPROCFS_NRS_RATE_MAX))"
  using assms by (auto simp: parse_rate_def Let_def not_le word_neq_0_conv split: option.splits if_splits)

lemma id_parse_ok:
  assumes "nrs_tbf_id_parse L pm val cmd = (0, val', cmd')" and "\<not> tc_valid_jobid cmd" "\<not> tc_valid_nid cmd"
  shows "tc_cmd cmd' = tc_cmd cmd" "tc_name cmd' = tc_name cmd" "tc_rule_default cmd' = tc_rule_default cmd"
    and "tc_valid_jobid cmd' \<Longrightarrow> tc_jobids_str cmd' \<noteq> None" and "tc_valid_nid cmd' \<Longrightarrow> tc_nids_str cmd' \<noteq> None"
    and "tc_valid_jobid cmd' \<or> tc_valid_nid cmd'"
  using assms
  by (auto simp: nrs_tbf_id_parse_def nrs_tbf_jobid_parse_def nrs_tbf_nid_parse_def Let_def
      split: option.splits if_splits prod.splits)

text \<open>The shape of an accepted command.\<close>

definition parsed_ok :: "int \<Rightarrow> int \<Rightarrow> nrs_tbf_cmd \<Rightarrow> bool" where
  "parsed_ok rate tw cmd \<longleftrightarrow>
     list_all (\<lambda>ch. isalnum ch \<or> ch = CHR ''_'') (tc_name cmd) \<and> \<not> tc_rule_default cmd \<and>
     (case tc_cmd cmd of
        NRS_CTL_TBF_START_RULE \<Rightarrow>
          (tc_cmd_rate cmd = of_int rate \<or> 0 < tc_cmd_rate cmd \<and> tc_cmd_rate cmd < LPROCFS_NRS_RATE_MAX) \<and>
          (tc_valid_jobid cmd \<or> tc_valid_nid cmd) \<and>
          (tc_valid_jobid cmd \<longrightarrow> tc_jobids_str cmd \<noteq> None) \<and> (tc_valid_nid cmd \<longrightarrow> tc_nids_str cmd \<noteq> None)
      | NRS_CTL_TBF_CHANGE_RATE \<Rightarrow> 0 < tc_cmd_rate cmd \<and> tc_cmd_rate cmd < LPROCFS_NRS_RATE_MAX
      | NRS_CTL_TBF_STOP_RULE \<Rightarrow> True
      | _ \<Rightarrow> tc_tw_interval cmd = of_int tw \<or> tc_tw_interval cmd \<noteq> 0)"

lemma parse_sscdt_ok: "parse_sscdt tw c val = Inr cmd \<Longrightarrow> cmd_word token = Some c \<Longrightarrow> parsed_ok rate tw cmd"
  by (auto simp: parse_sscdt_def parsed_ok_def zero_cmd_def Let_def cmd_word_def split: option.splits if_splits)

lemma parse_start_ok:
  assumes "nrs_tbf_id_parse L pm v (zero_cmd\<lparr>tc_cmd := NRS_CTL_TBF_START_RULE, tc_name := name\<rparr>) = (0, val, cmd)"
    and "parse_rate rate cmd val = Inr cmd'" and "list_all (\<lambda>ch. isalnum ch \<or> ch = CHR ''_'') name"
  shows "parsed_ok rate tw cmd'"
proof -
  note i = id_parse_ok [OF assms(1)]
  obtain x where "cmd' = cmd\<lparr>tc_cmd_rate := x\<rparr>" "x = of_int rate \<or> 0 < x \<and> x < LPROCFS_NRS_RATE_MAX"
    using parse_rate_ok [OF assms(2)] by blast
  with i assms(3) show ?thesis by (auto simp: parsed_ok_def zero_cmd_def)
qed

lemma parse_other_ok:
  assumes "parse_rate rate (zero_cmd\<lparr>tc_cmd := c, tc_name := name\<rparr>) val = Inr cmd"
    and "list_all (\<lambda>ch. isalnum ch \<or> ch = CHR ''_'') name" and "c = NRS_CTL_TBF_STOP_RULE \<or> c = NRS_CTL_TBF_CHANGE_RATE"
  shows "parsed_ok rate tw cmd"
proof -
  obtain x where x: "cmd = (zero_cmd\<lparr>tc_cmd := c, tc_name := name\<rparr>)\<lparr>tc_cmd_rate := x\<rparr>"
    "val \<noteq> None \<Longrightarrow> 0 < x \<and> x < LPROCFS_NRS_RATE_MAX"
    using parse_rate_ok [OF assms(1)] by blast
  moreover have "c = NRS_CTL_TBF_CHANGE_RATE \<Longrightarrow> val \<noteq> None" using assms(1) by (cases val) (simp_all add: parse_rate_def)
  ultimately show ?thesis using assms(2,3) by (auto simp: parsed_ok_def zero_cmd_def)
qed

lemma parse_cmd_ok:
  assumes "nrs_tbf_parse_cmd L pm rate tw buffer = Inr cmd"
  shows "parsed_ok rate tw cmd"
proof -
  obtain token val where t: "strsep CHR '' '' buffer = (token, Some val)" "val \<noteq> []"
    using assms by (auto simp: nrs_tbf_parse_cmd_def split: prod.splits option.splits if_splits)
  obtain c where c: "cmd_word token = Some c"
    using assms t by (auto simp: nrs_tbf_parse_cmd_def split: option.splits if_splits)
  obtain name val' where n: "strsep CHR '' '' val = (name, val')" by (cases "strsep CHR '' '' val")
  note p = assms [unfolded nrs_tbf_parse_cmd_def]
  show ?thesis
  proof (cases "name = ''sscdt''")
    case True
    with p t c n have "parse_sscdt tw c val' = Inr cmd" by (auto split: if_splits)
    then show ?thesis using parse_sscdt_ok c by blast
  next
    case False
    with p t c n have ch: "list_all (\<lambda>ch. isalnum ch \<or> ch = CHR ''_'') name"
      by (auto simp: list_all_iff list_ex_iff split: if_splits)
    show ?thesis
    proof (cases "c = NRS_CTL_TBF_START_RULE")
      case True
      with p t c n False obtain v where v: "val' = Some v" by (auto split: if_splits)
      obtain rc w cmd' where i: "nrs_tbf_id_parse L pm v (zero_cmd\<lparr>tc_cmd := c, tc_name := name\<rparr>) = (rc, w, cmd')"
        by (cases "nrs_tbf_id_parse L pm v (zero_cmd\<lparr>tc_cmd := c, tc_name := name\<rparr>)")
      with p t c n False True v have "rc = 0" "parse_rate rate cmd' w = Inr cmd" by (auto split: if_splits)
      with i True ch parse_start_ok show ?thesis by blast
    next
      case sc: False
      with p t c n False have "parse_rate rate (zero_cmd\<lparr>tc_cmd := c, tc_name := name\<rparr>) val' = Inr cmd"
        by (auto split: if_splits)
      moreover have "c = NRS_CTL_TBF_STOP_RULE \<or> c = NRS_CTL_TBF_CHANGE_RATE"
        using c sc by (auto simp: cmd_word_def split: if_splits)
      ultimately show ?thesis using ch parse_other_ok by blast
    qed
  qed
qed

lemma parsed_cmd_ok:
  assumes "parsed_ok rate tw cmd" and "length (tc_name cmd) < MAX_TBF_NAME"
    and "0 < rate" "rate < 2 ^ 31" and "(of_int tw :: u32) \<noteq> 0" and "sint (tc_tw_interval cmd) \<noteq> - 1"
    and "unat (of_int (tbf_depth s) :: u64) < 2 ^ 63" and "sscdt_req_compare_ptr s \<noteq> None"
  shows "cmd_ok cmd s"
proof -
  have "uint (of_int rate :: u64) = rate"
    using assms(3,4) by (simp add: unsigned_of_int take_bit_int_eq_self_iff)
  then have r: "(of_int rate :: u64) \<noteq> 0" using assms(3) by auto
  have i: "sint (tc_tw_interval cmd) \<notin> {0, - 1}" if "tc_tw_interval cmd = of_int tw \<or> tc_tw_interval cmd \<noteq> 0"
  proof -
    from that assms(5) have "tc_tw_interval cmd \<noteq> 0" by auto
    then have "sint (tc_tw_interval cmd) \<noteq> 0" by (simp add: signed_eq_0_iff)
    with assms(6) show ?thesis by simp
  qed
  have s: "start_ok cmd s" if "tc_cmd cmd = NRS_CTL_TBF_START_RULE" "valid_for (th_type s) cmd"
    using assms(1,2,7) that r
    by (cases "th_type s") (auto simp: parsed_ok_def start_ok_def valid_for_def list_string_def)
  show ?thesis using assms(1,8) i s by (cases "tc_cmd cmd") (auto simp: cmd_ok_def parsed_ok_def)
qed

section \<open>Properties\<close>

text \<open>
  C21: Every command the parser accepts whose rule name fits its array can be carried out: with
  a positive default rate and a window width that is neither 0 nor -1, \<open>nrs_tbf_command\<close>
  returns on any sound policy without an assertion failure, a division trap or a write outside
  the rule, and leaves a sound policy; a command that fails changes nothing.
\<close>

theorem tbf_parsed_command_safe:
  assumes "nrs_tbf_parse_cmd L pm rate tw buffer = Inr cmd" and "length (tc_name cmd) < MAX_TBF_NAME"
    and "0 < rate" "rate < 2 ^ 31" and "(of_int tw :: u32) \<noteq> 0" and "sint (tc_tw_interval cmd) \<noteq> - 1"
    and "life_inv L elems ordered now s" and "sscdt_req_compare_ptr s \<noteq> None"
    and "unat (of_int (tbf_depth s) :: u64) < 2 ^ 63" and "\<And>r. new = Some r \<Longrightarrow> th_rules s r = None"
  shows "\<exists>rc s'. nrs_tbf_command L new mem_str mem cmd s = Ret (rc, s') \<and> life_inv L elems ordered now s' \<and>
    (rc \<noteq> 0 \<longrightarrow> s' = s)"
proof -
  have "cmd_ok cmd s" using parsed_cmd_ok [OF parse_cmd_ok [OF assms(1)] assms(2-6,9,8)] .
  with assms(7,10) show ?thesis
    using command_ok [of "{}" s L elems ordered now cmd new mem_str mem] unfolding life_inv_def by metis
qed

definition sample_mem :: parse_mem where
  "sample_mem = \<lparr>pm_cmd = True, pm_jobids_str = True, pm_jobids = (\<lambda>_. True), pm_nids_str = True\<rparr>"

lemma sample_parse:
  "nrs_tbf_parse_cmd sample_libcfs sample_mem 10000 1000 ''change default 500'' = Inr (zero_cmd\<lparr>tc_cmd := NRS_CTL_TBF_CHANGE_RATE,
     tc_name := ''default'', tc_cmd_rate := 500\<rparr>)"
  by (simp add: nrs_tbf_parse_cmd_def sample_mem_def strsep_def cmd_word_def parse_rate_def zero_cmd_def isalnum_def
      isdigit_def strtoull_def digit_val_def)

theorem tbf_parsed_command_safe_witness:
  "\<exists>rc s'. nrs_tbf_command sample_libcfs None True (\<lambda>_. True) (zero_cmd\<lparr>tc_cmd := NRS_CTL_TBF_CHANGE_RATE,
       tc_name := ''default'', tc_cmd_rate := 500\<rparr>) sample_head = Ret (rc, s') \<and>
     life_inv sample_libcfs set list_ordered 5000 s' \<and> (rc \<noteq> 0 \<longrightarrow> s' = sample_head)"
  by (rule tbf_parsed_command_safe [OF sample_parse]) (simp_all add: zero_cmd_def sample_life_inv, simp_all add: sample_head_def)

text \<open>
  A rule name longer than its array overruns it. The parser accepts a start command whose
  name has more than 16 letters, and when no listed rule has that name, a rule can be allocated
  and the list fits the type of the policy, \<open>nrs_tbf_rule_start\<close> copies the name past the
  end of \<open>tr_name\<close>.
\<close>

theorem tbf_long_name_overruns:
  assumes "nrs_tbf_parse_cmd L pm rate tw buffer = Inr cmd" and "tc_cmd cmd = NRS_CTL_TBF_START_RULE"
    and "length (tc_name cmd) > MAX_TBF_NAME" and "life_inv L elems ordered now s" and "valid_for (th_type s) cmd"
    and "\<forall>r\<in>set (th_list s). named s r \<noteq> tc_name cmd"
  shows "nrs_tbf_command L (Some r) mem_str mem cmd s = Fault OVERRUN"
proof -
  have "rules_ok (\<lambda>_. 0) {} s" using assms(4) by (simp add: life_inv_def)
  from rule_find_ok [OF this, of "tc_name cmd"] assms(6)
  have "nrs_tbf_rule_find (tc_name cmd) s = Ret (None, s)" by (auto simp: named_def)
  with assms(2,3,5) show ?thesis by (simp add: nrs_tbf_command_def nrs_tbf_rule_start_def)
qed

definition long_cmd :: nrs_tbf_cmd where
  "long_cmd = zero_cmd\<lparr>tc_cmd := NRS_CTL_TBF_START_RULE, tc_name := ''abcdefghijklmnopq'', tc_jobids_str := Some ''x'',
     tc_jobids := [''x''], tc_valid_jobid := True, tc_nids_str := Some ''x'', tc_nids := Some (\<lambda>_. True),
     tc_valid_nid := True, tc_cmd_rate := 100\<rparr>"

lemma sample_jobids: "nrs_tbf_jobid_list_parse sample_libcfs mem ''x'' = (if mem 0 then (0, [''x'']) else (- ENOMEM, []))"
  by (simp add: nrs_tbf_jobid_list_parse_def jobid_list_loop.simps sample_libcfs_def strsep_def)

lemma sample_nids: "cfs_parse_nidlist sample_libcfs str = Some (\<lambda>_. True)"
  by (simp add: sample_libcfs_def)

lemma long_parse:
  "nrs_tbf_parse_cmd sample_libcfs sample_mem 10000 1000 ''start abcdefghijklmnopq {x} 100'' = Inr long_cmd"
  by (simp add: nrs_tbf_parse_cmd_def nrs_tbf_id_parse_def nrs_tbf_jobid_parse_def nrs_tbf_nid_parse_def sample_jobids
      sample_nids sample_mem_def strsep_def cmd_word_def parse_rate_def zero_cmd_def isalnum_def isdigit_def
      strtoull_def digit_val_def long_cmd_def)

theorem tbf_long_name_overruns_witness:
  "nrs_tbf_command sample_libcfs (Some 1) True (\<lambda>_. True) long_cmd sample_head = Fault OVERRUN"
  by (rule tbf_long_name_overruns [OF long_parse _ _ sample_life_inv])
     (simp_all add: long_cmd_def zero_cmd_def sample_head_def valid_for_def named_def sample_rule_def)

end
