(* ===== verification/Tbf_Start.thy ===== *)
theory Tbf_Start
  imports Tbf_Parse
begin

text \<open>
  Starting and stopping a TBF policy instance, its control call and the listing of its rules.
  A successful start establishes the invariant of \<open>Tbf_Runs\<close>, so that the properties proved
  there hold of every state from the start of the policy on; stopping frees what is left.
\<close>

section \<open>Starting\<close>

text \<open>
  The smallest number of bits, from 1 on, whose power reaches the size of the cache. From bit 31
  on the shifted value is negative or, where the processor takes the shift modulo 32, small
  again: it never reaches a size above \<open>2 ^ 30\<close>, and the loop does not end.
\<close>

function hash_order_loop :: "int \<Rightarrow> nat \<Rightarrow> nat outcome" where
  "hash_order_loop cache bits =
     (if bits \<ge> 31 then Fault LOCKUP
      else if 2 ^ bits < cache then hash_order_loop cache (bits + 1)
      else Ret bits)"
  by pat_completeness auto
termination
  by (relation "measure (\<lambda>(cache, bits). 31 - bits)") auto

declare hash_order_loop.simps [simp del]

definition nrs_tbf_jobid_hash_order :: "int \<Rightarrow> nat outcome" where
  "nrs_tbf_jobid_hash_order cache = hash_order_loop cache 1"

text \<open>Which allocations succeed, and the address of the default rule.\<close>

record start_mem =
  sm_head :: bool
  sm_heap :: bool
  sm_hash :: bool
  sm_rule :: "nat option"
  sm_str :: bool

definition default_cmd :: "tbf_type \<Rightarrow> int \<Rightarrow> nrs_tbf_cmd" where
  "default_cmd ty rate =
     (case ty of NRS_TBF_TYPE_JOBID \<Rightarrow> zero_cmd\<lparr>tc_jobids_str := Some ''*''\<rparr>
       | NRS_TBF_TYPE_NID \<Rightarrow> zero_cmd\<lparr>tc_nids_str := Some ''*''\<rparr>)
     \<lparr>tc_cmd_rate := of_int rate, tc_rule_default := True, tc_name := NRS_TBF_DEFAULT_RULE\<rparr>"

definition nrs_tbf_jobid_startup ::
  "('h, 't) libcfs \<Rightarrow> start_mem \<Rightarrow> ('h, 't) nrs_tbf_head \<Rightarrow> (int \<times> ('h, 't) nrs_tbf_head) outcome" where
  "nrs_tbf_jobid_startup L sm s =
     bindO (nrs_tbf_jobid_hash_order (tbf_jobid_cache_size s)) (\<lambda>bits.
       let bits = (if bits < NRS_TBF_JOBID_BKT_BITS then NRS_TBF_JOBID_BKT_BITS else bits) in
       if \<not> sm_hash sm then Ret (- ENOMEM, s)
       else
         bindO (nrs_tbf_rule_start L (sm_rule sm) (sm_str sm) (\<lambda>_. True) (default_cmd NRS_TBF_TYPE_JOBID (tbf_rate s))
           (s\<lparr>th_cli_hash := cfs_hash_create L, th_hash_bits := bits, th_lru := (\<lambda>_. [])\<rparr>)) (\<lambda>(rc, s).
         Ret (rc, s\<lparr>sscdt_req_compare_ptr := Some Sscdt_req_compare_jobid\<rparr>)))"

definition nrs_tbf_nid_startup ::
  "('h, 't) libcfs \<Rightarrow> start_mem \<Rightarrow> ('h, 't) nrs_tbf_head \<Rightarrow> (int \<times> ('h, 't) nrs_tbf_head) outcome" where
  "nrs_tbf_nid_startup L sm s =
     (if \<not> sm_hash sm then Ret (- ENOMEM, s)
      else
        bindO (nrs_tbf_rule_start L (sm_rule sm) (sm_str sm) (\<lambda>_. True) (default_cmd NRS_TBF_TYPE_NID (tbf_rate s))
          (s\<lparr>th_cli_hash := cfs_hash_create L\<rparr>)) (\<lambda>(rc, s).
        Ret (rc, s\<lparr>sscdt_req_compare_ptr := Some Sscdt_req_compare_nid\<rparr>)))"

text \<open>A fresh head; the module's variables and the throttling flag of the NRS head stay.\<close>

definition fresh_head :: "('h, 't) libcfs \<Rightarrow> tbf_type \<Rightarrow> ('h, 't) nrs_tbf_head \<Rightarrow> ('h, 't) nrs_tbf_head" where
  "fresh_head L ty s = s\<lparr>th_type := ty, th_list := [], th_rules := (\<lambda>_. None), th_clients := (\<lambda>_. None),
     th_rule_sequence := 0, th_rule := None, th_timer := None, th_deadline := 0, th_sequence := 0,
     th_binheap := cfs_binheap_create L\<rparr>"

definition tbf_type_of :: "string \<Rightarrow> tbf_type option" where
  "tbf_type_of arg = (if arg = ''nid'' then Some NRS_TBF_TYPE_NID
     else if arg = ''jobid'' then Some NRS_TBF_TYPE_JOBID else None)"

abbreviation NRS_TBF_TYPE_MAX_LEN :: nat where "NRS_TBF_TYPE_MAX_LEN \<equiv> 20"

text \<open>
  On an error the head is freed again; of the returned state only the module's variables are
  meaningful then.
\<close>

definition nrs_tbf_start ::
  "('h, 't) libcfs \<Rightarrow> start_mem \<Rightarrow> string option \<Rightarrow> ('h, 't) nrs_tbf_head \<Rightarrow> (int \<times> ('h, 't) nrs_tbf_head) outcome" where
  "nrs_tbf_start L sm arg s =
     (case arg of
        None \<Rightarrow> Ret (- EINVAL, s)
      | Some a \<Rightarrow>
          if length a > NRS_TBF_TYPE_MAX_LEN then Ret (- EINVAL, s)
          else case tbf_type_of a of
            None \<Rightarrow> Ret (- ENOTSUPP, s)
          | Some ty \<Rightarrow>
              if \<not> sm_head sm then Ret (- ENOMEM, s)
              else if \<not> sm_heap sm then Ret (- ENOMEM, s)
              else (case ty of NRS_TBF_TYPE_NID \<Rightarrow> nrs_tbf_nid_startup L sm (fresh_head L ty s)
                     | NRS_TBF_TYPE_JOBID \<Rightarrow> nrs_tbf_jobid_startup L sm (fresh_head L ty s)))"

section \<open>Stopping\<close>

text \<open>
  Destroying the table: each client leaves it, which drops the reference a NID table holds, and
  is freed by \<open>hs_exit\<close>.
\<close>

definition hop_exit :: "nat \<Rightarrow> ('h, 't) nrs_tbf_head \<Rightarrow> ('h, 't) nrs_tbf_head outcome" where
  "hop_exit c s =
     bindO (get_cli s c) (\<lambda>cli. lassert (tc_ref cli = 0) (nrs_tbf_cli_fini c s))"

fun destroy_hash :: "nat list \<Rightarrow> ('h, 't) nrs_tbf_head \<Rightarrow> ('h, 't) nrs_tbf_head outcome" where
  "destroy_hash [] s = Ret s"
| "destroy_hash (c # cs) s =
     bindO (case th_type s of NRS_TBF_TYPE_NID \<Rightarrow> hop_put c s | NRS_TBF_TYPE_JOBID \<Rightarrow> Ret s) (\<lambda>s.
     bindO (hop_exit c s) (destroy_hash cs))"

fun put_rules :: "nat list \<Rightarrow> ('h, 't) nrs_tbf_head \<Rightarrow> ('h, 't) nrs_tbf_head outcome" where
  "put_rules [] s = Ret s"
| "put_rules (r # rs) s =
     bindO (nrs_tbf_rule_put r (s\<lparr>th_list := removeAll r (th_list s)\<rparr>)) (put_rules rs)"

definition nrs_tbf_stop :: "('h, 't) libcfs \<Rightarrow> ('h, 't) nrs_tbf_head \<Rightarrow> ('h, 't) nrs_tbf_head outcome" where
  "nrs_tbf_stop L s =
     bindO (destroy_hash (cfs_hash_items L (th_cli_hash s)) (s\<lparr>th_timer := None\<rparr>)) (\<lambda>s.
     bindO (put_rules (th_list s) s) (\<lambda>s.
       lassert (th_list s = []) (lassert (cfs_binheap_is_empty L (th_binheap s))
         (Ret (s\<lparr>nrs_throttling := False\<rparr>)))))"

section \<open>Control\<close>

definition nrs_tbf_tw_interval_dump :: "('h, 't) nrs_tbf_head \<Rightarrow> seq_file \<Rightarrow> int \<times> seq_file" where
  "nrs_tbf_tw_interval_dump s m =
     seq_printf (''time window interval '' @ show_int (tbf_tw_interval s) @ [CHR 0x0A]) m"

definition cpt_line :: "int \<Rightarrow> string" where
  "cpt_line cpt = ''CPT '' @ show_int cpt @ '':'' @ [CHR 0x0A]"

text \<open>The argument of the control call is a sequence file or a command, depending on the opcode.\<close>

definition nrs_tbf_ctl ::
  "('h, 't) libcfs \<Rightarrow> nat option \<Rightarrow> bool \<Rightarrow> (nat \<Rightarrow> bool) \<Rightarrow> int \<Rightarrow> nrs_ctl_tbf \<Rightarrow> seq_file \<Rightarrow> nrs_tbf_cmd \<Rightarrow>
   ('h, 't) nrs_tbf_head \<Rightarrow> (int \<times> seq_file \<times> ('h, 't) nrs_tbf_head) outcome" where
  "nrs_tbf_ctl L new mem_str mem cpt opc m cmd s =
     (case opc of
        NRS_CTL_OTHER \<Rightarrow> Ret (- EINVAL, m, s)
      | NRS_CTL_TBF_RD_RULE \<Rightarrow>
          bindO (nrs_tbf_rule_dump_all s (th_list s) (snd (seq_printf (cpt_line cpt) m))) (\<lambda>(rc, m). Ret (rc, m, s))
      | NRS_CTL_TBF_WR_RULE \<Rightarrow>
          bindO (nrs_tbf_command L new mem_str mem cmd s) (\<lambda>(rc, s). Ret (rc, m, s))
      | NRS_CTL_TBF_RD_TW_INTERVAL \<Rightarrow> (case nrs_tbf_tw_interval_dump s m of (rc, m) \<Rightarrow> Ret (rc, m, s))
      | NRS_CTL_TBF_WR_TW_INTERVAL \<Rightarrow>
          bindO (nrs_tbf_command L new mem_str mem cmd s) (\<lambda>(rc, s). Ret (rc, m, s)))"

text \<open>The proc files of the policy; the second component of \<open>fini\<close> is what stays behind.\<close>

definition nrs_tbf_lprocfs_init :: "(string list \<Rightarrow> int) \<Rightarrow> bool \<Rightarrow> int" where
  "nrs_tbf_lprocfs_init lprocfs_add_vars has_root =
     (if \<not> has_root then 0 else lprocfs_add_vars [''nrs_tbf_rule'', ''nrs_tbf_tw_interval''])"

definition nrs_tbf_lprocfs_fini :: "bool \<Rightarrow> string set \<Rightarrow> string set" where
  "nrs_tbf_lprocfs_fini has_root entries = (if \<not> has_root then entries else entries - {''nrs_tbf_rule''})"

section \<open>The order of the hash table\<close>

lemma hash_order_loop_spec:
  assumes "cache \<le> 2 ^ 30" and "bits \<le> 30" and "\<forall>b<bits. 1 \<le> b \<longrightarrow> 2 ^ b < cache"
  shows "\<exists>n. hash_order_loop cache bits = Ret n \<and> bits \<le> n \<and> n \<le> 30 \<and> cache \<le> 2 ^ n \<and>
    (\<forall>b<n. 1 \<le> b \<longrightarrow> 2 ^ b < cache)"
  using assms
proof (induction cache bits rule: hash_order_loop.induct)
  case (1 cache bits)
  show ?case
  proof (cases "2 ^ bits < cache")
    case True
    then have "bits \<noteq> 30" using 1(2) by auto
    with 1(3) have b: "bits + 1 \<le> 30" by simp
    have "\<forall>b<bits + 1. 1 \<le> b \<longrightarrow> 2 ^ b < cache" using 1(4) True by (simp add: less_Suc_eq)
    with 1(1) True 1(2,3) b have "\<exists>n. hash_order_loop cache (bits + 1) = Ret n \<and> bits + 1 \<le> n \<and> n \<le> 30 \<and>
        cache \<le> 2 ^ n \<and> (\<forall>b<n. 1 \<le> b \<longrightarrow> 2 ^ b < cache)" by auto
    with True 1(3) show ?thesis by (subst hash_order_loop.simps) auto
  next
    case False
    with 1(3,4) show ?thesis by (subst hash_order_loop.simps) auto
  qed
qed

lemma hash_order_lockup:
  assumes "2 ^ 30 < cache"
  shows "hash_order_loop cache bits = Fault LOCKUP"
  using assms
proof (induction cache bits rule: hash_order_loop.induct)
  case (1 cache bits)
  have "(2 :: int) ^ bits \<le> 2 ^ 30" if "\<not> bits \<ge> 31" using that by (intro power_increasing) simp_all
  with 1 show ?case by (subst hash_order_loop.simps) force
qed

section \<open>A started policy\<close>

lemma find_empty: "th_list s = [] \<Longrightarrow> nrs_tbf_rule_find name s = Ret (None, s)"
  by (simp add: nrs_tbf_rule_find_def)

text \<open>The default rule as the two start-up functions build it.\<close>

definition default_rule :: "tbf_type \<Rightarrow> int \<Rightarrow> int \<Rightarrow> nrs_tbf_rule" where
  "default_rule ty rate depth =
     \<lparr>tr_name = NRS_TBF_DEFAULT_RULE, tr_nids = None,
      tr_nids_str = (case ty of NRS_TBF_TYPE_NID \<Rightarrow> Some ''*'' | NRS_TBF_TYPE_JOBID \<Rightarrow> None), tr_jobids = [],
      tr_jobids_str = (case ty of NRS_TBF_TYPE_NID \<Rightarrow> None | NRS_TBF_TYPE_JOBID \<Rightarrow> Some ''*''),
      tr_rpc_rate = of_int rate, tr_nsecs = NSEC_PER_SEC div of_int rate, tr_depth = of_int depth,
      tr_cli_list = [], tr_stopping = False, tr_default = True, tr_ref = 1, tr_generation = 0\<rparr>"

definition started :: "nat \<Rightarrow> ('h, 't) nrs_tbf_head \<Rightarrow> ('h, 't) nrs_tbf_head" where
  "started r s = (listed r (default_rule (th_type s) (tbf_rate s) (tbf_depth s)) s)\<lparr>th_rule := Some r\<rparr>"

lemma start_default:
  assumes "th_list s = []" and "th_rule s = None" and "(of_int (tbf_rate s) :: u64) \<noteq> 0" and "ty = th_type s"
  shows "nrs_tbf_rule_start L (Some r) True mem (default_cmd ty (tbf_rate s)) s = Ret (0, started r s)"
  using assms
  by (cases "th_type s")
     (simp_all add: nrs_tbf_rule_start_def find_empty default_cmd_def zero_cmd_def o_rule_init_def Let_def
        default_rule_def listed_def started_def set_rule_def)

lemma started_ok:
  assumes "binheap_ok L elems ordered" and "hop_safe s" and "(of_int (tbf_rate s) :: u64) \<noteq> 0"
    and "unat (of_int (tbf_depth s) :: u64) < 2 ^ 63"
    and "th_list s = []" "th_rules s = (\<lambda>_. None)" "th_clients s = (\<lambda>_. None)" "th_binheap s = cfs_binheap_create L"
  shows "life_inv L elems ordered now (started r s)"
proof -
  let ?s = "started r s"
  let ?rule = "default_rule (th_type s) (tbf_rate s) (tbf_depth s)"
  have f: "th_rules ?s = [r \<mapsto> ?rule]" "th_clients ?s = (\<lambda>_. None)" "th_list ?s = [r]" "th_rule ?s = Some r"
    "th_binheap ?s = cfs_binheap_create L" "th_type ?s = th_type s" "hop_safe ?s"
    using assms(2,5-8) by (simp_all add: started_def hop_safe_def)
  have "rule_ok 0 ?s r ?rule"
    using assms(3,4) by (cases "th_type s") (simp_all add: rule_ok_def f members_def default_rule_def o_rule_fini_def)
  moreover have "list_ok ?s" by (simp add: list_ok_def f named_def default_rule_def)
  ultimately have "rules_ok (\<lambda>_. 0) {} ?s" by (auto simp: rules_ok_def f split: if_splits)
  moreover have "queue_ok elems ?s" using binheap_create_elems [OF assms(1)] by (simp add: queue_ok_def f)
  ultimately show ?thesis using assms(1) f(7) by (simp add: life_inv_def sched_ok_def clock_ok_def f(2))
qed

text \<open>
  C19: A policy that starts is ready: with enough memory, a positive default rate, a cache size
  of at most \<open>2 ^ 30\<close> and a window width other than 0 and -1, \<open>nrs_tbf_start\<close> succeeds for
  both types, the default rule is its only rule, and the invariant of the runs of the policy
  holds from then on.
\<close>

theorem tbf_start_establishes:
  assumes "binheap_ok L elems ordered" and "hop_safe s" and "(of_int (tbf_rate s) :: u64) \<noteq> 0"
    and "unat (of_int (tbf_depth s) :: u64) < 2 ^ 63" and "tbf_jobid_cache_size s \<le> 2 ^ 30"
    and "sm_head sm" "sm_heap sm" "sm_hash sm" "sm_rule sm = Some r" "sm_str sm" and "arg = ''nid'' \<or> arg = ''jobid''"
  shows "\<exists>s'. nrs_tbf_start L sm (Some arg) s = Ret (0, s') \<and> life_inv L elems ordered now s' \<and>
    th_list s' = [r] \<and> th_rule s' = Some r \<and> named s' r = NRS_TBF_DEFAULT_RULE \<and> sscdt_req_compare_ptr s' \<noteq> None"
proof (cases "arg = ''nid''")
  case True
  let ?s = "(fresh_head L NRS_TBF_TYPE_NID s)\<lparr>th_cli_hash := cfs_hash_create L\<rparr>"
  let ?s' = "(started r ?s)\<lparr>sscdt_req_compare_ptr := Some Sscdt_req_compare_nid\<rparr>"
  have ty: "NRS_TBF_TYPE_NID = th_type ?s" by (simp add: fresh_head_def)
  have "nrs_tbf_rule_start L (Some r) True (\<lambda>_. True) (default_cmd NRS_TBF_TYPE_NID (tbf_rate ?s)) ?s = Ret (0, started r ?s)"
    by (rule start_default [OF _ _ _ ty]) (use assms(3) in \<open>simp_all add: fresh_head_def\<close>)
  then have "nrs_tbf_start L sm (Some arg) s = Ret (0, ?s')"
    using assms True by (simp add: nrs_tbf_start_def tbf_type_of_def nrs_tbf_nid_startup_def fresh_head_def)
  moreover have "life_inv L elems ordered now (started r ?s)"
    by (rule started_ok [OF assms(1)]) (use assms(2-4) in \<open>simp_all add: fresh_head_def hop_safe_def\<close>)
  then have "life_inv L elems ordered now ?s'"
    unfolding life_inv_def by (auto intro: rules_ok_frame sched_ok_cong)
  ultimately show ?thesis by (simp add: started_def named_def default_rule_def fresh_head_def)
next
  case False
  then have arg: "arg = ''jobid''" using assms(11) by simp
  obtain n where n: "nrs_tbf_jobid_hash_order (tbf_jobid_cache_size s) = Ret n"
    using hash_order_loop_spec [OF assms(5), of 1] by (auto simp: nrs_tbf_jobid_hash_order_def)
  let ?b = "if n < NRS_TBF_JOBID_BKT_BITS then NRS_TBF_JOBID_BKT_BITS else n"
  let ?s = "(fresh_head L NRS_TBF_TYPE_JOBID s)\<lparr>th_cli_hash := cfs_hash_create L, th_hash_bits := ?b, th_lru := (\<lambda>_. [])\<rparr>"
  let ?s' = "(started r ?s)\<lparr>sscdt_req_compare_ptr := Some Sscdt_req_compare_jobid\<rparr>"
  have ty: "NRS_TBF_TYPE_JOBID = th_type ?s" by (simp add: fresh_head_def)
  have st: "nrs_tbf_rule_start L (Some r) True (\<lambda>_. True) (default_cmd NRS_TBF_TYPE_JOBID (tbf_rate ?s)) ?s = Ret (0, started r ?s)"
    by (rule start_default [OF _ _ _ ty]) (use assms(3) in \<open>simp_all add: fresh_head_def\<close>)
  have "tbf_jobid_cache_size (fresh_head L NRS_TBF_TYPE_JOBID s) = tbf_jobid_cache_size s"
    "tbf_rate (fresh_head L NRS_TBF_TYPE_JOBID s) = tbf_rate s" by (simp_all add: fresh_head_def)
  with n st assms(6-10) arg have "nrs_tbf_start L sm (Some arg) s = Ret (0, ?s')"
    by (simp add: nrs_tbf_start_def tbf_type_of_def nrs_tbf_jobid_startup_def)
  moreover have "life_inv L elems ordered now (started r ?s)"
    by (rule started_ok [OF assms(1)]) (use assms(2-4) in \<open>simp_all add: fresh_head_def hop_safe_def\<close>)
  then have "life_inv L elems ordered now ?s'"
    unfolding life_inv_def by (auto intro: rules_ok_frame sched_ok_cong)
  ultimately show ?thesis by (simp add: started_def named_def default_rule_def fresh_head_def)
qed

definition sample_start_mem :: start_mem where
  "sample_start_mem = \<lparr>sm_head = True, sm_heap = True, sm_hash = True, sm_rule = Some 4, sm_str = True\<rparr>"

theorem tbf_start_establishes_witness:
  "\<exists>s'. nrs_tbf_start sample_libcfs sample_start_mem (Some ''jobid'') sample_head = Ret (0, s') \<and>
     life_inv sample_libcfs set list_ordered 7 s' \<and> th_list s' = [4]"
proof -
  have "\<exists>s'. nrs_tbf_start sample_libcfs sample_start_mem (Some ''jobid'') sample_head = Ret (0, s') \<and>
     life_inv sample_libcfs set list_ordered 7 s' \<and> th_list s' = [4] \<and> th_rule s' = Some 4 \<and>
     named s' 4 = NRS_TBF_DEFAULT_RULE \<and> sscdt_req_compare_ptr s' \<noteq> None"
    by (rule tbf_start_establishes [OF sample_libcfs_heap sample_head_ok(2)])
       (simp_all add: sample_head_def sample_start_mem_def)
  then show ?thesis by blast
qed

text \<open>
  The order of the job table: for a cache of at most \<open>2 ^ 30\<close> entries the loop ends with the
  least number of bits from 1 on whose power reaches the size, and for a larger one it does not
  end.
\<close>

theorem jobid_hash_order_spec:
  "if cache \<le> 2 ^ 30
   then \<exists>n. nrs_tbf_jobid_hash_order cache = Ret n \<and> n = (LEAST n. 1 \<le> n \<and> cache \<le> 2 ^ n)
   else nrs_tbf_jobid_hash_order cache = Fault LOCKUP"
proof (cases "cache \<le> 2 ^ 30")
  case True
  obtain n where n: "nrs_tbf_jobid_hash_order cache = Ret n" "1 \<le> n" "cache \<le> 2 ^ n" "\<forall>b<n. 1 \<le> b \<longrightarrow> 2 ^ b < cache"
    using hash_order_loop_spec [OF True, of 1] by (auto simp: nrs_tbf_jobid_hash_order_def)
  have "(LEAST n. 1 \<le> n \<and> cache \<le> 2 ^ n) = n"
    by (rule Least_equality) (use n(2-4) in \<open>auto simp: not_le [symmetric]\<close>)
  with n(1) True show ?thesis by simp
next
  case False
  with hash_order_lockup [of cache 1] show ?thesis by (simp add: nrs_tbf_jobid_hash_order_def)
qed

section \<open>A stopped policy\<close>

lemma sched_ok_ref:
  assumes "sched_ok L elems ordered now s" and "th_clients s c = Some cli"
  shows "sched_ok L elems ordered now (set_cli c (Some (cli\<lparr>tc_ref := x\<rparr>)) s)"
  using assms by (auto simp: sched_ok_def queue_ok_def hop_safe_def clock_ok_def client_queue_ok_def)

text \<open>The references on a client nobody uses: one of the table, for a NID table.\<close>

definition table_refs :: "tbf_type \<Rightarrow> int" where
  "table_refs ty = (case ty of NRS_TBF_TYPE_NID \<Rightarrow> 1 | NRS_TBF_TYPE_JOBID \<Rightarrow> 0)"

definition quiet :: "tbf_type \<Rightarrow> nrs_tbf_client \<Rightarrow> bool" where
  "quiet ty cli \<longleftrightarrow> tc_list cli = [] \<and> tc_ref cli = table_refs ty"

lemma destroy_one:
  assumes "life_inv L elems ordered now s" and "th_clients s c = Some cli" and "quiet (th_type s) cli"
  shows "\<exists>s'. destroy_hash (c # cs) s = destroy_hash cs s' \<and> life_inv L elems ordered now s' \<and>
    th_clients s' = (th_clients s)(c := None) \<and> th_list s' = th_list s \<and> th_type s' = th_type s"
proof -
  let ?s1 = "set_cli c (Some (cli\<lparr>tc_ref := 0\<rparr>)) s"
  have "rules_ok (\<lambda>_. 0) {} ?s1"
    using assms(1) by (intro rules_ok_set_cli [OF _ assms(2)]) (simp_all add: life_inv_def)
  moreover have "sched_ok L elems ordered now ?s1" using assms(1) sched_ok_ref [OF _ assms(2)] by (simp add: life_inv_def)
  ultimately obtain s' where s': "nrs_tbf_cli_fini c ?s1 = Ret s'" "rules_ok (\<lambda>_. 0) {} s'"
    "sched_ok L elems ordered now s'" "th_clients s' = (th_clients ?s1)(c := None)" "th_list s' = th_list ?s1"
    "th_type s' = th_type ?s1"
    using cli_fini_ok [of "\<lambda>_. 0" "{}" ?s1 L elems ordered now c "cli\<lparr>tc_ref := 0\<rparr>"] assms(3)
    by (auto simp: idle_def quiet_def)
  have e: "set_cli c (Some (cli\<lparr>tc_ref := 0\<rparr>)) s = s" if "tc_ref cli = 0"
    using that assms(2) by (simp add: set_cli_def fun_upd_idem)
  have "(case th_type s of NRS_TBF_TYPE_NID \<Rightarrow> hop_put c s | NRS_TBF_TYPE_JOBID \<Rightarrow> Ret s) = Ret ?s1"
    using assms(2,3) e by (cases "th_type s") (simp_all add: quiet_def table_refs_def hop_put_def)
  then have "destroy_hash (c # cs) s = destroy_hash cs s'" using s'(1) by (simp add: hop_exit_def)
  with s' show ?thesis by (auto simp: life_inv_def)
qed

lemma destroy_all:
  assumes "life_inv L elems ordered now s" and "distinct cs"
    and "\<And>c. c \<in> set cs \<Longrightarrow> \<exists>cli. th_clients s c = Some cli \<and> quiet (th_type s) cli"
  shows "\<exists>s'. destroy_hash cs s = Ret s' \<and> life_inv L elems ordered now s' \<and>
    th_clients s' = (\<lambda>c. if c \<in> set cs then None else th_clients s c) \<and> th_list s' = th_list s \<and> th_type s' = th_type s"
  using assms
proof (induction cs arbitrary: s)
  case (Cons c cs)
  from Cons.prems(3) [of c] obtain cli where cli: "th_clients s c = Some cli" "quiet (th_type s) cli" by auto
  obtain s1 where s1: "destroy_hash (c # cs) s = destroy_hash cs s1" "life_inv L elems ordered now s1"
    "th_clients s1 = (th_clients s)(c := None)" "th_list s1 = th_list s" "th_type s1 = th_type s"
    using destroy_one [OF Cons.prems(1) cli] by blast
  have "\<exists>cli. th_clients s1 x = Some cli \<and> quiet (th_type s1) cli" if "x \<in> set cs" for x
    using Cons.prems(2) Cons.prems(3) [of x] that s1(3,5) by auto
  with Cons.IH [OF s1(2)] Cons.prems(2) obtain s2 where s2: "destroy_hash cs s1 = Ret s2" "life_inv L elems ordered now s2"
    "th_clients s2 = (\<lambda>x. if x \<in> set cs then None else th_clients s1 x)" "th_list s2 = th_list s1" "th_type s2 = th_type s1"
    by auto
  have "th_clients s2 = (\<lambda>x. if x \<in> set (c # cs) then None else th_clients s x)" using s2(3) s1(3) by auto
  with s1 s2 show ?case by simp
qed (simp add: fun_eq_iff)

lemma put_rules_all:
  assumes "distinct rs" and "th_list s = rs"
    and "\<And>r. r \<in> set rs \<Longrightarrow> \<exists>rule. th_rules s r = Some rule \<and> tr_ref rule = 1 \<and> tr_cli_list rule = [] \<and> o_rule_fini (th_type s) rule"
  shows "put_rules rs s = Ret (s\<lparr>th_list := [], th_rules := (\<lambda>r. if r \<in> set rs then None else th_rules s r)\<rparr>)"
  using assms
proof (induction rs arbitrary: s)
  case Nil
  then show ?case by (cases s) simp
next
  case (Cons r rs)
  from Cons.prems(3) [of r] obtain rule where r: "th_rules s r = Some rule" "tr_ref rule = 1" "tr_cli_list rule = []"
    "o_rule_fini (th_type s) rule" by auto
  let ?s1 = "set_rule r None (s\<lparr>th_list := rs\<rparr>)"
  have nr: "removeAll r rs = rs" "r \<notin> set rs" using Cons.prems(1) by simp_all
  have "o_rule_fini (th_type s) (rule\<lparr>tr_ref := 0\<rparr>)" using r(4) by (cases "th_type s") (simp_all add: o_rule_fini_def)
  then have p: "nrs_tbf_rule_put r (s\<lparr>th_list := removeAll r (th_list s)\<rparr>) = Ret ?s1"
    using r nr Cons.prems(2) by (simp add: nrs_tbf_rule_put_def nrs_tbf_rule_fini_def get_rule_def set_rule_def)
  have "put_rules rs ?s1 = Ret (?s1\<lparr>th_list := [], th_rules := (\<lambda>x. if x \<in> set rs then None else th_rules ?s1 x)\<rparr>)"
    by (rule Cons.IH) (use Cons.prems(1,3) in auto)
  moreover have "?s1\<lparr>th_list := [], th_rules := (\<lambda>x. if x \<in> set rs then None else th_rules ?s1 x)\<rparr> =
      s\<lparr>th_list := [], th_rules := (\<lambda>x. if x \<in> set (r # rs) then None else th_rules s x)\<rparr>"
    by (cases s) (auto simp: set_rule_def)
  ultimately show ?case using p by simp
qed

text \<open>
  C20: Stopping a policy frees everything. When no request is queued and the only references on
  the clients are the table's, \<open>nrs_tbf_stop\<close> passes all its assertions, and neither a client
  nor a rule, stopped or listed, stays in memory.
\<close>

theorem tbf_stop_frees_all:
  assumes "life_inv L elems ordered now s"
    and "distinct (cfs_hash_items L (th_cli_hash s))" "set (cfs_hash_items L (th_cli_hash s)) = dom (th_clients s)"
    and "\<forall>c cli. th_clients s c = Some cli \<longrightarrow> quiet (th_type s) cli"
  shows "\<exists>s'. nrs_tbf_stop L s = Ret s' \<and> th_clients s' = (\<lambda>_. None) \<and> th_rules s' = (\<lambda>_. None) \<and>
    \<not> nrs_throttling s'"
proof -
  let ?s0 = "s\<lparr>th_timer := None\<rparr>"
  have i0: "life_inv L elems ordered now ?s0"
    using assms(1) unfolding life_inv_def by (auto intro: rules_ok_frame sched_ok_cong)
  have "\<exists>cli. th_clients ?s0 c = Some cli \<and> quiet (th_type ?s0) cli" if "c \<in> set (cfs_hash_items L (th_cli_hash s))" for c
    using that assms(3,4) by auto
  with destroy_all [OF i0 assms(2)] obtain s1 where s1: "destroy_hash (cfs_hash_items L (th_cli_hash s)) ?s0 = Ret s1"
    "life_inv L elems ordered now s1" "th_clients s1 = (\<lambda>c. if c \<in> set (cfs_hash_items L (th_cli_hash s)) then None else th_clients ?s0 c)"
    by blast
  have nc: "th_clients s1 = (\<lambda>_. None)" using s1(3) assms(3) by (auto simp: fun_eq_iff)
  have ro: "rules_ok (\<lambda>_. 0) {} s1" and q: "queue_ok elems s1" and b: "binheap_ok L elems ordered"
    using s1(2) by (simp_all add: life_inv_def sched_ok_def)
  have nm: "members s1 r = {}" for r by (simp add: members_def nc)
  have d: "distinct (th_list s1)" using rules_okD(1) [OF ro] by (simp add: list_ok_def)
  have "\<exists>rule. th_rules s1 r = Some rule \<and> tr_ref rule = 1 \<and> tr_cli_list rule = [] \<and> o_rule_fini (th_type s1) rule"
    if r: "r \<in> set (th_list s1)" for r
  proof -
    obtain rule where rule: "th_rules s1 r = Some rule" using listed_rule [OF ro r] by blast
    with rules_okD(4) [OF ro rule] r show ?thesis by (simp add: rule_ok_def nm)
  qed
  note p = put_rules_all [OF d refl this]
  have "elems (th_binheap s1) = {}" using queue_okD(2) [OF q] nc by auto
  then have "cfs_binheap_is_empty L (th_binheap s1)" using binheap_is_empty [OF b] by simp
  moreover have "(\<lambda>r. if r \<in> set (th_list s1) then None else th_rules s1 r) = (\<lambda>_. None)"
  proof
    fix r show "(if r \<in> set (th_list s1) then None else th_rules s1 r) = None"
      using rule_alive_iff [OF ro, of r] nm [of r] by (cases "th_rules s1 r") auto
  qed
  ultimately show ?thesis using s1(1) p nc by (simp add: nrs_tbf_stop_def)
qed

definition quiet_head :: "(nat list, (cli_key \<times> nat) list) nrs_tbf_head" where
  "quiet_head = sample_head\<lparr>th_clients := [0 \<mapsto> sample_client\<lparr>tc_list := [], tc_in_heap := False, tc_ref := 1\<rparr>],
     th_binheap := []\<rparr>"

lemma quiet_head_inv: "life_inv sample_libcfs set list_ordered 5000 quiet_head"
proof -
  have m: "members quiet_head 0 = {0}" by (auto simp: members_def quiet_head_def sample_client_def split: if_splits)
  have "list_ok quiet_head" by (simp add: list_ok_def quiet_head_def sample_head_def named_def sample_rule_def)
  moreover have "rule_ok 0 quiet_head 0 sample_rule"
    unfolding rule_ok_def m by (simp add: quiet_head_def sample_head_def sample_rule_def o_rule_fini_def)
  moreover have "cli_ok {} quiet_head 0 (sample_client\<lparr>tc_list := [], tc_in_heap := False, tc_ref := 1\<rparr>)"
    by (simp add: cli_ok_def quiet_head_def sample_head_def sample_client_def)
  ultimately have "rules_ok (\<lambda>_. 0) {} quiet_head"
    by (auto simp: rules_ok_def quiet_head_def sample_head_def split: if_splits)
  moreover have "queue_ok set quiet_head"
    by (simp add: queue_ok_def quiet_head_def client_queue_ok_def sample_client_def)
  moreover have "hop_safe quiet_head" "clock_ok 5000 quiet_head"
    by (simp_all add: hop_safe_def clock_ok_def quiet_head_def sample_head_def sample_client_def)
  ultimately show ?thesis using sample_libcfs_heap by (simp add: life_inv_def sched_ok_def)
qed

theorem tbf_stop_frees_all_witness:
  "\<exists>s'. nrs_tbf_stop sample_libcfs quiet_head = Ret s' \<and> th_clients s' = (\<lambda>_. None) \<and> th_rules s' = (\<lambda>_. None) \<and>
     \<not> nrs_throttling s'"
  by (rule tbf_stop_frees_all [OF quiet_head_inv])
     (simp_all add: quiet_head_def sample_head_def sample_libcfs_def quiet_def table_refs_def)

section \<open>Listing the rules\<close>

lemma dump_all_text:
  assumes "\<And>r. r \<in> set rs \<Longrightarrow> \<exists>rule. th_rules s r = Some rule \<and> \<not> tr_stopping rule \<and> length (tr_name rule) < MAX_TBF_NAME \<and>
      rule_line (th_type s) rule = ln r"
    and "\<not> sf_full m"
  shows "\<exists>rc m'. nrs_tbf_rule_dump_all s rs m = Ret (rc, m') \<and>
    (if length (sf_text m) + length (concat (map ln rs)) < sf_size m \<or> rs = []
     then rc = 0 \<and> m' = m\<lparr>sf_text := sf_text m @ concat (map ln rs)\<rparr> else rc = - ENOSPC \<and> sf_full m')"
  using assms
proof (induction rs arbitrary: m)
  case (Cons r rs)
  from Cons.prems(1) [of r] obtain rule where r: "th_rules s r = Some rule" "\<not> tr_stopping rule"
    "length (tr_name rule) < MAX_TBF_NAME" "rule_line (th_type s) rule = ln r" by auto
  show ?case
  proof (cases "length (sf_text m) + length (ln r) < sf_size m")
    case True
    let ?m = "m\<lparr>sf_text := sf_text m @ ln r\<rparr>"
    from Cons.IH [of ?m] Cons.prems obtain rc m' where m': "nrs_tbf_rule_dump_all s rs ?m = Ret (rc, m')"
      "if length (sf_text ?m) + length (concat (map ln rs)) < sf_size ?m \<or> rs = []
       then rc = 0 \<and> m' = ?m\<lparr>sf_text := sf_text ?m @ concat (map ln rs)\<rparr> else rc = - ENOSPC \<and> sf_full m'" by auto
    have "nrs_tbf_rule_dump_all s (r # rs) m = Ret (rc, m')"
      using r True Cons.prems(2) m'(1) by (simp add: nrs_tbf_rule_dump_def seq_printf_def)
    with m'(2) True show ?thesis by (auto split: if_splits)
  next
    case False
    with r Cons.prems(2) show ?thesis by (simp add: nrs_tbf_rule_dump_def seq_printf_def)
  qed
qed (cases m, simp)

text \<open>A line of the listing, with the number of clients of the rule.\<close>

definition listing_line :: "('h, 't) nrs_tbf_head \<Rightarrow> nat \<Rightarrow> string" where
  "listing_line s r =
     (case th_rules s r of None \<Rightarrow> []
      | Some rule \<Rightarrow> rule_line (th_type s) (rule\<lparr>tr_ref := 1 + int (card (members s r))\<rparr>))"

text \<open>
  Reading the rules of a sound policy prints one line per listed rule, newest first, and the
  reference count in a line is the number of clients of the rule. When the buffer cannot hold
  the text the result is \<open>-ENOSPC\<close>; no assertion fails either way.
\<close>

theorem tbf_listing:
  assumes "life_inv L elems ordered now s" and "sf_text m = []" "\<not> sf_full m"
  shows "\<exists>rc m'. nrs_tbf_ctl L new mem_str mem cpt NRS_CTL_TBF_RD_RULE m cmd s = Ret (rc, m', s) \<and>
    (if length (cpt_line cpt @ concat (map (listing_line s) (th_list s))) < sf_size m
     then rc = 0 \<and> sf_text m' = cpt_line cpt @ concat (map (listing_line s) (th_list s))
     else rc = - ENOSPC \<and> sf_full m')"
proof -
  have ro: "rules_ok (\<lambda>_. 0) {} s" using assms(1) by (simp add: life_inv_def)
  have ln: "\<exists>rule. th_rules s r = Some rule \<and> \<not> tr_stopping rule \<and> length (tr_name rule) < MAX_TBF_NAME \<and>
      rule_line (th_type s) rule = listing_line s r" if r: "r \<in> set (th_list s)" for r
  proof -
    obtain rule where rule: "th_rules s r = Some rule" "\<not> tr_stopping rule" "length (tr_name rule) < MAX_TBF_NAME"
      using listed_rule [OF ro r] by blast
    have "tr_ref rule = 1 + int (card (members s r))"
      using rules_okD(4) [OF ro rule(1)] r distinct_card [of "tr_cli_list rule"] by (simp add: rule_ok_def)
    then have "rule_line (th_type s) rule = listing_line s r" using rule(1) by (cases "th_type s") (simp_all add: listing_line_def rule_line_def)
    with rule show ?thesis by blast
  qed
  have ne: "th_list s \<noteq> []" using rules_okD(1) [OF ro] by (auto simp: list_ok_def)
  show ?thesis
  proof (cases "length (cpt_line cpt) < sf_size m")
    case True
    let ?m = "m\<lparr>sf_text := cpt_line cpt\<rparr>"
    have p: "snd (seq_printf (cpt_line cpt) m) = ?m" using True assms(2,3) by (simp add: seq_printf_def)
    obtain rc m' where m': "nrs_tbf_rule_dump_all s (th_list s) ?m = Ret (rc, m')"
      "if length (sf_text ?m) + length (concat (map (listing_line s) (th_list s))) < sf_size ?m \<or> th_list s = []
       then rc = 0 \<and> m' = ?m\<lparr>sf_text := sf_text ?m @ concat (map (listing_line s) (th_list s))\<rparr> else rc = - ENOSPC \<and> sf_full m'"
      using dump_all_text [of "th_list s" s "listing_line s" ?m] ln assms(3) by auto
    have "nrs_tbf_ctl L new mem_str mem cpt NRS_CTL_TBF_RD_RULE m cmd s = Ret (rc, m', s)"
      using p m'(1) by (simp add: nrs_tbf_ctl_def)
    with m'(2) ne show ?thesis by (auto split: if_splits)
  next
    case False
    let ?m = "m\<lparr>sf_full := True\<rparr>"
    obtain r rs where rs: "th_list s = r # rs" using ne by (cases "th_list s") auto
    obtain rule where rule: "th_rules s r = Some rule" "\<not> tr_stopping rule" "length (tr_name rule) < MAX_TBF_NAME"
      using ln [of r] rs by auto
    have "nrs_tbf_rule_dump_all s (th_list s) ?m = Ret (- ENOSPC, ?m)"
      using rs rule by (simp add: nrs_tbf_rule_dump_def seq_printf_def)
    then have "nrs_tbf_ctl L new mem_str mem cpt NRS_CTL_TBF_RD_RULE m cmd s = Ret (- ENOSPC, ?m, s)"
      using False assms(2,3) by (simp add: nrs_tbf_ctl_def seq_printf_def)
    with False show ?thesis by auto
  qed
qed

theorem tbf_listing_witness:
  "\<exists>rc m'. nrs_tbf_ctl sample_libcfs None True (\<lambda>_. True) 0 NRS_CTL_TBF_RD_RULE
     \<lparr>sf_text = [], sf_size = 3, sf_full = False\<rparr> sample_cmd sample_head = Ret (rc, m', sample_head) \<and> rc = - ENOSPC"
proof -
  have "\<exists>rc m'. nrs_tbf_ctl sample_libcfs None True (\<lambda>_. True) 0 NRS_CTL_TBF_RD_RULE
     \<lparr>sf_text = [], sf_size = 3, sf_full = False\<rparr> sample_cmd sample_head = Ret (rc, m', sample_head) \<and>
    (if length (cpt_line 0 @ concat (map (listing_line sample_head) (th_list sample_head))) < sf_size \<lparr>sf_text = [], sf_size = 3, sf_full = False\<rparr>
     then rc = 0 \<and> sf_text m' = cpt_line 0 @ concat (map (listing_line sample_head) (th_list sample_head))
     else rc = - ENOSPC \<and> sf_full m')"
    by (rule tbf_listing [OF sample_life_inv]) simp_all
  then show ?thesis by (auto simp: cpt_line_def)
qed

end
