(* ===== verification/Wire_Mem.thy ===== *)
theory Wire_Mem
  imports LT_Prelude
begin

text \<open>
  The memory of a message, as bytes. An address is an offset from the start of the allocation,
  an access outside it is a fault. Integers are stored in the byte order of the host, which is
  little-endian; a message of a host with the other order is turned by reversing the bytes of
  each integer in place (\<open>__swab16s\<close>, \<open>__swab32s\<close>, \<open>__swab64s\<close>).
\<close>

named_theorems wire \<open>reading and writing the bytes of a message\<close>

type_synonym mem = "u8 list"

section \<open>Accesses\<close>

abbreviation seg :: "nat \<Rightarrow> nat \<Rightarrow> mem \<Rightarrow> mem" where
  "seg off k m \<equiv> take k (drop off m)"

definition patch :: "nat \<Rightarrow> mem \<Rightarrow> mem \<Rightarrow> mem" where
  "patch off bs m = take off m @ bs @ drop (off + length bs) m"

definition load :: "nat \<Rightarrow> nat \<Rightarrow> mem \<Rightarrow> mem outcome" where
  "load k off m = (if off + k \<le> length m then Ret (seg off k m) else Fault OVERRUN)"

definition store :: "nat \<Rightarrow> mem \<Rightarrow> mem \<Rightarrow> mem outcome" where
  "store off bs m = (if off + length bs \<le> length m then Ret (patch off bs m) else Fault OVERRUN)"

definition memmove :: "nat \<Rightarrow> nat \<Rightarrow> nat \<Rightarrow> mem \<Rightarrow> mem outcome" where
  "memmove dst src k m = bindO (load k src m) (\<lambda>bs. store dst bs m)"

text \<open>Little-endian integers of any width.\<close>

fun of_le :: "mem \<Rightarrow> 'a::len word" where
  "of_le [] = 0"
| "of_le (b # bs) = or (ucast b) (push_bit 8 (of_le bs))"

fun to_le :: "nat \<Rightarrow> 'a::len word \<Rightarrow> mem" where
  "to_le 0 w = []"
| "to_le (Suc k) w = ucast w # to_le k (drop_bit 8 w)"

definition ld16 :: "nat \<Rightarrow> mem \<Rightarrow> u16 outcome" where
  "ld16 off m = bindO (load 2 off m) (\<lambda>bs. Ret (of_le bs))"

definition ld32 :: "nat \<Rightarrow> mem \<Rightarrow> u32 outcome" where
  "ld32 off m = bindO (load 4 off m) (\<lambda>bs. Ret (of_le bs))"

definition ld64 :: "nat \<Rightarrow> mem \<Rightarrow> u64 outcome" where
  "ld64 off m = bindO (load 8 off m) (\<lambda>bs. Ret (of_le bs))"

definition st16 :: "nat \<Rightarrow> u16 \<Rightarrow> mem \<Rightarrow> mem outcome" where
  "st16 off w m = store off (to_le 2 w) m"

definition st32 :: "nat \<Rightarrow> u32 \<Rightarrow> mem \<Rightarrow> mem outcome" where
  "st32 off w m = store off (to_le 4 w) m"

definition st64 :: "nat \<Rightarrow> u64 \<Rightarrow> mem \<Rightarrow> mem outcome" where
  "st64 off w m = store off (to_le 8 w) m"

text \<open>\<open>swabs k\<close> is \<open>__swab16s\<close>, \<open>__swab32s\<close> or \<open>__swab64s\<close> for \<open>k\<close> = 2, 4 or 8.\<close>

definition swabs :: "nat \<Rightarrow> nat \<Rightarrow> mem \<Rightarrow> mem outcome" where
  "swabs k off m = bindO (load k off m) (\<lambda>bs. store off (rev bs) m)"

definition rd32 :: "nat \<Rightarrow> mem \<Rightarrow> u32" where
  "rd32 off m = of_le (seg off 4 m)"

section \<open>Lemmas\<close>

lemma length_patch [simp]: "off + length bs \<le> length m \<Longrightarrow> length (patch off bs m) = length m"
  by (simp add: patch_def)

lemma length_to_le [simp]: "length (to_le k w) = k"
  by (induction k arbitrary: w) simp_all

lemma load_eq [wire]: "off + k \<le> length m \<Longrightarrow> load k off m = Ret (seg off k m)"
  by (simp add: load_def)

lemma store_eq [wire]: "off + length bs \<le> length m \<Longrightarrow> store off bs m = Ret (patch off bs m)"
  by (simp add: store_def)

lemma ld32_eq [wire]: "off + 4 \<le> length m \<Longrightarrow> ld32 off m = Ret (rd32 off m)"
  by (simp add: ld32_def load_eq rd32_def)

lemma ld_eq [wire]:
  "off + 2 \<le> length m \<Longrightarrow> ld16 off m = Ret (of_le (seg off 2 m))"
  "off + 8 \<le> length m \<Longrightarrow> ld64 off m = Ret (of_le (seg off 8 m))"
  by (simp_all add: ld16_def ld64_def load_eq)

lemma st_eq [wire]:
  "off + 2 \<le> length m \<Longrightarrow> st16 off w2 m = Ret (patch off (to_le 2 w2) m)"
  "off + 4 \<le> length m \<Longrightarrow> st32 off w4 m = Ret (patch off (to_le 4 w4) m)"
  "off + 8 \<le> length m \<Longrightarrow> st64 off w8 m = Ret (patch off (to_le 8 w8) m)"
  by (simp_all add: st16_def st32_def st64_def store_eq)

lemma memmove_eq [wire]:
  assumes "dst \<le> src" and "src + k \<le> length m"
  shows "memmove dst src k m = Ret (patch dst (seg src k m) m)"
  using assms by (simp add: memmove_def load_eq store_def)

lemma swabs_eq [wire]: "off + k \<le> length m \<Longrightarrow> swabs k off m = Ret (patch off (rev (seg off k m)) m)"
  by (simp add: swabs_def load_eq store_eq)

lemma nth_patch:
  assumes "off + length bs \<le> length m" "i < length m"
  shows "patch off bs m ! i = (if off \<le> i \<and> i < off + length bs then bs ! (i - off) else m ! i)"
  using assms by (auto simp: patch_def nth_append)

lemma seg_patch_same [simp]:
  "off + length bs \<le> length m \<Longrightarrow> k = length bs \<Longrightarrow> seg off k (patch off bs m) = bs"
  by (simp add: patch_def)

lemma seg_patch_other:
  assumes "off + length bs \<le> length m" and "o' + k \<le> off \<or> off + length bs \<le> o'"
  shows "seg o' k (patch off bs m) = seg o' k m"
proof (rule nth_equalityI)
  show "length (seg o' k (patch off bs m)) = length (seg o' k m)" using assms(1) by simp
next
  fix i assume "i < length (seg o' k (patch off bs m))"
  then have i: "i < k" "o' + i < length m" using assms(1) by auto
  then show "seg o' k (patch off bs m) ! i = seg o' k m ! i"
    using assms by (auto simp: nth_patch)
qed

lemma patch_self: "off + k \<le> length m \<Longrightarrow> patch off (seg off k m) m = m"
  by (simp add: patch_def min_def) (metis append_assoc append_take_drop_id drop_drop add.commute take_add)

lemma patch_patch [simp]:
  "off + length bs \<le> length m \<Longrightarrow> length cs = length bs \<Longrightarrow> patch off cs (patch off bs m) = patch off cs m"
  by (simp add: patch_def)

lemma patch_comm:
  assumes "a + length as \<le> b \<or> b + length bs \<le> a" and "a + length as \<le> length m" and "b + length bs \<le> length m"
  shows "patch a as (patch b bs m) = patch b bs (patch a as m)"
  by (rule nth_equalityI) (use assms in \<open>auto simp: nth_patch\<close>)

lemma mem_eqI:
  assumes "length m = length m'" and "\<And>i. i < length m \<Longrightarrow> m ! i = m' ! i"
  shows "m = m'"
  using assms by (rule nth_equalityI)

subsection \<open>Integers\<close>

lemma bit_of_le: "bit (of_le bs :: 'a::len word) n \<longleftrightarrow>
    n < LENGTH('a) \<and> n div 8 < length bs \<and> bit (bs ! (n div 8)) (n mod 8)"
proof (induction bs arbitrary: n)
  case (Cons b bs)
  show ?case
  proof (cases "n < 8")
    case True
    then show ?thesis using Cons by (auto simp: bit_simps)
  next
    case False
    then obtain j where n: "n = j + 8" by (metis add.commute le_Suc_ex not_less)
    have "\<not> bit b n" using False bit_imp_le_length [of b n] by auto
    moreover have "(j + 8) div 8 = Suc (j div 8)" by simp
    ultimately show ?thesis using Cons.IH [of j] n by (auto simp: bit_simps)
  qed
qed simp

lemma nth_to_le: "i < k \<Longrightarrow> to_le k w ! i = ucast (drop_bit (8 * i) w)"
proof (induction k arbitrary: w i)
  case (Suc k)
  then show ?case by (cases i) (simp_all add: drop_bit_drop_bit add.commute)
qed simp

lemma of_le_to_le [simp]:
  assumes "LENGTH('a) \<le> 8 * k"
  shows "of_le (to_le k w) = (w :: 'a::len word)"
proof (rule bit_word_eqI)
  fix n assume n: "n < LENGTH('a)"
  then have "n div 8 < k" using assms by linarith
  with n show "bit (of_le (to_le k w) :: 'a word) n = bit w n"
    by (simp add: bit_of_le nth_to_le bit_simps)
qed

lemma to_le_of_le:
  assumes "8 * length bs \<le> LENGTH('a)"
  shows "to_le (length bs) (of_le bs :: 'a::len word) = bs"
proof (rule nth_equalityI)
  fix i assume i: "i < length (to_le (length bs) (of_le bs :: 'a word))"
  show "to_le (length bs) (of_le bs :: 'a word) ! i = bs ! i"
  proof (rule bit_word_eqI)
    fix n assume "n < LENGTH(8)"
    with i assms show "bit (to_le (length bs) (of_le bs :: 'a word) ! i) n = bit (bs ! i) n"
      by (auto simp: nth_to_le bit_simps bit_of_le)
  qed
qed simp

lemma rd32_patch_same [simp]: "off + 4 \<le> length m \<Longrightarrow> rd32 off (patch off (to_le 4 w) m) = w"
  by (simp add: rd32_def)

lemma rd32_patch_other:
  "off + length bs \<le> length m \<Longrightarrow> o' + 4 \<le> off \<or> off + length bs \<le> o' \<Longrightarrow>
   rd32 o' (patch off bs m) = rd32 o' m"
  by (simp add: rd32_def seg_patch_other)

end
