(* ===== verification/Lustre_Msg.thy ===== *)
theory Lustre_Msg
  imports Wire_Mem
begin

text \<open>
  The messages of the RPC layer (\<open>pack_generic.c\<close>): a header with the lengths of the buffers,
  then the buffers, each rounded up to eight bytes. A message lives at the start of an
  allocation (\<^typ>\<open>mem\<close>); a pointer into it is an offset, \<open>None\<close> is NULL.

  \<open>cfs_size_round\<close> and \<open>LOGL\<close> belong to libcfs: they are the record \<open>msg_lib\<close>, and \<open>msg_lib_ok\<close>
  states what the code relies on. The size computations are in \<open>__u32\<close> and wrap around.
\<close>

section \<open>The message header\<close>

record msg_lib =
  cfs_size_round :: "u32 \<Rightarrow> u32"
  LOGL :: "mem option \<Rightarrow> u32 \<Rightarrow> nat \<Rightarrow> mem \<Rightarrow> (nat \<times> mem) outcome"

abbreviation (input) LUSTRE_MSG_MAGIC_V1 :: u32 where "LUSTRE_MSG_MAGIC_V1 \<equiv> 0x0BD00BD0"
abbreviation (input) LUSTRE_MSG_MAGIC_V2 :: u32 where "LUSTRE_MSG_MAGIC_V2 \<equiv> 0x0BD00BD3"
abbreviation (input) LUSTRE_MSG_MAGIC_V2_SWABBED :: u32 where "LUSTRE_MSG_MAGIC_V2_SWABBED \<equiv> 0xD30BD00B"

text \<open>Offsets of the fields of \<open>struct lustre_msg_v2\<close>.\<close>

abbreviation (input) lm_bufcount :: nat where "lm_bufcount \<equiv> 0"
abbreviation (input) lm_secflvr :: nat where "lm_secflvr \<equiv> 4"
abbreviation (input) lm_magic :: nat where "lm_magic \<equiv> 8"
abbreviation (input) lm_repsize :: nat where "lm_repsize \<equiv> 12"
abbreviation (input) lm_cksum :: nat where "lm_cksum \<equiv> 16"
abbreviation (input) lm_flags :: nat where "lm_flags \<equiv> 20"

definition lm_buflens :: "nat \<Rightarrow> nat" where
  "lm_buflens i = 32 + 4 * i"

text \<open>Sizes of \<open>struct ptlrpc_body\<close> (version 3) and \<open>struct ptlrpc_body_v2\<close>.\<close>

abbreviation (input) ptlrpc_body_size :: u32 where "ptlrpc_body_size \<equiv> 184"
abbreviation (input) ptlrpc_body_v2_size :: u32 where "ptlrpc_body_v2_size \<equiv> 152"
abbreviation (input) pb_opc :: nat where "pb_opc \<equiv> 16"

text \<open>
  An array of lengths is a function that faults outside it: an array of the caller (\<open>arr\<close>) or
  the one in the message (\<open>buflens\<close>).
\<close>

definition arr :: "'a list \<Rightarrow> nat \<Rightarrow> 'a outcome" where
  "arr xs i = (if i < length xs then Ret (xs ! i) else Fault OVERRUN)"

definition buflens :: "mem \<Rightarrow> nat \<Rightarrow> u32 outcome" where
  "buflens m i = ld32 (lm_buflens i) m"

section \<open>Sizes\<close>

definition lustre_msg_hdr_size_v2 :: "msg_lib \<Rightarrow> u32 \<Rightarrow> u32" where
  "lustre_msg_hdr_size_v2 L n = cfs_size_round L (32 + 4 * n)"

definition lustre_msg_hdr_size :: "msg_lib \<Rightarrow> u32 \<Rightarrow> u32 \<Rightarrow> u32 outcome" where
  "lustre_msg_hdr_size L magic n =
     (if magic = LUSTRE_MSG_MAGIC_V2 then Ret (lustre_msg_hdr_size_v2 L n) else Fault LBUG)"

text \<open>The loop \<open>for (; k > 0; i++, k--) acc += cfs_size_round(lengths[i])\<close>.\<close>

fun add_lens :: "msg_lib \<Rightarrow> (nat \<Rightarrow> u32 outcome) \<Rightarrow> nat \<Rightarrow> nat \<Rightarrow> u32 \<Rightarrow> u32 outcome" where
  "add_lens L lengths i 0 acc = Ret acc"
| "add_lens L lengths i (Suc k) acc =
     bindO (lengths i) (\<lambda>l. add_lens L lengths (Suc i) k (acc + cfs_size_round L l))"

definition lustre_msg_size_v2 :: "msg_lib \<Rightarrow> int \<Rightarrow> (nat \<Rightarrow> u32 outcome) \<Rightarrow> u32 outcome" where
  "lustre_msg_size_v2 L n lengths = add_lens L lengths 0 (nat n) (lustre_msg_hdr_size_v2 L (of_int n))"

definition lustre_msg_size :: "msg_lib \<Rightarrow> u32 \<Rightarrow> int \<Rightarrow> u32 list option \<Rightarrow> u32 outcome" where
  "lustre_msg_size L magic n lens =
     lassert (lens = None \<longrightarrow> n = 1)
      (let lens = (case lens of None \<Rightarrow> [ptlrpc_body_size] | Some ls \<Rightarrow> ls) in
       lassert (n > 0)
        (bindO (arr lens 0) (\<lambda>l0. lassert (l0 \<ge> ptlrpc_body_v2_size)
          (if magic = LUSTRE_MSG_MAGIC_V2 then lustre_msg_size_v2 L n (arr lens) else Fault LBUG))))"

definition lustre_msg_early_size :: "msg_lib \<Rightarrow> u32 outcome" where
  "lustre_msg_early_size L = lustre_msg_size L LUSTRE_MSG_MAGIC_V2 1 (Some [ptlrpc_body_v2_size])"

definition lustre_packed_msg_size :: "msg_lib \<Rightarrow> mem \<Rightarrow> u32 outcome" where
  "lustre_packed_msg_size L m =
     bindO (ld32 lm_magic m) (\<lambda>magic.
       if magic = LUSTRE_MSG_MAGIC_V2
       then bindO (ld32 lm_bufcount m) (\<lambda>n. lustre_msg_size_v2 L (sint n) (buflens m))
       else Ret 0)"

section \<open>Packing\<close>

fun store_lens :: "nat \<Rightarrow> nat \<Rightarrow> u32 list \<Rightarrow> mem \<Rightarrow> mem outcome" where
  "store_lens i 0 lens m = Ret m"
| "store_lens i (Suc k) lens m =
     bindO (arr lens i) (\<lambda>l. bindO (st32 (lm_buflens i) l m) (store_lens (Suc i) k lens))"

fun copy_bufs :: "msg_lib \<Rightarrow> nat \<Rightarrow> nat \<Rightarrow> u32 list \<Rightarrow> mem option list \<Rightarrow> nat \<Rightarrow> mem \<Rightarrow> mem outcome" where
  "copy_bufs L i 0 lens bufs ptr m = Ret m"
| "copy_bufs L i (Suc k) lens bufs ptr m =
     bindO (arr bufs i) (\<lambda>tmp. bindO (arr lens i) (\<lambda>l.
       bindO (LOGL L tmp l ptr m) (\<lambda>(ptr, m). copy_bufs L (Suc i) k lens bufs ptr m)))"

definition lustre_init_msg_v2 ::
  "msg_lib \<Rightarrow> int \<Rightarrow> u32 list \<Rightarrow> mem option list option \<Rightarrow> mem \<Rightarrow> mem outcome" where
  "lustre_init_msg_v2 L n lens bufs m =
     bindO (st32 lm_bufcount (of_int n) m) (\<lambda>m.
     bindO (st32 lm_magic LUSTRE_MSG_MAGIC_V2 m) (\<lambda>m.
     bindO (store_lens 0 (nat n) lens m) (\<lambda>m.
       case bufs of None \<Rightarrow> Ret m
       | Some bufs \<Rightarrow> copy_bufs L 0 (nat n) lens bufs (unat (lustre_msg_hdr_size_v2 L (of_int n))) m)))"

section \<open>Buffers\<close>

text \<open>
  A buffer that is too short is logged with the opcode of the message, which reads the body
  (\<open>log_opc\<close>: \<open>lustre_msg_get_opc\<close> as far as memory is concerned).
\<close>

definition buf_offset :: "msg_lib \<Rightarrow> u32 \<Rightarrow> u32 \<Rightarrow> mem \<Rightarrow> nat option outcome" where
  "buf_offset L bufcount n m =
     bindO (add_lens L (buflens m) 0 (unat n) (lustre_msg_hdr_size_v2 L bufcount)) (\<lambda>off. Ret (Some (unat off)))"

definition log_opc :: "msg_lib \<Rightarrow> mem \<Rightarrow> unit outcome" where
  "log_opc L m =
     bindO (ld32 lm_magic m) (\<lambda>magic.
       if magic \<noteq> LUSTRE_MSG_MAGIC_V2 then Ret ()
       else bindO (ld32 lm_bufcount m) (\<lambda>bufcount.
         if 0 \<ge> bufcount then Ret ()
         else bindO (buflens m 0) (\<lambda>buflen.
           if buflen < ptlrpc_body_v2_size then Ret ()
           else bindO (ld32 (unat (lustre_msg_hdr_size_v2 L bufcount) + pb_opc) m) (\<lambda>_. Ret ()))))"

definition lustre_msg_buf_v2 :: "msg_lib \<Rightarrow> mem \<Rightarrow> u32 \<Rightarrow> u32 \<Rightarrow> nat option outcome" where
  "lustre_msg_buf_v2 L m n min_size =
     bindO (ld32 lm_bufcount m) (\<lambda>bufcount.
       if n \<ge> bufcount then Ret None
       else bindO (buflens m (unat n)) (\<lambda>buflen.
         if buflen < min_size then
           bindO (if n = 0 then Ret () else log_opc L m) (\<lambda>_. Ret None)
         else buf_offset L bufcount n m))"

definition lustre_msg_buf :: "msg_lib \<Rightarrow> mem \<Rightarrow> u32 \<Rightarrow> u32 \<Rightarrow> nat option outcome" where
  "lustre_msg_buf L m n min_size =
     bindO (ld32 lm_magic m) (\<lambda>magic.
       if magic = LUSTRE_MSG_MAGIC_V2 then lustre_msg_buf_v2 L m n min_size else Fault LBUG)"

definition lustre_msg_buflen_v2 :: "mem \<Rightarrow> u32 \<Rightarrow> u32 outcome" where
  "lustre_msg_buflen_v2 m n =
     bindO (ld32 lm_bufcount m) (\<lambda>bufcount. if n \<ge> bufcount then Ret 0 else buflens m (unat n))"

definition lustre_msg_buflen :: "mem \<Rightarrow> u32 \<Rightarrow> u32 outcome" where
  "lustre_msg_buflen m n =
     bindO (ld32 lm_magic m) (\<lambda>magic. if magic = LUSTRE_MSG_MAGIC_V2 then lustre_msg_buflen_v2 m n else Ret 0)"

definition lustre_msg_set_buflen_v2 :: "mem \<Rightarrow> u32 \<Rightarrow> u32 \<Rightarrow> mem outcome" where
  "lustre_msg_set_buflen_v2 m n len =
     bindO (ld32 lm_bufcount m) (\<lambda>bufcount.
       if n \<ge> bufcount then Fault LBUG else st32 (lm_buflens (unat n)) len m)"

definition lustre_msg_set_buflen :: "mem \<Rightarrow> u32 \<Rightarrow> u32 \<Rightarrow> mem outcome" where
  "lustre_msg_set_buflen m n len =
     bindO (ld32 lm_magic m) (\<lambda>magic.
       if magic = LUSTRE_MSG_MAGIC_V2 then lustre_msg_set_buflen_v2 m n len else Fault LBUG)"

definition lustre_msg_bufcount :: "mem \<Rightarrow> u32 outcome" where
  "lustre_msg_bufcount m =
     bindO (ld32 lm_magic m) (\<lambda>magic. if magic = LUSTRE_MSG_MAGIC_V2 then ld32 lm_bufcount m else Ret 0)"

text \<open>\<open>strnlen\<close>: it looks at the bytes one by one and stops at a NUL or after \<open>k\<close> of them.\<close>

fun strnlen :: "nat \<Rightarrow> nat \<Rightarrow> mem \<Rightarrow> nat outcome" where
  "strnlen off 0 m = Ret 0"
| "strnlen off (Suc k) m =
     bindO (load 1 off m) (\<lambda>b. if b = [0] then Ret 0 else bindO (strnlen (Suc off) k m) (\<lambda>n. Ret (Suc n)))"

definition lustre_msg_string :: "msg_lib \<Rightarrow> mem \<Rightarrow> u32 \<Rightarrow> u32 \<Rightarrow> nat option outcome" where
  "lustre_msg_string L m index max_len =
     bindO (ld32 lm_magic m) (\<lambda>magic.
       if magic \<noteq> LUSTRE_MSG_MAGIC_V2 then Fault LBUG
       else bindO (lustre_msg_buf_v2 L m index 0) (\<lambda>str.
         bindO (lustre_msg_buflen_v2 m index) (\<lambda>blen.
           case str of None \<Rightarrow> Ret None
           | Some off \<Rightarrow>
               bindO (strnlen off (unat blen) m) (\<lambda>slen.
                 if slen = unat blen then Ret None
                 else if max_len = 0 then
                   (if (of_nat slen :: u32) \<noteq> blen - 1 then Ret None else Ret (Some off))
                 else if slen > unat max_len then Ret None
                 else Ret (Some off)))))"

section \<open>Shrinking\<close>

text \<open>The start and the size of what follows the segment, when it has to be moved.\<close>

definition shrink_tail :: "msg_lib \<Rightarrow> mem \<Rightarrow> u32 \<Rightarrow> u32 \<Rightarrow> bool \<Rightarrow> (nat option \<times> u32) outcome" where
  "shrink_tail L m bufcount segment move_data =
     (if move_data \<and> bufcount > segment + 1 then
        bindO (lustre_msg_buf_v2 L m (segment + 1) 0) (\<lambda>tail.
        bindO (add_lens L (buflens m) (unat (segment + 1)) (unat bufcount - unat (segment + 1)) 0)
          (\<lambda>tail_len. Ret (tail, tail_len)))
      else Ret (None, 0))"

definition shrink_move :: "msg_lib \<Rightarrow> mem \<Rightarrow> u32 \<Rightarrow> nat \<Rightarrow> u32 \<Rightarrow> mem outcome" where
  "shrink_move L m segment tail tail_len =
     bindO (lustre_msg_buf_v2 L m (segment + 1) 0) (\<lambda>newpos.
       case newpos of None \<Rightarrow> Fault NULL_DEREF
       | Some newpos \<Rightarrow> lassert (newpos \<le> tail)
           (if newpos \<noteq> tail then memmove newpos tail (unat (scast tail_len :: u64)) m else Ret m))"

definition lustre_shrink_msg_v2 :: "msg_lib \<Rightarrow> mem \<Rightarrow> u32 \<Rightarrow> u32 \<Rightarrow> bool \<Rightarrow> (int \<times> mem) outcome" where
  "lustre_shrink_msg_v2 L m segment newlen move_data =
     bindO (ld32 lm_bufcount m) (\<lambda>bufcount. lassert (bufcount > segment)
      (bindO (buflens m (unat segment)) (\<lambda>buflen. lassert (buflen \<ge> newlen)
        (bindO
          (if buflen = newlen then Ret m
           else bindO (shrink_tail L m bufcount segment move_data) (\<lambda>(tail, tail_len).
             bindO (st32 (lm_buflens (unat segment)) newlen m) (\<lambda>m.
               case tail of None \<Rightarrow> Ret m
               | Some tail \<Rightarrow> if tail_len = 0 then Ret m else shrink_move L m segment tail tail_len)))
          (\<lambda>m. bindO (ld32 lm_bufcount m) (\<lambda>bufcount.
             bindO (lustre_msg_size_v2 L (sint bufcount) (buflens m)) (\<lambda>size. Ret (sint size, m))))))))"

definition lustre_shrink_msg :: "msg_lib \<Rightarrow> mem \<Rightarrow> int \<Rightarrow> u32 \<Rightarrow> bool \<Rightarrow> (int \<times> mem) outcome" where
  "lustre_shrink_msg L m segment newlen move_data =
     bindO (ld32 lm_magic m) (\<lambda>magic.
       if magic = LUSTRE_MSG_MAGIC_V2 then lustre_shrink_msg_v2 L m (of_int segment) newlen move_data
       else Fault LBUG)"

section \<open>Unpacking\<close>

fun swab_all :: "nat list \<Rightarrow> mem \<Rightarrow> mem outcome" where
  "swab_all [] m = Ret m"
| "swab_all (off # offs) m = bindO (swabs 4 off m) (swab_all offs)"

fun unpack_lens :: "msg_lib \<Rightarrow> bool \<Rightarrow> nat \<Rightarrow> nat \<Rightarrow> u32 \<Rightarrow> mem \<Rightarrow> (u32 \<times> mem) outcome" where
  "unpack_lens L swabbed i 0 required_len m = Ret (required_len, m)"
| "unpack_lens L swabbed i (Suc k) required_len m =
     bindO (if swabbed then swabs 4 (lm_buflens i) m else Ret m) (\<lambda>m.
     bindO (buflens m i) (\<lambda>l.
       unpack_lens L swabbed (Suc i) k (required_len + cfs_size_round L l) m))"

definition lustre_unpack_msg_v2 :: "msg_lib \<Rightarrow> int \<Rightarrow> mem \<Rightarrow> (int \<times> mem) outcome" where
  "lustre_unpack_msg_v2 L len m =
     (if len < sint (lustre_msg_hdr_size_v2 L 0) then Ret (- EINVAL, m)
      else
        bindO (ld32 lm_magic m) (\<lambda>magic.
        let swabbed = (magic = LUSTRE_MSG_MAGIC_V2_SWABBED) in
        bindO (if swabbed then swab_all [lm_magic, lm_bufcount, lm_secflvr, lm_repsize, lm_cksum, lm_flags] m
               else Ret m) (\<lambda>m.
        bindO (ld32 lm_bufcount m) (\<lambda>bufcount.
        let required_len = lustre_msg_hdr_size_v2 L bufcount in
        if len < sint required_len then Ret (- EINVAL, m)
        else bindO (unpack_lens L swabbed 0 (unat bufcount) required_len m) (\<lambda>(required_len, m).
          if len < sint required_len then Ret (- EINVAL, m)
          else Ret (if swabbed then 1 else 0, m))))))"

definition lustre_unpack_msg :: "msg_lib \<Rightarrow> int \<Rightarrow> mem \<Rightarrow> (int \<times> mem) outcome" where
  "lustre_unpack_msg L len m = (if len < 12 then Ret (- EINVAL, m) else lustre_unpack_msg_v2 L len m)"

section \<open>The layout of a message\<close>

definition r8 :: "nat \<Rightarrow> nat" where
  "r8 n = 8 * ((n + 7) div 8)"

definition msg_lib_ok :: "msg_lib \<Rightarrow> bool" where
  "msg_lib_ok L \<longleftrightarrow>
     (\<forall>w. unat w + 7 < 2 ^ 31 \<longrightarrow> unat (cfs_size_round L w) = r8 (unat w)) \<and>
     (\<forall>w ptr m. LOGL L None w ptr m = Ret (ptr + unat (cfs_size_round L w), m)) \<and>
     (\<forall>bs w ptr m. unat w \<le> length bs \<longrightarrow> ptr + unat w \<le> length m \<longrightarrow>
        LOGL L (Some bs) w ptr m =
          Ret (ptr + unat (cfs_size_round L w), patch ptr (take (unat w) bs) m))"

definition msg_count :: "mem \<Rightarrow> nat" where
  "msg_count m = unat (rd32 lm_bufcount m)"

definition msg_len :: "mem \<Rightarrow> nat \<Rightarrow> nat" where
  "msg_len m i = unat (rd32 (lm_buflens i) m)"

definition hdr_bytes :: "nat \<Rightarrow> nat" where
  "hdr_bytes c = r8 (32 + 4 * c)"

definition buf_off :: "mem \<Rightarrow> nat \<Rightarrow> nat" where
  "buf_off m n = hdr_bytes (msg_count m) + (\<Sum>i<n. r8 (msg_len m i))"

definition msg_bytes :: "mem \<Rightarrow> nat" where
  "msg_bytes m = buf_off m (msg_count m)"

definition buf_data :: "mem \<Rightarrow> nat \<Rightarrow> mem" where
  "buf_data m n = seg (buf_off m n) (msg_len m n) m"

definition msg_ok :: "mem \<Rightarrow> bool" where
  "msg_ok m \<longleftrightarrow> rd32 lm_magic m = LUSTRE_MSG_MAGIC_V2 \<and> msg_bytes m < 2 ^ 31 \<and> msg_bytes m \<le> length m"

lemma r8_ge [simp]: "n \<le> r8 n"
  unfolding r8_def by linarith

lemma r8_less: "r8 n < 2 ^ 31 \<Longrightarrow> n + 7 < 2 ^ 31"
  unfolding r8_def by simp

lemma r8_mono: "a \<le> b \<Longrightarrow> r8 a \<le> r8 b"
  unfolding r8_def by (simp add: div_le_mono)

lemma r8_0 [simp]: "r8 0 = 0"
  by (simp add: r8_def)

lemma hdr_bytes_ge: "32 + 4 * c \<le> hdr_bytes c"
  by (simp add: hdr_bytes_def)

lemma size_round:
  assumes "msg_lib_ok L" and "r8 (unat w) < 2 ^ 31"
  shows "cfs_size_round L w = of_nat (r8 (unat w))"
proof -
  have "unat (cfs_size_round L w) = r8 (unat w)"
    using assms r8_less [OF assms(2)] by (simp add: msg_lib_ok_def)
  then have "of_nat (unat (cfs_size_round L w)) = (of_nat (r8 (unat w)) :: u32)" by simp
  then show ?thesis by simp
qed

lemma unat_u32: "n < 2 ^ 32 \<Longrightarrow> unat (of_nat n :: u32) = n"
  by (simp add: unat_of_nat take_bit_nat_eq_self)

lemma sint_u32:
  assumes "n < 2 ^ 31"
  shows "sint (of_nat n :: u32) = int n"
proof -
  have "int n < 2 ^ 31" using assms by simp
  then have "signed_take_bit 31 (int n) = int n" by (intro signed_take_bit_int_eq_self) simp_all
  moreover have "sint (of_int (int n) :: u32) = signed_take_bit 31 (int n)"
    by (subst sint_sbintrunc') simp
  ultimately show ?thesis by simp
qed

lemma hdr_size:
  assumes "msg_lib_ok L" and "hdr_bytes (unat c) < 2 ^ 31"
  shows "lustre_msg_hdr_size_v2 L c = of_nat (hdr_bytes (unat c))"
proof -
  have "32 + 4 * unat c < 2 ^ 31" using hdr_bytes_ge [of "unat c"] assms(2) by simp
  then have "unat (of_nat (32 + 4 * unat c) :: u32) = 32 + 4 * unat c" by (intro unat_u32) simp
  moreover have "(of_nat (32 + 4 * unat c) :: u32) = 32 + 4 * c" by simp
  ultimately have u: "unat (32 + 4 * c) = 32 + 4 * unat c" by simp
  then show ?thesis
    using assms by (simp add: lustre_msg_hdr_size_v2_def size_round hdr_bytes_def)
qed

lemma add_lens_eq:
  assumes "msg_lib_ok L" and "\<And>j. i \<le> j \<Longrightarrow> j < i + k \<Longrightarrow> lengths j = Ret (l j) \<and> r8 (unat (l j)) < 2 ^ 31"
  shows "add_lens L lengths i k acc = Ret (acc + of_nat (\<Sum>j=i..<i+k. r8 (unat (l j))))"
  using assms(2)
proof (induction k arbitrary: i acc)
  case (Suc k)
  have "add_lens L lengths (Suc i) k (acc + of_nat (r8 (unat (l i)))) =
      Ret (acc + of_nat (r8 (unat (l i))) + of_nat (\<Sum>j=Suc i..<Suc i+k. r8 (unat (l j))))"
    by (rule Suc.IH) (use Suc.prems in auto)
  moreover have "(\<Sum>j=i..<i+Suc k. r8 (unat (l j))) = r8 (unat (l i)) + (\<Sum>j=Suc i..<Suc i+k. r8 (unat (l j)))"
    by (simp add: sum.atLeast_Suc_lessThan)
  ultimately show ?case using Suc.prems [of i] assms(1) by (simp add: size_round algebra_simps)
qed simp

lemma buflens_eq: "32 + 4 * c \<le> length m \<Longrightarrow> i < c \<Longrightarrow> buflens m i = Ret (rd32 (lm_buflens i) m)"
  by (simp add: buflens_def wire lm_buflens_def)

lemma buf_off_Suc: "buf_off m (Suc n) = buf_off m n + r8 (msg_len m n)"
  by (simp add: buf_off_def)

lemma buf_off_mono: "a \<le> b \<Longrightarrow> buf_off m a \<le> buf_off m b"
  unfolding buf_off_def by (intro add_left_mono sum_mono2) auto

lemma buf_inside: "n < msg_count m \<Longrightarrow> buf_off m n + r8 (msg_len m n) \<le> msg_bytes m"
  using buf_off_mono [of "Suc n" "msg_count m" m] by (simp add: msg_bytes_def buf_off_Suc)

lemma buf_inside': "n < msg_count m \<Longrightarrow> buf_off m n + msg_len m n \<le> msg_bytes m"
  using buf_inside [of n m] r8_ge [of "msg_len m n"] by linarith

lemma hdr_inside: "hdr_bytes (msg_count m) \<le> msg_bytes m" "32 + 4 * msg_count m \<le> msg_bytes m"
  using hdr_bytes_ge [of "msg_count m"] by (simp_all add: msg_bytes_def buf_off_def)

text \<open>The loops over the lengths of a message whose size does not wrap around.\<close>

lemma msg_add_lens:
  assumes "msg_lib_ok L" and "msg_bytes m < 2 ^ 31" and "32 + 4 * msg_count m \<le> length m" and "i + k \<le> msg_count m"
  shows "add_lens L (buflens m) i k acc = Ret (acc + of_nat (buf_off m (i + k) - buf_off m i))"
proof -
  have "add_lens L (buflens m) i k acc =
      Ret (acc + of_nat (\<Sum>j=i..<i+k. r8 (unat (rd32 (lm_buflens j) m))))"
  proof (rule add_lens_eq [OF assms(1)])
    fix j assume "i \<le> j" "j < i + k"
    then have j: "j < msg_count m" using assms(4) by simp
    then have "r8 (msg_len m j) < 2 ^ 31" using buf_inside [of j m] assms(2) by linarith
    then show "buflens m j = Ret (rd32 (lm_buflens j) m) \<and> r8 (unat (rd32 (lm_buflens j) m)) < 2 ^ 31"
      using buflens_eq [OF assms(3) j] by (simp add: msg_len_def)
  qed
  moreover have "(\<Sum>j=i..<i+k. r8 (msg_len m j)) = buf_off m (i + k) - buf_off m i"
    by (simp add: buf_off_def lessThan_atLeast0 sum.atLeastLessThan_concat [of 0 i "i + k", symmetric])
  ultimately show ?thesis by (simp only: msg_len_def)
qed

lemma msg_hdr_size:
  assumes "msg_lib_ok L" and "msg_bytes m < 2 ^ 31"
  shows "lustre_msg_hdr_size_v2 L (rd32 lm_bufcount m) = of_nat (hdr_bytes (msg_count m))"
  using hdr_size [OF assms(1), of "rd32 lm_bufcount m"] hdr_inside(1) [of m] assms(2)
  by (simp add: msg_count_def)

lemma msg_buf_offset:
  assumes "msg_lib_ok L" and "msg_bytes m < 2 ^ 31" and "32 + 4 * msg_count m \<le> length m" and "unat n \<le> msg_count m"
  shows "buf_offset L (rd32 lm_bufcount m) n m = Ret (Some (buf_off m (unat n)))"
proof -
  have "hdr_bytes (msg_count m) + (buf_off m (unat n) - buf_off m 0) = buf_off m (unat n)"
    using buf_off_mono [of 0 "unat n" m] by (simp add: buf_off_def)
  moreover have "buf_off m (unat n) < 2 ^ 32"
    using buf_off_mono [OF assms(4), of m] assms(2) by (simp add: msg_bytes_def)
  ultimately show ?thesis
    using msg_add_lens [OF assms(1-3), of 0 "unat n"] assms(4)
    by (simp add: buf_offset_def msg_hdr_size [OF assms(1,2)] unat_u32 flip: of_nat_add)
qed

lemma u32_nat: "(a :: u32) \<le> b \<longleftrightarrow> unat a \<le> unat b" "(a :: u32) < b \<longleftrightarrow> unat a < unat b"
  by (simp_all add: word_le_nat_alt word_less_nat_alt)

lemma msg_ok_hdr:
  assumes "msg_ok m"
  shows "32 + 4 * msg_count m \<le> length m" "msg_bytes m < 2 ^ 31" "rd32 lm_magic m = LUSTRE_MSG_MAGIC_V2"
    "32 \<le> length m" "ld32 lm_bufcount m = Ret (rd32 lm_bufcount m)" "ld32 lm_magic m = Ret LUSTRE_MSG_MAGIC_V2"
  using assms hdr_inside(2) [of m] by (auto simp: msg_ok_def wire)

text \<open>\<open>lustre_msg_buf\<close> on a sound message: the buffer, or NULL when it is missing or too short.\<close>

lemma msg_log_opc:
  assumes "msg_lib_ok L" and "msg_ok m"
  shows "log_opc L m = Ret ()"
proof (cases "rd32 lm_bufcount m = 0 \<or> rd32 (lm_buflens 0) m < ptlrpc_body_v2_size")
  case True
  then show ?thesis
    using msg_ok_hdr [OF assms(2)] buflens_eq [of "msg_count m" m 0]
    by (auto simp: log_opc_def msg_count_def unat_gt_0)
next
  case False
  note o = msg_ok_hdr [OF assms(2)]
  from False have c: "0 < msg_count m" by (simp add: msg_count_def unat_gt_0)
  from False have "152 \<le> msg_len m 0" by (simp add: msg_len_def u32_nat not_less)
  then have "hdr_bytes (msg_count m) + 152 \<le> length m"
    using buf_inside' [OF c] assms(2) by (simp add: buf_off_def msg_ok_def)
  moreover have "unat (lustre_msg_hdr_size_v2 L (rd32 lm_bufcount m)) = hdr_bytes (msg_count m)"
    using msg_hdr_size [OF assms(1) o(2)] hdr_inside(1) [of m] o(2) by (simp add: unat_u32)
  ultimately show ?thesis using False o buflens_eq [OF o(1) c] by (simp add: log_opc_def wire)
qed

lemma msg_buf:
  assumes "msg_lib_ok L" and "msg_ok m"
  shows "lustre_msg_buf_v2 L m n k = Ret (if unat n < msg_count m \<and> unat k \<le> msg_len m (unat n)
    then Some (buf_off m (unat n)) else None)"
proof -
  note o = msg_ok_hdr [OF assms(2)]
  show ?thesis
    using o msg_log_opc [OF assms] msg_buf_offset [OF assms(1) o(2,1), of n] buflens_eq [OF o(1), of "unat n"]
    by (auto simp: lustre_msg_buf_v2_def u32_nat msg_len_def simp flip: msg_count_def)
qed

lemma msg_buflen:
  assumes "msg_ok m"
  shows "lustre_msg_buflen_v2 m n = Ret (if unat n < msg_count m then rd32 (lm_buflens (unat n)) m else 0)"
  using msg_ok_hdr [OF assms] buflens_eq [of "msg_count m" m "unat n"]
  by (auto simp: lustre_msg_buflen_v2_def u32_nat simp flip: msg_count_def)

lemma msg_size:
  assumes "msg_lib_ok L" and "msg_ok m"
  shows "lustre_msg_size_v2 L (sint (rd32 lm_bufcount m)) (buflens m) = Ret (of_nat (msg_bytes m))"
proof -
  note o = msg_ok_hdr [OF assms(2)]
  have c: "msg_count m < 2 ^ 31" using hdr_inside(2) [of m] o(2) by linarith
  then have s: "sint (rd32 lm_bufcount m) = int (msg_count m)"
    using sint_u32 [OF c] by (simp add: msg_count_def)
  have h: "hdr_bytes (msg_count m) + (buf_off m (msg_count m) - buf_off m 0) = msg_bytes m"
    using buf_off_mono [of 0 "msg_count m" m] by (simp add: buf_off_def msg_bytes_def)
  have "(of_nat (msg_count m) :: u32) = rd32 lm_bufcount m" by (simp add: msg_count_def)
  then show ?thesis
    using msg_add_lens [OF assms(1) o(2,1), of 0 "msg_count m"] h
    by (simp add: lustre_msg_size_v2_def s msg_hdr_size [OF assms(1) o(2)] flip: of_nat_add)
qed

end
