(* ===== verification/Msg_Wire.thy ===== *)
theory Msg_Wire
  imports Lustre_Msg
begin

text \<open>
  The operations of \<open>pack_generic.c\<close> on whole messages: what packing writes, what unpacking
  accepts in either byte order, which strings are returned, and what shrinking moves.
\<close>

section \<open>Packing\<close>

lemma rd32_cong: "seg off 4 m = seg off 4 m' \<Longrightarrow> rd32 off m = rd32 off m'"
  by (simp add: rd32_def)

lemma store_lens_ok:
  assumes "i + k \<le> length lens" and "32 + 4 * (i + k) \<le> length m"
  shows "\<exists>m'. store_lens i k lens m = Ret m' \<and> length m' = length m \<and>
    (\<forall>j. i \<le> j \<and> j < i + k \<longrightarrow> rd32 (lm_buflens j) m' = lens ! j) \<and>
    (\<forall>off n. off + n \<le> lm_buflens i \<or> lm_buflens (i + k) \<le> off \<longrightarrow> seg off n m' = seg off n m)"
  using assms
proof (induction k arbitrary: i m)
  case (Suc k)
  let ?m = "patch (lm_buflens i) (to_le 4 (lens ! i)) m"
  have l: "lm_buflens i + 4 \<le> length m" using Suc.prems by (simp add: lm_buflens_def)
  then have "\<exists>m'. store_lens (Suc i) k lens ?m = Ret m' \<and> length m' = length ?m \<and>
    (\<forall>j. Suc i \<le> j \<and> j < Suc i + k \<longrightarrow> rd32 (lm_buflens j) m' = lens ! j) \<and>
    (\<forall>off n. off + n \<le> lm_buflens (Suc i) \<or> lm_buflens (Suc i + k) \<le> off \<longrightarrow> seg off n m' = seg off n ?m)"
    by (intro Suc.IH) (use Suc.prems in simp_all)
  then obtain m' where m': "store_lens (Suc i) k lens ?m = Ret m'" "length m' = length ?m"
    and r: "\<And>j. Suc i \<le> j \<Longrightarrow> j < Suc i + k \<Longrightarrow> rd32 (lm_buflens j) m' = lens ! j"
    and s: "\<And>off n. off + n \<le> lm_buflens (Suc i) \<or> lm_buflens (Suc i + k) \<le> off \<Longrightarrow> seg off n m' = seg off n ?m"
    by blast
  have "rd32 (lm_buflens i) m' = rd32 (lm_buflens i) ?m"
    by (rule rd32_cong, rule s) (simp add: lm_buflens_def)
  then have "rd32 (lm_buflens i) m' = lens ! i" using l by simp
  with r have "\<forall>j. i \<le> j \<and> j < i + Suc k \<longrightarrow> rd32 (lm_buflens j) m' = lens ! j"
    by (metis add_Suc_shift le_neq_implies_less Suc_leI)
  moreover have "seg off n m' = seg off n m" if "off + n \<le> lm_buflens i \<or> lm_buflens (i + Suc k) \<le> off" for off n
  proof -
    have "seg off n m' = seg off n ?m" by (rule s) (use that in \<open>auto simp: lm_buflens_def\<close>)
    also have "\<dots> = seg off n m" by (rule seg_patch_other) (use that l in \<open>auto simp: lm_buflens_def\<close>)
    finally show ?thesis .
  qed
  moreover have "store_lens i (Suc k) lens m = Ret m'"
    using m'(1) l Suc.prems by (simp add: arr_def wire)
  ultimately show ?case using m'(2) l by auto
qed auto

lemma LOGL_ok:
  assumes "msg_lib_ok L" and "r8 (unat l) < 2 ^ 31" and "ptr + r8 (unat l) \<le> length m"
    and "\<And>b. buf = Some b \<Longrightarrow> unat l \<le> length b"
  shows "LOGL L buf l ptr m = Ret (ptr + r8 (unat l),
    case buf of None \<Rightarrow> m | Some b \<Rightarrow> patch ptr (take (unat l) b) m)"
proof -
  have "unat (cfs_size_round L l) = r8 (unat l)" using size_round [OF assms(1,2)] assms(2) by (simp add: unat_u32)
  moreover have "ptr + unat l \<le> length m" using assms(3) r8_ge [of "unat l"] by linarith
  ultimately show ?thesis using assms(1,4) by (cases buf) (simp_all add: msg_lib_ok_def)
qed

lemma copy_bufs_ok:
  assumes "msg_lib_ok L" and "i + k \<le> length lens" and "i + k \<le> length bufs"
    and "\<And>j b. j < i + k \<Longrightarrow> bufs ! j = Some b \<Longrightarrow> unat (lens ! j) \<le> length b"
    and "\<And>j. j < i + k \<Longrightarrow> r8 (unat (lens ! j)) < 2 ^ 31"
    and "ptr + (\<Sum>j=i..<i+k. r8 (unat (lens ! j))) \<le> length m"
  shows "\<exists>m'. copy_bufs L i k lens bufs ptr m = Ret m' \<and> length m' = length m \<and>
    (\<forall>off n. off + n \<le> ptr \<longrightarrow> seg off n m' = seg off n m) \<and>
    (\<forall>j b. i \<le> j \<and> j < i + k \<and> bufs ! j = Some b \<longrightarrow>
       seg (ptr + (\<Sum>x=i..<j. r8 (unat (lens ! x)))) (unat (lens ! j)) m' = take (unat (lens ! j)) b)"
  using assms(2-)
proof (induction k arbitrary: i ptr m)
  case (Suc k)
  let ?r = "\<lambda>j. r8 (unat (lens ! j))"
  let ?m = "case bufs ! i of None \<Rightarrow> m | Some b \<Rightarrow> patch ptr (take (unat (lens ! i)) b) m"
  have sm: "(\<Sum>j=i..<i+Suc k. ?r j) = ?r i + (\<Sum>j=Suc i..<Suc i+k. ?r j)"
    by (simp add: sum.atLeast_Suc_lessThan)
  then have p: "ptr + ?r i \<le> length m" using Suc.prems(5) by simp
  then have pu: "ptr + unat (lens ! i) \<le> length m" using r8_ge [of "unat (lens ! i)"] by linarith
  have lm: "length ?m = length m"
    using pu by (cases "bufs ! i") simp_all
  have lg: "LOGL L (bufs ! i) (lens ! i) ptr m = Ret (ptr + ?r i, ?m)"
    by (rule LOGL_ok [OF assms(1) _ p]) (use Suc.prems(3,4) in simp_all)
  have "\<exists>m'. copy_bufs L (Suc i) k lens bufs (ptr + ?r i) ?m = Ret m' \<and> length m' = length ?m \<and>
    (\<forall>off n. off + n \<le> ptr + ?r i \<longrightarrow> seg off n m' = seg off n ?m) \<and>
    (\<forall>j b. Suc i \<le> j \<and> j < Suc i + k \<and> bufs ! j = Some b \<longrightarrow>
       seg (ptr + ?r i + (\<Sum>x=Suc i..<j. ?r x)) (unat (lens ! j)) m' = take (unat (lens ! j)) b)"
    by (rule Suc.IH) (use Suc.prems sm lm in \<open>simp_all add: add.assoc\<close>)
  then obtain m' where m': "copy_bufs L (Suc i) k lens bufs (ptr + ?r i) ?m = Ret m'" "length m' = length ?m"
    and s: "\<And>off n. off + n \<le> ptr + ?r i \<Longrightarrow> seg off n m' = seg off n ?m"
    and b: "\<And>j b. Suc i \<le> j \<Longrightarrow> j < Suc i + k \<Longrightarrow> bufs ! j = Some b \<Longrightarrow>
       seg (ptr + ?r i + (\<Sum>x=Suc i..<j. ?r x)) (unat (lens ! j)) m' = take (unat (lens ! j)) b"
    by blast
  have "seg off n m' = seg off n m" if "off + n \<le> ptr" for off n
    using s [of off n] that pu
    by (auto simp: seg_patch_other split: option.split)
  moreover have "seg (ptr + (\<Sum>x=i..<j. ?r x)) (unat (lens ! j)) m' = take (unat (lens ! j)) b'"
    if "i \<le> j \<and> j < i + Suc k \<and> bufs ! j = Some b'" for j b'
  proof (cases "j = i")
    case True
    then have "seg ptr (unat (lens ! i)) m' = seg ptr (unat (lens ! i)) ?m" by (intro s) simp
    moreover have "unat (lens ! i) \<le> length b'" using Suc.prems(3) [of i b'] that True by simp
    ultimately show ?thesis using True that pu by simp
  next
    case False
    then have "(\<Sum>x=i..<j. ?r x) = ?r i + (\<Sum>x=Suc i..<j. ?r x)" using that by (simp add: sum.atLeast_Suc_lessThan)
    then show ?thesis using b [of j b'] that False by (simp add: add.assoc)
  qed
  moreover have "copy_bufs L i (Suc k) lens bufs ptr m = Ret m'"
    using m'(1) lg Suc.prems(1,2) by (simp add: arr_def)
  ultimately show ?case using m'(2) lm by auto
qed auto

text \<open>What \<open>lustre_init_msg_v2\<close> writes, when there is room for the whole message.\<close>

definition lens_bytes :: "u32 list \<Rightarrow> nat" where
  "lens_bytes lens = hdr_bytes (length lens) + (\<Sum>i<length lens. r8 (unat (lens ! i)))"

definition bufs_fit :: "u32 list \<Rightarrow> mem option list \<Rightarrow> bool" where
  "bufs_fit lens bufs \<longleftrightarrow> length bufs = length lens \<and>
     (\<forall>j < length lens. case bufs ! j of None \<Rightarrow> True | Some b \<Rightarrow> unat (lens ! j) \<le> length b)"

lemma lens_bytes_round: "lens_bytes lens < 2 ^ 31 \<Longrightarrow> j < length lens \<Longrightarrow> r8 (unat (lens ! j)) < 2 ^ 31"
  using member_le_sum [of j "{..<length lens}" "\<lambda>i. r8 (unat (lens ! i))"] by (simp add: lens_bytes_def)

lemma lens_size:
  assumes "msg_lib_ok L" and "lens_bytes lens < 2 ^ 31"
  shows "lustre_msg_size_v2 L (int (length lens)) (arr lens) = Ret (of_nat (lens_bytes lens))"
proof -
  have "hdr_bytes (length lens) < 2 ^ 31" using assms(2) by (simp add: lens_bytes_def)
  moreover have "length lens < 2 ^ 32" using calculation hdr_bytes_ge [of "length lens"] by simp
  ultimately have h: "lustre_msg_hdr_size_v2 L (of_nat (length lens)) = of_nat (hdr_bytes (length lens))"
    using hdr_size [OF assms(1), of "of_nat (length lens)"] by (simp add: unat_u32)
  have "add_lens L (arr lens) 0 (length lens) acc =
      Ret (acc + of_nat (\<Sum>j=0..<0 + length lens. r8 (unat (lens ! j))))" for acc
    using lens_bytes_round [OF assms(2)] by (intro add_lens_eq [OF assms(1)]) (simp add: arr_def)
  then show ?thesis
    by (simp add: lustre_msg_size_v2_def h lens_bytes_def lessThan_atLeast0)
qed

lemma init_msg_ok:
  assumes L: "msg_lib_ok L" and b: "lens_bytes lens < 2 ^ 31" and m: "lens_bytes lens \<le> length m"
    and bufs: "bufs_fit lens bufs"
  shows "\<exists>m'. lustre_init_msg_v2 L (int (length lens)) lens (Some bufs) m = Ret m' \<and> length m' = length m \<and>
    msg_ok m' \<and> msg_bytes m' = lens_bytes lens \<and> msg_count m' = length lens \<and>
    (\<forall>i < length lens. msg_len m' i = unat (lens ! i) \<and>
       (\<forall>d. bufs ! i = Some d \<longrightarrow> buf_data m' i = take (unat (lens ! i)) d))"
proof -
  let ?n = "length lens"
  have h: "hdr_bytes ?n \<le> lens_bytes lens" by (simp add: lens_bytes_def)
  have n: "?n < 2 ^ 32" "32 + 4 * ?n \<le> length m" using h hdr_bytes_ge [of ?n] b m by simp_all
  let ?m1 = "patch lm_bufcount (to_le 4 (of_nat ?n :: u32)) m"
  let ?m2 = "patch lm_magic (to_le 4 LUSTRE_MSG_MAGIC_V2) ?m1"
  have l2: "length ?m2 = length m" using n(2) by simp
  obtain m3 where m3: "store_lens 0 ?n lens ?m2 = Ret m3" "length m3 = length m"
    and r3: "\<And>j. j < ?n \<Longrightarrow> rd32 (lm_buflens j) m3 = lens ! j"
    and s3: "\<And>off k. off + k \<le> lm_buflens 0 \<Longrightarrow> seg off k m3 = seg off k ?m2"
    using store_lens_ok [of 0 ?n lens ?m2] n(2) l2 by auto
  have hs: "unat (lustre_msg_hdr_size_v2 L (of_nat ?n)) = hdr_bytes ?n"
    using hdr_size [OF L, of "of_nat ?n"] n(1) h b by (simp add: unat_u32)
  have "\<exists>m4. copy_bufs L 0 ?n lens bufs (hdr_bytes ?n) m3 = Ret m4 \<and> length m4 = length m3 \<and>
    (\<forall>off k. off + k \<le> hdr_bytes ?n \<longrightarrow> seg off k m4 = seg off k m3) \<and>
    (\<forall>j d. 0 \<le> j \<and> j < 0 + ?n \<and> bufs ! j = Some d \<longrightarrow>
       seg (hdr_bytes ?n + (\<Sum>x=0..<j. r8 (unat (lens ! x)))) (unat (lens ! j)) m4 = take (unat (lens ! j)) d)"
  proof (rule copy_bufs_ok [OF L])
    show "hdr_bytes ?n + (\<Sum>j=0..<0 + ?n. r8 (unat (lens ! j))) \<le> length m3"
      using m m3(2) by (simp add: lens_bytes_def lessThan_atLeast0)
  qed (use bufs lens_bytes_round [OF b] in \<open>auto simp: bufs_fit_def split: option.splits\<close>)
  then obtain m4 where m4: "copy_bufs L 0 ?n lens bufs (hdr_bytes ?n) m3 = Ret m4" "length m4 = length m"
    and s4: "\<And>off k. off + k \<le> hdr_bytes ?n \<Longrightarrow> seg off k m4 = seg off k m3"
    and d4: "\<And>j d. j < ?n \<Longrightarrow> bufs ! j = Some d \<Longrightarrow>
       seg (hdr_bytes ?n + (\<Sum>x<j. r8 (unat (lens ! x)))) (unat (lens ! j)) m4 = take (unat (lens ! j)) d"
    using m3(2) by (auto simp: lessThan_atLeast0)
  have hdr4: "rd32 off m4 = rd32 off ?m2" if "off + 4 \<le> 32" for off
    using s3 [of off 4] s4 [of off 4] that hdr_bytes_ge [of ?n] by (intro rd32_cong) (simp add: lm_buflens_def)
  have "rd32 lm_bufcount ?m2 = of_nat ?n" using n(2) by (simp add: rd32_patch_other)
  then have c: "msg_count m4 = ?n" using hdr4 [of lm_bufcount] n(1) by (simp add: msg_count_def unat_u32)
  have mg: "rd32 lm_magic m4 = LUSTRE_MSG_MAGIC_V2" using hdr4 [of lm_magic] n(2) by simp
  have len: "msg_len m4 i = unat (lens ! i)" if "i < ?n" for i
  proof -
    have "rd32 (lm_buflens i) m4 = rd32 (lm_buflens i) m3"
      by (rule rd32_cong, rule s4) (use that hdr_bytes_ge [of ?n] in \<open>simp add: lm_buflens_def\<close>)
    then show ?thesis using r3 [OF that] by (simp add: msg_len_def)
  qed
  then have off: "buf_off m4 i = hdr_bytes ?n + (\<Sum>x<i. r8 (unat (lens ! x)))" if "i \<le> ?n" for i
    using that by (simp add: buf_off_def c)
  then have by4: "msg_bytes m4 = lens_bytes lens" by (simp add: msg_bytes_def c lens_bytes_def)
  have "lustre_init_msg_v2 L (int ?n) lens (Some bufs) m = Ret m4"
    using n(2) m3(1) m4(1) hs by (simp add: lustre_init_msg_v2_def wire)
  moreover have "buf_data m4 i = take (unat (lens ! i)) d" if "i < ?n" "bufs ! i = Some d" for i d
    using d4 [OF that] off [of i] len [of i] that(1) by (simp add: buf_data_def)
  ultimately show ?thesis using m4(2) mg b m by4 c len by (auto simp: msg_ok_def)
qed

section \<open>Unpacking\<close>

text \<open>A received message in the byte order of the host.\<close>

definition turn :: "nat list \<Rightarrow> mem \<Rightarrow> mem" where
  "turn offs m = fold (\<lambda>off m. patch off (rev (seg off 4 m)) m) offs m"

definition hdr_offs :: "nat list" where
  "hdr_offs = [lm_magic, lm_bufcount, lm_secflvr, lm_repsize, lm_cksum, lm_flags]"

definition len_offs :: "nat \<Rightarrow> nat list" where
  "len_offs n = map lm_buflens [0..<n]"

definition foreign :: "mem \<Rightarrow> bool" where
  "foreign m \<longleftrightarrow> rd32 lm_magic m = LUSTRE_MSG_MAGIC_V2_SWABBED"

definition host_hdr :: "mem \<Rightarrow> mem" where
  "host_hdr m = (if foreign m then turn hdr_offs m else m)"

definition host_order :: "mem \<Rightarrow> mem" where
  "host_order m = (if foreign m then turn (len_offs (msg_count (host_hdr m))) (host_hdr m) else m)"

lemma turn_Nil [simp]: "turn [] m = m"
  by (simp add: turn_def)

lemma turn_Cons: "turn (off # offs) m = turn offs (patch off (rev (seg off 4 m)) m)"
  by (simp add: turn_def)

lemma turn_append: "turn (xs @ ys) m = turn ys (turn xs m)"
  by (simp add: turn_def)

lemma length_patch_rev [simp]: "length (patch off (rev (seg off k m)) m) = length m"
  by (simp add: patch_def)

lemma length_turn [simp]: "length (turn offs m) = length m"
  by (induction offs arbitrary: m) (simp_all add: turn_Cons)

lemma length_host [simp]: "length (host_hdr m) = length m" "length (host_order m) = length m"
  by (simp_all add: host_hdr_def host_order_def)

lemma seg_patch_rev:
  assumes "x + k \<le> off"
  shows "seg x k (patch off (rev (seg off n m)) m) = seg x k m"
proof -
  have "take off (patch off (rev (seg off n m)) m) = take off m"
    by (cases "off \<le> length m") (simp_all add: patch_def)
  then have "seg x k (take off (patch off (rev (seg off n m)) m)) = seg x k (take off m)" by simp
  then show ?thesis using assms by (simp add: drop_take min_def split: if_splits)
qed

lemma seg_turn: "\<forall>off \<in> set offs. x + k \<le> off \<Longrightarrow> seg x k (turn offs m) = seg x k m"
  by (induction offs arbitrary: m) (simp_all add: turn_Cons seg_patch_rev)

lemma msg_count_turn_lens [simp]: "msg_count (turn (len_offs n) m) = msg_count m"
  using seg_turn [of "len_offs n" lm_bufcount 4 m]
  by (simp add: msg_count_def len_offs_def lm_buflens_def rd32_def)

lemma msg_count_host [simp]: "msg_count (host_order m) = msg_count (host_hdr m)"
  by (simp add: host_order_def host_hdr_def)

lemma swab_all_eq: "\<forall>off \<in> set offs. off + 4 \<le> length m \<Longrightarrow> swab_all offs m = Ret (turn offs m)"
  by (induction offs arbitrary: m) (simp_all add: turn_Cons wire)

lemma turn_at:
  assumes "\<forall>off \<in> set offs. x + 4 \<le> off \<or> off + 4 \<le> x" and "\<forall>off \<in> set offs. off + 4 \<le> length m"
  shows "seg x 4 (turn offs m) = seg x 4 m"
  using assms
proof (induction offs arbitrary: m)
  case (Cons off offs)
  then have "seg x 4 (turn (off # offs) m) = seg x 4 (patch off (rev (seg off 4 m)) m)"
    by (simp add: turn_Cons)
  also have "\<dots> = seg x 4 m" by (rule seg_patch_other) (use Cons.prems in auto)
  finally show ?case .
qed simp

text \<open>The loop over the lengths, in either byte order.\<close>

lemma unpack_lens_eq:
  assumes "msg_lib_ok L" and "32 + 4 * (i + k) \<le> length m"
    and m': "m' = (if swabbed then turn (map lm_buflens [i..<i + k]) m else m)"
    and "\<And>j. i \<le> j \<Longrightarrow> j < i + k \<Longrightarrow> r8 (msg_len m' j) < 2 ^ 31"
  shows "unpack_lens L swabbed i k req m = Ret (req + of_nat (\<Sum>j=i..<i+k. r8 (msg_len m' j)), m')"
  using assms(2-)
proof (induction k arbitrary: i m req m')
  case (Suc k)
  let ?m = "if swabbed then patch (lm_buflens i) (rev (seg (lm_buflens i) 4 m)) m else m"
  let ?R = "\<lambda>j. r8 (msg_len m' j)"
  have l: "lm_buflens i + 4 \<le> length m" using Suc.prems(1) by (simp add: lm_buflens_def)
  have up: "[i..<i + Suc k] = i # [Suc i..<Suc i + k]" by (simp add: upt_conv_Cons)
  have m'': "m' = (if swabbed then turn (map lm_buflens [Suc i..<Suc i + k]) ?m else ?m)"
    unfolding Suc.prems(2) up by (simp add: turn_Cons)
  have "seg (lm_buflens i) 4 m' = seg (lm_buflens i) 4 ?m"
  proof (cases swabbed)
    case True
    have "seg (lm_buflens i) 4 (turn (map lm_buflens [Suc i..<Suc i + k]) ?m) = seg (lm_buflens i) 4 ?m"
      by (rule turn_at) (use Suc.prems(1) True in \<open>auto simp: lm_buflens_def simp del: upt_Suc\<close>)
    then show ?thesis unfolding m'' using True by simp
  qed (simp add: m'')
  then have mi: "buflens ?m i = Ret (rd32 (lm_buflens i) m')"
    using l by (cases swabbed) (simp_all add: buflens_def wire rd32_def)
  have "unpack_lens L swabbed (Suc i) k (req + of_nat (?R i)) ?m =
      Ret (req + of_nat (?R i) + of_nat (\<Sum>j=Suc i..<Suc i+k. ?R j), m')"
    by (rule Suc.IH [OF _ m'']) (use Suc.prems(1,3) in simp_all)
  moreover have "cfs_size_round L (rd32 (lm_buflens i) m') = of_nat (?R i)"
    using size_round [OF assms(1)] Suc.prems(3) [of i] by (simp add: msg_len_def)
  moreover have "(\<Sum>j=i..<i+Suc k. ?R j) = ?R i + (\<Sum>j=Suc i..<Suc i+k. ?R j)"
    by (simp add: sum.atLeast_Suc_lessThan)
  ultimately show ?case using mi l by (cases swabbed) (simp_all add: wire add.assoc)
qed auto

lemma foreign_magic:
  assumes "foreign m" and "32 \<le> length m"
  shows "rd32 lm_magic (host_order m) = LUSTRE_MSG_MAGIC_V2"
proof -
  have len: "length (seg lm_magic 4 m) = 4" using assms(2) by simp
  have "seg lm_magic 4 m = to_le 4 LUSTRE_MSG_MAGIC_V2_SWABBED"
    using to_le_of_le [of "seg lm_magic 4 m", where 'a = 32] assms(1) unfolding len
    by (simp add: foreign_def rd32_def)
  then have r: "rev (seg lm_magic 4 m) = to_le 4 LUSTRE_MSG_MAGIC_V2"
    by (simp only:) code_simp
  have "seg lm_magic 4 (turn (lm_magic # offs) m) = seg lm_magic 4 (patch lm_magic (rev (seg lm_magic 4 m)) m)"
    if "\<forall>off \<in> set offs. (off + 4 \<le> lm_magic \<or> lm_magic + 4 \<le> off) \<and> off + 4 \<le> length m" for offs
    unfolding turn_Cons by (rule turn_at) (use that in auto)
  then have "seg lm_magic 4 (host_hdr m) = to_le 4 LUSTRE_MSG_MAGIC_V2"
    using r assms by (simp add: host_hdr_def hdr_offs_def)
  moreover have "seg lm_magic 4 (host_order m) = seg lm_magic 4 (host_hdr m)"
    unfolding host_order_def using assms(1) by (auto intro!: seg_turn simp: len_offs_def lm_buflens_def)
  ultimately show ?thesis by (simp add: rd32_def)
qed

lemma host_lens:
  "host_order m = (if foreign m then turn (map lm_buflens [0..<0 + msg_count (host_hdr m)]) (host_hdr m) else host_hdr m)"
  by (simp add: host_order_def host_hdr_def len_offs_def)

lemma unpack_cases:
  assumes L: "msg_lib_ok L" and len: "len \<le> int (length m)" and b: "msg_bytes (host_order m) < 2 ^ 31"
  shows "\<exists>rc m'. lustre_unpack_msg L len m = Ret (rc, m') \<and>
    (if int (msg_bytes (host_order m)) \<le> len then rc = (if foreign m then 1 else 0) \<and> m' = host_order m
     else rc = - EINVAL)"
proof -
  let ?h = "host_hdr m" and ?c = "msg_count (host_hdr m)" and ?h' = "host_order m"
  have hb: "hdr_bytes ?c < 2 ^ 31" "hdr_bytes ?c \<le> msg_bytes ?h'" "32 \<le> msg_bytes ?h'"
    using hdr_inside [of ?h'] b by (simp_all add: hdr_bytes_ge)
  have "hdr_bytes 0 = 32" by (simp add: hdr_bytes_def r8_def)
  then have s0: "sint (lustre_msg_hdr_size_v2 L 0) = 32"
    using hdr_size [OF L, of 0] sint_u32 [of 32] by simp
  show ?thesis
  proof (cases "len < 32")
    case True
    then show ?thesis using hb(3) s0
      by (cases "len < 12") (auto simp: lustre_unpack_msg_def lustre_unpack_msg_v2_def)
  next
    case False
    then have lm: "32 \<le> length m" using len by simp
    have hdr: "(if foreign m then swab_all hdr_offs m else Ret m) = Ret ?h"
    proof -
      have "\<forall>off \<in> set hdr_offs. off + 4 \<le> length m" using lm by (simp add: hdr_offs_def)
      then show ?thesis by (simp add: swab_all_eq host_hdr_def)
    qed
    have sz: "lustre_msg_hdr_size_v2 L (rd32 lm_bufcount ?h) = of_nat (hdr_bytes ?c)"
      using hdr_size [OF L, of "rd32 lm_bufcount ?h"] hb(1) by (simp add: msg_count_def)
    have un: "lustre_unpack_msg L len m =
      (if len < int (hdr_bytes ?c) then Ret (- EINVAL, ?h)
       else bindO (unpack_lens L (foreign m) 0 ?c (of_nat (hdr_bytes ?c)) ?h) (\<lambda>(req, m').
         if len < sint req then Ret (- EINVAL, m') else Ret (if foreign m then 1 else 0, m')))"
    proof -
      have ld: "ld32 lm_magic m = Ret (rd32 lm_magic m)" "ld32 lm_bufcount ?h = Ret (rd32 lm_bufcount ?h)"
        using lm by (simp_all add: wire)
      have "\<not> len < 12" "\<not> len < 32" using False by simp_all
      then show ?thesis
        by (simp only: lustre_unpack_msg_def lustre_unpack_msg_v2_def Let_def s0 ld bindO_simps hdr sz
              sint_u32 [OF hb(1)] if_False flip: foreign_def hdr_offs_def msg_count_def)
    qed
    show ?thesis
    proof (cases "len < int (hdr_bytes ?c)")
      case True
      then show ?thesis using un hb(2) by auto
    next
      case False
      then have lc: "32 + 4 * ?c \<le> length m" using len hdr_bytes_ge [of ?c] by linarith
      have "unpack_lens L (foreign m) 0 ?c (of_nat (hdr_bytes ?c)) ?h =
          Ret (of_nat (hdr_bytes ?c) + of_nat (\<Sum>j=0..<0+?c. r8 (msg_len ?h' j)), ?h')"
      proof (rule unpack_lens_eq [OF L _ host_lens])
        fix j assume "j < 0 + ?c"
        then show "r8 (msg_len ?h' j) < 2 ^ 31" using buf_inside [of j ?h'] b by simp
      qed (use lc in simp)
      also have "of_nat (hdr_bytes ?c) + of_nat (\<Sum>j=0..<0+?c. r8 (msg_len ?h' j)) = (of_nat (msg_bytes ?h') :: u32)"
        by (simp add: msg_bytes_def buf_off_def lessThan_atLeast0)
      finally show ?thesis using un False sint_u32 [OF b] by auto
    qed
  qed
qed

section \<open>Strings\<close>

lemma unat_u32_less: "unat (w :: u32) < 2 ^ 32"
  using unsigned_less [of w] by simp

lemma of_nat_u32_0:
  assumes "n < 2 ^ 31"
  shows "(of_nat n :: u32) = 0 \<longleftrightarrow> n = 0"
proof -
  have "unat (of_nat n :: u32) = n" by (rule unat_u32) (use assms in simp)
  then show ?thesis by (cases "n = 0") auto
qed

lemma unat_scast_u32:
  assumes "n < 2 ^ 31"
  shows "unat (scast (of_nat n :: u32) :: u64) = n"
proof -
  have "(scast (of_nat n :: u32) :: u64) = of_int (sint (of_nat n :: u32))" by simp
  also have "\<dots> = of_nat n" using sint_u32 [OF assms] by simp
  also have "unat (of_nat n :: u64) = n" using assms by (intro unat_of_nat_small) simp
  finally show ?thesis .
qed

lemma strnlen_eq: "off + k \<le> length m \<Longrightarrow> strnlen off k m = Ret (length (takeWhile (\<lambda>b. b \<noteq> 0) (seg off k m)))"
proof (induction k arbitrary: off)
  case (Suc k)
  have d: "drop off m = m ! off # drop (Suc off) m" using Suc.prems by (simp add: Cons_nth_drop_Suc)
  then have "load 1 off m = Ret [m ! off]" using Suc.prems by (simp add: wire)
  then show ?case using Suc by (simp add: d)
qed simp

definition string_ok :: "u32 \<Rightarrow> mem \<Rightarrow> bool" where
  "string_ok max_len d \<longleftrightarrow> (let slen = length (takeWhile (\<lambda>b. b \<noteq> 0) d) in
     slen < length d \<and> (if max_len = 0 then Suc slen = length d else slen \<le> unat max_len))"

lemma msg_string:
  assumes "msg_lib_ok L" and "msg_ok m"
  shows "lustre_msg_string L m n max_len = Ret (if unat n < msg_count m \<and> string_ok max_len (buf_data m (unat n))
    then Some (buf_off m (unat n)) else None)"
proof (cases "unat n < msg_count m")
  case False
  then show ?thesis using msg_buf [OF assms, of n 0] msg_buflen [OF assms(2), of n] msg_ok_hdr(6) [OF assms(2)]
    by (simp add: lustre_msg_string_def)
next
  case True
  let ?d = "buf_data m (unat n)" and ?b = "rd32 (lm_buflens (unat n)) m"
  let ?s = "length (takeWhile (\<lambda>b. b \<noteq> 0) ?d)"
  have in_m: "buf_off m (unat n) + unat ?b \<le> length m"
    using buf_inside' [OF True] assms(2) by (simp add: msg_ok_def msg_len_def)
  then have ld: "length ?d = unat ?b" by (simp add: buf_data_def msg_len_def)
  have sl: "strnlen (buf_off m (unat n)) (unat ?b) m = Ret ?s"
    using strnlen_eq [OF in_m] by (simp add: buf_data_def msg_len_def)
  have le: "?s \<le> unat ?b" using length_takeWhile_le [of _ ?d] by (simp add: ld)
  have "(of_nat ?s :: u32) = ?b - 1 \<longleftrightarrow> Suc ?s = unat ?b" if "?s < unat ?b"
  proof -
    have "unat (of_nat ?s :: u32) = ?s" using that unat_u32_less [of ?b] by (simp add: unat_u32)
    moreover have "unat (?b - 1) = unat ?b - 1" using that by (intro unat_minus_one) auto
    ultimately show ?thesis using that by (metis (no_types) Suc_pred' diff_Suc_1 less_nat_zero_code not_gr0 word_eq_iff_unsigned)
  qed
  then show ?thesis
    using True le ld msg_buf [OF assms, of n 0] msg_buflen [OF assms(2), of n] msg_ok_hdr(6) [OF assms(2)] sl
    by (auto simp: lustre_msg_string_def string_ok_def Let_def)
qed

section \<open>Shrinking\<close>

lemma seg_patch_inside:
  assumes "p + length bs \<le> length m" and "p \<le> x" and "x + k \<le> p + length bs"
  shows "seg x k (patch p bs m) = seg (x - p) k bs"
proof (rule nth_equalityI)
  show "length (seg x k (patch p bs m)) = length (seg (x - p) k bs)" using assms by simp
next
  fix i assume "i < length (seg x k (patch p bs m))"
  then have "i < k" "x + i < length m" using assms(1) by auto
  then show "seg x k (patch p bs m) ! i = seg (x - p) k bs ! i"
    using assms by (auto simp: nth_patch)
qed

text \<open>A message with one length replaced.\<close>

definition with_len :: "nat \<Rightarrow> u32 \<Rightarrow> mem \<Rightarrow> mem" where
  "with_len s l m = patch (lm_buflens s) (to_le 4 l) m"

lemma with_len_simps:
  assumes "32 + 4 * msg_count m \<le> length m" and "s < msg_count m"
  shows "length (with_len s l m) = length m" "msg_count (with_len s l m) = msg_count m"
    "rd32 lm_magic (with_len s l m) = rd32 lm_magic m" "rd32 lm_bufcount (with_len s l m) = rd32 lm_bufcount m"
    "msg_len (with_len s l m) i = (if i = s then unat l else msg_len m i)"
    "32 + 4 * msg_count m \<le> x \<Longrightarrow> seg x k (with_len s l m) = seg x k m"
proof -
  have o: "lm_buflens s + 4 \<le> length m" using assms by (simp add: lm_buflens_def)
  then show "length (with_len s l m) = length m" "rd32 lm_bufcount (with_len s l m) = rd32 lm_bufcount m"
    "rd32 lm_magic (with_len s l m) = rd32 lm_magic m"
    by (simp_all add: with_len_def rd32_patch_other lm_buflens_def)
  then show "msg_count (with_len s l m) = msg_count m" by (simp add: msg_count_def)
  have "rd32 (lm_buflens i) (with_len s l m) = (if i = s then l else rd32 (lm_buflens i) m)"
    using o by (auto simp: with_len_def lm_buflens_def intro!: rd32_patch_other)
  then show "msg_len (with_len s l m) i = (if i = s then unat l else msg_len m i)" by (simp add: msg_len_def)
  assume "32 + 4 * msg_count m \<le> x"
  then show "seg x k (with_len s l m) = seg x k m"
    using o assms(2) by (auto simp: with_len_def lm_buflens_def intro!: seg_patch_other)
qed

lemma with_len_off:
  assumes "32 + 4 * msg_count m \<le> length m" and "s < msg_count m" and "unat l \<le> msg_len m s"
  shows "n \<le> s \<Longrightarrow> buf_off (with_len s l m) n = buf_off m n"
    "s < n \<Longrightarrow> buf_off (with_len s l m) n + (r8 (msg_len m s) - r8 (unat l)) = buf_off m n"
    "msg_bytes (with_len s l m) + (r8 (msg_len m s) - r8 (unat l)) = msg_bytes m"
proof -
  note w = with_len_simps [OF assms(1,2)]
  show le: "n \<le> s \<Longrightarrow> buf_off (with_len s l m) n = buf_off m n" for n
    by (simp add: buf_off_def w)
  have r: "r8 (unat l) \<le> r8 (msg_len m s)" using assms(3) by (rule r8_mono)
  show gt: "s < n \<Longrightarrow> buf_off (with_len s l m) n + (r8 (msg_len m s) - r8 (unat l)) = buf_off m n" for n
  proof (induction n)
    case (Suc n)
    show ?case
    proof (cases "n = s")
      case True
      then show ?thesis using r le [of s] by (simp add: buf_off_Suc w)
    next
      case False
      then show ?thesis using Suc by (simp add: buf_off_Suc w)
    qed
  qed simp
  show "msg_bytes (with_len s l m) + (r8 (msg_len m s) - r8 (unat l)) = msg_bytes m"
    using gt [OF assms(2)] by (simp add: msg_bytes_def w)
qed

text \<open>The buffers behind the shrunk one moved forward.\<close>

definition shrunk :: "nat \<Rightarrow> u32 \<Rightarrow> mem \<Rightarrow> mem" where
  "shrunk s l m =
     (let m1 = with_len s l m; tail = buf_off m (Suc s)
      in patch (buf_off m1 (Suc s)) (seg tail (msg_bytes m - tail) m1) m1)"

lemma shrunk_facts:
  assumes ok: "msg_ok m" and s: "s < msg_count m" and l: "unat l \<le> msg_len m s"
  shows "length (shrunk s l m) = length m" "msg_count (shrunk s l m) = msg_count m"
    "msg_ok (shrunk s l m)" "msg_bytes (shrunk s l m) + (r8 (msg_len m s) - r8 (unat l)) = msg_bytes m"
    "i < msg_count m \<Longrightarrow> msg_len (shrunk s l m) i = (if i = s then unat l else msg_len m i)"
    "i < msg_count m \<Longrightarrow> buf_data (shrunk s l m) i = (if i = s then take (unat l) (buf_data m s) else buf_data m i)"
proof -
  let ?m1 = "with_len s l m" and ?t = "buf_off m (Suc s)" and ?k = "msg_bytes m - buf_off m (Suc s)"
  let ?p = "buf_off (with_len s l m) (Suc s)" and ?m2 = "shrunk s l m"
  note o = msg_ok_hdr [OF ok]
  note w = with_len_simps [OF o(1) s, where l = l]
  note f = with_len_off [OF o(1) s l]
  have t: "?t \<le> msg_bytes m" using buf_off_mono [of "Suc s" "msg_count m" m] s by (simp add: msg_bytes_def)
  have mb: "msg_bytes m \<le> length m" using ok by (simp add: msg_ok_def)
  have p: "?p \<le> ?t" using f(2) [of "Suc s"] by simp
  have lk: "length (seg ?t ?k ?m1) = ?k" using mb t by (simp add: w)
  then have fit: "?p + length (seg ?t ?k ?m1) \<le> length ?m1" using p t mb by (simp add: w)
  have hp: "32 + 4 * msg_count m \<le> buf_off ?m1 n" for n
    using hdr_bytes_ge [of "msg_count m"] by (simp add: buf_off_def w)
  have m2: "?m2 = patch ?p (seg ?t ?k ?m1) ?m1" by (simp add: shrunk_def Let_def)
  show lm2: "length ?m2 = length m" using fit by (simp add: m2 w)
  have same: "seg x n ?m2 = seg x n ?m1" if "x + n \<le> ?p" for x n
    unfolding m2 by (rule seg_patch_other [OF fit]) (use that in simp)
  have hdr: "rd32 x ?m2 = rd32 x ?m1" if "x + 4 \<le> 32 + 4 * msg_count m" for x
    by (rule rd32_cong, rule same) (use that hp [of "Suc s"] in linarith)
  show c: "msg_count ?m2 = msg_count m" using hdr [of lm_bufcount] w(2) by (simp add: msg_count_def)
  have ln: "msg_len ?m2 i = msg_len ?m1 i" if "i < msg_count m" for i
    using hdr [of "lm_buflens i"] that by (simp add: msg_len_def lm_buflens_def)
  then show "i < msg_count m \<Longrightarrow> msg_len ?m2 i = (if i = s then unat l else msg_len m i)" by (simp add: w)
  have off: "buf_off ?m2 n = buf_off ?m1 n" if "n \<le> msg_count m" for n
    using that ln by (simp add: buf_off_def c w)
  then have b: "msg_bytes ?m2 = msg_bytes ?m1" by (simp add: msg_bytes_def c w)
  then show bytes: "msg_bytes ?m2 + (r8 (msg_len m s) - r8 (unat l)) = msg_bytes m" using f(3) by simp
  have "rd32 lm_magic ?m2 = LUSTRE_MSG_MAGIC_V2" using hdr [of lm_magic] w(3) o(3) by simp
  then show "msg_ok ?m2" using ok bytes lm2 by (simp add: msg_ok_def)
  assume i: "i < msg_count m"
  have in1: "buf_off ?m1 i + msg_len ?m1 i \<le> buf_off ?m1 (Suc i)" by (simp add: buf_off_Suc)
  show "buf_data ?m2 i = (if i = s then take (unat l) (buf_data m s) else buf_data m i)"
  proof (cases "i \<le> s")
    case True
    then have "buf_off ?m1 (Suc i) \<le> ?p" using buf_off_mono [of "Suc i" "Suc s" ?m1] by simp
    then have "buf_data ?m2 i = seg (buf_off ?m1 i) (msg_len ?m1 i) ?m1"
      using same [of "buf_off ?m1 i" "msg_len ?m1 i"] in1 off [of i] ln [OF i] i by (simp add: buf_data_def)
    also have "\<dots> = seg (buf_off m i) (msg_len ?m1 i) m"
      using w(6) [OF hp [of i]] f(1) [OF True] by simp
    finally show ?thesis using l by (auto simp: w buf_data_def min_def)
  next
    case False
    let ?d = "r8 (msg_len m s) - r8 (unat l)"
    have oi: "buf_off ?m1 i + ?d = buf_off m i" "?p + ?d = ?t" using f(2) False by simp_all
    have ge: "?p \<le> buf_off ?m1 i" using buf_off_mono [of "Suc s" i ?m1] False by simp
    have "buf_off m i + msg_len m i \<le> msg_bytes m" by (rule buf_inside' [OF i])
    then have "buf_off ?m1 i + msg_len m i \<le> ?p + ?k" using oi by linarith
    then have "seg (buf_off ?m1 i) (msg_len m i) ?m2 = seg (buf_off ?m1 i - ?p) (msg_len m i) (seg ?t ?k ?m1)"
      unfolding m2 by (intro seg_patch_inside [OF fit ge]) (simp only: lk)
    also have "\<dots> = seg (buf_off m i) (msg_len m i) ?m1"
    proof -
      have "?t + (buf_off ?m1 i - ?p) = buf_off m i" using oi ge by linarith
      moreover have "msg_len m i \<le> ?k - (buf_off ?m1 i - ?p)"
        using oi ge \<open>buf_off m i + msg_len m i \<le> msg_bytes m\<close> by linarith
      ultimately show ?thesis by (simp add: drop_take min_def add.commute)
    qed
    also have "\<dots> = seg (buf_off m i) (msg_len m i) m"
      by (rule w(6)) (use hdr_bytes_ge [of "msg_count m"] in \<open>simp add: buf_off_def\<close>)
    finally show ?thesis using False off [of i] ln [OF i] i by (simp add: buf_data_def w)
  qed
qed


lemma patch_Nil [simp]: "patch off [] m = m"
  by (simp add: patch_def)

lemma with_len_id:
  assumes "32 + 4 * msg_count m \<le> length m" and "s < msg_count m" and "rd32 (lm_buflens s) m = l"
  shows "with_len s l m = m"
proof -
  have o: "lm_buflens s + 4 \<le> length m" using assms(1,2) by (simp add: lm_buflens_def)
  then have len: "length (seg (lm_buflens s) 4 m) = 4" by simp
  have "to_le 4 l = seg (lm_buflens s) 4 m"
    using to_le_of_le [of "seg (lm_buflens s) 4 m", where 'a = 32] assms(3) unfolding len by (simp add: rd32_def)
  then show ?thesis using patch_self [OF o] by (simp add: with_len_def)
qed

lemma with_len_ok:
  assumes "msg_ok m" and "s < msg_count m" and "unat l \<le> msg_len m s"
  shows "msg_ok (with_len s l m)"
proof -
  note o = msg_ok_hdr [OF assms(1)]
  show ?thesis using assms(1) with_len_off(3) [OF o(1) assms(2,3)] with_len_simps [OF o(1) assms(2), where l = l]
    by (simp add: msg_ok_def)
qed

lemma shrunk_tail:
  assumes "msg_bytes m = buf_off m (Suc s) \<or> buf_off (with_len s l m) (Suc s) = buf_off m (Suc s)"
    and "msg_ok m" and "s < msg_count m"
  shows "shrunk s l m = with_len s l m"
proof -
  have "buf_off m (Suc s) \<le> msg_bytes m"
    using buf_off_mono [of "Suc s" "msg_count m" m] assms(3) by (simp add: msg_bytes_def)
  then show ?thesis
    using assms with_len_simps(1) [OF msg_ok_hdr(1) [OF assms(2)] assms(3), of l]
    by (auto simp: shrunk_def Let_def msg_ok_def intro!: patch_self)
qed

text \<open>\<open>lustre_shrink_msg_v2\<close> with \<open>move_data\<close> computes \<open>shrunk\<close> and returns the new size.\<close>

lemma shrink_msg_ok:
  assumes L: "msg_lib_ok L" and ok: "msg_ok m" and s: "unat segment < msg_count m"
    and l: "unat newlen \<le> msg_len m (unat segment)"
  shows "lustre_shrink_msg_v2 L m segment newlen True =
    Ret (int (msg_bytes (shrunk (unat segment) newlen m)), shrunk (unat segment) newlen m)"
proof -
  let ?s = "unat segment" and ?c = "rd32 lm_bufcount m" and ?m1 = "with_len (unat segment) newlen m"
  let ?m2 = "shrunk (unat segment) newlen m" and ?t = "buf_off m (Suc (unat segment))"
  let ?k = "msg_bytes m - buf_off m (Suc (unat segment))"
  note o = msg_ok_hdr [OF ok]
  note f = shrunk_facts [OF ok s l]
  have ok1: "msg_ok ?m1" by (rule with_len_ok [OF ok s l])
  note c1 = with_len_simps(2) [OF o(1) s, of newlen]
  have t: "?t \<le> msg_bytes m" using buf_off_mono [of "Suc ?s" "msg_count m" m] s by (simp add: msg_bytes_def)
  have "msg_count m < 2 ^ 31" using o(2) hdr_inside(2) [of m] by linarith
  then have s1: "unat (segment + 1) = Suc ?s" using s by (simp add: unat_word_ariths)
  have cnt: "unat ?c = msg_count m" by (simp add: msg_count_def)
  have g: "?c > segment" "?c > segment + 1 \<longleftrightarrow> Suc ?s < msg_count m"
    "rd32 (lm_buflens ?s) m \<ge> newlen" "buflens m ?s = Ret (rd32 (lm_buflens ?s) m)"
    using s l s1 cnt buflens_eq [OF o(1) s] by (simp_all add: u32_nat msg_len_def)
  have st: "st32 (lm_buflens ?s) newlen m = Ret ?m1"
    using o(1) s by (simp add: wire with_len_def lm_buflens_def)
  have tail: "lustre_msg_buf_v2 L m (segment + 1) 0 = Ret (Some ?t)"
    "lustre_msg_buf_v2 L ?m1 (segment + 1) 0 = Ret (Some (buf_off ?m1 (Suc ?s)))" if "Suc ?s < msg_count m"
    using msg_buf [OF L ok, of "segment + 1" 0] msg_buf [OF L ok1, of "segment + 1" 0] that s1 c1 by simp_all
  have tl: "add_lens L (buflens m) (Suc ?s) (msg_count m - Suc ?s) 0 = Ret (of_nat ?k)"
    using msg_add_lens [OF L o(2,1), of "Suc ?s" "msg_count m - Suc ?s" 0] s by (simp add: msg_bytes_def)
  have k: "?k < 2 ^ 31" using o(2) by simp
  note k0 = of_nat_u32_0 [OF k] and ks = unat_scast_u32 [OF k]
  have tl': "shrink_tail L m ?c segment True = Ret (if Suc ?s < msg_count m then (Some ?t, of_nat ?k) else (None, 0))"
    using g(2) tail(1) tl s1 cnt by (simp add: shrink_tail_def)
  have mv: "shrink_move L ?m1 segment ?t (of_nat ?k) = Ret ?m2" if "Suc ?s < msg_count m"
  proof (cases "buf_off ?m1 (Suc ?s) = ?t")
    case True
    then show ?thesis using tail(2) [OF that] shrunk_tail [OF _ ok s, of newlen] by (simp add: shrink_move_def)
  next
    case False
    have "buf_off ?m1 (Suc ?s) \<le> ?t" using with_len_off(2) [OF o(1) s l, of "Suc ?s"] by simp
    moreover have "memmove (buf_off ?m1 (Suc ?s)) ?t ?k ?m1 = Ret ?m2"
      using calculation t ok with_len_simps(1) [OF o(1) s, of newlen]
      by (simp add: memmove_eq shrunk_def Let_def msg_ok_def)
    ultimately show ?thesis using tail(2) [OF that] False ks by (simp add: shrink_move_def)
  qed
  have "(if rd32 (lm_buflens ?s) m = newlen then Ret m
     else bindO (shrink_tail L m ?c segment True) (\<lambda>(tail, tail_len).
       bindO (st32 (lm_buflens ?s) newlen m) (\<lambda>m.
         case tail of None \<Rightarrow> Ret m
         | Some tail \<Rightarrow> if tail_len = 0 then Ret m else shrink_move L m segment tail tail_len))) = Ret ?m2"
  proof (cases "rd32 (lm_buflens ?s) m = newlen")
    case True
    then have "?m1 = m" by (rule with_len_id [OF o(1) s])
    then show ?thesis using True shrunk_tail [OF _ ok s, of newlen] by simp
  next
    case False
    have "?m2 = ?m1" if "\<not> (Suc ?s < msg_count m \<and> ?k \<noteq> 0)"
    proof -
      have "Suc ?s = msg_count m" if "\<not> Suc ?s < msg_count m" using that s by simp
      then have "msg_bytes m = ?t" using that t by (auto simp: msg_bytes_def)
      then show ?thesis by (intro shrunk_tail [OF _ ok s]) simp
    qed
    then show ?thesis using False tl' st mv k0 by auto
  qed
  then show ?thesis
    using g(1,3,4) o(5) msg_ok_hdr(5) [OF f(3)] msg_size [OF L f(3)] sint_u32 [OF msg_ok_hdr(2) [OF f(3)]]
    by (simp add: lustre_shrink_msg_v2_def)
qed

section \<open>Messages of a host with the other byte order\<close>

definition aligned :: "nat list \<Rightarrow> mem \<Rightarrow> bool" where
  "aligned offs m \<longleftrightarrow> distinct offs \<and> (\<forall>off \<in> set offs. 4 dvd off \<and> off + 4 \<le> length m)"

lemma block:
  assumes "4 dvd (off :: nat)"
  shows "off \<le> i \<and> i < off + 4 \<longleftrightarrow> 4 * (i div 4) = off"
  using assms by (auto elim!: dvdE)

text \<open>Reversing the bytes of a block of four.\<close>

abbreviation mirror :: "nat \<Rightarrow> nat" where
  "mirror i \<equiv> 4 * (i div 4) + 3 - i mod 4"

lemma mirror:
  "mirror i div 4 = i div 4" "mirror i mod 4 = 3 - i mod 4" "mirror i < 4 * (i div 4) + 4" "mirror (mirror i) = i"
proof -
  have m: "i mod 4 \<le> 3" using mod_less_divisor [of 4 i] by linarith
  then have e: "mirror i = (3 - i mod 4) + 4 * (i div 4)" by linarith
  show d: "mirror i div 4 = i div 4" "mirror i mod 4 = 3 - i mod 4" unfolding e
    by (simp_all only: div_mult_self2 mod_mult_self2) simp_all
  show "mirror i < 4 * (i div 4) + 4" by linarith
  show "mirror (mirror i) = i" unfolding d using m by simp
qed

lemma nth_turn:
  assumes "aligned offs m" and "i < length m"
  shows "turn offs m ! i = (if 4 * (i div 4) \<in> set offs then m ! (4 * (i div 4) + 3 - i mod 4) else m ! i)"
  using assms
proof (induction offs arbitrary: m)
  case (Cons off offs)
  let ?m = "patch off (rev (seg off 4 m)) m"
  have a: "4 dvd off" "off + 4 \<le> length m" "off \<notin> set offs" "aligned offs ?m"
    using Cons.prems(1) by (auto simp: aligned_def)
  have at: "?m ! j = (if 4 * (j div 4) = off then m ! (4 * (j div 4) + 3 - j mod 4) else m ! j)" if "j < length m" for j
  proof (cases "4 * (j div 4) = off")
    case True
    then have j: "off \<le> j" "j < off + 4" using block [OF a(1), of j] by simp_all
    have jm: "j mod 4 = j - off" using True by (metis minus_mult_div_eq_mod)
    have "?m ! j = rev (seg off 4 m) ! (j - off)" using a(2) j that by (simp add: nth_patch)
    also have "\<dots> = m ! (off + (3 - (j - off)))" using a(2) j by (simp add: rev_nth)
    finally show ?thesis using True j jm by simp
  next
    case False
    then show ?thesis using a(2) that block [OF a(1), of j] by (auto simp: nth_patch)
  qed
  have ih: "turn offs ?m ! i = (if 4 * (i div 4) \<in> set offs then ?m ! (4 * (i div 4) + 3 - i mod 4) else ?m ! i)"
    using Cons.IH [OF a(4)] Cons.prems(2) by simp
  show ?case
  proof (cases "4 * (i div 4) \<in> set offs")
    case True
    have "4 * (i div 4) + 4 \<le> length m" using True a(4) by (auto simp: aligned_def)
    then show ?thesis using ih True a(3) at [of "mirror i"] mirror(1,3) [of i] by (auto simp: turn_Cons)
  next
    case False
    then show ?thesis using ih at [OF Cons.prems(2)] by (auto simp: turn_Cons)
  qed
qed simp

lemma turn_turn:
  assumes "aligned offs m"
  shows "turn offs (turn offs m) = m"
proof (rule nth_equalityI)
  fix i assume "i < length (turn offs (turn offs m))"
  then have i: "i < length m" by simp
  have "aligned offs (turn offs m)" using assms by (simp add: aligned_def)
  then have t: "turn offs (turn offs m) ! i = (if 4 * (i div 4) \<in> set offs then turn offs m ! mirror i else turn offs m ! i)"
    using nth_turn i by simp
  show "turn offs (turn offs m) ! i = m ! i"
  proof (cases "4 * (i div 4) \<in> set offs")
    case True
    then have "4 * (i div 4) + 4 \<le> length m" using assms by (auto simp: aligned_def)
    then have "turn offs m ! mirror i = m ! mirror (mirror i)"
      using nth_turn [OF assms, of "mirror i"] True mirror(1,3) [of i] by simp
    then show ?thesis using t True mirror(4) [of i] by simp
  next
    case False
    then show ?thesis using t nth_turn [OF assms i] by simp
  qed
qed simp

text \<open>The image of a message in the other byte order.\<close>

definition as_foreign :: "mem \<Rightarrow> mem" where
  "as_foreign m = turn hdr_offs (turn (len_offs (msg_count m)) m)"

lemma aligned_hdr: "32 \<le> length m \<Longrightarrow> aligned hdr_offs m"
  by (simp add: aligned_def hdr_offs_def)

lemma aligned_lens: "32 + 4 * n \<le> length m \<Longrightarrow> aligned (len_offs n) m"
  by (auto simp: aligned_def len_offs_def lm_buflens_def distinct_map inj_on_def)

lemma as_foreign_magic:
  assumes "msg_ok m"
  shows "foreign (as_foreign m)"
proof -
  note o = msg_ok_hdr [OF assms]
  let ?m = "turn (len_offs (msg_count m)) m"
  have len: "length (seg lm_magic 4 m) = 4" using o(4) by simp
  have "seg lm_magic 4 m = to_le 4 LUSTRE_MSG_MAGIC_V2"
    using to_le_of_le [of "seg lm_magic 4 m", where 'a = 32] o(3) unfolding len by (simp add: rd32_def)
  moreover have "seg lm_magic 4 ?m = seg lm_magic 4 m"
    by (rule seg_turn) (auto simp: len_offs_def lm_buflens_def)
  ultimately have r: "rev (seg lm_magic 4 ?m) = to_le 4 LUSTRE_MSG_MAGIC_V2_SWABBED"
    by (simp only:) code_simp
  have "seg lm_magic 4 (as_foreign m) = seg lm_magic 4 (patch lm_magic (rev (seg lm_magic 4 ?m)) ?m)"
    unfolding as_foreign_def hdr_offs_def turn_Cons [of lm_magic] by (rule turn_at) (use o(4) in auto)
  then show ?thesis using r o(4) by (simp add: foreign_def rd32_def)
qed

lemma as_foreign_host:
  assumes "msg_ok m"
  shows "host_order (as_foreign m) = m"
proof -
  note o = msg_ok_hdr [OF assms]
  let ?m = "turn (len_offs (msg_count m)) m"
  have "host_hdr (as_foreign m) = ?m"
    using as_foreign_magic [OF assms] turn_turn [of hdr_offs ?m] aligned_hdr [of ?m] o(4)
    by (simp add: host_hdr_def as_foreign_def)
  then show ?thesis
    using as_foreign_magic [OF assms] turn_turn [of "len_offs (msg_count m)" m] aligned_lens [OF o(1)]
    by (simp add: host_order_def)
qed

lemma length_as_foreign [simp]: "length (as_foreign m) = length m"
  by (simp add: as_foreign_def)

end
