(* ===== verification/Msg_Props.thy ===== *)
theory Msg_Props
  imports Msg_Wire
begin

text \<open>
  The properties of the message format: a message is accepted exactly when all of it was
  received, packing and unpacking are inverse to each other on hosts of either byte order,
  shrinking keeps the other buffers. The one thing the unpacking does not check is that its
  own size computation does not wrap around.
\<close>

text \<open>
  C4: a received message is accepted exactly when all of it is there. The header, in either byte
  order, is read without leaving the message; it is accepted when the header and the buffers it
  announces fit in the \<open>len\<close> bytes received, and then every buffer \<open>lustre_msg_buf\<close> returns lies
  inside them. The sizes must not wrap around (\<open>msg_bytes ... < 2 ^ 31\<close>).
\<close>

theorem unpack_accepts_complete:
  assumes "msg_lib_ok L" and "len \<le> int (length m)" and "msg_bytes (host_order m) < 2 ^ 31"
    and "rd32 lm_magic m = LUSTRE_MSG_MAGIC_V2 \<or> foreign m"
  shows "\<exists>rc m'. lustre_unpack_msg L len m = Ret (rc, m') \<and>
    (if int (msg_bytes (host_order m)) \<le> len
     then rc = (if foreign m then 1 else 0) \<and> m' = host_order m \<and>
       (\<forall>n k. \<exists>buf. lustre_msg_buf L m' n k = Ret buf \<and>
          (case buf of None \<Rightarrow> msg_count m' \<le> unat n \<or> msg_len m' (unat n) < unat k
           | Some off \<Rightarrow> int (off + msg_len m' (unat n)) \<le> len))
     else rc = - EINVAL)"
proof -
  let ?h = "host_order m"
  obtain rc m' where u: "lustre_unpack_msg L len m = Ret (rc, m')"
    and r: "if int (msg_bytes ?h) \<le> len then rc = (if foreign m then 1 else 0) \<and> m' = ?h else rc = - EINVAL"
    using unpack_cases [OF assms(1-3)] by blast
  have "\<exists>buf. lustre_msg_buf L ?h n k = Ret buf \<and>
      (case buf of None \<Rightarrow> msg_count ?h \<le> unat n \<or> msg_len ?h (unat n) < unat k
       | Some off \<Rightarrow> int (off + msg_len ?h (unat n)) \<le> len)" if le: "int (msg_bytes ?h) \<le> len" for n k
  proof -
    have len: "msg_bytes ?h \<le> length ?h" using le assms(2) by simp
    then have l32: "32 \<le> length m" using hdr_inside(2) [of ?h] by simp
    have "rd32 lm_magic ?h = LUSTRE_MSG_MAGIC_V2"
      using assms(4) foreign_magic [OF _ l32] by (cases "foreign m") (simp_all add: host_order_def)
    then have ok: "msg_ok ?h" using len assms(3) by (simp add: msg_ok_def)
    show ?thesis
      using msg_buf [OF assms(1) ok, of n k] msg_ok_hdr(6) [OF ok] buf_inside' [of "unat n" ?h] le
      by (auto simp: lustre_msg_buf_def)
  qed
  then show ?thesis using u r by (auto split: if_splits)
qed

text \<open>A concrete library for the witnesses.\<close>

definition sample_msg_lib :: msg_lib where
  "sample_msg_lib = \<lparr>
     cfs_size_round = (\<lambda>w. of_nat (8 * ((unat w + 7) div 8))),
     LOGL = (\<lambda>buf w ptr m. Ret (ptr + unat (of_nat (8 * ((unat w + 7) div 8)) :: u32),
       case buf of None \<Rightarrow> m | Some b \<Rightarrow> patch ptr (take (unat w) b) m))\<rparr>"

lemma sample_msg_lib_ok: "msg_lib_ok sample_msg_lib"
proof -
  have "unat (of_nat (8 * ((unat w + 7) div 8)) :: u32) = 8 * ((unat w + 7) div 8)" if "unat w + 7 < 2 ^ 31" for w :: u32
    by (rule unat_u32) (use that in simp)
  then show ?thesis by (simp add: msg_lib_ok_def sample_msg_lib_def r8_def)
qed

text \<open>A message with one buffer of five bytes.\<close>

definition sample_msg :: mem where
  "sample_msg = to_le 4 (1 :: u32) @ replicate 4 0 @ to_le 4 LUSTRE_MSG_MAGIC_V2 @ replicate 20 0 @
     to_le 4 (5 :: u32) @ replicate 4 0 @ [1, 2, 3, 4, 0, 0, 0, 0]"

lemma sample_msg_facts:
  "length sample_msg = 48" "rd32 lm_bufcount sample_msg = 1" "rd32 lm_magic sample_msg = LUSTRE_MSG_MAGIC_V2"
  "rd32 (lm_buflens 0) sample_msg = 5" "host_order sample_msg = sample_msg" "msg_bytes sample_msg = 48"
  by code_simp+

theorem unpack_accepts_complete_witness:
  "\<exists>rc m'. lustre_unpack_msg sample_msg_lib 48 sample_msg = Ret (rc, m') \<and> rc = 0 \<and> m' = sample_msg"
  using unpack_accepts_complete [of sample_msg_lib 48 sample_msg] sample_msg_lib_ok sample_msg_facts
  by (auto simp: foreign_def)

lemma sample_msg_ok: "msg_ok sample_msg"
  using sample_msg_facts by (simp add: msg_ok_def)

text \<open>
  C17: packing and unpacking. A message with any number of buffers, packed into an allocation of
  the size \<open>lustre_msg_size_v2\<close> computes, is accepted by the receiver as it is, and each buffer
  has the announced length and the bytes the sender gave.
\<close>

theorem pack_unpack:
  assumes "msg_lib_ok L" and "lens_bytes lens < 2 ^ 31" and "length m = lens_bytes lens" and "bufs_fit lens bufs"
  shows "lustre_msg_size_v2 L (int (length lens)) (arr lens) = Ret (of_nat (length m)) \<and>
    (\<exists>m'. lustre_init_msg_v2 L (int (length lens)) lens (Some bufs) m = Ret m' \<and>
       lustre_unpack_msg L (int (length m)) m' = Ret (0, m') \<and>
       lustre_msg_bufcount m' = Ret (of_nat (length lens)) \<and>
       (\<forall>i < length lens. lustre_msg_buflen m' (of_nat i) = Ret (lens ! i) \<and>
          (\<exists>off. lustre_msg_buf L m' (of_nat i) 0 = Ret (Some off) \<and>
             (\<forall>d. bufs ! i = Some d \<longrightarrow> load (unat (lens ! i)) off m' = Ret (take (unat (lens ! i)) d)))))"
proof -
  let ?n = "length lens"
  obtain m' where i: "lustre_init_msg_v2 L (int ?n) lens (Some bufs) m = Ret m'" and lm: "length m' = length m"
    and ok: "msg_ok m'" and b: "msg_bytes m' = lens_bytes lens" and c: "msg_count m' = ?n"
    and d: "\<And>j. j < ?n \<Longrightarrow> msg_len m' j = unat (lens ! j)"
      "\<And>j x. j < ?n \<Longrightarrow> bufs ! j = Some x \<Longrightarrow> buf_data m' j = take (unat (lens ! j)) x"
    using init_msg_ok [OF assms(1,2) _ assms(4), of m] assms(3) by auto
  note o = msg_ok_hdr [OF ok]
  have nf: "\<not> foreign m'" using o(3) by (simp add: foreign_def)
  then have "lustre_unpack_msg L (int (length m)) m' = Ret (0, m')"
    using unpack_cases [OF assms(1), of "int (length m)" m'] b lm assms(2,3) by (auto simp: host_order_def)
  moreover have "?n < 2 ^ 31" using c o(2) hdr_inside(2) [of m'] by linarith
  then have u: "unat (of_nat j :: u32) = j" if "j < ?n" for j using that by (simp add: unat_u32)
  have "lustre_msg_buflen m' (of_nat j) = Ret (lens ! j)" if "j < ?n" for j
  proof -
    have "rd32 (lm_buflens j) m' = lens ! j" using d(1) [OF that] by (auto simp: msg_len_def intro: unsigned_word_eqI)
    then show ?thesis using msg_buflen [OF ok, of "of_nat j"] o(6) u [OF that] that c
      by (simp add: lustre_msg_buflen_def)
  qed
  moreover have "lustre_msg_buf L m' (of_nat j) 0 = Ret (Some (buf_off m' j)) \<and>
      (\<forall>x. bufs ! j = Some x \<longrightarrow> load (unat (lens ! j)) (buf_off m' j) m' = Ret (take (unat (lens ! j)) x))"
    if "j < ?n" for j
    using msg_buf [OF assms(1) ok, of "of_nat j" 0] o(6) u [OF that] that c d [OF that] buf_inside' [of j m'] b lm assms(3)
    by (auto simp: lustre_msg_buf_def load_eq buf_data_def)
  moreover have "lustre_msg_bufcount m' = Ret (of_nat ?n)"
  proof -
    have "of_nat (msg_count m') = rd32 lm_bufcount m'" by (simp add: msg_count_def)
    then show ?thesis using o(5,6) c by (simp add: lustre_msg_bufcount_def)
  qed
  ultimately show ?thesis using i lens_size [OF assms(1,2)] assms(3) by auto
qed

theorem pack_unpack_witness:
  "\<exists>m'. lustre_init_msg_v2 sample_msg_lib 2 [3, 9] (Some [Some [7, 8, 9], Some (replicate 9 5)]) (replicate 64 0) = Ret m' \<and>
     lustre_unpack_msg sample_msg_lib 64 m' = Ret (0, m')"
proof -
  have "lens_bytes [3, 9] = 64" "bufs_fit [3, 9] [Some [7, 8, 9], Some (replicate 9 5)]" by code_simp+
  then show ?thesis
    using pack_unpack [of sample_msg_lib "[3, 9]" "replicate 64 0" "[Some [7, 8, 9], Some (replicate 9 5)]"] sample_msg_lib_ok
    by auto
qed

text \<open>
  a message from a host with the other byte order, header and lengths reversed word by word,
  is recognised by its magic number and unpacked to the very message the sender wrote.
\<close>

theorem foreign_message_unpacked:
  assumes "msg_lib_ok L" and "msg_ok m"
  shows "lustre_unpack_msg L (int (msg_bytes m)) (as_foreign m) = Ret (1, m)"
  using unpack_cases [OF assms(1), of "int (msg_bytes m)" "as_foreign m"] as_foreign_magic [OF assms(2)]
    as_foreign_host [OF assms(2)] assms(2) by (auto simp: msg_ok_def)

theorem foreign_message_unpacked_witness:
  "lustre_unpack_msg sample_msg_lib 48 (as_foreign sample_msg) = Ret (1, sample_msg)"
  using foreign_message_unpacked [OF sample_msg_lib_ok sample_msg_ok] sample_msg_facts(6) by simp

text \<open>
  shrinking a buffer. \<open>lustre_shrink_msg\<close> with \<open>move_data\<close> cuts the buffer to its first
  \<open>newlen\<close> bytes and keeps the contents of every other buffer; it returns the size of the new
  message, which is sound again and saves the bytes that are no longer needed.
\<close>

theorem shrink_keeps_buffers:
  assumes "msg_lib_ok L" and "msg_ok m" and "segment < msg_count m" and "unat newlen \<le> msg_len m segment"
  shows "\<exists>m'. lustre_shrink_msg L m (int segment) newlen True = Ret (int (msg_bytes m'), m') \<and>
    msg_ok m' \<and> length m' = length m \<and> msg_count m' = msg_count m \<and>
    msg_bytes m' + (r8 (msg_len m segment) - r8 (unat newlen)) = msg_bytes m \<and>
    (\<forall>i < msg_count m. buf_data m' i = (if i = segment then take (unat newlen) (buf_data m i) else buf_data m i))"
proof -
  note o = msg_ok_hdr [OF assms(2)]
  have "segment < 2 ^ 31" using assms(3) o(2) hdr_inside(2) [of m] by linarith
  then have u: "unat (of_nat segment :: u32) = segment" by (simp add: unat_u32)
  have "lustre_shrink_msg L m (int segment) newlen True =
      Ret (int (msg_bytes (shrunk segment newlen m)), shrunk segment newlen m)"
    using shrink_msg_ok [OF assms(1,2), of "of_nat segment" newlen] assms(3,4) u o(6)
    by (simp add: lustre_shrink_msg_def)
  then show ?thesis using shrunk_facts [OF assms(2-4)] by auto
qed

theorem shrink_keeps_buffers_witness:
  "\<exists>m'. lustre_shrink_msg sample_msg_lib sample_msg 0 2 True = Ret (int (msg_bytes m'), m') \<and>
     msg_ok m' \<and> buf_data m' 0 = [1, 2]"
proof -
  have "msg_count sample_msg = 1" "msg_len sample_msg 0 = 5" "take 2 (buf_data sample_msg 0) = [1, 2]" by code_simp+
  then show ?thesis
    using shrink_keeps_buffers [OF sample_msg_lib_ok sample_msg_ok, of 0 2] by auto
qed

text \<open>
  \<open>lustre_msg_string\<close> on a sound message. It never reads outside the buffer, and returns it
  exactly when it exists, holds a terminating NUL, and the string fills the buffer (for
  \<open>max_len\<close> 0) or has at most \<open>max_len\<close> characters.
\<close>

theorem msg_string_checked:
  assumes "msg_lib_ok L" and "msg_ok m"
  shows "lustre_msg_string L m n max_len =
    Ret (if unat n < msg_count m \<and> string_ok max_len (buf_data m (unat n)) then Some (buf_off m (unat n)) else None)"
  using assms by (rule msg_string)

theorem msg_string_checked_witness:
  "lustre_msg_string sample_msg_lib sample_msg 0 0 = Ret (Some 40)"
proof -
  have "msg_count sample_msg = 1" "string_ok 0 (buf_data sample_msg 0)" "buf_off sample_msg 0 = 40" by code_simp+
  then show ?thesis using msg_string_checked [OF sample_msg_lib_ok sample_msg_ok, of 0 0] by simp
qed

text \<open>
  The computation of the required size wraps around: a message of 40 bytes that announces two
  buffers of nearly \<open>2 ^ 31\<close> bytes each is accepted, and the second buffer starts 2 GiB behind it.
\<close>

definition huge_msg :: mem where
  "huge_msg = to_le 4 (2 :: u32) @ replicate 4 0 @ to_le 4 LUSTRE_MSG_MAGIC_V2 @ replicate 20 0 @
     to_le 4 (0x7FFFFFF0 :: u32) @ to_le 4 (0x7FFFFFF0 :: u32)"

lemma huge_msg_facts:
  "length huge_msg = 40" "rd32 lm_bufcount huge_msg = 2" "rd32 lm_magic huge_msg = LUSTRE_MSG_MAGIC_V2"
  "rd32 (lm_buflens 0) huge_msg = 0x7FFFFFF0" "rd32 (lm_buflens 1) huge_msg = 0x7FFFFFF0"
  by code_simp+

theorem unpack_accepts_huge:
  assumes "msg_lib_ok L"
  shows "lustre_unpack_msg L 40 huge_msg = Ret (0, huge_msg) \<and>
    lustre_msg_buf L huge_msg 1 1 = Ret (Some (40 + 0x7FFFFFF0)) \<and> length huge_msg = 40"
proof -
  note h = huge_msg_facts
  have bl: "buflens huge_msg 0 = Ret 0x7FFFFFF0" "buflens huge_msg 1 = Ret 0x7FFFFFF0"
    using buflens_eq [of 2 huge_msg] h by simp_all
  have r: "r8 (unat (0x7FFFFFF0 :: u32)) = 0x7FFFFFF0" "hdr_bytes 0 = 32" "hdr_bytes 2 = 40"
    by (simp_all add: r8_def hdr_bytes_def)
  then have rnd: "cfs_size_round L 0x7FFFFFF0 = 0x7FFFFFF0" "lustre_msg_hdr_size_v2 L 0 = 32" "lustre_msg_hdr_size_v2 L 2 = 40"
    using size_round [OF assms, of "0x7FFFFFF0"] hdr_size [OF assms, of 0] hdr_size [OF assms, of 2] by simp_all
  have ld: "ld32 lm_magic huge_msg = Ret LUSTRE_MSG_MAGIC_V2" "ld32 lm_bufcount huge_msg = Ret 2"
    using h by (simp_all add: wire)
  have s: "sint (32 :: u32) = 32" "sint (40 :: u32) = 40" "sint (8 :: u32) = 8" "\<not> (2 :: u32) \<le> 1" by code_simp+
  have "unpack_lens L False 0 (Suc (Suc 0)) 40 huge_msg = Ret (8, huge_msg)"
    using bl rnd(1) by simp
  then have "unpack_lens L False 0 2 40 huge_msg = Ret (8, huge_msg)"
    by (simp only: numeral_2_eq_2 [symmetric])
  then have "lustre_unpack_msg L 40 huge_msg = Ret (0, huge_msg)"
    using ld rnd(2,3) s(1-3) by (simp add: lustre_unpack_msg_def lustre_unpack_msg_v2_def)
  moreover have "add_lens L (buflens huge_msg) 0 1 40 = Ret 0x80000018"
    using bl rnd(1) by simp
  then have "lustre_msg_buf L huge_msg 1 1 = Ret (Some 0x80000018)"
    using ld bl rnd(3) s(4) by (simp add: lustre_msg_buf_def lustre_msg_buf_v2_def buf_offset_def)
  ultimately show ?thesis using h(1) by simp
qed

theorem unpack_accepts_huge_witness: "lustre_unpack_msg sample_msg_lib 40 huge_msg = Ret (0, huge_msg)"
  using unpack_accepts_huge [OF sample_msg_lib_ok] by blast

end
