(* ===== verification/Ptlrpc_Body.thy ===== *)
theory Ptlrpc_Body
  imports Msg_Props
begin

text \<open>
  The first buffer of every message, \<open>struct ptlrpc_body\<close>: the functions that read and write
  its fields, its conversion from the other byte order, and the two steps in which a server
  unpacks a request. The offsets of the fields are those \<open>lustre_ptlrpc_wiretest.c\<close> asserts.
\<close>

unbundle bit_operations_syntax

section \<open>Fields\<close>

abbreviation (input) pb_handle :: nat where "pb_handle \<equiv> 0"
abbreviation (input) pb_type :: nat where "pb_type \<equiv> 8"
abbreviation (input) pb_version :: nat where "pb_version \<equiv> 12"
abbreviation (input) pb_status :: nat where "pb_status \<equiv> 20"
abbreviation (input) pb_last_xid :: nat where "pb_last_xid \<equiv> 24"
abbreviation (input) pb_tag :: nat where "pb_tag \<equiv> 32"
abbreviation (input) pb_last_committed :: nat where "pb_last_committed \<equiv> 40"
abbreviation (input) pb_transno :: nat where "pb_transno \<equiv> 48"
abbreviation (input) pb_flags :: nat where "pb_flags \<equiv> 56"
abbreviation (input) pb_op_flags :: nat where "pb_op_flags \<equiv> 60"
abbreviation (input) pb_conn_cnt :: nat where "pb_conn_cnt \<equiv> 64"
abbreviation (input) pb_timeout :: nat where "pb_timeout \<equiv> 68"
abbreviation (input) pb_service_time :: nat where "pb_service_time \<equiv> 72"
abbreviation (input) pb_limit :: nat where "pb_limit \<equiv> 76"
abbreviation (input) pb_slv :: nat where "pb_slv \<equiv> 80"
abbreviation (input) pb_pre_versions :: nat where "pb_pre_versions \<equiv> 88"
abbreviation (input) pb_mbits :: nat where "pb_mbits \<equiv> 120"
abbreviation (input) pb_jobid :: nat where "pb_jobid \<equiv> 152"

abbreviation (input) PTL_RPC_MSG_ERR :: u32 where "PTL_RPC_MSG_ERR \<equiv> 4712"
abbreviation (input) PTLRPC_MSG_VERSION :: u32 where "PTLRPC_MSG_VERSION \<equiv> 3"
abbreviation (input) LUSTRE_VERSION_MASK :: u32 where "LUSTRE_VERSION_MASK \<equiv> 0xffff0000"
abbreviation (input) MSG_GEN_FLAG_MASK :: u32 where "MSG_GEN_FLAG_MASK \<equiv> 0xffff"
abbreviation (input) LUSTRE_JOBID_SIZE :: nat where "LUSTRE_JOBID_SIZE \<equiv> 32"
abbreviation (input) MSG_PTLRPC_HEADER_OFF :: nat where "MSG_PTLRPC_HEADER_OFF \<equiv> 31"

definition lustre_msg_ptlrpc_body :: "msg_lib \<Rightarrow> mem \<Rightarrow> nat option outcome" where
  "lustre_msg_ptlrpc_body L msg = lustre_msg_buf_v2 L msg 0 ptlrpc_body_v2_size"

text \<open>
  The common frame of the accessors: the magic number, the body, and what happens when there is
  none; a value is returned for a message without a body, an assertion fails for a store.
\<close>

definition get_pb :: "msg_lib \<Rightarrow> mem \<Rightarrow> (nat \<Rightarrow> mem \<Rightarrow> 'a outcome) \<Rightarrow> nat \<Rightarrow> 'a \<Rightarrow> 'a outcome" where
  "get_pb L msg ld off dflt =
     bindO (ld32 lm_magic msg) (\<lambda>magic.
       if magic = LUSTRE_MSG_MAGIC_V2 then
         bindO (lustre_msg_ptlrpc_body L msg) (\<lambda>pb.
           case pb of None \<Rightarrow> Ret dflt | Some pb \<Rightarrow> ld (pb + off) msg)
       else Ret dflt)"

definition set_pb :: "msg_lib \<Rightarrow> mem \<Rightarrow> (nat \<Rightarrow> mem \<Rightarrow> mem outcome) \<Rightarrow> mem outcome" where
  "set_pb L msg upd =
     bindO (ld32 lm_magic msg) (\<lambda>magic.
       if magic = LUSTRE_MSG_MAGIC_V2 then
         bindO (lustre_msg_ptlrpc_body L msg) (\<lambda>pb.
           case pb of None \<Rightarrow> Fault LBUG | Some pb \<Rightarrow> upd pb msg)
       else Fault LBUG)"

section \<open>Reading\<close>

definition lustre_msghdr_get_flags :: "mem \<Rightarrow> u32 outcome" where
  "lustre_msghdr_get_flags msg =
     bindO (ld32 lm_magic msg) (\<lambda>magic. if magic = LUSTRE_MSG_MAGIC_V2 then ld32 lm_flags msg else Ret 0)"

definition lustre_msg_get_flags :: "msg_lib \<Rightarrow> mem \<Rightarrow> u32 outcome" where
  "lustre_msg_get_flags L msg = get_pb L msg ld32 pb_flags 0"

definition lustre_msg_get_op_flags :: "msg_lib \<Rightarrow> mem \<Rightarrow> u32 outcome" where
  "lustre_msg_get_op_flags L msg = get_pb L msg ld32 pb_op_flags 0"

definition lustre_msg_get_type :: "msg_lib \<Rightarrow> mem \<Rightarrow> u32 outcome" where
  "lustre_msg_get_type L msg = get_pb L msg ld32 pb_type PTL_RPC_MSG_ERR"

definition lustre_msg_get_version :: "msg_lib \<Rightarrow> mem \<Rightarrow> u32 outcome" where
  "lustre_msg_get_version L msg = get_pb L msg ld32 pb_version 0"

definition lustre_msg_get_opc :: "msg_lib \<Rightarrow> mem \<Rightarrow> u32 outcome" where
  "lustre_msg_get_opc L msg = get_pb L msg ld32 pb_opc 0"

definition lustre_msg_get_last_xid :: "msg_lib \<Rightarrow> mem \<Rightarrow> u64 outcome" where
  "lustre_msg_get_last_xid L msg = get_pb L msg ld64 pb_last_xid 0"

definition lustre_msg_get_tag :: "msg_lib \<Rightarrow> mem \<Rightarrow> u16 outcome" where
  "lustre_msg_get_tag L msg = get_pb L msg ld16 pb_tag 0"

definition lustre_msg_get_last_committed :: "msg_lib \<Rightarrow> mem \<Rightarrow> u64 outcome" where
  "lustre_msg_get_last_committed L msg = get_pb L msg ld64 pb_last_committed 0"

definition lustre_msg_get_transno :: "msg_lib \<Rightarrow> mem \<Rightarrow> u64 outcome" where
  "lustre_msg_get_transno L msg = get_pb L msg ld64 pb_transno 0"

definition lustre_msg_get_slv :: "msg_lib \<Rightarrow> mem \<Rightarrow> u64 outcome" where
  "lustre_msg_get_slv L msg = get_pb L msg ld64 pb_slv (- 22)"

definition lustre_msg_get_limit :: "msg_lib \<Rightarrow> mem \<Rightarrow> u32 outcome" where
  "lustre_msg_get_limit L msg = get_pb L msg ld32 pb_limit (- 22)"

definition lustre_msg_get_conn_cnt :: "msg_lib \<Rightarrow> mem \<Rightarrow> u32 outcome" where
  "lustre_msg_get_conn_cnt L msg = get_pb L msg ld32 pb_conn_cnt 0"

definition lustre_msg_get_timeout :: "msg_lib \<Rightarrow> mem \<Rightarrow> u32 outcome" where
  "lustre_msg_get_timeout L msg = get_pb L msg ld32 pb_timeout 0"

definition lustre_msg_get_service_time :: "msg_lib \<Rightarrow> mem \<Rightarrow> u32 outcome" where
  "lustre_msg_get_service_time L msg = get_pb L msg ld32 pb_service_time 0"

definition lustre_msg_get_mbits :: "msg_lib \<Rightarrow> mem \<Rightarrow> u64 outcome" where
  "lustre_msg_get_mbits L msg = get_pb L msg ld64 pb_mbits 0"

definition lustre_msg_get_status :: "msg_lib \<Rightarrow> mem \<Rightarrow> int outcome" where
  "lustre_msg_get_status L msg =
     get_pb L msg (\<lambda>off m. bindO (ld32 off m) (\<lambda>w. Ret (sint w))) pb_status (- EINVAL)"

text \<open>These return a pointer to the field.\<close>

definition lustre_msg_get_handle :: "msg_lib \<Rightarrow> mem \<Rightarrow> nat option outcome" where
  "lustre_msg_get_handle L msg = get_pb L msg (\<lambda>off m. Ret (Some off)) pb_handle None"

definition lustre_msg_get_versions :: "msg_lib \<Rightarrow> mem \<Rightarrow> nat option outcome" where
  "lustre_msg_get_versions L msg = get_pb L msg (\<lambda>off m. Ret (Some off)) pb_pre_versions None"

definition lustre_msg_get_jobid :: "msg_lib \<Rightarrow> mem \<Rightarrow> nat option outcome" where
  "lustre_msg_get_jobid L msg =
     bindO (ld32 lm_magic msg) (\<lambda>magic.
       if magic = LUSTRE_MSG_MAGIC_V2 then
         bindO (lustre_msg_buf_v2 L msg 0 ptlrpc_body_size) (\<lambda>pb. Ret (map_option (\<lambda>pb. pb + pb_jobid) pb))
       else Ret None)"

definition lustre_msg_get_magic :: "mem \<Rightarrow> u32 outcome" where
  "lustre_msg_get_magic msg =
     bindO (ld32 lm_magic msg) (\<lambda>magic. if magic = LUSTRE_MSG_MAGIC_V2 then Ret magic else Ret 0)"

definition lustre_msg_get_cksum :: "mem \<Rightarrow> u32 outcome" where
  "lustre_msg_get_cksum msg =
     bindO (ld32 lm_magic msg) (\<lambda>magic. if magic = LUSTRE_MSG_MAGIC_V2 then ld32 lm_cksum msg else Ret 0)"

text \<open>The checksum of the body; \<open>crc32\<close> is the digest of libcfs.\<close>

definition lustre_msg_calc_cksum :: "msg_lib \<Rightarrow> (mem \<Rightarrow> u32) \<Rightarrow> mem \<Rightarrow> u32 outcome" where
  "lustre_msg_calc_cksum L crc32 msg =
     bindO (ld32 lm_magic msg) (\<lambda>magic.
       if magic = LUSTRE_MSG_MAGIC_V2 then
         bindO (lustre_msg_ptlrpc_body L msg) (\<lambda>pb. bindO (lustre_msg_buflen msg 0) (\<lambda>len.
           case pb of None \<Rightarrow> Fault LBUG
           | Some pb \<Rightarrow> bindO (load (unat len) pb msg) (\<lambda>bytes. Ret (crc32 bytes))))
       else Ret 0)"

definition lustre_msg_check_version_v2 :: "msg_lib \<Rightarrow> mem \<Rightarrow> u32 \<Rightarrow> int outcome" where
  "lustre_msg_check_version_v2 L msg version =
     bindO (lustre_msg_get_version L msg) (\<lambda>ver.
       Ret (if (ver AND LUSTRE_VERSION_MASK) \<noteq> version then 1 else 0))"

definition lustre_msg_check_version :: "msg_lib \<Rightarrow> mem \<Rightarrow> u32 \<Rightarrow> int outcome" where
  "lustre_msg_check_version L msg version =
     bindO (ld32 lm_magic msg) (\<lambda>magic.
       if magic = LUSTRE_MSG_MAGIC_V1 then Ret (- EINVAL)
       else if magic = LUSTRE_MSG_MAGIC_V2 then lustre_msg_check_version_v2 L msg version
       else Ret (- EPROTO))"

section \<open>Writing\<close>

definition lustre_msghdr_set_flags :: "mem \<Rightarrow> u32 \<Rightarrow> mem outcome" where
  "lustre_msghdr_set_flags msg flags =
     bindO (ld32 lm_magic msg) (\<lambda>magic.
       if magic = LUSTRE_MSG_MAGIC_V2 then st32 lm_flags flags msg else Fault LBUG)"

text \<open>\<open>pb->field = f(pb->field)\<close>\<close>

definition modify32 :: "(u32 \<Rightarrow> u32) \<Rightarrow> nat \<Rightarrow> mem \<Rightarrow> mem outcome" where
  "modify32 f off m = bindO (ld32 off m) (\<lambda>w. st32 off (f w) m)"

definition lustre_msg_add_flags :: "msg_lib \<Rightarrow> mem \<Rightarrow> u32 \<Rightarrow> mem outcome" where
  "lustre_msg_add_flags L msg flags = set_pb L msg (\<lambda>pb. modify32 (\<lambda>w. w OR flags) (pb + pb_flags))"

definition lustre_msg_clear_flags :: "msg_lib \<Rightarrow> mem \<Rightarrow> u32 \<Rightarrow> mem outcome" where
  "lustre_msg_clear_flags L msg flags =
     set_pb L msg (\<lambda>pb. modify32 (\<lambda>w. w AND NOT (MSG_GEN_FLAG_MASK AND flags)) (pb + pb_flags))"

definition lustre_msg_add_op_flags :: "msg_lib \<Rightarrow> mem \<Rightarrow> u32 \<Rightarrow> mem outcome" where
  "lustre_msg_add_op_flags L msg flags = set_pb L msg (\<lambda>pb. modify32 (\<lambda>w. w OR flags) (pb + pb_op_flags))"

definition lustre_msg_add_version :: "msg_lib \<Rightarrow> mem \<Rightarrow> u32 \<Rightarrow> mem outcome" where
  "lustre_msg_add_version L msg version = set_pb L msg (\<lambda>pb. modify32 (\<lambda>w. w OR version) (pb + pb_version))"

definition lustre_msg_set_flags :: "msg_lib \<Rightarrow> mem \<Rightarrow> u32 \<Rightarrow> mem outcome" where
  "lustre_msg_set_flags L msg flags = set_pb L msg (\<lambda>pb. st32 (pb + pb_flags) flags)"

definition lustre_msg_set_type :: "msg_lib \<Rightarrow> mem \<Rightarrow> u32 \<Rightarrow> mem outcome" where
  "lustre_msg_set_type L msg ty = set_pb L msg (\<lambda>pb. st32 (pb + pb_type) ty)"

definition lustre_msg_set_opc :: "msg_lib \<Rightarrow> mem \<Rightarrow> u32 \<Rightarrow> mem outcome" where
  "lustre_msg_set_opc L msg opc = set_pb L msg (\<lambda>pb. st32 (pb + pb_opc) opc)"

definition lustre_msg_set_last_xid :: "msg_lib \<Rightarrow> mem \<Rightarrow> u64 \<Rightarrow> mem outcome" where
  "lustre_msg_set_last_xid L msg last_xid = set_pb L msg (\<lambda>pb. st64 (pb + pb_last_xid) last_xid)"

definition lustre_msg_set_tag :: "msg_lib \<Rightarrow> mem \<Rightarrow> u16 \<Rightarrow> mem outcome" where
  "lustre_msg_set_tag L msg tag = set_pb L msg (\<lambda>pb. st16 (pb + pb_tag) tag)"

definition lustre_msg_set_last_committed :: "msg_lib \<Rightarrow> mem \<Rightarrow> u64 \<Rightarrow> mem outcome" where
  "lustre_msg_set_last_committed L msg last_committed = set_pb L msg (\<lambda>pb. st64 (pb + pb_last_committed) last_committed)"

definition lustre_msg_set_transno :: "msg_lib \<Rightarrow> mem \<Rightarrow> u64 \<Rightarrow> mem outcome" where
  "lustre_msg_set_transno L msg transno = set_pb L msg (\<lambda>pb. st64 (pb + pb_transno) transno)"

definition lustre_msg_set_status :: "msg_lib \<Rightarrow> mem \<Rightarrow> u32 \<Rightarrow> mem outcome" where
  "lustre_msg_set_status L msg status = set_pb L msg (\<lambda>pb. st32 (pb + pb_status) status)"

definition lustre_msg_set_conn_cnt :: "msg_lib \<Rightarrow> mem \<Rightarrow> u32 \<Rightarrow> mem outcome" where
  "lustre_msg_set_conn_cnt L msg conn_cnt = set_pb L msg (\<lambda>pb. st32 (pb + pb_conn_cnt) conn_cnt)"

definition lustre_msg_set_timeout :: "msg_lib \<Rightarrow> mem \<Rightarrow> u32 \<Rightarrow> mem outcome" where
  "lustre_msg_set_timeout L msg timeout = set_pb L msg (\<lambda>pb. st32 (pb + pb_timeout) timeout)"

definition lustre_msg_set_service_time :: "msg_lib \<Rightarrow> mem \<Rightarrow> u32 \<Rightarrow> mem outcome" where
  "lustre_msg_set_service_time L msg service_time = set_pb L msg (\<lambda>pb. st32 (pb + pb_service_time) service_time)"

definition lustre_msg_set_mbits :: "msg_lib \<Rightarrow> mem \<Rightarrow> u64 \<Rightarrow> mem outcome" where
  "lustre_msg_set_mbits L msg mbits = set_pb L msg (\<lambda>pb. st64 (pb + pb_mbits) mbits)"

text \<open>\<open>*handle\<close> is a 64 bit cookie.\<close>

definition lustre_msg_set_handle :: "msg_lib \<Rightarrow> mem \<Rightarrow> u64 \<Rightarrow> mem outcome" where
  "lustre_msg_set_handle L msg handle = set_pb L msg (\<lambda>pb. st64 (pb + pb_handle) handle)"

definition lustre_msg_set_versions :: "msg_lib \<Rightarrow> mem \<Rightarrow> u64 list \<Rightarrow> mem outcome" where
  "lustre_msg_set_versions L msg versions =
     set_pb L msg (\<lambda>pb m.
       bindO (arr versions 0) (\<lambda>v. bindO (st64 (pb + pb_pre_versions) v m) (\<lambda>m.
       bindO (arr versions 1) (\<lambda>v. bindO (st64 (pb + pb_pre_versions + 8) v m) (\<lambda>m.
       bindO (arr versions 2) (\<lambda>v. bindO (st64 (pb + pb_pre_versions + 16) v m) (\<lambda>m.
       bindO (arr versions 3) (\<lambda>v. st64 (pb + pb_pre_versions + 24) v m))))))))"

text \<open>These two do nothing when there is no body; \<open>limit\<close> is cut to 32 bits.\<close>

definition store_if_body :: "msg_lib \<Rightarrow> mem \<Rightarrow> (nat \<Rightarrow> mem \<Rightarrow> mem outcome) \<Rightarrow> mem outcome" where
  "store_if_body L msg upd =
     bindO (ld32 lm_magic msg) (\<lambda>magic.
       if magic = LUSTRE_MSG_MAGIC_V2 then
         bindO (lustre_msg_ptlrpc_body L msg) (\<lambda>pb.
           case pb of None \<Rightarrow> Ret msg | Some pb \<Rightarrow> upd pb msg)
       else Ret msg)"

definition lustre_msg_set_slv :: "msg_lib \<Rightarrow> mem \<Rightarrow> u64 \<Rightarrow> mem outcome" where
  "lustre_msg_set_slv L msg slv = store_if_body L msg (\<lambda>pb. st64 (pb + pb_slv) slv)"

definition lustre_msg_set_limit :: "msg_lib \<Rightarrow> mem \<Rightarrow> u64 \<Rightarrow> mem outcome" where
  "lustre_msg_set_limit L msg limit = store_if_body L msg (\<lambda>pb. st32 (pb + pb_limit) (ucast limit))"

definition lustre_msg_set_cksum :: "mem \<Rightarrow> u32 \<Rightarrow> mem outcome" where
  "lustre_msg_set_cksum msg cksum =
     bindO (ld32 lm_magic msg) (\<lambda>magic.
       if magic = LUSTRE_MSG_MAGIC_V2 then st32 lm_cksum cksum msg else Fault LBUG)"

text \<open>
  \<open>jobid\<close> is the memory of the caller, NULL asks \<open>lustre_get_jobid\<close> (of obdclass) for the job of
  the process; the callbacks of the lock manager carry no job.
\<close>

definition lustre_msg_set_jobid ::
  "msg_lib \<Rightarrow> (nat \<Rightarrow> mem \<Rightarrow> mem outcome) \<Rightarrow> mem \<Rightarrow> mem option \<Rightarrow> mem outcome" where
  "lustre_msg_set_jobid L lustre_get_jobid msg jobid =
     bindO (ld32 lm_magic msg) (\<lambda>magic.
       if magic \<noteq> LUSTRE_MSG_MAGIC_V2 then Fault LBUG
       else bindO (lustre_msg_get_opc L msg) (\<lambda>opc.
         if opc = 0 \<or> opc = 104 \<or> opc = 105 \<or> opc = 106 then Ret msg
         else bindO (lustre_msg_buf_v2 L msg 0 ptlrpc_body_size) (\<lambda>pb.
           case pb of None \<Rightarrow> Fault LBUG
           | Some pb \<Rightarrow>
               (case jobid of
                  Some jobid \<Rightarrow> bindO (load LUSTRE_JOBID_SIZE 0 jobid) (\<lambda>bs. store (pb + pb_jobid) bs msg)
                | None \<Rightarrow> bindO (load 1 (pb + pb_jobid) msg) (\<lambda>b.
                    if b = [0] then lustre_get_jobid (pb + pb_jobid) msg else Ret msg)))))"

section \<open>Byte order of the body\<close>

fun swab_fields :: "(nat \<times> nat) list \<Rightarrow> nat \<Rightarrow> mem \<Rightarrow> mem outcome" where
  "swab_fields [] b m = Ret m"
| "swab_fields ((k, off) # fs) b m = bindO (swabs k (b + off) m) (swab_fields fs b)"

definition ptlrpc_body_fields :: "(nat \<times> nat) list" where
  "ptlrpc_body_fields = [(4, pb_type), (4, pb_version), (4, pb_opc), (4, pb_status), (8, pb_last_xid), (2, pb_tag),
     (8, pb_last_committed), (8, pb_transno), (4, pb_flags), (4, pb_op_flags), (4, pb_conn_cnt), (4, pb_timeout),
     (4, pb_service_time), (4, pb_limit), (8, pb_slv), (8, pb_pre_versions), (8, pb_pre_versions + 8),
     (8, pb_pre_versions + 16), (8, pb_pre_versions + 24), (8, pb_mbits)]"

definition lustre_swab_ptlrpc_body :: "nat \<Rightarrow> mem \<Rightarrow> mem outcome" where
  "lustre_swab_ptlrpc_body b m = swab_fields ptlrpc_body_fields b m"

section \<open>Unpacking a request\<close>

text \<open>The messages of a request and which of their buffers are already in the host's byte order.\<close>

record rpc_request =
  rq_reqmsg :: mem
  rq_repmsg :: mem
  rq_req_swab_mask :: u32
  rq_rep_swab_mask :: u32

definition lustre_req_swabbed :: "rpc_request \<Rightarrow> nat \<Rightarrow> bool outcome" where
  "lustre_req_swabbed req index = lassert (index < 32) (Ret (bit (rq_req_swab_mask req) index))"

definition lustre_rep_swabbed :: "rpc_request \<Rightarrow> nat \<Rightarrow> bool outcome" where
  "lustre_rep_swabbed req index = lassert (index < 32) (Ret (bit (rq_rep_swab_mask req) index))"

definition lustre_set_req_swabbed :: "rpc_request \<Rightarrow> nat \<Rightarrow> rpc_request outcome" where
  "lustre_set_req_swabbed req index = lassert (index < 32) (lassert (\<not> bit (rq_req_swab_mask req) index)
     (Ret (req\<lparr>rq_req_swab_mask := rq_req_swab_mask req OR push_bit index 1\<rparr>)))"

definition lustre_set_rep_swabbed :: "rpc_request \<Rightarrow> nat \<Rightarrow> rpc_request outcome" where
  "lustre_set_rep_swabbed req index = lassert (index < 32) (lassert (\<not> bit (rq_rep_swab_mask req) index)
     (Ret (req\<lparr>rq_rep_swab_mask := rq_rep_swab_mask req OR push_bit index 1\<rparr>)))"

definition ptlrpc_buf_set_swabbed :: "rpc_request \<Rightarrow> bool \<Rightarrow> u32 \<Rightarrow> rpc_request outcome" where
  "ptlrpc_buf_set_swabbed req inout index =
     (if inout then lustre_set_req_swabbed req (unat index) else lustre_set_rep_swabbed req (unat index))"

definition ptlrpc_buf_need_swab :: "rpc_request \<Rightarrow> bool \<Rightarrow> u32 \<Rightarrow> bool outcome" where
  "ptlrpc_buf_need_swab req inout index =
     (let swabbed = (if inout then lustre_req_swabbed req else lustre_rep_swabbed req) in
      bindO (swabbed MSG_PTLRPC_HEADER_OFF) (\<lambda>need.
        if need then bindO (swabbed (unat index)) (\<lambda>b. Ret (\<not> b)) else Ret False))"

definition ptlrpc_unpack_req_msg :: "msg_lib \<Rightarrow> int \<Rightarrow> rpc_request \<Rightarrow> (int \<times> rpc_request) outcome" where
  "ptlrpc_unpack_req_msg L len req =
     bindO (lustre_unpack_msg L len (rq_reqmsg req)) (\<lambda>(rc, m).
       let req = req\<lparr>rq_reqmsg := m\<rparr> in
       if rc = 1 then bindO (lustre_set_req_swabbed req MSG_PTLRPC_HEADER_OFF) (\<lambda>req. Ret (0, req))
       else Ret (rc, req))"

definition ptlrpc_unpack_rep_msg :: "msg_lib \<Rightarrow> int \<Rightarrow> rpc_request \<Rightarrow> (int \<times> rpc_request) outcome" where
  "ptlrpc_unpack_rep_msg L len req =
     bindO (lustre_unpack_msg L len (rq_repmsg req)) (\<lambda>(rc, m).
       let req = req\<lparr>rq_repmsg := m\<rparr> in
       if rc = 1 then bindO (lustre_set_rep_swabbed req MSG_PTLRPC_HEADER_OFF) (\<lambda>req. Ret (0, req))
       else Ret (rc, req))"

definition the_msg :: "bool \<Rightarrow> rpc_request \<Rightarrow> mem" where
  "the_msg inout req = (if inout then rq_reqmsg req else rq_repmsg req)"

definition set_msg :: "bool \<Rightarrow> mem \<Rightarrow> rpc_request \<Rightarrow> rpc_request" where
  "set_msg inout m req = (if inout then req\<lparr>rq_reqmsg := m\<rparr> else req\<lparr>rq_repmsg := m\<rparr>)"

text \<open>
  \<open>ptlrpc_status_ntoh\<close> is the identity on hosts whose error numbers are those of the wire
  (\<open>LUSTRE_TRANSLATE_ERRNOS\<close> not defined), so the store to \<open>pb_status\<close> changes nothing.
\<close>

definition lustre_unpack_ptlrpc_body_v2 ::
  "msg_lib \<Rightarrow> rpc_request \<Rightarrow> bool \<Rightarrow> u32 \<Rightarrow> (int \<times> rpc_request) outcome" where
  "lustre_unpack_ptlrpc_body_v2 L req inout offset =
     bindO (lustre_msg_buf_v2 L (the_msg inout req) offset ptlrpc_body_v2_size) (\<lambda>pb.
       case pb of None \<Rightarrow> Ret (- EFAULT, req)
       | Some pb \<Rightarrow>
           bindO (ptlrpc_buf_need_swab req inout offset) (\<lambda>need.
           bindO (if need
                  then bindO (lustre_swab_ptlrpc_body pb (the_msg inout req)) (\<lambda>m.
                    ptlrpc_buf_set_swabbed (set_msg inout m req) inout offset)
                  else Ret req) (\<lambda>req.
           bindO (ld32 (pb + pb_version) (the_msg inout req)) (\<lambda>version.
             if (version AND NOT LUSTRE_VERSION_MASK) \<noteq> PTLRPC_MSG_VERSION then Ret (- EINVAL, req)
             else if inout then Ret (0, req)
             else bindO (modify32 (\<lambda>w. w) (pb + pb_status) (the_msg inout req)) (\<lambda>m.
               Ret (0, set_msg inout m req))))))"

definition lustre_unpack_req_ptlrpc_body :: "msg_lib \<Rightarrow> rpc_request \<Rightarrow> u32 \<Rightarrow> (int \<times> rpc_request) outcome" where
  "lustre_unpack_req_ptlrpc_body L req offset =
     bindO (ld32 lm_magic (rq_reqmsg req)) (\<lambda>magic.
       if magic = LUSTRE_MSG_MAGIC_V2 then lustre_unpack_ptlrpc_body_v2 L req True offset else Ret (- EINVAL, req))"

definition lustre_unpack_rep_ptlrpc_body :: "msg_lib \<Rightarrow> rpc_request \<Rightarrow> u32 \<Rightarrow> (int \<times> rpc_request) outcome" where
  "lustre_unpack_rep_ptlrpc_body L req offset =
     bindO (ld32 lm_magic (rq_repmsg req)) (\<lambda>magic.
       if magic = LUSTRE_MSG_MAGIC_V2 then lustre_unpack_ptlrpc_body_v2 L req False offset else Ret (- EINVAL, req))"

end
