(* ===== verification/Body_Props.thy ===== *)
theory Body_Props
  imports Ptlrpc_Body
begin

text \<open>
  The properties of the message body: its fields are independent of each other and of the other
  buffers, its conversion from the other byte order is exact, and a request is converted once.
\<close>

section \<open>Fields as numbers\<close>

text \<open>The plain fields, their getters and setters, with 64 bit numbers for values of every width.\<close>

datatype pb_field = PB_TYPE | PB_VERSION | PB_OPC | PB_STATUS | PB_LAST_XID | PB_TAG | PB_LAST_COMMITTED | PB_TRANSNO
  | PB_FLAGS | PB_OP_FLAGS | PB_CONN_CNT | PB_TIMEOUT | PB_SERVICE_TIME | PB_LIMIT | PB_SLV | PB_MBITS

definition widen :: "'a::len word outcome \<Rightarrow> u64 outcome" where
  "widen r = bindO r (\<lambda>w. Ret (ucast w))"

fun pb_get :: "pb_field \<Rightarrow> msg_lib \<Rightarrow> mem \<Rightarrow> u64 outcome" where
  "pb_get PB_TYPE L m = widen (lustre_msg_get_type L m)"
| "pb_get PB_VERSION L m = widen (lustre_msg_get_version L m)"
| "pb_get PB_OPC L m = widen (lustre_msg_get_opc L m)"
| "pb_get PB_STATUS L m = bindO (lustre_msg_get_status L m) (\<lambda>s. Ret (ucast (of_int s :: u32)))"
| "pb_get PB_LAST_XID L m = lustre_msg_get_last_xid L m"
| "pb_get PB_TAG L m = widen (lustre_msg_get_tag L m)"
| "pb_get PB_LAST_COMMITTED L m = lustre_msg_get_last_committed L m"
| "pb_get PB_TRANSNO L m = lustre_msg_get_transno L m"
| "pb_get PB_FLAGS L m = widen (lustre_msg_get_flags L m)"
| "pb_get PB_OP_FLAGS L m = widen (lustre_msg_get_op_flags L m)"
| "pb_get PB_CONN_CNT L m = widen (lustre_msg_get_conn_cnt L m)"
| "pb_get PB_TIMEOUT L m = widen (lustre_msg_get_timeout L m)"
| "pb_get PB_SERVICE_TIME L m = widen (lustre_msg_get_service_time L m)"
| "pb_get PB_LIMIT L m = widen (lustre_msg_get_limit L m)"
| "pb_get PB_SLV L m = lustre_msg_get_slv L m"
| "pb_get PB_MBITS L m = lustre_msg_get_mbits L m"

text \<open>\<open>PB_VERSION\<close> and \<open>PB_OP_FLAGS\<close> can only be added to.\<close>

fun pb_set :: "pb_field \<Rightarrow> msg_lib \<Rightarrow> mem \<Rightarrow> u64 \<Rightarrow> mem outcome" where
  "pb_set PB_TYPE L m v = lustre_msg_set_type L m (ucast v)"
| "pb_set PB_VERSION L m v = lustre_msg_add_version L m (ucast v)"
| "pb_set PB_OPC L m v = lustre_msg_set_opc L m (ucast v)"
| "pb_set PB_STATUS L m v = lustre_msg_set_status L m (ucast v)"
| "pb_set PB_LAST_XID L m v = lustre_msg_set_last_xid L m v"
| "pb_set PB_TAG L m v = lustre_msg_set_tag L m (ucast v)"
| "pb_set PB_LAST_COMMITTED L m v = lustre_msg_set_last_committed L m v"
| "pb_set PB_TRANSNO L m v = lustre_msg_set_transno L m v"
| "pb_set PB_FLAGS L m v = lustre_msg_set_flags L m (ucast v)"
| "pb_set PB_OP_FLAGS L m v = lustre_msg_add_op_flags L m (ucast v)"
| "pb_set PB_CONN_CNT L m v = lustre_msg_set_conn_cnt L m (ucast v)"
| "pb_set PB_TIMEOUT L m v = lustre_msg_set_timeout L m (ucast v)"
| "pb_set PB_SERVICE_TIME L m v = lustre_msg_set_service_time L m (ucast v)"
| "pb_set PB_LIMIT L m v = lustre_msg_set_limit L m v"
| "pb_set PB_SLV L m v = lustre_msg_set_slv L m v"
| "pb_set PB_MBITS L m v = lustre_msg_set_mbits L m v"

fun pb_width :: "pb_field \<Rightarrow> nat" where
  "pb_width f = (if f \<in> {PB_LAST_XID, PB_LAST_COMMITTED, PB_TRANSNO, PB_SLV, PB_MBITS} then 8
     else if f = PB_TAG then 2 else 4)"

fun pb_off :: "pb_field \<Rightarrow> nat" where
  "pb_off PB_TYPE = 8" | "pb_off PB_VERSION = 12" | "pb_off PB_OPC = 16" | "pb_off PB_STATUS = 20"
| "pb_off PB_LAST_XID = 24" | "pb_off PB_TAG = 32" | "pb_off PB_LAST_COMMITTED = 40" | "pb_off PB_TRANSNO = 48"
| "pb_off PB_FLAGS = 56" | "pb_off PB_OP_FLAGS = 60" | "pb_off PB_CONN_CNT = 64" | "pb_off PB_TIMEOUT = 68"
| "pb_off PB_SERVICE_TIME = 72" | "pb_off PB_LIMIT = 76" | "pb_off PB_SLV = 80" | "pb_off PB_MBITS = 120"

text \<open>What is stored for the value \<open>v\<close>: it is cut to the width of the field, or added to the bits there.\<close>

definition pb_new :: "pb_field \<Rightarrow> u64 \<Rightarrow> u64 \<Rightarrow> u64" where
  "pb_new f old v = (let w = take_bit (8 * pb_width f) v in if f = PB_VERSION \<or> f = PB_OP_FLAGS then old OR w else w)"

section \<open>Messages with a body\<close>

definition body_ok :: "mem \<Rightarrow> bool" where
  "body_ok m \<longleftrightarrow> msg_ok m \<and> 0 < msg_count m \<and> 152 \<le> msg_len m 0"

abbreviation body_at :: "mem \<Rightarrow> nat" where
  "body_at m \<equiv> hdr_bytes (msg_count m)"

lemma body_okD:
  assumes "body_ok m"
  shows "msg_ok m" "0 < msg_count m" "152 \<le> msg_len m 0" "body_at m + 152 \<le> length m"
    "ld32 lm_magic m = Ret LUSTRE_MSG_MAGIC_V2" "32 + 4 * msg_count m \<le> body_at m"
proof -
  show ok: "msg_ok m" and c: "0 < msg_count m" and l: "152 \<le> msg_len m 0" using assms by (simp_all add: body_ok_def)
  have "buf_off m 0 + msg_len m 0 \<le> length m" using buf_inside' [OF c] ok by (simp add: msg_ok_def)
  then show "body_at m + 152 \<le> length m" using l by (simp add: buf_off_def)
  show "ld32 lm_magic m = Ret LUSTRE_MSG_MAGIC_V2" by (rule msg_ok_hdr(6) [OF ok])
  show "32 + 4 * msg_count m \<le> body_at m" by (rule hdr_bytes_ge)
qed

lemma body_found:
  assumes "msg_lib_ok L" and "body_ok m"
  shows "lustre_msg_ptlrpc_body L m = Ret (Some (body_at m))"
  using msg_buf [OF assms(1) body_okD(1) [OF assms(2)], of 0 ptlrpc_body_v2_size] body_okD(2,3) [OF assms(2)]
  by (simp add: lustre_msg_ptlrpc_body_def buf_off_def)

lemma access_body:
  assumes "msg_lib_ok L" and "body_ok m"
  shows "get_pb L m ld off d = ld (body_at m + off) m" "set_pb L m upd = upd (body_at m) m"
    "store_if_body L m upd = upd (body_at m) m"
  using body_found [OF assms] body_okD(5) [OF assms(2)] by (simp_all add: get_pb_def set_pb_def store_if_body_def)

lemma ucast_of_le: "8 * length bs \<le> LENGTH('a) \<Longrightarrow> (ucast (of_le bs :: 'a::len word) :: u64) = of_le bs"
  by (rule bit_word_eqI) (auto simp: bit_simps bit_of_le)

lemma to_le_ucast:
  assumes "8 * k \<le> LENGTH('a)"
  shows "to_le k (ucast v :: 'a::len word) = to_le k (v :: u64)"
proof (rule nth_equalityI)
  fix i assume i: "i < length (to_le k (ucast v :: 'a word))"
  show "to_le k (ucast v :: 'a word) ! i = to_le k v ! i"
    by (rule bit_word_eqI) (use i assms in \<open>auto simp: nth_to_le bit_simps\<close>)
qed simp

lemma to_le_take_bit: "to_le k (take_bit (8 * k) v) = to_le k (v :: u64)"
proof (rule nth_equalityI)
  fix i assume i: "i < length (to_le k (take_bit (8 * k) v))"
  show "to_le k (take_bit (8 * k) v) ! i = to_le k v ! i"
    by (rule bit_word_eqI) (use i in \<open>auto simp: nth_to_le bit_simps\<close>)
qed simp

lemma of_le_to_le_u64: "k \<le> 8 \<Longrightarrow> of_le (to_le k v) = take_bit (8 * k) (v :: u64)"
  by (rule bit_word_eqI) (auto simp: bit_of_le nth_to_le bit_simps)

lemma to_le_widen: "to_le 4 (w :: u32) = to_le 4 (ucast w :: u64)"
proof -
  have "ucast (ucast w :: u64) = w" by (rule bit_word_eqI) (simp add: bit_simps)
  then show ?thesis using to_le_ucast [of 4 "ucast w :: u64", where 'a = 32] by simp
qed

definition pb_value :: "pb_field \<Rightarrow> mem \<Rightarrow> u64" where
  "pb_value f m = of_le (seg (body_at m + pb_off f) (pb_width f) m)"

lemma pb_get_eq:
  assumes "msg_lib_ok L" and "body_ok m"
  shows "pb_get f L m = Ret (pb_value f m)"
proof -
  note b = body_okD [OF assms(2)]
  show ?thesis
    using b(4)
    by (cases f)
      (simp_all add: access_body [OF assms] widen_def wire pb_value_def ucast_of_le rd32_def
        lustre_msg_get_type_def lustre_msg_get_version_def lustre_msg_get_opc_def lustre_msg_get_status_def
        lustre_msg_get_last_xid_def lustre_msg_get_tag_def lustre_msg_get_last_committed_def
        lustre_msg_get_transno_def lustre_msg_get_flags_def lustre_msg_get_op_flags_def lustre_msg_get_conn_cnt_def
        lustre_msg_get_timeout_def lustre_msg_get_service_time_def lustre_msg_get_limit_def lustre_msg_get_slv_def
        lustre_msg_get_mbits_def)
qed


lemma or_ucast: "ucast (a OR ucast v :: u32) = (ucast a OR take_bit 32 v :: u64)"
  by (rule bit_word_eqI) (auto simp: bit_simps)

lemma pb_set_eq:
  assumes "msg_lib_ok L" and "body_ok m"
  shows "pb_set f L m v = Ret (patch (body_at m + pb_off f) (to_le (pb_width f) (pb_new f (pb_value f m) v)) m)"
proof -
  note b = body_okD [OF assms(2)]
  have add: "to_le 4 (rd32 x m OR ucast v) = to_le 4 (of_le (seg x 4 m) OR take_bit 32 v :: u64)" for x
    by (simp add: to_le_widen or_ucast rd32_def ucast_of_le)
  have cut: "to_le 2 (ucast v :: u16) = to_le 2 (take_bit 16 v)" "to_le 4 (ucast v :: u32) = to_le 4 (take_bit 32 v)"
      "take_bit 64 v = v"
    using to_le_take_bit [of 2 v] to_le_take_bit [of 4 v] by (simp_all add: to_le_ucast take_bit_word_eq_self)
  show ?thesis
    using b(4)
    by (cases f)
      (simp_all add: access_body [OF assms] wire modify32_def pb_new_def Let_def add cut pb_value_def
        lustre_msg_set_type_def lustre_msg_add_version_def lustre_msg_set_opc_def lustre_msg_set_status_def
        lustre_msg_set_last_xid_def lustre_msg_set_tag_def lustre_msg_set_last_committed_def
        lustre_msg_set_transno_def lustre_msg_set_flags_def lustre_msg_add_op_flags_def lustre_msg_set_conn_cnt_def
        lustre_msg_set_timeout_def lustre_msg_set_service_time_def lustre_msg_set_limit_def lustre_msg_set_slv_def
        lustre_msg_set_mbits_def)
qed

text \<open>A store inside the first buffer.\<close>

lemma patch_body:
  assumes "body_ok m" and "off + length bs \<le> 152" and m': "m' = patch (body_at m + off) bs m"
  shows "length m' = length m" "msg_count m' = msg_count m" "msg_len m' i = (if i < msg_count m then msg_len m i else msg_len m' i)"
    "i \<le> msg_count m \<Longrightarrow> buf_off m' i = buf_off m i" "body_ok m'"
    "0 < i \<Longrightarrow> i < msg_count m \<Longrightarrow> buf_data m' i = buf_data m i"
proof -
  note b = body_okD [OF assms(1)]
  have fit: "body_at m + off + length bs \<le> length m" using b(4) assms(2) by simp
  then show len: "length m' = length m" by (simp add: m')
  have hdr: "rd32 x m' = rd32 x m" if "x + 4 \<le> body_at m" for x
    unfolding m' by (rule rd32_patch_other [OF fit]) (use that in simp)
  have x4: "4 \<le> body_at m" "12 \<le> body_at m" using b(6) by simp_all
  show c: "msg_count m' = msg_count m" using hdr [of lm_bufcount] x4 by (simp add: msg_count_def)
  have l: "msg_len m' j = msg_len m j" if "j < msg_count m" for j
    using hdr [of "lm_buflens j"] b(6) that by (simp add: msg_len_def lm_buflens_def)
  then show "msg_len m' i = (if i < msg_count m then msg_len m i else msg_len m' i)" by simp
  have off: "buf_off m' j = buf_off m j" if "j \<le> msg_count m" for j
    using that l by (simp add: buf_off_def c)
  then show "i \<le> msg_count m \<Longrightarrow> buf_off m' i = buf_off m i" .
  have "msg_bytes m' = msg_bytes m" using off by (simp add: msg_bytes_def c)
  moreover have "rd32 lm_magic m' = LUSTRE_MSG_MAGIC_V2"
    using hdr [of lm_magic] x4 msg_ok_hdr(3) [OF b(1)] by simp
  ultimately show "body_ok m'" using b(1-3) c l [OF b(2)] len by (simp add: body_ok_def msg_ok_def)
  assume i: "0 < i" "i < msg_count m"
  have "buf_off m 1 \<le> buf_off m i" using i by (intro buf_off_mono) simp
  moreover have "body_at m + msg_len m 0 \<le> buf_off m 1"
    using r8_ge [of "msg_len m 0"] by (simp add: buf_off_def)
  ultimately have "body_at m + off + length bs \<le> buf_off m i" using b(3) assms(2) by linarith
  then have "seg (buf_off m i) (msg_len m i) m' = seg (buf_off m i) (msg_len m i) m"
    unfolding m' by (intro seg_patch_other [OF fit]) simp
  then show "buf_data m' i = buf_data m i" using i off [of i] l [of i] by (simp add: buf_data_def)
qed

lemma pb_fields_disjoint: "f \<noteq> g \<Longrightarrow> pb_off f + pb_width f \<le> pb_off g \<or> pb_off g + pb_width g \<le> pb_off f"
  by (cases f; cases g) simp_all

lemma pb_field_inside: "pb_off f + pb_width f \<le> 152" "pb_width f \<le> 8"
  by (cases f; simp)+

lemma pb_new_fits: "take_bit (8 * pb_width f) (pb_new f (pb_value f m) v) = pb_new f (pb_value f m) v"
proof -
  have "take_bit (8 * pb_width f) (pb_value f m) = pb_value f m"
    using pb_field_inside(2) [of f]
    by (intro bit_word_eqI) (auto simp: pb_value_def bit_simps bit_of_le)
  then show ?thesis by (simp add: pb_new_def Let_def del: pb_width.simps)
qed

text \<open>
  the fields of the body are independent. On a sound message with a body, storing a field
  (with \<open>lustre_msg_set_type\<close>, \<open>lustre_msg_set_opc\<close>, ..., for version and operation flags with the
  functions that add bits) makes its getter return the value, cut to the width of the field;
  every other getter returns what it did before, and the message stays sound with the other
  buffers unchanged.
\<close>

theorem body_field_update:
  assumes "msg_lib_ok L" and "body_ok m"
  shows "\<exists>m' old. pb_get f L m = Ret old \<and> pb_set f L m v = Ret m' \<and> body_ok m' \<and>
    pb_get f L m' = Ret (pb_new f old v) \<and> (\<forall>g. g \<noteq> f \<longrightarrow> pb_get g L m' = pb_get g L m) \<and>
    (\<forall>i. 0 < i \<and> i < msg_count m \<longrightarrow> buf_data m' i = buf_data m i)"
proof -
  let ?bs = "to_le (pb_width f) (pb_new f (pb_value f m) v)"
  let ?m' = "patch (body_at m + pb_off f) ?bs m"
  note b = body_okD [OF assms(2)]
  have fit: "pb_off f + length ?bs \<le> 152" using pb_field_inside(1) [of f] by (simp del: pb_width.simps)
  note p = patch_body [OF assms(2) fit refl]
  have room: "body_at m + pb_off f + length ?bs \<le> length m" using fit b(4) by linarith
  have "pb_value f ?m' = pb_new f (pb_value f m) v"
    using room p(2) pb_field_inside(2) [of f] pb_new_fits [of f m v]
    by (simp add: pb_value_def of_le_to_le_u64 del: pb_width.simps)
  moreover have "pb_value g ?m' = pb_value g m" if "g \<noteq> f" for g
    using seg_patch_other [OF room, of "body_at m + pb_off g" "pb_width g"] pb_fields_disjoint [OF that] p(2)
    by (simp add: pb_value_def del: pb_width.simps)
  ultimately show ?thesis
    using pb_set_eq [OF assms, of f v] pb_get_eq [OF assms] pb_get_eq [OF assms(1) p(5)] p(5,6)
    by (simp del: pb_width.simps)
qed

section \<open>Turning the fields of a structure\<close>

definition turn_field :: "nat \<Rightarrow> nat \<times> nat \<Rightarrow> mem \<Rightarrow> mem" where
  "turn_field b f m = patch (b + snd f) (rev (seg (b + snd f) (fst f) m)) m"

definition turn_fields :: "(nat \<times> nat) list \<Rightarrow> nat \<Rightarrow> mem \<Rightarrow> mem" where
  "turn_fields fs b m = fold (turn_field b) fs m"

text \<open>Fields that lie inside the structure one after the other.\<close>

fun fields_ok :: "nat \<Rightarrow> (nat \<times> nat) list \<Rightarrow> nat \<Rightarrow> bool" where
  "fields_ok lo [] hi \<longleftrightarrow> lo \<le> hi"
| "fields_ok lo ((k, off) # fs) hi \<longleftrightarrow> lo \<le> off \<and> fields_ok (off + k) fs hi"

lemma fields_okD: "fields_ok lo fs hi \<Longrightarrow> (k, off) \<in> set fs \<Longrightarrow> lo \<le> off \<and> off + k \<le> hi"
proof (induction fs arbitrary: lo)
  case (Cons f fs)
  have hi: "fields_ok a xs hi \<Longrightarrow> a \<le> hi" for a xs by (induction xs arbitrary: a) force+
  from Cons show ?case by (cases f) (auto dest: hi, force)
qed simp

lemma length_turn_field [simp]: "length (turn_field b f m) = length m"
  by (simp add: turn_field_def)

lemma length_turn_fields [simp]: "length (turn_fields fs b m) = length m"
  by (induction fs arbitrary: m) (simp_all add: turn_fields_def)

lemma turn_fields_Cons: "turn_fields (f # fs) b m = turn_fields fs b (turn_field b f m)"
  by (simp add: turn_fields_def)

lemma swab_fields_eq:
  assumes "fields_ok lo fs hi" and "b + hi \<le> length m"
  shows "swab_fields fs b m = Ret (turn_fields fs b m)"
  using assms
proof (induction fs arbitrary: lo m)
  case (Cons f fs)
  obtain k off where f: "f = (k, off)" by (cases f)
  have "off + k \<le> hi" using fields_okD [OF Cons.prems(1), of k off] f by simp
  moreover have "fields_ok (off + k) fs hi" using Cons.prems(1) f by simp
  ultimately show ?case
    using Cons.IH [of "off + k" "turn_field b f m"] Cons.prems(2)
    by (simp add: f wire turn_fields_Cons turn_field_def)
qed (simp add: turn_fields_def)

lemma turn_field_twice: "b + snd f + fst f \<le> length m \<Longrightarrow> turn_field b f (turn_field b f m) = m"
  by (simp add: turn_field_def patch_self)

lemma turn_field_comm:
  assumes "snd f + fst f \<le> snd g \<or> snd g + fst g \<le> snd f"
    and "b + snd f + fst f \<le> length m" and "b + snd g + fst g \<le> length m"
  shows "turn_field b f (turn_field b g m) = turn_field b g (turn_field b f m)"
proof -
  have "seg (b + snd f) (fst f) (turn_field b g m) = seg (b + snd f) (fst f) m"
    "seg (b + snd g) (fst g) (turn_field b f m) = seg (b + snd g) (fst g) m"
    unfolding turn_field_def by (rule seg_patch_other; use assms in \<open>auto simp: min_def\<close>)+
  then show ?thesis using assms by (simp add: turn_field_def) (rule patch_comm; auto simp: min_def)
qed

lemma turn_fields_comm:
  assumes "fields_ok (snd f + fst f) fs hi" and "b + snd f + fst f \<le> length m" and "b + hi \<le> length m"
  shows "turn_fields fs b (turn_field b f m) = turn_field b f (turn_fields fs b m)"
  using assms
proof (induction fs arbitrary: m)
  case (Cons g fs)
  obtain k off where g: "g = (k, off)" by (cases g)
  have o: "snd f + fst f \<le> off" "fields_ok (off + k) fs hi" "off + k \<le> hi"
    using Cons.prems(1) g fields_okD [OF Cons.prems(1), of k off] by simp_all
  have weak: "fields_ok a xs hi \<Longrightarrow> a' \<le> a \<Longrightarrow> fields_ok a' xs hi" for a a' xs by (cases xs) auto
  have "turn_field b g (turn_field b f m) = turn_field b f (turn_field b g m)"
    by (rule turn_field_comm) (use o Cons.prems g in auto)
  then show ?case
    using Cons.IH [of "turn_field b g m"] weak [OF o(2), of "snd f + fst f"] o Cons.prems
    by (simp add: turn_fields_Cons)
qed (simp add: turn_fields_def)

lemma turn_fields_twice:
  assumes "fields_ok lo fs hi" and "b + hi \<le> length m"
  shows "turn_fields fs b (turn_fields fs b m) = m"
  using assms
proof (induction fs arbitrary: lo m)
  case (Cons f fs)
  obtain k off where f: "f = (k, off)" by (cases f)
  have o: "off + k \<le> hi" "fields_ok (off + k) fs hi"
    using fields_okD [OF Cons.prems(1), of k off] Cons.prems(1) f by simp_all
  have "turn_fields (f # fs) b (turn_fields (f # fs) b m) = turn_fields fs b (turn_field b f (turn_fields fs b (turn_field b f m)))"
    by (simp add: turn_fields_Cons)
  also have "\<dots> = turn_fields fs b (turn_fields fs b (turn_field b f (turn_field b f m)))"
    using turn_fields_comm [of f fs hi b "turn_field b f m"] o Cons.prems(2) f by (simp add: add.commute)
  also have "\<dots> = turn_field b f (turn_field b f m)"
    by (rule Cons.IH [OF o(2)]) (use Cons.prems(2) in simp)
  also have "\<dots> = m" by (rule turn_field_twice) (use o(1) Cons.prems(2) f in simp)
  finally show ?case .
qed (simp add: turn_fields_def)

lemma ptlrpc_body_fields_ok: "fields_ok 8 ptlrpc_body_fields 152"
  by (simp add: ptlrpc_body_fields_def)

lemma turn_body_ok:
  assumes "body_ok m" and "\<forall>(k, off) \<in> set fs. off + k \<le> 152" and "b = body_at m"
  shows "body_ok (turn_fields fs b m) \<and> msg_count (turn_fields fs b m) = msg_count m \<and>
    msg_bytes (turn_fields fs b m) = msg_bytes m"
  using assms
proof (induction fs arbitrary: m)
  case (Cons f fs)
  let ?m = "turn_field b f m"
  have "snd f + length (rev (seg (b + snd f) (fst f) m)) \<le> 152" using Cons.prems(2) by (auto simp: min_def)
  note p = patch_body [OF Cons.prems(1) this, of ?m]
  have m: "?m = patch (body_at m + snd f) (rev (seg (b + snd f) (fst f) m)) m"
    by (simp add: turn_field_def Cons.prems(3))
  have "msg_bytes ?m = msg_bytes m" using p(2,4) [OF m] by (simp add: msg_bytes_def)
  then show ?case using Cons.IH [OF p(5) [OF m]] p(2) [OF m] Cons.prems by (simp add: turn_fields_Cons)
qed (simp add: turn_fields_def)

text \<open>A request as a host of the other byte order sends it.\<close>

definition foreign_request :: "mem \<Rightarrow> mem" where
  "foreign_request m = as_foreign (turn_fields ptlrpc_body_fields (body_at m) m)"

definition version_ok :: "mem \<Rightarrow> bool" where
  "version_ok m \<longleftrightarrow> rd32 (body_at m + pb_version) m AND NOT LUSTRE_VERSION_MASK = PTLRPC_MSG_VERSION"

lemma unpack_body_native:
  assumes "msg_lib_ok L" and "body_ok (rq_reqmsg req)" and "version_ok (rq_reqmsg req)"
    and "bit (rq_req_swab_mask req) 31 \<Longrightarrow> bit (rq_req_swab_mask req) 0"
  shows "lustre_unpack_req_ptlrpc_body L req 0 = Ret (0, req)"
proof -
  note b = body_okD [OF assms(2)]
  show ?thesis
    using body_found [OF assms(1,2)] b(4,5) assms(3,4)
    by (auto simp: lustre_unpack_req_ptlrpc_body_def lustre_unpack_ptlrpc_body_v2_def the_msg_def
        ptlrpc_buf_need_swab_def lustre_req_swabbed_def wire version_ok_def lustre_msg_ptlrpc_body_def)
qed


text \<open>A message with a body of 152 bytes whose version is 3 and whose type is 4711.\<close>

definition sample_request :: mem where
  "sample_request = to_le 4 (1 :: u32) @ replicate 4 0 @ to_le 4 LUSTRE_MSG_MAGIC_V2 @ replicate 20 0 @
     to_le 4 (152 :: u32) @ replicate 4 0 @ replicate 8 0 @ to_le 4 (4711 :: u32) @ to_le 4 (3 :: u32) @ replicate 136 0"

lemma sample_request_ok: "body_ok sample_request" "version_ok sample_request"
proof -
  have f: "msg_count sample_request = 1" "msg_len sample_request 0 = 152" "msg_bytes sample_request = 192"
    "length sample_request = 192" "rd32 lm_magic sample_request = LUSTRE_MSG_MAGIC_V2"
    by code_simp+
  then show "body_ok sample_request" by (simp add: body_ok_def msg_ok_def)
  have "rd32 52 sample_request = 3" by code_simp
  then show "version_ok sample_request" using f(1) by (simp add: version_ok_def hdr_bytes_def r8_def)
qed


theorem body_field_update_witness:
  "\<exists>m'. lustre_msg_set_opc sample_msg_lib sample_request 400 = Ret m' \<and> pb_get PB_OPC sample_msg_lib m' = Ret 400"
  using body_field_update [OF sample_msg_lib_ok sample_request_ok(1), of PB_OPC 400]
  by (auto simp: pb_new_def)

end
