(* ===== verification/Wire_Struct.thy ===== *)
theory Wire_Struct
  imports Body_Props "HOL-Library.Multiset"
begin

text \<open>
  C structures on the wire: types, the offsets a compiler gives to their fields by the rules of
  the ABI (natural alignment, or none for a packed structure), and the conversion of a structure
  from the other byte order by a sequence of \<open>__swab16s\<close>, \<open>__swab32s\<close> and \<open>__swab64s\<close>.
\<close>

section \<open>Types and layout\<close>

datatype ctype = U8 | U16 | U32 | U64 | Arr nat ctype | Struct bool cfields | Union cfields
and cfields = NoFld | Fld string ctype cfields

fun fields :: "(string \<times> ctype) list \<Rightarrow> cfields" where
  "fields [] = NoFld"
| "fields ((f, t) # fs) = Fld f t (fields fs)"

abbreviation struct :: "(string \<times> ctype) list \<Rightarrow> ctype" where "struct fs \<equiv> Struct False (fields fs)"
abbreviation packed :: "(string \<times> ctype) list \<Rightarrow> ctype" where "packed fs \<equiv> Struct True (fields fs)"
abbreviation union_of :: "(string \<times> ctype) list \<Rightarrow> ctype" where "union_of fs \<equiv> Union (fields fs)"

definition pad :: "nat \<Rightarrow> nat \<Rightarrow> nat" where
  "pad a n = a * ((n + (a - 1)) div a)"

primrec alignof :: "ctype \<Rightarrow> nat" and aligns :: "cfields \<Rightarrow> nat" where
  "alignof U8 = 1"
| "alignof U16 = 2"
| "alignof U32 = 4"
| "alignof U64 = 8"
| "alignof (Arr n t) = alignof t"
| "alignof (Struct pk fs) = (if pk then 1 else aligns fs)"
| "alignof (Union fs) = aligns fs"
| "aligns NoFld = 1"
| "aligns (Fld f t fs) = max (alignof t) (aligns fs)"

definition field_pos :: "bool \<Rightarrow> ctype \<Rightarrow> nat \<Rightarrow> nat" where
  "field_pos pk t n = (if pk then n else pad (alignof t) n)"

fun sizeof :: "ctype \<Rightarrow> nat" and end_of :: "cfields \<Rightarrow> bool \<Rightarrow> nat \<Rightarrow> nat" and largest :: "cfields \<Rightarrow> nat" where
  "sizeof U8 = 1"
| "sizeof U16 = 2"
| "sizeof U32 = 4"
| "sizeof U64 = 8"
| "sizeof (Arr n t) = n * sizeof t"
| "sizeof (Struct pk fs) = (if pk then end_of fs pk 0 else pad (aligns fs) (end_of fs pk 0))"
| "sizeof (Union fs) = pad (aligns fs) (largest fs)"
| "end_of NoFld pk n = n"
| "end_of (Fld f t fs) pk n = end_of fs pk (field_pos pk t n + sizeof t)"
| "largest NoFld = 0"
| "largest (Fld f t fs) = max (sizeof t) (largest fs)"

fun field_of :: "cfields \<Rightarrow> bool \<Rightarrow> nat \<Rightarrow> string \<Rightarrow> (nat \<times> ctype) option" where
  "field_of NoFld pk n f = None"
| "field_of (Fld g t fs) pk n f =
     (if f = g then Some (field_pos pk t n, t) else field_of fs pk (field_pos pk t n + sizeof t) f)"

fun member_of :: "cfields \<Rightarrow> string \<Rightarrow> ctype option" where
  "member_of NoFld f = None"
| "member_of (Fld g t fs) f = (if f = g then Some t else member_of fs f)"

text \<open>\<open>locate T p\<close>: the offset and the type of \<open>((T *)0)->p\<close>.\<close>

datatype step = M string | I nat

fun locate :: "ctype \<Rightarrow> step list \<Rightarrow> (nat \<times> ctype) option" where
  "locate t [] = Some (0, t)"
| "locate (Struct pk fs) (M f # p) =
     (case field_of fs pk 0 f of None \<Rightarrow> None
      | Some (off, t) \<Rightarrow> map_option (\<lambda>(off', t'). (off + off', t')) (locate t p))"
| "locate (Union fs) (M f # p) = (case member_of fs f of None \<Rightarrow> None | Some t \<Rightarrow> locate t p)"
| "locate (Arr n t) (I i # p) = map_option (\<lambda>(off, t'). (i * sizeof t + off, t')) (locate t p)"
| "locate t (s # p) = None"

text \<open>
  The integers of a structure that are wider than a byte, in the order of the fields (of a union
  the first member), except for the fields of the structure named in \<open>skip\<close>: width and offset.
\<close>

definition shift :: "nat \<Rightarrow> (nat \<times> nat) list \<Rightarrow> (nat \<times> nat) list" where
  "shift off = map (\<lambda>(k, x). (k, off + x))"

fun ints :: "ctype \<Rightarrow> (nat \<times> nat) list" and ints_of :: "cfields \<Rightarrow> bool \<Rightarrow> nat \<Rightarrow> string list \<Rightarrow> (nat \<times> nat) list"
    and first_ints :: "cfields \<Rightarrow> (nat \<times> nat) list" where
  "ints U8 = []"
| "ints U16 = [(2, 0)]"
| "ints U32 = [(4, 0)]"
| "ints U64 = [(8, 0)]"
| "ints (Arr n t) = (let js = ints t in if js = [] then [] else concat (map (\<lambda>i. shift (i * sizeof t) js) [0..<n]))"
| "ints (Struct pk fs) = ints_of fs pk 0 []"
| "ints (Union fs) = first_ints fs"
| "ints_of NoFld pk n skip = []"
| "ints_of (Fld f t fs) pk n skip =
     (if f \<in> set skip then [] else shift (field_pos pk t n) (ints t)) @ ints_of fs pk (field_pos pk t n + sizeof t) skip"
| "first_ints NoFld = []"
| "first_ints (Fld f t fs) = ints t"

definition ints_but :: "string list \<Rightarrow> ctype \<Rightarrow> (nat \<times> nat) list" where
  "ints_but skip T = (case T of Struct pk fs \<Rightarrow> ints_of fs pk 0 skip | _ \<Rightarrow> ints T)"

section \<open>Swab functions\<close>

text \<open>
  The body of a swab function: \<open>Swab k p\<close> is \<open>__swab16s(&x->p)\<close> and the like, \<open>Call f p\<close> is
  \<open>f(&x->p)\<close>. \<open>b\<close> is the address of the structure.
\<close>

datatype swab_op = Swab nat "step list" | Call "nat \<Rightarrow> mem \<Rightarrow> mem outcome" "step list"

fun swab_run :: "ctype \<Rightarrow> swab_op list \<Rightarrow> nat \<Rightarrow> mem \<Rightarrow> mem outcome" where
  "swab_run T [] b m = Ret m"
| "swab_run T (Swab k p # ops) b m =
     (case locate T p of None \<Rightarrow> Fault LBUG
      | Some (off, _) \<Rightarrow> bindO (swabs k (b + off) m) (swab_run T ops b))"
| "swab_run T (Call f p # ops) b m =
     (case locate T p of None \<Rightarrow> Fault LBUG
      | Some (off, _) \<Rightarrow> bindO (f (b + off) m) (swab_run T ops b))"

section \<open>What a swab function does\<close>

lemma bindO_cong: "(\<And>x. f x = g x) \<Longrightarrow> bindO m f = bindO m g"
  by (cases m) simp_all

lemma swab_fields_append: "swab_fields (xs @ ys) b m = bindO (swab_fields xs b m) (swab_fields ys b)"
  by (induction xs b m rule: swab_fields.induct) (auto simp: bindO_bindO intro: bindO_cong)

lemma swab_fields_shift: "swab_fields fs (b + off) m = swab_fields (shift off fs) b m"
  by (induction fs "b + off" m rule: swab_fields.induct) (auto simp: shift_def add.assoc intro: bindO_cong)

text \<open>\<open>swabs_exactly f fs\<close>: \<open>f\<close> reverses the integers \<open>fs\<close>, one after the other.\<close>

definition swabs_exactly :: "(nat \<Rightarrow> mem \<Rightarrow> mem outcome) \<Rightarrow> (nat \<times> nat) list \<Rightarrow> bool" where
  "swabs_exactly f fs \<longleftrightarrow> (\<forall>b m. f b m = swab_fields fs b m)"

lemma run_Nil: "swabs_exactly (swab_run T []) []"
  by (simp add: swabs_exactly_def)

lemma run_Swab:
  assumes "map_option fst (locate T p) = Some off" and "swabs_exactly (swab_run T ops) fs"
  shows "swabs_exactly (swab_run T (Swab k p # ops)) ((k, off) # fs)"
  using assms by (fastforce simp: swabs_exactly_def intro!: bindO_cong)

lemma run_Call:
  assumes "map_option fst (locate T p) = Some off" and "swabs_exactly f gs" and "swabs_exactly (swab_run T ops) fs"
  shows "swabs_exactly (swab_run T (Call f p # ops)) (shift off gs @ fs)"
  using assms by (fastforce simp: swabs_exactly_def swab_fields_append swab_fields_shift intro!: bindO_cong)

lemma run_eq: "swabs_exactly f fs \<Longrightarrow> fs = gs \<Longrightarrow> swabs_exactly f gs"
  by simp

lemmas run_rules = run_Nil run_Swab run_Call

lemma run_append:
  assumes "swabs_exactly (swab_run T xs) fs" and "swabs_exactly (swab_run T ys) gs"
  shows "swabs_exactly (swab_run T (xs @ ys)) (fs @ gs)"
proof -
  have "swab_run T (xs @ ys) b m = bindO (swab_run T xs b m) (swab_run T ys b)" for b m
    by (induction T xs b m rule: swab_run.induct)
      (auto simp: bindO_bindO intro!: bindO_cong split: option.split)
  then show ?thesis
    using assms by (auto simp: swabs_exactly_def swab_fields_append intro!: bindO_cong)
qed

text \<open>A loop over an array of 64 bit integers.\<close>

lemma run_loop:
  assumes "list_all (\<lambda>i. map_option fst (locate T (p i)) = Some (off i)) is"
  shows "swabs_exactly (swab_run T (map (\<lambda>i. Swab k (p i)) is)) (map (\<lambda>i. (k, off i)) is)"
  using assms by (induction "is") (auto simp: run_Nil intro!: run_Swab)

text \<open>The integers of a list do not overlap and lie in the first \<open>n\<close> bytes.\<close>

definition apart :: "nat \<times> nat \<Rightarrow> nat \<times> nat \<Rightarrow> bool" where
  "apart f g \<longleftrightarrow> snd f + fst f \<le> snd g \<or> snd g + fst g \<le> snd f"

fun separate :: "(nat \<times> nat) list \<Rightarrow> bool" where
  "separate [] \<longleftrightarrow> True"
| "separate (f # fs) \<longleftrightarrow> list_all (apart f) fs \<and> separate fs"

definition inside :: "nat \<Rightarrow> (nat \<times> nat) list \<Rightarrow> bool" where
  "inside n fs \<longleftrightarrow> list_all (\<lambda>f. snd f + fst f \<le> n) fs"

lemma swab_fields_inside:
  assumes "inside n fs" and "b + n \<le> length m"
  shows "swab_fields fs b m = Ret (turn_fields fs b m)"
  using assms
proof (induction fs arbitrary: m)
  case (Cons f fs)
  obtain k off where f: "f = (k, off)" by (cases f)
  have "inside n fs" "off + k \<le> n" using Cons.prems(1) f by (simp_all add: inside_def)
  then show ?case
    using Cons.IH [of "turn_field b f m"] Cons.prems(2)
    by (simp add: f wire turn_fields_Cons turn_field_def)
qed (simp add: turn_fields_def)

lemma turn_out:
  assumes "list_all (apart f) fs" and "inside n (f # fs)" and "b + n \<le> length m"
  shows "turn_fields fs b (turn_field b f m) = turn_field b f (turn_fields fs b m)"
  using assms
proof (induction fs arbitrary: m)
  case (Cons g fs)
  have "turn_field b g (turn_field b f m) = turn_field b f (turn_field b g m)"
    by (rule turn_field_comm) (use Cons.prems in \<open>auto simp: apart_def inside_def\<close>)
  then show ?case
    using Cons.IH [of "turn_field b g m"] Cons.prems by (simp add: turn_fields_Cons inside_def)
qed (simp add: turn_fields_def)

lemma turn_fields_append: "turn_fields (xs @ ys) b m = turn_fields ys b (turn_fields xs b m)"
  by (simp add: turn_fields_def)

text \<open>An integer that is reversed twice comes out as it was.\<close>

lemma turn_twice:
  assumes "list_all (apart f) ys" and "inside n (f # ys)" and "b + n \<le> length m"
  shows "turn_fields (xs @ f # ys @ f # zs) b m = turn_fields (xs @ ys @ zs) b m"
proof -
  let ?m = "turn_fields xs b m"
  have f: "b + snd f + fst f \<le> length ?m" using assms(2,3) by (simp add: inside_def)
  have "turn_field b f (turn_fields ys b (turn_field b f ?m)) = turn_fields ys b (turn_field b f (turn_field b f ?m))"
    using turn_out [OF assms(1,2), of b "turn_field b f ?m"] assms(3) by simp
  then show ?thesis using turn_field_twice [OF f] by (simp add: turn_fields_append turn_fields_Cons)
qed

text \<open>The order in which separate integers are reversed does not matter.\<close>

lemma separate_apart: "separate fs \<Longrightarrow> f \<in> set fs \<Longrightarrow> list_all (apart f) (remove1 f fs)"
proof (induction fs)
  case (Cons g fs)
  have "apart a c = apart c a" for a c by (auto simp: apart_def)
  with Cons show ?case by (auto simp: list_all_iff)
qed simp

lemma separate_remove1: "separate fs \<Longrightarrow> separate (remove1 f fs)"
  by (induction fs) (auto simp: list_all_iff dest: notin_set_remove1 set_mp [OF set_remove1_subset])

lemma turn_first:
  assumes "separate fs" and "inside n fs" and "b + n \<le> length m" and "f \<in> set fs"
  shows "turn_fields fs b m = turn_fields (remove1 f fs) b (turn_field b f m)"
  using assms
proof (induction fs arbitrary: m)
  case (Cons g fs)
  show ?case
  proof (cases "f = g")
    case False
    then have f: "f \<in> set fs" using Cons.prems(4) by simp
    have "apart g f" using Cons.prems(1) f by (simp add: list_all_iff)
    then have "turn_field b f (turn_field b g m) = turn_field b g (turn_field b f m)"
      by (intro turn_field_comm) (use Cons.prems f in \<open>auto simp: apart_def inside_def list_all_iff\<close>)
    then show ?thesis
      using Cons.IH [of "turn_field b g m"] Cons.prems f False by (simp add: turn_fields_Cons inside_def)
  qed (simp add: turn_fields_Cons)
qed simp

lemma turn_permuted:
  assumes "mset fs = mset gs" and "separate gs" and "inside n gs" and "b + n \<le> length m"
  shows "turn_fields fs b m = turn_fields gs b m"
  using assms
proof (induction fs arbitrary: gs m)
  case (Cons f fs)
  have f: "f \<in> set gs" using Cons.prems(1) by (metis list.set_intros(1) set_mset_mset)
  have "mset fs = mset (remove1 f gs)" using Cons.prems(1) by (metis mset_remove1 remove1.simps(2))
  moreover have "inside n (remove1 f gs)"
    using Cons.prems(3) by (auto simp: inside_def list_all_iff dest: set_mp [OF set_remove1_subset])
  ultimately have "turn_fields fs b (turn_field b f m) = turn_fields (remove1 f gs) b (turn_field b f m)"
    using Cons.IH [of "remove1 f gs" "turn_field b f m"] separate_remove1 [OF Cons.prems(2)] Cons.prems(4) by simp
  then show ?case using turn_first [OF Cons.prems(2-4) f] by (simp add: turn_fields_Cons)
qed simp

lemma turn_separate_twice:
  assumes "separate fs" and "inside n fs" and "b + n \<le> length m"
  shows "turn_fields fs b (turn_fields fs b m) = m"
  using assms
proof (induction fs arbitrary: m)
  case (Cons f fs)
  have s: "list_all (apart f) fs" "separate fs" "inside n fs" using Cons.prems by (simp_all add: inside_def)
  have f: "b + snd f + fst f \<le> length (turn_fields fs b m)" using Cons.prems(2,3) by (simp add: inside_def)
  have "turn_fields fs b (turn_field b f m) = turn_field b f (turn_fields fs b m)"
    by (rule turn_out [OF s(1) Cons.prems(2,3)])
  then show ?case using Cons.IH [OF s(2,3) Cons.prems(3)] turn_field_twice [OF f] by (simp add: turn_fields_Cons)
qed (simp add: turn_fields_def)

text \<open>
  The contract of a swab function of type \<open>T\<close>: it reverses every integer of the structure once,
  except those of the fields \<open>skip\<close>, and nothing else. The fields of a structure come in the order
  of their offsets: sorting the integers the function turns shows that none is missing.
\<close>

definition ints_ok :: "ctype \<Rightarrow> string list \<Rightarrow> bool" where
  "ints_ok T skip \<longleftrightarrow> separate (ints_but skip T) \<and> inside (sizeof T) (ints_but skip T)"

definition swab_ok :: "ctype \<Rightarrow> string list \<Rightarrow> (nat \<Rightarrow> mem \<Rightarrow> mem outcome) \<Rightarrow> bool" where
  "swab_ok T skip f \<longleftrightarrow> (\<forall>b m. b + sizeof T \<le> length m \<longrightarrow>
     f b m = Ret (turn_fields (ints_but skip T) b m) \<and> f b (turn_fields (ints_but skip T) b m) = Ret m)"

lemma swab_okI:
  assumes "swabs_exactly f fs" and "sort_key snd fs = ints_but skip T" and "ints_ok T skip"
  shows "swab_ok T skip f"
proof -
  let ?t = "turn_fields (ints_but skip T)"
  have p: "mset fs = mset (ints_but skip T)" using assms(2) by (metis mset_sort)
  note s = assms(3) [unfolded ints_ok_def]
  have "set fs = set (ints_but skip T)" using p by (metis set_mset_mset)
  then have i: "inside (sizeof T) fs" using s by (simp add: inside_def list_all_iff)
  have f: "f b m = Ret (?t b m)" if l: "b + sizeof T \<le> length m" for b m
    using assms(1) swab_fields_inside [OF i l] turn_permuted [OF p _ _ l] s by (simp add: swabs_exactly_def)
  show ?thesis unfolding swab_ok_def using f turn_separate_twice s by auto
qed

end
