(* ===== verification/Wire_Idl.thy ===== *)
theory Wire_Idl
  imports Wire_Struct
begin

text \<open>
  Structures of \<open>lustre_idl.h\<close>, field by field, and the checks of \<open>lustre_assert_wire_constants\<close>
  (\<open>lustre_ptlrpc_wiretest.c\<close>) on them, which run when the module is loaded. Arrays of length 0 at
  the end of a structure are left out. \<open>lu_fid\<close> has the fields the accessors \<open>fid_seq\<close>, \<open>fid_oid\<close> and
  \<open>fid_ver\<close> return, \<open>obd_uuid\<close> the 40 bytes the checks ask for.
\<close>

section \<open>Structures\<close>

definition lu_fid :: ctype where
  "lu_fid = struct [(''f_seq'', U64), (''f_oid'', U32), (''f_ver'', U32)]"

definition obd_uuid :: ctype where
  "obd_uuid = struct [(''uuid'', Arr 40 U8)]"

definition niobuf_remote :: ctype where
  "niobuf_remote = struct [
    (''rnb_offset'', U64), (''rnb_len'', U32), (''rnb_flags'', U32)]"

definition ost_lvb_v1 :: ctype where
  "ost_lvb_v1 = struct [
    (''lvb_size'', U64), (''lvb_mtime'', U64), (''lvb_atime'', U64), (''lvb_ctime'', U64), (''lvb_blocks'', U64)]"

definition ost_lvb :: ctype where
  "ost_lvb = struct [
    (''lvb_size'', U64), (''lvb_mtime'', U64), (''lvb_atime'', U64), (''lvb_ctime'', U64), (''lvb_blocks'', U64),
    (''lvb_mtime_ns'', U32), (''lvb_atime_ns'', U32), (''lvb_ctime_ns'', U32), (''lvb_padding'', U32)]"

definition lquota_lvb :: ctype where
  "lquota_lvb = struct [
    (''lvb_flags'', U64), (''lvb_id_may_rel'', U64), (''lvb_id_rel'', U64), (''lvb_id_qunit'', U64),
    (''lvb_pad1'', U64)]"

definition lquota_id :: ctype where
  "lquota_id = union_of [
    (''qid_fid'', lu_fid), (''qid_uid'', U64), (''qid_gid'', U64)]"

definition ldlm_gl_lquota_desc :: ctype where
  "ldlm_gl_lquota_desc = struct [
    (''gl_id'', lquota_id), (''gl_flags'', U64), (''gl_ver'', U64), (''gl_hardlimit'', U64),
    (''gl_softlimit'', U64), (''gl_time'', U64), (''gl_pad2'', U64)]"

definition ldlm_gl_desc :: ctype where
  "ldlm_gl_desc = union_of [
    (''lquota_desc'', ldlm_gl_lquota_desc)]"

definition lustre_handle :: ctype where
  "lustre_handle = struct [
    (''cookie'', U64)]"

definition mdt_body :: ctype where
  "mdt_body = struct [
    (''mbo_fid1'', lu_fid), (''mbo_fid2'', lu_fid), (''mbo_handle'', lustre_handle), (''mbo_valid'', U64),
    (''mbo_size'', U64), (''mbo_mtime'', U64), (''mbo_atime'', U64), (''mbo_ctime'', U64), (''mbo_blocks'', U64),
    (''mbo_ioepoch'', U64), (''mbo_t_state'', U64), (''mbo_fsuid'', U32), (''mbo_fsgid'', U32),
    (''mbo_capability'', U32), (''mbo_mode'', U32), (''mbo_uid'', U32), (''mbo_gid'', U32), (''mbo_flags'', U32),
    (''mbo_rdev'', U32), (''mbo_nlink'', U32), (''mbo_unused2'', U32), (''mbo_suppgid'', U32),
    (''mbo_eadatasize'', U32), (''mbo_aclsize'', U32), (''mbo_max_mdsize'', U32), (''mbo_unused3'', U32),
    (''mbo_uid_h'', U32), (''mbo_gid_h'', U32), (''mbo_padding_5'', U32), (''mbo_padding_6'', U64),
    (''mbo_padding_7'', U64), (''mbo_padding_8'', U64), (''mbo_padding_9'', U64), (''mbo_padding_10'', U64)]"

definition mdt_ioepoch :: ctype where
  "mdt_ioepoch = struct [
    (''mio_handle'', lustre_handle), (''mio_unused1'', U64), (''mio_unused2'', U32), (''mio_padding'', U32)]"

definition mgs_target_info :: ctype where
  "mgs_target_info = struct [
    (''mti_lustre_ver'', U32), (''mti_stripe_index'', U32), (''mti_config_ver'', U32), (''mti_flags'', U32),
    (''mti_nid_count'', U32), (''mti_instance'', U32), (''mti_fsname'', Arr 64 U8), (''mti_svname'', Arr 64 U8),
    (''mti_uuid'', Arr 40 U8), (''mti_nids'', Arr 32 U64), (''mti_params'', Arr 4096 U8)]"

definition mgs_config_body :: ctype where
  "mgs_config_body = struct [
    (''mcb_name'', Arr 64 U8), (''mcb_offset'', U64), (''mcb_type'', U16), (''mcb_reserved'', U8),
    (''mcb_bits'', U8), (''mcb_units'', U32)]"

definition mgs_config_res :: ctype where
  "mgs_config_res = struct [
    (''mcr_offset'', U64), (''mcr_size'', U64)]"

definition mdt_remote_perm :: ctype where
  "mdt_remote_perm = struct [
    (''rp_uid'', U32), (''rp_gid'', U32), (''rp_fsuid'', U32), (''rp_fsuid_h'', U32), (''rp_fsgid'', U32),
    (''rp_fsgid_h'', U32), (''rp_access_perm'', U32), (''rp_padding'', U32)]"

definition getinfo_fid2path :: ctype where
  "getinfo_fid2path = packed [
    (''gf_fid'', lu_fid), (''gf_recno'', U64), (''gf_linkno'', U32), (''gf_pathlen'', U32)]"

definition idx_info :: ctype where
  "idx_info = struct [
    (''ii_magic'', U32), (''ii_flags'', U32), (''ii_count'', U16), (''ii_pad0'', U16), (''ii_attrs'', U32),
    (''ii_fid'', lu_fid), (''ii_version'', U64), (''ii_hash_start'', U64), (''ii_hash_end'', U64),
    (''ii_keysize'', U16), (''ii_recsize'', U16), (''ii_pad1'', U32), (''ii_pad2'', U64), (''ii_pad3'', U64)]"

definition lu_idxpage :: ctype where
  "lu_idxpage = struct [
    (''lip_magic'', U32), (''lip_flags'', U16), (''lip_nr'', U16), (''lip_pad0'', U64)]"

definition mdt_rec_reint :: ctype where
  "mdt_rec_reint = struct [
    (''rr_opcode'', U32), (''rr_cap'', U32), (''rr_fsuid'', U32), (''rr_fsuid_h'', U32), (''rr_fsgid'', U32),
    (''rr_fsgid_h'', U32), (''rr_suppgid1'', U32), (''rr_suppgid1_h'', U32), (''rr_suppgid2'', U32),
    (''rr_suppgid2_h'', U32), (''rr_fid1'', lu_fid), (''rr_fid2'', lu_fid), (''rr_mtime'', U64),
    (''rr_atime'', U64), (''rr_ctime'', U64), (''rr_size'', U64), (''rr_blocks'', U64), (''rr_bias'', U32),
    (''rr_mode'', U32), (''rr_flags'', U32), (''rr_flags_h'', U32), (''rr_umask'', U32), (''rr_padding_4'', U32)]"

definition lov_desc :: ctype where
  "lov_desc = struct [
    (''ld_tgt_count'', U32), (''ld_active_tgt_count'', U32), (''ld_default_stripe_count'', U32),
    (''ld_pattern'', U32), (''ld_default_stripe_size'', U64), (''ld_default_stripe_offset'', U64),
    (''ld_padding_0'', U32), (''ld_qos_maxage'', U32), (''ld_padding_1'', U32), (''ld_padding_2'', U32),
    (''ld_uuid'', obd_uuid)]"

definition lmv_desc :: ctype where
  "lmv_desc = struct [
    (''ld_tgt_count'', U32), (''ld_active_tgt_count'', U32), (''ld_default_stripe_count'', U32),
    (''ld_pattern'', U32), (''ld_default_hash_size'', U64), (''ld_padding_1'', U64), (''ld_padding_2'', U32),
    (''ld_qos_maxage'', U32), (''ld_padding_3'', U32), (''ld_padding_4'', U32), (''ld_uuid'', obd_uuid)]"

definition ldlm_res_id :: ctype where
  "ldlm_res_id = struct [
    (''name'', Arr 4 U64)]"

definition ldlm_extent :: ctype where
  "ldlm_extent = struct [
    (''start'', U64), (''end'', U64), (''gid'', U64)]"

definition ldlm_flock_wire :: ctype where
  "ldlm_flock_wire = struct [
    (''lfw_start'', U64), (''lfw_end'', U64), (''lfw_owner'', U64), (''lfw_padding'', U32), (''lfw_pid'', U32)]"

definition ldlm_inodebits :: ctype where
  "ldlm_inodebits = struct [
    (''bits'', U64)]"

definition ldlm_wire_policy_data :: ctype where
  "ldlm_wire_policy_data = union_of [
    (''l_extent'', ldlm_extent), (''l_flock'', ldlm_flock_wire), (''l_inodebits'', ldlm_inodebits)]"

definition ldlm_intent :: ctype where
  "ldlm_intent = struct [
    (''opc'', U64)]"

definition ldlm_resource_desc :: ctype where
  "ldlm_resource_desc = struct [
    (''lr_type'', U32), (''lr_pad'', U32), (''lr_name'', ldlm_res_id)]"

definition ldlm_lock_desc :: ctype where
  "ldlm_lock_desc = struct [
    (''l_resource'', ldlm_resource_desc), (''l_req_mode'', U32), (''l_granted_mode'', U32),
    (''l_policy_data'', ldlm_wire_policy_data)]"

definition ldlm_request :: ctype where
  "ldlm_request = struct [
    (''lock_flags'', U32), (''lock_count'', U32), (''lock_desc'', ldlm_lock_desc),
    (''lock_handle'', Arr 2 lustre_handle)]"

definition ldlm_reply :: ctype where
  "ldlm_reply = struct [
    (''lock_flags'', U32), (''lock_padding'', U32), (''lock_desc'', ldlm_lock_desc),
    (''lock_handle'', lustre_handle), (''lock_policy_res1'', U64), (''lock_policy_res2'', U64)]"

definition quota_body :: ctype where
  "quota_body = struct [
    (''qb_fid'', lu_fid), (''qb_id'', lquota_id), (''qb_flags'', U32), (''qb_padding'', U32),
    (''qb_count'', U64), (''qb_usage'', U64), (''qb_slv_ver'', U64), (''qb_lockh'', lustre_handle),
    (''qb_glb_lockh'', lustre_handle), (''qb_padding1'', Arr 4 U64)]"

definition lustre_capa :: ctype where
  "lustre_capa = packed [
    (''lc_fid'', lu_fid), (''lc_opc'', U64), (''lc_uid'', U64), (''lc_gid'', U64), (''lc_flags'', U32),
    (''lc_keyid'', U32), (''lc_timeout'', U32), (''lc_expiry'', U32), (''lc_hmac'', Arr 64 U8)]"

definition lustre_capa_key :: ctype where
  "lustre_capa_key = packed [
    (''lk_seq'', U64), (''lk_keyid'', U32), (''lk_padding'', U32), (''lk_key'', Arr 56 U8)]"

definition hsm_state_set :: ctype where
  "hsm_state_set = struct [
    (''hss_valid'', U32), (''hss_archive_id'', U32), (''hss_setmask'', U64), (''hss_clearmask'', U64)]"

definition layout_intent :: ctype where
  "layout_intent = struct [
    (''li_opc'', U32), (''li_flags'', U32), (''li_start'', U64), (''li_end'', U64)]"

definition object_update_result :: ctype where
  "object_update_result = struct [
    (''our_rc'', U32), (''our_datalen'', U16), (''our_padding'', U16)]"

definition out_update_header :: ctype where
  "out_update_header = struct [
    (''ouh_magic'', U32), (''ouh_count'', U32), (''ouh_inline_length'', U32), (''ouh_reply_size'', U32)]"

definition out_update_buffer :: ctype where
  "out_update_buffer = struct [
    (''oub_size'', U32), (''oub_padding'', U32)]"

definition mdc_swap_layouts :: ctype where
  "mdc_swap_layouts = packed [
    (''msl_flags'', U64)]"

definition close_data :: ctype where
  "close_data = struct [
    (''cd_handle'', lustre_handle), (''cd_fid'', lu_fid), (''cd_data_version'', U64),
    (''cd_reserved'', Arr 8 U64)]"

definition lfsck_request :: ctype where
  "lfsck_request = struct [
    (''lr_event'', U32), (''lr_index'', U32), (''lr_flags'', U32), (''lr_valid'', U32), (''lr_speed'', U32),
    (''lr_version'', U16), (''lr_active'', U16), (''lr_param'', U16), (''lr_async_windows'', U16),
    (''lr_flags2'', U32), (''lr_fid'', lu_fid), (''lr_fid2'', lu_fid), (''lr_fid3'', lu_fid),
    (''lr_padding_1'', U64), (''lr_padding_2'', U64)]"

definition lfsck_reply :: ctype where
  "lfsck_reply = struct [
    (''lr_status'', U32), (''lr_padding_1'', U32), (''lr_padding_2'', U64)]"

definition lu_orphan_rec :: ctype where
  "lu_orphan_rec = struct [
    (''lor_fid'', lu_fid), (''lor_uid'', U32), (''lor_gid'', U32)]"

definition lu_orphan_ent :: ctype where
  "lu_orphan_ent = struct [
    (''loe_key'', lu_fid), (''loe_rec'', lu_orphan_rec)]"

definition ptlrpc_body_v3 :: ctype where
  "ptlrpc_body_v3 = struct [
    (''pb_handle'', lustre_handle), (''pb_type'', U32), (''pb_version'', U32), (''pb_opc'', U32),
    (''pb_status'', U32), (''pb_last_xid'', U64), (''pb_tag'', U16), (''pb_padding0'', U16),
    (''pb_padding1'', U32), (''pb_last_committed'', U64), (''pb_transno'', U64), (''pb_flags'', U32),
    (''pb_op_flags'', U32), (''pb_conn_cnt'', U32), (''pb_timeout'', U32), (''pb_service_time'', U32),
    (''pb_limit'', U32), (''pb_slv'', U64), (''pb_pre_versions'', Arr 4 U64), (''pb_mbits'', U64),
    (''pb_padding64_0'', U64), (''pb_padding64_1'', U64), (''pb_padding64_2'', U64), (''pb_jobid'', Arr 32 U8)]"

definition lustre_msg_v2 :: ctype where
  "lustre_msg_v2 = struct [
    (''lm_bufcount'', U32), (''lm_secflvr'', U32), (''lm_magic'', U32), (''lm_repsize'', U32),
    (''lm_cksum'', U32), (''lm_flags'', U32), (''lm_padding_2'', U32), (''lm_padding_3'', U32)]"

lemmas wire_types = lu_fid_def obd_uuid_def niobuf_remote_def ost_lvb_v1_def ost_lvb_def lquota_lvb_def lquota_id_def ldlm_gl_lquota_desc_def ldlm_gl_desc_def lustre_handle_def mdt_body_def mdt_ioepoch_def mgs_target_info_def mgs_config_body_def mgs_config_res_def mdt_remote_perm_def getinfo_fid2path_def idx_info_def lu_idxpage_def mdt_rec_reint_def lov_desc_def lmv_desc_def ldlm_res_id_def ldlm_extent_def ldlm_flock_wire_def ldlm_inodebits_def ldlm_wire_policy_data_def ldlm_intent_def ldlm_resource_desc_def ldlm_lock_desc_def ldlm_request_def ldlm_reply_def quota_body_def lustre_capa_def lustre_capa_key_def hsm_state_set_def layout_intent_def object_update_result_def out_update_header_def out_update_buffer_def mdc_swap_layouts_def close_data_def lfsck_request_def lfsck_reply_def lu_orphan_rec_def lu_orphan_ent_def ptlrpc_body_v3_def lustre_msg_v2_def

section \<open>The checks\<close>

text \<open>A type, its size, and the offset and size of each of its fields.\<close>

type_synonym wire_check = "ctype \<times> nat \<times> (step list \<times> nat \<times> nat) list"

fun check_fields :: "ctype \<Rightarrow> (step list \<times> nat \<times> nat) list \<Rightarrow> unit outcome" where
  "check_fields T [] = Ret ()"
| "check_fields T ((p, off, sz) # cs) =
     (case locate T p of None \<Rightarrow> Fault LBUG
      | Some (off', t) \<Rightarrow> lassert (off' = off) (lassert (sizeof t = sz) (check_fields T cs)))"

fun check_wire :: "wire_check list \<Rightarrow> unit outcome" where
  "check_wire [] = Ret ()"
| "check_wire ((T, sz, cs) # ws) = lassert (sizeof T = sz) (bindO (check_fields T cs) (\<lambda>_. check_wire ws))"

definition wire_niobuf_remote :: wire_check where
  "wire_niobuf_remote = (niobuf_remote, 16, [
    ([M ''rnb_offset''], 0, 8), ([M ''rnb_len''], 8, 4), ([M ''rnb_flags''], 12, 4)])"

definition wire_ost_lvb_v1 :: wire_check where
  "wire_ost_lvb_v1 = (ost_lvb_v1, 40, [
    ([M ''lvb_size''], 0, 8), ([M ''lvb_mtime''], 8, 8), ([M ''lvb_atime''], 16, 8), ([M ''lvb_ctime''], 24, 8),
    ([M ''lvb_blocks''], 32, 8)])"

definition wire_ost_lvb :: wire_check where
  "wire_ost_lvb = (ost_lvb, 56, [
    ([M ''lvb_size''], 0, 8), ([M ''lvb_mtime''], 8, 8), ([M ''lvb_atime''], 16, 8), ([M ''lvb_ctime''], 24, 8),
    ([M ''lvb_blocks''], 32, 8), ([M ''lvb_mtime_ns''], 40, 4), ([M ''lvb_atime_ns''], 44, 4),
    ([M ''lvb_ctime_ns''], 48, 4), ([M ''lvb_padding''], 52, 4)])"

definition wire_lquota_lvb :: wire_check where
  "wire_lquota_lvb = (lquota_lvb, 40, [
    ([M ''lvb_flags''], 0, 8), ([M ''lvb_id_may_rel''], 8, 8), ([M ''lvb_id_rel''], 16, 8),
    ([M ''lvb_id_qunit''], 24, 8), ([M ''lvb_pad1''], 32, 8)])"

definition wire_lquota_id :: wire_check where
  "wire_lquota_id = (lquota_id, 16, [])"

definition wire_ldlm_gl_lquota_desc :: wire_check where
  "wire_ldlm_gl_lquota_desc = (ldlm_gl_lquota_desc, 64, [
    ([M ''gl_id''], 0, 16), ([M ''gl_flags''], 16, 8), ([M ''gl_ver''], 24, 8), ([M ''gl_hardlimit''], 32, 8),
    ([M ''gl_softlimit''], 40, 8), ([M ''gl_time''], 48, 8), ([M ''gl_pad2''], 56, 8)])"

definition wire_lustre_handle :: wire_check where
  "wire_lustre_handle = (lustre_handle, 8, [
    ([M ''cookie''], 0, 8)])"

definition wire_mdt_body :: wire_check where
  "wire_mdt_body = (mdt_body, 216, [
    ([M ''mbo_fid1''], 0, 16), ([M ''mbo_fid2''], 16, 16), ([M ''mbo_handle''], 32, 8),
    ([M ''mbo_valid''], 40, 8), ([M ''mbo_size''], 48, 8), ([M ''mbo_mtime''], 56, 8),
    ([M ''mbo_atime''], 64, 8), ([M ''mbo_ctime''], 72, 8), ([M ''mbo_blocks''], 80, 8),
    ([M ''mbo_t_state''], 96, 8), ([M ''mbo_fsuid''], 104, 4), ([M ''mbo_fsgid''], 108, 4),
    ([M ''mbo_capability''], 112, 4), ([M ''mbo_mode''], 116, 4), ([M ''mbo_uid''], 120, 4),
    ([M ''mbo_gid''], 124, 4), ([M ''mbo_flags''], 128, 4), ([M ''mbo_rdev''], 132, 4),
    ([M ''mbo_nlink''], 136, 4), ([M ''mbo_unused2''], 140, 4), ([M ''mbo_suppgid''], 144, 4),
    ([M ''mbo_eadatasize''], 148, 4), ([M ''mbo_aclsize''], 152, 4), ([M ''mbo_max_mdsize''], 156, 4),
    ([M ''mbo_unused3''], 160, 4), ([M ''mbo_uid_h''], 164, 4), ([M ''mbo_gid_h''], 168, 4),
    ([M ''mbo_padding_5''], 172, 4), ([M ''mbo_padding_6''], 176, 8), ([M ''mbo_padding_7''], 184, 8),
    ([M ''mbo_padding_8''], 192, 8), ([M ''mbo_padding_9''], 200, 8), ([M ''mbo_padding_10''], 208, 8)])"

definition wire_mdt_ioepoch :: wire_check where
  "wire_mdt_ioepoch = (mdt_ioepoch, 24, [
    ([M ''mio_handle''], 0, 8), ([M ''mio_unused1''], 8, 8), ([M ''mio_unused2''], 16, 4),
    ([M ''mio_padding''], 20, 4)])"

definition wire_mgs_target_info :: wire_check where
  "wire_mgs_target_info = (mgs_target_info, 4544, [
    ([M ''mti_lustre_ver''], 0, 4), ([M ''mti_stripe_index''], 4, 4), ([M ''mti_config_ver''], 8, 4),
    ([M ''mti_flags''], 12, 4), ([M ''mti_nid_count''], 16, 4), ([M ''mti_instance''], 20, 4),
    ([M ''mti_fsname''], 24, 64), ([M ''mti_svname''], 88, 64), ([M ''mti_uuid''], 152, 40),
    ([M ''mti_nids''], 192, 256), ([M ''mti_params''], 448, 4096)])"

definition wire_mdt_remote_perm :: wire_check where
  "wire_mdt_remote_perm = (mdt_remote_perm, 32, [
    ([M ''rp_uid''], 0, 4), ([M ''rp_gid''], 4, 4), ([M ''rp_fsuid''], 8, 4), ([M ''rp_fsgid''], 16, 4),
    ([M ''rp_access_perm''], 24, 4), ([M ''rp_padding''], 28, 4)])"

definition wire_getinfo_fid2path :: wire_check where
  "wire_getinfo_fid2path = (getinfo_fid2path, 32, [
    ([M ''gf_fid''], 0, 16), ([M ''gf_recno''], 16, 8), ([M ''gf_linkno''], 24, 4), ([M ''gf_pathlen''], 28, 4)])"

definition wire_idx_info :: wire_check where
  "wire_idx_info = (idx_info, 80, [
    ([M ''ii_magic''], 0, 4), ([M ''ii_flags''], 4, 4), ([M ''ii_count''], 8, 2), ([M ''ii_pad0''], 10, 2),
    ([M ''ii_attrs''], 12, 4), ([M ''ii_fid''], 16, 16), ([M ''ii_version''], 32, 8),
    ([M ''ii_hash_start''], 40, 8), ([M ''ii_hash_end''], 48, 8), ([M ''ii_keysize''], 56, 2),
    ([M ''ii_recsize''], 58, 2), ([M ''ii_pad1''], 60, 4), ([M ''ii_pad2''], 64, 8), ([M ''ii_pad3''], 72, 8)])"

definition wire_lu_idxpage :: wire_check where
  "wire_lu_idxpage = (lu_idxpage, 16, [
    ([M ''lip_magic''], 0, 4), ([M ''lip_flags''], 4, 2), ([M ''lip_nr''], 6, 2), ([M ''lip_pad0''], 8, 8)])"

definition wire_mdt_rec_reint :: wire_check where
  "wire_mdt_rec_reint = (mdt_rec_reint, 136, [
    ([M ''rr_opcode''], 0, 4), ([M ''rr_cap''], 4, 4), ([M ''rr_fsuid''], 8, 4), ([M ''rr_fsuid_h''], 12, 4),
    ([M ''rr_fsgid''], 16, 4), ([M ''rr_fsgid_h''], 20, 4), ([M ''rr_suppgid1''], 24, 4),
    ([M ''rr_suppgid1_h''], 28, 4), ([M ''rr_suppgid2''], 32, 4), ([M ''rr_suppgid2_h''], 36, 4),
    ([M ''rr_fid1''], 40, 16), ([M ''rr_fid2''], 56, 16), ([M ''rr_mtime''], 72, 8), ([M ''rr_atime''], 80, 8),
    ([M ''rr_ctime''], 88, 8), ([M ''rr_size''], 96, 8), ([M ''rr_blocks''], 104, 8), ([M ''rr_bias''], 112, 4),
    ([M ''rr_mode''], 116, 4), ([M ''rr_flags''], 120, 4), ([M ''rr_flags_h''], 124, 4),
    ([M ''rr_umask''], 128, 4), ([M ''rr_padding_4''], 132, 4)])"

definition wire_lov_desc :: wire_check where
  "wire_lov_desc = (lov_desc, 88, [
    ([M ''ld_tgt_count''], 0, 4), ([M ''ld_active_tgt_count''], 4, 4), ([M ''ld_default_stripe_count''], 8, 4),
    ([M ''ld_pattern''], 12, 4), ([M ''ld_default_stripe_size''], 16, 8),
    ([M ''ld_default_stripe_offset''], 24, 8), ([M ''ld_padding_0''], 32, 4), ([M ''ld_qos_maxage''], 36, 4),
    ([M ''ld_padding_1''], 40, 4), ([M ''ld_padding_2''], 44, 4), ([M ''ld_uuid''], 48, 40)])"

definition wire_lmv_desc :: wire_check where
  "wire_lmv_desc = (lmv_desc, 88, [
    ([M ''ld_tgt_count''], 0, 4), ([M ''ld_active_tgt_count''], 4, 4), ([M ''ld_default_stripe_count''], 8, 4),
    ([M ''ld_pattern''], 12, 4), ([M ''ld_default_hash_size''], 16, 8), ([M ''ld_padding_1''], 24, 8),
    ([M ''ld_padding_2''], 32, 4), ([M ''ld_qos_maxage''], 36, 4), ([M ''ld_padding_3''], 40, 4),
    ([M ''ld_padding_4''], 44, 4), ([M ''ld_uuid''], 48, 40)])"

definition wire_ldlm_res_id :: wire_check where
  "wire_ldlm_res_id = (ldlm_res_id, 32, [
    ([M ''name'', I 4], 32, 8)])"

definition wire_ldlm_extent :: wire_check where
  "wire_ldlm_extent = (ldlm_extent, 24, [
    ([M ''start''], 0, 8), ([M ''end''], 8, 8), ([M ''gid''], 16, 8)])"

definition wire_ldlm_flock_wire :: wire_check where
  "wire_ldlm_flock_wire = (ldlm_flock_wire, 32, [
    ([M ''lfw_start''], 0, 8), ([M ''lfw_end''], 8, 8), ([M ''lfw_owner''], 16, 8), ([M ''lfw_padding''], 24, 4),
    ([M ''lfw_pid''], 28, 4)])"

definition wire_ldlm_inodebits :: wire_check where
  "wire_ldlm_inodebits = (ldlm_inodebits, 8, [
    ([M ''bits''], 0, 8)])"

definition wire_ldlm_intent :: wire_check where
  "wire_ldlm_intent = (ldlm_intent, 8, [
    ([M ''opc''], 0, 8)])"

definition wire_ldlm_resource_desc :: wire_check where
  "wire_ldlm_resource_desc = (ldlm_resource_desc, 40, [
    ([M ''lr_type''], 0, 4), ([M ''lr_pad''], 4, 4), ([M ''lr_name''], 8, 32)])"

definition wire_ldlm_lock_desc :: wire_check where
  "wire_ldlm_lock_desc = (ldlm_lock_desc, 80, [
    ([M ''l_resource''], 0, 40), ([M ''l_req_mode''], 40, 4), ([M ''l_granted_mode''], 44, 4),
    ([M ''l_policy_data''], 48, 32)])"

definition wire_ldlm_request :: wire_check where
  "wire_ldlm_request = (ldlm_request, 104, [
    ([M ''lock_flags''], 0, 4), ([M ''lock_count''], 4, 4), ([M ''lock_desc''], 8, 80),
    ([M ''lock_handle''], 88, 16)])"

definition wire_ldlm_reply :: wire_check where
  "wire_ldlm_reply = (ldlm_reply, 112, [
    ([M ''lock_flags''], 0, 4), ([M ''lock_padding''], 4, 4), ([M ''lock_desc''], 8, 80),
    ([M ''lock_handle''], 88, 8), ([M ''lock_policy_res1''], 96, 8), ([M ''lock_policy_res2''], 104, 8)])"

definition wire_quota_body :: wire_check where
  "wire_quota_body = (quota_body, 112, [
    ([M ''qb_fid''], 0, 16), ([M ''qb_id''], 16, 16), ([M ''qb_flags''], 32, 4), ([M ''qb_padding''], 36, 4),
    ([M ''qb_count''], 40, 8), ([M ''qb_usage''], 48, 8), ([M ''qb_slv_ver''], 56, 8), ([M ''qb_lockh''], 64, 8),
    ([M ''qb_glb_lockh''], 72, 8), ([M ''qb_padding1'', I 4], 112, 8)])"

definition wire_lustre_capa :: wire_check where
  "wire_lustre_capa = (lustre_capa, 120, [
    ([M ''lc_fid''], 0, 16), ([M ''lc_opc''], 16, 8), ([M ''lc_uid''], 24, 8), ([M ''lc_gid''], 32, 8),
    ([M ''lc_flags''], 40, 4), ([M ''lc_keyid''], 44, 4), ([M ''lc_timeout''], 48, 4),
    ([M ''lc_expiry''], 52, 4), ([M ''lc_hmac'', I 64], 120, 1)])"

definition wire_lustre_capa_key :: wire_check where
  "wire_lustre_capa_key = (lustre_capa_key, 72, [
    ([M ''lk_seq''], 0, 8), ([M ''lk_keyid''], 8, 4), ([M ''lk_padding''], 12, 4), ([M ''lk_key'', I 56], 72, 1)])"

definition wire_hsm_state_set :: wire_check where
  "wire_hsm_state_set = (hsm_state_set, 24, [
    ([M ''hss_valid''], 0, 4), ([M ''hss_archive_id''], 4, 4), ([M ''hss_setmask''], 8, 8),
    ([M ''hss_clearmask''], 16, 8)])"

definition wire_layout_intent :: wire_check where
  "wire_layout_intent = (layout_intent, 24, [
    ([M ''li_opc''], 0, 4), ([M ''li_flags''], 4, 4), ([M ''li_start''], 8, 8), ([M ''li_end''], 16, 8)])"

definition wire_object_update_result :: wire_check where
  "wire_object_update_result = (object_update_result, 8, [
    ([M ''our_rc''], 0, 4), ([M ''our_datalen''], 4, 2), ([M ''our_padding''], 6, 2)])"

definition wire_out_update_header :: wire_check where
  "wire_out_update_header = (out_update_header, 16, [
    ([M ''ouh_magic''], 0, 4), ([M ''ouh_count''], 4, 4), ([M ''ouh_inline_length''], 8, 4),
    ([M ''ouh_reply_size''], 12, 4)])"

definition wire_out_update_buffer :: wire_check where
  "wire_out_update_buffer = (out_update_buffer, 8, [
    ([M ''oub_size''], 0, 4), ([M ''oub_padding''], 4, 4)])"

definition wire_lfsck_request :: wire_check where
  "wire_lfsck_request = (lfsck_request, 96, [
    ([M ''lr_event''], 0, 4), ([M ''lr_index''], 4, 4), ([M ''lr_flags''], 8, 4), ([M ''lr_valid''], 12, 4),
    ([M ''lr_speed''], 16, 4), ([M ''lr_version''], 20, 2), ([M ''lr_active''], 22, 2),
    ([M ''lr_param''], 24, 2), ([M ''lr_async_windows''], 26, 2), ([M ''lr_flags''], 8, 4),
    ([M ''lr_fid''], 32, 16), ([M ''lr_fid2''], 48, 16), ([M ''lr_fid3''], 64, 16),
    ([M ''lr_padding_1''], 80, 8), ([M ''lr_padding_2''], 88, 8)])"

definition wire_lfsck_reply :: wire_check where
  "wire_lfsck_reply = (lfsck_reply, 16, [
    ([M ''lr_status''], 0, 4), ([M ''lr_padding_1''], 4, 4), ([M ''lr_padding_2''], 8, 8)])"

definition wire_ptlrpc_body_v3 :: wire_check where
  "wire_ptlrpc_body_v3 = (ptlrpc_body_v3, 184, [
    ([M ''pb_handle''], 0, 8), ([M ''pb_type''], 8, 4), ([M ''pb_version''], 12, 4), ([M ''pb_opc''], 16, 4),
    ([M ''pb_status''], 20, 4), ([M ''pb_last_xid''], 24, 8), ([M ''pb_tag''], 32, 2),
    ([M ''pb_padding0''], 34, 2), ([M ''pb_padding1''], 36, 4), ([M ''pb_last_committed''], 40, 8),
    ([M ''pb_transno''], 48, 8), ([M ''pb_flags''], 56, 4), ([M ''pb_op_flags''], 60, 4),
    ([M ''pb_conn_cnt''], 64, 4), ([M ''pb_timeout''], 68, 4), ([M ''pb_service_time''], 72, 4),
    ([M ''pb_limit''], 76, 4), ([M ''pb_slv''], 80, 8), ([M ''pb_pre_versions''], 88, 32),
    ([M ''pb_mbits''], 120, 8), ([M ''pb_padding64_0''], 128, 8), ([M ''pb_padding64_1''], 136, 8),
    ([M ''pb_padding64_2''], 144, 8), ([M ''pb_jobid''], 152, 32)])"

definition wire_lustre_msg_v2 :: wire_check where
  "wire_lustre_msg_v2 = (lustre_msg_v2, 32, [
    ([M ''lm_bufcount''], 0, 4), ([M ''lm_secflvr''], 4, 4), ([M ''lm_magic''], 8, 4),
    ([M ''lm_repsize''], 12, 4), ([M ''lm_cksum''], 16, 4), ([M ''lm_flags''], 20, 4),
    ([M ''lm_padding_2''], 24, 4), ([M ''lm_padding_3''], 28, 4)])"

definition lustre_assert_wire_constants :: "unit outcome" where
  "lustre_assert_wire_constants = check_wire [
    wire_niobuf_remote, wire_ost_lvb_v1, wire_ost_lvb, wire_lquota_lvb,
    wire_lquota_id, wire_ldlm_gl_lquota_desc, wire_lustre_handle, wire_mdt_body,
    wire_mdt_ioepoch, wire_mgs_target_info, wire_mdt_remote_perm, wire_getinfo_fid2path,
    wire_idx_info, wire_lu_idxpage, wire_mdt_rec_reint, wire_lov_desc,
    wire_lmv_desc, wire_ldlm_res_id, wire_ldlm_extent, wire_ldlm_flock_wire,
    wire_ldlm_inodebits, wire_ldlm_intent, wire_ldlm_resource_desc, wire_ldlm_lock_desc,
    wire_ldlm_request, wire_ldlm_reply, wire_quota_body, wire_lustre_capa,
    wire_lustre_capa_key, wire_hsm_state_set, wire_layout_intent, wire_object_update_result,
    wire_out_update_header, wire_out_update_buffer, wire_lfsck_request, wire_lfsck_reply,
    wire_ptlrpc_body_v3, wire_lustre_msg_v2]"

lemmas wire_checks = wire_niobuf_remote_def wire_ost_lvb_v1_def wire_ost_lvb_def wire_lquota_lvb_def wire_lquota_id_def wire_ldlm_gl_lquota_desc_def wire_lustre_handle_def wire_mdt_body_def wire_mdt_ioepoch_def wire_mgs_target_info_def wire_mdt_remote_perm_def wire_getinfo_fid2path_def wire_idx_info_def wire_lu_idxpage_def wire_mdt_rec_reint_def wire_lov_desc_def wire_lmv_desc_def wire_ldlm_res_id_def wire_ldlm_extent_def wire_ldlm_flock_wire_def wire_ldlm_inodebits_def wire_ldlm_intent_def wire_ldlm_resource_desc_def wire_ldlm_lock_desc_def wire_ldlm_request_def wire_ldlm_reply_def wire_quota_body_def wire_lustre_capa_def wire_lustre_capa_key_def wire_hsm_state_set_def wire_layout_intent_def wire_object_update_result_def wire_out_update_header_def wire_out_update_buffer_def wire_lfsck_request_def wire_lfsck_reply_def wire_ptlrpc_body_v3_def wire_lustre_msg_v2_def

end
