(* ===== verification/Wire_Swab.thy ===== *)
theory Wire_Swab
  imports Wire_Idl
begin

text \<open>
  The swab functions of \<open>pack_generic.c\<close> for the structures of \<open>Wire_Idl\<close>, call by call.
  \<open>lustre_swab_lu_fid\<close> is not under \<open>src/\<close>: it is an argument, and \<open>fid_ok\<close> says that it turns the three
  integers of a FID.
\<close>

section \<open>The functions\<close>

definition lustre_swab_niobuf_remote :: "nat \<Rightarrow> mem \<Rightarrow> mem outcome" where
  "lustre_swab_niobuf_remote = swab_run niobuf_remote (
     [Swab 8 [M ''rnb_offset''],
     Swab 4 [M ''rnb_len''],
     Swab 4 [M ''rnb_flags'']])"

definition lustre_swab_ost_lvb_v1 :: "nat \<Rightarrow> mem \<Rightarrow> mem outcome" where
  "lustre_swab_ost_lvb_v1 = swab_run ost_lvb_v1 (
     [Swab 8 [M ''lvb_size''],
     Swab 8 [M ''lvb_mtime''],
     Swab 8 [M ''lvb_atime''],
     Swab 8 [M ''lvb_ctime''],
     Swab 8 [M ''lvb_blocks'']])"

definition lustre_swab_ost_lvb :: "nat \<Rightarrow> mem \<Rightarrow> mem outcome" where
  "lustre_swab_ost_lvb = swab_run ost_lvb (
     [Swab 8 [M ''lvb_size''],
     Swab 8 [M ''lvb_mtime''],
     Swab 8 [M ''lvb_atime''],
     Swab 8 [M ''lvb_ctime''],
     Swab 8 [M ''lvb_blocks''],
     Swab 4 [M ''lvb_mtime_ns''],
     Swab 4 [M ''lvb_atime_ns''],
     Swab 4 [M ''lvb_ctime_ns''],
     Swab 4 [M ''lvb_padding'']])"

definition lustre_swab_lquota_lvb :: "nat \<Rightarrow> mem \<Rightarrow> mem outcome" where
  "lustre_swab_lquota_lvb = swab_run lquota_lvb (
     [Swab 8 [M ''lvb_flags''],
     Swab 8 [M ''lvb_id_may_rel''],
     Swab 8 [M ''lvb_id_rel''],
     Swab 8 [M ''lvb_id_qunit''],
     Swab 8 [M ''lvb_pad1'']])"

definition lustre_swab_gl_desc :: "(nat \<Rightarrow> mem \<Rightarrow> mem outcome) \<Rightarrow> nat \<Rightarrow> mem \<Rightarrow> mem outcome" where
  "lustre_swab_gl_desc lustre_swab_lu_fid = swab_run ldlm_gl_desc (
     [Call lustre_swab_lu_fid [M ''lquota_desc'', M ''gl_id'', M ''qid_fid''],
     Swab 8 [M ''lquota_desc'', M ''gl_flags''],
     Swab 8 [M ''lquota_desc'', M ''gl_ver''],
     Swab 8 [M ''lquota_desc'', M ''gl_hardlimit''],
     Swab 8 [M ''lquota_desc'', M ''gl_softlimit''],
     Swab 8 [M ''lquota_desc'', M ''gl_time'']])"

definition lustre_swab_mdt_body :: "(nat \<Rightarrow> mem \<Rightarrow> mem outcome) \<Rightarrow> nat \<Rightarrow> mem \<Rightarrow> mem outcome" where
  "lustre_swab_mdt_body lustre_swab_lu_fid = swab_run mdt_body (
     [Call lustre_swab_lu_fid [M ''mbo_fid1''],
     Call lustre_swab_lu_fid [M ''mbo_fid2''],
     Swab 8 [M ''mbo_valid''],
     Swab 8 [M ''mbo_size''],
     Swab 8 [M ''mbo_mtime''],
     Swab 8 [M ''mbo_atime''],
     Swab 8 [M ''mbo_ctime''],
     Swab 8 [M ''mbo_blocks''],
     Swab 8 [M ''mbo_ioepoch''],
     Swab 8 [M ''mbo_t_state''],
     Swab 4 [M ''mbo_fsuid''],
     Swab 4 [M ''mbo_fsgid''],
     Swab 4 [M ''mbo_capability''],
     Swab 4 [M ''mbo_mode''],
     Swab 4 [M ''mbo_uid''],
     Swab 4 [M ''mbo_gid''],
     Swab 4 [M ''mbo_flags''],
     Swab 4 [M ''mbo_rdev''],
     Swab 4 [M ''mbo_nlink''],
     Swab 4 [M ''mbo_suppgid''],
     Swab 4 [M ''mbo_eadatasize''],
     Swab 4 [M ''mbo_aclsize''],
     Swab 4 [M ''mbo_max_mdsize''],
     Swab 4 [M ''mbo_uid_h''],
     Swab 4 [M ''mbo_gid_h'']])"

definition lustre_swab_mdt_ioepoch :: "nat \<Rightarrow> mem \<Rightarrow> mem outcome" where
  "lustre_swab_mdt_ioepoch = swab_run mdt_ioepoch (
     [])"

definition lustre_swab_mgs_target_info :: "nat \<Rightarrow> mem \<Rightarrow> mem outcome" where
  "lustre_swab_mgs_target_info = swab_run mgs_target_info (
     [Swab 4 [M ''mti_lustre_ver''],
     Swab 4 [M ''mti_stripe_index''],
     Swab 4 [M ''mti_config_ver''],
     Swab 4 [M ''mti_flags''],
     Swab 4 [M ''mti_instance''],
     Swab 4 [M ''mti_nid_count'']] @
     map (\<lambda>i. Swab 8 [M ''mti_nids'', I i]) [0..<32])"

definition lustre_swab_mgs_config_body :: "nat \<Rightarrow> mem \<Rightarrow> mem outcome" where
  "lustre_swab_mgs_config_body = swab_run mgs_config_body (
     [Swab 8 [M ''mcb_offset''],
     Swab 4 [M ''mcb_units''],
     Swab 2 [M ''mcb_type'']])"

definition lustre_swab_mgs_config_res :: "nat \<Rightarrow> mem \<Rightarrow> mem outcome" where
  "lustre_swab_mgs_config_res = swab_run mgs_config_res (
     [Swab 8 [M ''mcr_offset''],
     Swab 8 [M ''mcr_size'']])"

definition lustre_swab_mdt_remote_perm :: "nat \<Rightarrow> mem \<Rightarrow> mem outcome" where
  "lustre_swab_mdt_remote_perm = swab_run mdt_remote_perm (
     [Swab 4 [M ''rp_uid''],
     Swab 4 [M ''rp_gid''],
     Swab 4 [M ''rp_fsuid''],
     Swab 4 [M ''rp_fsuid_h''],
     Swab 4 [M ''rp_fsgid''],
     Swab 4 [M ''rp_fsgid_h''],
     Swab 4 [M ''rp_access_perm''],
     Swab 4 [M ''rp_padding'']])"

definition lustre_swab_fid2path :: "(nat \<Rightarrow> mem \<Rightarrow> mem outcome) \<Rightarrow> nat \<Rightarrow> mem \<Rightarrow> mem outcome" where
  "lustre_swab_fid2path lustre_swab_lu_fid = swab_run getinfo_fid2path (
     [Call lustre_swab_lu_fid [M ''gf_fid''],
     Swab 8 [M ''gf_recno''],
     Swab 4 [M ''gf_linkno''],
     Swab 4 [M ''gf_pathlen'']])"

definition lustre_swab_idx_info :: "(nat \<Rightarrow> mem \<Rightarrow> mem outcome) \<Rightarrow> nat \<Rightarrow> mem \<Rightarrow> mem outcome" where
  "lustre_swab_idx_info lustre_swab_lu_fid = swab_run idx_info (
     [Swab 4 [M ''ii_magic''],
     Swab 4 [M ''ii_flags''],
     Swab 2 [M ''ii_count''],
     Swab 4 [M ''ii_attrs''],
     Call lustre_swab_lu_fid [M ''ii_fid''],
     Swab 8 [M ''ii_version''],
     Swab 8 [M ''ii_hash_start''],
     Swab 8 [M ''ii_hash_end''],
     Swab 2 [M ''ii_keysize''],
     Swab 2 [M ''ii_recsize'']])"

definition lustre_swab_lip_header :: "nat \<Rightarrow> mem \<Rightarrow> mem outcome" where
  "lustre_swab_lip_header = swab_run lu_idxpage (
     [Swab 4 [M ''lip_magic''],
     Swab 2 [M ''lip_flags''],
     Swab 2 [M ''lip_nr'']])"

definition lustre_swab_mdt_rec_reint :: "(nat \<Rightarrow> mem \<Rightarrow> mem outcome) \<Rightarrow> nat \<Rightarrow> mem \<Rightarrow> mem outcome" where
  "lustre_swab_mdt_rec_reint lustre_swab_lu_fid = swab_run mdt_rec_reint (
     [Swab 4 [M ''rr_opcode''],
     Swab 4 [M ''rr_cap''],
     Swab 4 [M ''rr_fsuid''],
     Swab 4 [M ''rr_fsgid''],
     Swab 4 [M ''rr_suppgid1''],
     Swab 4 [M ''rr_suppgid2''],
     Call lustre_swab_lu_fid [M ''rr_fid1''],
     Call lustre_swab_lu_fid [M ''rr_fid2''],
     Swab 8 [M ''rr_mtime''],
     Swab 8 [M ''rr_atime''],
     Swab 8 [M ''rr_ctime''],
     Swab 8 [M ''rr_size''],
     Swab 8 [M ''rr_blocks''],
     Swab 4 [M ''rr_bias''],
     Swab 4 [M ''rr_mode''],
     Swab 4 [M ''rr_flags''],
     Swab 4 [M ''rr_flags_h''],
     Swab 4 [M ''rr_umask'']])"

definition lustre_swab_lov_desc :: "nat \<Rightarrow> mem \<Rightarrow> mem outcome" where
  "lustre_swab_lov_desc = swab_run lov_desc (
     [Swab 4 [M ''ld_tgt_count''],
     Swab 4 [M ''ld_active_tgt_count''],
     Swab 4 [M ''ld_default_stripe_count''],
     Swab 4 [M ''ld_pattern''],
     Swab 8 [M ''ld_default_stripe_size''],
     Swab 8 [M ''ld_default_stripe_offset''],
     Swab 4 [M ''ld_qos_maxage'']])"

definition lustre_swab_lmv_desc :: "nat \<Rightarrow> mem \<Rightarrow> mem outcome" where
  "lustre_swab_lmv_desc = swab_run lmv_desc (
     [Swab 4 [M ''ld_tgt_count''],
     Swab 4 [M ''ld_active_tgt_count''],
     Swab 4 [M ''ld_default_stripe_count''],
     Swab 4 [M ''ld_pattern''],
     Swab 8 [M ''ld_default_hash_size''],
     Swab 4 [M ''ld_qos_maxage'']])"

definition lustre_swab_ldlm_res_id :: "nat \<Rightarrow> mem \<Rightarrow> mem outcome" where
  "lustre_swab_ldlm_res_id = swab_run ldlm_res_id (
     map (\<lambda>i. Swab 8 [M ''name'', I i]) [0..<4])"

definition lustre_swab_ldlm_policy_data :: "nat \<Rightarrow> mem \<Rightarrow> mem outcome" where
  "lustre_swab_ldlm_policy_data = swab_run ldlm_wire_policy_data (
     [Swab 8 [M ''l_extent'', M ''start''],
     Swab 8 [M ''l_extent'', M ''end''],
     Swab 8 [M ''l_extent'', M ''gid''],
     Swab 8 [M ''l_flock'', M ''lfw_owner''],
     Swab 4 [M ''l_flock'', M ''lfw_pid'']])"

definition lustre_swab_ldlm_intent :: "nat \<Rightarrow> mem \<Rightarrow> mem outcome" where
  "lustre_swab_ldlm_intent = swab_run ldlm_intent (
     [Swab 8 [M ''opc'']])"

definition lustre_swab_ldlm_resource_desc :: "nat \<Rightarrow> mem \<Rightarrow> mem outcome" where
  "lustre_swab_ldlm_resource_desc = swab_run ldlm_resource_desc (
     [Swab 4 [M ''lr_type''],
     Call lustre_swab_ldlm_res_id [M ''lr_name'']])"

definition lustre_swab_ldlm_lock_desc :: "nat \<Rightarrow> mem \<Rightarrow> mem outcome" where
  "lustre_swab_ldlm_lock_desc = swab_run ldlm_lock_desc (
     [Call lustre_swab_ldlm_resource_desc [M ''l_resource''],
     Swab 4 [M ''l_req_mode''],
     Swab 4 [M ''l_granted_mode''],
     Call lustre_swab_ldlm_policy_data [M ''l_policy_data'']])"

definition lustre_swab_ldlm_request :: "nat \<Rightarrow> mem \<Rightarrow> mem outcome" where
  "lustre_swab_ldlm_request = swab_run ldlm_request (
     [Swab 4 [M ''lock_flags''],
     Call lustre_swab_ldlm_lock_desc [M ''lock_desc''],
     Swab 4 [M ''lock_count'']])"

definition lustre_swab_ldlm_reply :: "nat \<Rightarrow> mem \<Rightarrow> mem outcome" where
  "lustre_swab_ldlm_reply = swab_run ldlm_reply (
     [Swab 4 [M ''lock_flags''],
     Call lustre_swab_ldlm_lock_desc [M ''lock_desc''],
     Swab 8 [M ''lock_policy_res1''],
     Swab 8 [M ''lock_policy_res2'']])"

definition lustre_swab_quota_body :: "(nat \<Rightarrow> mem \<Rightarrow> mem outcome) \<Rightarrow> nat \<Rightarrow> mem \<Rightarrow> mem outcome" where
  "lustre_swab_quota_body lustre_swab_lu_fid = swab_run quota_body (
     [Call lustre_swab_lu_fid [M ''qb_fid''],
     Call lustre_swab_lu_fid [M ''qb_id''],
     Swab 4 [M ''qb_flags''],
     Swab 8 [M ''qb_count''],
     Swab 8 [M ''qb_usage''],
     Swab 8 [M ''qb_slv_ver'']])"

definition lustre_swab_lustre_capa :: "(nat \<Rightarrow> mem \<Rightarrow> mem outcome) \<Rightarrow> nat \<Rightarrow> mem \<Rightarrow> mem outcome" where
  "lustre_swab_lustre_capa lustre_swab_lu_fid = swab_run lustre_capa (
     [Call lustre_swab_lu_fid [M ''lc_fid''],
     Swab 8 [M ''lc_opc''],
     Swab 8 [M ''lc_uid''],
     Swab 8 [M ''lc_gid''],
     Swab 4 [M ''lc_flags''],
     Swab 4 [M ''lc_keyid''],
     Swab 4 [M ''lc_timeout''],
     Swab 4 [M ''lc_expiry'']])"

definition lustre_swab_lustre_capa_key :: "nat \<Rightarrow> mem \<Rightarrow> mem outcome" where
  "lustre_swab_lustre_capa_key = swab_run lustre_capa_key (
     [Swab 8 [M ''lk_seq''],
     Swab 4 [M ''lk_keyid'']])"

definition lustre_swab_hsm_state_set :: "nat \<Rightarrow> mem \<Rightarrow> mem outcome" where
  "lustre_swab_hsm_state_set = swab_run hsm_state_set (
     [Swab 4 [M ''hss_valid''],
     Swab 8 [M ''hss_setmask''],
     Swab 8 [M ''hss_clearmask''],
     Swab 4 [M ''hss_archive_id'']])"

definition lustre_swab_layout_intent :: "nat \<Rightarrow> mem \<Rightarrow> mem outcome" where
  "lustre_swab_layout_intent = swab_run layout_intent (
     [Swab 4 [M ''li_opc''],
     Swab 4 [M ''li_flags''],
     Swab 8 [M ''li_start''],
     Swab 8 [M ''li_end'']])"

definition lustre_swab_object_update_result :: "nat \<Rightarrow> mem \<Rightarrow> mem outcome" where
  "lustre_swab_object_update_result = swab_run object_update_result (
     [Swab 4 [M ''our_rc''],
     Swab 2 [M ''our_datalen''],
     Swab 2 [M ''our_padding'']])"

definition lustre_swab_out_update_header :: "nat \<Rightarrow> mem \<Rightarrow> mem outcome" where
  "lustre_swab_out_update_header = swab_run out_update_header (
     [Swab 4 [M ''ouh_magic''],
     Swab 4 [M ''ouh_count''],
     Swab 4 [M ''ouh_inline_length''],
     Swab 4 [M ''ouh_reply_size'']])"

definition lustre_swab_out_update_buffer :: "nat \<Rightarrow> mem \<Rightarrow> mem outcome" where
  "lustre_swab_out_update_buffer = swab_run out_update_buffer (
     [Swab 4 [M ''oub_size''],
     Swab 4 [M ''oub_padding'']])"

definition lustre_swab_swap_layouts :: "nat \<Rightarrow> mem \<Rightarrow> mem outcome" where
  "lustre_swab_swap_layouts = swab_run mdc_swap_layouts (
     [Swab 8 [M ''msl_flags'']])"

definition lustre_swab_close_data :: "(nat \<Rightarrow> mem \<Rightarrow> mem outcome) \<Rightarrow> nat \<Rightarrow> mem \<Rightarrow> mem outcome" where
  "lustre_swab_close_data lustre_swab_lu_fid = swab_run close_data (
     [Call lustre_swab_lu_fid [M ''cd_fid''],
     Swab 8 [M ''cd_data_version'']])"

definition lustre_swab_lfsck_request :: "(nat \<Rightarrow> mem \<Rightarrow> mem outcome) \<Rightarrow> nat \<Rightarrow> mem \<Rightarrow> mem outcome" where
  "lustre_swab_lfsck_request lustre_swab_lu_fid = swab_run lfsck_request (
     [Swab 4 [M ''lr_event''],
     Swab 4 [M ''lr_index''],
     Swab 4 [M ''lr_flags''],
     Swab 4 [M ''lr_valid''],
     Swab 4 [M ''lr_speed''],
     Swab 2 [M ''lr_version''],
     Swab 2 [M ''lr_active''],
     Swab 2 [M ''lr_param''],
     Swab 2 [M ''lr_async_windows''],
     Swab 4 [M ''lr_flags''],
     Call lustre_swab_lu_fid [M ''lr_fid''],
     Call lustre_swab_lu_fid [M ''lr_fid2''],
     Call lustre_swab_lu_fid [M ''lr_fid3'']])"

definition lustre_swab_lfsck_reply :: "nat \<Rightarrow> mem \<Rightarrow> mem outcome" where
  "lustre_swab_lfsck_reply = swab_run lfsck_reply (
     [Swab 4 [M ''lr_status'']])"

definition lustre_swab_orphan_ent :: "(nat \<Rightarrow> mem \<Rightarrow> mem outcome) \<Rightarrow> nat \<Rightarrow> mem \<Rightarrow> mem outcome" where
  "lustre_swab_orphan_ent lustre_swab_lu_fid = swab_run lu_orphan_ent (
     [Call lustre_swab_lu_fid [M ''loe_key''],
     Call lustre_swab_lu_fid [M ''loe_rec'', M ''lor_fid''],
     Swab 4 [M ''loe_rec'', M ''lor_uid''],
     Swab 4 [M ''loe_rec'', M ''lor_gid'']])"

section \<open>The integers they turn\<close>

abbreviation fid_ints :: "(nat \<times> nat) list" where "fid_ints \<equiv> [(8, 0), (4, 8), (4, 12)]"

definition fid_ok :: "(nat \<Rightarrow> mem \<Rightarrow> mem outcome) \<Rightarrow> bool" where
  "fid_ok fid \<longleftrightarrow> swabs_exactly fid fid_ints"

lemmas swab_defs = lustre_swab_niobuf_remote_def lustre_swab_ost_lvb_v1_def lustre_swab_ost_lvb_def lustre_swab_lquota_lvb_def lustre_swab_gl_desc_def lustre_swab_mdt_body_def lustre_swab_mdt_ioepoch_def lustre_swab_mgs_target_info_def lustre_swab_mgs_config_body_def lustre_swab_mgs_config_res_def lustre_swab_mdt_remote_perm_def lustre_swab_fid2path_def lustre_swab_idx_info_def lustre_swab_lip_header_def lustre_swab_mdt_rec_reint_def lustre_swab_lov_desc_def lustre_swab_lmv_desc_def lustre_swab_ldlm_res_id_def lustre_swab_ldlm_policy_data_def lustre_swab_ldlm_intent_def lustre_swab_ldlm_resource_desc_def lustre_swab_ldlm_lock_desc_def lustre_swab_ldlm_request_def lustre_swab_ldlm_reply_def lustre_swab_quota_body_def lustre_swab_lustre_capa_def lustre_swab_lustre_capa_key_def lustre_swab_hsm_state_set_def lustre_swab_layout_intent_def lustre_swab_object_update_result_def lustre_swab_out_update_header_def lustre_swab_out_update_buffer_def lustre_swab_swap_layouts_def lustre_swab_close_data_def lustre_swab_lfsck_request_def lustre_swab_lfsck_reply_def lustre_swab_orphan_ent_def

lemma plain_exact:
  "swabs_exactly lustre_swab_niobuf_remote [(8, 0), (4, 8), (4, 12)]"
  "swabs_exactly lustre_swab_ost_lvb_v1 [(8, 0), (8, 8), (8, 16), (8, 24), (8, 32)]"
  "swabs_exactly lustre_swab_ost_lvb (
     [(8, 0), (8, 8), (8, 16), (8, 24), (8, 32), (4, 40), (4, 44), (4, 48), (4, 52) ])"
  "swabs_exactly lustre_swab_lquota_lvb [(8, 0), (8, 8), (8, 16), (8, 24), (8, 32)]"
  "swabs_exactly lustre_swab_mdt_ioepoch []"
  "swabs_exactly lustre_swab_mgs_config_body [(8, 64), (4, 76), (2, 72)]"
  "swabs_exactly lustre_swab_mgs_config_res [(8, 0), (8, 8)]"
  "swabs_exactly lustre_swab_mdt_remote_perm [(4, 0), (4, 4), (4, 8), (4, 12), (4, 16), (4, 20), (4, 24), (4, 28)]"
  "swabs_exactly lustre_swab_lip_header [(4, 0), (2, 4), (2, 6)]"
  "swabs_exactly lustre_swab_lov_desc [(4, 0), (4, 4), (4, 8), (4, 12), (8, 16), (8, 24), (4, 36)]"
  "swabs_exactly lustre_swab_lmv_desc [(4, 0), (4, 4), (4, 8), (4, 12), (8, 16), (4, 36)]"
  "swabs_exactly lustre_swab_ldlm_intent [(8, 0)]"
  "swabs_exactly lustre_swab_lustre_capa_key [(8, 0), (4, 8)]"
  "swabs_exactly lustre_swab_hsm_state_set [(4, 0), (8, 8), (8, 16), (4, 4)]"
  "swabs_exactly lustre_swab_layout_intent [(4, 0), (4, 4), (8, 8), (8, 16)]"
  "swabs_exactly lustre_swab_object_update_result [(4, 0), (2, 4), (2, 6)]"
  "swabs_exactly lustre_swab_out_update_header [(4, 0), (4, 4), (4, 8), (4, 12)]"
  "swabs_exactly lustre_swab_out_update_buffer [(4, 0), (4, 4)]"
  "swabs_exactly lustre_swab_swap_layouts [(8, 0)]"
  "swabs_exactly lustre_swab_lfsck_reply [(4, 0)]"
  unfolding swab_defs by (rule run_rules | code_simp)+

lemma fid_exact:
  assumes "fid_ok fid"
  shows
  "swabs_exactly (lustre_swab_gl_desc fid) (
     shift 0 fid_ints @ (8, 16) # (8, 24) # (8, 32) # (8, 40) # (8, 48) # [])"
  "swabs_exactly (lustre_swab_mdt_body fid) (
     shift 0 fid_ints @ shift 16 fid_ints @ (8, 40) # (8, 48) # (8, 56) # (8, 64) # (8, 72) # (8, 80) #
     (8, 88) # (8, 96) # (4, 104) # (4, 108) # (4, 112) # (4, 116) # (4, 120) # (4, 124) # (4, 128) #
     (4, 132) # (4, 136) # (4, 144) # (4, 148) # (4, 152) # (4, 156) # (4, 164) # (4, 168) # [])"
  "swabs_exactly (lustre_swab_fid2path fid) (shift 0 fid_ints @ (8, 16) # (4, 24) # (4, 28) # [])"
  "swabs_exactly (lustre_swab_idx_info fid) (
     (4, 0) # (4, 4) # (2, 8) # (4, 12) # shift 16 fid_ints @ (8, 32) # (8, 40) # (8, 48) # (2, 56) # (2, 58) #
     [])"
  "swabs_exactly (lustre_swab_mdt_rec_reint fid) (
     (4, 0) # (4, 4) # (4, 8) # (4, 16) # (4, 24) # (4, 32) # shift 40 fid_ints @ shift 56 fid_ints @ (8, 72) #
     (8, 80) # (8, 88) # (8, 96) # (8, 104) # (4, 112) # (4, 116) # (4, 120) # (4, 124) # (4, 128) # [])"
  "swabs_exactly (lustre_swab_quota_body fid) (
     shift 0 fid_ints @ shift 16 fid_ints @ (4, 32) # (8, 40) # (8, 48) # (8, 56) # [])"
  "swabs_exactly (lustre_swab_lustre_capa fid) (
     shift 0 fid_ints @ (8, 16) # (8, 24) # (8, 32) # (4, 40) # (4, 44) # (4, 48) # (4, 52) # [])"
  "swabs_exactly (lustre_swab_close_data fid) (shift 8 fid_ints @ (8, 24) # [])"
  "swabs_exactly (lustre_swab_lfsck_request fid) (
     (4, 0) # (4, 4) # (4, 8) # (4, 12) # (4, 16) # (2, 20) # (2, 22) # (2, 24) # (2, 26) # (4, 8) # shift 32
     fid_ints @ shift 48 fid_ints @ shift 64 fid_ints @ [])"
  "swabs_exactly (lustre_swab_orphan_ent fid) (shift 0 fid_ints @ shift 16 fid_ints @ (4, 32) # (4, 36) # [])"
  unfolding swab_defs by (rule run_rules assms [unfolded fid_ok_def] | code_simp)+

lemma mgs_target_info_exact:
  "swabs_exactly lustre_swab_mgs_target_info
     ([(4, 0), (4, 4), (4, 8), (4, 12), (4, 20), (4, 16)] @ map (\<lambda>i. (8, 192 + 8 * i)) [0..<32])"
  unfolding lustre_swab_mgs_target_info_def by (rule run_append run_loop run_rules | code_simp)+

text \<open>The locks: a policy is a union, and the third word of it is reversed twice.\<close>

abbreviation res_ints :: "(nat \<times> nat) list" where "res_ints \<equiv> map (\<lambda>i. (8, 8 * i)) [0..<4]"
abbreviation policy_ints :: "(nat \<times> nat) list" where "policy_ints \<equiv> [(8, 0), (8, 8), (8, 16), (8, 16), (4, 28)]"
abbreviation resource_ints :: "(nat \<times> nat) list" where "resource_ints \<equiv> (4, 0) # shift 8 res_ints @ []"
abbreviation lock_ints :: "(nat \<times> nat) list" where
  "lock_ints \<equiv> shift 0 resource_ints @ (4, 40) # (4, 44) # shift 48 policy_ints @ []"

lemma res_id_exact: "swabs_exactly lustre_swab_ldlm_res_id res_ints"
  unfolding lustre_swab_ldlm_res_id_def by (rule run_loop) code_simp

lemma policy_exact: "swabs_exactly lustre_swab_ldlm_policy_data policy_ints"
  unfolding lustre_swab_ldlm_policy_data_def by (rule run_rules | code_simp)+

lemma resource_exact: "swabs_exactly lustre_swab_ldlm_resource_desc resource_ints"
  unfolding lustre_swab_ldlm_resource_desc_def by (rule run_rules res_id_exact | code_simp)+

lemma lock_exact: "swabs_exactly lustre_swab_ldlm_lock_desc lock_ints"
  unfolding lustre_swab_ldlm_lock_desc_def by (rule run_rules resource_exact policy_exact | code_simp)+

lemma lock_messages_exact:
  "swabs_exactly lustre_swab_ldlm_request ((4, 0) # shift 8 lock_ints @ (4, 4) # [])"
  "swabs_exactly lustre_swab_ldlm_reply ((4, 0) # shift 8 lock_ints @ (8, 96) # (8, 104) # [])"
  unfolding lustre_swab_ldlm_request_def lustre_swab_ldlm_reply_def
  by (rule run_rules lock_exact | code_simp)+

end
