(* ===== verification/Wire_Props.thy ===== *)
theory Wire_Props
  imports Wire_Swab
begin

text \<open>
  What the swab functions promise: a table of every function with the structure it converts and
  the fields it leaves alone on purpose (handles, which are opaque to the receiver, and padding),
  the layout checks, and the two functions that do not keep the contract.
\<close>

section \<open>The contract\<close>

definition swab_table ::
  "(nat \<Rightarrow> mem \<Rightarrow> mem outcome) \<Rightarrow> (ctype \<times> string list \<times> (nat \<Rightarrow> mem \<Rightarrow> mem outcome)) list" where
  "swab_table fid = [
     (niobuf_remote, [], lustre_swab_niobuf_remote),
     (ost_lvb_v1, [], lustre_swab_ost_lvb_v1),
     (ost_lvb, [], lustre_swab_ost_lvb),
     (lquota_lvb, [], lustre_swab_lquota_lvb),
     (mdt_ioepoch, [''mio_handle'', ''mio_unused1'', ''mio_unused2'', ''mio_padding''],
       lustre_swab_mdt_ioepoch),
     (mgs_config_body, [], lustre_swab_mgs_config_body),
     (mgs_config_res, [], lustre_swab_mgs_config_res),
     (mdt_remote_perm, [], lustre_swab_mdt_remote_perm),
     (lu_idxpage, [''lip_pad0''], lustre_swab_lip_header),
     (lov_desc, [''ld_padding_0'', ''ld_padding_1'', ''ld_padding_2''], lustre_swab_lov_desc),
     (lmv_desc, [''ld_padding_1'', ''ld_padding_2'', ''ld_padding_3'', ''ld_padding_4''],
       lustre_swab_lmv_desc),
     (ldlm_intent, [], lustre_swab_ldlm_intent),
     (lustre_capa_key, [''lk_padding''], lustre_swab_lustre_capa_key),
     (hsm_state_set, [], lustre_swab_hsm_state_set),
     (layout_intent, [], lustre_swab_layout_intent),
     (object_update_result, [], lustre_swab_object_update_result),
     (out_update_header, [], lustre_swab_out_update_header),
     (out_update_buffer, [], lustre_swab_out_update_buffer),
     (mdc_swap_layouts, [], lustre_swab_swap_layouts),
     (lfsck_reply, [''lr_padding_1'', ''lr_padding_2''], lustre_swab_lfsck_reply),
     (ldlm_gl_lquota_desc, [''gl_pad2''], lustre_swab_gl_desc fid),
     (mdt_body, [''mbo_handle'', ''mbo_unused2'', ''mbo_unused3'', ''mbo_padding_5'', ''mbo_padding_6'',
       ''mbo_padding_7'', ''mbo_padding_8'', ''mbo_padding_9'', ''mbo_padding_10''], lustre_swab_mdt_body
       fid),
     (getinfo_fid2path, [], lustre_swab_fid2path fid),
     (idx_info, [''ii_pad0'', ''ii_pad1'', ''ii_pad2'', ''ii_pad3''], lustre_swab_idx_info fid),
     (mdt_rec_reint, [''rr_fsuid_h'', ''rr_fsgid_h'', ''rr_suppgid1_h'', ''rr_suppgid2_h'',
       ''rr_padding_4''], lustre_swab_mdt_rec_reint fid),
     (quota_body, [''qb_padding'', ''qb_lockh'', ''qb_glb_lockh'', ''qb_padding1''],
       lustre_swab_quota_body fid),
     (lustre_capa, [], lustre_swab_lustre_capa fid),
     (close_data, [''cd_handle'', ''cd_reserved''], lustre_swab_close_data fid),
     (lu_orphan_ent, [], lustre_swab_orphan_ent fid),
     (mgs_target_info, [], lustre_swab_mgs_target_info),
     (ldlm_res_id, [], lustre_swab_ldlm_res_id),
     (ldlm_resource_desc, [''lr_pad''], lustre_swab_ldlm_resource_desc)]"

lemmas exact_rules = plain_exact mgs_target_info_exact res_id_exact resource_exact

lemma mgs_target_info_ints: "ints_ok mgs_target_info []"
proof -
  have "separate (ints_but [] mgs_target_info)" "inside 448 (ints_but [] mgs_target_info)" by code_simp+
  moreover have "sizeof mgs_target_info = 4544" by (simp add: mgs_target_info_def field_pos_def pad_def)
  ultimately show ?thesis by (auto simp: ints_ok_def inside_def list_all_iff)
qed

lemma table_ok:
  assumes "fid_ok fid"
  shows "list_all (\<lambda>(T, skip, f). swab_ok T skip f) (swab_table fid)"
  unfolding swab_table_def list.pred_inject prod.case
  by (intro conjI list.pred_inject(1))
    (rule swab_okI, rule exact_rules fid_exact [OF assms], code_simp, (rule mgs_target_info_ints | code_simp))+

text \<open>
  C18: Every function of the table converts every integer of its structure from the other byte
  order and touches nothing else, whatever the receiver does not interpret left as it is; done
  twice it gives the bytes back. \<open>lustre_swab_lu_fid\<close> is assumed to turn the three integers of a FID.
\<close>

theorem swab_functions_turn_all:
  assumes "fid_ok fid"
  shows "\<forall>(T, skip, f) \<in> set (swab_table fid). \<forall>b m. b + sizeof T \<le> length m \<longrightarrow>
    f b m = Ret (turn_fields (ints_but skip T) b m) \<and> f b (turn_fields (ints_but skip T) b m) = Ret m"
  using table_ok [OF assms] by (auto simp: list_all_iff swab_ok_def)

lemma fid_ok_sample: "fid_ok (swab_fields fid_ints)"
  by (simp add: fid_ok_def swabs_exactly_def)

theorem swab_functions_turn_all_witness:
  "lustre_swab_niobuf_remote 0 [1, 2, 3, 4, 5, 6, 7, 8, 9, 10, 11, 12, 13, 14, 15, 16]
     = Ret [8, 7, 6, 5, 4, 3, 2, 1, 12, 11, 10, 9, 16, 15, 14, 13]"
proof -
  let ?m = "[1, 2, 3, 4, 5, 6, 7, 8, 9, 10, 11, 12, 13, 14, 15, 16] :: mem"
  have "(niobuf_remote, [], lustre_swab_niobuf_remote) \<in> set (swab_table (swab_fields fid_ints))"
    by (simp add: swab_table_def)
  moreover have "0 + sizeof niobuf_remote \<le> length ?m" by code_simp
  ultimately have "lustre_swab_niobuf_remote 0 ?m = Ret (turn_fields (ints_but [] niobuf_remote) 0 ?m)"
    using swab_functions_turn_all [OF fid_ok_sample] by blast
  moreover have "turn_fields (ints_but [] niobuf_remote) 0 ?m
      = [8, 7, 6, 5, 4, 3, 2, 1, 12, 11, 10, 9, 16, 15, 14, 13]" by code_simp
  ultimately show ?thesis by simp
qed

section \<open>Layout\<close>

lemma check_wire_Cons: "check_wire [w] = Ret () \<Longrightarrow> check_wire ws = Ret () \<Longrightarrow> check_wire (w # ws) = Ret ()"
  by (cases w) (auto simp: lassert_def bindO_def split: if_splits outcome.splits)

lemma check_wire_Nil: "check_wire [] = Ret ()"
  by simp


section \<open>Integers turned twice\<close>

text \<open>A function that reverses the integer \<open>g\<close> twice leaves it in the order of the sender.\<close>

lemma swab_doubled:
  assumes "swabs_exactly f fs" and "fs = xs @ g # ys @ g # zs" and "list_all (apart g) ys"
    and "inside (sizeof T) (xs @ g # ys @ g # zs)"
    and "sort_key snd (xs @ ys @ zs) = ints_but skip T" and "ints_ok T skip" and "b + sizeof T \<le> length m"
  shows "f b m = Ret (turn_fields (ints_but skip T) b m)"
proof -
  have "inside (sizeof T) (g # ys)" using assms(4) by (simp add: inside_def)
  note t = turn_twice [OF assms(3) this assms(7), of xs zs]
  have "mset (xs @ ys @ zs) = mset (ints_but skip T)" using assms(5) by (metis mset_sort)
  note p = turn_permuted [OF this _ _ assms(7)]
  show ?thesis
    using assms(1,2,6) swab_fields_inside [OF assms(4,7)] t p by (simp add: swabs_exactly_def ints_ok_def)
qed

text \<open>
  \<open>lustre_swab_ldlm_policy_data\<close> reverses \<open>l_extent.gid\<close> and then \<open>l_flock.lfw_owner\<close>, which are the same
  eight bytes of the union: both are left in the byte order of the sender.
\<close>

theorem lock_owner_left_foreign:
  assumes "b + sizeof ldlm_flock_wire \<le> length m"
  shows "lustre_swab_ldlm_policy_data b m
      = Ret (turn_fields (ints_but [''lfw_owner'', ''lfw_padding''] ldlm_flock_wire) b m)"
  by (rule swab_doubled [OF policy_exact, where xs = "[(8, 0), (8, 8)]" and ys = "[]" and g = "(8, 16)" and zs = "[(4, 28)]"])
    (code_simp, code_simp, code_simp, code_simp, code_simp, rule assms)

text \<open>
  \<open>lustre_swab_lfsck_request\<close> reverses \<open>lr_flags\<close> twice and \<open>lr_flags2\<close> never: neither is converted.
\<close>

theorem lfsck_flags_left_foreign:
  assumes "fid_ok fid" and "b + sizeof lfsck_request \<le> length m"
  shows "lustre_swab_lfsck_request fid b m = Ret (turn_fields
      (ints_but [''lr_flags'', ''lr_flags2'', ''lr_padding_1'', ''lr_padding_2''] lfsck_request) b m)"
  by (rule swab_doubled [OF fid_exact(9) [OF assms(1)], where xs = "[(4, 0), (4, 4)]" and g = "(4, 8)"
        and ys = "[(4, 12), (4, 16), (2, 20), (2, 22), (2, 24), (2, 26)]"
        and zs = "shift 32 fid_ints @ shift 48 fid_ints @ shift 64 fid_ints"])
    (code_simp, code_simp, code_simp, code_simp, code_simp, rule assms)

end
