(* ===== verification/Osc_Grant.thy ===== *)
theory Osc_Grant
  imports Qos_Control
begin

text \<open>
  The grant of the object storage client: the bytes the target has promised to accept
  (\<open>osc_cache.c\<close> from \<open>osc_consume_write_grant\<close> to \<open>osc_wake_cache_waiters\<close>, and the grant
  part of \<open>osc_request.c\<close>). A page may be cached only against grant, so what the client has
  in hand, has reserved and has dropped must add up to what the target gave.

  \<open>unsigned long\<close> and \<open>long\<close> are 64 bit words. Outside \<open>src/\<close>: the clock (\<open>now_shift\<close> is
  \<open>cfs_time_shift\<close>).
\<close>

unbundle bit_operations_syntax

section \<open>State\<close>

type_synonym page = nat
type_synonym clock = "int \<Rightarrow> int"

abbreviation (input) EDQUOT :: int where "EDQUOT \<equiv> 122"
abbreviation (input) ETIMEDOUT :: int where "ETIMEDOUT \<equiv> 110"
abbreviation (input) EINTR :: int where "EINTR \<equiv> 4"
abbreviation (input) ERESTARTSYS :: int where "ERESTARTSYS \<equiv> 512"

definition OBD_BRW_FROM_GRANT :: u32 where "OBD_BRW_FROM_GRANT = 0x20"
definition OBD_BRW_NOCACHE :: u32 where "OBD_BRW_NOCACHE = 0x80"
definition OBD_BRW_NOQUOTA :: u32 where "OBD_BRW_NOQUOTA = 0x100"
definition OBD_BRW_SRVLOCK :: u32 where "OBD_BRW_SRVLOCK = 0x200"
definition OBD_BRW_ASYNC :: u32 where "OBD_BRW_ASYNC = 0x400"

abbreviation (input) PAGE_CACHE_SHIFT :: nat where "PAGE_CACHE_SHIFT \<equiv> 12"

record osc_cache_waiter =
  ocw_oap :: page
  ocw_grant :: u32

text \<open>
  Errors of asynchronous writes: the first one is kept for the next \<open>fsync\<close>, and until a later request
  succeeds every write is synchronous. \<open>next_xid\<close> is \<open>ptlrpc_sample_next_xid()\<close>.
\<close>

record osc_async_rc =
  ar_rc :: int
  ar_force_sync :: bool
  ar_min_xid :: u64

definition osc_process_ar :: "u64 \<Rightarrow> osc_async_rc \<Rightarrow> u64 \<Rightarrow> int \<Rightarrow> osc_async_rc" where
  "osc_process_ar next_xid ar xid rc =
     (if rc \<noteq> 0 then ar\<lparr>ar_rc := if ar_rc ar = 0 then rc else ar_rc ar, ar_force_sync := True, ar_min_xid := next_xid\<rparr>
      else if ar_force_sync ar \<and> xid \<ge> ar_min_xid ar then ar\<lparr>ar_force_sync := False\<rparr> else ar)"

text \<open>
  The accounting fields of \<open>struct client_obd\<close> (an extension of the record the controller works on), the counters of the whole node
  (\<open>obd_dirty_pages\<close> and its companions) and the \<open>flag\<close> of each page's \<open>struct brw_page\<close>.
\<close>

record osc_cli = client_obd +
  cl_dirty_pages :: u64
  cl_dirty_transit :: u64
  cl_avail_grant :: u64
  cl_lost_grant :: u64
  cl_reserved_grant :: u64
  cl_cache_waiters :: "osc_cache_waiter list"
  cl_next_shrink_grant :: int
  cl_grant_shrink_interval :: int
  cl_chunkbits :: nat
  cl_extent_tax :: u32
  cl_r_in_flight :: u32
  cl_w_in_flight :: u32
  cl_ar :: osc_async_rc
  obd_dirty_pages :: u64
  obd_dirty_transit_pages :: u64
  obd_max_dirty_pages :: u64
  brw_flag :: "page \<Rightarrow> u32"

section \<open>Pages\<close>

definition osc_update_next_shrink :: "clock \<Rightarrow> osc_cli \<Rightarrow> osc_cli" where
  "osc_update_next_shrink now_shift cli =
     cli\<lparr>cl_next_shrink_grant := now_shift (cl_grant_shrink_interval cli)\<rparr>"

definition from_grant :: "osc_cli \<Rightarrow> page \<Rightarrow> bool" where
  "from_grant cli pga \<longleftrightarrow> brw_flag cli pga AND OBD_BRW_FROM_GRANT \<noteq> 0"

definition set_brw_flag :: "page \<Rightarrow> u32 \<Rightarrow> osc_cli \<Rightarrow> osc_cli" where
  "set_brw_flag pga fl cli = cli\<lparr>brw_flag := (brw_flag cli)(pga := fl)\<rparr>"

definition osc_consume_write_grant :: "clock \<Rightarrow> page \<Rightarrow> osc_cli \<Rightarrow> osc_cli outcome" where
  "osc_consume_write_grant now_shift pga cli =
     lassert (\<not> from_grant cli pga)
       (let cli = cli\<lparr>obd_dirty_pages := obd_dirty_pages cli + 1, cl_dirty_pages := cl_dirty_pages cli + 1\<rparr>;
            cli = set_brw_flag pga (brw_flag cli pga OR OBD_BRW_FROM_GRANT) cli
        in Ret (osc_update_next_shrink now_shift cli))"

definition osc_release_write_grant :: "page \<Rightarrow> osc_cli \<Rightarrow> osc_cli" where
  "osc_release_write_grant pga cli =
     (if \<not> from_grant cli pga then cli
      else
        let cli = set_brw_flag pga (brw_flag cli pga AND NOT OBD_BRW_FROM_GRANT) cli;
            cli = cli\<lparr>obd_dirty_pages := obd_dirty_pages cli - 1, cl_dirty_pages := cl_dirty_pages cli - 1\<rparr>
        in if brw_flag cli pga AND OBD_BRW_NOCACHE \<noteq> 0 then
             (set_brw_flag pga (brw_flag cli pga AND NOT OBD_BRW_NOCACHE) cli)
               \<lparr>obd_dirty_transit_pages := obd_dirty_transit_pages cli - 1,
                cl_dirty_transit := cl_dirty_transit cli - 1\<rparr>
           else cli)"

section \<open>Reserving and freeing grant\<close>

definition osc_reserve_grant :: "u32 \<Rightarrow> osc_cli \<Rightarrow> int \<times> osc_cli" where
  "osc_reserve_grant bytes cli =
     (if cl_avail_grant cli \<ge> ucast bytes then
        (0, cli\<lparr>cl_avail_grant := cl_avail_grant cli - ucast bytes,
                cl_reserved_grant := cl_reserved_grant cli + ucast bytes\<rparr>)
      else (- EDQUOT, cli))"

definition osc_unreserve_grant_locked :: "u32 \<Rightarrow> u32 \<Rightarrow> osc_cli \<Rightarrow> osc_cli" where
  "osc_unreserve_grant_locked reserved unused cli =
     (let cli = cli\<lparr>cl_reserved_grant := cl_reserved_grant cli - ucast reserved\<rparr>
      in if unused > reserved then
           cli\<lparr>cl_avail_grant := cl_avail_grant cli + ucast reserved,
               cl_lost_grant := cl_lost_grant cli + ucast (unused - reserved)\<rparr>
         else cli\<lparr>cl_avail_grant := cl_avail_grant cli + ucast unused\<rparr>)"

definition dirty_room :: "osc_cli \<Rightarrow> bool" where
  "dirty_room cli \<longleftrightarrow> cl_dirty_pages cli < cl_dirty_max_pages cli \<and> 1 + obd_dirty_pages cli \<le> obd_max_dirty_pages cli"

definition osc_enter_cache_try :: "clock \<Rightarrow> page \<Rightarrow> u32 \<Rightarrow> bool \<Rightarrow> osc_cli \<Rightarrow> (bool \<times> osc_cli) outcome" where
  "osc_enter_cache_try now_shift oap bytes transient cli =
     (let (rc, cli) = osc_reserve_grant bytes cli
      in if rc < 0 then Ret (False, cli)
         else if dirty_room cli then
           bindO (osc_consume_write_grant now_shift oap cli) (\<lambda>cli.
             Ret (True,
               if transient then
                 set_brw_flag oap (brw_flag cli oap OR OBD_BRW_NOCACHE)
                   (cli\<lparr>cl_dirty_transit := cl_dirty_transit cli + 1,
                        obd_dirty_transit_pages := obd_dirty_transit_pages cli + 1\<rparr>)
               else cli))
         else Ret (False, osc_unreserve_grant_locked bytes bytes cli))"

text \<open>
  The waiters are taken off the list one after the other; \<open>ocw_rc\<close> of each is returned with it.
\<close>

fun wake_waiters :: "clock \<Rightarrow> osc_cache_waiter list \<Rightarrow> osc_cli \<Rightarrow> ((osc_cache_waiter \<times> int) list \<times> osc_cli) outcome" where
  "wake_waiters now_shift [] cli = Ret ([], cli)"
| "wake_waiters now_shift (ocw # ws) cli =
     (let cli = cli\<lparr>cl_cache_waiters := ws\<rparr>
      in if \<not> dirty_room cli then
           bindO (wake_waiters now_shift ws cli) (\<lambda>(woken, cli). Ret ((ocw, - EDQUOT) # woken, cli))
         else
           bindO (osc_enter_cache_try now_shift (ocw_oap ocw) (ocw_grant ocw) False cli) (\<lambda>(ok, cli).
           bindO (wake_waiters now_shift ws cli) (\<lambda>(woken, cli).
             Ret ((ocw, if ok then 0 else - EDQUOT) # woken, cli))))"

definition osc_wake_cache_waiters :: "clock \<Rightarrow> osc_cli \<Rightarrow> ((osc_cache_waiter \<times> int) list \<times> osc_cli) outcome" where
  "osc_wake_cache_waiters now_shift cli = wake_waiters now_shift (cl_cache_waiters cli) cli"

definition osc_unreserve_grant :: "clock \<Rightarrow> u32 \<Rightarrow> u32 \<Rightarrow> osc_cli \<Rightarrow> osc_cli outcome" where
  "osc_unreserve_grant now_shift reserved unused cli =
     (let cli = osc_unreserve_grant_locked reserved unused cli
      in if unused > 0 then bindO (osc_wake_cache_waiters now_shift cli) (\<lambda>(_, cli). Ret cli) else Ret cli)"

text \<open>\<open>(1 << cl_chunkbits) + cl_extent_tax\<close>, in the arithmetic of \<open>unsigned int\<close>.\<close>

definition chunk_grant :: "osc_cli \<Rightarrow> u32" where
  "chunk_grant cli = push_bit (cl_chunkbits cli) 1 + cl_extent_tax cli"

definition free_grant_books :: "u32 \<Rightarrow> u32 \<Rightarrow> osc_cli \<Rightarrow> osc_cli" where
  "free_grant_books nr_pages lost_grant cli =
     (let grant = ucast (chunk_grant cli);
          cli = cli\<lparr>obd_dirty_pages := obd_dirty_pages cli - ucast nr_pages,
                    cl_dirty_pages := cl_dirty_pages cli - ucast nr_pages,
                    cl_lost_grant := cl_lost_grant cli + ucast lost_grant\<rparr>
      in if cl_avail_grant cli < grant \<and> cl_lost_grant cli \<ge> grant then
           cli\<lparr>cl_lost_grant := cl_lost_grant cli - grant, cl_avail_grant := cl_avail_grant cli + grant\<rparr>
         else cli)"

definition osc_free_grant :: "clock \<Rightarrow> u32 \<Rightarrow> u32 \<Rightarrow> osc_cli \<Rightarrow> osc_cli outcome" where
  "osc_free_grant now_shift nr_pages lost_grant cli =
     bindO (osc_wake_cache_waiters now_shift (free_grant_books nr_pages lost_grant cli)) (\<lambda>(_, cli). Ret cli)"

definition osc_exit_cache :: "page \<Rightarrow> osc_cli \<Rightarrow> osc_cli" where
  "osc_exit_cache oap cli = osc_release_write_grant oap cli"


section \<open>Waiting for grant\<close>

text \<open>
  \<open>osc_enter_cache\<close> sleeps with the lock dropped. Each sleep is a function from the state the
  thread leaves to what \<open>l_wait_event\<close> returned, to \<open>ocw_rc\<close>, and to the state it finds; with no
  sleep left the call has not returned (\<open>None\<close>).
\<close>

type_synonym sleep = "osc_cli \<Rightarrow> int \<times> int \<times> osc_cli"

fun enter_wait ::
  "clock \<Rightarrow> osc_cache_waiter \<Rightarrow> int \<Rightarrow> sleep list \<Rightarrow> osc_cli \<Rightarrow> (int \<times> osc_cli) outcome option" where
  "enter_wait now_shift ocw rc sleeps cli =
     (if \<not> (cl_dirty_pages cli > 0 \<or> cl_w_in_flight cli > 0) then Some (Ret (rc, cli))
      else case sleeps of [] \<Rightarrow> None
      | sleep # sleeps \<Rightarrow>
          let (rc, orc, cli) = sleep (cli\<lparr>cl_cache_waiters := cl_cache_waiters cli @ [ocw]\<rparr>)
          in if rc < 0 then Some (Ret (rc, cli\<lparr>cl_cache_waiters := remove1 ocw (cl_cache_waiters cli)\<rparr>))
             else if ocw \<in> set (cl_cache_waiters cli) then Some (Fault LBUG)
             else if orc \<noteq> - EDQUOT then Some (Ret (orc, cli))
             else case osc_enter_cache_try now_shift (ocw_oap ocw) (ocw_grant ocw) False cli of
                 Fault e \<Rightarrow> Some (Fault e)
               | Ret (True, cli) \<Rightarrow> Some (Ret (0, cli))
               | Ret (False, cli) \<Rightarrow> enter_wait now_shift ocw orc sleeps cli)"

definition enter_rc :: "int \<Rightarrow> int" where
  "enter_rc rc = (if rc = - ETIMEDOUT then - EDQUOT else if rc = - EINTR then - ERESTARTSYS else rc)"

definition osc_enter_cache ::
  "clock \<Rightarrow> bool \<Rightarrow> bool \<Rightarrow> page \<Rightarrow> u32 \<Rightarrow> sleep list \<Rightarrow> osc_cli \<Rightarrow> (int \<times> osc_cli) outcome option" where
  "osc_enter_cache now_shift fail_no_grant loi_force_sync oap bytes sleeps cli =
     (if fail_no_grant \<or> cl_dirty_max_pages cli = 0 \<or> ar_force_sync (cl_ar cli) \<or> loi_force_sync
      then Some (Ret (- EDQUOT, cli))
      else case osc_enter_cache_try now_shift oap bytes False cli of
          Fault e \<Rightarrow> Some (Fault e)
        | Ret (True, cli) \<Rightarrow> Some (Ret (0, cli))
        | Ret (False, cli) \<Rightarrow>
            (case enter_wait now_shift \<lparr>ocw_oap = oap, ocw_grant = bytes\<rparr> (- EDQUOT) sleeps cli of
               None \<Rightarrow> None
             | Some (Fault e) \<Rightarrow> Some (Fault e)
             | Some (Ret (rc, cli)) \<Rightarrow> Some (Ret (enter_rc rc, cli))))"

section \<open>Grant between client and target\<close>

text \<open>The fields of \<open>struct obdo\<close> a write or a shrink request carries; \<open>o_dirty\<close>, \<open>o_undirty\<close> and
  \<open>o_dropped\<close> are \<open>o_blocks\<close>, \<open>o_mode\<close> and \<open>o_misc\<close>.\<close>

record obdo =
  o_valid :: u64
  o_dirty :: u64
  o_undirty :: u32
  o_grant :: u64
  o_dropped :: u32
  o_flags :: u32
  o_cksum :: u32
  o_sent_time :: timeval

definition OBD_MD_FLBLOCKS :: u64 where "OBD_MD_FLBLOCKS = 0x20"
definition OBD_MD_FLFLAGS :: u64 where "OBD_MD_FLFLAGS = 0x800"
definition OBD_MD_FLGRANT :: u64 where "OBD_MD_FLGRANT = 0x08000000"
definition OBD_FL_SHRINK_GRANT :: u32 where "OBD_FL_SHRINK_GRANT = 0x00020000"
definition OBD_CONNECT_GRANT_SHRINK :: u64 where "OBD_CONNECT_GRANT_SHRINK = 0x200000000"

text \<open>\<open>cl_max_pages_per_rpc << PAGE_CACHE_SHIFT\<close>, a \<open>__u32\<close>.\<close>

definition brw_size :: "osc_cli \<Rightarrow> u32" where
  "brw_size cli = push_bit PAGE_CACHE_SHIFT (cl_max_pages_per_rpc cli)"

definition undirty :: "osc_cli \<Rightarrow> u32" where
  "undirty cli =
     (if cl_dirty_pages cli - cl_dirty_transit cli > cl_dirty_max_pages cli then 0
      else if sint (obd_dirty_pages cli - obd_dirty_transit_pages cli) > sint (obd_max_dirty_pages cli + 1) then 0
      else if cl_dirty_max_pages cli - cl_dirty_pages cli > 0x7fffffff then 0
      else ucast (max (push_bit PAGE_CACHE_SHIFT (cl_dirty_max_pages cli))
                      (ucast (brw_size cli * (cl_max_rpcs_in_flight cli + 1)) :: u64)))"

definition osc_announce_cached :: "obdo \<Rightarrow> osc_cli \<Rightarrow> (obdo \<times> osc_cli) outcome" where
  "osc_announce_cached oa cli =
     (let bits = OBD_MD_FLBLOCKS OR OBD_MD_FLGRANT
      in lassert (o_valid oa AND bits = 0)
        (Ret (oa\<lparr>o_valid := o_valid oa OR bits,
                 o_dirty := push_bit PAGE_CACHE_SHIFT (cl_dirty_pages cli),
                 o_undirty := undirty cli,
                 o_grant := cl_avail_grant cli + cl_reserved_grant cli,
                 o_dropped := ucast (cl_lost_grant cli)\<rparr>,
              cli\<lparr>cl_lost_grant := 0\<rparr>)))"

definition osc_update_grant_locked :: "u64 \<Rightarrow> osc_cli \<Rightarrow> osc_cli" where
  "osc_update_grant_locked grant cli = cli\<lparr>cl_avail_grant := cl_avail_grant cli + grant\<rparr>"

definition osc_update_grant :: "obdo \<Rightarrow> osc_cli \<Rightarrow> osc_cli" where
  "osc_update_grant oa cli =
     (if o_valid oa AND OBD_MD_FLGRANT \<noteq> 0 then osc_update_grant_locked (o_grant oa) cli else cli)"

text \<open>The reply to a shrink request: \<open>oa\<close> is what was sent, \<open>body\<close> what came back.\<close>

definition osc_shrink_grant_interpret :: "obdo \<Rightarrow> obdo option \<Rightarrow> int \<Rightarrow> osc_cli \<Rightarrow> (int \<times> osc_cli) outcome" where
  "osc_shrink_grant_interpret oa body rc cli =
     (if rc \<noteq> 0 then Ret (rc, osc_update_grant_locked (o_grant oa) cli)
      else case body of None \<Rightarrow> Fault LBUG | Some b \<Rightarrow> Ret (rc, osc_update_grant b cli))"

definition mark_shrink :: "obdo \<Rightarrow> obdo" where
  "mark_shrink oa =
     (let oa = (if o_valid oa AND OBD_MD_FLFLAGS = 0
                then oa\<lparr>o_valid := o_valid oa OR OBD_MD_FLFLAGS, o_flags := 0\<rparr> else oa)
      in oa\<lparr>o_flags := o_flags oa OR OBD_FL_SHRINK_GRANT\<rparr>)"

definition osc_shrink_grant_local :: "clock \<Rightarrow> obdo \<Rightarrow> osc_cli \<Rightarrow> obdo \<times> osc_cli" where
  "osc_shrink_grant_local now_shift oa cli =
     (let oa = oa\<lparr>o_grant := cl_avail_grant cli div 4\<rparr>;
          cli = cli\<lparr>cl_avail_grant := cl_avail_grant cli - o_grant oa\<rparr>
      in (mark_shrink oa, osc_update_next_shrink now_shift cli))"

definition zero_obdo :: obdo where
  "zero_obdo = \<lparr>o_valid = 0, o_dirty = 0, o_undirty = 0, o_grant = 0, o_dropped = 0, o_flags = 0, o_cksum = 0, o_sent_time = zero_time\<rparr>"

text \<open>
  \<open>send\<close> is what \<open>osc_set_info_async\<close> returns for the request, \<open>alloc\<close> whether the body could be
  allocated. The request is part of the result.
\<close>

definition osc_shrink_grant_to_target ::
  "clock \<Rightarrow> bool \<Rightarrow> (obdo \<Rightarrow> int) \<Rightarrow> u64 \<Rightarrow> osc_cli \<Rightarrow> (int \<times> obdo option \<times> osc_cli) outcome" where
  "osc_shrink_grant_to_target now_shift alloc send target_bytes cli =
     (let target = (if target_bytes < ucast (brw_size cli) then ucast (brw_size cli) else target_bytes)
      in if target \<ge> cl_avail_grant cli then Ret (0, None, cli)
         else if \<not> alloc then Ret (- ENOMEM, None, cli)
         else
           bindO (osc_announce_cached zero_obdo cli) (\<lambda>(oa, cli).
             let oa = mark_shrink (oa\<lparr>o_grant := cl_avail_grant cli - target\<rparr>);
                 cli = osc_update_next_shrink now_shift (cli\<lparr>cl_avail_grant := target\<rparr>);
                 rc = send oa
             in Ret (rc, Some oa, if rc \<noteq> 0 then osc_update_grant_locked (o_grant oa) cli else cli)))"

definition osc_shrink_grant ::
  "clock \<Rightarrow> bool \<Rightarrow> (obdo \<Rightarrow> int) \<Rightarrow> osc_cli \<Rightarrow> (int \<times> obdo option \<times> osc_cli) outcome" where
  "osc_shrink_grant now_shift alloc send cli =
     (let target_bytes = ucast ((cl_max_rpcs_in_flight cli + 1) * brw_size cli);
          target_bytes = (if cl_avail_grant cli \<le> target_bytes then ucast (brw_size cli) else target_bytes)
      in osc_shrink_grant_to_target now_shift alloc send target_bytes cli)"

text \<open>
  \<open>due\<close> is \<open>cfs_time_aftereq(time, next_shrink - 5 * CFS_TICK)\<close>, \<open>full\<close> whether the import is
  \<open>LUSTRE_IMP_FULL\<close>. \<open>brw_size\<close> is compared as an \<open>int\<close> converted to \<open>unsigned long\<close>.
\<close>

definition osc_should_shrink_grant :: "clock \<Rightarrow> u64 \<Rightarrow> (int \<Rightarrow> bool) \<Rightarrow> bool \<Rightarrow> osc_cli \<Rightarrow> bool \<times> osc_cli" where
  "osc_should_shrink_grant now_shift connect_flags due full cli =
     (if connect_flags AND OBD_CONNECT_GRANT_SHRINK = 0 then (False, cli)
      else if due (cl_next_shrink_grant cli) then
        if full \<and> cl_avail_grant cli > of_int (sint (brw_size cli)) then (True, cli)
        else (False, osc_update_next_shrink now_shift cli)
      else (False, cli))"

text \<open>Connecting: \<open>ocd\<close> carries the whole grant and the block size of the target.\<close>

definition osc_init_grant :: "bool \<Rightarrow> u32 \<Rightarrow> u8 \<Rightarrow> osc_cli \<Rightarrow> osc_cli" where
  "osc_init_grant evicted ocd_grant ocd_blocksize cli =
     (let cli = (if evicted then cli\<lparr>cl_avail_grant := ucast ocd_grant\<rparr>
                 else cli\<lparr>cl_avail_grant := ucast ocd_grant - push_bit PAGE_CACHE_SHIFT (cl_dirty_pages cli)\<rparr>);
          cli = (if cl_avail_grant cli < 0 then cli\<lparr>cl_avail_grant := ucast ocd_grant\<rparr> else cli)
      in cli\<lparr>cl_chunkbits := max PAGE_CACHE_SHIFT (unat ocd_blocksize)\<rparr>)"

section \<open>No grant is made up or lost\<close>

text \<open>The grant in the client's books, as \<open>unsigned long\<close> adds it up.\<close>

definition grant_total :: "osc_cli \<Rightarrow> u64" where
  "grant_total cli = cl_avail_grant cli + cl_reserved_grant cli + cl_lost_grant cli"

text \<open>What the operations on pages leave alone.\<close>

definition same_grant :: "osc_cli \<Rightarrow> osc_cli \<Rightarrow> bool" where
  "same_grant cli cli' \<longleftrightarrow> cl_avail_grant cli' = cl_avail_grant cli \<and> cl_reserved_grant cli' = cl_reserved_grant cli \<and>
     cl_lost_grant cli' = cl_lost_grant cli"

lemma flag_frame [simp]:
  "cl_dirty_pages (set_brw_flag p f cli) = cl_dirty_pages cli"
  "cl_avail_grant (set_brw_flag p f cli) = cl_avail_grant cli"
  "cl_reserved_grant (set_brw_flag p f cli) = cl_reserved_grant cli"
  "cl_lost_grant (set_brw_flag p f cli) = cl_lost_grant cli"
  "cl_dirty_max_pages (set_brw_flag p f cli) = cl_dirty_max_pages cli"
  "obd_dirty_pages (set_brw_flag p f cli) = obd_dirty_pages cli"
  "cl_cache_waiters (set_brw_flag p f cli) = cl_cache_waiters cli"
  "cl_chunkbits (set_brw_flag p f cli) = cl_chunkbits cli"
  "cl_extent_tax (set_brw_flag p f cli) = cl_extent_tax cli"
  "brw_flag (set_brw_flag p f cli) = (brw_flag cli)(p := f)"
  by (simp_all add: set_brw_flag_def)

text \<open>A page is cached exactly when there is grant for it and room for one more dirty page.\<close>

definition can_cache :: "u32 \<Rightarrow> osc_cli \<Rightarrow> bool" where
  "can_cache bytes cli \<longleftrightarrow> ucast bytes \<le> cl_avail_grant cli \<and> dirty_room cli"

definition cached :: "clock \<Rightarrow> page \<Rightarrow> u32 \<Rightarrow> osc_cli \<Rightarrow> osc_cli" where
  "cached now_shift oap bytes cli =
     cli\<lparr>cl_avail_grant := cl_avail_grant cli - ucast bytes, cl_reserved_grant := cl_reserved_grant cli + ucast bytes,
         cl_dirty_pages := cl_dirty_pages cli + 1, obd_dirty_pages := obd_dirty_pages cli + 1,
         brw_flag := (brw_flag cli)(oap := brw_flag cli oap OR OBD_BRW_FROM_GRANT),
         cl_next_shrink_grant := now_shift (cl_grant_shrink_interval cli)\<rparr>"

lemma unreserve_reserve:
  "osc_unreserve_grant_locked b b (cli\<lparr>cl_avail_grant := cl_avail_grant cli - ucast b,
     cl_reserved_grant := cl_reserved_grant cli + ucast b\<rparr>) = cli"
  by (simp add: osc_unreserve_grant_locked_def)

lemma enter_cache_try_eq:
  "osc_enter_cache_try now_shift oap bytes False cli =
     (if can_cache bytes cli
      then lassert (\<not> from_grant cli oap) (Ret (True, cached now_shift oap bytes cli))
      else Ret (False, cli))"
  by (simp add: osc_enter_cache_try_def osc_reserve_grant_def can_cache_def dirty_room_def unreserve_reserve
      osc_consume_write_grant_def cached_def from_grant_def set_brw_flag_def osc_update_next_shrink_def lassert_def)

lemma ucast_diff: "r \<le> u \<Longrightarrow> (ucast (u - r :: u32) :: u64) = ucast u - ucast r"
proof -
  assume "r \<le> u"
  then have "unat (u - r) = unat u - unat r" "unat r \<le> unat u" by (simp_all add: unat_sub word_le_nat_alt)
  then have "(of_nat (unat (u - r)) :: u64) = of_nat (unat u) - of_nat (unat r)" by (simp only: of_nat_diff)
  then show ?thesis by simp
qed

lemma unat_ucast_up: "unat (ucast (x :: u32) :: u64) = unat x"
proof -
  have "unat x < 2 ^ LENGTH(32)" by (rule unsigned_less)
  then have "unat x < 2 ^ 64" by simp
  from unat_of_nat_small [OF this] show ?thesis by simp
qed

lemma ucast_ucast_small: "unat x < 2 ^ 32 \<Longrightarrow> ucast (ucast (x :: u64) :: u32) = x"
proof -
  assume "unat x < 2 ^ 32"
  then have "unat (ucast x :: u32) = unat x" by (simp add: unsigned_ucast_eq take_bit_nat_eq_self)
  then have "(of_nat (unat (ucast x :: u32)) :: u64) = of_nat (unat x)" by simp
  then show ?thesis by simp
qed

lemma grant_total_unreserve:
  "grant_total (osc_unreserve_grant_locked r u cli) = grant_total cli - ucast r + ucast u"
  by (simp add: osc_unreserve_grant_locked_def grant_total_def Let_def ucast_diff)

lemma grant_total_cached [simp]: "grant_total (cached now_shift oap bytes cli) = grant_total cli"
  by (simp add: cached_def grant_total_def)

text \<open>The bytes and the number of the waiters that got their grant.\<close>

fun served :: "(osc_cache_waiter \<times> int) list \<Rightarrow> u64" and served_no :: "(osc_cache_waiter \<times> int) list \<Rightarrow> u64" where
  "served [] = 0"
| "served ((ocw, rc) # woken) = (if rc = 0 then ucast (ocw_grant ocw) else 0) + served woken"
| "served_no [] = 0"
| "served_no ((ocw, rc) # woken) = (if rc = 0 then 1 else 0) + served_no woken"

text \<open>The client after the waiters \<open>woken\<close> were served: the rest of it is as it was.\<close>

definition wakes :: "osc_cli \<Rightarrow> (osc_cache_waiter \<times> int) list \<Rightarrow> osc_cli \<Rightarrow> bool" where
  "wakes cli woken cli' \<longleftrightarrow>
     (\<forall>(ocw, rc) \<in> set woken. rc = 0 \<and> from_grant cli' (ocw_oap ocw) \<or> rc = - EDQUOT) \<and>
     cl_avail_grant cli' = cl_avail_grant cli - served woken \<and>
     cl_reserved_grant cli' = cl_reserved_grant cli + served woken \<and>
     cl_lost_grant cli' = cl_lost_grant cli \<and>
     cl_dirty_pages cli' = cl_dirty_pages cli + served_no woken \<and>
     obd_dirty_pages cli' = obd_dirty_pages cli + served_no woken"

lemma from_grant_cached: "from_grant (cached now_shift oap bytes cli) p \<longleftrightarrow> p = oap \<or> from_grant cli p"
proof -
  have "(f OR OBD_BRW_FROM_GRANT) AND OBD_BRW_FROM_GRANT = OBD_BRW_FROM_GRANT" for f
    by (rule bit_word_eqI) (auto simp: bit_simps)
  then show ?thesis by (simp add: from_grant_def cached_def OBD_BRW_FROM_GRANT_def)
qed

lemma can_cache_waiters [simp]: "can_cache b (cli\<lparr>cl_cache_waiters := ws\<rparr>) = can_cache b cli"
  "from_grant (cli\<lparr>cl_cache_waiters := ws\<rparr>) p = from_grant cli p"
  by (simp_all add: can_cache_def dirty_room_def from_grant_def)

lemma wake_waiters_Cons:
  "wake_waiters now_shift (ocw # ws) cli =
     (if can_cache (ocw_grant ocw) cli then
        lassert (\<not> from_grant cli (ocw_oap ocw))
          (bindO (wake_waiters now_shift ws (cached now_shift (ocw_oap ocw) (ocw_grant ocw) (cli\<lparr>cl_cache_waiters := ws\<rparr>)))
            (\<lambda>(woken, cli). Ret ((ocw, 0) # woken, cli)))
      else bindO (wake_waiters now_shift ws (cli\<lparr>cl_cache_waiters := ws\<rparr>))
        (\<lambda>(woken, cli). Ret ((ocw, - EDQUOT) # woken, cli)))"
proof -
  have "\<not> dirty_room (cli\<lparr>cl_cache_waiters := ws\<rparr>) \<Longrightarrow> \<not> can_cache (ocw_grant ocw) (cli\<lparr>cl_cache_waiters := ws\<rparr>)"
    by (simp only: can_cache_def simp_thms)
  then show ?thesis by (auto simp: Let_def enter_cache_try_eq lassert_def)
qed

lemma wake_keeps_granted:
  "wake_waiters now_shift ws cli = Ret (woken, cli') \<Longrightarrow> from_grant cli p \<Longrightarrow> from_grant cli' p"
  by (induction ws arbitrary: cli woken) (auto simp: wake_waiters_Cons from_grant_cached simp del: wake_waiters.simps(2) split: if_splits)

lemma wake_waiters_wakes:
  assumes "wake_waiters now_shift ws cli = Ret (woken, cli')"
  shows "map fst woken = ws \<and> wakes cli woken cli' \<and> (ws = cl_cache_waiters cli \<longrightarrow> cl_cache_waiters cli' = [])"
  using assms
proof (induction ws arbitrary: cli woken)
  case (Cons ocw ws)
  let ?c = "cli\<lparr>cl_cache_waiters := ws\<rparr>"
  let ?d = "cached now_shift (ocw_oap ocw) (ocw_grant ocw) ?c"
  show ?case
  proof (cases "can_cache (ocw_grant ocw) cli")
    case True
    then obtain w where w: "wake_waiters now_shift ws ?d = Ret (w, cli')" "woken = (ocw, 0) # w"
      using Cons.prems by (auto simp: wake_waiters_Cons simp del: wake_waiters.simps(2))
    have "from_grant cli' (ocw_oap ocw)" by (rule wake_keeps_granted [OF w(1)]) (simp add: from_grant_cached)
    then show ?thesis using Cons.IH [OF w(1)] w(2) by (auto simp: wakes_def cached_def)
  next
    case False
    then obtain w where w: "wake_waiters now_shift ws ?c = Ret (w, cli')" "woken = (ocw, - EDQUOT) # w"
      using Cons.prems by (auto simp: wake_waiters_Cons simp del: wake_waiters.simps(2))
    then show ?thesis using Cons.IH [OF w(1)] by (auto simp: wakes_def)
  qed
qed (simp add: wakes_def)

lemma wakes_total: "wakes cli woken cli' \<Longrightarrow> grant_total cli' = grant_total cli"
  by (simp add: wakes_def grant_total_def)

lemma wake_total:
  "osc_wake_cache_waiters now_shift cli = Ret (woken, cli') \<Longrightarrow> grant_total cli' = grant_total cli"
  unfolding osc_wake_cache_waiters_def using wake_waiters_wakes wakes_total by blast

lemma enter_cache_try_total:
  assumes "osc_enter_cache_try now_shift oap bytes transient cli = Ret (ok, cli')"
  shows "grant_total cli' = grant_total cli" and "cl_reserved_grant cli' = cl_reserved_grant cli + (if ok then ucast bytes else 0)"
  using assms
  by (auto simp: osc_enter_cache_try_def osc_reserve_grant_def osc_consume_write_grant_def grant_total_unreserve
      osc_unreserve_grant_locked_def grant_total_def osc_update_next_shrink_def Let_def split: if_splits)

lemma unreserve_grant_total:
  assumes "osc_unreserve_grant now_shift r u cli = Ret cli'"
  shows "grant_total cli' = grant_total cli - ucast r + ucast u"
  using assms wake_total
  by (fastforce simp: osc_unreserve_grant_def grant_total_unreserve Let_def split: if_splits)

lemma free_grant_total:
  assumes "osc_free_grant now_shift n lost cli = Ret cli'"
  shows "grant_total cli' = grant_total cli + ucast lost"
proof -
  have "grant_total (free_grant_books n lost cli) = grant_total cli + ucast lost"
    by (simp add: free_grant_books_def grant_total_def Let_def)
  with assms wake_total show ?thesis by (fastforce simp: osc_free_grant_def)
qed

lemma announce_total:
  assumes "osc_announce_cached oa cli = Ret (oa', cli')" and "cl_lost_grant cli < 2 ^ 32"
  shows "grant_total cli' + ucast (o_dropped oa') = grant_total cli"
    and "o_grant oa' + ucast (o_dropped oa') = grant_total cli"
proof -
  have "ucast (ucast (cl_lost_grant cli) :: u32) = cl_lost_grant cli"
    by (rule ucast_ucast_small) (use assms(2) in \<open>simp add: word_less_nat_alt\<close>)
  then show "grant_total cli' + ucast (o_dropped oa') = grant_total cli"
    "o_grant oa' + ucast (o_dropped oa') = grant_total cli"
    using assms(1) by (auto simp: osc_announce_cached_def grant_total_def Let_def)
qed

section \<open>Dirty pages\<close>

definition dirty_ok :: "osc_cli \<Rightarrow> bool" where
  "dirty_ok cli \<longleftrightarrow> cl_dirty_pages cli \<le> cl_dirty_max_pages cli \<and> obd_dirty_pages cli \<le> obd_max_dirty_pages cli"

lemma suc_le: "(x :: u64) < y \<Longrightarrow> 1 + x \<le> y"
  using inc_le by (metis add.commute)

lemma cached_dirty_ok:
  assumes "can_cache b cli" and "dirty_ok cli"
  shows "dirty_ok (cached now_shift oap b cli)"
  using assms by (auto simp: can_cache_def dirty_room_def dirty_ok_def cached_def suc_le add.commute [of _ 1])

lemma enter_cache_try_dirty_ok:
  "osc_enter_cache_try now_shift oap b False cli = Ret (ok, cli') \<Longrightarrow> dirty_ok cli \<Longrightarrow> dirty_ok cli'"
  by (auto simp: enter_cache_try_eq cached_dirty_ok split: if_splits)

lemma wake_dirty_ok:
  assumes "wake_waiters now_shift ws cli = Ret (woken, cli')" and "dirty_ok cli"
  shows "dirty_ok cli'"
  using assms
proof (induction ws arbitrary: cli woken)
  case (Cons ocw ws)
  have "dirty_ok (cli\<lparr>cl_cache_waiters := ws\<rparr>)" using Cons.prems(2) by (simp add: dirty_ok_def)
  then show ?case
    using Cons.prems(1) Cons.IH cached_dirty_ok
    by (auto simp: wake_waiters_Cons simp del: wake_waiters.simps(2) split: if_splits)
qed simp

text \<open>Waking never trips the assertion when the waiting pages are distinct and hold no grant yet.\<close>

lemma wake_returns:
  assumes "distinct (map ocw_oap ws)" and "\<forall>ocw \<in> set ws. \<not> from_grant cli (ocw_oap ocw)"
  shows "\<exists>woken cli'. wake_waiters now_shift ws cli = Ret (woken, cli')"
  using assms
proof (induction ws arbitrary: cli)
  case (Cons ocw ws)
  let ?c = "cli\<lparr>cl_cache_waiters := ws\<rparr>"
  have "\<exists>woken cli'. wake_waiters now_shift ws ?c = Ret (woken, cli')"
    "\<exists>woken cli'. wake_waiters now_shift ws (cached now_shift (ocw_oap ocw) (ocw_grant ocw) ?c) = Ret (woken, cli')"
    using Cons.prems by (auto intro!: Cons.IH simp: from_grant_cached image_iff)
  with Cons.prems show ?case
    by (fastforce simp: wake_waiters_Cons simp del: wake_waiters.simps(2))
qed simp

section \<open>Properties\<close>


definition sample_osc :: osc_cli where
  "sample_osc = \<lparr>cl_import = True, cl_max_rpcs_in_flight = 8, cl_max_pages_per_rpc = 256, cl_dirty_max_pages = 8192,
     cl_qos = empty_qos, cl_dirty_pages = 4, cl_dirty_transit = 0, cl_avail_grant = 65536, cl_lost_grant = 4096,
     cl_reserved_grant = 0, cl_cache_waiters = [\<lparr>ocw_oap = 7, ocw_grant = 8192\<rparr>], cl_next_shrink_grant = 0,
     cl_grant_shrink_interval = 60, cl_chunkbits = 12, cl_extent_tax = 4096, cl_r_in_flight = 0, cl_w_in_flight = 1,
     cl_ar = \<lparr>ar_rc = 0, ar_force_sync = False, ar_min_xid = 0\<rparr>, obd_dirty_pages = 9, obd_dirty_transit_pages = 0, obd_max_dirty_pages = 100000,
     brw_flag = (\<lambda>_. 0)\<rparr>"




text \<open>
  A thread that wants to cache a page gets the answer at once when nothing is dirty and no
  write is in flight: \<open>0\<close> exactly when the grant and the room are there, else \<open>-EDQUOT\<close> with the
  books untouched, on which the caller writes synchronously.
\<close>

theorem enter_cache_idle:
  assumes "cl_dirty_pages cli = 0" and "cl_w_in_flight cli = 0" and "\<not> from_grant cli oap"
    and "\<not> ar_force_sync (cl_ar cli)" and "cl_dirty_max_pages cli \<noteq> 0"
  shows "osc_enter_cache now_shift False False oap bytes sleeps cli =
    Some (Ret (if can_cache bytes cli then (0, cached now_shift oap bytes cli) else (- EDQUOT, cli)))"
  using assms by (simp add: osc_enter_cache_def enter_cache_try_eq enter_rc_def)

theorem enter_cache_idle_witness:
  "osc_enter_cache (\<lambda>d. d) False False 3 8192 [] (sample_osc\<lparr>cl_dirty_pages := 0, cl_w_in_flight := 0\<rparr>) =
     Some (Ret (0, cached (\<lambda>d. d) 3 8192 (sample_osc\<lparr>cl_dirty_pages := 0, cl_w_in_flight := 0\<rparr>)))"
  using enter_cache_idle [of "sample_osc\<lparr>cl_dirty_pages := 0, cl_w_in_flight := 0\<rparr>" 3 "\<lambda>d. d" 8192 "[]"]
  by (simp add: sample_osc_def from_grant_def can_cache_def dirty_room_def)

text \<open>
  \<open>cl_avail_grant\<close> is unsigned, so the test for a negative value never fires: a target that grants
  less than the dirty bytes leaves the client with almost 2^64 bytes of grant.
\<close>

theorem init_grant_wraps:
  assumes "unat (cl_dirty_pages cli) < 2 ^ 52" and "unat ocd_grant < unat (cl_dirty_pages cli) * 4096"
  shows "unat (cl_avail_grant (osc_init_grant False ocd_grant bs cli)) =
    2 ^ 64 + unat ocd_grant - unat (cl_dirty_pages cli) * 4096"
proof -
  have d: "unat (push_bit 12 (cl_dirty_pages cli)) = unat (cl_dirty_pages cli) * 4096"
    using assms(1) by (simp add: push_bit_eq_mult unat_word_ariths)
  then have "unat (ucast ocd_grant :: u64) < unat (push_bit 12 (cl_dirty_pages cli))"
    using assms(2) by (simp add: unat_ucast_up)
  from unat_minus_wrap [OF this] d show ?thesis by (simp add: osc_init_grant_def unat_ucast_up)
qed

text \<open>When the shrink request cannot be sent, the dropped grant it announced is forgotten.\<close>

theorem shrink_failure_forgets_dropped:
  assumes "osc_shrink_grant_to_target now_shift alloc send target cli = Ret (rc, Some req, cli')" and "rc \<noteq> 0"
  shows "grant_total cli' = grant_total cli - cl_lost_grant cli"
  using assms
  by (auto simp: osc_shrink_grant_to_target_def osc_announce_cached_def mark_shrink_def osc_update_next_shrink_def
      osc_update_grant_locked_def grant_total_def Let_def split: if_splits)

end
