(* ===== verification/Osc_Extent.thy ===== *)
theory Osc_Extent
  imports Osc_Grant "HOL-Library.Tree"
begin

text \<open>
  The extents of an object of the client cache (\<open>osc_cache.c\<close> up to \<open>osc_extent_tree_dump0\<close>): runs of
  dirty pages that one write RPC can carry, kept in a tree ordered by page index and covered by
  grant chunk by chunk. The definitions follow the code function by function.

  Extents are addresses into \<open>oo_ext\<close>. Page indices (\<open>pgoff_t\<close>) and page counts are natural numbers:
  a file has less than 2^52 pages. Amounts of grant are \<open>unsigned int\<close>. The caller holds the object
  lock. Outside \<open>src/\<close> and therefore parameters (\<open>osc_env\<close>): the rebalancing of the red-black tree,
  the DLM locks, the offset of a page and the debug switch. \<open>struct osc_extent\<close> and
  \<open>struct osc_object\<close> are declared there too; the records have the fields the code reads and writes.
\<close>

section \<open>Data\<close>

datatype oes = OES_INV | OES_ACTIVE | OES_CACHE | OES_LOCKING | OES_LOCK_DONE | OES_RPC | OES_TRUNC

primrec oes_no :: "oes \<Rightarrow> nat" where
  "oes_no OES_INV = 0"
| "oes_no OES_ACTIVE = 1"
| "oes_no OES_CACHE = 2"
| "oes_no OES_LOCKING = 3"
| "oes_no OES_LOCK_DONE = 4"
| "oes_no OES_RPC = 5"
| "oes_no OES_TRUNC = 6"

lemma oes_no_inj: "oes_no s = oes_no t \<Longrightarrow> s = t"
  by (cases s; cases t) simp_all

instantiation oes :: linorder
begin

definition less_eq_oes :: "oes \<Rightarrow> oes \<Rightarrow> bool" where "less_eq_oes s t \<longleftrightarrow> oes_no s \<le> oes_no t"
definition less_oes :: "oes \<Rightarrow> oes \<Rightarrow> bool" where "less_oes s t \<longleftrightarrow> oes_no s < oes_no t"

instance
  by standard (auto simp: less_eq_oes_def less_oes_def intro: oes_no_inj)

end

type_synonym eref = nat
type_synonym pgoff = nat

text \<open>\<open>oe_link\<close> is read off the lists of the object; \<open>oe_owner\<close> is whether an owner is set.\<close>

record osc_extent =
  oe_start :: pgoff
  oe_end :: pgoff
  oe_max_end :: pgoff
  oe_state :: oes
  oe_refc :: int
  oe_users :: int
  oe_intree :: bool
  oe_urgent :: bool
  oe_hp :: bool
  oe_memalloc :: bool
  oe_trunc_pending :: bool
  oe_fsync_wait :: bool
  oe_sync :: bool
  oe_srvlock :: bool
  oe_no_merge :: bool
  oe_owner :: bool
  oe_grants :: u32
  oe_nr_pages :: nat
  oe_pages :: "page list"
  oe_mppr :: nat
  oe_dlmlock :: "nat option"
  oe_rc :: int

text \<open>
  \<open>struct osc_async_page\<close>: \<open>oap_write\<close> is the write bit of \<open>oap_cmd\<close>, \<open>oap_ready\<close>, \<open>oap_urgent\<close> and
  \<open>oap_count_stable\<close> are its \<open>oap_async_flags\<close>, \<open>oap_xid\<close> is the xid of \<open>oap_request\<close>.
\<close>

record osc_async_page =
  oap_obj_off :: int
  oap_page_off :: int
  oap_count :: int
  oap_write :: bool
  oap_ready :: bool
  oap_urgent :: bool
  oap_count_stable :: bool
  oap_xid :: "u64 option"
  oap_interrupted :: bool

record osc_object =
  oo_root :: "eref tree"
  oo_ext :: "eref \<Rightarrow> osc_extent"
  oo_hp_exts :: "eref list"
  oo_urgent_exts :: "eref list"
  oo_reading_exts :: "eref list"
  oo_nr_writes :: int
  oo_nr_reads :: int
  cl_pending_w_pages :: int
  cl_pending_r_pages :: int
  oo_oap :: "page \<Rightarrow> osc_async_page"
  loi_ar :: osc_async_rc

record dlm_lock =
  l_failed :: bool
  l_start :: nat
  l_end :: nat
  l_can_write :: bool

record osc_env =
  rb_insert_color :: "eref \<Rightarrow> eref tree \<Rightarrow> eref tree"
  rb_erase :: "eref \<Rightarrow> eref tree \<Rightarrow> eref tree"
  dlm :: "nat \<Rightarrow> dlm_lock"
  cl_offset :: "pgoff \<Rightarrow> nat"
  osc_index :: "page \<Rightarrow> pgoff"
  extent_debug :: bool

definition upd :: "eref \<Rightarrow> (osc_extent \<Rightarrow> osc_extent) \<Rightarrow> osc_object \<Rightarrow> osc_object" where
  "upd x f obj = obj\<lparr>oo_ext := (oo_ext obj)(x := f (oo_ext obj x))\<rparr>"

section \<open>The tree\<close>

text \<open>The neighbours of a node are its neighbours in the order of the tree.\<close>

fun after :: "'a \<Rightarrow> 'a list \<Rightarrow> 'a list" where
  "after x [] = []"
| "after x (y # ys) = (if x = y then ys else after x ys)"

definition head_of :: "'a list \<Rightarrow> 'a option" where
  "head_of xs = (case xs of [] \<Rightarrow> None | x # _ \<Rightarrow> Some x)"

definition exts :: "osc_object \<Rightarrow> eref list" where
  "exts obj = inorder (oo_root obj)"

definition next_extent :: "osc_object \<Rightarrow> eref \<Rightarrow> eref option outcome" where
  "next_extent obj x = lassert (oe_intree (oo_ext obj x)) (Ret (head_of (after x (exts obj))))"

definition prev_extent :: "osc_object \<Rightarrow> eref \<Rightarrow> eref option outcome" where
  "prev_extent obj x = lassert (oe_intree (oo_ext obj x)) (Ret (head_of (after x (rev (exts obj)))))"

definition first_extent :: "osc_object \<Rightarrow> eref option" where
  "first_extent obj = head_of (exts obj)"

fun search_from :: "(eref \<Rightarrow> osc_extent) \<Rightarrow> pgoff \<Rightarrow> eref tree \<Rightarrow> eref option \<Rightarrow> eref option" where
  "search_from E index Leaf p = p"
| "search_from E index (Node l x r) p =
     (if index < oe_start (E x) then search_from E index l p
      else if index > oe_end (E x) then search_from E index r (Some x)
      else Some x)"

definition osc_extent_search :: "osc_object \<Rightarrow> pgoff \<Rightarrow> eref option" where
  "osc_extent_search obj index = search_from (oo_ext obj) index (oo_root obj) None"

definition osc_extent_get :: "eref \<Rightarrow> osc_object \<Rightarrow> osc_object outcome" where
  "osc_extent_get x obj =
     lassert (oe_refc (oo_ext obj x) \<ge> 0) (Ret (upd x (\<lambda>e. e\<lparr>oe_refc := oe_refc e + 1\<rparr>) obj))"

definition osc_extent_lookup :: "osc_object \<Rightarrow> pgoff \<Rightarrow> (eref option \<times> osc_object) outcome" where
  "osc_extent_lookup obj index =
     (case osc_extent_search obj index of
        None \<Rightarrow> Ret (None, obj)
      | Some x \<Rightarrow>
          if oe_start (oo_ext obj x) \<le> index \<and> index \<le> oe_end (oo_ext obj x)
          then bindO (osc_extent_get x obj) (\<lambda>obj. Ret (Some x, obj))
          else Ret (None, obj))"

text \<open>The descent to the free leaf; an extent that overlaps the new one trips the assertion.\<close>

fun link_node :: "(eref \<Rightarrow> osc_extent) \<Rightarrow> eref \<Rightarrow> eref tree \<Rightarrow> eref tree outcome" where
  "link_node E x Leaf = Ret (Node Leaf x Leaf)"
| "link_node E x (Node l t r) =
     (if oe_end (E x) < oe_start (E t) then bindO (link_node E x l) (\<lambda>l. Ret (Node l t r))
      else if oe_start (E x) > oe_end (E t) then bindO (link_node E x r) (\<lambda>r. Ret (Node l t r))
      else Fault LBUG)"

definition osc_extent_insert :: "osc_env \<Rightarrow> eref \<Rightarrow> osc_object \<Rightarrow> osc_object outcome" where
  "osc_extent_insert env x obj =
     lassert (\<not> oe_intree (oo_ext obj x))
       (bindO (link_node (oo_ext obj) x (oo_root obj)) (\<lambda>t.
        bindO (osc_extent_get x (obj\<lparr>oo_root := rb_insert_color env x t\<rparr>)) (\<lambda>obj.
        Ret (upd x (\<lambda>e. e\<lparr>oe_intree := True\<rparr>) obj))))"

section \<open>References and lists\<close>

definition on_link :: "eref \<Rightarrow> osc_object \<Rightarrow> bool" where
  "on_link x obj \<longleftrightarrow> x \<in> set (oo_hp_exts obj) \<union> set (oo_urgent_exts obj) \<union> set (oo_reading_exts obj)"

text \<open>\<open>list_del_init(&ext->oe_link)\<close>.\<close>

definition unlink :: "eref \<Rightarrow> osc_object \<Rightarrow> osc_object" where
  "unlink x obj = obj\<lparr>oo_hp_exts := remove1 x (oo_hp_exts obj), oo_urgent_exts := remove1 x (oo_urgent_exts obj),
     oo_reading_exts := remove1 x (oo_reading_exts obj)\<rparr>"

text \<open>The memory of an extent whose count reached 0 is given back; the record stays for reference.\<close>

definition osc_extent_put :: "eref \<Rightarrow> osc_object \<Rightarrow> osc_object outcome" where
  "osc_extent_put x obj =
     (let e = oo_ext obj x; obj' = upd x (\<lambda>e. e\<lparr>oe_refc := oe_refc e - 1\<rparr>) obj
      in lassert (oe_refc e > 0)
        (if oe_refc e - 1 = 0 then
           lassert (\<not> on_link x obj) (lassert (oe_users e = 0) (lassert (oe_state e = OES_INV) (lassert (\<not> oe_intree e)
             (Ret (upd x (\<lambda>e. e\<lparr>oe_dlmlock := None\<rparr>) obj')))))
         else Ret obj'))"

definition osc_extent_put_trust :: "eref \<Rightarrow> osc_object \<Rightarrow> osc_object outcome" where
  "osc_extent_put_trust x obj =
     lassert (oe_refc (oo_ext obj x) > 1) (Ret (upd x (\<lambda>e. e\<lparr>oe_refc := oe_refc e - 1\<rparr>) obj))"

definition osc_extent_state_set :: "eref \<Rightarrow> oes \<Rightarrow> osc_object \<Rightarrow> osc_object" where
  "osc_extent_state_set x state obj = upd x (\<lambda>e. e\<lparr>oe_state := state\<rparr>) obj"

definition osc_extent_erase :: "osc_env \<Rightarrow> eref \<Rightarrow> osc_object \<Rightarrow> osc_object outcome" where
  "osc_extent_erase env x obj =
     (if oe_intree (oo_ext obj x) then
        osc_extent_put_trust x (upd x (\<lambda>e. e\<lparr>oe_intree := False\<rparr>) (obj\<lparr>oo_root := rb_erase env x (oo_root obj)\<rparr>))
      else Ret obj)"

text \<open>The pages of an object that wait for a write or a read RPC.\<close>

definition osc_update_pending :: "bool \<Rightarrow> int \<Rightarrow> osc_object \<Rightarrow> osc_object outcome" where
  "osc_update_pending write delta obj =
     (if write then
        let obj = obj\<lparr>oo_nr_writes := oo_nr_writes obj + delta, cl_pending_w_pages := cl_pending_w_pages obj + delta\<rparr>
        in lassert (oo_nr_writes obj \<ge> 0) (Ret obj)
      else
        let obj = obj\<lparr>oo_nr_reads := oo_nr_reads obj + delta, cl_pending_r_pages := cl_pending_r_pages obj + delta\<rparr>
        in lassert (oo_nr_reads obj \<ge> 0) (Ret obj))"

definition osc_extent_hold :: "eref \<Rightarrow> osc_object \<Rightarrow> osc_object outcome" where
  "osc_extent_hold x obj =
     lassert (oe_state (oo_ext obj x) \<in> {OES_ACTIVE, OES_CACHE})
       (bindO (if oe_state (oo_ext obj x) = OES_CACHE
               then osc_update_pending True (- int (oe_nr_pages (oo_ext obj x))) (osc_extent_state_set x OES_ACTIVE obj)
               else Ret obj)
        (\<lambda>obj. osc_extent_get x (unlink x (upd x (\<lambda>e. e\<lparr>oe_users := oe_users e + 1\<rparr>) obj))))"

definition osc_extent_remove :: "osc_env \<Rightarrow> eref \<Rightarrow> osc_object \<Rightarrow> osc_object outcome" where
  "osc_extent_remove env x obj =
     lassert (oe_pages (oo_ext obj x) = [])
       (bindO (osc_extent_erase env x obj) (\<lambda>obj. Ret (osc_extent_state_set x OES_INV (unlink x obj))))"

section \<open>Sanity\<close>

definition state_code :: "osc_extent \<Rightarrow> int" where
  "state_code e =
     (case oe_state e of
        OES_ACTIVE \<Rightarrow> if oe_users e = 0 then 40 else if oe_hp e then 50
                      else if oe_fsync_wait e \<and> \<not> oe_urgent e then 55 else 0
      | OES_CACHE \<Rightarrow> if oe_grants e = 0 then 60
                     else if oe_fsync_wait e \<and> \<not> oe_urgent e \<and> \<not> oe_hp e then 65
                     else if oe_users e > 0 then 70 else 0
      | _ \<Rightarrow> if oe_users e > 0 then 70 else 0)"

definition lock_code :: "osc_env \<Rightarrow> osc_extent \<Rightarrow> int" where
  "lock_code env e =
     (case oe_dlmlock e of None \<Rightarrow> 0
      | Some l \<Rightarrow>
          if l_failed (dlm env l) then 0
          else if \<not> (l_start (dlm env l) \<le> cl_offset env (oe_start e) \<and> l_end (dlm env l) \<ge> cl_offset env (oe_max_end e)) then 100
          else if \<not> l_can_write (dlm env l) then 102 else 0)"

definition page_code :: "osc_env \<Rightarrow> osc_extent \<Rightarrow> int" where
  "page_code env e =
     (if oe_state e > OES_CACHE \<or> \<not> extent_debug env then 0
      else if list_ex (\<lambda>p. osc_index env p > oe_end e \<or> osc_index env p < oe_start e) (oe_pages e) then 110
      else if length (oe_pages e) \<noteq> oe_nr_pages e then 120 else 0)"

definition osc_extent_sanity_check0 :: "osc_env \<Rightarrow> osc_extent \<Rightarrow> int" where
  "osc_extent_sanity_check0 env e =
     (if oe_refc e \<le> 0 then 20
      else if oe_refc e < oe_users e then 30
      else if oe_state e = OES_INV then (if oe_nr_pages e > 0 \<or> oe_pages e \<noteq> [] then 35 else 0)
      else if state_code e \<noteq> 0 then state_code e
      else if oe_max_end e < oe_end e \<or> oe_end e < oe_start e then 80
      else if oe_sync e \<and> oe_grants e > 0 then 90
      else if lock_code env e \<noteq> 0 then lock_code env e
      else if oe_nr_pages e > oe_mppr e then 105
      else page_code env e)"

definition overlapped :: "osc_extent \<Rightarrow> osc_extent \<Rightarrow> bool" where
  "overlapped e1 e2 \<longleftrightarrow> \<not> (oe_end e1 < oe_start e2 \<or> oe_end e2 < oe_start e1)"

definition osc_extent_is_overlapped :: "osc_env \<Rightarrow> eref \<Rightarrow> osc_object \<Rightarrow> bool" where
  "osc_extent_is_overlapped env x obj \<longleftrightarrow> extent_debug env \<and>
     list_ex (\<lambda>t. t \<noteq> x \<and> oe_end (oo_ext obj t) \<ge> oe_start (oo_ext obj x) \<and>
                  oe_start (oo_ext obj t) \<le> oe_end (oo_ext obj x)) (exts obj)"

section \<open>Merging and releasing\<close>

abbreviation (input) EBUSY :: int where "EBUSY \<equiv> 16"
abbreviation (input) EAGAIN :: int where "EAGAIN \<equiv> 11"

text \<open>Pages per chunk; shifting right by \<open>ppc_bits\<close> divides by it.\<close>

definition ppc :: "osc_cli \<Rightarrow> nat" where
  "ppc cli = 2 ^ (cl_chunkbits cli - PAGE_CACHE_SHIFT)"

definition chunksize :: "osc_cli \<Rightarrow> u32" where
  "chunksize cli = push_bit (cl_chunkbits cli) 1"

definition absorb :: "osc_extent \<Rightarrow> osc_extent \<Rightarrow> osc_extent" where
  "absorb v e = e\<lparr>oe_start := min (oe_start e) (oe_start v), oe_end := max (oe_end e) (oe_end v),
     oe_grants := oe_grants e + oe_grants v, oe_nr_pages := oe_nr_pages e + oe_nr_pages v,
     oe_urgent := oe_urgent e \<or> oe_urgent v, oe_memalloc := oe_memalloc e \<or> oe_memalloc v,
     oe_pages := oe_pages v @ oe_pages e\<rparr>"

definition osc_extent_merge :: "osc_env \<Rightarrow> osc_cli \<Rightarrow> eref \<Rightarrow> eref option \<Rightarrow> osc_object \<Rightarrow> (int \<times> osc_object) outcome" where
  "osc_extent_merge env cli cur victim obj =
     (let e = oo_ext obj cur in
      lassert (oe_state e = OES_CACHE)
      (case victim of None \<Rightarrow> Ret (- EINVAL, obj)
       | Some vic \<Rightarrow>
         let v = oo_ext obj vic in
         if oe_state v \<noteq> OES_CACHE \<or> oe_fsync_wait v then Ret (- EBUSY, obj)
         else if oe_max_end e \<noteq> oe_max_end v then Ret (- ERANGE, obj)
         else lassert (oe_dlmlock e = oe_dlmlock v)
          (if oe_start e div ppc cli \<noteq> oe_end v div ppc cli + 1 \<and> oe_end e div ppc cli + 1 \<noteq> oe_start v div ppc cli
           then Ret (- ERANGE, obj)
           else
             let obj = upd cur (absorb v) obj;
                 obj = unlink vic (upd vic (\<lambda>v. v\<lparr>oe_nr_pages := 0, oe_pages := []\<rparr>) obj)
             in bindO (osc_extent_get vic obj) (\<lambda>obj.
                bindO (osc_extent_remove env vic obj) (\<lambda>obj.
                bindO (osc_extent_put vic obj) (\<lambda>obj. Ret (0, obj)))))))"

text \<open>
  The flag of the result says that the last user left and \<open>osc_io_unplug_async\<close> is called.
\<close>

definition osc_extent_release :: "osc_env \<Rightarrow> osc_cli \<Rightarrow> eref \<Rightarrow> osc_object \<Rightarrow> (bool \<times> osc_object) outcome" where
  "osc_extent_release env cli x obj =
     (let e = oo_ext obj x in
      lassert (oe_users e > 0) (lassert (osc_extent_sanity_check0 env e = 0) (lassert (oe_grants e > 0)
      (let obj = upd x (\<lambda>e. e\<lparr>oe_users := oe_users e - 1\<rparr>) obj
       in if oe_users (oo_ext obj x) = 0 then
            lassert (oe_state (oo_ext obj x) = OES_ACTIVE)
            (bindO
              (if oe_trunc_pending (oo_ext obj x) then
                 Ret (upd x (\<lambda>e. e\<lparr>oe_trunc_pending := False\<rparr>) (osc_extent_state_set x OES_TRUNC obj))
               else
                 bindO (osc_update_pending True (int (oe_nr_pages (oo_ext obj x))) (osc_extent_state_set x OES_CACHE obj)) (\<lambda>obj.
                 bindO (prev_extent obj x) (\<lambda>prev.
                 bindO (osc_extent_merge env cli x prev obj) (\<lambda>(_, obj).
                 bindO (next_extent obj x) (\<lambda>nxt.
                 bindO (osc_extent_merge env cli x nxt obj) (\<lambda>(_, obj).
                 Ret (if oe_urgent (oo_ext obj x)
                      then (unlink x obj)\<lparr>oo_urgent_exts := oo_urgent_exts (unlink x obj) @ [x]\<rparr> else obj)))))))
              (\<lambda>obj. bindO (osc_extent_put x obj) (\<lambda>obj. Ret (True, obj))))
          else bindO (osc_extent_put x obj) (\<lambda>obj. Ret (False, obj))))))"

section \<open>Finding an extent for a page\<close>

text \<open>The lock of the IO: its range in pages, its state, and the DLM lock behind it.\<close>

record osc_lock =
  ols_granted :: bool
  ols_hold :: bool
  ols_dlmlock :: "nat option"
  cld_write :: bool
  cld_start :: pgoff
  cld_end :: pgoff

definition new_extent :: osc_extent where
  "new_extent = \<lparr>oe_start = 0, oe_end = 0, oe_max_end = 0, oe_state = OES_INV, oe_refc = 1, oe_users = 0,
     oe_intree = False, oe_urgent = False, oe_hp = False, oe_memalloc = False, oe_trunc_pending = False,
     oe_fsync_wait = False, oe_sync = False, oe_srvlock = False, oe_no_merge = False, oe_owner = False,
     oe_grants = 0, oe_nr_pages = 0, oe_pages = [], oe_mppr = 0, oe_dlmlock = None, oe_rc = 0\<rparr>"

definition osc_extent_alloc :: "eref \<Rightarrow> osc_object \<Rightarrow> osc_object" where
  "osc_extent_alloc x obj = obj\<lparr>oo_ext := (oo_ext obj)(x := new_extent)\<rparr>"

text \<open>The smallest extent that holds the page: its chunk, cut at the ends of the lock and of the RPC slot.\<close>

definition slot_end :: "osc_cli \<Rightarrow> osc_lock \<Rightarrow> pgoff \<Rightarrow> pgoff" where
  "slot_end cli lk index =
     (let mp = unat (cl_max_pages_per_rpc cli) in min (index - index mod mp + mp - 1) (cld_end lk))"

definition cur_extent :: "osc_cli \<Rightarrow> osc_lock \<Rightarrow> pgoff \<Rightarrow> osc_extent \<Rightarrow> osc_extent" where
  "cur_extent cli lk index e =
     (let start = index div ppc cli * ppc cli; fin = (index + ppc cli) div ppc cli * ppc cli - 1
      in e\<lparr>oe_max_end := slot_end cli lk index,
           oe_start := if start < cld_start lk then cld_start lk else start,
           oe_end := if fin > slot_end cli lk index then slot_end cli lk index else fin,
           oe_grants := 0, oe_mppr := unat (cl_max_pages_per_rpc cli), oe_dlmlock := ols_dlmlock lk\<rparr>)"

datatype find_result = Found eref | Conflict eref | Absent

text \<open>
  The walk over the tree from the extent \<open>osc_extent_search\<close> returned: \<open>e\<close> is the new extent,
  \<open>chunk\<close> the chunk of the page.
\<close>

fun find_loop ::
  "osc_env \<Rightarrow> osc_cli \<Rightarrow> osc_lock \<Rightarrow> osc_extent \<Rightarrow> nat \<Rightarrow> eref list \<Rightarrow> u32 \<Rightarrow> osc_object \<Rightarrow>
   (find_result \<times> u32 \<times> osc_object) outcome" where
  "find_loop env cli lk cur chunk [] grants obj = Ret (Absent, grants, obj)"
| "find_loop env cli lk cur chunk (x # xs) grants obj =
     (let e = oo_ext obj x; chk_start = oe_start e div ppc cli; chk_end = oe_end e div ppc cli in
      lassert (osc_extent_sanity_check0 env e = 0)
      (if chunk > chk_end + 1 then Ret (Absent, grants, obj)
       else if ols_dlmlock lk \<noteq> oe_dlmlock e then
         lassert (\<not> overlapped e cur) (find_loop env cli lk cur chunk xs grants obj)
       else if chunk + 1 < chk_start then find_loop env cli lk cur chunk xs grants obj
       else if overlapped e cur then
         lassert (oe_start e \<le> oe_start cur \<and> oe_end e \<ge> oe_end cur)
           (if oe_state e > OES_CACHE \<or> oe_fsync_wait e
            then bindO (osc_extent_get x obj) (\<lambda>obj. Ret (Conflict x, grants, obj))
            else bindO (osc_extent_hold x obj) (\<lambda>obj. Ret (Found x, grants, obj)))
       else if oe_state e \<noteq> OES_CACHE \<or> oe_fsync_wait e then find_loop env cli lk cur chunk xs grants obj
       else if oe_max_end e \<noteq> oe_max_end cur then find_loop env cli lk cur chunk xs grants obj
       else if chunk + 1 = chk_start then
         lassert (oe_start e mod ppc cli = 0)
           (bindO (osc_extent_hold x (upd x (\<lambda>e. e\<lparr>oe_start := oe_start cur, oe_grants := oe_grants e + chunksize cli\<rparr>) obj))
             (\<lambda>obj. Ret (Found x, grants - chunksize cli, obj)))
       else if chunk = chk_end + 1 then
         (let obj = upd x (\<lambda>e. e\<lparr>oe_end := oe_end cur, oe_grants := oe_grants e + chunksize cli\<rparr>) obj
          in bindO (next_extent obj x) (\<lambda>nxt.
             bindO (osc_extent_merge env cli x nxt obj) (\<lambda>(rc, obj).
             bindO (osc_extent_hold x obj) (\<lambda>obj.
             Ret (Found x, grants - chunksize cli + (if rc = 0 then cl_extent_tax cli else 0), obj)))))
       else find_loop env cli lk cur chunk xs grants obj))"

definition from_search :: "osc_object \<Rightarrow> pgoff \<Rightarrow> eref list" where
  "from_search obj index =
     (case osc_extent_search obj index of None \<Rightarrow> exts obj | Some x \<Rightarrow> x # after x (exts obj))"

text \<open>One pass with the object locked; \<open>c\<close> is the address of the new extent.\<close>

definition find_pass ::
  "osc_env \<Rightarrow> osc_cli \<Rightarrow> osc_lock \<Rightarrow> pgoff \<Rightarrow> eref \<Rightarrow> u32 \<Rightarrow> osc_object \<Rightarrow> (find_result \<times> u32 \<times> osc_object) outcome" where
  "find_pass env cli lk index c grants obj =
     bindO (find_loop env cli lk (oo_ext obj c) (index div ppc cli) (from_search obj (oe_start (oo_ext obj c))) grants obj)
       (\<lambda>(res, grants, obj).
         case res of
           Found x \<Rightarrow> lassert (oe_dlmlock (oo_ext obj x) = oe_dlmlock (oo_ext obj c)) (Ret (Found x, grants, obj))
         | Conflict x \<Rightarrow> Ret (Conflict x, grants, obj)
         | Absent \<Rightarrow>
             lassert (\<not> osc_extent_is_overlapped env c obj)
               (let g = chunksize cli + cl_extent_tax cli;
                    obj = upd c (\<lambda>e. e\<lparr>oe_grants := g, oe_state := OES_CACHE\<rparr>) obj
                in bindO (osc_extent_hold c obj) (\<lambda>obj.
                   bindO (osc_extent_insert env c obj) (\<lambda>obj. Ret (Found c, grants - g, obj)))))"

text \<open>
  The whole function. \<open>waits\<close> are the waits for conflicting extents: what \<open>osc_extent_wait\<close> returned
  and the object at that time; with none left the call is still waiting (\<open>None\<close>).
\<close>

type_synonym extent_wait = "eref \<Rightarrow> osc_object \<Rightarrow> int \<times> osc_object"

fun find_passes ::
  "osc_env \<Rightarrow> osc_cli \<Rightarrow> osc_lock \<Rightarrow> pgoff \<Rightarrow> eref \<Rightarrow> u32 \<Rightarrow> extent_wait list \<Rightarrow> osc_object \<Rightarrow>
   ((int + eref) \<times> u32 \<times> osc_object) outcome option" where
  "find_passes env cli lk index c grants waits obj =
     (case find_pass env cli lk index c grants obj of
        Fault e \<Rightarrow> Some (Fault e)
      | Ret (Absent, _, _) \<Rightarrow> Some (Fault LBUG)
      | Ret (Found x, grants, obj) \<Rightarrow> Some (bindO (osc_extent_put c obj) (\<lambda>obj. Ret (Inr x, grants, obj)))
      | Ret (Conflict x, grants, obj) \<Rightarrow>
          (case waits of [] \<Rightarrow> None
           | w # waits \<Rightarrow>
               let (rc, obj) = w x obj
               in case osc_extent_put x obj of
                    Fault e \<Rightarrow> Some (Fault e)
                  | Ret obj \<Rightarrow>
                      if rc < 0 then Some (bindO (osc_extent_put c obj) (\<lambda>obj. Ret (Inl rc, grants, obj)))
                      else find_passes env cli lk index c grants waits obj))"

definition osc_extent_find ::
  "osc_env \<Rightarrow> osc_cli \<Rightarrow> eref option \<Rightarrow> osc_lock option \<Rightarrow> pgoff \<Rightarrow> u32 \<Rightarrow> extent_wait list \<Rightarrow> osc_object \<Rightarrow>
   ((int + eref) \<times> u32 \<times> osc_object) outcome option" where
  "osc_extent_find env cli new olck index grants waits obj =
     (case new of None \<Rightarrow> Some (Ret (Inl (- ENOMEM), grants, obj))
      | Some c \<Rightarrow>
        (case olck of None \<Rightarrow> Some (Fault LBUG)
         | Some lk \<Rightarrow>
           if ols_granted lk \<and> cld_write lk \<and> cl_chunkbits cli \<ge> PAGE_CACHE_SHIFT \<and>
              unat (cl_max_pages_per_rpc cli) mod ppc cli = 0 \<and> (ols_dlmlock lk \<noteq> None \<longrightarrow> ols_hold lk) \<and>
              grants \<ge> chunksize cli + cl_extent_tax cli
           then
             let obj = upd c (cur_extent cli lk index) (osc_extent_alloc c obj); e = oo_ext obj c
             in if cl_max_pages_per_rpc cli = 0 then Some (Fault DIV_TRAP)
                else if oe_start e \<le> oe_max_end e \<and> oe_max_end e - oe_start e < unat (cl_max_pages_per_rpc cli)
                then find_passes env cli lk index c grants waits obj
                else Some (Fault LBUG)
           else Some (Fault LBUG)))"

section \<open>Expanding an extent\<close>

definition osc_extent_expand ::
  "osc_env \<Rightarrow> osc_cli \<Rightarrow> eref \<Rightarrow> pgoff \<Rightarrow> u32 \<Rightarrow> osc_object \<Rightarrow> (int \<times> u32 \<times> osc_object) outcome" where
  "osc_extent_expand env cli x index grants obj =
     (let e = oo_ext obj x; chunk = index div ppc cli; end_chunk = oe_end e div ppc cli in
      lassert (oe_max_end e \<ge> index \<and> oe_start e \<le> index) (lassert (osc_extent_sanity_check0 env e = 0)
      (if chunk > end_chunk + 1 then Ret (- ERANGE, grants, obj)
       else if end_chunk \<ge> chunk then Ret (0, grants, obj)
       else
         let end_index = min (oe_max_end e) ((chunk + 1) * ppc cli - 1) in
         bindO (next_extent obj x) (\<lambda>nxt.
           if (case nxt of None \<Rightarrow> False | Some n \<Rightarrow> oe_start (oo_ext obj n) \<le> end_index) then Ret (- EAGAIN, grants, obj)
           else
             let obj = upd x (\<lambda>e. e\<lparr>oe_end := end_index, oe_grants := oe_grants e + chunksize cli\<rparr>) obj
             in lassert (\<not> osc_extent_is_overlapped env x obj) (Ret (0, grants - chunksize cli, obj))))))"

section \<open>Writing out and truncating\<close>

abbreviation (input) EALREADY :: int where "EALREADY \<equiv> 114"

text \<open>\<open>attr\<close> is what \<open>cl_object_attr_get\<close> returned: an error or the known minimum size.\<close>

definition osc_refresh_count :: "osc_env \<Rightarrow> int + nat \<Rightarrow> page \<Rightarrow> int" where
  "osc_refresh_count env attr p =
     (case attr of
        Inl rc \<Rightarrow> rc
      | Inr kms \<Rightarrow>
          if cl_offset env (osc_index env p) \<ge> kms then 0
          else if cl_offset env (osc_index env p + 1) > kms then int (kms mod 4096)
          else 4096)"

definition upd_oap :: "page \<Rightarrow> (osc_async_page \<Rightarrow> osc_async_page) \<Rightarrow> osc_object \<Rightarrow> osc_object" where
  "upd_oap p f obj = obj\<lparr>oo_oap := (oo_oap obj)(p := f (oo_oap obj p))\<rparr>"

text \<open>
  \<open>ready p\<close> is what \<open>cl_page_make_ready\<close> returns for a page, with the ready flag another thread may
  have set in the meantime.
\<close>

fun ready_pages :: "(page \<Rightarrow> int \<times> bool) \<Rightarrow> page list \<Rightarrow> osc_object \<Rightarrow> osc_object outcome" where
  "ready_pages ready [] obj = Ret obj"
| "ready_pages ready (p # ps) obj =
     (if oap_ready (oo_oap obj p) then ready_pages ready ps obj
      else if fst (ready p) = 0 \<or> fst (ready p) = - EALREADY \<and> snd (ready p)
      then ready_pages ready ps (upd_oap p (\<lambda>o'. o'\<lparr>oap_ready := True\<rparr>) obj)
      else Fault LBUG)"

text \<open>The first page with the greatest offset.\<close>

fun last_page :: "(page \<Rightarrow> osc_async_page) \<Rightarrow> page option \<Rightarrow> page list \<Rightarrow> page option" where
  "last_page P best [] = best"
| "last_page P best (p # ps) =
     (case best of None \<Rightarrow> last_page P (Some p) ps
      | Some l \<Rightarrow> last_page P (if oap_obj_off (P l) < oap_obj_off (P p) then Some p else best) ps)"

definition stable_page :: "page \<Rightarrow> osc_object \<Rightarrow> osc_object" where
  "stable_page p obj =
     (if oap_count_stable (oo_oap obj p) then obj
      else upd_oap p (\<lambda>o'. o'\<lparr>oap_count := 4096 - oap_page_off o', oap_count_stable := True\<rparr>) obj)"

definition osc_extent_make_ready ::
  "osc_env \<Rightarrow> (page \<Rightarrow> int \<times> bool) \<Rightarrow> int + nat \<Rightarrow> eref \<Rightarrow> osc_object \<Rightarrow> osc_object outcome" where
  "osc_extent_make_ready env ready attr x obj =
     (let e = oo_ext obj x in
      lassert (osc_extent_sanity_check0 env e = 0) (lassert (oe_state e = OES_LOCKING) (lassert (oe_owner e)
      (bindO (ready_pages ready (oe_pages e) obj) (\<lambda>obj.
       lassert (length (oe_pages e) = oe_nr_pages e)
       (case last_page (oo_oap obj) None (oe_pages e) of None \<Rightarrow> Fault LBUG
        | Some l \<Rightarrow>
          bindO (if oap_count_stable (oo_oap obj l) then Ret obj
                 else
                   let n = osc_refresh_count env attr l
                   in lassert (n > 0) (lassert (oap_page_off (oo_oap obj l) + n \<le> 4096)
                        (Ret (upd_oap l (\<lambda>o'. o'\<lparr>oap_count := n, oap_count_stable := True\<rparr>) obj))))
            (\<lambda>obj. osc_extent_get x (osc_extent_state_set x OES_RPC (fold stable_page (oe_pages e) obj)))))))))"

text \<open>Offset and size of the last page of the extent, as the completion loop finds them.\<close>

fun last_written :: "(page \<Rightarrow> osc_async_page) \<Rightarrow> int \<times> int \<Rightarrow> page list \<Rightarrow> int \<times> int" where
  "last_written P (off, cnt) [] = (off, cnt)"
| "last_written P (off, cnt) (p # ps) =
     last_written P (if off \<le> oap_obj_off (P p) then (oap_obj_off (P p), oap_count (P p)) else (off, cnt)) ps"

definition short_write_grant :: "int \<Rightarrow> int \<times> int \<Rightarrow> int" where
  "short_write_grant blocksize lw =
     (let offset = fst lw AND 4095;
          count = snd lw + (offset AND (blocksize - 1));
          fin = (offset + snd lw) AND (blocksize - 1)
      in 4096 - (if fin \<noteq> 0 then count + (blocksize - fin) else count))"

definition finish_lost :: "int \<Rightarrow> bool \<Rightarrow> osc_object \<Rightarrow> osc_extent \<Rightarrow> u32" where
  "finish_lost blocksize sent obj e =
     (let lw = last_written (oo_oap obj) (0, -1) (oe_pages e)
      in if \<not> sent then oe_grants e
         else if blocksize < 4096 \<and> snd lw \<noteq> 4096 then of_int (short_write_grant blocksize lw)
         else 0)"

text \<open>
  A page is done with. \<open>xids\<close> are the two samples of the next xid, for the client and for the object.
  \<open>osc_completion\<close>, which tells the page cache, is outside.
\<close>

definition osc_ap_completion :: "(page \<Rightarrow> u64 \<times> u64) \<Rightarrow> int \<Rightarrow> page \<Rightarrow> osc_object \<times> osc_cli \<Rightarrow> osc_object \<times> osc_cli" where
  "osc_ap_completion xids rc p st =
     (case st of (obj, cli) \<Rightarrow>
       let oap = oo_oap obj p; xid = (case oap_xid oap of None \<Rightarrow> 0 | Some xid \<Rightarrow> xid);
           obj = upd_oap p (\<lambda>oap. oap\<lparr>oap_xid := None, oap_ready := False, oap_urgent := False, oap_count_stable := False,
                   oap_interrupted := False\<rparr>) obj
       in if oap_write oap \<and> xid > 0 then
            (obj\<lparr>loi_ar := osc_process_ar (snd (xids p)) (loi_ar obj) xid rc\<rparr>,
             cli\<lparr>cl_ar := osc_process_ar (fst (xids p)) (cl_ar cli) xid rc\<rparr>)
          else (obj, cli))"

text \<open>\<open>os_bsize\<close> is the block size the target reported.\<close>

definition osc_extent_finish ::
  "osc_env \<Rightarrow> clock \<Rightarrow> (page \<Rightarrow> u64 \<times> u64) \<Rightarrow> int \<Rightarrow> eref \<Rightarrow> bool \<Rightarrow> int \<Rightarrow> osc_object \<times> osc_cli \<Rightarrow>
   (osc_object \<times> osc_cli) outcome" where
  "osc_extent_finish env now_shift xids os_bsize x sent rc st =
     (case st of (obj, cli) \<Rightarrow>
       let e = oo_ext obj x; blocksize = (if os_bsize = 0 then 4096 else os_bsize) in
       lassert (rc = 0 \<longrightarrow> oe_state e = OES_RPC) (lassert (length (oe_pages e) = oe_nr_pages e)
       (let lost = finish_lost blocksize sent obj e;
            (obj, cli) = fold (osc_ap_completion xids rc) (oe_pages e) (obj, cli);
            obj = upd x (\<lambda>e. e\<lparr>oe_rc := (if rc \<noteq> 0 then rc else int (oe_nr_pages e)), oe_nr_pages := 0, oe_pages := []\<rparr>) obj
        in bindO (if oe_grants e > 0 then osc_free_grant now_shift (of_nat (oe_nr_pages e)) lost cli else Ret cli) (\<lambda>cli.
           bindO (osc_extent_remove env x obj) (\<lambda>obj.
           bindO (osc_extent_put x obj) (\<lambda>obj. Ret (obj, cli)))))))"

text \<open>\<open>io_rc\<close> is what \<open>cl_io_init\<close> returned; a page that cannot be owned trips an assertion.\<close>

definition osc_extent_truncate ::
  "osc_env \<Rightarrow> clock \<Rightarrow> int \<Rightarrow> (page \<Rightarrow> bool) \<Rightarrow> eref \<Rightarrow> pgoff \<Rightarrow> bool \<Rightarrow> osc_object \<times> osc_cli \<Rightarrow>
   (int \<times> osc_object \<times> osc_cli) outcome" where
  "osc_extent_truncate env now_shift io_rc own x trunc_index partial st =
     (case st of (obj, cli) \<Rightarrow>
       let e = oo_ext obj x; trunc_chunk = trunc_index div ppc cli;
           keep = (\<lambda>p. osc_index env p < trunc_index \<or> osc_index env p = trunc_index \<and> partial);
           kept = filter keep (oe_pages e); gone = filter (\<lambda>p. \<not> keep p) (oe_pages e);
           pages_in_chunk = length (filter (\<lambda>p. osc_index env p div ppc cli = trunc_chunk) kept);
           left = oe_nr_pages e - length gone
       in lassert (osc_extent_sanity_check0 env e = 0) (lassert (oe_state e = OES_TRUNC) (lassert (\<not> oe_urgent e)
         (if io_rc < 0 then Ret (io_rc, obj, cli)
          else lassert (list_all own gone)
            (lassert (oe_start e \<ge> trunc_index + of_bool partial \<longrightarrow> left = 0)
             (bindO
               (if left = 0 then
                  lassert (pages_in_chunk = 0) (Ret (oe_grants e, e\<lparr>oe_pages := kept, oe_nr_pages := left, oe_grants := 0\<rparr>))
                else
                  lassert (pages_in_chunk = 0 \<longrightarrow> trunc_chunk > 0)
                   (let tc = (if pages_in_chunk = 0 then trunc_chunk - 1 else trunc_chunk);
                        chunks = int (oe_end e div ppc cli) - int tc;
                        grants = push_bit (cl_chunkbits cli) (of_int chunks);
                        fin = min ((tc + 1) * ppc cli - 1) (oe_max_end e)
                    in lassert (fin \<ge> oe_start e) (lassert (oe_grants e - grants > 0)
                         (Ret (grants, e\<lparr>oe_pages := kept, oe_nr_pages := left, oe_grants := oe_grants e - grants, oe_end := fin\<rparr>)))))
               (\<lambda>(grants, e).
                 bindO (if sint grants > 0 \<or> length gone > 0
                        then osc_free_grant now_shift (of_nat (length gone)) grants cli else Ret cli)
                   (\<lambda>cli. Ret (io_rc, upd x (\<lambda>_. e) obj, cli)))))))))"

definition osc_cache_truncate_end :: "eref \<Rightarrow> osc_object \<Rightarrow> (bool \<times> osc_object) outcome" where
  "osc_cache_truncate_end x obj =
     (let e = oo_ext obj x; obj1 = osc_extent_state_set x OES_CACHE obj; unplug = (oe_fsync_wait e \<and> \<not> oe_urgent e) in
      lassert (oe_nr_pages e > 0) (lassert (oe_state e = OES_TRUNC) (lassert (\<not> oe_urgent e)
      (let obj2 = (if unplug then
                     (unlink x (upd x (\<lambda>e. e\<lparr>oe_urgent := True\<rparr>) obj1))
                       \<lparr>oo_urgent_exts := oo_urgent_exts (unlink x obj1) @ [x]\<rparr>
                   else obj1)
       in bindO (osc_update_pending True (int (oe_nr_pages e)) obj2) (\<lambda>obj.
          bindO (osc_extent_put x obj) (\<lambda>obj. Ret (unplug, obj)))))))"

text \<open>
  Pages of a synchronous read or write become an extent of their own, outside the tree. The second
  component says whether \<open>osc_io_unplug_async\<close> is called.
\<close>

fun sync_range :: "osc_env \<Rightarrow> page list \<Rightarrow> nat \<Rightarrow> nat \<Rightarrow> pgoff \<Rightarrow> pgoff \<Rightarrow> nat \<times> nat \<times> pgoff \<times> pgoff" where
  "sync_range env [] n mppr start fin = (n, mppr, start, fin)"
| "sync_range env (p # ps) n mppr start fin =
     (let i = osc_index env p; n = n + 1
      in sync_range env ps n (if n > mppr then 2 * mppr else mppr) (min i start) (max i fin))"

definition osc_queue_sync_pages ::
  "osc_env \<Rightarrow> (page \<Rightarrow> u64 \<times> u64) \<Rightarrow> eref option \<Rightarrow> bool \<Rightarrow> bool \<Rightarrow> bool \<Rightarrow> pgoff \<Rightarrow> page list \<Rightarrow> osc_object \<times> osc_cli \<Rightarrow>
   (int \<times> bool \<times> osc_object \<times> osc_cli) outcome" where
  "osc_queue_sync_pages env xids new write srvlock can_merge page_eof ps st =
     (case st of (obj, cli) \<Rightarrow>
      case new of None \<Rightarrow> Ret (- ENOMEM, False, fold (osc_ap_completion xids (- ENOMEM)) ps (obj, cli))
      | Some x \<Rightarrow>
        let (n, mppr, start, fin) = sync_range env ps 0 (unat (cl_max_pages_per_rpc cli)) page_eof 0;
            e = new_extent\<lparr>oe_sync := True, oe_no_merge := \<not> can_merge, oe_urgent := True, oe_start := start, oe_end := fin,
                  oe_max_end := fin, oe_srvlock := srvlock, oe_nr_pages := n, oe_mppr := mppr, oe_pages := ps,
                  oe_state := OES_LOCK_DONE\<rparr>;
            obj = obj\<lparr>oo_ext := (oo_ext obj)(x := e)\<rparr>;
            obj = (if write then obj\<lparr>oo_urgent_exts := oo_urgent_exts obj @ [x]\<rparr>
                   else obj\<lparr>oo_reading_exts := oo_reading_exts obj @ [x]\<rparr>)
        in bindO (osc_update_pending write (int n) obj) (\<lambda>obj. Ret (0, True, obj, cli)))"

end
