(* ===== verification/Osc_Tree.thy ===== *)
theory Osc_Tree
  imports Osc_Extent
begin

text \<open>
  The extent tree as an ordered list of disjoint page ranges: what the search returns, where an
  insertion lands, and that every operation keeps the order. The red-black tree of the kernel enters
  by its contract, the locale \<open>rbtree\<close>: rebalancing keeps the order of the nodes and erasing takes
  exactly one of them out.
\<close>

section \<open>The contract of the kernel's tree\<close>

locale rbtree =
  fixes color :: "'a \<Rightarrow> 'a tree \<Rightarrow> 'a tree" and erase :: "'a \<Rightarrow> 'a tree \<Rightarrow> 'a tree"
  assumes inorder_color: "inorder (color x t) = inorder t"
    and inorder_erase: "inorder (erase x t) = remove1 x (inorder t)"
begin

lemma color_iff: "y \<in> set (inorder (color x t)) \<longleftrightarrow> y \<in> set_tree t"
  by (simp add: inorder_color)

lemma erase_distinct: "distinct (inorder t) \<Longrightarrow> set (inorder (erase x t)) = set_tree t - {x}"
  by (simp add: inorder_erase set_remove1_eq)

end

text \<open>A tree without balance satisfies it: no recolouring, and erasing rebuilds a list.\<close>

fun vine :: "'a list \<Rightarrow> 'a tree" where
  "vine [] = Leaf"
| "vine (x # xs) = Node Leaf x (vine xs)"

lemma inorder_vine [simp]: "inorder (vine xs) = xs"
  by (induction xs) simp_all

definition vine_erase :: "'a \<Rightarrow> 'a tree \<Rightarrow> 'a tree" where
  "vine_erase x t = vine (remove1 x (inorder t))"

interpretation vine: rbtree "\<lambda>_ t. t" vine_erase
  by unfold_locales (simp_all add: vine_erase_def)

section \<open>Order\<close>

definition ordered :: "(eref \<Rightarrow> osc_extent) \<Rightarrow> eref list \<Rightarrow> bool" where
  "ordered E xs \<longleftrightarrow> (\<forall>x \<in> set xs. oe_start (E x) \<le> oe_end (E x)) \<and> sorted_wrt (\<lambda>x y. oe_end (E x) < oe_start (E y)) xs"

lemma ordered_Nil [simp]: "ordered E []"
  by (simp add: ordered_def)

lemma ordered_Cons:
  "ordered E (x # xs) \<longleftrightarrow> oe_start (E x) \<le> oe_end (E x) \<and> (\<forall>y \<in> set xs. oe_end (E x) < oe_start (E y)) \<and> ordered E xs"
  by (auto simp: ordered_def)

lemma ordered_append:
  "ordered E (xs @ ys) \<longleftrightarrow> ordered E xs \<and> ordered E ys \<and> (\<forall>x \<in> set xs. \<forall>y \<in> set ys. oe_end (E x) < oe_start (E y))"
  by (auto simp: ordered_def sorted_wrt_append)

lemmas ordered_simps = ordered_Cons ordered_append

lemma ordered_distinct: "ordered E xs \<Longrightarrow> distinct xs"
  by (induction xs) (auto simp: ordered_Cons)

lemma ordered_remove1: "ordered E xs \<Longrightarrow> ordered E (remove1 x xs)"
  by (induction xs) (auto simp: ordered_Cons dest: set_mp [OF set_remove1_subset])

text \<open>Only the ends of the ranges matter.\<close>

lemma ordered_cong:
  "(\<And>x. x \<in> set xs \<Longrightarrow> oe_start (E' x) = oe_start (E x) \<and> oe_end (E' x) = oe_end (E x)) \<Longrightarrow> ordered E' xs = ordered E xs"
  by (induction xs) (auto simp: ordered_Cons)

section \<open>Searching\<close>

definition last_of :: "'a option \<Rightarrow> 'a list \<Rightarrow> 'a option" where
  "last_of p xs = (if xs = [] then p else Some (last xs))"

lemma search_from_eq:
  "ordered E (inorder t) \<Longrightarrow>
   search_from E index t p = last_of p (takeWhile (\<lambda>x. oe_start (E x) \<le> index) (inorder t))"
proof (induction t arbitrary: p)
  case (Node l x r)
  have o: "ordered E (inorder l)" "ordered E (inorder r)" "oe_start (E x) \<le> oe_end (E x)"
    "\<forall>y \<in> set (inorder l). oe_end (E y) < oe_start (E x)" "\<forall>y \<in> set (inorder r). oe_end (E x) < oe_start (E y)"
    using Node.prems by (auto simp: ordered_simps)
  show ?case
  proof (cases "index < oe_start (E x)")
    case True
    then show ?thesis using Node.IH(1) [OF o(1)] by (simp add: takeWhile_tail)
  next
    case False
    have "\<forall>y \<in> set (inorder l). oe_start (E y) \<le> index"
      using o(1,4) False by (fastforce simp: ordered_def)
    then have tw: "takeWhile (\<lambda>x. oe_start (E x) \<le> index) (inorder \<langle>l, x, r\<rangle>) =
        inorder l @ x # takeWhile (\<lambda>x. oe_start (E x) \<le> index) (inorder r)"
      using False by (simp add: takeWhile_append)
    show ?thesis
    proof (cases "index > oe_end (E x)")
      case True
      then show ?thesis using Node.IH(2) [OF o(2), of "Some x"] False tw by (auto simp: last_of_def)
    next
      case 2: False
      have "takeWhile (\<lambda>x. oe_start (E x) \<le> index) (inorder r) = []"
        using o(5) 2 by (cases "inorder r") auto
      then show ?thesis using False 2 tw by (simp add: last_of_def)
    qed
  qed
qed (simp add: last_of_def)

lemma search_eq:
  "ordered (oo_ext obj) (exts obj) \<Longrightarrow>
   osc_extent_search obj index = last_of None (takeWhile (\<lambda>x. oe_start (oo_ext obj x) \<le> index) (exts obj))"
  by (simp add: osc_extent_search_def exts_def search_from_eq)

text \<open>The walk of \<open>osc_extent_find\<close> and its relatives starts at the last extent that begins at or before the page.\<close>

lemma after_split: "x \<notin> set xs \<Longrightarrow> after x (xs @ x # ys) = ys"
  by (induction xs) auto

lemma search_Some:
  assumes "ordered (oo_ext obj) (exts obj)" and "osc_extent_search obj index = Some x"
  obtains pre post where "exts obj = pre @ x # post" and "oe_start (oo_ext obj x) \<le> index"
    and "\<forall>y \<in> set post. index < oe_start (oo_ext obj y)"
proof -
  let ?P = "\<lambda>x. oe_start (oo_ext obj x) \<le> index"
  let ?xs = "takeWhile ?P (exts obj)"
  have ne: "?xs \<noteq> []" and x: "x = last ?xs"
    using assms(2) by (auto simp: search_eq [OF assms(1)] last_of_def split: if_splits)
  have e: "exts obj = (butlast ?xs @ [x]) @ dropWhile ?P (exts obj)"
    using ne x by (metis append_butlast_last_id takeWhile_dropWhile_id)
  have "x \<in> set ?xs" using ne x by simp
  then have "?P x" by (rule set_takeWhileD [THEN conjunct2])
  moreover have "\<forall>y \<in> set (dropWhile ?P (exts obj)). index < oe_start (oo_ext obj y)"
  proof (cases "dropWhile ?P (exts obj)")
    case (Cons y ys)
    then have y: "index < oe_start (oo_ext obj y)" using hd_dropWhile [of ?P "exts obj"] by auto
    have "ordered (oo_ext obj) (y # ys)" using assms(1) e Cons by (metis ordered_append)
    then have "\<forall>z \<in> set ys. oe_start (oo_ext obj y) < oe_start (oo_ext obj z)"
      by (auto simp: ordered_Cons intro: le_less_trans)
    with y Cons show ?thesis by (auto intro: less_trans)
  next
    case Nil
    show ?thesis unfolding Nil by simp
  qed
  ultimately show thesis using e by (intro that [of "butlast ?xs" "dropWhile ?P (exts obj)"]) simp_all
qed

lemma search_None:
  assumes "ordered (oo_ext obj) (exts obj)" and "osc_extent_search obj index = None"
  shows "\<forall>y \<in> set (exts obj). index < oe_start (oo_ext obj y)"
proof -
  let ?P = "\<lambda>x. oe_start (oo_ext obj x) \<le> index"
  have n: "takeWhile ?P (exts obj) = []" using assms(2) by (auto simp: search_eq [OF assms(1)] last_of_def split: if_splits)
  show ?thesis
  proof (cases "exts obj")
    case (Cons y ys)
    then have "index < oe_start (oo_ext obj y)" using n by (auto split: if_splits)
    then show ?thesis using assms(1) Cons by (auto simp: ordered_Cons intro: less_le_trans less_trans)
  qed simp
qed

section \<open>Inserting\<close>

text \<open>\<open>apart_from E x y\<close>: the ranges of \<open>x\<close> and \<open>y\<close> have no page in common.\<close>

definition apart_from :: "(eref \<Rightarrow> osc_extent) \<Rightarrow> eref \<Rightarrow> eref \<Rightarrow> bool" where
  "apart_from E x y \<longleftrightarrow> oe_end (E x) < oe_start (E y) \<or> oe_end (E y) < oe_start (E x)"

lemma link_node_ok:
  assumes "ordered E (inorder t)" and "oe_start (E x) \<le> oe_end (E x)" and "\<forall>y \<in> set (inorder t). apart_from E x y"
  shows "\<exists>t' pre post. link_node E x t = Ret t' \<and> inorder t = pre @ post \<and> inorder t' = pre @ x # post \<and>
    ordered E (inorder t')"
  using assms
proof (induction t)
  case (Node l y r)
  have o: "ordered E (inorder l)" "ordered E (inorder r)" "\<forall>z \<in> set (inorder l). apart_from E x z"
    "\<forall>z \<in> set (inorder r). apart_from E x z" "apart_from E x y"
    using Node.prems by (auto simp: ordered_simps)
  show ?case
  proof (cases "oe_end (E x) < oe_start (E y)")
    case True
    obtain l' pre post where l: "link_node E x l = Ret l'" "inorder l = pre @ post" "inorder l' = pre @ x # post" "ordered E (inorder l')"
      using Node.IH(1) [OF o(1) assms(2) o(3)] by blast
    have "ordered E (inorder \<langle>l', y, r\<rangle>)"
      using Node.prems(1) l True by (fastforce simp: ordered_simps)
    then show ?thesis using l True
      by (intro exI [of _ "\<langle>l', y, r\<rangle>"] exI [of _ pre] exI [of _ "post @ y # inorder r"]) simp
  next
    case False
    then have f: "oe_end (E y) < oe_start (E x)" using o(5) by (simp add: apart_from_def)
    obtain r' pre post where r: "link_node E x r = Ret r'" "inorder r = pre @ post" "inorder r' = pre @ x # post" "ordered E (inorder r')"
      using Node.IH(2) [OF o(2) assms(2) o(4)] by blast
    have "ordered E (inorder \<langle>l, y, r'\<rangle>)"
      using Node.prems(1) r f by (fastforce simp: ordered_simps)
    then show ?thesis using r f False
      by (intro exI [of _ "\<langle>l, y, r'\<rangle>"] exI [of _ "inorder l @ y # pre"] exI [of _ post]) simp
  qed
qed (simp add: ordered_simps)

end
