(* ===== verification/Osc_Inv.thy ===== *)
theory Osc_Inv
  imports Osc_Tree
begin

text \<open>
  The invariant of the extent tree: the extents are in order and disjoint, each is sane and made of
  whole chunks, extents of one slot are under one lock, and the pages that wait for a write are
  counted. Holding, merging, growing and inserting an extent keep it and the grant in the tree.
\<close>

section \<open>The invariant\<close>

definition pages_ok :: "osc_env \<Rightarrow> osc_extent \<Rightarrow> bool" where
  "pages_ok env e \<longleftrightarrow> distinct (map (osc_index env) (oe_pages e)) \<and> length (oe_pages e) = oe_nr_pages e \<and>
     (\<forall>p \<in> set (oe_pages e). oe_start e \<le> osc_index env p \<and> osc_index env p \<le> oe_end e)"

definition ext_ok :: "osc_env \<Rightarrow> osc_cli \<Rightarrow> osc_extent \<Rightarrow> bool" where
  "ext_ok env cli e \<longleftrightarrow>
     osc_extent_sanity_check0 env e = 0 \<and> oe_state e \<noteq> OES_INV \<and> 0 \<le> oe_users e \<and> oe_users e < oe_refc e \<and>
     (oe_hp e \<longrightarrow> oe_fsync_wait e) \<and> (oe_state e = OES_ACTIVE \<longrightarrow> oe_grants e \<noteq> 0) \<and>
     oe_start e mod ppc cli = 0 \<and> (oe_end e + 1) mod ppc cli = 0 \<and> (oe_max_end e + 1) mod ppc cli = 0 \<and>
     oe_mppr e = unat (cl_max_pages_per_rpc cli) \<and> oe_max_end e - oe_start e < oe_mppr e \<and> pages_ok env e"

text \<open>The pages of an extent lie at different places of it.\<close>

lemma pages_ok_count:
  assumes "pages_ok env e"
  shows "oe_nr_pages e \<le> oe_end e + 1 - oe_start e"
proof -
  have "set (map (osc_index env) (oe_pages e)) \<subseteq> {oe_start e..oe_end e}" using assms by (auto simp: pages_ok_def)
  then have "card (set (map (osc_index env) (oe_pages e))) \<le> card {oe_start e..oe_end e}" by (intro card_mono) simp_all
  then show ?thesis using assms by (simp only: pages_ok_def distinct_card length_map card_atLeastAtMost Suc_eq_plus1)
qed

lemma ext_ok_active: "ext_ok env cli e \<Longrightarrow> oe_state e = OES_ACTIVE \<Longrightarrow> oe_grants e \<noteq> 0"
  by (simp add: ext_ok_def)

definition ext_pages :: "osc_object \<Rightarrow> page set" where
  "ext_pages obj = (\<Union>x \<in> set (exts obj). set (oe_pages (oo_ext obj x)))"

definition cached_pages :: "osc_object \<Rightarrow> eref list \<Rightarrow> nat" where
  "cached_pages obj xs = sum_list (map (\<lambda>x. if oe_state (oo_ext obj x) = OES_CACHE then oe_nr_pages (oo_ext obj x) else 0) xs)"

definition ext_grants :: "osc_object \<Rightarrow> nat" where
  "ext_grants obj = sum_list (map (\<lambda>x. unat (oe_grants (oo_ext obj x))) (exts obj))"

definition links_ok :: "osc_object \<Rightarrow> bool" where
  "links_ok obj \<longleftrightarrow> distinct (oo_hp_exts obj) \<and> distinct (oo_urgent_exts obj) \<and> distinct (oo_reading_exts obj)"

text \<open>Extents of one RPC slot are covered by one lock.\<close>

definition slots_ok :: "(eref \<Rightarrow> osc_extent) \<Rightarrow> eref set \<Rightarrow> bool" where
  "slots_ok E xs \<longleftrightarrow> (\<forall>x \<in> xs. \<forall>y \<in> xs. oe_max_end (E x) = oe_max_end (E y) \<longrightarrow> oe_dlmlock (E x) = oe_dlmlock (E y))"

lemma slots_ok_cong:
  "slots_ok E xs \<Longrightarrow> ys \<subseteq> xs \<Longrightarrow> (\<And>x. x \<in> ys \<Longrightarrow> oe_max_end (E' x) = oe_max_end (E x) \<and> oe_dlmlock (E' x) = oe_dlmlock (E x)) \<Longrightarrow>
   slots_ok E' ys"
  unfolding slots_ok_def by (metis subsetD)

lemma slots_ok_insert:
  assumes "slots_ok E xs" and "\<forall>y \<in> xs. oe_max_end (E y) = oe_max_end e \<longrightarrow> oe_dlmlock (E y) = oe_dlmlock e"
  shows "slots_ok (E(c := e)) (insert c xs)"
  unfolding slots_ok_def
proof (intro ballI impI)
  fix x y
  assume xy: "x \<in> insert c xs" "y \<in> insert c xs" "oe_max_end ((E(c := e)) x) = oe_max_end ((E(c := e)) y)"
  have a: "oe_dlmlock (E x) = oe_dlmlock (E y)" if "x \<in> xs" "y \<in> xs" "oe_max_end (E x) = oe_max_end (E y)"
    using assms(1) that unfolding slots_ok_def by blast
  have b: "oe_dlmlock (E z) = oe_dlmlock e" if "z \<in> xs" "oe_max_end (E z) = oe_max_end e" for z
    using assms(2) that by blast
  show "oe_dlmlock ((E(c := e)) x) = oe_dlmlock ((E(c := e)) y)"
    using xy a b [of x] b [of y] by (cases "x = c"; cases "y = c") simp_all
qed

definition tree_inv :: "osc_env \<Rightarrow> osc_cli \<Rightarrow> osc_object \<Rightarrow> bool" where
  "tree_inv env cli obj \<longleftrightarrow>
     ordered (oo_ext obj) (exts obj) \<and> (\<forall>x. oe_intree (oo_ext obj x) \<longleftrightarrow> x \<in> set (exts obj)) \<and>
     (\<forall>x \<in> set (exts obj). ext_ok env cli (oo_ext obj x)) \<and>
     slots_ok (oo_ext obj) (set (exts obj)) \<and>
     links_ok obj \<and> int (cached_pages obj (exts obj)) \<le> oo_nr_writes obj"

text \<open>
  Extents under other locks lie outside the pages of the lock \<open>lk\<close>: write locks on an object do not overlap.
\<close>

definition locks_apart :: "osc_lock \<Rightarrow> osc_object \<Rightarrow> bool" where
  "locks_apart lk obj \<longleftrightarrow> (\<forall>y \<in> set (exts obj). oe_dlmlock (oo_ext obj y) \<noteq> ols_dlmlock lk \<longrightarrow>
     oe_max_end (oo_ext obj y) < cld_start lk \<or> cld_end lk < oe_start (oo_ext obj y))"

text \<open>What steps on extents of the tree leave alone: no page comes or goes, and no extent joins the tree or a list from outside.\<close>

definition srv_all :: "bool \<Rightarrow> osc_object \<Rightarrow> bool" where
  "srv_all s obj \<longleftrightarrow> (\<forall>y \<in> set (exts obj). oe_srvlock (oo_ext obj y) = s)"

definition tree_frame :: "osc_lock \<Rightarrow> osc_object \<Rightarrow> osc_object \<Rightarrow> bool" where
  "tree_frame lk obj obj' \<longleftrightarrow> set (exts obj') \<subseteq> set (exts obj) \<and> ext_pages obj' = ext_pages obj \<and>
     (locks_apart lk obj \<longrightarrow> locks_apart lk obj') \<and> (\<forall>c. c \<notin> set (exts obj) \<longrightarrow> on_link c obj' \<longrightarrow> on_link c obj) \<and>
     (\<forall>s. srv_all s obj \<longrightarrow> srv_all s obj')"

lemma tree_frame_refl [simp]: "tree_frame lk obj obj"
  by (simp add: tree_frame_def)

lemma tree_frame_trans: "tree_frame lk a b \<Longrightarrow> tree_frame lk b c \<Longrightarrow> tree_frame lk a c"
  by (auto simp: tree_frame_def)

lemma tree_frame_same:
  assumes "exts obj' = exts obj" and "\<And>c. c \<notin> set (exts obj) \<Longrightarrow> on_link c obj' \<Longrightarrow> on_link c obj"
    and "\<And>y. y \<in> set (exts obj) \<Longrightarrow> oe_pages (oo_ext obj' y) = oe_pages (oo_ext obj y) \<and> oe_start (oo_ext obj' y) = oe_start (oo_ext obj y) \<and>
      oe_max_end (oo_ext obj' y) = oe_max_end (oo_ext obj y) \<and> oe_dlmlock (oo_ext obj' y) = oe_dlmlock (oo_ext obj y) \<and>
      oe_srvlock (oo_ext obj' y) = oe_srvlock (oo_ext obj y)"
  shows "tree_frame lk obj obj'"
  using assms by (auto simp: tree_frame_def ext_pages_def locks_apart_def srv_all_def)

lemma tree_frame_upd:
  assumes "oe_pages (f (oo_ext obj x)) = oe_pages (oo_ext obj x)" and "oe_start (f (oo_ext obj x)) = oe_start (oo_ext obj x)"
    and "oe_max_end (f (oo_ext obj x)) = oe_max_end (oo_ext obj x)" and "oe_dlmlock (f (oo_ext obj x)) = oe_dlmlock (oo_ext obj x)"
    and "oe_srvlock (f (oo_ext obj x)) = oe_srvlock (oo_ext obj x)"
  shows "tree_frame lk obj (upd x f obj)"
  by (rule tree_frame_same) (use assms in \<open>auto simp: exts_def upd_def on_link_def\<close>)

text \<open>What the sanity check guarantees.\<close>

lemma sane_refc: "osc_extent_sanity_check0 env e = 0 \<Longrightarrow> 0 < oe_refc e"
  by (auto simp: osc_extent_sanity_check0_def split: if_splits)

lemma sane_iff:
  assumes "oe_state e \<noteq> OES_INV"
  shows "osc_extent_sanity_check0 env e = 0 \<longleftrightarrow>
    0 < oe_refc e \<and> oe_users e \<le> oe_refc e \<and> state_code e = 0 \<and> oe_start e \<le> oe_end e \<and> oe_end e \<le> oe_max_end e \<and>
    \<not> (oe_sync e \<and> oe_grants e > 0) \<and> lock_code env e = 0 \<and> oe_nr_pages e \<le> oe_mppr e \<and> page_code env e = 0"
  using assms by (auto simp: osc_extent_sanity_check0_def not_le not_less)

lemma lock_code_iff:
  "lock_code env e = 0 \<longleftrightarrow> (\<forall>l. oe_dlmlock e = Some l \<longrightarrow> l_failed (dlm env l) \<or>
     l_start (dlm env l) \<le> cl_offset env (oe_start e) \<and> cl_offset env (oe_max_end e) \<le> l_end (dlm env l) \<and> l_can_write (dlm env l))"
  by (auto simp: lock_code_def split: option.splits)

lemma page_code_iff:
  "page_code env e = 0 \<longleftrightarrow> OES_CACHE < oe_state e \<or> \<not> extent_debug env \<or>
     (\<forall>p \<in> set (oe_pages e). oe_start e \<le> osc_index env p \<and> osc_index env p \<le> oe_end e) \<and> length (oe_pages e) = oe_nr_pages e"
  by (simp add: page_code_def list_ex_iff) (meson not_le)

lemma state_code_iff:
  "oe_state e = OES_ACTIVE \<Longrightarrow> state_code e = 0 \<longleftrightarrow> oe_users e \<noteq> 0 \<and> \<not> oe_hp e \<and> (oe_fsync_wait e \<longrightarrow> oe_urgent e)"
  "oe_state e = OES_CACHE \<Longrightarrow> state_code e = 0 \<longleftrightarrow> oe_grants e \<noteq> 0 \<and> (oe_fsync_wait e \<longrightarrow> oe_urgent e \<or> oe_hp e) \<and> oe_users e \<le> 0"
  by (auto simp: state_code_def)

lemmas code_iffs = lock_code_iff page_code_iff state_code_iff sane_iff

section \<open>Chunks\<close>

lemma ppc_pos [simp]: "0 < ppc cli"
  by (simp add: ppc_def)

lemma dvd_le_div: "(p::nat) dvd a \<Longrightarrow> a \<le> i \<Longrightarrow> a \<le> i div p * p"
  by (metis div_le_mono dvd_div_mult_self mult_le_mono1)

lemma dvd_gt_div: "(p::nat) dvd a \<Longrightarrow> i < a \<Longrightarrow> 0 < p \<Longrightarrow> (i div p + 1) * p \<le> a"
  by (metis Suc_eq_plus1 Suc_leI dvd_div_mult_self less_mult_imp_div_less mult_le_mono1)

text \<open>Every extent consists of whole chunks.\<close>

lemma ext_ok_chunks:
  assumes "ext_ok env cli e"
  shows "oe_start e = oe_start e div ppc cli * ppc cli" and "oe_end e + 1 = (oe_end e div ppc cli + 1) * ppc cli"
proof -
  let ?p = "ppc cli"
  show "oe_start e = oe_start e div ?p * ?p" using assms by (auto simp: ext_ok_def)
  have d: "?p dvd oe_end e + 1" using assms by (auto simp: ext_ok_def)
  have "(oe_end e div ?p + 1) * ?p \<le> oe_end e + 1" by (rule dvd_gt_div [OF d]) simp_all
  moreover have "oe_end e < (oe_end e div ?p + 1) * ?p"
    by (metis add.commute dividend_less_div_times mult_Suc ppc_pos Suc_eq_plus1)
  ultimately show "oe_end e + 1 = (oe_end e div ?p + 1) * ?p" by linarith
qed

lemma chunk_order:
  assumes "a = ca * p" and "b + 1 = (cb + 1) * (p::nat)" and "0 < p"
  shows "b < a \<longleftrightarrow> cb < ca"
proof
  assume "b < a" then have "(cb + 1) * p \<le> ca * p" using assms by linarith
  then show "cb < ca" using assms(3) by (metis Suc_eq_plus1 Suc_le_eq mult_le_cancel2)
next
  assume "cb < ca" then have "(cb + 1) * p \<le> ca * p" by (intro mult_le_mono1) simp
  then show "b < a" using assms by linarith
qed

lemma u32_take: "unat (c :: u32) \<le> unat g \<Longrightarrow> unat (g - c) + unat c = unat g"
  by (simp add: unat_sub word_le_nat_alt)

section \<open>Holding an extent\<close>

definition held :: "eref \<Rightarrow> osc_object \<Rightarrow> osc_object" where
  "held x obj =
     (let e = oo_ext obj x; n = (if oe_state e = OES_CACHE then int (oe_nr_pages e) else 0)
      in (unlink x obj)\<lparr>oo_ext := (oo_ext obj)(x := e\<lparr>oe_state := OES_ACTIVE, oe_users := oe_users e + 1, oe_refc := oe_refc e + 1\<rparr>),
           oo_nr_writes := oo_nr_writes obj - n, cl_pending_w_pages := cl_pending_w_pages obj - n\<rparr>)"

lemma hold_eq:
  assumes "oe_state (oo_ext obj x) \<in> {OES_ACTIVE, OES_CACHE}" and "0 < oe_refc (oo_ext obj x)"
    and "oe_state (oo_ext obj x) = OES_CACHE \<Longrightarrow> int (oe_nr_pages (oo_ext obj x)) \<le> oo_nr_writes obj"
  shows "osc_extent_hold x obj = Ret (held x obj)"
proof -
  have same: "oe_state e = OES_ACTIVE \<Longrightarrow> e\<lparr>oe_state := OES_ACTIVE, oe_users := u, oe_refc := r\<rparr> = e\<lparr>oe_users := u, oe_refc := r\<rparr>"
    for e :: osc_extent and u r by (cases e) simp
  from assms show ?thesis
    by (auto simp: same osc_extent_hold_def osc_update_pending_def osc_extent_state_set_def osc_extent_get_def upd_def
        unlink_def held_def Let_def)
qed

lemma sum_list_upd:
  fixes f :: "'a \<Rightarrow> nat"
  assumes "distinct xs" and "x \<in> set xs"
  shows "sum_list (map (f(x := v)) xs) + f x = sum_list (map f xs) + v"
  using assms
proof (induction xs)
  case (Cons y ys)
  then show ?case
  proof (cases "x = y")
    case True
    then have e: "map (f(x := v)) (y # ys) = v # map f ys" using Cons.prems by auto
    show ?thesis unfolding e using True by simp
  qed auto
qed simp

lemma sum_list_upd_notin: "x \<notin> set xs \<Longrightarrow> sum_list (map (f(x := v)) xs) = sum_list (map f xs)"
  by (rule arg_cong [where f = sum_list]) auto

lemma held_frame [simp]:
  "exts (held x obj) = exts obj"
  "y \<noteq> x \<Longrightarrow> oo_ext (held x obj) y = oo_ext obj y"
  "oo_ext (held x obj) x = (oo_ext obj x)\<lparr>oe_state := OES_ACTIVE, oe_users := oe_users (oo_ext obj x) + 1, oe_refc := oe_refc (oo_ext obj x) + 1\<rparr>"
  by (simp_all add: held_def Let_def exts_def unlink_def)

lemma held_start_end [simp]:
  "oe_start (oo_ext (held x obj) y) = oe_start (oo_ext obj y)"
  "oe_end (oo_ext (held x obj) y) = oe_end (oo_ext obj y)"
  "oe_max_end (oo_ext (held x obj) y) = oe_max_end (oo_ext obj y)"
  "oe_dlmlock (oo_ext (held x obj) y) = oe_dlmlock (oo_ext obj y)"
  "oe_intree (oo_ext (held x obj) y) = oe_intree (oo_ext obj y)"
  "oe_grants (oo_ext (held x obj) y) = oe_grants (oo_ext obj y)"
  by (simp_all add: held_def Let_def)

lemma pages_ok_cong:
  "pages_ok env e \<Longrightarrow> oe_pages e' = oe_pages e \<Longrightarrow> oe_nr_pages e' = oe_nr_pages e \<Longrightarrow> oe_start e' \<le> oe_start e \<Longrightarrow> oe_end e \<le> oe_end e' \<Longrightarrow>
   pages_ok env e'"
  by (fastforce simp: pages_ok_def)

lemma ext_ok_held:
  assumes "ext_ok env cli e" and "oe_state e \<in> {OES_ACTIVE, OES_CACHE}" and "\<not> oe_fsync_wait e"
  shows "ext_ok env cli (e\<lparr>oe_state := OES_ACTIVE, oe_users := oe_users e + 1, oe_refc := oe_refc e + 1\<rparr>)"
  using assms pages_ok_cong [of env e "e\<lparr>oe_state := OES_ACTIVE, oe_users := oe_users e + 1, oe_refc := oe_refc e + 1\<rparr>"]
  by (auto simp: ext_ok_def code_iffs less_oes_def)

lemma cached_pages_held:
  assumes "distinct xs" and "x \<in> set xs"
  shows "cached_pages (held x obj) xs + (if oe_state (oo_ext obj x) = OES_CACHE then oe_nr_pages (oo_ext obj x) else 0) = cached_pages obj xs"
proof -
  let ?f = "\<lambda>x. if oe_state (oo_ext obj x) = OES_CACHE then oe_nr_pages (oo_ext obj x) else 0"
  have "cached_pages (held x obj) xs = sum_list (map (?f(x := 0)) xs)"
    unfolding cached_pages_def by (rule arg_cong [where f = sum_list]) auto
  then show ?thesis using sum_list_upd [OF assms, of ?f 0] by (simp add: cached_pages_def)
qed

lemma distinct_remove1_idem: "distinct xs \<Longrightarrow> remove1 x (remove1 x xs) = remove1 x xs"
  by (simp add: remove1_idem)

lemma links_ok_unlink: "links_ok obj \<Longrightarrow> links_ok (unlink x obj)"
  by (simp add: links_ok_def unlink_def)

lemma tree_inv_nr_writes:
  assumes "tree_inv env cli obj" and "x \<in> set (exts obj)" and "oe_state (oo_ext obj x) = OES_CACHE"
  shows "int (oe_nr_pages (oo_ext obj x)) \<le> oo_nr_writes obj"
proof -
  let ?f = "\<lambda>x. if oe_state (oo_ext obj x) = OES_CACHE then oe_nr_pages (oo_ext obj x) else 0"
  have "?f x \<in> set (map ?f (exts obj))" using assms(2) by simp
  then have "?f x \<le> sum_list (map ?f (exts obj))" by (rule member_le_sum_list) simp
  with assms show ?thesis by (simp add: tree_inv_def cached_pages_def)
qed

lemma tree_inv_held:
  assumes "tree_inv env cli obj" and "x \<in> set (exts obj)"
    and "oe_state (oo_ext obj x) \<in> {OES_ACTIVE, OES_CACHE}" and "\<not> oe_fsync_wait (oo_ext obj x)"
  shows "osc_extent_hold x obj = Ret (held x obj)" and "tree_inv env cli (held x obj)"
proof -
  have x: "ext_ok env cli (oo_ext obj x)" using assms(1,2) by (simp add: tree_inv_def)
  then have "0 < oe_refc (oo_ext obj x)" using sane_refc by (auto simp: ext_ok_def)
  then show "osc_extent_hold x obj = Ret (held x obj)"
    using hold_eq assms(3) tree_inv_nr_writes [OF assms(1,2)] by blast
  have d: "distinct (exts obj)" using assms(1) ordered_distinct by (auto simp: tree_inv_def)
  have "ordered (oo_ext (held x obj)) (exts obj)"
    using assms(1) ordered_cong [of "exts obj" "oo_ext (held x obj)" "oo_ext obj"] by (simp add: tree_inv_def)
  moreover have "\<forall>y \<in> set (exts obj). ext_ok env cli (oo_ext (held x obj) y)"
  proof
    fix y assume "y \<in> set (exts obj)"
    then show "ext_ok env cli (oo_ext (held x obj) y)"
      using assms(1) ext_ok_held [OF x assms(3,4)] by (cases "y = x") (auto simp: tree_inv_def)
  qed
  moreover have "slots_ok (oo_ext (held x obj)) (set (exts obj))"
    by (rule slots_ok_cong [of "oo_ext obj" "set (exts obj)"]) (use assms(1) in \<open>simp_all add: tree_inv_def\<close>)
  moreover have "links_ok (held x obj)"
    using assms(1) by (auto simp: tree_inv_def held_def Let_def links_ok_def unlink_def)
  moreover have "int (cached_pages (held x obj) (exts obj)) \<le> oo_nr_writes (held x obj)"
    using assms(1) cached_pages_held [OF d assms(2), of obj] by (auto simp: tree_inv_def held_def Let_def split: if_splits)
  ultimately show "tree_inv env cli (held x obj)" using assms(1) by (simp add: tree_inv_def)
qed

section \<open>Merging two extents\<close>

definition retired :: "osc_extent \<Rightarrow> osc_extent" where
  "retired e = e\<lparr>oe_nr_pages := 0, oe_pages := [], oe_intree := False, oe_state := OES_INV, oe_refc := oe_refc e - 1,
     oe_dlmlock := if oe_refc e - 1 = 0 then None else oe_dlmlock e\<rparr>"

definition merged :: "osc_env \<Rightarrow> eref \<Rightarrow> eref \<Rightarrow> osc_object \<Rightarrow> osc_object" where
  "merged env x v obj = (unlink v obj)\<lparr>oo_root := rb_erase env v (oo_root obj),
     oo_ext := (oo_ext obj)(x := absorb (oo_ext obj v) (oo_ext obj x), v := retired (oo_ext obj v))\<rparr>"

definition adjacent :: "osc_cli \<Rightarrow> osc_extent \<Rightarrow> osc_extent \<Rightarrow> bool" where
  "adjacent cli e v \<longleftrightarrow> oe_start e div ppc cli = oe_end v div ppc cli + 1 \<or> oe_end e div ppc cli + 1 = oe_start v div ppc cli"

definition mergeable :: "osc_cli \<Rightarrow> osc_extent \<Rightarrow> osc_extent \<Rightarrow> bool" where
  "mergeable cli e v \<longleftrightarrow> oe_state v = OES_CACHE \<and> \<not> oe_fsync_wait v \<and> oe_max_end e = oe_max_end v \<and> adjacent cli e v"

lemma merge_refused:
  assumes "oe_state (oo_ext obj x) = OES_CACHE" and "\<not> mergeable cli (oo_ext obj x) (oo_ext obj v)"
    and "oe_max_end (oo_ext obj x) = oe_max_end (oo_ext obj v) \<Longrightarrow> oe_dlmlock (oo_ext obj x) = oe_dlmlock (oo_ext obj v)"
  shows "\<exists>rc. rc \<noteq> 0 \<and> osc_extent_merge env cli x (Some v) obj = Ret (rc, obj)"
  using assms by (auto simp: osc_extent_merge_def mergeable_def adjacent_def Let_def)

lemma unlink_not_on_link: "links_ok obj \<Longrightarrow> \<not> on_link x (unlink x obj)"
  by (auto simp: links_ok_def on_link_def unlink_def)

lemma merge_eq:
  assumes "oe_state (oo_ext obj x) = OES_CACHE" and "mergeable cli (oo_ext obj x) (oo_ext obj v)"
    and "oe_dlmlock (oo_ext obj x) = oe_dlmlock (oo_ext obj v)" and "x \<noteq> v" and "oe_intree (oo_ext obj v)"
    and "0 < oe_refc (oo_ext obj v)" and "oe_users (oo_ext obj v) = 0" and "links_ok obj"
  shows "osc_extent_merge env cli x (Some v) obj = Ret (0, merged env x v obj)"
proof -
  have r: "remove1 v (remove1 v xs) = remove1 v xs" if "distinct xs" for xs :: "eref list"
    using that by (simp add: remove1_idem)
  have n: "v \<notin> set (remove1 v xs)" if "distinct xs" for xs :: "eref list"
    using that by simp
  have d: "distinct (oo_hp_exts obj)" "distinct (oo_urgent_exts obj)" "distinct (oo_reading_exts obj)"
    using assms(8) by (simp_all add: links_ok_def)
  show ?thesis
    using assms(1-7) d
    by (auto simp: osc_extent_merge_def mergeable_def adjacent_def Let_def osc_extent_get_def osc_extent_remove_def
        osc_extent_erase_def osc_extent_put_trust_def osc_extent_put_def osc_extent_state_set_def upd_def unlink_def
        on_link_def merged_def retired_def r n)
qed

lemma exts_merged: "rbtree (rb_insert_color env) (rb_erase env) \<Longrightarrow> exts (merged env x v obj) = remove1 v (exts obj)"
  by (simp add: exts_def merged_def rbtree.inorder_erase)

lemma absorb_simps [simp]:
  "oe_start (absorb v e) = min (oe_start e) (oe_start v)" "oe_end (absorb v e) = max (oe_end e) (oe_end v)"
  "oe_max_end (absorb v e) = oe_max_end e" "oe_state (absorb v e) = oe_state e" "oe_dlmlock (absorb v e) = oe_dlmlock e"
  "oe_intree (absorb v e) = oe_intree e" "oe_grants (absorb v e) = oe_grants e + oe_grants v"
  "oe_nr_pages (absorb v e) = oe_nr_pages e + oe_nr_pages v" "oe_refc (absorb v e) = oe_refc e"
  "oe_users (absorb v e) = oe_users e" "oe_hp (absorb v e) = oe_hp e" "oe_fsync_wait (absorb v e) = oe_fsync_wait e"
  "oe_urgent (absorb v e) = (oe_urgent e \<or> oe_urgent v)" "oe_sync (absorb v e) = oe_sync e"
  "oe_mppr (absorb v e) = oe_mppr e" "oe_pages (absorb v e) = oe_pages v @ oe_pages e"
  by (simp_all add: absorb_def)

lemma unat_u32_plus: "unat (a :: u32) + unat b < 2 ^ 32 \<Longrightarrow> unat (a + b) = unat a + unat b"
  by (simp add: unat_word_ariths)

lemma u32_sum_nonzero:
  assumes "(a :: u32) \<noteq> 0" and "unat a + unat b < 2 ^ 32"
  shows "a + b \<noteq> 0"
proof -
  have "0 < unat a" using assms(1) by (simp add: unat_gt_0)
  then have "0 < unat (a + b)" using unat_u32_plus [OF assms(2)] by simp
  then show ?thesis by auto
qed

lemma pages_ok_absorb:
  assumes "pages_ok env e" and "pages_ok env v" and "oe_end e < oe_start v \<or> oe_end v < oe_start e"
  shows "pages_ok env (absorb v e)"
proof -
  have "osc_index env p \<noteq> osc_index env q" if "p \<in> set (oe_pages v)" "q \<in> set (oe_pages e)" for p q
  proof -
    have "oe_start v \<le> osc_index env p" "osc_index env p \<le> oe_end v" "oe_start e \<le> osc_index env q" "osc_index env q \<le> oe_end e"
      using assms(1,2) that by (simp_all add: pages_ok_def)
    then show ?thesis using assms(3) by linarith
  qed
  then show ?thesis using assms(1,2) by (auto simp: pages_ok_def max_def min_def)
qed

lemma ext_ok_absorb:
  assumes "ext_ok env cli e" and "ext_ok env cli v" and "oe_state e = OES_CACHE" and "mergeable cli e v"
    and "oe_dlmlock e = oe_dlmlock v" and "oe_end e < oe_start v \<or> oe_end v < oe_start e"
    and "unat (oe_grants e) + unat (oe_grants v) < 2 ^ 32"
  shows "ext_ok env cli (absorb v e)"
proof -
  note e = assms(1) [unfolded ext_ok_def] and v = assms(2) [unfolded ext_ok_def] and m = assms(4) [unfolded mergeable_def]
  have se: "0 < oe_refc e" "oe_users e \<le> oe_refc e" "state_code e = 0" "oe_start e \<le> oe_end e" "oe_end e \<le> oe_max_end e"
    "lock_code env e = 0" "page_code env e = 0" "\<not> (oe_sync e \<and> oe_grants e > 0)"
    using e sane_iff [of e env] by simp_all
  have sv: "oe_start v \<le> oe_end v" "oe_end v \<le> oe_max_end v" "lock_code env v = 0" "page_code env v = 0"
    using v sane_iff [of v env] by simp_all
  have g: "oe_grants e \<noteq> 0" using se(3) assms(3) by (simp add: code_iffs)
  then have "\<not> oe_sync e" using se(8) by (simp add: word_gt_0)
  have ps: "pages_ok env (absorb v e)" using e v assms(6) by (intro pages_ok_absorb) simp_all
  have n: "oe_nr_pages e + oe_nr_pages v \<le> max (oe_end e) (oe_end v) + 1 - min (oe_start e) (oe_start v)"
    using pages_ok_count [OF ps] by simp
  have r: "oe_max_end e - min (oe_start e) (oe_start v) < oe_mppr e" using e v m by (auto simp: min_def)
  have "max (oe_end e) (oe_end v) \<le> oe_max_end e" using se(5) sv(2) m by simp
  then have "oe_nr_pages e + oe_nr_pages v \<le> oe_mppr e" using n r by linarith
  moreover have "lock_code env (absorb v e) = 0"
    using se(6) sv(3) assms(5) by (auto simp: lock_code_iff min_def)
  moreover have "page_code env (absorb v e) = 0"
    using se(7) sv(4) assms(3) m by (auto simp: page_code_iff less_oes_def min_def max_def)
  moreover have "state_code (absorb v e) = 0"
    using se(3) assms(3) u32_sum_nonzero [OF g assms(7)] by (auto simp: code_iffs)
  ultimately show ?thesis
    using e v m assms(3) se sv n r ps \<open>\<not> oe_sync e\<close> by (auto simp: ext_ok_def sane_iff min_def max_def)
qed

text \<open>The two extents are neighbours: \<open>v\<close> follows or precedes \<open>x\<close>.\<close>

lemma tree_inv_merged:
  assumes inv: "tree_inv env cli obj" and rb: "rbtree (rb_insert_color env) (rb_erase env)"
    and ab: "exts obj = pre @ a # b # post" and xv: "x = a \<and> v = b \<or> x = b \<and> v = a"
    and st: "oe_state (oo_ext obj x) = OES_CACHE" and m: "mergeable cli (oo_ext obj x) (oo_ext obj v)"
    and g: "ext_grants obj < 2 ^ 32"
  shows "osc_extent_merge env cli x (Some v) obj = Ret (0, merged env x v obj)"
    and "tree_inv env cli (merged env x v obj)" and "exts (merged env x v obj) = pre @ x # post"
    and "ext_grants (merged env x v obj) = ext_grants obj" and "tree_frame lk obj (merged env x v obj)"
proof -
  let ?E = "oo_ext obj" and ?o = "merged env x v obj"
  have ord: "ordered ?E (pre @ a # b # post)" and ok: "\<forall>y \<in> set (exts obj). ext_ok env cli (?E y)"
    and it: "\<And>y. oe_intree (?E y) \<longleftrightarrow> y \<in> set (exts obj)"
    and links: "links_ok obj" and slots: "slots_ok ?E (set (exts obj))"
    using inv ab by (simp_all add: tree_inv_def)
  have d: "distinct (pre @ a # b # post)" by (rule ordered_distinct [OF ord])
  have mem: "x \<in> set (exts obj)" "v \<in> set (exts obj)" and ne: "x \<noteq> v" using ab xv d by auto
  then have okx: "ext_ok env cli (?E x)" "ext_ok env cli (?E v)" using ok by simp_all
  have ml: "oe_max_end (?E x) = oe_max_end (?E v)" "oe_state (?E v) = OES_CACHE" using m by (simp_all add: mergeable_def)
  have dl: "oe_dlmlock (?E x) = oe_dlmlock (?E v)" using slots mem ml(1) unfolding slots_ok_def by blast
  have "oe_users (?E v) \<le> 0" using okx(2) ml(2) by (auto simp: ext_ok_def code_iffs)
  then have "oe_users (?E v) = 0" "0 < oe_refc (?E v)" using okx(2) by (auto simp: ext_ok_def code_iffs)
  then show "osc_extent_merge env cli x (Some v) obj = Ret (0, ?o)"
    using merge_eq [OF st m dl ne _ _ _ links] it mem by blast
  show e: "exts ?o = pre @ x # post"
    using exts_merged [OF rb] ab xv d by (auto simp: remove1_append)
  have dj: "oe_end (?E x) < oe_start (?E v) \<or> oe_end (?E v) < oe_start (?E x)" using ord xv by (auto simp: ordered_simps)
  have gs: "ext_grants obj = sum_list (map (\<lambda>y. unat (oe_grants (?E y))) pre) + unat (oe_grants (?E x)) + unat (oe_grants (?E v)) +
      sum_list (map (\<lambda>y. unat (oe_grants (?E y))) post)" using xv by (auto simp: ext_grants_def ab)
  then have gl: "unat (oe_grants (?E x)) + unat (oe_grants (?E v)) < 2 ^ 32" using g by linarith
  have ext: "oo_ext ?o = ?E(x := absorb (?E v) (?E x), v := retired (?E v))" by (simp add: merged_def)
  have other: "y \<in> set pre \<union> set post \<Longrightarrow> y \<noteq> x \<and> y \<noteq> v" for y using d xv by auto
  have same: "sum_list (map (\<lambda>y. f (oo_ext ?o y)) ys) = sum_list (map (\<lambda>y. f (?E y)) ys)"
    if "set ys \<subseteq> set pre \<union> set post" for f :: "osc_extent \<Rightarrow> nat" and ys
    by (rule arg_cong [where f = sum_list]) (use that other ext in auto)
  have new: "oo_ext ?o x = absorb (?E v) (?E x)" using ne by (simp add: ext)
  show "ext_grants ?o = ext_grants obj"
    using gs unat_u32_plus [OF gl] ne same [of pre "\<lambda>e. unat (oe_grants e)"] same [of post "\<lambda>e. unat (oe_grants e)"]
    by (simp add: ext_grants_def e new)
  have "ext_pages ?o = ext_pages obj" using xv other ne by (auto simp: ext_pages_def e new ab ext)
  moreover have "locks_apart lk ?o" if a: "locks_apart lk obj"
    unfolding locks_apart_def e
  proof (intro ballI impI)
    fix y assume y: "y \<in> set (pre @ x # post)" and n: "oe_dlmlock (oo_ext ?o y) \<noteq> ols_dlmlock lk"
    show "oe_max_end (oo_ext ?o y) < cld_start lk \<or> cld_end lk < oe_start (oo_ext ?o y)"
    proof (cases "y = x")
      case True
      then have "oe_dlmlock (?E x) \<noteq> ols_dlmlock lk" "oe_dlmlock (?E v) \<noteq> ols_dlmlock lk" using n new dl by simp_all
      then have "oe_max_end (?E x) < cld_start lk \<or> cld_end lk < oe_start (?E x)" "oe_max_end (?E v) < cld_start lk \<or> cld_end lk < oe_start (?E v)"
        using a mem unfolding locks_apart_def by blast+
      then show ?thesis using True new ml(1) by (auto simp: min_def)
    next
      case False
      then have "oo_ext ?o y = ?E y" "y \<in> set (exts obj)" using y other ext ab xv by auto
      then show ?thesis using a n unfolding locks_apart_def by metis
    qed
  qed
  moreover have "on_link c ?o \<Longrightarrow> on_link c obj" for c
    by (auto simp: on_link_def merged_def unlink_def dest: set_mp [OF set_remove1_subset])
  moreover have "oe_srvlock (oo_ext ?o y) = oe_srvlock (?E y)" for y by (simp add: ext absorb_def retired_def)
  then have "srv_all s ?o" if "srv_all s obj" for s using that xv by (auto simp: srv_all_def e ab)
  ultimately show "tree_frame lk obj ?o" using ab xv by (auto simp: tree_frame_def e)
  have "ordered (oo_ext ?o) (pre @ x # post)"
  proof -
    have "ordered (oo_ext ?o) pre = ordered ?E pre" "ordered (oo_ext ?o) post = ordered ?E post"
      by (rule ordered_cong; use ext other in auto)+
    then show ?thesis using ord xv ne other ext by (auto simp: ordered_simps)
  qed
  moreover have "\<forall>y \<in> set (pre @ x # post). ext_ok env cli (oo_ext ?o y)"
    using ok ab other ne ext ext_ok_absorb [OF okx st m dl dj gl] by auto
  moreover have "oe_intree (oo_ext ?o y) \<longleftrightarrow> y \<in> set (pre @ x # post)" for y
    using it ab xv d ext ne by (auto simp: retired_def)
  moreover have "slots_ok (oo_ext ?o) (set (pre @ x # post))"
    by (rule slots_ok_cong [OF slots]) (use ab xv other ext ne in auto)
  moreover have "links_ok ?o" using links by (simp add: links_ok_def merged_def unlink_def)
  moreover have "cached_pages ?o (pre @ x # post) = cached_pages obj (exts obj)"
    using same [of pre "\<lambda>e. if oe_state e = OES_CACHE then oe_nr_pages e else 0"]
      same [of post "\<lambda>e. if oe_state e = OES_CACHE then oe_nr_pages e else 0"] ab xv st ml(2)
    by (auto simp: cached_pages_def new)
  moreover have "oo_nr_writes ?o = oo_nr_writes obj" by (simp add: merged_def unlink_def)
  ultimately show "tree_inv env cli ?o" using inv e by (simp add: tree_inv_def)
qed

section \<open>Growing an extent\<close>

definition grown :: "eref \<Rightarrow> pgoff \<Rightarrow> pgoff \<Rightarrow> u32 \<Rightarrow> osc_object \<Rightarrow> osc_object" where
  "grown x s t g obj = upd x (\<lambda>e. e\<lparr>oe_start := s, oe_end := t, oe_grants := oe_grants e + g\<rparr>) obj"

lemma grown_frame [simp]:
  "exts (grown x s t g obj) = exts obj"
  "oo_nr_writes (grown x s t g obj) = oo_nr_writes obj" "links_ok (grown x s t g obj) = links_ok obj"
  by (simp_all add: grown_def upd_def exts_def links_ok_def)

lemma grown_ext:
  "oo_ext (grown x s t g obj) = (oo_ext obj)(x := (oo_ext obj x)\<lparr>oe_start := s, oe_end := t, oe_grants := oe_grants (oo_ext obj x) + g\<rparr>)"
  by (simp add: grown_def upd_def)

lemma tree_inv_grown:
  assumes inv: "tree_inv env cli obj" and ab: "exts obj = pre @ x # post"
    and st: "oe_state (oo_ext obj x) \<in> {OES_ACTIVE, OES_CACHE}" "oe_grants (oo_ext obj x) \<noteq> 0"
    and range: "s \<le> oe_start (oo_ext obj x)" "oe_end (oo_ext obj x) \<le> t" "t \<le> oe_max_end (oo_ext obj x)"
      "oe_max_end (oo_ext obj x) - s < oe_mppr (oo_ext obj x)"
    and align: "s mod ppc cli = 0" "(t + 1) mod ppc cli = 0"
    and room: "\<forall>y \<in> set pre. oe_end (oo_ext obj y) < s" "\<forall>y \<in> set post. t < oe_start (oo_ext obj y)"
    and lock: "lock_code env ((oo_ext obj x)\<lparr>oe_start := s\<rparr>) = 0" and g: "ext_grants obj + unat g < 2 ^ 32"
  shows "tree_inv env cli (grown x s t g obj)" and "ext_grants (grown x s t g obj) = ext_grants obj + unat g"
proof -
  let ?E = "oo_ext obj" and ?o = "grown x s t g obj"
  let ?e = "(?E x)\<lparr>oe_start := s, oe_end := t, oe_grants := oe_grants (?E x) + g\<rparr>"
  have ord: "ordered ?E (pre @ x # post)" and ok: "\<forall>y \<in> set (exts obj). ext_ok env cli (?E y)"
    and it: "\<And>y. oe_intree (?E y) \<longleftrightarrow> y \<in> set (exts obj)" and slots: "slots_ok ?E (set (exts obj))"
    using inv ab by (simp_all add: tree_inv_def)
  have d: "distinct (pre @ x # post)" by (rule ordered_distinct [OF ord])
  have okx: "ext_ok env cli (?E x)" using ok ab by simp
  have gs: "ext_grants obj = sum_list (map (\<lambda>y. unat (oe_grants (?E y))) pre) + unat (oe_grants (?E x)) +
      sum_list (map (\<lambda>y. unat (oe_grants (?E y))) post)" by (simp add: ext_grants_def ab)
  then have gl: "unat (oe_grants (?E x)) + unat g < 2 ^ 32" using g by linarith
  have other: "y \<in> set pre \<union> set post \<Longrightarrow> oo_ext ?o y = ?E y" for y using d by (auto simp: grown_ext)
  have same: "sum_list (map (\<lambda>y. f (oo_ext ?o y)) ys) = sum_list (map (\<lambda>y. f (?E y)) ys)"
    if "set ys \<subseteq> set pre \<union> set post" for f :: "osc_extent \<Rightarrow> nat" and ys
    by (rule arg_cong [where f = sum_list]) (use that other in auto)
  have new: "oo_ext ?o x = ?e" by (simp add: grown_ext)
  show "ext_grants ?o = ext_grants obj + unat g"
    using gs unat_u32_plus [OF gl] same [of pre "\<lambda>e. unat (oe_grants e)"] same [of post "\<lambda>e. unat (oe_grants e)"]
    by (simp add: ext_grants_def ab new)
  have n: "\<not> oe_sync (?E x)" using okx st by (auto simp: ext_ok_def sane_iff word_gt_0)
  have se: "oe_start (?E x) \<le> oe_end (?E x)" using ord by (simp add: ordered_simps)
  have "state_code ?e = 0" using okx st(1) u32_sum_nonzero [OF st(2) gl] by (auto simp: ext_ok_def sane_iff state_code_iff)
  moreover have "lock_code env ?e = 0" using lock by (simp add: lock_code_iff)
  moreover have "page_code env (?E x) = 0" using okx by (auto simp: ext_ok_def sane_iff)
  then have "page_code env ?e = 0" using range(1,2) by (auto simp: page_code_iff)
  moreover have "pages_ok env ?e" by (rule pages_ok_cong [of env "?E x"]) (use okx range(1,2) in \<open>simp_all add: ext_ok_def\<close>)
  moreover have "oe_grants (?E x) + g \<noteq> 0" by (rule u32_sum_nonzero [OF st(2) gl])
  ultimately have okn: "ext_ok env cli ?e" using okx n range align se by (auto simp: ext_ok_def sane_iff)
  have "ordered (oo_ext ?o) (pre @ x # post)"
  proof -
    have "ordered (oo_ext ?o) pre = ordered ?E pre" "ordered (oo_ext ?o) post = ordered ?E post"
      by (rule ordered_cong; use other in auto)+
    then show ?thesis using ord range room other new by (auto simp: ordered_simps)
  qed
  moreover have "\<forall>y \<in> set (pre @ x # post). ext_ok env cli (oo_ext ?o y)"
    using ok ab other okn new by auto
  moreover have "oe_intree (oo_ext ?o y) \<longleftrightarrow> y \<in> set (exts obj)" for y using it by (simp add: grown_ext)
  moreover have "slots_ok (oo_ext ?o) (set (exts obj))" by (rule slots_ok_cong [OF slots]) (simp_all add: grown_ext)
  moreover have "cached_pages ?o (exts obj) = cached_pages obj (exts obj)"
    unfolding cached_pages_def by (rule arg_cong [where f = sum_list]) (simp add: grown_ext)
  ultimately show "tree_inv env cli ?o"
    using inv ab by (simp add: tree_inv_def)
qed

lemma tree_frame_grown:
  assumes "x \<in> set (exts obj)" and "s = oe_start (oo_ext obj x) \<or> oe_dlmlock (oo_ext obj x) = ols_dlmlock lk"
  shows "tree_frame lk obj (grown x s t g obj)"
proof -
  have "locks_apart lk (grown x s t g obj)" if "locks_apart lk obj" using that assms by (auto simp: locks_apart_def grown_ext)
  moreover have "on_link c (grown x s t g obj) = on_link c obj" for c by (simp add: on_link_def grown_def upd_def)
  moreover have "oe_pages (oo_ext (grown x s t g obj) y) = oe_pages (oo_ext obj y)"
    "oe_srvlock (oo_ext (grown x s t g obj) y) = oe_srvlock (oo_ext obj y)" for y by (simp_all add: grown_ext)
  ultimately show ?thesis using assms by (simp add: tree_frame_def ext_pages_def srv_all_def)
qed

lemma tree_frame_held:
  assumes "x \<in> set (exts obj)"
  shows "tree_frame lk obj (held x obj)"
proof (rule tree_frame_same)
  show "on_link c obj" if "on_link c (held x obj)" for c
    using that by (auto simp: on_link_def held_def Let_def unlink_def dest: set_mp [OF set_remove1_subset])
  show "oe_pages (oo_ext (held x obj) y) = oe_pages (oo_ext obj y) \<and> oe_start (oo_ext (held x obj) y) = oe_start (oo_ext obj y) \<and>
      oe_max_end (oo_ext (held x obj) y) = oe_max_end (oo_ext obj y) \<and> oe_dlmlock (oo_ext (held x obj) y) = oe_dlmlock (oo_ext obj y) \<and>
      oe_srvlock (oo_ext (held x obj) y) = oe_srvlock (oo_ext obj y)" for y
    by (cases "y = x") simp_all
qed simp

lemma grow_start: "upd x (\<lambda>e. e\<lparr>oe_start := s, oe_grants := oe_grants e + g\<rparr>) obj = grown x s (oe_end (oo_ext obj x)) g obj"
  by (cases "oo_ext obj x") (simp add: grown_def upd_def)

lemma grow_end: "upd x (\<lambda>e. e\<lparr>oe_end := t, oe_grants := oe_grants e + g\<rparr>) obj = grown x (oe_start (oo_ext obj x)) t g obj"
  by (cases "oo_ext obj x") (simp add: grown_def upd_def)

section \<open>Inserting a new extent\<close>

text \<open>An extent that was just allocated and set up for a page.\<close>

definition fresh_ext :: "osc_env \<Rightarrow> osc_cli \<Rightarrow> osc_extent \<Rightarrow> bool" where
  "fresh_ext env cli e \<longleftrightarrow> oe_refc e = 1 \<and> oe_users e = 0 \<and> \<not> oe_intree e \<and> \<not> oe_hp e \<and> \<not> oe_fsync_wait e \<and> \<not> oe_sync e \<and>
     oe_nr_pages e = 0 \<and> oe_pages e = [] \<and> oe_mppr e = unat (cl_max_pages_per_rpc cli) \<and>
     oe_start e \<le> oe_end e \<and> oe_end e \<le> oe_max_end e \<and> oe_max_end e - oe_start e < oe_mppr e \<and>
     oe_start e mod ppc cli = 0 \<and> (oe_end e + 1) mod ppc cli = 0 \<and> (oe_max_end e + 1) mod ppc cli = 0 \<and> lock_code env e = 0"

lemma tree_inv_inserted:
  assumes inv: "tree_inv env cli obj" and rb: "rbtree (rb_insert_color env) (rb_erase env)"
    and new: "fresh_ext env cli (oo_ext obj c)" and apart: "\<forall>y \<in> set (exts obj). apart_from (oo_ext obj) c y"
    and slot: "\<forall>y \<in> set (exts obj). oe_max_end (oo_ext obj y) = oe_max_end (oo_ext obj c) \<longrightarrow> oe_dlmlock (oo_ext obj y) = oe_dlmlock (oo_ext obj c)"
    and grant: "g \<noteq> 0"
  shows "\<exists>obj'. bindO (osc_extent_hold c (upd c (\<lambda>e. e\<lparr>oe_grants := g, oe_state := OES_CACHE\<rparr>) obj)) (osc_extent_insert env c) = Ret obj' \<and>
    tree_inv env cli obj' \<and> c \<in> set (exts obj') \<and> ext_grants obj' = ext_grants obj + unat g \<and>
    oo_ext obj' = (oo_ext obj)(c := (oo_ext obj c)\<lparr>oe_grants := g, oe_state := OES_ACTIVE, oe_users := 1, oe_refc := 3, oe_intree := True\<rparr>)"
proof -
  let ?E = "oo_ext obj" and ?e = "(oo_ext obj c)\<lparr>oe_grants := g, oe_state := OES_ACTIVE, oe_users := 1, oe_refc := 2\<rparr>"
  let ?o1 = "upd c (\<lambda>e. e\<lparr>oe_grants := g, oe_state := OES_CACHE\<rparr>) obj"
  have ord: "ordered ?E (exts obj)" and ok: "\<forall>y \<in> set (exts obj). ext_ok env cli (?E y)"
    and it: "\<And>y. oe_intree (?E y) \<longleftrightarrow> y \<in> set (exts obj)" and slots: "slots_ok ?E (set (exts obj))" and links: "links_ok obj"
    and wr: "int (cached_pages obj (exts obj)) \<le> oo_nr_writes obj"
    using inv by (simp_all add: tree_inv_def)
  have c: "c \<notin> set (exts obj)" using it new by (auto simp: fresh_ext_def)
  have h: "osc_extent_hold c ?o1 = Ret (held c ?o1)"
    by (rule hold_eq) (use new wr in \<open>auto simp: upd_def fresh_ext_def\<close>)
  have ext2: "oo_ext (held c ?o1) = ?E(c := ?e)"
    using new by (auto simp: held_def upd_def Let_def fresh_ext_def fun_eq_iff)
  have root2: "oo_root (held c ?o1) = oo_root obj" by (simp add: held_def upd_def unlink_def Let_def)
  have "ordered (?E(c := ?e)) (exts obj) = ordered ?E (exts obj)" by (rule ordered_cong) (use c in auto)
  moreover have "\<forall>y \<in> set (exts obj). apart_from (?E(c := ?e)) c y" using apart c by (auto simp: apart_from_def)
  ultimately obtain t pre post where t: "link_node (?E(c := ?e)) c (oo_root obj) = Ret t" "exts obj = pre @ post"
      "inorder t = pre @ c # post" "ordered (?E(c := ?e)) (pre @ c # post)"
    using link_node_ok [of "?E(c := ?e)" "oo_root obj" c] ord new by (auto simp: exts_def fresh_ext_def)
  let ?e3 = "?e\<lparr>oe_refc := 3, oe_intree := True\<rparr>"
  define obj' where "obj' = (held c ?o1)\<lparr>oo_root := rb_insert_color env c t, oo_ext := ?E(c := ?e3)\<rparr>"
  have ins: "osc_extent_insert env c (held c ?o1) = Ret obj'"
    using new ext2 root2 t(1) by (simp add: osc_extent_insert_def osc_extent_get_def upd_def fresh_ext_def obj'_def)
  have ex: "exts obj' = pre @ c # post" using rb t(3) by (simp add: exts_def obj'_def rbtree.inorder_color)
  have E': "oo_ext obj' = ?E(c := ?e3)" by (simp add: obj'_def)
  have other: "y \<in> set (exts obj) \<Longrightarrow> oo_ext obj' y = ?E y" for y using c E' by auto
  have same: "sum_list (map (\<lambda>y. f (oo_ext obj' y)) (exts obj)) = sum_list (map (\<lambda>y. f (?E y)) (exts obj))" for f :: "osc_extent \<Rightarrow> nat"
    by (rule arg_cong [where f = sum_list]) (use other in auto)
  have split: "sum_list (map f (pre @ c # post)) = f c + sum_list (map f (exts obj))" for f :: "eref \<Rightarrow> nat"
    by (simp add: t(2))
  have gr: "ext_grants obj' = ext_grants obj + unat g"
    unfolding ext_grants_def ex split same [of "\<lambda>e. unat (oe_grants e)"] by (simp add: E')
  have okc: "ext_ok env cli ?e3" using new grant by (auto simp: ext_ok_def fresh_ext_def pages_ok_def code_iffs less_oes_def)
  have "ordered (oo_ext obj') (pre @ c # post)"
    using t(4) ordered_cong [of "pre @ c # post" "oo_ext obj'" "?E(c := ?e)"] by (auto simp: E')
  moreover have "\<forall>y \<in> set (pre @ c # post). ext_ok env cli (oo_ext obj' y)"
    using ok other okc t(2) E' by auto
  moreover have "oe_intree (oo_ext obj' y) \<longleftrightarrow> y \<in> set (pre @ c # post)" for y using it t(2) by (auto simp: E')
  moreover have "slots_ok (oo_ext obj') (set (pre @ c # post))"
    using slots_ok_insert [OF slots, of ?e3 c] slot t(2) by (simp add: E' Un_commute)
  moreover have "links_ok obj'" using links by (auto simp: links_ok_def obj'_def held_def upd_def unlink_def Let_def)
  moreover have "int (cached_pages obj' (pre @ c # post)) \<le> oo_nr_writes obj'"
  proof -
    have "cached_pages obj' (pre @ c # post) = cached_pages obj (exts obj)"
      unfolding cached_pages_def split same [of "\<lambda>e. if oe_state e = OES_CACHE then oe_nr_pages e else 0"] by (simp add: E')
    moreover have "oo_nr_writes obj' = oo_nr_writes obj" using new by (simp add: obj'_def held_def upd_def Let_def fresh_ext_def)
    ultimately show ?thesis using wr by simp
  qed
  ultimately have "tree_inv env cli obj'" by (simp add: tree_inv_def ex)
  moreover have "c \<in> set (exts obj')" by (simp add: ex)
  ultimately show ?thesis using h ins gr E' by simp
qed

end
