(* ===== verification/Osc_Release.thy ===== *)
theory Osc_Release
  imports Osc_Inv
begin

text \<open>
  Releasing and expanding an extent (\<open>osc_extent_release\<close>, \<open>osc_extent_expand\<close>) keep the invariant of the
  tree and the grant it holds.
\<close>

section \<open>Changing one extent\<close>

lemma tree_inv_distinct: "tree_inv env cli obj \<Longrightarrow> distinct (exts obj)"
  using ordered_distinct by (auto simp: tree_inv_def)

text \<open>An extent of the tree may change in everything but its place, as long as it stays sane and the pending pages follow.\<close>

lemma tree_inv_update:
  assumes inv: "tree_inv env cli obj" and x: "x \<in> set (exts obj)" and ok: "ext_ok env cli e"
    and place: "oe_start e = oe_start (oo_ext obj x)" "oe_end e = oe_end (oo_ext obj x)" "oe_max_end e = oe_max_end (oo_ext obj x)"
      "oe_dlmlock e = oe_dlmlock (oo_ext obj x)" "oe_intree e"
    and new: "oo_root obj' = oo_root obj" "oo_ext obj' = (oo_ext obj)(x := e)" "links_ok obj'"
    and wr: "oo_nr_writes obj + (if oe_state e = OES_CACHE then int (oe_nr_pages e) else 0) \<le>
      oo_nr_writes obj' + (if oe_state (oo_ext obj x) = OES_CACHE then int (oe_nr_pages (oo_ext obj x)) else 0)"
  shows "tree_inv env cli obj'" and "ext_grants obj' + unat (oe_grants (oo_ext obj x)) = ext_grants obj + unat (oe_grants e)"
proof -
  let ?E = "oo_ext obj"
  let ?f = "\<lambda>x. if oe_state (?E x) = OES_CACHE then oe_nr_pages (?E x) else 0"
  have ex: "exts obj' = exts obj" using new(1) by (simp add: exts_def)
  have d: "distinct (exts obj)" by (rule tree_inv_distinct [OF inv])
  have "ordered (oo_ext obj') (exts obj) = ordered ?E (exts obj)" by (rule ordered_cong) (use place new(2) in simp)
  moreover have "slots_ok (oo_ext obj') (set (exts obj))"
    by (rule slots_ok_cong [of ?E "set (exts obj)"]) (use inv place new(2) in \<open>simp_all add: tree_inv_def\<close>)
  moreover have "cached_pages obj' (exts obj) = sum_list (map (?f(x := (if oe_state e = OES_CACHE then oe_nr_pages e else 0))) (exts obj))"
    unfolding cached_pages_def by (rule arg_cong [where f = sum_list]) (simp add: new(2))
  then have "cached_pages obj' (exts obj) + ?f x = cached_pages obj (exts obj) + (if oe_state e = OES_CACHE then oe_nr_pages e else 0)"
    using sum_list_upd [OF d x, of ?f] by (simp add: cached_pages_def)
  then have "int (cached_pages obj' (exts obj)) \<le> oo_nr_writes obj'"
    using inv wr by (auto simp: tree_inv_def split: if_splits)
  ultimately show "tree_inv env cli obj'"
    using inv ok place(5) x new(2,3) by (simp add: tree_inv_def ex)
  have "ext_grants obj' = sum_list (map ((\<lambda>x. unat (oe_grants (?E x)))(x := unat (oe_grants e))) (exts obj))"
    unfolding ext_grants_def ex by (rule arg_cong [where f = sum_list]) (simp add: new(2))
  then show "ext_grants obj' + unat (oe_grants (?E x)) = ext_grants obj + unat (oe_grants e)"
    using sum_list_upd [OF d x, of "\<lambda>x. unat (oe_grants (?E x))"] by (simp add: ext_grants_def)
qed

text \<open>Changing the reference count of an extent in the tree, above the number of its users.\<close>

lemma tree_inv_refc:
  assumes "tree_inv env cli obj" and "x \<in> set (exts obj)" and "0 < r" and "oe_users (oo_ext obj x) < r"
  shows "tree_inv env cli (upd x (\<lambda>e. e\<lparr>oe_refc := r\<rparr>) obj)" and "ext_grants (upd x (\<lambda>e. e\<lparr>oe_refc := r\<rparr>) obj) = ext_grants obj"
proof -
  let ?o = "upd x (\<lambda>e. e\<lparr>oe_refc := r\<rparr>) obj"
  have e: "exts ?o = exts obj" by (simp add: exts_def upd_def)
  have E: "oo_ext ?o = (oo_ext obj)(x := (oo_ext obj x)\<lparr>oe_refc := r\<rparr>)" by (simp add: upd_def)
  have "ordered (oo_ext ?o) (exts obj) = ordered (oo_ext obj) (exts obj)" by (rule ordered_cong) (simp add: E)
  moreover have "slots_ok (oo_ext ?o) (set (exts obj))"
    by (rule slots_ok_cong [of "oo_ext obj" "set (exts obj)"]) (use assms in \<open>simp_all add: tree_inv_def E\<close>)
  moreover have "cached_pages ?o (exts obj) = cached_pages obj (exts obj)"
    unfolding cached_pages_def by (rule arg_cong [where f = sum_list]) (simp add: E)
  moreover have "ext_ok env cli ((oo_ext obj x)\<lparr>oe_refc := r\<rparr>)"
  proof -
    have "ext_ok env cli (oo_ext obj x)" using assms(1,2) by (simp add: tree_inv_def)
    moreover have "state_code ((oo_ext obj x)\<lparr>oe_refc := r\<rparr>) = state_code (oo_ext obj x)"
      by (cases "oe_state (oo_ext obj x)") (simp_all add: state_code_def)
    moreover have "lock_code env ((oo_ext obj x)\<lparr>oe_refc := r\<rparr>) = lock_code env (oo_ext obj x)"
      by (cases "oe_dlmlock (oo_ext obj x)") (simp_all add: lock_code_def)
    moreover have "page_code env ((oo_ext obj x)\<lparr>oe_refc := r\<rparr>) = page_code env (oo_ext obj x)"
      by (simp add: page_code_def)
    moreover have "pages_ok env ((oo_ext obj x)\<lparr>oe_refc := r\<rparr>) = pages_ok env (oo_ext obj x)" by (simp add: pages_ok_def)
    ultimately show ?thesis using assms(3,4) by (auto simp: ext_ok_def sane_iff)
  qed
  ultimately show "tree_inv env cli ?o"
    using assms(1) by (simp add: tree_inv_def e) (simp add: E upd_def links_ok_def)
  show "ext_grants ?o = ext_grants obj"
    unfolding ext_grants_def e by (rule arg_cong [where f = sum_list]) (simp add: E)
qed

section \<open>Merging with a neighbour\<close>

lemma neighbours:
  assumes "distinct (pr @ x # post)"
  shows "head_of (after x (pr @ x # post)) = head_of post" and "head_of (after x (rev (pr @ x # post))) = head_of (rev pr)"
  using assms by (simp_all add: after_split)

definition merge_kept :: "osc_lock \<Rightarrow> osc_object \<Rightarrow> osc_object \<Rightarrow> eref \<Rightarrow> bool" where
  "merge_kept lk obj obj' x \<longleftrightarrow> x \<in> set (exts obj') \<and> ext_grants obj' = ext_grants obj \<and>
     oe_state (oo_ext obj' x) = OES_CACHE \<and> oe_refc (oo_ext obj' x) = oe_refc (oo_ext obj x) \<and>
     oe_users (oo_ext obj' x) = oe_users (oo_ext obj x) \<and> oe_start (oo_ext obj' x) \<le> oe_start (oo_ext obj x) \<and>
     oe_end (oo_ext obj x) \<le> oe_end (oo_ext obj' x) \<and> tree_frame lk obj obj'"

lemma merge_neighbour:
  assumes inv: "tree_inv env cli obj" and rb: "rbtree (rb_insert_color env) (rb_erase env)" and x: "x \<in> set (exts obj)"
    and st: "oe_state (oo_ext obj x) = OES_CACHE" and g: "ext_grants obj < 2 ^ 32"
    and v: "v = head_of (after x (exts obj)) \<or> v = head_of (after x (rev (exts obj)))"
  shows "\<exists>rc obj'. osc_extent_merge env cli x v obj = Ret (rc, obj') \<and> tree_inv env cli obj' \<and> merge_kept lk obj obj' x"
proof -
  let ?E = "oo_ext obj"
  obtain pr post where p: "exts obj = pr @ x # post" using x by (metis split_list)
  have d: "distinct (pr @ x # post)" using tree_inv_distinct [OF inv] p by simp
  show ?thesis
  proof (cases v)
    case None
    then show ?thesis using st inv x by (simp add: osc_extent_merge_def merge_kept_def)
  next
    case (Some n)
    have "head_of post = Some n \<or> head_of (rev pr) = Some n" using v Some neighbours [OF d] p by metis
    then obtain pre a b post' where ab: "exts obj = pre @ a # b # post'" "x = a \<and> n = b \<or> x = b \<and> n = a"
    proof
      assume "head_of post = Some n"
      then have "post = n # tl post" by (cases post) (simp_all add: head_of_def)
      then show thesis using p that [of pr x n "tl post"] by simp
    next
      assume "head_of (rev pr) = Some n"
      then have "rev pr = n # tl (rev pr)" by (cases "rev pr") (simp_all add: head_of_def)
      then have "pr = rev (tl (rev pr)) @ [n]" by (metis rev.simps(2) rev_rev_ident)
      then show thesis using p that [of "rev (tl (rev pr))" n x post] by (metis append.assoc append_Cons append_Nil)
    qed
    show ?thesis
    proof (cases "mergeable cli (?E x) (?E n)")
      case True
      note m = tree_inv_merged [OF inv rb ab st True g]
      have "n \<noteq> x" using ab d p by auto
      then have "oo_ext (merged env x n obj) x = absorb (?E n) (?E x)" by (simp add: merged_def)
      then have "merge_kept lk obj (merged env x n obj) x" using m(3-5) st by (simp add: merge_kept_def)
      then show ?thesis using m(1,2) Some by blast
    next
      case False
      have "n \<in> set (exts obj)" using ab by auto
      then have "oe_max_end (?E x) = oe_max_end (?E n) \<Longrightarrow> oe_dlmlock (?E x) = oe_dlmlock (?E n)"
        using inv x unfolding tree_inv_def slots_ok_def by blast
      then obtain rc where "osc_extent_merge env cli x (Some n) obj = Ret (rc, obj)"
        using merge_refused [OF st False] by blast
      then show ?thesis using inv x st Some by (simp add: merge_kept_def)
    qed
  qed
qed

section \<open>Releasing an extent\<close>

text \<open>The steps of the last user: the pages become pending, the neighbours are merged, an urgent extent is queued.\<close>

definition cached_again :: "eref \<Rightarrow> osc_object \<Rightarrow> osc_object" where
  "cached_again x obj = (upd x (\<lambda>e. e\<lparr>oe_users := 0, oe_state := OES_CACHE\<rparr>) obj)
     \<lparr>oo_nr_writes := oo_nr_writes obj + int (oe_nr_pages (oo_ext obj x)),
      cl_pending_w_pages := cl_pending_w_pages obj + int (oe_nr_pages (oo_ext obj x))\<rparr>"

definition merge_both :: "osc_env \<Rightarrow> osc_cli \<Rightarrow> eref \<Rightarrow> osc_object \<Rightarrow> osc_object outcome" where
  "merge_both env cli x obj =
     bindO (prev_extent obj x) (\<lambda>prev. bindO (osc_extent_merge env cli x prev obj) (\<lambda>(_, obj).
     bindO (next_extent obj x) (\<lambda>nxt. bindO (osc_extent_merge env cli x nxt obj) (\<lambda>(_, obj). Ret obj))))"

definition queue_urgent :: "eref \<Rightarrow> osc_object \<Rightarrow> osc_object" where
  "queue_urgent x obj =
     (if oe_urgent (oo_ext obj x) then (unlink x obj)\<lparr>oo_urgent_exts := oo_urgent_exts (unlink x obj) @ [x]\<rparr> else obj)"

lemma release_last:
  assumes "osc_extent_sanity_check0 env (oo_ext obj x) = 0" and "oe_grants (oo_ext obj x) > 0" and "oe_users (oo_ext obj x) = 1"
    and "oe_state (oo_ext obj x) = OES_ACTIVE" and "\<not> oe_trunc_pending (oo_ext obj x)" and "0 \<le> oo_nr_writes obj"
  shows "osc_extent_release env cli x obj =
    bindO (merge_both env cli x (cached_again x obj)) (\<lambda>obj. bindO (osc_extent_put x (queue_urgent x obj)) (\<lambda>obj. Ret (True, obj)))"
  using assms
  by (simp add: osc_extent_release_def Let_def osc_update_pending_def osc_extent_state_set_def merge_both_def queue_urgent_def
      cached_again_def upd_def bindO_bindO split_def)

lemma tree_inv_cached_again:
  assumes inv: "tree_inv env cli obj" and x: "x \<in> set (exts obj)" and st: "oe_state (oo_ext obj x) = OES_ACTIVE"
    and g: "oe_grants (oo_ext obj x) \<noteq> 0"
  shows "tree_inv env cli (cached_again x obj)" and "ext_grants (cached_again x obj) = ext_grants obj"
proof -
  let ?e = "(oo_ext obj x)\<lparr>oe_users := 0, oe_state := OES_CACHE\<rparr>"
  have ok: "ext_ok env cli (oo_ext obj x)" and links: "links_ok obj" and it: "oe_intree (oo_ext obj x)"
    using inv x by (simp_all add: tree_inv_def)
  have "ext_ok env cli ?e" using ok st g by (auto simp: ext_ok_def pages_ok_def code_iffs less_oes_def)
  note u = tree_inv_update [OF inv x this, of "cached_again x obj"]
  show "tree_inv env cli (cached_again x obj)" "ext_grants (cached_again x obj) = ext_grants obj"
    using u it links st by (simp_all add: cached_again_def upd_def links_ok_def)
qed

lemma merge_both_ok:
  assumes inv: "tree_inv env cli obj" and rb: "rbtree (rb_insert_color env) (rb_erase env)" and x: "x \<in> set (exts obj)"
    and st: "oe_state (oo_ext obj x) = OES_CACHE" and g: "ext_grants obj < 2 ^ 32"
  shows "\<exists>obj'. merge_both env cli x obj = Ret obj' \<and> tree_inv env cli obj' \<and> merge_kept lk obj obj' x"
proof -
  have it: "y \<in> set (exts o') \<Longrightarrow> tree_inv env cli o' \<Longrightarrow> oe_intree (oo_ext o' y)" for y o' by (simp add: tree_inv_def)
  obtain rc1 o1 where 1: "osc_extent_merge env cli x (head_of (after x (rev (exts obj)))) obj = Ret (rc1, o1)"
    "tree_inv env cli o1" "merge_kept lk obj o1 x"
    using merge_neighbour [OF inv rb x st g disjI2 [OF refl]] by blast
  then obtain rc2 o2 where 2: "osc_extent_merge env cli x (head_of (after x (exts o1))) o1 = Ret (rc2, o2)"
    "tree_inv env cli o2" "merge_kept lk o1 o2 x"
    using merge_neighbour [OF 1(2) rb _ _ _ disjI1 [OF refl], of x lk] g unfolding merge_kept_def by auto
  have "x \<in> set (exts o1)" "merge_kept lk obj o2 x" using 1(3) 2(3) tree_frame_trans [of lk obj o1 o2] by (auto simp: merge_kept_def)
  then show ?thesis using 1 2 it [OF x inv] it [of x o1]
    by (simp add: merge_both_def prev_extent_def next_extent_def)
qed

lemma queue_urgent_frame [simp]:
  "exts (queue_urgent x obj) = exts obj" "oo_ext (queue_urgent x obj) = oo_ext obj" "oo_nr_writes (queue_urgent x obj) = oo_nr_writes obj"
  by (simp_all add: queue_urgent_def exts_def unlink_def)

lemma on_link_queue_urgent: "on_link c (queue_urgent x obj) \<Longrightarrow> c = x \<or> on_link c obj"
  by (auto simp: queue_urgent_def on_link_def unlink_def split: if_splits dest: set_mp [OF set_remove1_subset])

lemma tree_inv_queue_urgent:
  assumes "tree_inv env cli obj"
  shows "tree_inv env cli (queue_urgent x obj)" and "ext_grants (queue_urgent x obj) = ext_grants obj"
proof -
  have "links_ok (queue_urgent x obj)"
    using assms by (auto simp: tree_inv_def links_ok_def queue_urgent_def unlink_def)
  moreover have "cached_pages (queue_urgent x obj) (exts obj) = cached_pages obj (exts obj)"
    by (simp add: cached_pages_def cong: if_cong)
  ultimately show "tree_inv env cli (queue_urgent x obj)" using assms by (simp add: tree_inv_def)
  show "ext_grants (queue_urgent x obj) = ext_grants obj" by (simp add: ext_grants_def)
qed

lemma tree_inv_put:
  assumes "tree_inv env cli obj" and "x \<in> set (exts obj)" and "oe_users (oo_ext obj x) < oe_refc (oo_ext obj x) - 1" and "1 < oe_refc (oo_ext obj x)"
  shows "osc_extent_put x obj = Ret (upd x (\<lambda>e. e\<lparr>oe_refc := oe_refc e - 1\<rparr>) obj)"
    and "tree_inv env cli (upd x (\<lambda>e. e\<lparr>oe_refc := oe_refc e - 1\<rparr>) obj)"
    and "ext_grants (upd x (\<lambda>e. e\<lparr>oe_refc := oe_refc e - 1\<rparr>) obj) = ext_grants obj"
proof -
  show "osc_extent_put x obj = Ret (upd x (\<lambda>e. e\<lparr>oe_refc := oe_refc e - 1\<rparr>) obj)"
    using assms(4) by (simp add: osc_extent_put_def)
  have "upd x (\<lambda>e. e\<lparr>oe_refc := oe_refc e - 1\<rparr>) obj = upd x (\<lambda>e. e\<lparr>oe_refc := oe_refc (oo_ext obj x) - 1\<rparr>) obj"
    by (simp add: upd_def)
  then show "tree_inv env cli (upd x (\<lambda>e. e\<lparr>oe_refc := oe_refc e - 1\<rparr>) obj)"
      "ext_grants (upd x (\<lambda>e. e\<lparr>oe_refc := oe_refc e - 1\<rparr>) obj) = ext_grants obj"
    using tree_inv_refc [OF assms(1,2), of "oe_refc (oo_ext obj x) - 1"] assms(3,4) by simp_all
qed

definition release_kept :: "osc_lock \<Rightarrow> osc_env \<Rightarrow> osc_cli \<Rightarrow> osc_object \<Rightarrow> osc_object \<Rightarrow> eref \<Rightarrow> oes \<Rightarrow> bool" where
  "release_kept lk env cli obj obj' x s \<longleftrightarrow> tree_inv env cli obj' \<and> ext_grants obj' = ext_grants obj \<and> x \<in> set (exts obj') \<and>
     oe_state (oo_ext obj' x) = s \<and> oe_users (oo_ext obj' x) = oe_users (oo_ext obj x) - 1 \<and>
     oe_refc (oo_ext obj' x) = oe_refc (oo_ext obj x) - 1 \<and>
     oe_start (oo_ext obj' x) \<le> oe_start (oo_ext obj x) \<and> oe_end (oo_ext obj x) \<le> oe_end (oo_ext obj' x) \<and> tree_frame lk obj obj'"

lemma release_shared:
  assumes inv: "tree_inv env cli obj" and x: "x \<in> set (exts obj)" and u: "1 < oe_users (oo_ext obj x)"
    and g: "oe_grants (oo_ext obj x) \<noteq> 0" and r: "oe_users (oo_ext obj x) < oe_refc (oo_ext obj x)"
  shows "\<exists>obj'. osc_extent_release env cli x obj = Ret (False, obj') \<and> release_kept lk env cli obj obj' x OES_ACTIVE"
proof -
  let ?e = "oo_ext obj x" and ?o = "upd x (\<lambda>e. e\<lparr>oe_users := oe_users e - 1\<rparr>) obj"
  let ?p = "upd x (\<lambda>e. e\<lparr>oe_refc := oe_refc e - 1\<rparr>) ?o"
  have ok: "ext_ok env cli ?e" "oe_intree ?e" "links_ok obj" using inv x by (simp_all add: tree_inv_def)
  then have st: "oe_state ?e = OES_ACTIVE" using u by (cases "oe_state ?e") (auto simp: ext_ok_def sane_iff state_code_def split: if_splits)
  have sane: "osc_extent_sanity_check0 env ?e = 0" using ok by (simp add: ext_ok_def)
  have "ext_ok env cli (?e\<lparr>oe_users := oe_users ?e - 1\<rparr>)" using ok(1) st u by (auto simp: ext_ok_def pages_ok_def code_iffs less_oes_def)
  note t = tree_inv_update [OF inv x this, of ?o]
  have o: "tree_inv env cli ?o" "ext_grants ?o = ext_grants obj" "exts ?o = exts obj"
    using t ok(2,3) by (simp_all add: upd_def links_ok_def exts_def)
  note p = tree_inv_put [OF o(1), of x]
  have "osc_extent_put x ?o = Ret ?p" "tree_inv env cli ?p" "ext_grants ?p = ext_grants obj"
    using p o x r u by (simp_all add: upd_def)
  moreover have "osc_extent_release env cli x obj = bindO (osc_extent_put x ?o) (\<lambda>obj. Ret (False, obj))"
    using sane u g by (simp add: osc_extent_release_def Let_def upd_def word_gt_0)
  moreover have "exts ?p = exts obj" by (simp add: exts_def upd_def)
  moreover have "tree_frame lk obj ?p" using tree_frame_trans [of lk obj ?o ?p] tree_frame_upd by simp
  ultimately show ?thesis using x st by (intro exI [of _ ?p]) (simp add: release_kept_def, simp add: upd_def)
qed

lemma release_unshared:
  assumes inv: "tree_inv env cli obj" and rb: "rbtree (rb_insert_color env) (rb_erase env)" and x: "x \<in> set (exts obj)"
    and u: "oe_users (oo_ext obj x) = 1" and t: "\<not> oe_trunc_pending (oo_ext obj x)" and st: "oe_state (oo_ext obj x) = OES_ACTIVE"
    and g: "oe_grants (oo_ext obj x) \<noteq> 0" "ext_grants obj < 2 ^ 32" and r: "1 < oe_refc (oo_ext obj x)"
  shows "\<exists>obj'. osc_extent_release env cli x obj = Ret (True, obj') \<and> release_kept lk env cli obj obj' x OES_CACHE"
proof -
  let ?c = "cached_again x obj"
  have "ext_ok env cli (oo_ext obj x)" and wr: "0 \<le> oo_nr_writes obj" using inv x by (auto simp: tree_inv_def)
  then have sane: "osc_extent_sanity_check0 env (oo_ext obj x) = 0" by (simp add: ext_ok_def)
  note c = tree_inv_cached_again [OF inv x st g(1)]
  have cx: "exts ?c = exts obj" "oo_ext ?c x = (oo_ext obj x)\<lparr>oe_users := 0, oe_state := OES_CACHE\<rparr>"
    by (simp_all add: cached_again_def exts_def upd_def)
  obtain o1 where o1: "merge_both env cli x ?c = Ret o1" "tree_inv env cli o1" "merge_kept lk ?c o1 x"
    using merge_both_ok [OF c(1) rb, of x] cx x c(2) g(2) by auto
  let ?q = "queue_urgent x o1" and ?p = "upd x (\<lambda>e. e\<lparr>oe_refc := oe_refc e - 1\<rparr>) (queue_urgent x o1)"
  have k: "x \<in> set (exts ?q)" "oe_users (oo_ext ?q x) < oe_refc (oo_ext ?q x) - 1" "1 < oe_refc (oo_ext ?q x)"
    using o1(3) cx r by (simp_all add: merge_kept_def)
  note q = tree_inv_queue_urgent [OF o1(2), of x] and p = tree_inv_put [OF tree_inv_queue_urgent(1) [OF o1(2)] k]
  have "osc_extent_release env cli x obj = Ret (True, ?p)"
    using release_last [OF sane _ u st t wr] g(1) o1(1) p(1) by (simp add: word_gt_0)
  moreover have "exts ?p = exts o1" by (simp add: exts_def upd_def queue_urgent_def unlink_def)
  moreover have "tree_frame lk obj ?p"
  proof -
    have "tree_frame lk obj ?c" by (rule tree_frame_same) (auto simp: cached_again_def upd_def exts_def on_link_def)
    moreover have "tree_frame lk ?c o1" using o1(3) by (simp add: merge_kept_def)
    moreover have "tree_frame lk o1 ?q" using k(1) by (intro tree_frame_same) (auto dest: on_link_queue_urgent)
    moreover have "tree_frame lk ?q ?p" by (rule tree_frame_upd) simp_all
    ultimately show ?thesis using tree_frame_trans by blast
  qed
  ultimately show ?thesis using o1(3) p(2,3) q(2) c(2) cx u
    by (intro exI [of _ ?p]) (simp add: release_kept_def merge_kept_def, simp add: upd_def)
qed

lemma release_truncating:
  assumes inv: "tree_inv env cli obj" and x: "x \<in> set (exts obj)"
    and u: "oe_users (oo_ext obj x) = 1" and t: "oe_trunc_pending (oo_ext obj x)" and st: "oe_state (oo_ext obj x) = OES_ACTIVE"
    and g: "oe_grants (oo_ext obj x) \<noteq> 0" and r: "1 < oe_refc (oo_ext obj x)"
  shows "\<exists>obj'. osc_extent_release env cli x obj = Ret (True, obj') \<and> release_kept lk env cli obj obj' x OES_TRUNC"
proof -
  let ?e = "(oo_ext obj x)\<lparr>oe_users := 0, oe_state := OES_TRUNC, oe_trunc_pending := False\<rparr>"
  let ?o = "upd x (\<lambda>_. ?e) obj" let ?p = "upd x (\<lambda>e. e\<lparr>oe_refc := oe_refc e - 1\<rparr>) ?o"
  have ok: "ext_ok env cli (oo_ext obj x)" "oe_intree (oo_ext obj x)" "links_ok obj" using inv x by (simp_all add: tree_inv_def)
  then have sane: "osc_extent_sanity_check0 env (oo_ext obj x) = 0" by (simp add: ext_ok_def)
  have "state_code ?e = 0" by (simp add: state_code_def)
  then have "ext_ok env cli ?e" using ok(1) st by (auto simp: ext_ok_def pages_ok_def sane_iff lock_code_iff page_code_iff less_oes_def)
  note n = tree_inv_update [OF inv x this, of ?o]
  have o: "tree_inv env cli ?o" "ext_grants ?o = ext_grants obj" "exts ?o = exts obj"
    using n ok(2,3) st by (simp_all add: upd_def links_ok_def exts_def)
  note p = tree_inv_put [OF o(1), of x]
  have "osc_extent_put x ?o = Ret ?p" "tree_inv env cli ?p" "ext_grants ?p = ext_grants obj"
    using p o x r by (simp_all add: upd_def)
  moreover have "osc_extent_release env cli x obj = bindO (osc_extent_put x ?o) (\<lambda>obj. Ret (True, obj))"
    using sane u g t st by (simp add: osc_extent_release_def osc_extent_state_set_def Let_def upd_def word_gt_0)
  moreover have "exts ?p = exts obj" by (simp add: exts_def upd_def)
  moreover have "tree_frame lk obj ?p" using tree_frame_trans [of lk obj ?o ?p] tree_frame_upd by simp
  ultimately show ?thesis using x u by (intro exI [of _ ?p]) (simp add: release_kept_def, simp add: upd_def)
qed

section \<open>Expanding an extent\<close>

lemma expand_end:
  assumes "ext_ok env cli e" and "(oe_max_end e + 1) mod ppc cli = 0" and "index div ppc cli = oe_end e div ppc cli + 1" and "index \<le> oe_max_end e"
  defines "fin \<equiv> min (oe_max_end e) ((index div ppc cli + 1) * ppc cli - 1)"
  shows "index \<le> fin" and "oe_end e < fin" and "(fin + 1) mod ppc cli = 0" and "fin \<le> oe_max_end e"
proof -
  let ?p = "ppc cli"
  have e: "index < (index div ?p + 1) * ?p" using dividend_less_div_times [of ?p index] by simp
  then show i: "index \<le> fin" using assms(4) by (simp add: fin_def)
  have "oe_end e div ?p < index div ?p" using assms(3) by simp
  then have "oe_end e < index" by (metis div_le_mono leD leI)
  with i show "oe_end e < fin" by simp
  have "((index div ?p + 1) * ?p - 1 + 1) mod ?p = 0" using ppc_pos [of cli] by simp
  then show "(fin + 1) mod ?p = 0" using assms(2) by (simp add: fin_def min_def split del: if_split) (simp split: if_split)
  show "fin \<le> oe_max_end e" by (simp add: fin_def)
qed

definition expand_kept :: "osc_lock \<Rightarrow> osc_env \<Rightarrow> osc_cli \<Rightarrow> u32 \<Rightarrow> osc_object \<Rightarrow> u32 \<Rightarrow> osc_object \<Rightarrow> bool" where
  "expand_kept lk env cli grants obj g obj' \<longleftrightarrow> tree_inv env cli obj' \<and> exts obj' = exts obj \<and> tree_frame lk obj obj' \<and>
     ext_grants obj' + unat g = ext_grants obj + unat grants"

lemma expand_grows:
  assumes inv: "tree_inv env cli obj" and ab: "exts obj = pr @ x # post"
    and st: "oe_state (oo_ext obj x) \<in> {OES_ACTIVE, OES_CACHE}" "oe_grants (oo_ext obj x) \<noteq> 0"
    and fin: "oe_end (oo_ext obj x) < fin" "(fin + 1) mod ppc cli = 0" "fin \<le> oe_max_end (oo_ext obj x)"
    and room: "\<forall>y \<in> set post. fin < oe_start (oo_ext obj y)"
    and g: "unat (chunksize cli) \<le> unat grants" "ext_grants obj + unat grants < 2 ^ 32"
  shows "expand_kept lk env cli grants obj (grants - chunksize cli) (grown x (oe_start (oo_ext obj x)) fin (chunksize cli) obj)"
    and "\<not> osc_extent_is_overlapped env x (grown x (oe_start (oo_ext obj x)) fin (chunksize cli) obj)"
proof -
  let ?E = "oo_ext obj" and ?o = "grown x (oe_start (oo_ext obj x)) fin (chunksize cli) obj"
  have ok: "ext_ok env cli (?E x)" and ord: "ordered ?E (pr @ x # post)" using inv ab by (simp_all add: tree_inv_def)
  have lock: "lock_code env ((?E x)\<lparr>oe_start := oe_start (?E x)\<rparr>) = 0"
    using ok by (auto simp: ext_ok_def sane_iff lock_code_iff)
  have "tree_inv env cli ?o \<and> ext_grants ?o = ext_grants obj + unat (chunksize cli)"
    using tree_inv_grown [OF inv ab st, of "oe_start (?E x)" fin "chunksize cli"] ok fin room lock g ord
    by (auto simp: ext_ok_def ordered_simps)
  moreover have "unat (grants - chunksize cli) + unat (chunksize cli) = unat grants"
    using g(1) by (simp add: unat_sub word_le_nat_alt)
  moreover have "tree_frame lk obj ?o" using ab by (intro tree_frame_grown) simp_all
  ultimately show "expand_kept lk env cli grants obj (grants - chunksize cli) ?o" by (simp add: expand_kept_def)
  show "\<not> osc_extent_is_overlapped env x ?o"
    using ord room fin(1) ab by (auto simp: osc_extent_is_overlapped_def list_ex_iff grown_ext ordered_simps)
qed

section \<open>Results\<close>

text \<open>
  Expanding an extent to a page of the next chunk either takes one chunk of grant from the caller
  and covers the page, or changes nothing: \<open>-ERANGE\<close> when the page is farther away, \<open>-EAGAIN\<close> when the
  next extent is in the way. The tree keeps its extents and its order, and no grant is lost.
\<close>

lemma extent_expand_kept:
  assumes inv: "tree_inv env cli obj" and x: "x \<in> set (exts obj)"
    and st: "oe_state (oo_ext obj x) \<in> {OES_ACTIVE, OES_CACHE}"
    and index: "oe_start (oo_ext obj x) \<le> index" "index \<le> oe_max_end (oo_ext obj x)"
    and g: "unat (chunksize cli) \<le> unat grants" "ext_grants obj + unat grants < 2 ^ 32"
  shows "\<exists>rc g obj'. osc_extent_expand env cli x index grants obj = Ret (rc, g, obj') \<and> tree_inv env cli obj' \<and>
    exts obj' = exts obj \<and> tree_frame lk obj obj' \<and> ext_grants obj' + unat g = ext_grants obj + unat grants \<and>
    rc \<in> {0, - ERANGE, - EAGAIN} \<and>
    (rc = 0 \<longrightarrow> index \<le> oe_end (oo_ext obj' x) \<and> unat g \<le> unat grants \<and>
       oo_ext obj' = (oo_ext obj)(x := (oo_ext obj x)\<lparr>oe_end := oe_end (oo_ext obj' x), oe_grants := oe_grants (oo_ext obj' x)\<rparr>)) \<and>
    (rc \<noteq> 0 \<longrightarrow> obj' = obj \<and> g = grants)"
proof -
  let ?e = "oo_ext obj x" and ?chunk = "index div ppc cli" and ?last = "oe_end (oo_ext obj x) div ppc cli"
  define fin where "fin = min (oe_max_end ?e) ((?chunk + 1) * ppc cli - 1)"
  have ok: "ext_ok env cli ?e" and it: "oe_intree ?e" using inv x by (simp_all add: tree_inv_def)
  then have sane: "osc_extent_sanity_check0 env ?e = 0" and al: "(oe_max_end ?e + 1) mod ppc cli = 0" by (simp_all add: ext_ok_def)
  have gz: "oe_grants ?e \<noteq> 0" using ok st by (auto simp: ext_ok_def code_iffs)
  obtain pr post where p: "exts obj = pr @ x # post" using x by (metis split_list)
  have ord: "ordered (oo_ext obj) (pr @ x # post)" using inv p by (simp add: tree_inv_def)
  have nxt: "next_extent obj x = Ret (head_of post)"
    using it neighbours(1) [of pr x post] ordered_distinct [OF ord] p by (simp add: next_extent_def)
  consider (gap) "?chunk > ?last + 1" | (inside) "?chunk \<le> ?last" | (step) "?chunk = ?last + 1" by linarith
  then show ?thesis
  proof cases
    case gap
    then show ?thesis using inv sane index by (simp add: osc_extent_expand_def Let_def)
  next
    case inside
    have "index \<le> oe_end ?e"
    proof -
      have "(?last + 1) * ppc cli \<le> oe_end ?e + 1" using ext_ok_chunks(2) [OF ok] by linarith
      moreover have "index < (?chunk + 1) * ppc cli" using dividend_less_div_times [of "ppc cli" index] by simp
      moreover have "(?chunk + 1) * ppc cli \<le> (?last + 1) * ppc cli" using inside by (intro mult_le_mono1) simp
      ultimately show ?thesis by linarith
    qed
    then show ?thesis using inv inside sane index by (simp add: osc_extent_expand_def Let_def)
  next
    case step
    let ?o = "grown x (oe_start ?e) fin (chunksize cli) obj"
    let ?blocked = "case head_of post of None \<Rightarrow> False | Some n \<Rightarrow> oe_start (oo_ext obj n) \<le> fin"
    note f = expand_end [OF ok al step index(2), folded fin_def]
    have eq: "osc_extent_expand env cli x index grants obj =
      (if ?blocked then Ret (- EAGAIN, grants, obj)
       else lassert (\<not> osc_extent_is_overlapped env x ?o) (Ret (0, grants - chunksize cli, ?o)))"
      unfolding osc_extent_expand_def Let_def grow_end fin_def [symmetric] using step sane index nxt by simp
    show ?thesis
    proof (cases ?blocked)
      case True
      then show ?thesis using inv eq by simp
    next
      case False
      then have room: "\<forall>y \<in> set post. fin < oe_start (oo_ext obj y)"
        using ord by (cases post) (fastforce simp: head_of_def ordered_simps)+
      note gr = expand_grows(1) [OF inv p st gz f(2-4) room g, where lk = lk] expand_grows(2) [OF inv p st gz f(2-4) room g]
      have "unat (grants - chunksize cli) \<le> unat grants" using g(1) by (simp add: unat_sub word_le_nat_alt)
      then show ?thesis using False gr f(1) eq by (simp add: grown_ext expand_kept_def)
    qed
  qed
qed

definition sample_ext :: "pgoff \<Rightarrow> osc_extent" where
  "sample_ext i = new_extent\<lparr>oe_start := i, oe_end := i, oe_max_end := 255, oe_state := OES_CACHE, oe_intree := True, oe_grants := 8192,
     oe_nr_pages := 1, oe_pages := [i], oe_mppr := 256, oe_dlmlock := Some 0\<rparr>"

definition sample_object :: osc_object where
  "sample_object = \<lparr>oo_root = \<langle>\<langle>\<rangle>, 0, \<langle>\<langle>\<rangle>, 1, \<langle>\<rangle>\<rangle>\<rangle>,
     oo_ext = (\<lambda>x. if x = 0 then sample_ext 0 else if x = 1 then sample_ext 2 else new_extent),
     oo_hp_exts = [], oo_urgent_exts = [], oo_reading_exts = [], oo_nr_writes = 2, oo_nr_reads = 0,
     cl_pending_w_pages = 2, cl_pending_r_pages = 0,
     oo_oap = (\<lambda>p. \<lparr>oap_obj_off = int p * 4096, oap_page_off = 0, oap_count = 4096, oap_write = True, oap_ready = False,
       oap_urgent = False, oap_count_stable = False, oap_xid = None, oap_interrupted = False\<rparr>),
     loi_ar = \<lparr>ar_rc = 0, ar_force_sync = False, ar_min_xid = 0\<rparr>\<rparr>"

definition sample_env :: osc_env where
  "sample_env = \<lparr>rb_insert_color = (\<lambda>_ t. t), rb_erase = vine_erase,
     dlm = (\<lambda>_. \<lparr>l_failed = False, l_start = 0, l_end = 4194304, l_can_write = True\<rparr>), cl_offset = (\<lambda>i. i * 4096), osc_index = (\<lambda>p. p),
     extent_debug = True\<rparr>"

definition sample_lock :: osc_lock where
  "sample_lock = \<lparr>ols_granted = True, ols_hold = True, ols_dlmlock = Some 0, cld_write = True, cld_start = 0, cld_end = 1023\<rparr>"

lemma sample_tree_inv: "tree_inv sample_env sample_osc sample_object"
  by (auto simp: tree_inv_def ext_ok_def pages_ok_def osc_extent_sanity_check0_def state_code_def lock_code_def page_code_def exts_def ordered_def
      slots_ok_def links_ok_def cached_pages_def sample_object_def sample_ext_def sample_env_def sample_osc_def new_extent_def ppc_def
      less_oes_def)

text \<open>The first extent of the sample is in use by one thread, which then lets go of it.\<close>

definition sample_active :: osc_object where
  "sample_active = sample_object\<lparr>oo_ext := (oo_ext sample_object)(0 := (sample_ext 0)\<lparr>oe_state := OES_ACTIVE, oe_users := 1, oe_refc := 2\<rparr>),
     oo_nr_writes := 1\<rparr>"

lemma sample_active_inv: "tree_inv sample_env sample_osc sample_active"
  by (auto simp: tree_inv_def ext_ok_def pages_ok_def osc_extent_sanity_check0_def state_code_def lock_code_def page_code_def exts_def ordered_def
      slots_ok_def links_ok_def cached_pages_def sample_active_def sample_object_def sample_ext_def sample_env_def sample_osc_def
      new_extent_def ppc_def less_oes_def)

text \<open>
  The user that releases an extent gives back its reference, and nothing is lost: the tree stays in
  order and the extents hold the same grant as before. The last user puts the extent in the cache, or
  hands it to the truncation that waits for it.
\<close>

lemma extent_release_kept:
  assumes "tree_inv env cli obj" and "rbtree (rb_insert_color env) (rb_erase env)" and "x \<in> set (exts obj)"
    and "0 < oe_users (oo_ext obj x)" and "ext_grants obj < 2 ^ 32"
  shows "\<exists>obj'. osc_extent_release env cli x obj = Ret (oe_users (oo_ext obj x) = 1, obj') \<and>
    tree_inv env cli obj' \<and> ext_grants obj' = ext_grants obj \<and> x \<in> set (exts obj') \<and>
    oe_state (oo_ext obj' x) = (if 1 < oe_users (oo_ext obj x) then OES_ACTIVE else if oe_trunc_pending (oo_ext obj x) then OES_TRUNC else OES_CACHE) \<and>
    oe_users (oo_ext obj' x) = oe_users (oo_ext obj x) - 1 \<and> oe_refc (oo_ext obj' x) = oe_refc (oo_ext obj x) - 1 \<and>
    oe_start (oo_ext obj' x) \<le> oe_start (oo_ext obj x) \<and> oe_end (oo_ext obj x) \<le> oe_end (oo_ext obj' x) \<and> tree_frame lk obj obj'"
proof -
  have ok: "ext_ok env cli (oo_ext obj x)" using assms(1,3) by (simp add: tree_inv_def)
  then have st: "oe_state (oo_ext obj x) = OES_ACTIVE"
    using assms(4) by (cases "oe_state (oo_ext obj x)") (auto simp: ext_ok_def sane_iff state_code_def split: if_splits)
  have gz: "oe_grants (oo_ext obj x) \<noteq> 0" and r: "oe_users (oo_ext obj x) < oe_refc (oo_ext obj x)"
    using ok st by (simp_all add: ext_ok_def)
  consider (shared) "1 < oe_users (oo_ext obj x)" | (trunc) "oe_users (oo_ext obj x) = 1" "oe_trunc_pending (oo_ext obj x)"
    | (last) "oe_users (oo_ext obj x) = 1" "\<not> oe_trunc_pending (oo_ext obj x)"
    using assms(4) by fastforce
  then show ?thesis
  proof cases
    case shared
    then show ?thesis using release_shared [OF assms(1,3) shared gz r] by (auto simp: release_kept_def)
  next
    case trunc
    then show ?thesis using release_truncating [OF assms(1,3) trunc st gz] r by (auto simp: release_kept_def)
  next
    case last
    then show ?thesis using release_unshared [OF assms(1-3) last st gz assms(5)] r by (auto simp: release_kept_def)
  qed
qed

end
