(* ===== verification/Osc_Find.thy ===== *)
theory Osc_Find
  imports Osc_Release
begin

text \<open>
  Finding the extent for a page (\<open>osc_extent_find\<close>): the walk over the tree never trips an assertion,
  settles on an extent that holds the page, keeps the tree in order and accounts for the grant. The
  lemmas follow the walk: what a pass starts from, the three ways a step can go, the creation of a
  new extent, and the whole call.
\<close>

section \<open>The chunk of a page\<close>

text \<open>The lock of the IO is aligned to chunks and holds the page; an RPC carries whole chunks.\<close>

definition lock_fits :: "osc_cli \<Rightarrow> osc_lock \<Rightarrow> pgoff \<Rightarrow> bool" where
  "lock_fits cli lk index \<longleftrightarrow>
     ppc cli dvd cld_start lk \<and> ppc cli dvd cld_end lk + 1 \<and> cld_start lk \<le> index \<and> index \<le> cld_end lk \<and>
     ppc cli dvd unat (cl_max_pages_per_rpc cli) \<and> 0 < unat (cl_max_pages_per_rpc cli)"

lemma slot_end_bounds:
  assumes "lock_fits cli lk index"
  shows "index \<le> slot_end cli lk index" and "ppc cli dvd slot_end cli lk index + 1"
    and "slot_end cli lk index - index div ppc cli * ppc cli < unat (cl_max_pages_per_rpc cli)"
    and "slot_end cli lk index \<le> cld_end lk"
proof -
  let ?m = "unat (cl_max_pages_per_rpc cli)" and ?p = "ppc cli"
  have m: "0 < ?m" "?p dvd ?m" using assms by (simp_all add: lock_fits_def)
  have b: "slot_end cli lk index = min (index div ?m * ?m + ?m - 1) (cld_end lk)"
    unfolding slot_end_def Let_def minus_mod_eq_div_mult ..
  have d: "?p dvd index div ?m * ?m" using m(2) by simp
  have lt: "index < index div ?m * ?m + ?m" using m(1) by (metis add.commute dividend_less_div_times)
  show "index \<le> slot_end cli lk index" "slot_end cli lk index \<le> cld_end lk"
    using assms lt by (auto simp: b lock_fits_def)
  have "?p dvd index div ?m * ?m + ?m - 1 + 1" using d m by simp
  then show "?p dvd slot_end cli lk index + 1"
    using assms by (auto simp: b lock_fits_def min_def)
  have "index div ?m * ?m \<le> index div ?p * ?p" by (rule dvd_le_div [OF d]) (metis div_times_less_eq_dividend)
  then show "slot_end cli lk index - index div ?p * ?p < ?m"
    using m(1) by (auto simp: b min_def)
qed

lemma cur_extent_range:
  assumes "lock_fits cli lk index"
  shows "oe_start (cur_extent cli lk index e) = index div ppc cli * ppc cli"
    and "oe_end (cur_extent cli lk index e) + 1 = (index div ppc cli + 1) * ppc cli"
    and "oe_end (cur_extent cli lk index e) \<le> slot_end cli lk index"
    and "cld_start lk \<le> oe_start (cur_extent cli lk index e)"
proof -
  let ?p = "ppc cli"
  have s: "cld_start lk \<le> index div ?p * ?p" using assms dvd_le_div by (simp add: lock_fits_def)
  then show 1: "oe_start (cur_extent cli lk index e) = index div ?p * ?p" by (simp add: cur_extent_def Let_def)
  have "(index div ?p + 1) * ?p \<le> slot_end cli lk index + 1"
    by (rule dvd_gt_div) (use slot_end_bounds [OF assms] in auto)
  moreover have "(index + ?p) div ?p * ?p - 1 + 1 = (index div ?p + 1) * ?p" using ppc_pos [of cli] by (simp add: div_add_self2 Suc_diff_Suc)
  ultimately show "oe_end (cur_extent cli lk index e) + 1 = (index div ?p + 1) * ?p"
      "oe_end (cur_extent cli lk index e) \<le> slot_end cli lk index"
    by (auto simp: cur_extent_def Let_def)
  show "cld_start lk \<le> oe_start (cur_extent cli lk index e)" using s 1 by simp
qed

lemma index_in_chunk:
  assumes "lock_fits cli lk index"
  shows "oe_start (cur_extent cli lk index e) \<le> index" and "index \<le> oe_end (cur_extent cli lk index e)"
proof -
  show "oe_start (cur_extent cli lk index e) \<le> index"
    using cur_extent_range(1) [OF assms, of e] by (metis div_times_less_eq_dividend)
  have "index < (index div ppc cli + 1) * ppc cli"
    by (metis add.commute dividend_less_div_times mult_Suc ppc_pos Suc_eq_plus1)
  then show "index \<le> oe_end (cur_extent cli lk index e)"
    using cur_extent_range(2) [OF assms, of e] by linarith
qed

lemma chunk_of_cur:
  assumes "lock_fits cli lk index" and "ext_ok env cli e"
  shows "oe_end e < oe_start (cur_extent cli lk index n) \<longleftrightarrow> oe_end e div ppc cli < index div ppc cli"
    and "oe_end (cur_extent cli lk index n) < oe_start e \<longleftrightarrow> index div ppc cli < oe_start e div ppc cli"
    and "oe_start e \<le> oe_start (cur_extent cli lk index n) \<longleftrightarrow> oe_start e div ppc cli \<le> index div ppc cli"
    and "oe_end (cur_extent cli lk index n) \<le> oe_end e \<longleftrightarrow> index div ppc cli \<le> oe_end e div ppc cli"
proof -
  note r = cur_extent_range(1,2) [OF assms(1), of n] and k = ext_ok_chunks [OF assms(2)]
  show "oe_end e < oe_start (cur_extent cli lk index n) \<longleftrightarrow> oe_end e div ppc cli < index div ppc cli"
    by (rule chunk_order [OF r(1) k(2) ppc_pos])
  show "oe_end (cur_extent cli lk index n) < oe_start e \<longleftrightarrow> index div ppc cli < oe_start e div ppc cli"
    by (rule chunk_order [OF k(1) r(2) ppc_pos])
  show "oe_start e \<le> oe_start (cur_extent cli lk index n) \<longleftrightarrow> oe_start e div ppc cli \<le> index div ppc cli"
    by (subst k(1), subst r(1)) simp
  have "oe_end (cur_extent cli lk index n) + 1 \<le> oe_end e + 1 \<longleftrightarrow> index div ppc cli + 1 \<le> oe_end e div ppc cli + 1"
    by (subst k(2), subst r(2)) (simp only: mult_le_cancel2 ppc_pos simp_thms)
  then show "oe_end (cur_extent cli lk index n) \<le> oe_end e \<longleftrightarrow> index div ppc cli \<le> oe_end e div ppc cli" by simp
qed

section \<open>What a pass starts from\<close>

text \<open>The DLM lock behind the lock of the IO covers its pages and lets the client write.\<close>

definition lock_covers :: "osc_env \<Rightarrow> osc_lock \<Rightarrow> bool" where
  "lock_covers env lk \<longleftrightarrow> mono (cl_offset env) \<and>
     (\<forall>l. ols_dlmlock lk = Some l \<longrightarrow> l_failed (dlm env l) \<or>
        l_start (dlm env l) \<le> cl_offset env (cld_start lk) \<and> cl_offset env (cld_end lk) \<le> l_end (dlm env l) \<and>
        l_can_write (dlm env l))"

definition grant_fits :: "osc_cli \<Rightarrow> u32 \<Rightarrow> osc_object \<Rightarrow> bool" where
  "grant_fits cli grants obj \<longleftrightarrow> chunksize cli \<noteq> 0 \<and>
     unat (chunksize cli) + unat (cl_extent_tax cli) \<le> unat grants \<and>
     ext_grants obj + unat grants + unat (cl_extent_tax cli) < 2 ^ 32"

definition find_pre :: "osc_env \<Rightarrow> osc_cli \<Rightarrow> osc_lock \<Rightarrow> pgoff \<Rightarrow> eref \<Rightarrow> u32 \<Rightarrow> osc_object \<Rightarrow> bool" where
  "find_pre env cli lk index c grants obj \<longleftrightarrow>
     tree_inv env cli obj \<and> rbtree (rb_insert_color env) (rb_erase env) \<and> lock_fits cli lk index \<and> lock_covers env lk \<and>
     locks_apart lk obj \<and> grant_fits cli grants obj \<and> \<not> on_link c obj \<and> oo_ext obj c = cur_extent cli lk index new_extent"

lemma cur_extent_simps [simp]:
  "oe_max_end (cur_extent cli lk index e) = slot_end cli lk index"
  "oe_mppr (cur_extent cli lk index e) = unat (cl_max_pages_per_rpc cli)"
  "oe_dlmlock (cur_extent cli lk index e) = ols_dlmlock lk" "oe_grants (cur_extent cli lk index e) = 0"
  "oe_refc (cur_extent cli lk index e) = oe_refc e" "oe_users (cur_extent cli lk index e) = oe_users e"
  "oe_intree (cur_extent cli lk index e) = oe_intree e" "oe_hp (cur_extent cli lk index e) = oe_hp e"
  "oe_fsync_wait (cur_extent cli lk index e) = oe_fsync_wait e" "oe_sync (cur_extent cli lk index e) = oe_sync e"
  "oe_nr_pages (cur_extent cli lk index e) = oe_nr_pages e" "oe_pages (cur_extent cli lk index e) = oe_pages e"
  "oe_state (cur_extent cli lk index e) = oe_state e"
  by (simp_all add: cur_extent_def Let_def)

lemma lock_code_inside:
  assumes "lock_covers env lk" and "oe_dlmlock e = ols_dlmlock lk" and "cld_start lk \<le> oe_start e" and "oe_max_end e \<le> cld_end lk"
  shows "lock_code env e = 0"
proof -
  have "cl_offset env (cld_start lk) \<le> cl_offset env (oe_start e)" "cl_offset env (oe_max_end e) \<le> cl_offset env (cld_end lk)"
    using assms(1,3,4) by (auto simp: lock_covers_def dest: monoD)
  then show ?thesis using assms(1,2) by (auto simp: lock_covers_def lock_code_iff intro: order_trans)
qed

lemma fresh_cur:
  assumes "lock_fits cli lk index" and "lock_covers env lk"
  shows "fresh_ext env cli (cur_extent cli lk index new_extent)"
proof -
  let ?e = "cur_extent cli lk index new_extent"
  note r = cur_extent_range [OF assms(1), of new_extent] and b = slot_end_bounds [OF assms(1)]
  have "lock_code env ?e = 0" by (rule lock_code_inside [OF assms(2)]) (use r(4) b(4) in simp_all)
  moreover have "oe_start ?e \<le> oe_end ?e" using index_in_chunk [OF assms(1)] order_trans by blast
  moreover have "oe_start ?e mod ppc cli = 0" "(oe_end ?e + 1) mod ppc cli = 0" by (simp_all only: r(1,2) mod_mult_self2_is_0)
  moreover have "(oe_max_end ?e + 1) mod ppc cli = 0" using b(2) by simp
  ultimately show ?thesis using r(3) b(3) r(1) by (simp add: fresh_ext_def) (simp add: new_extent_def)
qed

text \<open>An extent under another lock does not overlap the chunk and is in another slot.\<close>

lemma other_lock:
  assumes "find_pre env cli lk index c grants obj" and "y \<in> set (exts obj)" and "oe_dlmlock (oo_ext obj y) \<noteq> ols_dlmlock lk"
  shows "\<not> overlapped (oo_ext obj y) (oo_ext obj c)" and "oe_max_end (oo_ext obj y) \<noteq> slot_end cli lk index"
proof -
  let ?e = "oo_ext obj y"
  have p: "lock_fits cli lk index" "oo_ext obj c = cur_extent cli lk index new_extent" "ext_ok env cli ?e"
    and a: "oe_max_end ?e < cld_start lk \<or> cld_end lk < oe_start ?e"
    using assms by (simp_all add: find_pre_def tree_inv_def locks_apart_def)
  have e: "oe_start ?e \<le> oe_end ?e" "oe_end ?e \<le> oe_max_end ?e" using p(3) by (auto simp: ext_ok_def code_iffs)
  have c: "cld_start lk \<le> oe_start (oo_ext obj c)" "oe_end (oo_ext obj c) \<le> cld_end lk"
    "cld_start lk \<le> slot_end cli lk index" "slot_end cli lk index \<le> cld_end lk"
    using cur_extent_range(3,4) [OF p(1), of new_extent] slot_end_bounds(1,4) [OF p(1)] p(1,2)
    by (auto simp: lock_fits_def)
  show "\<not> overlapped ?e (oo_ext obj c)" using a c(1,2) e by (auto simp: overlapped_def)
  show "oe_max_end ?e \<noteq> slot_end cli lk index" using a c(3,4) e by auto
qed

text \<open>The walk starts so that only its first extent can begin at or before the chunk.\<close>

lemma from_search_split:
  assumes "ordered (oo_ext obj) (exts obj)"
  obtains pre where "exts obj = pre @ from_search obj s" and "\<forall>y \<in> set pre. oe_end (oo_ext obj y) < s"
    and "\<forall>y \<in> set (tl (from_search obj s)). s < oe_start (oo_ext obj y)"
proof (cases "osc_extent_search obj s")
  case None
  then have "\<forall>y \<in> set (tl (exts obj)). s < oe_start (oo_ext obj y)"
    using search_None [OF assms None] by (cases "exts obj") auto
  with None show thesis by (intro that [of "[]"]) (simp_all add: from_search_def)
next
  case (Some x)
  obtain pre post where p: "exts obj = pre @ x # post" "oe_start (oo_ext obj x) \<le> s" "\<forall>y \<in> set post. s < oe_start (oo_ext obj y)"
    using search_Some [OF assms Some] .
  have "x \<notin> set pre" using ordered_distinct [OF assms] p(1) by simp
  then have "from_search obj s = x # post" using Some p(1) by (simp add: from_search_def after_split)
  moreover have "\<forall>y \<in> set pre. oe_end (oo_ext obj y) < s" using assms p(1,2) by (auto simp: ordered_simps intro: less_le_trans)
  ultimately show thesis using p by (intro that [of pre]) simp_all
qed

section \<open>The walk\<close>

text \<open>
  The extent a walk settles on: active, under the lock, holding the whole chunk; the books say where
  the grant went. Each extent that a rear merge removed gives the caller one more extent tax.
\<close>

definition loop_found :: "osc_env \<Rightarrow> osc_cli \<Rightarrow> osc_lock \<Rightarrow> eref \<Rightarrow> u32 \<Rightarrow> osc_object \<Rightarrow> eref \<Rightarrow> u32 \<Rightarrow> osc_object \<Rightarrow> bool" where
  "loop_found env cli lk c grants obj x g obj' \<longleftrightarrow>
     tree_inv env cli obj' \<and> x \<in> set (exts obj') \<and> oe_state (oo_ext obj' x) = OES_ACTIVE \<and>
     oe_dlmlock (oo_ext obj' x) = ols_dlmlock lk \<and>
     oe_start (oo_ext obj' x) \<le> oe_start (oo_ext obj c) \<and> oe_end (oo_ext obj c) \<le> oe_end (oo_ext obj' x) \<and>
     oo_ext obj' c = oo_ext obj c \<and> x \<noteq> c \<and> tree_frame lk obj obj' \<and>
     length (exts obj') \<le> length (exts obj) \<and> length (exts obj) \<le> length (exts obj') + 1 \<and>
     ext_grants obj' + unat g = ext_grants obj + unat grants + (length (exts obj) - length (exts obj')) * unat (cl_extent_tax cli)"

lemma ext_grants_held [simp]: "ext_grants (held x obj) = ext_grants obj"
  by (simp add: ext_grants_def)

lemma cur_notin:
  assumes "find_pre env cli lk index c grants obj"
  shows "c \<notin> set (exts obj)"
proof -
  have "\<not> oe_intree (oo_ext obj c)" using assms by (simp add: find_pre_def) (simp add: new_extent_def)
  then show ?thesis using assms unfolding find_pre_def tree_inv_def by blast
qed

text \<open>An extent in the slot of the page grows by the chunk on either side.\<close>

lemma grown_slot:
  assumes pre: "find_pre env cli lk index c grants obj" and ab: "exts obj = pr @ x # post"
    and st: "oe_state (oo_ext obj x) = OES_CACHE" and lk: "oe_dlmlock (oo_ext obj x) = ols_dlmlock lk"
    and slot: "oe_max_end (oo_ext obj x) = slot_end cli lk index"
    and st': "s = min (oe_start (oo_ext obj x)) (oe_start (oo_ext obj c))" "t = max (oe_end (oo_ext obj x)) (oe_end (oo_ext obj c))"
    and room: "\<forall>y \<in> set pr. oe_end (oo_ext obj y) < s" "\<forall>y \<in> set post. t < oe_start (oo_ext obj y)"
  shows "tree_inv env cli (grown x s t (chunksize cli) obj)"
    and "ext_grants (grown x s t (chunksize cli) obj) + unat (grants - chunksize cli) = ext_grants obj + unat grants"
    and "tree_frame lk obj (grown x s t (chunksize cli) obj)"
proof -
  let ?e = "oo_ext obj x" and ?c = "oo_ext obj c"
  have inv: "tree_inv env cli obj" and fits: "lock_fits cli lk index" and cov: "lock_covers env lk"
    and c: "?c = cur_extent cli lk index new_extent"
    and g: "unat (chunksize cli) \<le> unat grants" "ext_grants obj + unat (chunksize cli) < 2 ^ 32"
    using pre by (simp_all add: find_pre_def grant_fits_def)
  have ok: "ext_ok env cli ?e" using inv ab by (simp add: tree_inv_def)
  then have m: "oe_mppr ?e = unat (cl_max_pages_per_rpc cli)" "oe_max_end ?e - oe_start ?e < oe_mppr ?e"
    "oe_start ?e mod ppc cli = 0" "(oe_end ?e + 1) mod ppc cli = 0" "oe_end ?e \<le> oe_max_end ?e" "lock_code env ?e = 0"
    using st by (auto simp: ext_ok_def code_iffs)
  have gz: "oe_grants ?e \<noteq> 0" using ok st by (auto simp: ext_ok_def code_iffs)
  note f = fresh_cur [OF fits cov, folded c, unfolded fresh_ext_def]
  have mx: "oe_max_end ?c = oe_max_end ?e" using slot c by simp
  have "s mod ppc cli = 0" "(t + 1) mod ppc cli = 0" using st' m(3,4) f by (auto simp: min_def max_def)
  moreover have "lock_code env (?e\<lparr>oe_start := s\<rparr>) = 0"
    using m(6) f lk c mx st' by (auto simp: lock_code_iff min_def)
  moreover have "t \<le> oe_max_end ?e" "oe_max_end ?e - s < oe_mppr ?e"
    using st' m(1,2,5) f mx by (auto simp: min_def max_def)
  ultimately have "tree_inv env cli (grown x s t (chunksize cli) obj) \<and>
      ext_grants (grown x s t (chunksize cli) obj) = ext_grants obj + unat (chunksize cli)"
    using tree_inv_grown [OF inv ab _ _ _ _ _ _ _ _ room] g(2) st st' gz by simp
  then show "tree_inv env cli (grown x s t (chunksize cli) obj)"
      "ext_grants (grown x s t (chunksize cli) obj) + unat (grants - chunksize cli) = ext_grants obj + unat grants"
    using u32_take [OF g(1)] by simp_all
  show "tree_frame lk obj (grown x s t (chunksize cli) obj)" using ab lk by (intro tree_frame_grown) simp_all
qed

text \<open>The state before the final hold decides.\<close>

lemma loop_found_held:
  assumes pre: "find_pre env cli lk index c grants obj" and inv: "tree_inv env cli obj1" and x: "x \<in> set (exts obj1)"
    and st: "oe_state (oo_ext obj1 x) \<in> {OES_ACTIVE, OES_CACHE}" "\<not> oe_fsync_wait (oo_ext obj1 x)"
    and lk: "oe_dlmlock (oo_ext obj1 x) = ols_dlmlock lk"
    and inside: "oe_start (oo_ext obj1 x) \<le> oe_start (oo_ext obj c)" "oe_end (oo_ext obj c) \<le> oe_end (oo_ext obj1 x)"
    and c: "oo_ext obj1 c = oo_ext obj c" and fr: "tree_frame lk obj obj1"
    and len: "length (exts obj1) \<le> length (exts obj)" "length (exts obj) \<le> length (exts obj1) + 1"
    and g: "ext_grants obj1 + unat g = ext_grants obj + unat grants + (length (exts obj) - length (exts obj1)) * unat (cl_extent_tax cli)"
  shows "osc_extent_hold x obj1 = Ret (held x obj1)" and "loop_found env cli lk c grants obj x g (held x obj1)"
proof -
  have "x \<noteq> c"
  proof
    assume "x = c"
    then have "oe_intree (oo_ext obj c)" using x c inv unfolding tree_inv_def by metis
    then show False using cur_notin [OF pre] pre unfolding find_pre_def tree_inv_def by blast
  qed
  then show "osc_extent_hold x obj1 = Ret (held x obj1)" "loop_found env cli lk c grants obj x g (held x obj1)"
    using tree_inv_held [OF inv x] st x lk inside c len g tree_frame_trans [OF fr tree_frame_held [OF x]] by (auto simp: loop_found_def)
qed

lemma loop_front:
  assumes pre: "find_pre env cli lk index c grants obj" and ab: "exts obj = pr @ x # post"
    and st: "oe_state (oo_ext obj x) = OES_CACHE" "\<not> oe_fsync_wait (oo_ext obj x)"
    and lk: "oe_dlmlock (oo_ext obj x) = ols_dlmlock lk" and slot: "oe_max_end (oo_ext obj x) = slot_end cli lk index"
    and after: "oe_end (oo_ext obj c) < oe_start (oo_ext obj x)" and room: "\<forall>y \<in> set pr. oe_end (oo_ext obj y) < oe_start (oo_ext obj c)"
  shows "\<exists>obj'. osc_extent_hold x (upd x (\<lambda>e. e\<lparr>oe_start := oe_start (oo_ext obj c), oe_grants := oe_grants e + chunksize cli\<rparr>) obj) = Ret obj' \<and>
    loop_found env cli lk c grants obj x (grants - chunksize cli) obj'"
proof -
  let ?s = "oe_start (oo_ext obj c)" and ?t = "oe_end (oo_ext obj x)"
  let ?o = "grown x ?s ?t (chunksize cli) obj"
  have ord: "ordered (oo_ext obj) (pr @ x # post)" using pre ab by (simp add: find_pre_def tree_inv_def)
  have c: "?s \<le> oe_end (oo_ext obj c)" using pre fresh_cur by (auto simp: find_pre_def fresh_ext_def)
  have ne: "c \<noteq> x" using cur_notin [OF pre] ab by auto
  have b: "?s = min (oe_start (oo_ext obj x)) ?s" "?t = max ?t (oe_end (oo_ext obj c))"
    using after c ord by (auto simp: ordered_simps)
  have r: "\<forall>y \<in> set post. ?t < oe_start (oo_ext obj y)" using ord by (simp add: ordered_simps)
  note g = grown_slot [OF pre ab st(1) lk slot b room r]
  have "osc_extent_hold x ?o = Ret (held x ?o) \<and> loop_found env cli lk c grants obj x (grants - chunksize cli) (held x ?o)"
    by (intro conjI loop_found_held [OF pre g(1)])
      (use st lk ne g(2,3) ab c after ord in \<open>simp_all add: grown_ext ordered_simps\<close>)
  then show ?thesis unfolding grow_start by blast
qed

lemma loop_rear:
  assumes pre: "find_pre env cli lk index c grants obj" and ab: "exts obj = pr @ x # post"
    and st: "oe_state (oo_ext obj x) = OES_CACHE" "\<not> oe_fsync_wait (oo_ext obj x)"
    and lk: "oe_dlmlock (oo_ext obj x) = ols_dlmlock lk" and slot: "oe_max_end (oo_ext obj x) = slot_end cli lk index"
    and before: "oe_end (oo_ext obj x) < oe_start (oo_ext obj c)" and room: "\<forall>y \<in> set post. oe_end (oo_ext obj c) < oe_start (oo_ext obj y)"
  shows "\<exists>nxt rc obj2 obj'.
    next_extent (upd x (\<lambda>e. e\<lparr>oe_end := oe_end (oo_ext obj c), oe_grants := oe_grants e + chunksize cli\<rparr>) obj) x = Ret nxt \<and>
    osc_extent_merge env cli x nxt (upd x (\<lambda>e. e\<lparr>oe_end := oe_end (oo_ext obj c), oe_grants := oe_grants e + chunksize cli\<rparr>) obj) =
      Ret (rc, obj2) \<and>
    osc_extent_hold x obj2 = Ret obj' \<and>
    loop_found env cli lk c grants obj x (grants - chunksize cli + (if rc = 0 then cl_extent_tax cli else 0)) obj'"
proof -
  let ?t = "oe_end (oo_ext obj c)" and ?s = "oe_start (oo_ext obj x)"
  let ?o = "grown x ?s ?t (chunksize cli) obj"
  have ord: "ordered (oo_ext obj) (pr @ x # post)" and slots: "slots_ok (oo_ext obj) (set (exts obj))"
    and rb: "rbtree (rb_insert_color env) (rb_erase env)" and it: "oe_intree (oo_ext obj x)"
    and gf: "ext_grants obj + unat grants + unat (cl_extent_tax cli) < 2 ^ 32"
    using pre ab by (simp_all add: find_pre_def tree_inv_def grant_fits_def)
  have c: "oe_start (oo_ext obj c) \<le> ?t" using pre fresh_cur by (auto simp: find_pre_def fresh_ext_def)
  have ne: "c \<noteq> x" "x \<notin> set pr" using cur_notin [OF pre] ab ordered_distinct [OF ord] by auto
  have sx: "?s \<le> oe_end (oo_ext obj x)" using ord by (simp add: ordered_simps)
  have b: "?s = min ?s (oe_start (oo_ext obj c))" "?t = max (oe_end (oo_ext obj x)) ?t" using before c sx by auto
  have r: "\<forall>y \<in> set pr. oe_end (oo_ext obj y) < ?s" using ord by (simp add: ordered_simps)
  note g = grown_slot [OF pre ab st(1) lk slot b r room]
  have nxt: "next_extent ?o x = Ret (head_of post)" using it ab ne(2) by (simp add: next_extent_def grown_ext after_split)
  have ab': "exts ?o = pr @ x # post" using ab by simp
  show ?thesis
  proof (cases "\<exists>v post'. post = v # post' \<and> mergeable cli (oo_ext ?o x) (oo_ext ?o v)")
    case False
    have "\<exists>rc. rc \<noteq> 0 \<and> osc_extent_merge env cli x (head_of post) ?o = Ret (rc, ?o)"
    proof (cases post)
      case Nil
      then show ?thesis using st by (simp add: head_of_def osc_extent_merge_def grown_ext)
    next
      case (Cons v post')
      have m: "\<not> mergeable cli (oo_ext ?o x) (oo_ext ?o v)" using False Cons by blast
      have d: "oe_max_end (oo_ext ?o x) = oe_max_end (oo_ext ?o v) \<Longrightarrow> oe_dlmlock (oo_ext ?o x) = oe_dlmlock (oo_ext ?o v)"
      proof -
        have "x \<in> set (exts ?o)" "v \<in> set (exts ?o)" using ab' Cons by simp_all
        moreover assume "oe_max_end (oo_ext ?o x) = oe_max_end (oo_ext ?o v)"
        ultimately show "oe_dlmlock (oo_ext ?o x) = oe_dlmlock (oo_ext ?o v)"
          using g(1) unfolding tree_inv_def slots_ok_def by blast
      qed
      have "oe_state (oo_ext ?o x) = OES_CACHE" using st by (simp add: grown_ext)
      from merge_refused [OF this m d] show ?thesis unfolding Cons head_of_def list.case .
    qed
    then obtain rc where rc: "rc \<noteq> 0" "osc_extent_merge env cli x (head_of post) ?o = Ret (rc, ?o)" by blast
    have "osc_extent_hold x ?o = Ret (held x ?o) \<and> loop_found env cli lk c grants obj x (grants - chunksize cli) (held x ?o)"
      by (intro conjI loop_found_held [OF pre g(1)])
        (use st lk ne g(2,3) ab c before sx in \<open>simp_all add: grown_ext\<close>)
    then show ?thesis unfolding grow_end nxt using rc
      by (intro exI [of _ "head_of post"] exI [of _ rc] exI [of _ ?o] exI [of _ "held x ?o"]) simp
  next
    case True
    then obtain v post' where v: "post = v # post'" "mergeable cli (oo_ext ?o x) (oo_ext ?o v)" by blast
    let ?o2 = "merged env x v ?o" and ?g = "grants - chunksize cli + cl_extent_tax cli"
    have nv: "x \<noteq> v" "c \<noteq> v" using ab v(1) ordered_distinct [OF ord] cur_notin [OF pre] by auto
    have gl: "ext_grants ?o < 2 ^ 32" using g(2) gf by linarith
    have sto: "oe_state (oo_ext ?o x) = OES_CACHE" using st(1) by (simp add: grown_ext)
    note m = tree_inv_merged [OF g(1) rb ab' [unfolded v(1)] disjI1 [OF conjI [OF refl refl]] sto v(2) gl]
    have fr: "tree_frame lk obj ?o2" by (rule tree_frame_trans [OF g(3) m(5)])
    have ext2: "oo_ext ?o2 x = absorb (oo_ext ?o v) (oo_ext ?o x)" "oo_ext ?o2 c = oo_ext obj c"
      using nv ne by (simp_all add: merged_def grown_ext)
    have "unat (grants - chunksize cli) + unat (cl_extent_tax cli) < 2 ^ 32" using g(2) gf by linarith
    then have "unat ?g = unat (grants - chunksize cli) + unat (cl_extent_tax cli)" by (rule unat_u32_plus)
    then have "ext_grants ?o2 + unat ?g = ext_grants obj + unat grants + (length (exts obj) - length (exts ?o2)) * unat (cl_extent_tax cli)"
      using m(3,4) g(2) ab v(1) by simp
    then have "osc_extent_hold x ?o2 = Ret (held x ?o2) \<and> loop_found env cli lk c grants obj x ?g (held x ?o2)"
      by (intro conjI loop_found_held [OF pre m(2)])
        (use st lk ne ab c before sx m(3) v(1) fr in \<open>simp_all add: ext2 grown_ext absorb_def\<close>)
    then show ?thesis unfolding grow_end nxt using m(1) v(1)
      by (intro exI [of _ "head_of post"] exI [of _ 0] exI [of _ ?o2] exI [of _ "held x ?o2"]) (simp add: head_of_def)
  qed
qed

definition in_the_way :: "osc_object \<Rightarrow> eref \<Rightarrow> eref \<Rightarrow> bool" where
  "in_the_way obj c x \<longleftrightarrow> x \<in> set (exts obj) \<and> oe_start (oo_ext obj x) \<le> oe_start (oo_ext obj c) \<and>
     oe_end (oo_ext obj c) \<le> oe_end (oo_ext obj x) \<and> (oe_state (oo_ext obj x) > OES_CACHE \<or> oe_fsync_wait (oo_ext obj x))"

definition loop_ok :: "osc_env \<Rightarrow> osc_cli \<Rightarrow> osc_lock \<Rightarrow> eref \<Rightarrow> u32 \<Rightarrow> osc_object \<Rightarrow> (find_result \<times> u32 \<times> osc_object) outcome \<Rightarrow> bool" where
  "loop_ok env cli lk c grants obj r \<longleftrightarrow>
     r = Ret (Absent, grants, obj) \<and> (\<forall>y \<in> set (exts obj). apart_from (oo_ext obj) c y) \<or>
     (\<exists>x. r = Ret (Conflict x, grants, upd x (\<lambda>e. e\<lparr>oe_refc := oe_refc e + 1\<rparr>) obj) \<and> in_the_way obj c x) \<or>
     (\<exists>x g obj'. r = Ret (Found x, g, obj') \<and> loop_found env cli lk c grants obj x g obj')"

lemma loop_ok_cases:
  "(\<forall>y \<in> set (exts obj). apart_from (oo_ext obj) c y) \<Longrightarrow> loop_ok env cli lk c grants obj (Ret (Absent, grants, obj))"
  "in_the_way obj c x \<Longrightarrow> loop_ok env cli lk c grants obj (Ret (Conflict x, grants, upd x (\<lambda>e. e\<lparr>oe_refc := oe_refc e + 1\<rparr>) obj))"
  "loop_found env cli lk c grants obj x g obj' \<Longrightarrow> loop_ok env cli lk c grants obj (Ret (Found x, g, obj'))"
  by (auto simp: loop_ok_def)

text \<open>The three ways a step of the walk can go: past the extent, onto it, or growing it.\<close>

lemma step_hit:
  assumes pre: "find_pre env cli lk index c grants obj" and x: "x \<in> set (exts obj)"
    and near: "\<not> index div ppc cli > oe_end (oo_ext obj x) div ppc cli + 1" and lk: "oe_dlmlock (oo_ext obj x) = ols_dlmlock lk"
    and ov: "overlapped (oo_ext obj x) (oo_ext obj c)"
  shows "loop_ok env cli lk c grants obj (find_loop env cli lk (oo_ext obj c) (index div ppc cli) (x # xs) grants obj)"
proof -
  let ?e = "oo_ext obj x" and ?c = "oo_ext obj c"
  have ok: "ext_ok env cli ?e" and fits: "lock_fits cli lk index" and c: "?c = cur_extent cli lk index new_extent"
    using pre x by (simp_all add: find_pre_def tree_inv_def)
  then have sane: "osc_extent_sanity_check0 env ?e = 0" "0 < oe_refc ?e" "oe_state ?e \<noteq> OES_INV"
    using sane_refc by (auto simp: ext_ok_def)
  note chunk = chunk_of_cur [OF fits ok, of new_extent, folded c]
  have inside: "oe_start ?e \<le> oe_start ?c" "oe_end ?c \<le> oe_end ?e" and n: "\<not> index div ppc cli + 1 < oe_start ?e div ppc cli"
    using ov chunk by (auto simp: overlapped_def)
  show ?thesis
  proof (cases "oe_state ?e > OES_CACHE \<or> oe_fsync_wait ?e")
    case True
    then have "in_the_way obj c x" using x inside by (simp add: in_the_way_def)
    then show ?thesis using True ov lk near n sane inside by (simp add: Let_def osc_extent_get_def loop_ok_cases)
  next
    case False
    then have st: "oe_state ?e \<in> {OES_ACTIVE, OES_CACHE}" "\<not> oe_fsync_wait ?e"
      using sane(3) by (cases "oe_state ?e"; simp add: less_oes_def)+
    have "osc_extent_hold x obj = Ret (held x obj) \<and> loop_found env cli lk c grants obj x grants (held x obj)"
      by (intro conjI loop_found_held [OF pre]) (use pre x st lk inside in \<open>simp_all add: find_pre_def\<close>)
    then show ?thesis using False ov lk near n sane inside by (simp add: Let_def loop_ok_cases)
  qed
qed

lemma front_room:
  assumes pre: "find_pre env cli lk index c grants obj" and ab: "exts obj = pr @ x # xs"
    and apart: "\<forall>y \<in> set pr. apart_from (oo_ext obj) c y" and front: "oe_start (oo_ext obj x) div ppc cli = index div ppc cli + 1"
  shows "\<forall>y \<in> set pr. oe_end (oo_ext obj y) < oe_start (oo_ext obj c)"
proof
  let ?E = "oo_ext obj"
  fix y assume y: "y \<in> set pr"
  have fits: "lock_fits cli lk index" and c: "?E c = cur_extent cli lk index new_extent"
    and ok: "ext_ok env cli (?E x)" "ext_ok env cli (?E y)" and ord: "ordered ?E (pr @ x # xs)"
    using pre ab y by (simp_all add: find_pre_def tree_inv_def)
  have "oe_end (?E y) < oe_start (?E x)" using ord y by (simp add: ordered_simps)
  then have a: "oe_end (?E y) div ppc cli < index div ppc cli + 1"
    using chunk_order [OF ext_ok_chunks(1) [OF ok(1)] ext_ok_chunks(2) [OF ok(2)] ppc_pos] front by simp
  have "oe_start (?E y) \<le> oe_end (?E y)" using ord y by (simp add: ordered_def)
  then have "oe_start (?E y) div ppc cli \<le> oe_end (?E y) div ppc cli" by (rule div_le_mono)
  then have "\<not> oe_end (?E c) < oe_start (?E y)" using a chunk_of_cur(2) [OF fits ok(2), of new_extent, folded c] by simp
  then show "oe_end (?E y) < oe_start (?E c)" using apart y by (auto simp: apart_from_def)
qed

lemma step_grow:
  assumes pre: "find_pre env cli lk index c grants obj" and ab: "exts obj = pr @ x # xs"
    and apart: "\<forall>y \<in> set pr. apart_from (oo_ext obj) c y" and later: "\<forall>y \<in> set xs. oe_end (oo_ext obj c) < oe_start (oo_ext obj y)"
    and near: "\<not> index div ppc cli > oe_end (oo_ext obj x) div ppc cli + 1" "\<not> index div ppc cli + 1 < oe_start (oo_ext obj x) div ppc cli"
    and lk: "oe_dlmlock (oo_ext obj x) = ols_dlmlock lk" and ov: "\<not> overlapped (oo_ext obj x) (oo_ext obj c)"
    and st: "oe_state (oo_ext obj x) = OES_CACHE" "\<not> oe_fsync_wait (oo_ext obj x)" "oe_max_end (oo_ext obj x) = oe_max_end (oo_ext obj c)"
  shows "loop_ok env cli lk c grants obj (find_loop env cli lk (oo_ext obj c) (index div ppc cli) (x # xs) grants obj)"
proof -
  let ?e = "oo_ext obj x" and ?c = "oo_ext obj c" and ?chunk = "index div ppc cli"
  have ok: "ext_ok env cli ?e" and fits: "lock_fits cli lk index" and c: "?c = cur_extent cli lk index new_extent"
    and ord: "ordered (oo_ext obj) (pr @ x # xs)"
    using pre ab by (simp_all add: find_pre_def tree_inv_def)
  have sane: "osc_extent_sanity_check0 env ?e = 0" "oe_start ?e mod ppc cli = 0" using ok by (simp_all add: ext_ok_def)
  have "oe_start ?e \<le> oe_end ?e" using ord by (simp add: ordered_simps)
  then have se: "oe_start ?e div ppc cli \<le> oe_end ?e div ppc cli" by (rule div_le_mono)
  have slot: "oe_max_end ?e = slot_end cli lk index" using st(3) c by simp
  note chunk = chunk_of_cur [OF fits ok, of new_extent, folded c]
  consider "oe_start ?e div ppc cli = ?chunk + 1" | "?chunk = oe_end ?e div ppc cli + 1"
    using ov near chunk(1,2) by (fastforce simp: overlapped_def)
  then show ?thesis
  proof cases
    case 1
    then have a: "oe_end ?c < oe_start ?e" using chunk(2) by simp
    from loop_front [OF pre ab st(1,2) lk slot a front_room [OF pre ab apart 1]]
    show ?thesis using 1 st lk near ov sane by (auto simp: Let_def loop_ok_cases)
  next
    case 2
    then have b: "oe_end ?e < oe_start ?c" using chunk(1) by simp
    from loop_rear [OF pre ab st(1,2) lk slot b later]
    show ?thesis using 2 st lk near ov sane se by (auto simp: Let_def loop_ok_cases)
  qed
qed

lemma find_loop_ok:
  assumes pre: "find_pre env cli lk index c grants obj"
  shows "exts obj = pr @ vs \<Longrightarrow> \<forall>y \<in> set pr. apart_from (oo_ext obj) c y \<Longrightarrow>
    \<forall>y \<in> set (tl vs). oe_start (oo_ext obj c) < oe_start (oo_ext obj y) \<Longrightarrow>
    loop_ok env cli lk c grants obj (find_loop env cli lk (oo_ext obj c) (index div ppc cli) vs grants obj)"
proof (induction vs arbitrary: pr)
  case Nil
  then show ?case by (simp add: loop_ok_cases)
next
  case (Cons x xs)
  let ?E = "oo_ext obj" let ?e = "?E x" and ?c = "?E c" and ?chunk = "index div ppc cli"
  let ?loop = "\<lambda>vs. find_loop env cli lk ?c ?chunk vs grants obj"
  have fits: "lock_fits cli lk index" and c: "?c = cur_extent cli lk index new_extent"
    and oks: "\<forall>y \<in> set (exts obj). ext_ok env cli (?E y)" and x: "x \<in> set (exts obj)"
    using pre Cons.prems(1) by (simp_all add: find_pre_def tree_inv_def)
  have ok: "ext_ok env cli ?e" using oks x by simp
  then have sane: "osc_extent_sanity_check0 env ?e = 0" by (simp add: ext_ok_def)
  note chunk = chunk_of_cur [OF fits ok, of new_extent, folded c]
  have later: "\<forall>y \<in> set xs. oe_end ?c < oe_start (?E y)"
  proof
    fix y assume y: "y \<in> set xs"
    then have "ext_ok env cli (?E y)" "oe_start ?c < oe_start (?E y)" using oks Cons.prems(1,3) by simp_all
    then show "oe_end ?c < oe_start (?E y)" using chunk_of_cur(2,3) [OF fits, of env "?E y" new_extent, folded c] by simp
  qed
  have ov: "overlapped ?e ?c \<longleftrightarrow> \<not> apart_from ?E c x" by (auto simp: overlapped_def apart_from_def)
  have skip: "loop_ok env cli lk c grants obj (?loop xs)" if "\<not> overlapped ?e ?c"
  proof (rule Cons.IH [of "pr @ [x]"])
    show "\<forall>y \<in> set (tl xs). oe_start ?c < oe_start (?E y)" using Cons.prems(3) by (cases xs) simp_all
  qed (use Cons.prems that ov in simp_all)
  consider (far) "?chunk > oe_end ?e div ppc cli + 1"
    | (pass) "\<not> ?chunk > oe_end ?e div ppc cli + 1" "ols_dlmlock lk \<noteq> oe_dlmlock ?e \<or> ?chunk + 1 < oe_start ?e div ppc cli"
    | (near) "\<not> ?chunk > oe_end ?e div ppc cli + 1" "oe_dlmlock ?e = ols_dlmlock lk" "\<not> ?chunk + 1 < oe_start ?e div ppc cli"
    by fastforce
  then show ?case
  proof cases
    case far
    then have "\<forall>y \<in> set (exts obj). apart_from ?E c y" using chunk(1) Cons.prems(1,2) later by (auto simp: apart_from_def)
    then show ?thesis using far sane by (simp add: loop_ok_cases Let_def)
  next
    case pass
    then have "\<not> overlapped ?e ?c" using other_lock(1) [OF pre x] chunk(2) by (auto simp: overlapped_def)
    then show ?thesis using pass sane skip by (auto simp: Let_def)
  next
    case near
    consider (hit) "overlapped ?e ?c" | (grow) "\<not> overlapped ?e ?c" "oe_state ?e = OES_CACHE" "\<not> oe_fsync_wait ?e" "oe_max_end ?e = oe_max_end ?c"
      | (useless) "\<not> overlapped ?e ?c" "oe_state ?e \<noteq> OES_CACHE \<or> oe_fsync_wait ?e \<or> oe_max_end ?e \<noteq> oe_max_end ?c"
      by blast
    then show ?thesis
    proof cases
      case hit then show ?thesis by (rule step_hit [OF pre x near(1,2)])
    next
      case grow then show ?thesis by (rule step_grow [OF pre Cons.prems(1,2) later near(1,3,2)])
    next
      case useless then show ?thesis using near sane skip by (auto simp: Let_def)
    qed
  qed
qed

section \<open>References\<close>

text \<open>Extents outside the tree do not matter to it.\<close>

lemma tree_inv_frame:
  assumes "tree_inv env cli obj" and "\<forall>y \<in> set (exts obj). E y = oo_ext obj y" and "\<forall>y. y \<notin> set (exts obj) \<longrightarrow> \<not> oe_intree (E y)"
  shows "tree_inv env cli (obj\<lparr>oo_ext := E\<rparr>)" and "ext_grants (obj\<lparr>oo_ext := E\<rparr>) = ext_grants obj"
proof -
  have e: "exts (obj\<lparr>oo_ext := E\<rparr>) = exts obj" by (simp add: exts_def)
  have it: "oe_intree (E y) \<longleftrightarrow> y \<in> set (exts obj)" for y
    using assms unfolding tree_inv_def by metis
  have "ordered E (exts obj) = ordered (oo_ext obj) (exts obj)" by (rule ordered_cong) (use assms(2) in simp)
  moreover have "slots_ok E (set (exts obj))"
    by (rule slots_ok_cong [of "oo_ext obj" "set (exts obj)"]) (use assms in \<open>simp_all add: tree_inv_def\<close>)
  moreover have "cached_pages (obj\<lparr>oo_ext := E\<rparr>) (exts obj) = cached_pages obj (exts obj)"
    unfolding cached_pages_def by (rule arg_cong [where f = sum_list]) (use assms(2) in simp)
  ultimately show "tree_inv env cli (obj\<lparr>oo_ext := E\<rparr>)"
    using assms it by (simp add: tree_inv_def e links_ok_def)
  show "ext_grants (obj\<lparr>oo_ext := E\<rparr>) = ext_grants obj"
    unfolding ext_grants_def e by (rule arg_cong [where f = sum_list]) (use assms(2) in simp)
qed

section \<open>The whole search\<close>

definition created :: "osc_env \<Rightarrow> osc_cli \<Rightarrow> osc_lock \<Rightarrow> eref \<Rightarrow> u32 \<Rightarrow> osc_object \<Rightarrow> u32 \<Rightarrow> osc_object \<Rightarrow> bool" where
  "created env cli lk c grants obj g obj' \<longleftrightarrow> tree_inv env cli obj' \<and> set (exts obj') = insert c (set (exts obj)) \<and>
     locks_apart lk obj' \<and>
     oo_ext obj' = (oo_ext obj)(c := (oo_ext obj c)\<lparr>oe_grants := chunksize cli + cl_extent_tax cli, oe_state := OES_ACTIVE,
       oe_users := 1, oe_refc := 3, oe_intree := True\<rparr>) \<and>
     length (exts obj) \<le> length (exts obj') \<and> ext_grants obj' + unat g = ext_grants obj + unat grants"

lemma find_create:
  assumes pre: "find_pre env cli lk index c grants obj" and apart: "\<forall>y \<in> set (exts obj). apart_from (oo_ext obj) c y"
  defines "g \<equiv> chunksize cli + cl_extent_tax cli"
  shows "\<exists>obj'. bindO (osc_extent_hold c (upd c (\<lambda>e. e\<lparr>oe_grants := g, oe_state := OES_CACHE\<rparr>) obj)) (osc_extent_insert env c) = Ret obj' \<and>
    created env cli lk c grants obj (grants - g) obj'"
proof -
  let ?c = "oo_ext obj c"
  have inv: "tree_inv env cli obj" and rb: "rbtree (rb_insert_color env) (rb_erase env)" and fits: "lock_fits cli lk index"
    and cov: "lock_covers env lk" and gf: "grant_fits cli grants obj" and c: "?c = cur_extent cli lk index new_extent"
    and la: "locks_apart lk obj"
    using pre by (simp_all add: find_pre_def)
  have "unat (chunksize cli) + unat (cl_extent_tax cli) < 2 ^ 32" and cz: "chunksize cli \<noteq> 0" using gf unfolding grant_fits_def by (linarith, blast)
  then have gz: "g \<noteq> 0" unfolding g_def by (intro u32_sum_nonzero)
  have slot: "\<forall>y \<in> set (exts obj). oe_max_end (oo_ext obj y) = oe_max_end ?c \<longrightarrow> oe_dlmlock (oo_ext obj y) = oe_dlmlock ?c"
    using other_lock(2) [OF pre] c by auto
  obtain obj' where o: "bindO (osc_extent_hold c (upd c (\<lambda>e. e\<lparr>oe_grants := g, oe_state := OES_CACHE\<rparr>) obj)) (osc_extent_insert env c) = Ret obj'"
    "tree_inv env cli obj'" "c \<in> set (exts obj')" "ext_grants obj' = ext_grants obj + unat g"
    "oo_ext obj' = (oo_ext obj)(c := ?c\<lparr>oe_grants := g, oe_state := OES_ACTIVE, oe_users := 1, oe_refc := 3, oe_intree := True\<rparr>)"
    using tree_inv_inserted [OF inv rb fresh_cur [OF fits cov, folded c] apart slot gz] by (elim exE conjE)
  have "unat (chunksize cli) + unat (cl_extent_tax cli) < 2 ^ 32" using gf unfolding grant_fits_def by linarith
  then have "unat g \<le> unat grants" using gf unat_u32_plus unfolding grant_fits_def g_def by metis
  then have g: "unat (grants - g) + unat g = unat grants" by (rule u32_take)
  have ex: "set (exts obj') = insert c (set (exts obj))"
  proof -
    have "y \<in> set (exts obj') \<longleftrightarrow> oe_intree (oo_ext obj' y)" "y \<in> set (exts obj) \<longleftrightarrow> oe_intree (oo_ext obj y)" for y
      using inv o(2) by (simp_all add: tree_inv_def)
    then show ?thesis using o(5) by (auto split: if_splits)
  qed
  have "locks_apart lk obj'" using la c by (auto simp: locks_apart_def ex o(5))
  moreover have "distinct (exts obj)" "distinct (exts obj')" using inv o(2) ordered_distinct by (auto simp: tree_inv_def)
  then have "length (exts obj) \<le> length (exts obj')" using ex by (metis List.finite_set card_mono distinct_card subset_insertI)
  ultimately have "created env cli lk c grants obj (grants - g) obj'" using o(2-5) g ex by (simp add: created_def g_def)
  with o(1) show ?thesis by (intro exI conjI)
qed

lemma find_pass_ok:
  assumes pre: "find_pre env cli lk index c grants obj"
  obtains (conflict) x where "find_pass env cli lk index c grants obj = Ret (Conflict x, grants, upd x (\<lambda>e. e\<lparr>oe_refc := oe_refc e + 1\<rparr>) obj)"
      "in_the_way obj c x"
    | (found) x g obj' where "find_pass env cli lk index c grants obj = Ret (Found x, g, obj')" "loop_found env cli lk c grants obj x g obj'"
    | (created) g obj' where "find_pass env cli lk index c grants obj = Ret (Found c, g, obj')" "created env cli lk c grants obj g obj'"
proof -
  let ?c = "oo_ext obj c"
  let ?loop = "find_loop env cli lk ?c (index div ppc cli) (from_search obj (oe_start ?c)) grants obj"
  have ord: "ordered (oo_ext obj) (exts obj)" and c: "?c = cur_extent cli lk index new_extent"
    using pre by (simp_all add: find_pre_def tree_inv_def)
  obtain pr where pr: "exts obj = pr @ from_search obj (oe_start ?c)" "\<forall>y \<in> set pr. oe_end (oo_ext obj y) < oe_start ?c"
    "\<forall>y \<in> set (tl (from_search obj (oe_start ?c))). oe_start ?c < oe_start (oo_ext obj y)"
    by (rule from_search_split [OF ord])
  have "loop_ok env cli lk c grants obj ?loop"
    by (rule find_loop_ok [OF pre pr(1) _ pr(3)]) (use pr(2) in \<open>simp add: apart_from_def\<close>)
  then consider (1) "?loop = Ret (Absent, grants, obj)" "\<forall>y \<in> set (exts obj). apart_from (oo_ext obj) c y"
    | (2) x where "?loop = Ret (Conflict x, grants, upd x (\<lambda>e. e\<lparr>oe_refc := oe_refc e + 1\<rparr>) obj)" "in_the_way obj c x"
    | (3) x g obj' where "?loop = Ret (Found x, g, obj')" "loop_found env cli lk c grants obj x g obj'"
    unfolding loop_ok_def by blast
  then show thesis
  proof cases
    case 1
    have "\<not> osc_extent_is_overlapped env c obj"
      using 1(2) by (auto simp: osc_extent_is_overlapped_def list_ex_iff apart_from_def)
    with 1(1) find_create [OF pre 1(2)] show thesis by (auto simp: find_pass_def Let_def intro: created)
  next
    case 2
    show thesis by (rule conflict) (use 2 in \<open>simp_all add: find_pass_def\<close>)
  next
    case 3
    show thesis by (rule found) (use 3 c in \<open>simp_all add: find_pass_def loop_found_def\<close>)
  qed
qed

text \<open>The reference of the caller on the extent it allocated goes away.\<close>

lemma put_unused:
  assumes "tree_inv env cli obj" and "oo_ext obj c = cur_extent cli lk index new_extent" and "\<not> on_link c obj"
  shows "\<exists>E. osc_extent_put c obj = Ret (obj\<lparr>oo_ext := E\<rparr>) \<and> tree_inv env cli (obj\<lparr>oo_ext := E\<rparr>) \<and>
    ext_grants (obj\<lparr>oo_ext := E\<rparr>) = ext_grants obj \<and> (\<forall>y. y \<noteq> c \<longrightarrow> E y = oo_ext obj y)"
proof -
  let ?E = "(oo_ext obj)(c := (oo_ext obj c)\<lparr>oe_refc := 0, oe_dlmlock := None\<rparr>)"
  have n: "oe_refc (oo_ext obj c) = 1" "oe_users (oo_ext obj c) = 0" "\<not> oe_intree (oo_ext obj c)" "oe_state (oo_ext obj c) = OES_INV"
    using assms(2) by (simp_all add: new_extent_def)
  have c: "c \<notin> set (exts obj)" using assms(1) n(3) unfolding tree_inv_def by blast
  have "osc_extent_put c obj = Ret (obj\<lparr>oo_ext := ?E\<rparr>)"
    using n assms(3) by (simp add: osc_extent_put_def upd_def)
  moreover have "\<forall>y \<in> set (exts obj). ?E y = oo_ext obj y" using c by auto
  moreover have "\<forall>y. y \<notin> set (exts obj) \<longrightarrow> \<not> oe_intree (?E y)" using assms(1) n(3) by (auto simp: tree_inv_def)
  ultimately show ?thesis using tree_inv_frame [OF assms(1), of ?E] by (intro exI [of _ ?E]) simp
qed

definition find_done ::
  "osc_env \<Rightarrow> osc_cli \<Rightarrow> osc_lock \<Rightarrow> pgoff \<Rightarrow> u32 \<Rightarrow> osc_object \<Rightarrow> eref \<Rightarrow> u32 \<Rightarrow> osc_object \<Rightarrow> bool" where
  "find_done env cli lk index grants obj x g obj' \<longleftrightarrow>
     tree_inv env cli obj' \<and> x \<in> set (exts obj') \<and> oe_state (oo_ext obj' x) = OES_ACTIVE \<and> oe_users (oo_ext obj' x) > 0 \<and>
     oe_dlmlock (oo_ext obj' x) = ols_dlmlock lk \<and> oe_start (oo_ext obj' x) \<le> index \<and> index \<le> oe_end (oo_ext obj' x) \<and>
     ext_grants obj' + unat g = ext_grants obj + unat grants + (length (exts obj) - length (exts obj')) * unat (cl_extent_tax cli) \<and>
     length (exts obj) \<le> length (exts obj') + 1 \<and> ext_pages obj' = ext_pages obj \<and> locks_apart lk obj' \<and>
     (\<forall>s. srv_all s obj \<longrightarrow> (\<forall>y \<in> set (exts obj'). y \<noteq> x \<longrightarrow> oe_srvlock (oo_ext obj' y) = s) \<and>
       (oe_nr_pages (oo_ext obj' x) = 0 \<or> oe_srvlock (oo_ext obj' x) = s))"

lemma active_used: "tree_inv env cli obj \<Longrightarrow> x \<in> set (exts obj) \<Longrightarrow> oe_state (oo_ext obj x) = OES_ACTIVE \<Longrightarrow> 0 < oe_users (oo_ext obj x)"
  by (fastforce simp: tree_inv_def ext_ok_def code_iffs)

lemma find_passes_ok:
  assumes pre: "find_pre env cli lk index c grants obj"
  shows "find_passes env cli lk index c grants [] obj = None \<and> (\<exists>x. in_the_way obj c x) \<or>
    (\<exists>x g obj'. find_passes env cli lk index c grants [] obj = Some (Ret (Inr x, g, obj')) \<and> find_done env cli lk index grants obj x g obj')"
  using pre
proof (cases rule: find_pass_ok)
  case (conflict x)
  then show ?thesis by auto
next
  case (found x g obj')
  have c: "oo_ext obj c = cur_extent cli lk index new_extent" "lock_fits cli lk index" "\<not> on_link c obj"
    using pre by (simp_all add: find_pre_def)
  have f: "tree_inv env cli obj'" "x \<in> set (exts obj')" "oe_state (oo_ext obj' x) = OES_ACTIVE" "x \<noteq> c"
    "oo_ext obj' c = oo_ext obj c" "\<not> on_link c obj'"
    using found(2) c(3) cur_notin [OF pre] by (auto simp: loop_found_def tree_frame_def)
  obtain E where E: "osc_extent_put c obj' = Ret (obj'\<lparr>oo_ext := E\<rparr>)" "tree_inv env cli (obj'\<lparr>oo_ext := E\<rparr>)"
    "ext_grants (obj'\<lparr>oo_ext := E\<rparr>) = ext_grants obj'" "\<forall>y. y \<noteq> c \<longrightarrow> E y = oo_ext obj' y"
    using put_unused [OF f(1) f(5) [unfolded c(1)] f(6)] by blast
  have ex: "exts (obj'\<lparr>oo_ext := E\<rparr>) = exts obj'" by (simp add: exts_def)
  have nc: "c \<notin> set (exts obj')" using found(2) cur_notin [OF pre] by (auto simp: loop_found_def tree_frame_def)
  then have same: "y \<in> set (exts obj') \<Longrightarrow> E y = oo_ext obj' y" for y using E(4) by metis
  then have "ext_pages (obj'\<lparr>oo_ext := E\<rparr>) = ext_pages obj'" "locks_apart lk (obj'\<lparr>oo_ext := E\<rparr>) = locks_apart lk obj'"
    by (simp_all add: ext_pages_def locks_apart_def ex)
  moreover have "ext_pages obj' = ext_pages obj" "locks_apart lk obj'" "\<forall>s. srv_all s obj \<longrightarrow> srv_all s obj'"
    using found(2) pre by (auto simp: loop_found_def tree_frame_def find_pre_def)
  ultimately have "find_done env cli lk index grants obj x g (obj'\<lparr>oo_ext := E\<rparr>)"
    using found(2) E(2,3) same f active_used [OF f(1-3)] index_in_chunk [OF c(2), of new_extent, folded c(1)]
    by (simp add: find_done_def loop_found_def ex srv_all_def)
  then show ?thesis using found(1) E(1) by auto
next
  case (created g obj')
  have c: "oo_ext obj c = cur_extent cli lk index new_extent" "lock_fits cli lk index" using pre by (simp_all add: find_pre_def)
  let ?o = "upd c (\<lambda>e. e\<lparr>oe_refc := 2\<rparr>) obj'"
  have e: "tree_inv env cli obj'" "c \<in> set (exts obj')" "oe_refc (oo_ext obj' c) = 3" "oe_users (oo_ext obj' c) = 1"
    using created(2) by (simp_all add: created_def)
  have nc: "c \<notin> set (exts obj)" by (rule cur_notin [OF pre])
  have "osc_extent_put c obj' = Ret ?o" using e(3) by (simp add: osc_extent_put_def upd_def)
  moreover have "find_done env cli lk index grants obj c g ?o"
  proof -
    have x: "exts ?o = exts obj'" by (simp add: exts_def upd_def)
    have "tree_inv env cli ?o" "ext_grants ?o = ext_grants obj'"
      using tree_inv_refc [OF e(1,2), of 2] e(4) by simp_all
    moreover have "oe_pages (oo_ext obj c) = []" "oe_nr_pages (oo_ext obj c) = 0" using c(1) by (simp_all add: new_extent_def)
    then have p: "set (oe_pages (oo_ext ?o y)) = (if y = c then {} else set (oe_pages (oo_ext obj y)))" "oe_nr_pages (oo_ext ?o c) = 0" for y
      using created(2) by (simp_all add: created_def upd_def)
    have "ext_pages ?o = ext_pages obj" unfolding ext_pages_def x p(1) using created(2) nc by (auto simp: created_def)
    moreover have "tree_frame lk obj' ?o" by (rule tree_frame_upd) simp_all
    then have "locks_apart lk ?o" using created(2) by (simp add: tree_frame_def created_def)
    moreover note p(2)
    moreover have "srv_all s obj \<Longrightarrow> y \<in> set (exts obj') \<Longrightarrow> y \<noteq> c \<Longrightarrow> oe_srvlock (oo_ext ?o y) = s" for s y
      using created(2) by (simp add: created_def srv_all_def upd_def)
    ultimately show ?thesis using created(2) e c index_in_chunk [OF c(2), of new_extent, folded c(1)]
      by (simp add: find_done_def created_def x) (simp add: upd_def)
  qed
  ultimately show ?thesis using created(1) by auto
qed

lemma extent_find_kept:
  assumes "tree_inv env cli obj" and "rbtree (rb_insert_color env) (rb_erase env)"
    and "lock_fits cli lk index" and "lock_covers env lk" and "locks_apart lk obj" and "grant_fits cli grants obj"
    and "\<not> oe_intree (oo_ext obj c)" and "\<not> on_link c obj"
    and "ols_granted lk" and "cld_write lk" and "ols_hold lk" and "cl_chunkbits cli \<ge> PAGE_CACHE_SHIFT"
  shows "osc_extent_find env cli (Some c) (Some lk) index grants [] obj = None \<and>
      (\<exists>x \<in> set (exts obj). oe_start (oo_ext obj x) \<le> index \<and> index \<le> oe_end (oo_ext obj x) \<and>
        (oe_state (oo_ext obj x) > OES_CACHE \<or> oe_fsync_wait (oo_ext obj x))) \<or>
    (\<exists>x g obj'. osc_extent_find env cli (Some c) (Some lk) index grants [] obj = Some (Ret (Inr x, g, obj')) \<and>
      find_done env cli lk index grants obj x g obj')"
proof -
  let ?o = "upd c (cur_extent cli lk index) (osc_extent_alloc c obj)" and ?e = "cur_extent cli lk index new_extent"
  have o: "?o = obj\<lparr>oo_ext := (oo_ext obj)(c := ?e)\<rparr>" by (simp add: upd_def osc_extent_alloc_def)
  have c: "c \<notin> set (exts obj)" using assms(1,7) unfolding tree_inv_def by blast
  have it: "\<not> oe_intree ?e" by (simp add: new_extent_def)
  have x: "exts ?o = exts obj" by (simp add: o exts_def)
  have "\<forall>y. y \<notin> set (exts obj) \<longrightarrow> \<not> oe_intree (((oo_ext obj)(c := ?e)) y)"
    using assms(1) it by (simp add: tree_inv_def)
  then have inv: "tree_inv env cli ?o" "ext_grants ?o = ext_grants obj"
    using tree_inv_frame [OF assms(1), of "(oo_ext obj)(c := ?e)"] c unfolding o by fastforce+
  have same: "y \<in> set (exts obj) \<Longrightarrow> oo_ext ?o y = oo_ext obj y" for y using c by (auto simp: o)
  have oc: "oo_ext ?o c = ?e" by (simp add: o)
  have pre: "find_pre env cli lk index c grants ?o"
    using assms(2-6,8) inv same x oc by (simp add: find_pre_def locks_apart_def grant_fits_def) (simp add: on_link_def o)
  have g: "chunksize cli + cl_extent_tax cli \<le> grants"
  proof -
    have "unat (chunksize cli) + unat (cl_extent_tax cli) < 2 ^ 32" using assms(6) unfolding grant_fits_def by linarith
    then show ?thesis using assms(6) unat_u32_plus unfolding grant_fits_def word_le_nat_alt by metis
  qed
  have "fresh_ext env cli ?e" by (rule fresh_cur [OF assms(3,4)])
  then have r: "oe_start ?e \<le> oe_max_end ?e" "oe_max_end ?e - oe_start ?e < unat (cl_max_pages_per_rpc cli)"
    by (simp_all add: fresh_ext_def)
  have m: "cl_max_pages_per_rpc cli \<noteq> 0" "unat (cl_max_pages_per_rpc cli) mod ppc cli = 0"
    using assms(3) by (auto simp: lock_fits_def)
  have "osc_extent_find env cli (Some c) (Some lk) index grants [] obj = find_passes env cli lk index c grants [] ?o"
    using assms(9-12) g r m unfolding osc_extent_find_def by (simp add: Let_def oc del: find_passes.simps)
  moreover have "find_done env cli lk index grants ?o = find_done env cli lk index grants obj"
  proof -
    have "ext_pages ?o = ext_pages obj" "srv_all s ?o = srv_all s obj" for s using x same by (simp_all add: ext_pages_def srv_all_def)
    then show ?thesis using inv(2) x by (simp add: find_done_def fun_eq_iff)
  qed
  moreover have "\<exists>y \<in> set (exts obj). oe_start (oo_ext obj y) \<le> index \<and> index \<le> oe_end (oo_ext obj y) \<and>
      (oe_state (oo_ext obj y) > OES_CACHE \<or> oe_fsync_wait (oo_ext obj y))" if "in_the_way ?o c y" for y
    using that x same oc index_in_chunk [OF assms(3), of new_extent] by (intro bexI [of _ y]) (auto simp: in_the_way_def)
  ultimately show ?thesis using find_passes_ok [OF pre] by (metis (no_types))
qed

section \<open>Results\<close>

text \<open>
  Finding the extent for a page never trips an assertion on a tree in order. Either the call
  waits for an extent that holds the page and is being written or synced, or it returns an active
  extent of the tree under the lock of the IO that holds the page; the tree stays in order, and the
  grant the caller had is either still his or in the extents. For each extent that a merge removes
  the caller is given one extent tax on top.
\<close>

theorem extent_find_ok:
  assumes "tree_inv env cli obj" and "rbtree (rb_insert_color env) (rb_erase env)"
    and "lock_fits cli lk index" and "lock_covers env lk" and "locks_apart lk obj" and "grant_fits cli grants obj"
    and "\<not> oe_intree (oo_ext obj c)" and "\<not> on_link c obj"
    and "ols_granted lk" and "cld_write lk" and "ols_hold lk" and "cl_chunkbits cli \<ge> PAGE_CACHE_SHIFT"
  shows "osc_extent_find env cli (Some c) (Some lk) index grants [] obj = None \<and>
      (\<exists>x \<in> set (exts obj). oe_start (oo_ext obj x) \<le> index \<and> index \<le> oe_end (oo_ext obj x) \<and>
        (oe_state (oo_ext obj x) > OES_CACHE \<or> oe_fsync_wait (oo_ext obj x))) \<or>
    (\<exists>x g obj'. osc_extent_find env cli (Some c) (Some lk) index grants [] obj = Some (Ret (Inr x, g, obj')) \<and>
      tree_inv env cli obj' \<and> x \<in> set (exts obj') \<and> oe_state (oo_ext obj' x) = OES_ACTIVE \<and> oe_users (oo_ext obj' x) > 0 \<and>
      oe_dlmlock (oo_ext obj' x) = ols_dlmlock lk \<and> oe_start (oo_ext obj' x) \<le> index \<and> index \<le> oe_end (oo_ext obj' x) \<and>
      ext_grants obj' + unat g = ext_grants obj + unat grants + (length (exts obj) - length (exts obj')) * unat (cl_extent_tax cli))"
  using extent_find_kept [OF assms] unfolding find_done_def by blast

lemma sample_find_pre:
  "rbtree (rb_insert_color sample_env) (rb_erase sample_env)" "lock_fits sample_osc sample_lock 1" "lock_covers sample_env sample_lock"
  "locks_apart sample_lock sample_object" "grant_fits sample_osc 8192 sample_object"
  subgoal by (simp add: sample_env_def vine.rbtree_axioms)
  subgoal by (simp add: lock_fits_def sample_lock_def sample_osc_def ppc_def)
  subgoal by (simp add: lock_covers_def sample_lock_def sample_env_def mono_def)
  subgoal by (simp add: locks_apart_def sample_lock_def sample_object_def sample_ext_def exts_def)
  subgoal by (simp add: grant_fits_def ext_grants_def sample_osc_def sample_object_def sample_ext_def exts_def chunksize_def)
  done

theorem extent_find_ok_witness:
  "\<exists>x g obj'. osc_extent_find sample_env sample_osc (Some 5) (Some sample_lock) 1 8192 [] sample_object = Some (Ret (Inr x, g, obj')) \<and>
     x \<in> set (exts obj') \<and> oe_start (oo_ext obj' x) \<le> 1 \<and> 1 \<le> oe_end (oo_ext obj' x)"
  using extent_find_ok [OF sample_tree_inv sample_find_pre, of 5]
  by (auto simp: sample_object_def sample_lock_def sample_osc_def new_extent_def on_link_def exts_def sample_ext_def less_oes_def)

text \<open>
  The tax is given back twice. Filling the gap between two extents of one slot merges all three; the
  merged extent keeps both taxes in \<open>oe_grants\<close>, which the end of the write returns in full, and the
  caller is handed the tax of the second extent again, which he gives back too.
\<close>

theorem rear_merge_tax_twice:
  "\<exists>obj'. osc_extent_find sample_env sample_osc (Some 5) (Some sample_lock) 1 8192 [] sample_object = Some (Ret (Inr 0, 8192, obj')) \<and>
     exts obj' = [0] \<and> oe_grants (oo_ext obj' 0) = 3 * chunksize sample_osc + 2 * cl_extent_tax sample_osc"
  by (simp add: osc_extent_find_def sample_env_def sample_osc_def sample_lock_def sample_object_def sample_ext_def new_extent_def
      find_pass_def from_search_def osc_extent_search_def cur_extent_def slot_end_def ppc_def chunksize_def Let_def exts_def
      osc_extent_sanity_check0_def state_code_def lock_code_def page_code_def upd_def osc_extent_alloc_def overlapped_def
      next_extent_def head_of_def osc_extent_merge_def absorb_def unlink_def osc_extent_get_def osc_extent_remove_def
      osc_extent_erase_def osc_extent_put_trust_def osc_extent_put_def osc_extent_state_set_def osc_extent_hold_def
      osc_update_pending_def on_link_def vine_erase_def less_oes_def)

end
