(* ===== verification/Osc_Queue.thy ===== *)
theory Osc_Queue
  imports Osc_Find
begin

text \<open>
  Writing a page into the cache (\<open>osc_queue_async_io\<close>): the page gets grant, an extent that holds it, and
  a place on the list of that extent. The call uses everything below it: the grant, the active extent
  of the IO, the search for another one and the release of the old one.

  Other threads run only while the call sleeps (the \<open>sleep\<close> and \<open>extent_wait\<close> functions, and
  \<open>qe_slept\<close> for the object while the thread waits for grant).
\<close>

section \<open>The call\<close>

abbreviation (input) EIO :: int where "EIO \<equiv> 5"


text \<open>
  The page: its number, the part to be written, whether the server takes the lock, whether its magic is
  intact and whether it is on the list of an extent or of an RPC.
\<close>

record osc_page =
  ops_oap :: page
  ops_from :: int
  ops_to :: int
  ops_srvlock :: bool
  oap_magic_ok :: bool
  oap_pending :: bool
  oap_in_rpc :: bool

text \<open>
  What the call finds around it: whether the import was invalidated, whether the client is remote, the
  capability of the thread, the owner of the file (an error or whether it is over quota), the failure
  switch for grant, the memory for a new extent and the lock of the IO.
\<close>

record queue_env =
  qe_env :: osc_env
  qe_now :: clock
  qe_invalid :: bool
  qe_remote :: bool
  qe_capable :: bool
  qe_attr_rc :: int
  qe_over_quota :: bool
  qe_fail_no_grant :: bool
  qe_new :: "eref option"
  qe_lock :: "osc_lock option"
  qe_sleeps :: "sleep list"
  qe_slept :: "osc_object \<Rightarrow> osc_object"
  qe_waits :: "extent_wait list"

text \<open>
  The state of the IO: \<open>oi_active\<close>, the object, the client, and whether \<open>osc_io_unplug_async\<close> was called.
\<close>

record io_state =
  oi_active :: "eref option"
  oi_obj :: osc_object
  oi_cli :: osc_cli
  oi_unplug :: bool

text \<open>The active extent is given up.\<close>

definition release_active :: "queue_env \<Rightarrow> u32 \<Rightarrow> eref \<Rightarrow> io_state \<Rightarrow> (u32 \<times> io_state) outcome" where
  "release_active qe grants x io =
     bindO (osc_extent_release (qe_env qe) (oi_cli io) x (oi_obj io)) (\<lambda>(unplug, obj).
       Ret (grants, io\<lparr>oi_active := None, oi_obj := obj, oi_unplug := oi_unplug io \<or> unplug\<rparr>))"

text \<open>The first step: the active extent of the IO, if it reaches the page. The result is the grant in hand.\<close>

definition use_active :: "queue_env \<Rightarrow> page \<Rightarrow> io_state \<Rightarrow> (u32 \<times> io_state) outcome" where
  "use_active qe oap io =
     (case oi_active io of None \<Rightarrow> Ret (0, io)
      | Some x \<Rightarrow>
        let e = oo_ext (oi_obj io) x; index = osc_index (qe_env qe) oap in
        if oe_start e \<le> index \<and> index \<le> oe_max_end e then
          let grants = (if oe_end e \<ge> index then 0 else chunk_grant (oi_cli io)) in
          bindO (osc_enter_cache_try (qe_now qe) oap grants False (oi_cli io)) (\<lambda>(ok, cli).
            let io = io\<lparr>oi_cli := cli\<rparr> in
            if \<not> ok then release_active qe 0 x io
            else if oe_end e < index then
              bindO (osc_extent_expand (qe_env qe) cli x index grants (oi_obj io)) (\<lambda>(rc, tmp, obj).
                let io = io\<lparr>oi_obj := obj\<rparr> in
                if rc < 0 then release_active qe grants x io
                else bindO (osc_unreserve_grant (qe_now qe) grants tmp cli) (\<lambda>cli. Ret (0, io\<lparr>oi_cli := cli\<rparr>)))
            else Ret (0, io))
        else release_active qe 0 x io)"

text \<open>The second step: an extent for the page is found or made, against the grant in hand or new grant.\<close>

definition find_extent :: "queue_env \<Rightarrow> page \<Rightarrow> u32 \<Rightarrow> io_state \<Rightarrow> (int \<times> io_state) outcome option" where
  "find_extent qe oap grants io =
     (let tmp = chunk_grant (oi_cli io) in
      if grants > 0 \<and> \<not> grants \<ge> tmp then Some (Fault LBUG)
      else
        case (if grants = 0
              then osc_enter_cache (qe_now qe) (qe_fail_no_grant qe) (ar_force_sync (loi_ar (oi_obj io))) oap tmp (qe_sleeps qe) (oi_cli io)
              else Some (Ret (0, oi_cli io))) of
          None \<Rightarrow> None
        | Some (Fault f) \<Rightarrow> Some (Fault f)
        | Some (Ret (rc, cli)) \<Rightarrow>
            let io = io\<lparr>oi_cli := cli, oi_obj := (if grants = 0 then qe_slept qe (oi_obj io) else oi_obj io)\<rparr>;
                grants = (if grants = 0 \<and> rc = 0 then tmp else grants) in
            if rc \<noteq> 0 then Some (Ret (rc, io))
            else
              case osc_extent_find (qe_env qe) cli (qe_new qe) (qe_lock qe) (osc_index (qe_env qe) oap) grants (qe_waits qe) (oi_obj io) of
                None \<Rightarrow> None
              | Some (Fault f) \<Rightarrow> Some (Fault f)
              | Some (Ret (ext, tmp, obj)) \<Rightarrow>
                  let io = io\<lparr>oi_obj := obj\<rparr>;
                      unreserve = (\<lambda>rc io. if grants > 0
                        then bindO (osc_unreserve_grant (qe_now qe) grants tmp (oi_cli io)) (\<lambda>cli. Ret (rc, io\<lparr>oi_cli := cli\<rparr>))
                        else Ret (rc, io))
                  in case ext of
                       Inl rc \<Rightarrow> Some (lassert (tmp = grants) (unreserve rc (io\<lparr>oi_cli := osc_exit_cache oap (oi_cli io)\<rparr>)))
                     | Inr x \<Rightarrow> Some (unreserve 0 (io\<lparr>oi_active := Some x\<rparr>)))"

text \<open>The last step: the page joins the extent.\<close>

definition add_page :: "queue_env \<Rightarrow> osc_page \<Rightarrow> int \<Rightarrow> io_state \<Rightarrow> (int \<times> io_state) outcome" where
  "add_page qe ops rc io =
     (let index = osc_index (qe_env qe) (ops_oap ops) in
      case oi_active io of None \<Rightarrow> lassert (rc \<noteq> 0) (Ret (rc, io))
      | Some x \<Rightarrow>
        let e = oo_ext (oi_obj io) x in
        lassert (oe_end e \<ge> index \<and> oe_start e \<le> index) (lassert (from_grant (oi_cli io) (ops_oap ops))
        (lassert (oe_nr_pages e = 0 \<or> oe_srvlock e = ops_srvlock ops)
        (Ret (rc, io\<lparr>oi_obj := upd x (\<lambda>e. e\<lparr>oe_srvlock := ops_srvlock ops, oe_nr_pages := oe_nr_pages e + 1,
           oe_pages := oe_pages e @ [ops_oap ops]\<rparr>) (oi_obj io)\<rparr>)))))"

definition queue_brw_flags :: "queue_env \<Rightarrow> osc_page \<Rightarrow> u32" where
  "queue_brw_flags qe ops = OBD_BRW_ASYNC OR (if ops_srvlock ops then OBD_BRW_SRVLOCK else 0) OR
     (if \<not> qe_remote qe \<and> qe_capable qe then OBD_BRW_NOQUOTA else 0)"

definition prepare_page :: "queue_env \<Rightarrow> osc_page \<Rightarrow> io_state \<Rightarrow> io_state" where
  "prepare_page qe ops io =
     io\<lparr>oi_obj := upd_oap (ops_oap ops) (\<lambda>o'. o'\<lparr>oap_write := True, oap_page_off := ops_from ops, oap_count := ops_to ops - ops_from ops,
          oap_ready := False, oap_urgent := False, oap_count_stable := False\<rparr>) (oi_obj io),
        oi_cli := set_brw_flag (ops_oap ops) (queue_brw_flags qe ops) (oi_cli io)\<rparr>"

text \<open>What follows the preparation of the page.\<close>

definition queue_page :: "queue_env \<Rightarrow> osc_page \<Rightarrow> io_state \<Rightarrow> (int \<times> io_state) outcome option" where
  "queue_page qe ops io =
     (case use_active qe (ops_oap ops) io of
        Fault f \<Rightarrow> Some (Fault f)
      | Ret (grants, io) \<Rightarrow>
          (case oi_active io of
             Some x \<Rightarrow> Some (add_page qe ops 0 io)
           | None \<Rightarrow>
               (case find_extent qe (ops_oap ops) grants io of
                  None \<Rightarrow> None
                | Some (Fault f) \<Rightarrow> Some (Fault f)
                | Some (Ret (rc, io)) \<Rightarrow> Some (add_page qe ops rc io))))"

definition osc_queue_async_io :: "queue_env \<Rightarrow> osc_page \<Rightarrow> io_state \<Rightarrow> (int \<times> io_state) outcome option" where
  "osc_queue_async_io qe ops io =
     (let quota = (qe_remote qe \<or> \<not> qe_capable qe) in
      if \<not> oap_magic_ok ops then Some (Ret (- EINVAL, io))
      else if \<not> cl_import (oi_cli io) \<or> qe_invalid qe then Some (Ret (- EIO, io))
      else if oap_pending ops \<or> oap_in_rpc ops then Some (Ret (- EBUSY, io))
      else if quota \<and> qe_attr_rc qe \<noteq> 0 then Some (Ret (qe_attr_rc qe, io))
      else if quota \<and> qe_over_quota qe then Some (Ret (- EDQUOT, io))
      else queue_page qe ops (prepare_page qe ops io))"

section \<open>The client around the tree\<close>

text \<open>The fields of the client the tree depends on.\<close>

definition same_layout :: "osc_cli \<Rightarrow> osc_cli \<Rightarrow> bool" where
  "same_layout cli cli' \<longleftrightarrow> cl_chunkbits cli' = cl_chunkbits cli \<and> cl_extent_tax cli' = cl_extent_tax cli \<and>
     cl_max_pages_per_rpc cli' = cl_max_pages_per_rpc cli"

lemma same_layout_refl [simp]: "same_layout cli cli"
  by (simp add: same_layout_def)

lemma same_layout_trans: "same_layout a b \<Longrightarrow> same_layout b c \<Longrightarrow> same_layout a c"
  by (simp add: same_layout_def)

lemma layout_simps:
  assumes "same_layout cli cli'"
  shows "ppc cli' = ppc cli" and "chunksize cli' = chunksize cli" and "chunk_grant cli' = chunk_grant cli"
    and "tree_inv env cli' obj = tree_inv env cli obj" and "lock_fits cli' lk index = lock_fits cli lk index"
    and "grant_fits cli' grants obj = grant_fits cli grants obj"
proof -
  show p: "ppc cli' = ppc cli" and c: "chunksize cli' = chunksize cli" and "chunk_grant cli' = chunk_grant cli"
    using assms by (simp_all add: same_layout_def ppc_def chunksize_def chunk_grant_def)
  have "ext_ok env cli' e = ext_ok env cli e" for e using assms p by (simp add: ext_ok_def same_layout_def)
  then show "tree_inv env cli' obj = tree_inv env cli obj" by (simp add: tree_inv_def)
  show "lock_fits cli' lk index = lock_fits cli lk index" "grant_fits cli' grants obj = grant_fits cli grants obj"
    using assms p c by (simp_all add: lock_fits_def grant_fits_def same_layout_def)
qed

text \<open>The threads that wait for grant hold none yet, and each waits for a page of its own.\<close>

definition waiting_ok :: "osc_cli \<Rightarrow> bool" where
  "waiting_ok cli \<longleftrightarrow> distinct (map ocw_oap (cl_cache_waiters cli)) \<and> (\<forall>ocw \<in> set (cl_cache_waiters cli). \<not> from_grant cli (ocw_oap ocw))"

lemma cached_frame:
  "same_layout cli (cached now oap b cli)" "cl_cache_waiters (cached now oap b cli) = cl_cache_waiters cli"
  by (simp_all add: cached_def same_layout_def)

lemma waiting_ok_cached:
  "waiting_ok cli \<Longrightarrow> oap \<notin> ocw_oap ` set (cl_cache_waiters cli) \<Longrightarrow> waiting_ok (cached now oap b cli)"
  by (auto simp: waiting_ok_def cached_frame from_grant_cached)

lemma wake_layout: "wake_waiters now ws cli = Ret (woken, cli') \<Longrightarrow> same_layout cli cli'"
proof (induction ws arbitrary: cli woken)
  case (Cons ocw ws)
  then show ?case
    by (auto simp: wake_waiters_Cons simp del: wake_waiters.simps(2) split: if_splits dest!: Cons.IH) (simp_all add: same_layout_def cached_def)
qed simp

lemma wake_grants_waiters:
  "wake_waiters now ws cli = Ret (woken, cli') \<Longrightarrow> from_grant cli' p \<Longrightarrow> from_grant cli p \<or> p \<in> ocw_oap ` set ws"
proof (induction ws arbitrary: cli woken)
  case (Cons ocw ws)
  then show ?case
    by (auto simp: wake_waiters_Cons from_grant_cached simp del: wake_waiters.simps(2) split: if_splits dest!: Cons.IH)
qed simp

lemma locked_frame:
  "same_layout cli (osc_unreserve_grant_locked r u cli)" "cl_cache_waiters (osc_unreserve_grant_locked r u cli) = cl_cache_waiters cli"
  "brw_flag (osc_unreserve_grant_locked r u cli) = brw_flag cli"
  by (simp_all add: osc_unreserve_grant_locked_def same_layout_def Let_def)

lemma unreserve_ok:
  assumes "waiting_ok cli"
  shows "\<exists>cli'. osc_unreserve_grant now r u cli = Ret cli' \<and> waiting_ok cli' \<and> same_layout cli cli' \<and>
    set (cl_cache_waiters cli') \<subseteq> set (cl_cache_waiters cli) \<and> (\<forall>p. from_grant cli p \<longrightarrow> from_grant cli' p) \<and>
    (\<forall>p. from_grant cli' p \<longrightarrow> from_grant cli p \<or> p \<in> ocw_oap ` set (cl_cache_waiters cli)) \<and> grant_total cli' = grant_total cli - ucast r + ucast u"
proof -
  let ?c = "osc_unreserve_grant_locked r u cli"
  have fg: "from_grant ?c p = from_grant cli p" for p by (simp add: from_grant_def locked_frame)
  have w: "waiting_ok ?c" using assms by (simp add: waiting_ok_def fg locked_frame)
  show ?thesis
  proof (cases "u > 0")
    case True
    obtain woken cli' where a: "wake_waiters now (cl_cache_waiters ?c) ?c = Ret (woken, cli')"
      using wake_returns [of "cl_cache_waiters ?c" ?c now] w unfolding waiting_ok_def by blast
    have "cl_cache_waiters cli' = []" using wake_waiters_wakes [OF a] by simp
    moreover have "same_layout cli cli'" using wake_layout [OF a] locked_frame(1) same_layout_trans by blast
    moreover have "osc_unreserve_grant now r u cli = Ret cli'"
      using True a by (simp add: osc_unreserve_grant_def osc_wake_cache_waiters_def)
    moreover have "from_grant cli p \<Longrightarrow> from_grant cli' p" for p using wake_keeps_granted [OF a] fg by blast
    moreover have "from_grant cli' p \<Longrightarrow> from_grant cli p \<or> p \<in> ocw_oap ` set (cl_cache_waiters cli)" for p
      using wake_grants_waiters [OF a] fg by (simp add: locked_frame)
    ultimately show ?thesis using unreserve_grant_total by (simp add: waiting_ok_def)
  next
    case False
    then have "osc_unreserve_grant now r u cli = Ret ?c" by (simp add: osc_unreserve_grant_def)
    then show ?thesis using w fg locked_frame unreserve_grant_total by simp
  qed
qed

section \<open>The state of an IO\<close>

definition io_ok :: "osc_env \<Rightarrow> osc_lock \<Rightarrow> bool \<Rightarrow> io_state \<Rightarrow> bool" where
  "io_ok env lk s io \<longleftrightarrow> tree_inv env (oi_cli io) (oi_obj io) \<and> locks_apart lk (oi_obj io) \<and> srv_all s (oi_obj io) \<and> waiting_ok (oi_cli io) \<and>
     (\<forall>x. oi_active io = Some x \<longrightarrow> x \<in> set (exts (oi_obj io)) \<and> 0 < oe_users (oo_ext (oi_obj io) x))"

text \<open>All the grant of the client: in its books and in the extents of the object.\<close>

definition io_grant :: "io_state \<Rightarrow> u64" where
  "io_grant io = grant_total (oi_cli io) + of_nat (ext_grants (oi_obj io))"

definition io_kept :: "osc_env \<Rightarrow> osc_lock \<Rightarrow> bool \<Rightarrow> io_state \<Rightarrow> io_state \<Rightarrow> bool" where
  "io_kept env lk s io io' \<longleftrightarrow> io_ok env lk s io' \<and> same_layout (oi_cli io) (oi_cli io') \<and> tree_frame lk (oi_obj io) (oi_obj io') \<and>
     set (cl_cache_waiters (oi_cli io')) \<subseteq> set (cl_cache_waiters (oi_cli io)) \<and> io_grant io' = io_grant io"

lemma io_kept_trans: "io_kept env lk s a b \<Longrightarrow> io_kept env lk s b c \<Longrightarrow> io_kept env lk s a c"
  using same_layout_trans tree_frame_trans by (auto simp: io_kept_def)

lemma io_kept_cached:
  assumes "io_ok env lk s io" and "oap \<notin> ocw_oap ` set (cl_cache_waiters (oi_cli io))"
  shows "io_kept env lk s io (io\<lparr>oi_cli := cached now oap b (oi_cli io)\<rparr>)"
  using assms waiting_ok_cached layout_simps(4) [OF cached_frame(1)]
  by (auto simp: io_kept_def io_ok_def io_grant_def cached_frame)

lemma ext_used_active: "ext_ok env cli e \<Longrightarrow> 0 < oe_users e \<Longrightarrow> oe_state e = OES_ACTIVE"
  by (cases "oe_state e") (auto simp: ext_ok_def sane_iff state_code_def split: if_splits)

lemma release_active_ok:
  assumes io: "io_ok (qe_env qe) lk s io" and rb: "rbtree (rb_insert_color (qe_env qe)) (rb_erase (qe_env qe))"
    and x: "oi_active io = Some x" and g: "ext_grants (oi_obj io) < 2 ^ 32"
  shows "\<exists>io'. release_active qe grants x io = Ret (grants, io') \<and> io_kept (qe_env qe) lk s io io' \<and> oi_active io' = None \<and>
    oi_cli io' = oi_cli io \<and> ext_grants (oi_obj io') = ext_grants (oi_obj io)"
proof -
  have i: "tree_inv (qe_env qe) (oi_cli io) (oi_obj io)" "x \<in> set (exts (oi_obj io))" "0 < oe_users (oo_ext (oi_obj io) x)"
    using io x by (simp_all add: io_ok_def)
  obtain b obj' where r: "osc_extent_release (qe_env qe) (oi_cli io) x (oi_obj io) = Ret (b, obj')" "tree_inv (qe_env qe) (oi_cli io) obj'"
    "ext_grants obj' = ext_grants (oi_obj io)" "tree_frame lk (oi_obj io) obj'"
    using extent_release_kept [OF i(1) rb i(2,3) g, of lk] by blast
  have "io_kept (qe_env qe) lk s io (io\<lparr>oi_active := None, oi_obj := obj', oi_unplug := oi_unplug io \<or> b\<rparr>)"
    using io r(2-4) by (simp add: io_kept_def io_ok_def io_grant_def tree_frame_def)
  then show ?thesis using r(1,3) by (simp add: release_active_def)
qed

text \<open>The grant for one chunk and the overhead of an extent, in numbers.\<close>

definition chunk_fits :: "osc_cli \<Rightarrow> osc_object \<Rightarrow> bool" where
  "chunk_fits cli obj \<longleftrightarrow> chunksize cli \<noteq> 0 \<and> ext_grants obj + unat (chunksize cli) + 2 * unat (cl_extent_tax cli) < 2 ^ 32"

lemma chunk_fits_grant:
  assumes "chunk_fits cli obj"
  shows "unat (chunk_grant cli) = unat (chunksize cli) + unat (cl_extent_tax cli)" and "chunk_grant cli \<noteq> 0"
    and "grant_fits cli (chunk_grant cli) obj"
proof -
  have c: "chunk_grant cli = chunksize cli + cl_extent_tax cli" by (simp add: chunk_grant_def chunksize_def)
  have l: "unat (chunksize cli) + unat (cl_extent_tax cli) < 2 ^ 32" using assms unfolding chunk_fits_def by linarith
  show u: "unat (chunk_grant cli) = unat (chunksize cli) + unat (cl_extent_tax cli)" unfolding c by (rule unat_u32_plus [OF l])
  show "chunk_grant cli \<noteq> 0" using assms u32_sum_nonzero [OF _ l] unfolding c chunk_fits_def by blast
  show "grant_fits cli (chunk_grant cli) obj" using assms u unfolding chunk_fits_def grant_fits_def by linarith
qed

section \<open>The active extent\<close>

text \<open>
  After the first step either the active extent holds the page, which is accounted; or there is none,
  and the grant in hand is none or that of one chunk, with the page accounted.
\<close>

definition active_done :: "queue_env \<Rightarrow> osc_lock \<Rightarrow> bool \<Rightarrow> page \<Rightarrow> io_state \<Rightarrow> u32 \<Rightarrow> io_state \<Rightarrow> bool" where
  "active_done qe lk s oap io g io' \<longleftrightarrow> io_kept (qe_env qe) lk s io io' \<and>
     (\<forall>x. oi_active io' = Some x \<longrightarrow> from_grant (oi_cli io') oap \<and>
        oe_start (oo_ext (oi_obj io') x) \<le> osc_index (qe_env qe) oap \<and> osc_index (qe_env qe) oap \<le> oe_end (oo_ext (oi_obj io') x)) \<and>
     (oi_active io' = None \<longrightarrow> ext_grants (oi_obj io') = ext_grants (oi_obj io) \<and>
        (g = 0 \<and> \<not> from_grant (oi_cli io') oap \<or> g = chunk_grant (oi_cli io) \<and> from_grant (oi_cli io') oap))"

lemma io_kept_expanded:
  assumes io: "io_ok env lk s io" and x: "oi_active io = Some x"
    and e: "tree_inv env (oi_cli io) obj'" "exts obj' = exts (oi_obj io)" "tree_frame lk (oi_obj io) obj'"
      "ext_grants obj' + unat tmp = ext_grants (oi_obj io) + unat grants"
      "oo_ext obj' = (oo_ext (oi_obj io))(x := (oo_ext (oi_obj io) x)\<lparr>oe_end := t, oe_grants := g\<rparr>)"
    and u: "waiting_ok cli'" "same_layout (oi_cli io) cli'" "set (cl_cache_waiters cli') \<subseteq> set (cl_cache_waiters (oi_cli io))"
      "grant_total cli' = grant_total (oi_cli io) - ucast grants + ucast tmp"
  shows "io_kept env lk s io (io\<lparr>oi_obj := obj', oi_cli := cli'\<rparr>)"
proof -
  have "(of_nat (ext_grants obj' + unat tmp) :: u64) = of_nat (ext_grants (oi_obj io) + unat grants)" using e(4) by simp
  then have "of_nat (ext_grants obj') + ucast tmp = (of_nat (ext_grants (oi_obj io)) + ucast grants :: u64)" by simp
  moreover have "grant_total cli' + of_nat (ext_grants obj') = grant_total (oi_cli io) - ucast grants + (of_nat (ext_grants obj') + ucast tmp)"
    unfolding u(4) by simp
  ultimately have "io_grant (io\<lparr>oi_obj := obj', oi_cli := cli'\<rparr>) = io_grant io" unfolding io_grant_def by simp
  then show ?thesis using io x e(1-3,5) u(1-3) layout_simps(4) [OF u(2)] by (simp add: io_kept_def io_ok_def tree_frame_def)
qed

lemma use_active_ok:
  assumes io: "io_ok (qe_env qe) lk s io" and rb: "rbtree (rb_insert_color (qe_env qe)) (rb_erase (qe_env qe))"
    and oap: "oap \<notin> ocw_oap ` set (cl_cache_waiters (oi_cli io))" "\<not> from_grant (oi_cli io) oap"
    and fits: "chunk_fits (oi_cli io) (oi_obj io)"
  shows "\<exists>g io'. use_active qe oap io = Ret (g, io') \<and> active_done qe lk s oap io g io'"
proof (cases "oi_active io")
  case None
  then show ?thesis using io oap by (simp add: use_active_def active_done_def io_kept_def)
next
  case (Some x)
  let ?env = "qe_env qe" and ?obj = "oi_obj io" and ?cli = "oi_cli io" let ?e = "oo_ext ?obj x" and ?i = "osc_index ?env oap"
  have gl: "ext_grants ?obj < 2 ^ 32" using fits unfolding chunk_fits_def by linarith
  note rel = release_active_ok [OF io rb Some gl]
  have give_up: "\<exists>g io'. release_active qe 0 x io = Ret (g, io') \<and> active_done qe lk s oap io g io'"
    using rel [of 0] oap(2) by (auto simp: active_done_def)
  define want where "want = (if ?i \<le> oe_end ?e then 0 else chunk_grant ?cli)"
  define io1 where "io1 = io\<lparr>oi_cli := cached (qe_now qe) oap want ?cli\<rparr>"
  show ?thesis
  proof (cases "oe_start ?e \<le> ?i \<and> ?i \<le> oe_max_end ?e \<and> can_cache want ?cli")
    case False
    have same: "io\<lparr>oi_cli := ?cli\<rparr> = io" by simp
    from False have "use_active qe oap io = release_active qe 0 x io"
      using Some by (auto simp: use_active_def enter_cache_try_eq want_def [symmetric] Let_def same)
    then show ?thesis using give_up by simp
  next
    case True
    have k: "io_kept ?env lk s io io1" unfolding io1_def by (rule io_kept_cached [OF io oap(1)])
    then have io1: "io_ok ?env lk s io1" by (simp add: io_kept_def)
    have fg: "from_grant (oi_cli io1) oap" by (simp add: io1_def from_grant_cached)
    have o1: "oi_obj io1 = ?obj" "oi_active io1 = Some x" using Some by (simp_all add: io1_def)
    have eq: "use_active qe oap io =
      (if oe_end ?e < ?i then
         bindO (osc_extent_expand ?env (oi_cli io1) x ?i want ?obj) (\<lambda>(rc, tmp, obj).
           if rc < 0 then release_active qe want x (io1\<lparr>oi_obj := obj\<rparr>)
           else bindO (osc_unreserve_grant (qe_now qe) want tmp (oi_cli io1)) (\<lambda>cli. Ret (0, io1\<lparr>oi_obj := obj, oi_cli := cli\<rparr>)))
       else Ret (0, io1))"
      unfolding io1_def using Some True oap(2)
      by (cases "oe_end ?e < ?i") (simp_all add: use_active_def enter_cache_try_eq want_def Let_def split_def cong: if_cong)
    show ?thesis
    proof (cases "oe_end ?e < ?i")
      case False
      then show ?thesis using eq k True o1 fg by (simp add: active_done_def)
    next
      case grow: True
      then have w: "want = chunk_grant ?cli" by (simp add: want_def)
      have ly: "same_layout ?cli (oi_cli io1)" using k by (simp add: io_kept_def)
      have inv: "tree_inv ?env (oi_cli io1) ?obj" "x \<in> set (exts ?obj)" "0 < oe_users ?e" using io1 o1 by (simp_all add: io_ok_def)
      then have st: "oe_state ?e \<in> {OES_ACTIVE, OES_CACHE}"
        using ext_used_active [of ?env "oi_cli io1" ?e] by (simp add: tree_inv_def)
      have g: "unat (chunksize (oi_cli io1)) \<le> unat want" "ext_grants ?obj + unat want < 2 ^ 32"
        using chunk_fits_grant(1) [OF fits] fits layout_simps(2) [OF ly] by (simp_all add: w chunk_fits_def)
      obtain rc tmp obj' where ex: "osc_extent_expand ?env (oi_cli io1) x ?i want ?obj = Ret (rc, tmp, obj')"
        "tree_inv ?env (oi_cli io1) obj'" "exts obj' = exts ?obj" "tree_frame lk ?obj obj'"
        "ext_grants obj' + unat tmp = ext_grants ?obj + unat want" "rc \<in> {0, - ERANGE, - EAGAIN}"
        "rc = 0 \<longrightarrow> ?i \<le> oe_end (oo_ext obj' x) \<and> unat tmp \<le> unat want \<and>
           oo_ext obj' = (oo_ext ?obj)(x := ?e\<lparr>oe_end := oe_end (oo_ext obj' x), oe_grants := oe_grants (oo_ext obj' x)\<rparr>)"
        "rc \<noteq> 0 \<longrightarrow> obj' = ?obj \<and> tmp = want"
        using extent_expand_kept [OF inv(1,2) st _ _ g, of ?i lk] True by blast
      show ?thesis
      proof (cases "rc = 0")
        case True
        have wt: "waiting_ok (oi_cli io1)" using io1 by (simp add: io_ok_def)
        obtain cli' where c: "osc_unreserve_grant (qe_now qe) want tmp (oi_cli io1) = Ret cli'" "waiting_ok cli'" "same_layout (oi_cli io1) cli'"
          "set (cl_cache_waiters cli') \<subseteq> set (cl_cache_waiters (oi_cli io1))" "\<forall>p. from_grant (oi_cli io1) p \<longrightarrow> from_grant cli' p"
          "grant_total cli' = grant_total (oi_cli io1) - ucast want + ucast tmp"
          using unreserve_ok [OF wt] by metis
        let ?io' = "io1\<lparr>oi_obj := obj', oi_cli := cli'\<rparr>"
        have ext: "oo_ext obj' = (oo_ext (oi_obj io1))(x := (oo_ext (oi_obj io1) x)\<lparr>oe_end := oe_end (oo_ext obj' x), oe_grants := oe_grants (oo_ext obj' x)\<rparr>)"
          using ex(7) True unfolding o1(1) by blast
        have "oe_start (oo_ext obj' x) = oe_start ?e" by (subst ext) (simp add: o1(1))
        then have start: "oe_start (oo_ext obj' x) \<le> ?i"
          using \<open>oe_start ?e \<le> ?i \<and> ?i \<le> oe_max_end ?e \<and> can_cache want ?cli\<close> by simp
        have "io_kept ?env lk s io1 ?io'"
          by (rule io_kept_expanded [OF io1 o1(2) ex(2) ex(3-5) [folded o1(1)] ext c(2-4,6)])
        then have "io_kept ?env lk s io ?io'" by (rule io_kept_trans [OF k])
        then have "active_done qe lk s oap io 0 ?io'"
          using ex(7) True start o1 c(5) fg by (simp add: active_done_def)
        then show ?thesis using eq grow ex(1) True c(1) by simp
      next
        case False
        then have r: "rc < 0" "io1\<lparr>oi_obj := obj'\<rparr> = io1" using ex(6,8) o1 by auto
        obtain io' where "release_active qe want x io1 = Ret (want, io')" "io_kept ?env lk s io1 io'" "oi_active io' = None"
          "oi_cli io' = oi_cli io1" "ext_grants (oi_obj io') = ext_grants ?obj"
          using release_active_ok [OF io1 rb o1(2)] gl o1(1) by auto
        moreover from this have "active_done qe lk s oap io want io'"
          using io_kept_trans [OF k] fg w by (simp add: active_done_def)
        ultimately show ?thesis using eq grow ex(1) r by simp
      qed
    qed
  qed
qed

section \<open>Another extent\<close>

text \<open>The lock of the IO fits the page, and the memory for an extent is not in use.\<close>

definition lock_ready :: "queue_env \<Rightarrow> osc_lock \<Rightarrow> page \<Rightarrow> osc_cli \<Rightarrow> bool" where
  "lock_ready qe lk oap cli \<longleftrightarrow> qe_lock qe = Some lk \<and> lock_fits cli lk (osc_index (qe_env qe) oap) \<and> lock_covers (qe_env qe) lk \<and>
     ols_granted lk \<and> cld_write lk \<and> ols_hold lk \<and> PAGE_CACHE_SHIFT \<le> cl_chunkbits cli"

definition unused :: "queue_env \<Rightarrow> osc_object \<Rightarrow> bool" where
  "unused qe obj \<longleftrightarrow> (\<forall>c. qe_new qe = Some c \<longrightarrow> c \<notin> set (exts obj) \<and> \<not> on_link c obj)"

definition undisturbed :: "queue_env \<Rightarrow> bool" where
  "undisturbed qe \<longleftrightarrow> qe_sleeps qe = [] \<and> qe_waits qe = [] \<and> qe_slept qe = (\<lambda>obj. obj)"

text \<open>What keeps a call waiting: a write that may free grant, or the extent of the page on its way out.\<close>

definition busy_extent :: "queue_env \<Rightarrow> page \<Rightarrow> osc_object \<Rightarrow> bool" where
  "busy_extent qe oap obj \<longleftrightarrow> (\<exists>x \<in> set (exts obj). oe_start (oo_ext obj x) \<le> osc_index (qe_env qe) oap \<and>
     osc_index (qe_env qe) oap \<le> oe_end (oo_ext obj x) \<and> (OES_CACHE < oe_state (oo_ext obj x) \<or> oe_fsync_wait (oo_ext obj x)))"

definition must_wait :: "queue_env \<Rightarrow> page \<Rightarrow> io_state \<Rightarrow> bool" where
  "must_wait qe oap io \<longleftrightarrow> busy_extent qe oap (oi_obj io) \<or>
     \<not> can_cache (chunk_grant (oi_cli io)) (oi_cli io) \<and> (0 < cl_dirty_pages (oi_cli io) \<or> 0 < cl_w_in_flight (oi_cli io))"

text \<open>The extent that was found. A merge on the way gives one extent tax too much.\<close>

definition extent_done :: "queue_env \<Rightarrow> osc_lock \<Rightarrow> bool \<Rightarrow> page \<Rightarrow> io_state \<Rightarrow> eref \<Rightarrow> io_state \<Rightarrow> bool" where
  "extent_done qe lk s oap io x io' \<longleftrightarrow>
     oi_active io' = Some x \<and> x \<in> set (exts (oi_obj io')) \<and> oe_state (oo_ext (oi_obj io') x) = OES_ACTIVE \<and>
     oe_start (oo_ext (oi_obj io') x) \<le> osc_index (qe_env qe) oap \<and> osc_index (qe_env qe) oap \<le> oe_end (oo_ext (oi_obj io') x) \<and>
     from_grant (oi_cli io') oap \<and> tree_inv (qe_env qe) (oi_cli io') (oi_obj io') \<and> locks_apart lk (oi_obj io') \<and> waiting_ok (oi_cli io') \<and>
     (\<forall>y \<in> set (exts (oi_obj io')). y \<noteq> x \<longrightarrow> oe_srvlock (oo_ext (oi_obj io') y) = s) \<and>
     (oe_nr_pages (oo_ext (oi_obj io') x) = 0 \<or> oe_srvlock (oo_ext (oi_obj io') x) = s) \<and>
     same_layout (oi_cli io) (oi_cli io') \<and> ext_pages (oi_obj io') = ext_pages (oi_obj io) \<and>
     (io_grant io' = io_grant io \<or> io_grant io' = io_grant io + ucast (cl_extent_tax (oi_cli io)))"

lemma io_grant_found:
  assumes "ext_grants obj' + unat g = ext_grants obj + unat grants + k * unat (tax :: u32)" and "k \<le> 1"
    and "t' = t - ucast grants + ucast g"
  shows "t' + of_nat (ext_grants obj') \<in> {t + of_nat (ext_grants obj), t + of_nat (ext_grants obj) + (ucast tax :: u64)}"
proof -
  have "(of_nat (ext_grants obj' + unat g) :: u64) = of_nat (ext_grants obj + unat grants + k * unat tax)" using assms(1) by simp
  then have e: "of_nat (ext_grants obj') + ucast g = (of_nat (ext_grants obj) + ucast grants + of_nat k * ucast tax :: u64)" by simp
  have "t' + of_nat (ext_grants obj') = t - ucast grants + (of_nat (ext_grants obj') + ucast g)" unfolding assms(3) by simp
  also have "\<dots> = t + of_nat (ext_grants obj) + of_nat k * ucast tax" unfolding e by simp
  finally show ?thesis using assms(2) by (cases k) simp_all
qed

lemma find_extent_granted:
  assumes io: "io_ok (qe_env qe) lk s io" and act: "oi_active io = None" and fg: "from_grant (oi_cli io) oap"
    and lk: "lock_ready qe lk oap (oi_cli io)" and rb: "rbtree (rb_insert_color (qe_env qe)) (rb_erase (qe_env qe))"
    and fits: "chunk_fits (oi_cli io) (oi_obj io)" and c: "qe_new qe = Some c" "unused qe (oi_obj io)" and q: "qe_waits qe = []"
  shows "find_extent qe oap (chunk_grant (oi_cli io)) io = None \<and> busy_extent qe oap (oi_obj io) \<or>
    (\<exists>x io'. find_extent qe oap (chunk_grant (oi_cli io)) io = Some (Ret (0, io')) \<and> extent_done qe lk s oap io x io')"
proof -
  let ?env = "qe_env qe" and ?obj = "oi_obj io" and ?cli = "oi_cli io" let ?i = "osc_index ?env oap" and ?g = "chunk_grant ?cli"
  let ?find = "osc_extent_find ?env ?cli (Some c) (Some lk) ?i ?g [] ?obj"
  note g = chunk_fits_grant [OF fits]
  have i: "tree_inv ?env ?cli ?obj" "locks_apart lk ?obj" "srv_all s ?obj" "waiting_ok ?cli" using io by (simp_all add: io_ok_def)
  have u: "\<not> oe_intree (oo_ext ?obj c)" "\<not> on_link c ?obj" using c i(1) by (auto simp: unused_def tree_inv_def)
  have l: "qe_lock qe = Some lk" "lock_fits ?cli lk ?i" "lock_covers ?env lk" "ols_granted lk" "cld_write lk" "ols_hold lk" "PAGE_CACHE_SHIFT \<le> cl_chunkbits ?cli"
    using lk by (simp_all add: lock_ready_def)
  consider (wait) "?find = None" "busy_extent qe oap ?obj" | (found) x t obj' where "?find = Some (Ret (Inr x, t, obj'))" "find_done ?env ?cli lk ?i ?g ?obj x t obj'"
    using extent_find_kept [OF i(1) rb l(2,3) i(2) g(3) u l(4-7)]
  proof (elim disjE conjE exE)
    assume n: "?find = None" and w: "\<exists>x\<in>set (exts ?obj). oe_start (oo_ext ?obj x) \<le> ?i \<and> ?i \<le> oe_end (oo_ext ?obj x) \<and>
      (OES_CACHE < oe_state (oo_ext ?obj x) \<or> oe_fsync_wait (oo_ext ?obj x))"
    from n w [folded busy_extent_def] show thesis by (rule wait)
  qed (rule found)
  then show ?thesis
  proof cases
    case wait
    then show ?thesis using c(1) l(1) g(2) q by (simp add: find_extent_def Let_def)
  next
    case (found x t obj')
    obtain cli' where r: "osc_unreserve_grant (qe_now qe) ?g t ?cli = Ret cli'" "waiting_ok cli'" "same_layout ?cli cli'"
      "\<forall>p. from_grant ?cli p \<longrightarrow> from_grant cli' p" "grant_total cli' = grant_total ?cli - ucast ?g + ucast t"
      using unreserve_ok [OF i(4)] by metis
    let ?io' = "io\<lparr>oi_obj := obj', oi_active := Some x, oi_cli := cli'\<rparr>"
    have f: "ext_grants obj' + unat t = ext_grants ?obj + unat ?g + (length (exts ?obj) - length (exts obj')) * unat (cl_extent_tax ?cli)"
      "length (exts ?obj) - length (exts obj') \<le> 1"
      using found(2) by (auto simp: find_done_def)
    have "io_grant ?io' \<in> {io_grant io, io_grant io + ucast (cl_extent_tax ?cli)}"
      using io_grant_found [OF f r(5)] by (simp add: io_grant_def)
    then have "extent_done qe lk s oap io x ?io'"
      using found(2) r(2-4) fg i(3) layout_simps(4) [OF r(3)] by (simp add: extent_done_def find_done_def)
    moreover have "0 < ?g" using g(2) by (simp add: word_gt_0)
    then have "find_extent qe oap ?g io = Some (Ret (0, ?io'))"
      using found(1) r(1) c(1) l(1) g(2) q by (simp add: find_extent_def Let_def)
    ultimately show ?thesis by blast
  qed
qed

text \<open>A page that leaves the cache again.\<close>

lemma exit_cache_frame:
  "same_layout cli (osc_exit_cache oap cli)" "cl_cache_waiters (osc_exit_cache oap cli) = cl_cache_waiters cli"
  "grant_total (osc_exit_cache oap cli) = grant_total cli" "from_grant (osc_exit_cache oap cli) p \<Longrightarrow> from_grant cli p \<and> p \<noteq> oap"
proof -
  have f: "(f AND NOT OBD_BRW_FROM_GRANT) AND OBD_BRW_FROM_GRANT = 0"
    "((f AND NOT OBD_BRW_FROM_GRANT) AND NOT OBD_BRW_NOCACHE) AND OBD_BRW_FROM_GRANT = 0" for f
    by (rule bit_word_eqI; auto simp: bit_simps)+
  show "same_layout cli (osc_exit_cache oap cli)" "cl_cache_waiters (osc_exit_cache oap cli) = cl_cache_waiters cli"
    "grant_total (osc_exit_cache oap cli) = grant_total cli"
    by (simp_all add: osc_exit_cache_def osc_release_write_grant_def Let_def same_layout_def grant_total_def set_brw_flag_def)
  show "from_grant (osc_exit_cache oap cli) p \<Longrightarrow> from_grant cli p \<and> p \<noteq> oap"
    by (auto simp: osc_exit_cache_def osc_release_write_grant_def Let_def from_grant_def set_brw_flag_def f split: if_splits)
qed

lemma waiting_ok_exit: "waiting_ok cli \<Longrightarrow> waiting_ok (osc_exit_cache oap cli)"
  unfolding waiting_ok_def exit_cache_frame(2) using exit_cache_frame(4) by blast

text \<open>Without an extent the page is out of the cache.\<close>

definition not_cached :: "queue_env \<Rightarrow> osc_lock \<Rightarrow> bool \<Rightarrow> page \<Rightarrow> io_state \<Rightarrow> io_state \<Rightarrow> bool" where
  "not_cached qe lk s oap io io' \<longleftrightarrow> io_kept (qe_env qe) lk s io io' \<and> oi_active io' = None \<and> \<not> from_grant (oi_cli io') oap"

lemma find_extent_nomem:
  assumes io: "io_ok (qe_env qe) lk s io" and act: "oi_active io = None" and fits: "chunk_fits (oi_cli io) (oi_obj io)"
    and c: "qe_new qe = None" and oap: "oap \<notin> ocw_oap ` set (cl_cache_waiters (oi_cli io))"
  shows "\<exists>io'. find_extent qe oap (chunk_grant (oi_cli io)) io = Some (Ret (- ENOMEM, io')) \<and> not_cached qe lk s oap io io'"
proof -
  let ?cli = "oi_cli io" let ?g = "chunk_grant ?cli" and ?c = "osc_exit_cache oap ?cli"
  have g: "?g \<noteq> 0" "0 < ?g" using chunk_fits_grant(2) [OF fits] by (simp_all add: word_gt_0)
  have w: "waiting_ok ?c" using io waiting_ok_exit by (simp add: io_ok_def)
  obtain cli' where r: "osc_unreserve_grant (qe_now qe) ?g ?g ?c = Ret cli'" "waiting_ok cli'" "same_layout ?c cli'"
    "set (cl_cache_waiters cli') \<subseteq> set (cl_cache_waiters ?c)" "grant_total cli' = grant_total ?c - ucast ?g + ucast ?g"
    "\<forall>p. from_grant cli' p \<longrightarrow> from_grant ?c p \<or> p \<in> ocw_oap ` set (cl_cache_waiters ?c)"
    using unreserve_ok [OF w] by metis
  have ly: "same_layout ?cli cli'" using exit_cache_frame(1) r(3) same_layout_trans by blast
  let ?io' = "io\<lparr>oi_cli := cli'\<rparr>"
  have "io_kept (qe_env qe) lk s io ?io'"
    using io r(2,4,5) ly exit_cache_frame(2,3) layout_simps(4) [OF ly] by (simp add: io_kept_def io_ok_def io_grant_def)
  moreover have "find_extent qe oap ?g io = Some (Ret (- ENOMEM, ?io'))"
    using c g r(1) by (simp add: find_extent_def osc_extent_find_def Let_def)
  moreover have "\<not> from_grant cli' oap" using r(6) oap exit_cache_frame(2,4) by metis
  ultimately show ?thesis using act by (auto simp: not_cached_def)
qed

text \<open>The outcome of the second step, where \<open>wait\<close> says that the call had to wait.\<close>

definition step_done :: "bool \<Rightarrow> queue_env \<Rightarrow> osc_lock \<Rightarrow> bool \<Rightarrow> page \<Rightarrow> io_state \<Rightarrow> (int \<times> io_state) outcome option \<Rightarrow> bool" where
  "step_done wait qe lk s oap io r =
     (case r of None \<Rightarrow> wait | Some (Fault f) \<Rightarrow> False
      | Some (Ret (rc, io')) \<Rightarrow> if rc = 0 then \<exists>x. extent_done qe lk s oap io x io' else not_cached qe lk s oap io io')"

lemma find_extent_have:
  assumes io: "io_ok (qe_env qe) lk s io" and act: "oi_active io = None" and oap: "oap \<notin> ocw_oap ` set (cl_cache_waiters (oi_cli io))"
    and g: "from_grant (oi_cli io) oap"
    and lk: "lock_ready qe lk oap (oi_cli io)" and rb: "rbtree (rb_insert_color (qe_env qe)) (rb_erase (qe_env qe))"
    and fits: "chunk_fits (oi_cli io) (oi_obj io)" and c: "unused qe (oi_obj io)" and q: "undisturbed qe"
  shows "step_done (busy_extent qe oap (oi_obj io)) qe lk s oap io (find_extent qe oap (chunk_grant (oi_cli io)) io)"
proof (cases "qe_new qe")
  case None
  then show ?thesis using find_extent_nomem [OF io act fits None oap] by (auto simp: step_done_def)
next
  case (Some c')
  have "qe_waits qe = []" using q by (simp add: undisturbed_def)
  then show ?thesis using find_extent_granted [OF io act g lk rb fits Some c] by (auto simp: step_done_def)
qed

lemma step_done_trans:
  assumes "io_kept (qe_env qe) lk s io io1" and "step_done w qe lk s oap io1 r" and "w \<Longrightarrow> w'"
  shows "step_done w' qe lk s oap io r"
proof -
  have ly: "same_layout (oi_cli io) (oi_cli io1)" and "ext_pages (oi_obj io1) = ext_pages (oi_obj io)" "io_grant io1 = io_grant io"
    using assms(1) by (simp_all add: io_kept_def tree_frame_def)
  moreover have "cl_extent_tax (oi_cli io1) = cl_extent_tax (oi_cli io)" using ly by (simp add: same_layout_def)
  ultimately have e: "extent_done qe lk s oap io x io'" if "extent_done qe lk s oap io1 x io'" for x io'
    using that same_layout_trans [OF ly] by (simp add: extent_done_def)
  have n: "not_cached qe lk s oap io io'" if "not_cached qe lk s oap io1 io'" for io'
    using that io_kept_trans [OF assms(1)] by (simp add: not_cached_def)
  show ?thesis
  proof (cases r)
    case None
    then show ?thesis using assms(2,3) by (simp add: step_done_def)
  next
    case (Some out)
    then show ?thesis using assms(2) e n by (cases out) (auto simp: step_done_def split: if_splits)
  qed
qed

text \<open>The second step, from either state the first one leaves.\<close>

lemma find_extent_ok:
  assumes io: "io_ok (qe_env qe) lk s io" and act: "oi_active io = None" and oap: "oap \<notin> ocw_oap ` set (cl_cache_waiters (oi_cli io))"
    and g: "g = 0 \<and> \<not> from_grant (oi_cli io) oap \<or> g = chunk_grant (oi_cli io) \<and> from_grant (oi_cli io) oap"
    and lk: "lock_ready qe lk oap (oi_cli io)" and rb: "rbtree (rb_insert_color (qe_env qe)) (rb_erase (qe_env qe))"
    and fits: "chunk_fits (oi_cli io) (oi_obj io)" and c: "unused qe (oi_obj io)" and q: "undisturbed qe"
  shows "step_done (must_wait qe oap io) qe lk s oap io (find_extent qe oap g io)"
proof (cases "g = 0 \<and> \<not> from_grant (oi_cli io) oap")
  case False
  then have g': "from_grant (oi_cli io) oap" "g = chunk_grant (oi_cli io)" using g by auto
  have k: "io_kept (qe_env qe) lk s io io" using io by (simp add: io_kept_def)
  show ?thesis unfolding g'(2)
    by (rule step_done_trans [OF k find_extent_have [OF io act oap g'(1) lk rb fits c q]]) (simp add: must_wait_def)
next
  case True
  let ?cli = "oi_cli io" let ?tmp = "chunk_grant ?cli"
  let ?forced = "qe_fail_no_grant qe \<or> cl_dirty_max_pages ?cli = 0 \<or> ar_force_sync (cl_ar ?cli) \<or> ar_force_sync (loi_ar (oi_obj io))"
  have u: "qe_sleeps qe = []" "qe_slept qe = (\<lambda>obj. obj)" using q by (simp_all add: undisturbed_def)
  have tmp: "?tmp \<noteq> 0" by (rule chunk_fits_grant(2) [OF fits])
  have none: "not_cached qe lk s oap io io" using io act True by (simp add: not_cached_def io_kept_def)
  show ?thesis
  proof (cases "can_cache ?tmp ?cli \<and> \<not> ?forced")
    case True
    let ?io1 = "io\<lparr>oi_cli := cached (qe_now qe) oap ?tmp ?cli\<rparr>"
    have k: "io_kept (qe_env qe) lk s io ?io1" by (rule io_kept_cached [OF io oap])
    have ly: "same_layout ?cli (oi_cli ?io1)" using k by (simp add: io_kept_def)
    note L = layout_simps [OF ly]
    have S: "step_done (busy_extent qe oap (oi_obj ?io1)) qe lk s oap ?io1 (find_extent qe oap (chunk_grant (oi_cli ?io1)) ?io1)"
    proof (rule find_extent_have)
      show "io_ok (qe_env qe) lk s ?io1" using k by (simp add: io_kept_def)
      show "from_grant (oi_cli ?io1) oap" by (simp add: from_grant_cached)
      show "lock_ready qe lk oap (oi_cli ?io1)" using lk ly L by (simp add: lock_ready_def same_layout_def)
      show "chunk_fits (oi_cli ?io1) (oi_obj ?io1)" using fits ly L by (simp add: chunk_fits_def same_layout_def)
    qed (use act oap rb c q in \<open>simp_all add: cached_frame\<close>)
    have E: "find_extent qe oap g io = find_extent qe oap (chunk_grant (oi_cli ?io1)) ?io1"
      unfolding L(3) using True u tmp \<open>g = 0 \<and> \<not> from_grant ?cli oap\<close> L(3)
      by (simp add: find_extent_def osc_enter_cache_def enter_cache_try_eq Let_def)
    show ?thesis unfolding E by (rule step_done_trans [OF k S]) (simp add: must_wait_def)
  next
    case False
    then show ?thesis using True u none
      by (auto simp: step_done_def find_extent_def osc_enter_cache_def enter_cache_try_eq enter_rc_def must_wait_def Let_def)
  qed
qed

section \<open>The page in its extent\<close>

definition with_page :: "bool \<Rightarrow> page \<Rightarrow> osc_extent \<Rightarrow> osc_extent" where
  "with_page s p e = e\<lparr>oe_srvlock := s, oe_nr_pages := oe_nr_pages e + 1, oe_pages := oe_pages e @ [p]\<rparr>"

lemma ext_ok_with_page:
  assumes ok: "ext_ok env cli e" and st: "oe_state e = OES_ACTIVE"
    and p: "oe_start e \<le> osc_index env p" "osc_index env p \<le> oe_end e" "osc_index env p \<notin> osc_index env ` set (oe_pages e)"
  shows "ext_ok env cli (with_page s p e)"
proof -
  let ?e = "with_page s p e"
  have pages: "pages_ok env ?e" using ok p by (auto simp: ext_ok_def pages_ok_def with_page_def)
  have "oe_nr_pages ?e \<le> oe_end e + 1 - oe_start e" using pages_ok_count [OF pages] by (simp add: with_page_def)
  moreover have e: "oe_start e \<le> oe_end e" "oe_end e \<le> oe_max_end e" "oe_max_end e - oe_start e < oe_mppr e"
    using ok st by (simp_all add: ext_ok_def sane_iff)
  ultimately have n: "oe_nr_pages ?e \<le> oe_mppr e" by linarith
  have "page_code env ?e = 0" using pages by (auto simp: page_code_iff pages_ok_def)
  moreover have "state_code ?e = 0 \<longleftrightarrow> state_code e = 0" "lock_code env ?e = 0 \<longleftrightarrow> lock_code env e = 0"
    using st by (simp_all add: state_code_iff lock_code_iff with_page_def)
  moreover have "oe_state ?e = OES_ACTIVE" using st by (simp add: with_page_def)
  ultimately have "osc_extent_sanity_check0 env ?e = 0"
    using ok st n by (simp add: ext_ok_def sane_iff) (simp add: with_page_def)
  then show ?thesis using ok pages by (simp add: ext_ok_def) (simp add: with_page_def)
qed

text \<open>The result of the whole call.\<close>

definition page_cached :: "queue_env \<Rightarrow> osc_lock \<Rightarrow> osc_page \<Rightarrow> io_state \<Rightarrow> io_state \<Rightarrow> bool" where
  "page_cached qe lk ops io io' \<longleftrightarrow> io_ok (qe_env qe) lk (ops_srvlock ops) io' \<and> from_grant (oi_cli io') (ops_oap ops) \<and>
     (\<exists>x. oi_active io' = Some x \<and> ops_oap ops \<in> set (oe_pages (oo_ext (oi_obj io') x))) \<and>
     ext_pages (oi_obj io') = insert (ops_oap ops) (ext_pages (oi_obj io)) \<and>
     (io_grant io' = io_grant io \<or> io_grant io' = io_grant io + ucast (cl_extent_tax (oi_cli io)))"

lemma add_page_ok:
  assumes d: "extent_done qe lk (ops_srvlock ops) (ops_oap ops) io x io1"
    and p: "osc_index (qe_env qe) (ops_oap ops) \<notin> osc_index (qe_env qe) ` ext_pages (oi_obj io)"
  shows "\<exists>io'. add_page qe ops 0 io1 = Ret (0, io') \<and> page_cached qe lk ops io io'"
proof -
  let ?env = "qe_env qe" and ?obj = "oi_obj io1" and ?p = "ops_oap ops" and ?s = "ops_srvlock ops"
  let ?e = "oo_ext ?obj x" and ?obj' = "upd x (with_page ?s ?p) ?obj" let ?io' = "io1\<lparr>oi_obj := ?obj'\<rparr>"
  have x: "x \<in> set (exts ?obj)" "oi_active io1 = Some x" "oe_state ?e = OES_ACTIVE" "tree_inv ?env (oi_cli io1) ?obj"
    "oe_start ?e \<le> osc_index ?env ?p" "osc_index ?env ?p \<le> oe_end ?e" "from_grant (oi_cli io1) ?p" "ext_pages ?obj = ext_pages (oi_obj io)"
    using d by (simp_all add: extent_done_def)
  have ok: "ext_ok ?env (oi_cli io1) ?e" using x(1,4) by (simp add: tree_inv_def)
  have "set (oe_pages ?e) \<subseteq> ext_pages (oi_obj io)" using x(1,8) by (auto simp: ext_pages_def)
  then have ok': "ext_ok ?env (oi_cli io1) (with_page ?s ?p ?e)" using p by (intro ext_ok_with_page ok x) blast
  have ex: "exts ?obj' = exts ?obj" by (simp add: exts_def upd_def)
  have "tree_inv ?env (oi_cli io1) ?obj'" "ext_grants ?obj' + unat (oe_grants ?e) = ext_grants ?obj + unat (oe_grants (with_page ?s ?p ?e))"
    by (rule tree_inv_update [OF x(4,1) ok']; use x(1,3,4) in \<open>simp add: with_page_def upd_def tree_inv_def links_ok_def\<close>)+
  moreover from this have "ext_grants ?obj' = ext_grants ?obj" by (simp add: with_page_def)
  moreover have "0 < oe_users ?e" by (rule active_used [OF x(4,1,3)])
  moreover have f: "oe_start (oo_ext ?obj' y) = oe_start (oo_ext ?obj y)" "oe_max_end (oo_ext ?obj' y) = oe_max_end (oo_ext ?obj y)"
    "oe_dlmlock (oo_ext ?obj' y) = oe_dlmlock (oo_ext ?obj y)" "oe_srvlock (oo_ext ?obj' y) = (if y = x then ?s else oe_srvlock (oo_ext ?obj y))" for y
    by (simp_all add: upd_def with_page_def)
  have "locks_apart lk ?obj'" "srv_all ?s ?obj'"
    unfolding locks_apart_def srv_all_def ex f using d by (simp_all add: extent_done_def locks_apart_def)
  moreover have "ext_pages ?obj' = insert ?p (ext_pages ?obj)"
    unfolding ext_pages_def ex using x(1) by (auto simp: upd_def with_page_def split: if_splits)
  ultimately have "page_cached qe lk ops io ?io'"
    using d x by (simp add: page_cached_def io_ok_def extent_done_def io_grant_def ex) (simp add: upd_def with_page_def)
  moreover have "add_page qe ops 0 io1 = Ret (0, ?io')"
    using d x by (auto simp: add_page_def Let_def extent_done_def with_page_def upd_def)
  ultimately show ?thesis by blast
qed

section \<open>The whole call\<close>

lemma prepare_page_ok:
  assumes io: "io_ok (qe_env qe) lk s io" and oap: "ops_oap ops \<notin> ocw_oap ` set (cl_cache_waiters (oi_cli io))"
  shows "io_kept (qe_env qe) lk s io (prepare_page qe ops io) \<and> \<not> from_grant (oi_cli (prepare_page qe ops io)) (ops_oap ops) \<and>
    exts (oi_obj (prepare_page qe ops io)) = exts (oi_obj io) \<and> oo_ext (oi_obj (prepare_page qe ops io)) = oo_ext (oi_obj io) \<and>
    (\<forall>c. on_link c (oi_obj (prepare_page qe ops io)) = on_link c (oi_obj io)) \<and>
    cl_cache_waiters (oi_cli (prepare_page qe ops io)) = cl_cache_waiters (oi_cli io)"
proof -
  let ?cli = "set_brw_flag (ops_oap ops) (queue_brw_flags qe ops) (oi_cli io)" and ?obj = "oi_obj (prepare_page qe ops io)"
  have c: "oi_cli (prepare_page qe ops io) = ?cli" "oi_active (prepare_page qe ops io) = oi_active io" by (simp_all add: prepare_page_def)
  have fg: "from_grant ?cli p \<longleftrightarrow> p \<noteq> ops_oap ops \<and> from_grant (oi_cli io) p" for p
    by (simp add: from_grant_def set_brw_flag_def queue_brw_flags_def OBD_BRW_ASYNC_def OBD_BRW_SRVLOCK_def OBD_BRW_NOQUOTA_def OBD_BRW_FROM_GRANT_def)
  have o: "exts ?obj = exts (oi_obj io)" "oo_ext ?obj = oo_ext (oi_obj io)" "on_link c ?obj = on_link c (oi_obj io)" "links_ok ?obj = links_ok (oi_obj io)"
    "oo_nr_writes ?obj = oo_nr_writes (oi_obj io)" for c
    by (simp_all add: prepare_page_def upd_oap_def exts_def on_link_def links_ok_def)
  have ly: "same_layout (oi_cli io) ?cli" and w: "cl_cache_waiters ?cli = cl_cache_waiters (oi_cli io)" and g: "grant_total ?cli = grant_total (oi_cli io)"
    by (simp_all add: same_layout_def set_brw_flag_def grant_total_def)
  have inv: "tree_inv (qe_env qe) (oi_cli io) ?obj = tree_inv (qe_env qe) (oi_cli io) (oi_obj io)"
    unfolding tree_inv_def cached_pages_def o by simp
  have "io_ok (qe_env qe) lk s (prepare_page qe ops io)"
    using io oap layout_simps(4) [OF ly] inv unfolding io_ok_def c locks_apart_def srv_all_def waiting_ok_def o fg w by auto
  moreover have "tree_frame lk (oi_obj io) ?obj" by (rule tree_frame_same) (simp_all add: o)
  ultimately show ?thesis using ly w g o fg by (simp add: io_kept_def c io_grant_def ext_grants_def)
qed

lemma active_extent_done:
  assumes "active_done qe lk s oap io g io1" and "oi_active io1 = Some x"
  shows "extent_done qe lk s oap io x io1"
proof -
  have k: "io_kept (qe_env qe) lk s io io1" using assms(1) by (simp add: active_done_def)
  then have x: "x \<in> set (exts (oi_obj io1))" "0 < oe_users (oo_ext (oi_obj io1) x)" "tree_inv (qe_env qe) (oi_cli io1) (oi_obj io1)" "srv_all s (oi_obj io1)"
    using assms(2) by (simp_all add: io_kept_def io_ok_def)
  then have "ext_ok (qe_env qe) (oi_cli io1) (oo_ext (oi_obj io1) x)" by (simp add: tree_inv_def)
  then have "oe_state (oo_ext (oi_obj io1) x) = OES_ACTIVE" using x(2) by (rule ext_used_active)
  then show ?thesis using assms k x by (simp add: extent_done_def active_done_def io_kept_def io_ok_def srv_all_def tree_frame_def)
qed

lemma ready_kept:
  assumes "io_kept env lk s io io1"
  shows "lock_ready qe lk oap (oi_cli io) \<Longrightarrow> lock_ready qe lk oap (oi_cli io1)"
    and "unused qe (oi_obj io) \<Longrightarrow> unused qe (oi_obj io1)"
    and "chunk_fits (oi_cli io) (oi_obj io) \<Longrightarrow> ext_grants (oi_obj io1) = ext_grants (oi_obj io) \<Longrightarrow> chunk_fits (oi_cli io1) (oi_obj io1)"
    and "oap \<notin> ocw_oap ` set (cl_cache_waiters (oi_cli io)) \<Longrightarrow> oap \<notin> ocw_oap ` set (cl_cache_waiters (oi_cli io1))"
proof -
  have ly: "same_layout (oi_cli io) (oi_cli io1)" and fr: "tree_frame lk (oi_obj io) (oi_obj io1)"
    and w: "set (cl_cache_waiters (oi_cli io1)) \<subseteq> set (cl_cache_waiters (oi_cli io))" using assms by (simp_all add: io_kept_def)
  note L = layout_simps [OF ly]
  show "lock_ready qe lk oap (oi_cli io) \<Longrightarrow> lock_ready qe lk oap (oi_cli io1)"
    "chunk_fits (oi_cli io) (oi_obj io) \<Longrightarrow> ext_grants (oi_obj io1) = ext_grants (oi_obj io) \<Longrightarrow> chunk_fits (oi_cli io1) (oi_obj io1)"
    using ly L by (simp_all add: lock_ready_def chunk_fits_def same_layout_def)
  show "unused qe (oi_obj io) \<Longrightarrow> unused qe (oi_obj io1)" using fr by (auto simp: unused_def tree_frame_def)
  show "oap \<notin> ocw_oap ` set (cl_cache_waiters (oi_cli io)) \<Longrightarrow> oap \<notin> ocw_oap ` set (cl_cache_waiters (oi_cli io1))" using w by blast
qed

definition queue_done :: "bool \<Rightarrow> queue_env \<Rightarrow> osc_lock \<Rightarrow> osc_page \<Rightarrow> io_state \<Rightarrow> (int \<times> io_state) outcome option \<Rightarrow> bool" where
  "queue_done wait qe lk ops io r \<longleftrightarrow> r = None \<and> wait \<or> (\<exists>io'. r = Some (Ret (0, io')) \<and> page_cached qe lk ops io io') \<or>
     (\<exists>rc io'. r = Some (Ret (rc, io')) \<and> rc \<noteq> 0 \<and> io_kept (qe_env qe) lk (ops_srvlock ops) io io' \<and> \<not> from_grant (oi_cli io') (ops_oap ops))"

lemma queue_page_ok:
  assumes io: "io_ok (qe_env qe) lk (ops_srvlock ops) io" and rb: "rbtree (rb_insert_color (qe_env qe)) (rb_erase (qe_env qe))"
    and oap: "ops_oap ops \<notin> ocw_oap ` set (cl_cache_waiters (oi_cli io))" "\<not> from_grant (oi_cli io) (ops_oap ops)"
    and lk: "lock_ready qe lk (ops_oap ops) (oi_cli io)" and fits: "chunk_fits (oi_cli io) (oi_obj io)" and c: "unused qe (oi_obj io)" and q: "undisturbed qe"
    and p: "osc_index (qe_env qe) (ops_oap ops) \<notin> osc_index (qe_env qe) ` ext_pages (oi_obj io)"
  shows "queue_done (\<exists>g io1. use_active qe (ops_oap ops) io = Ret (g, io1) \<and> must_wait qe (ops_oap ops) io1) qe lk ops io (queue_page qe ops io)"
proof -
  obtain g io1 where u: "use_active qe (ops_oap ops) io = Ret (g, io1)" "active_done qe lk (ops_srvlock ops) (ops_oap ops) io g io1"
    using use_active_ok [OF io rb oap fits] by blast
  have k: "io_kept (qe_env qe) lk (ops_srvlock ops) io io1" using u(2) by (simp add: active_done_def)
  show ?thesis
  proof (cases "oi_active io1")
    case (Some x)
    then obtain io' where "add_page qe ops 0 io1 = Ret (0, io')" "page_cached qe lk ops io io'"
      using add_page_ok [OF active_extent_done [OF u(2) Some] p] by blast
    then show ?thesis using u(1) Some by (simp add: queue_done_def queue_page_def)
  next
    case None
    have a: "ext_grants (oi_obj io1) = ext_grants (oi_obj io)"
      "g = 0 \<and> \<not> from_grant (oi_cli io1) (ops_oap ops) \<or> g = chunk_grant (oi_cli io1) \<and> from_grant (oi_cli io1) (ops_oap ops)"
      using u(2) None layout_simps(3) [of "oi_cli io" "oi_cli io1"] k by (simp_all add: active_done_def io_kept_def)
    have io1: "io_ok (qe_env qe) lk (ops_srvlock ops) io1" using k by (simp add: io_kept_def)
    have s1: "step_done (must_wait qe (ops_oap ops) io1) qe lk (ops_srvlock ops) (ops_oap ops) io1 (find_extent qe (ops_oap ops) g io1)"
      by (rule find_extent_ok [OF io1 None ready_kept(4) [OF k oap(1)] a(2) ready_kept(1) [OF k lk] rb ready_kept(3) [OF k fits a(1)] ready_kept(2) [OF k c] q])
    have s: "step_done (must_wait qe (ops_oap ops) io1) qe lk (ops_srvlock ops) (ops_oap ops) io (find_extent qe (ops_oap ops) g io1)"
      by (rule step_done_trans [OF k s1])
    show ?thesis
    proof (cases "find_extent qe (ops_oap ops) g io1")
      case n: None
      then show ?thesis using s u(1) None by (simp add: queue_done_def queue_page_def step_done_def)
    next
      case f: (Some out)
      then obtain rc io2 where o: "out = Ret (rc, io2)" using s by (cases out) (auto simp: step_done_def)
      show ?thesis
      proof (cases "rc = 0")
        case True
        then obtain x where "extent_done qe lk (ops_srvlock ops) (ops_oap ops) io x io2" using s f o by (auto simp: step_done_def)
        then obtain io' where "add_page qe ops 0 io2 = Ret (0, io')" "page_cached qe lk ops io io'" using add_page_ok [OF _ p] by blast
        then show ?thesis using u(1) None f o True by (simp add: queue_done_def queue_page_def)
      next
        case False
        then show ?thesis using s u(1) None f o by (simp add: queue_done_def queue_page_def step_done_def add_page_def not_cached_def)
      qed
    qed
  qed
qed

section \<open>Results\<close>

text \<open>
  Writing a page into the cache. On a tree in order, with the lock of the IO covering the page, the
  call trips no assertion. Undisturbed by others it ends in one of three ways. Either it is done: the page is
  accounted and on the list of the active extent of the IO, which holds it, the tree is in order and the
  pages cached are those from before and this one. Or it fails, and then no page was added, the page is not accounted
  and the tree is in order. Or it has to wait, because the extent of the page is being written or synced
  or because there is no grant while writes are under way. The grant in the accounts and in the extents
  stays the same, except that a merge adds one extent tax.
\<close>

theorem queue_async_io_ok:
  assumes "io_ok (qe_env qe) lk (ops_srvlock ops) io" and "rbtree (rb_insert_color (qe_env qe)) (rb_erase (qe_env qe))"
    and "ops_oap ops \<notin> ocw_oap ` set (cl_cache_waiters (oi_cli io))" and "\<not> from_grant (oi_cli io) (ops_oap ops)"
    and "lock_ready qe lk (ops_oap ops) (oi_cli io)" and "chunk_fits (oi_cli io) (oi_obj io)" and "unused qe (oi_obj io)" and "undisturbed qe"
    and "osc_index (qe_env qe) (ops_oap ops) \<notin> osc_index (qe_env qe) ` ext_pages (oi_obj io)"
  shows "osc_queue_async_io qe ops io = None \<and>
      (\<exists>g io1. use_active qe (ops_oap ops) (prepare_page qe ops io) = Ret (g, io1) \<and> must_wait qe (ops_oap ops) io1) \<or>
    (\<exists>io'. osc_queue_async_io qe ops io = Some (Ret (0, io')) \<and> page_cached qe lk ops io io') \<or>
    (\<exists>rc io'. osc_queue_async_io qe ops io = Some (Ret (rc, io')) \<and> rc \<noteq> 0 \<and>
      io_kept (qe_env qe) lk (ops_srvlock ops) io io' \<and> \<not> from_grant (oi_cli io') (ops_oap ops))"
proof (cases "osc_queue_async_io qe ops io = queue_page qe ops (prepare_page qe ops io)")
  case True
  let ?io0 = "prepare_page qe ops io" and ?s = "ops_srvlock ops"
  note P = prepare_page_ok [OF assms(1,3)]
  have k: "io_kept (qe_env qe) lk ?s io ?io0" using P by blast
  have e: "ext_grants (oi_obj ?io0) = ext_grants (oi_obj io)" "ext_pages (oi_obj ?io0) = ext_pages (oi_obj io)" "io_grant ?io0 = io_grant io"
    "cl_extent_tax (oi_cli ?io0) = cl_extent_tax (oi_cli io)"
    using P k by (simp_all add: ext_grants_def ext_pages_def io_kept_def same_layout_def)
  have "queue_done (\<exists>g io1. use_active qe (ops_oap ops) ?io0 = Ret (g, io1) \<and> must_wait qe (ops_oap ops) io1) qe lk ops ?io0 (queue_page qe ops ?io0)"
    using P assms(9) by (intro queue_page_ok assms ready_kept(1-3) [OF k] e) (simp_all add: io_kept_def e, use assms(3) in blast)
  moreover have "page_cached qe lk ops ?io0 = page_cached qe lk ops io" by (simp add: fun_eq_iff page_cached_def e)
  ultimately show ?thesis unfolding True queue_done_def using io_kept_trans [OF k] by (elim disjE) auto
next
  case False
  have "io_kept (qe_env qe) lk (ops_srvlock ops) io io" using assms(1) by (simp add: io_kept_def)
  then show ?thesis using False assms(4) by (auto simp: osc_queue_async_io_def Let_def split: if_splits)
qed

definition sample_page_state :: osc_page where
  "sample_page_state = \<lparr>ops_oap = 1, ops_from = 0, ops_to = 4096, ops_srvlock = False, oap_magic_ok = True, oap_pending = False, oap_in_rpc = False\<rparr>"

definition sample_queue_env :: queue_env where
  "sample_queue_env = \<lparr>qe_env = sample_env, qe_now = (\<lambda>d. d), qe_invalid = False, qe_remote = False, qe_capable = True, qe_attr_rc = 0,
     qe_over_quota = False, qe_fail_no_grant = False, qe_new = Some 5, qe_lock = Some sample_lock, qe_sleeps = [], qe_slept = (\<lambda>obj. obj), qe_waits = []\<rparr>"

definition sample_io :: io_state where
  "sample_io = \<lparr>oi_active = None, oi_obj = sample_object, oi_cli = sample_osc, oi_unplug = False\<rparr>"

lemma sample_queue_returns:
  "\<exists>io'. osc_queue_async_io sample_queue_env sample_page_state sample_io = Some (Ret (0, io'))"
  by (simp add: sample_queue_env_def sample_page_state_def sample_io_def osc_queue_async_io_def queue_page_def prepare_page_def use_active_def
      find_extent_def osc_enter_cache_def enter_cache_try_eq can_cache_def dirty_room_def from_grant_def set_brw_flag_def queue_brw_flags_def cached_def
      chunk_grant_def upd_oap_def add_page_def osc_unreserve_grant_def osc_unreserve_grant_locked_def osc_wake_cache_waiters_def wake_waiters_Cons
      OBD_BRW_ASYNC_def OBD_BRW_NOQUOTA_def OBD_BRW_FROM_GRANT_def OBD_BRW_SRVLOCK_def
      osc_extent_find_def sample_env_def sample_osc_def sample_lock_def sample_object_def sample_ext_def new_extent_def
      find_pass_def from_search_def osc_extent_search_def cur_extent_def slot_end_def ppc_def chunksize_def Let_def exts_def
      osc_extent_sanity_check0_def state_code_def lock_code_def page_code_def upd_def osc_extent_alloc_def overlapped_def
      next_extent_def head_of_def osc_extent_merge_def absorb_def unlink_def osc_extent_get_def osc_extent_remove_def
      osc_extent_erase_def osc_extent_put_trust_def osc_extent_put_def osc_extent_state_set_def osc_extent_hold_def
      osc_update_pending_def on_link_def vine_erase_def less_oes_def)

lemma sample_queue_pre:
  "io_ok (qe_env sample_queue_env) sample_lock (ops_srvlock sample_page_state) sample_io"
  "rbtree (rb_insert_color (qe_env sample_queue_env)) (rb_erase (qe_env sample_queue_env))"
  "ops_oap sample_page_state \<notin> ocw_oap ` set (cl_cache_waiters (oi_cli sample_io))" "\<not> from_grant (oi_cli sample_io) (ops_oap sample_page_state)"
  "lock_ready sample_queue_env sample_lock (ops_oap sample_page_state) (oi_cli sample_io)"
  "chunk_fits (oi_cli sample_io) (oi_obj sample_io)" "unused sample_queue_env (oi_obj sample_io)" "undisturbed sample_queue_env"
  "osc_index (qe_env sample_queue_env) (ops_oap sample_page_state) \<notin> osc_index (qe_env sample_queue_env) ` ext_pages (oi_obj sample_io)"
  subgoal using sample_tree_inv sample_find_pre(4)
    by (simp add: io_ok_def sample_queue_env_def sample_io_def sample_page_state_def srv_all_def waiting_ok_def from_grant_def sample_osc_def)
      (simp add: sample_object_def sample_ext_def exts_def new_extent_def)
  subgoal using sample_find_pre(1) by (simp add: sample_queue_env_def)
  subgoal by (simp add: sample_io_def sample_osc_def sample_page_state_def)
  subgoal by (simp add: sample_io_def sample_osc_def from_grant_def)
  subgoal using sample_find_pre(2,3) by (simp add: lock_ready_def sample_queue_env_def sample_io_def sample_page_state_def)
      (simp add: sample_lock_def sample_osc_def sample_env_def)
  subgoal by (simp add: chunk_fits_def ext_grants_def sample_io_def sample_osc_def sample_object_def sample_ext_def exts_def chunksize_def)
  subgoal by (simp add: unused_def sample_queue_env_def sample_io_def sample_object_def exts_def on_link_def)
  subgoal by (simp add: undisturbed_def sample_queue_env_def)
  subgoal by (simp add: ext_pages_def sample_queue_env_def sample_env_def sample_page_state_def sample_io_def sample_object_def sample_ext_def exts_def)
  done

theorem queue_async_io_ok_witness:
  "\<exists>io'. osc_queue_async_io sample_queue_env sample_page_state sample_io = Some (Ret (0, io')) \<and>
     page_cached sample_queue_env sample_lock sample_page_state sample_io io'"
  using queue_async_io_ok [OF sample_queue_pre] sample_queue_returns by auto

end
