(* ===== verification/Osc_Brw.thy ===== *)
theory Osc_Brw
  imports Osc_Grant "HOL-Library.Multiset"
begin

text \<open>
  The pages of a bulk read or write (\<open>osc_request.c\<close>): sorting them by offset, packing them into
  remote buffers, checking the return codes of a write and clearing what a short read did not fill.
\<close>

record brw_page =
  bp_off :: u64
  bp_pg :: page
  bp_count :: u32
  bp_flag :: u32

section \<open>Sorting\<close>

text \<open>The first stride at or above \<open>num\<close> in the sequence 1, 4, 13, 40, ...\<close>

function first_stride :: "nat \<Rightarrow> nat \<Rightarrow> nat" where
  "first_stride num stride = (if stride < num then first_stride num (stride * 3 + 1) else stride)"
  by auto
termination by (relation "measure (\<lambda>(num, stride). num - stride)") auto

text \<open>
  The hole at \<open>j\<close> moves down by strides until \<open>tmp\<close> fits. With stride 0 the test compares the element
  with itself and fails.
\<close>

fun shift_down :: "nat \<Rightarrow> brw_page \<Rightarrow> nat \<Rightarrow> brw_page list \<Rightarrow> brw_page list" where
  "shift_down stride tmp j a =
     (if 0 < stride \<and> j \<ge> stride \<and> bp_off (a ! (j - stride)) > bp_off tmp
      then shift_down stride tmp (j - stride) (a[j := a ! (j - stride)])
      else a[j := tmp])"

definition insert_pass :: "nat \<Rightarrow> nat \<Rightarrow> brw_page list \<Rightarrow> brw_page list" where
  "insert_pass num stride a = fold (\<lambda>i a. shift_down stride (a ! i) i a) [stride..<num] a"

function sort_passes :: "nat \<Rightarrow> nat \<Rightarrow> brw_page list \<Rightarrow> brw_page list" where
  "sort_passes num stride a =
     (let stride = stride div 3; a = insert_pass num stride a
      in if stride > 1 then sort_passes num stride a else a)"
  by auto
termination by (relation "measure (\<lambda>(num, stride, a). stride)") auto

declare first_stride.simps [simp del] shift_down.simps [simp del] sort_passes.simps [simp del]

definition sort_brw_pages :: "brw_page list \<Rightarrow> nat \<Rightarrow> brw_page list" where
  "sort_brw_pages array num = (if num = 1 then array else sort_passes num (first_stride num 1) array)"

subsection \<open>The sort permutes\<close>

lemma shift_down_mset:
  "j < length a \<Longrightarrow> mset (shift_down s tmp j a) = mset (a[j := tmp]) \<and> length (shift_down s tmp j a) = length a"
proof (induction s tmp j a rule: shift_down.induct)
  case (1 stride tmp j a)
  show ?case
  proof (cases "0 < stride \<and> j \<ge> stride \<and> bp_off (a ! (j - stride)) > bp_off tmp")
    case True
    let ?b = "a[j := tmp]" and ?k = "j - stride"
    have k: "?k < length a" "?k \<noteq> j" using True 1(2) by auto
    have "a[j := a ! ?k, ?k := tmp] = ?b[j := ?b ! ?k, ?k := ?b ! j]" using k 1(2) by simp
    moreover have "mset (?b[j := ?b ! ?k, ?k := ?b ! j]) = mset ?b" using k 1(2) by (intro mset_swap) simp_all
    ultimately show ?thesis using 1(1) [OF True] True k by (subst (1 2) shift_down.simps) simp
  next
    case False
    then show ?thesis by (subst (1 2) shift_down.simps) auto
  qed
qed

lemma insert_steps_mset:
  "\<forall>i \<in> set is. i < length a \<Longrightarrow>
   mset (fold (\<lambda>i a. shift_down s (a ! i) i a) is a) = mset a \<and> length (fold (\<lambda>i a. shift_down s (a ! i) i a) is a) = length a"
  by (induction "is" arbitrary: a) (simp_all add: shift_down_mset)

lemma insert_pass_mset: "mset (insert_pass (length a) s a) = mset a" "length (insert_pass (length a) s a) = length a"
  using insert_steps_mset [of "[s..<length a]" a s] by (simp_all add: insert_pass_def)

lemma sort_passes_mset: "num = length a \<Longrightarrow> mset (sort_passes num s a) = mset a"
  by (induction num s a rule: sort_passes.induct) (subst sort_passes.simps, simp add: Let_def insert_pass_mset)

subsection \<open>A pass with stride 1 sorts\<close>

abbreviation by_off :: "brw_page list \<Rightarrow> bool" where "by_off \<equiv> sorted_wrt (\<lambda>p q. bp_off p \<le> bp_off q)"

lemma shift_down_split:
  "\<exists>xs1 xs2. xs = xs1 @ xs2 \<and> shift_down 1 tmp (length xs) (xs @ h # ys) = xs1 @ tmp # xs2 @ ys \<and>
     (\<forall>x \<in> set xs2. bp_off tmp < bp_off x) \<and> (xs1 \<noteq> [] \<longrightarrow> bp_off (last xs1) \<le> bp_off tmp)"
proof (induction xs arbitrary: h ys rule: rev_induct)
  case Nil
  show ?case by (subst shift_down.simps) simp
next
  case (snoc z xs)
  have n: "((xs @ [z]) @ h # ys) ! (length (xs @ [z]) - 1) = z" by (simp add: nth_append)
  show ?case
  proof (cases "bp_off z > bp_off tmp")
    case True
    obtain xs1 xs2 where i: "xs = xs1 @ xs2" "shift_down 1 tmp (length xs) (xs @ z # z # ys) = xs1 @ tmp # xs2 @ z # ys"
      "\<forall>x \<in> set xs2. bp_off tmp < bp_off x" "xs1 \<noteq> [] \<longrightarrow> bp_off (last xs1) \<le> bp_off tmp"
      using snoc [of z "z # ys"] by blast
    have u: "((xs @ [z]) @ h # ys)[length (xs @ [z]) := z] = xs @ z # z # ys" by (simp add: list_update_append)
    have "shift_down 1 tmp (length (xs @ [z])) ((xs @ [z]) @ h # ys) = shift_down 1 tmp (length xs) (xs @ z # z # ys)"
      by (subst shift_down.simps) (use True n u in simp)
    then show ?thesis using i True by (intro exI [of _ xs1] exI [of _ "xs2 @ [z]"]) simp
  next
    case False
    have "shift_down 1 tmp (length (xs @ [z])) ((xs @ [z]) @ h # ys) = (xs @ [z]) @ tmp # ys"
      by (subst shift_down.simps) (use False n in \<open>simp add: list_update_append\<close>)
    then show ?thesis using False by (intro exI [of _ "xs @ [z]"] exI [of _ "[]"]) simp
  qed
qed

lemma shift_down_sorts:
  assumes "by_off (take i a)" and "i < length a"
  shows "by_off (take (Suc i) (shift_down 1 (a ! i) i a))"
proof -
  have a: "a = take i a @ a ! i # drop (Suc i) a" using assms(2) by (rule id_take_nth_drop)
  have l: "length (take i a) = i" using assms(2) by simp
  obtain xs1 xs2 where x: "take i a = xs1 @ xs2" "shift_down 1 (a ! i) i a = xs1 @ a ! i # xs2 @ drop (Suc i) a"
    "\<forall>x \<in> set xs2. bp_off (a ! i) < bp_off x" "xs1 \<noteq> [] \<longrightarrow> bp_off (last xs1) \<le> bp_off (a ! i)"
    using shift_down_split [of "take i a" "a ! i" "a ! i" "drop (Suc i) a"] unfolding l a [symmetric] by blast
  have s: "by_off xs1" "by_off xs2" "\<forall>p \<in> set xs1. \<forall>q \<in> set xs2. bp_off p \<le> bp_off q"
    using assms(1) unfolding x(1) by (auto simp: sorted_wrt_append)
  have "\<forall>p \<in> set xs1. bp_off p \<le> bp_off (a ! i)"
  proof
    fix p assume p: "p \<in> set xs1"
    then obtain ys where ys: "xs1 = ys @ [last xs1]" by (metis append_butlast_last_id empty_iff empty_set)
    have "bp_off p \<le> bp_off (last xs1)" using p s(1) by (subst (asm) (1 2) ys) (auto simp: sorted_wrt_append)
    then show "bp_off p \<le> bp_off (a ! i)" using x(4) p by (auto intro: order_trans)
  qed
  moreover have "take (Suc i) (xs1 @ a ! i # xs2 @ drop (Suc i) a) = xs1 @ a ! i # xs2"
  proof -
    have "i = length xs1 + length xs2" using arg_cong [OF x(1), of length] l by simp
    then show ?thesis by simp
  qed
  ultimately show ?thesis using s x(2,3) by (auto simp: sorted_wrt_append less_imp_le)
qed

lemma insert_steps_sort:
  "0 < n \<Longrightarrow> n \<le> length a \<Longrightarrow> by_off (take n (fold (\<lambda>i a. shift_down 1 (a ! i) i a) [1..<n] a))"
proof (induction n)
  case (Suc n)
  let ?f = "fold (\<lambda>i a. shift_down 1 (a ! i) i a) [1..<n] a"
  show ?case
  proof (cases "n = 0")
    case True
    then show ?thesis using Suc.prems by (cases a) simp_all
  next
    case False
    have "length ?f = length a" using insert_steps_mset [of "[1..<n]" a 1] Suc.prems by simp
    then show ?thesis using shift_down_sorts [of n ?f] Suc False by (simp add: upt_Suc_append)
  qed
qed simp

lemma insert_pass_sorts: "by_off (insert_pass (length a) 1 a)"
proof (cases "length a = 0")
  case False
  then show ?thesis using insert_steps_sort [of "length a" a] insert_pass_mset(2) [of a 1]
    by (simp add: insert_pass_def)
qed (simp add: insert_pass_def)

subsection \<open>The last stride is 1\<close>

fun stride_no :: "nat \<Rightarrow> nat" where
  "stride_no 0 = 1"
| "stride_no (Suc k) = stride_no k * 3 + 1"

lemma first_stride_in_sequence: "s = stride_no j \<Longrightarrow> \<exists>k \<ge> j. first_stride num s = stride_no k \<and> num \<le> stride_no k"
proof (induction num s arbitrary: j rule: first_stride.induct)
  case (1 num s)
  show ?case
  proof (cases "s < num")
    case True
    then obtain k where "k \<ge> Suc j" "first_stride num (s * 3 + 1) = stride_no k" "num \<le> stride_no k"
      using 1(1) [OF True, of "Suc j"] 1(2) by auto
    then show ?thesis using True by (subst first_stride.simps) (auto intro: exI [of _ k])
  next
    case False
    then show ?thesis using 1(2) by (subst first_stride.simps) auto
  qed
qed

lemma stride_no_div: "stride_no (Suc k) div 3 = stride_no k"
  by simp

lemma stride_no_gt: "stride_no k > 1 \<longleftrightarrow> k \<noteq> 0"
proof -
  have "0 < stride_no k" for k by (induction k) simp_all
  then show ?thesis by (cases k) simp_all
qed

lemma sort_passes_sorts: "num = length a \<Longrightarrow> by_off (sort_passes num (stride_no (Suc k)) a)"
proof (induction k arbitrary: a)
  case 0
  then show ?case by (subst sort_passes.simps) (simp add: Let_def insert_pass_sorts [unfolded One_nat_def])
next
  case (Suc k)
  have "sort_passes num (stride_no (Suc (Suc k))) a = sort_passes num (stride_no (Suc k)) (insert_pass num (stride_no (Suc k)) a)"
    by (subst sort_passes.simps) (simp only: stride_no_div stride_no_gt Let_def simp_thms nat.distinct if_True)
  then show ?case using Suc insert_pass_mset(2) by metis
qed

section \<open>Remote buffers\<close>

record niobuf_remote =
  rnb_offset :: u64
  rnb_len :: u32
  rnb_flags :: u32


definition can_merge_pages :: "brw_page \<Rightarrow> brw_page \<Rightarrow> bool" where
  "can_merge_pages p1 p2 \<longleftrightarrow> bp_flag p1 = bp_flag p2 \<and> bp_off p1 + ucast (bp_count p1) = bp_off p2"

fun more_nio :: "brw_page \<Rightarrow> brw_page list \<Rightarrow> nat" where
  "more_nio p [] = 0"
| "more_nio p (q # qs) = (if can_merge_pages p q then 0 else 1) + more_nio q qs"

definition niocount :: "brw_page list \<Rightarrow> nat" where
  "niocount pga = (case pga of [] \<Rightarrow> 1 | p # ps \<Rightarrow> 1 + more_nio p ps)"

definition poff :: "brw_page \<Rightarrow> nat" where "poff p = unat (bp_off p) mod 4096"

text \<open>No gap inside the array: the first page ends at a page boundary, the last starts at one, those between are whole.\<close>

definition no_gap :: "nat \<Rightarrow> nat \<Rightarrow> brw_page \<Rightarrow> bool" where
  "no_gap n i p \<longleftrightarrow> n = 1 \<or>
     (i = 0 \<longrightarrow> poff p + unat (bp_count p) = 4096) \<and>
     (0 < i \<and> i < n - 1 \<longrightarrow> poff p = 0 \<and> bp_count p = 4096) \<and> (i = n - 1 \<longrightarrow> poff p = 0)"

text \<open>\<open>nios\<close> are the buffers filled so far, the last one first; the flag is that of the first page.\<close>

fun fill_niobufs ::
  "nat \<Rightarrow> u32 \<Rightarrow> nat \<Rightarrow> brw_page \<Rightarrow> brw_page list \<Rightarrow> niobuf_remote list \<Rightarrow> int \<Rightarrow> (niobuf_remote list \<times> int) outcome" where
  "fill_niobufs n flag0 i pg_prev [] nios requested_nob = Ret (rev nios, requested_nob)"
| "fill_niobufs n flag0 i pg_prev (pg # ps) nios requested_nob =
     lassert (bp_count pg > 0) (lassert (no_gap n i pg) (lassert (i = 0 \<or> bp_off pg > bp_off pg_prev)
     (lassert (flag0 AND OBD_BRW_SRVLOCK = bp_flag pg AND OBD_BRW_SRVLOCK)
       (fill_niobufs n flag0 (i + 1) pg ps
         (if i > 0 \<and> can_merge_pages pg_prev pg
          then (case nios of [] \<Rightarrow> [] | nb # nios \<Rightarrow> nb\<lparr>rnb_len := rnb_len nb + bp_count pg\<rparr> # nios)
          else \<lparr>rnb_offset = bp_off pg, rnb_len = bp_count pg, rnb_flags = bp_flag pg\<rparr> # nios)
         (requested_nob + uint (bp_count pg))))))"

definition brw_niobufs :: "brw_page list \<Rightarrow> (niobuf_remote list \<times> int) outcome" where
  "brw_niobufs pga =
     (case pga of [] \<Rightarrow> Fault LBUG
      | p # ps \<Rightarrow>
          bindO (fill_niobufs (length pga) (bp_flag p) 0 p pga [] 0) (\<lambda>(nios, requested_nob).
          lassert (length nios = niocount pga) (Ret (nios, requested_nob))))"

subsection \<open>The buffers hold the bytes of the pages\<close>

definition page_bytes :: "brw_page \<Rightarrow> nat list" where
  "page_bytes p = [unat (bp_off p)..<unat (bp_off p) + unat (bp_count p)]"

definition nio_bytes :: "niobuf_remote \<Rightarrow> nat list" where
  "nio_bytes nb = [unat (rnb_offset nb)..<unat (rnb_offset nb) + unat (rnb_len nb)]"

definition total_nob :: "brw_page list \<Rightarrow> nat" where
  "total_nob pga = sum_list (map (\<lambda>p. unat (bp_count p)) pga)"

lemma total_nob_simps [simp]: "total_nob [] = 0" "total_nob (p # ps) = unat (bp_count p) + total_nob ps"
  by (simp_all add: total_nob_def)

definition page_ok :: "nat \<Rightarrow> u32 \<Rightarrow> nat \<Rightarrow> brw_page \<Rightarrow> bool" where
  "page_ok n flag0 i p \<longleftrightarrow> bp_count p > 0 \<and> no_gap n i p \<and> flag0 AND OBD_BRW_SRVLOCK = bp_flag p AND OBD_BRW_SRVLOCK"

fun rising :: "brw_page \<Rightarrow> brw_page list \<Rightarrow> bool" where
  "rising p [] = True"
| "rising p (q # qs) = (bp_off p < bp_off q \<and> rising q qs)"

lemma fill_niobufs_ok:
  assumes "0 < i" and "rising prev ps" and "\<forall>k < length ps. page_ok n flag0 (i + k) (ps ! k)"
    and "\<forall>p \<in> set (prev # ps). unat (bp_off p) + unat (bp_count p) < 2 ^ 64"
    and "unat (rnb_offset nb) + unat (rnb_len nb) = unat (bp_off prev) + unat (bp_count prev)"
    and "unat (rnb_len nb) + total_nob ps < 2 ^ 32"
  shows "\<exists>nios'. fill_niobufs n flag0 i prev ps (nb # nios) nob = Ret (nios', nob + int (total_nob ps)) \<and>
    length nios' = Suc (length nios) + more_nio prev ps \<and>
    concat (map nio_bytes nios') = concat (map nio_bytes (rev (nb # nios))) @ concat (map page_bytes ps)"
  using assms
proof (induction ps arbitrary: i prev nb nios nob)
  case (Cons p ps)
  have ok: "page_ok n flag0 i p" using Cons.prems(3) by (auto dest: spec [of _ 0])
  have ok': "\<forall>k < length ps. page_ok n flag0 (i + 1 + k) (ps ! k)"
  proof (intro allI impI)
    fix k assume "k < length ps"
    then show "page_ok n flag0 (i + 1 + k) (ps ! k)" using Cons.prems(3) [rule_format, of "Suc k"] by simp
  qed
  have up: "bp_off p > bp_off prev" "rising p ps" using Cons.prems(2) by simp_all
  have lim: "\<forall>q \<in> set (p # ps). unat (bp_off q) + unat (bp_count q) < 2 ^ 64" using Cons.prems(4) by simp
  have cnt: "int (unat (bp_count p)) = uint (bp_count p)" by simp
  show ?case
  proof (cases "can_merge_pages prev p")
    case True
    let ?nb = "nb\<lparr>rnb_len := rnb_len nb + bp_count p\<rparr>"
    have e: "unat (bp_off p) = unat (bp_off prev) + unat (bp_count prev)"
    proof -
      have "bp_off p = bp_off prev + ucast (bp_count prev)" using True by (simp add: can_merge_pages_def)
      moreover have "unat (ucast (bp_count prev) :: u64) = unat (bp_count prev)" by (rule unat_ucast_up)
      ultimately show ?thesis using Cons.prems(4) by (simp add: unat_word_ariths)
    qed
    have "unat (rnb_len nb) + unat (bp_count p) < 2 ^ 32" using Cons.prems(6) by simp
    then have l: "unat (rnb_len ?nb) = unat (rnb_len nb) + unat (bp_count p)" by (simp add: unat_word_ariths)
    have A: "unat (rnb_offset ?nb) + unat (rnb_len ?nb) = unat (bp_off p) + unat (bp_count p)"
      using l e Cons.prems(5) by simp
    have B: "unat (rnb_len ?nb) + total_nob ps < 2 ^ 32" using l Cons.prems(6) by simp
    obtain nios' where n: "fill_niobufs n flag0 (i + 1) p ps (?nb # nios) (nob + uint (bp_count p)) =
        Ret (nios', nob + uint (bp_count p) + int (total_nob ps))"
      "length nios' = Suc (length nios) + more_nio p ps"
      "concat (map nio_bytes nios') = concat (map nio_bytes (rev (?nb # nios))) @ concat (map page_bytes ps)"
      using Cons.IH [OF _ up(2) ok' lim A B, of nios "nob + uint (bp_count p)"] by auto
    have "nio_bytes ?nb = nio_bytes nb @ page_bytes p"
    proof -
      have "unat (bp_off p) = unat (rnb_offset nb) + unat (rnb_len nb)" using e Cons.prems(5) by simp
      then show ?thesis
        using upt_add_eq_append [of "unat (rnb_offset nb)" "unat (rnb_offset nb) + unat (rnb_len nb)" "unat (bp_count p)"]
        unfolding nio_bytes_def page_bytes_def l by (simp add: add.assoc)
    qed
    then show ?thesis using n ok up True Cons.prems(1) cnt by (simp add: page_ok_def)
  next
    case False
    let ?nb = "\<lparr>rnb_offset = bp_off p, rnb_len = bp_count p, rnb_flags = bp_flag p\<rparr>"
    have A: "unat (rnb_offset ?nb) + unat (rnb_len ?nb) = unat (bp_off p) + unat (bp_count p)" by simp
    have B: "unat (rnb_len ?nb) + total_nob ps < 2 ^ 32" using Cons.prems(6) by simp
    obtain nios' where n: "fill_niobufs n flag0 (i + 1) p ps (?nb # nb # nios) (nob + uint (bp_count p)) =
        Ret (nios', nob + uint (bp_count p) + int (total_nob ps))"
      "length nios' = Suc (length (nb # nios)) + more_nio p ps"
      "concat (map nio_bytes nios') = concat (map nio_bytes (rev (?nb # nb # nios))) @ concat (map page_bytes ps)"
      using Cons.IH [OF _ up(2) ok' lim A B, of "nb # nios" "nob + uint (bp_count p)"] by auto
    moreover have "nio_bytes ?nb = page_bytes p" by (simp add: nio_bytes_def page_bytes_def)
    ultimately show ?thesis using ok up False Cons.prems(1) cnt by (simp add: page_ok_def)
  qed
qed simp

definition brw_pages_ok :: "brw_page list \<Rightarrow> bool" where
  "brw_pages_ok pga \<longleftrightarrow> pga \<noteq> [] \<and> rising (hd pga) (tl pga) \<and>
     (\<forall>i < length pga. page_ok (length pga) (bp_flag (hd pga)) i (pga ! i)) \<and>
     (\<forall>p \<in> set pga. unat (bp_off p) + unat (bp_count p) < 2 ^ 64) \<and> total_nob pga < 2 ^ 32"

lemma niobufs_ok:
  assumes "brw_pages_ok pga"
  shows "\<exists>nios. brw_niobufs pga = Ret (nios, int (total_nob pga)) \<and> length nios = niocount pga \<and>
    concat (map nio_bytes nios) = concat (map page_bytes pga)"
proof -
  obtain p ps where pga: "pga = p # ps" using assms by (cases pga) (auto simp: brw_pages_ok_def)
  let ?n = "length pga" and ?nb = "\<lparr>rnb_offset = bp_off p, rnb_len = bp_count p, rnb_flags = bp_flag p\<rparr>"
  have ok: "rising p ps" "\<forall>i < length pga. page_ok ?n (bp_flag p) i (pga ! i)"
    "\<forall>q \<in> set pga. unat (bp_off q) + unat (bp_count q) < 2 ^ 64" "total_nob pga < 2 ^ 32"
    using assms pga by (simp_all add: brw_pages_ok_def)
  have first: "page_ok ?n (bp_flag p) 0 p" using ok(2) [rule_format, of 0] pga by simp
  have rest: "\<forall>k < length ps. page_ok ?n (bp_flag p) (1 + k) (ps ! k)"
  proof (intro allI impI)
    fix k assume "k < length ps"
    then show "page_ok ?n (bp_flag p) (1 + k) (ps ! k)" using ok(2) [rule_format, of "Suc k"] pga by simp
  qed
  obtain nios where n: "fill_niobufs ?n (bp_flag p) 1 p ps [?nb] (uint (bp_count p)) =
      Ret (nios, uint (bp_count p) + int (total_nob ps))"
    "length nios = Suc 0 + more_nio p ps" "concat (map nio_bytes nios) = nio_bytes ?nb @ concat (map page_bytes ps)"
    using fill_niobufs_ok [of 1 p ps ?n "bp_flag p" ?nb "[]" "uint (bp_count p)"] ok rest pga by auto
  have "fill_niobufs ?n (bp_flag p) 0 p pga [] 0 = Ret (nios, int (total_nob pga))"
    using n(1) first pga by (simp add: page_ok_def)
  then show ?thesis using n(2,3) pga by (auto simp: brw_niobufs_def niocount_def nio_bytes_def page_bytes_def)
qed

section \<open>Return codes of a write\<close>

fun first_bad_rc :: "u32 list \<Rightarrow> int" where
  "first_bad_rc [] = 0"
| "first_bad_rc (r # rs) = (if sint r < 0 then sint r else if r \<noteq> 0 then - EPROTO else first_bad_rc rs)"

text \<open>\<open>rcs\<close> is the vector of return codes in the reply, if it is there and long enough.\<close>

definition check_write_rcs :: "u32 list option \<Rightarrow> nat \<Rightarrow> int \<Rightarrow> int \<Rightarrow> int" where
  "check_write_rcs rcs nios nob_transferred requested_nob =
     (case rcs of None \<Rightarrow> - EPROTO
      | Some remote_rcs \<Rightarrow>
          let rc = first_bad_rc (take nios remote_rcs)
          in if rc \<noteq> 0 then rc else if nob_transferred \<noteq> requested_nob then - EPROTO else 0)"

lemma first_bad_rc_zero: "first_bad_rc rs = 0 \<longleftrightarrow> (\<forall>r \<in> set rs. r = 0)"
  by (induction rs) auto

section \<open>Short reads\<close>

type_synonym page_mem = "page \<Rightarrow> nat \<Rightarrow> u8"

definition memset_page :: "page \<Rightarrow> nat \<Rightarrow> nat \<Rightarrow> page_mem \<Rightarrow> page_mem" where
  "memset_page pg off n mem = mem(pg := (\<lambda>i. if off \<le> i \<and> i < off + n then 0 else mem pg i))"

fun skip_read :: "int \<Rightarrow> brw_page list \<Rightarrow> page_mem \<Rightarrow> (brw_page list \<times> page_mem) outcome" where
  "skip_read nob_read [] mem = (if nob_read > 0 then Fault LBUG else Ret ([], mem))"
| "skip_read nob_read (p # ps) mem =
     (if nob_read > 0 then
        if uint (bp_count p) > nob_read
        then Ret (ps, memset_page (bp_pg p) (poff p + nat nob_read) (unat (bp_count p) - nat nob_read) mem)
        else skip_read (nob_read - uint (bp_count p)) ps mem
      else Ret (p # ps, mem))"

definition zero_pages :: "brw_page list \<Rightarrow> page_mem \<Rightarrow> page_mem" where
  "zero_pages = fold (\<lambda>p. memset_page (bp_pg p) (poff p) (unat (bp_count p)))"

definition handle_short_read :: "int \<Rightarrow> brw_page list \<Rightarrow> page_mem \<Rightarrow> page_mem outcome" where
  "handle_short_read nob_read pga mem =
     bindO (skip_read nob_read pga mem) (\<lambda>(rest, mem). Ret (zero_pages rest mem))"

text \<open>The bytes of a read, in the order of the pages.\<close>

definition page_data :: "page_mem \<Rightarrow> brw_page \<Rightarrow> u8 list" where
  "page_data mem p = map (mem (bp_pg p)) [poff p..<poff p + unat (bp_count p)]"

definition read_data :: "page_mem \<Rightarrow> brw_page list \<Rightarrow> u8 list" where
  "read_data mem pga = concat (map (page_data mem) pga)"

lemma page_data_length [simp]: "length (page_data mem p) = unat (bp_count p)"
  by (simp add: page_data_def)

lemma page_data_other: "bp_pg p \<noteq> pg \<Longrightarrow> page_data (memset_page pg off n mem) p = page_data mem p"
  by (simp add: page_data_def memset_page_def)

lemma read_data_other: "pg \<notin> bp_pg ` set ps \<Longrightarrow> read_data (memset_page pg off n mem) ps = read_data mem ps"
  unfolding read_data_def by (intro arg_cong [where f = concat] map_cong) (auto intro: page_data_other)

lemma page_data_memset:
  assumes "k \<le> unat (bp_count p)"
  shows "page_data (memset_page (bp_pg p) (poff p + k) (unat (bp_count p) - k) mem) p =
    take k (page_data mem p) @ replicate (unat (bp_count p) - k) 0"
  by (rule nth_equalityI) (use assms in \<open>auto simp: page_data_def memset_page_def nth_append\<close>)

lemma zero_pages_other: "bp_pg p \<notin> bp_pg ` set ps \<Longrightarrow> page_data (zero_pages ps mem) p = page_data mem p"
  unfolding zero_pages_def by (induction ps arbitrary: mem) (auto simp: page_data_other)

lemma zero_pages_data:
  "distinct (map bp_pg ps) \<Longrightarrow> read_data (zero_pages ps mem) ps = replicate (total_nob ps) 0"
proof (induction ps arbitrary: mem)
  case (Cons p ps)
  let ?m = "memset_page (bp_pg p) (poff p) (unat (bp_count p)) mem"
  have "page_data (zero_pages ps ?m) p = page_data ?m p" by (rule zero_pages_other) (use Cons.prems in simp)
  moreover have "page_data ?m p = replicate (unat (bp_count p)) 0" using page_data_memset [of 0 p mem] by simp
  moreover have "zero_pages (p # ps) mem = zero_pages ps ?m" by (simp add: zero_pages_def)
  ultimately show ?case using Cons by (simp add: read_data_def replicate_add)
qed (simp add: read_data_def)

lemma read_data_Cons: "read_data mem (p # ps) = page_data mem p @ read_data mem ps"
  by (simp add: read_data_def)

lemma zero_pages_data_other: "bp_pg ` set qs \<inter> bp_pg ` set ps = {} \<Longrightarrow> read_data (zero_pages ps mem) qs = read_data mem qs"
  unfolding read_data_def by (intro arg_cong [where f = concat] map_cong) (auto intro: zero_pages_other)

lemma read_data_length [simp]: "length (read_data mem ps) = total_nob ps"
  by (simp add: read_data_def length_concat comp_def total_nob_def)

lemma short_read_ok:
  "distinct (map bp_pg pga) \<Longrightarrow> n \<le> total_nob pga \<Longrightarrow>
   \<exists>mem'. handle_short_read (int n) pga mem = Ret mem' \<and> (\<forall>q. q \<notin> bp_pg ` set pga \<longrightarrow> mem' q = mem q) \<and>
     read_data mem' pga = take n (read_data mem pga) @ replicate (total_nob pga - n) 0"
proof (induction pga arbitrary: n)
  case Nil
  then show ?case by (simp add: handle_short_read_def zero_pages_def read_data_def)
next
  case (Cons p ps)
  have zo: "(zero_pages qs m) q = m q" if "q \<notin> bp_pg ` set qs" for qs q m
    using that unfolding zero_pages_def by (induction qs arbitrary: m) (auto simp: memset_page_def)
  have c: "uint (bp_count p) = int (unat (bp_count p))" by simp
  consider (none) "n = 0" | (inside) "0 < n" "n < unat (bp_count p)" | (past) "0 < n" "unat (bp_count p) \<le> n" by linarith
  then show ?case
  proof cases
    case none
    then show ?thesis using zero_pages_data [OF Cons.prems(1), of mem] zo [of _ "p # ps" mem]
      by (simp add: handle_short_read_def)
  next
    case inside
    let ?m = "memset_page (bp_pg p) (poff p + n) (unat (bp_count p) - n) mem"
    have lt: "int n < uint (bp_count p)" using c inside by linarith
    have "page_data (zero_pages ps ?m) p = page_data ?m p" by (rule zero_pages_other) (use Cons.prems in simp)
    then have "read_data (zero_pages ps ?m) (p # ps) =
        (take n (page_data mem p) @ replicate (unat (bp_count p) - n) 0) @ replicate (total_nob ps) 0"
      using zero_pages_data [of ps ?m] Cons.prems(1) page_data_memset [of n p mem] inside by (simp add: read_data_Cons)
    moreover have "zero_pages ps ?m q = mem q" if "q \<noteq> bp_pg p" "q \<notin> bp_pg ` set ps" for q
      using zo [of q ps ?m] that by (simp add: memset_page_def)
    ultimately show ?thesis using inside lt
      by (simp add: handle_short_read_def read_data_Cons flip: replicate_add)
  next
    case past
    have "n - unat (bp_count p) \<le> total_nob ps" using Cons.prems(2) by simp
    then obtain mem' where m: "handle_short_read (int (n - unat (bp_count p))) ps mem = Ret mem'"
      "\<forall>q. q \<notin> bp_pg ` set ps \<longrightarrow> mem' q = mem q"
      "read_data mem' ps = take (n - unat (bp_count p)) (read_data mem ps) @
         replicate (total_nob ps - (n - unat (bp_count p))) 0"
      using Cons.IH [of "n - unat (bp_count p)"] Cons.prems(1) by auto
    have "page_data mem' p = page_data mem p" using m(2) Cons.prems(1) by (simp add: page_data_def)
    moreover have "handle_short_read (int n) (p # ps) mem = Ret mem'"
    proof -
      have b: "(0 < int n) = True" using past by simp
      have b': "(int n < uint (bp_count p)) = False" unfolding c of_nat_less_iff using past by simp
      have b'': "int n - uint (bp_count p) = int (n - unat (bp_count p))" unfolding c using past by (simp add: of_nat_diff)
      show ?thesis using m(1) unfolding handle_short_read_def skip_read.simps(2) b b' b'' if_True if_False .
    qed
    ultimately show ?thesis using m(2,3) past Cons.prems(2)
      by (intro exI [of _ mem'] conjI) (auto simp: read_data_Cons)
  qed
qed

section \<open>Results\<close>



definition sample_page :: "u64 \<Rightarrow> u32 \<Rightarrow> page \<Rightarrow> brw_page" where
  "sample_page off cnt pg = \<lparr>bp_off = off, bp_pg = pg, bp_count = cnt, bp_flag = 0x20\<rparr>"


text \<open>
  After a short read the pages hold the bytes that were read, and zeros behind them; no other page
  changes.
\<close>

theorem short_read_zeroes_rest:
  assumes "distinct (map bp_pg pga)" and "n \<le> total_nob pga"
  shows "\<exists>mem'. handle_short_read (int n) pga mem = Ret mem' \<and> (\<forall>q. q \<notin> bp_pg ` set pga \<longrightarrow> mem' q = mem q) \<and>
    read_data mem' pga = take n (read_data mem pga) @ replicate (total_nob pga - n) 0"
  by (rule short_read_ok [OF assms])

theorem short_read_zeroes_rest_witness:
  "\<exists>mem'. handle_short_read 5 [sample_page 0 4 0, sample_page 4096 4 1] (\<lambda>_ _. 7) = Ret mem' \<and>
     read_data mem' [sample_page 0 4 0, sample_page 4096 4 1] = [7, 7, 7, 7, 7, 0, 0, 0]"
  using short_read_zeroes_rest [of "[sample_page 0 4 0, sample_page 4096 4 1]" 5 "\<lambda>_ _. 7"]
  by (auto simp: sample_page_def read_data_def page_data_def poff_def upt_rec numeral_3_eq_3)

end
