(* ===== verification/Osc_Bulk.thy ===== *)
theory Osc_Bulk
  imports Osc_Brw
begin

text \<open>
  A bulk request from its preparation to its reply (\<open>osc_request.c\<close>): the request body with its
  remote buffers, the books of the grant it announces, the checksum, what the reply means, and the
  request that is sent again. Requests, capsules and the hash functions are outside \<open>src/\<close>; what they
  return are arguments. The fault injection points (\<open>OBD_FAIL_CHECK\<close>) are not armed.
\<close>

abbreviation (input) EINPROGRESS :: int where "EINPROGRESS \<equiv> 115"
abbreviation (input) EINTR :: int where "EINTR \<equiv> 4"
abbreviation (input) EAGAIN :: int where "EAGAIN \<equiv> 11"

definition OBD_MD_FLCKSUM :: u64 where "OBD_MD_FLCKSUM = 0x00100000"
definition OBD_MD_FLUSRQUOTA :: u64 where "OBD_MD_FLUSRQUOTA = 0x20000000"
definition OBD_MD_FLGRPQUOTA :: u64 where "OBD_MD_FLGRPQUOTA = 0x40000000"
definition OBD_FL_RECOV_RESEND :: u32 where "OBD_FL_RECOV_RESEND = 0x00080000"
definition OBD_FL_LOCAL_MASK :: u32 where "OBD_FL_LOCAL_MASK = 0xF0000000"

section \<open>The attributes on the wire\<close>

text \<open>The object identifier, which both functions convert for old servers, is not among the fields.\<close>

definition lustre_set_wire_obdo :: "obdo \<Rightarrow> obdo" where
  "lustre_set_wire_obdo lobdo = lobdo\<lparr>o_flags := o_flags lobdo AND NOT OBD_FL_LOCAL_MASK\<rparr>"

definition lustre_get_wire_obdo :: "obdo \<Rightarrow> obdo \<Rightarrow> obdo" where
  "lustre_get_wire_obdo lobdo wobdo =
     (let local_flags = (if o_valid lobdo AND OBD_MD_FLFLAGS \<noteq> 0 then o_flags lobdo AND OBD_FL_LOCAL_MASK else 0)
      in if local_flags \<noteq> 0
         then wobdo\<lparr>o_valid := o_valid wobdo OR OBD_MD_FLFLAGS,
                    o_flags := (o_flags wobdo AND NOT OBD_FL_LOCAL_MASK) OR local_flags\<rparr>
         else wobdo)"

section \<open>Checksums\<close>

text \<open>The pieces of the pages the hash runs over: page, offset and length.\<close>

fun cksum_pieces :: "int \<Rightarrow> brw_page list \<Rightarrow> (page \<times> nat \<times> nat) list" where
  "cksum_pieces nob [] = []"
| "cksum_pieces nob (p # ps) =
     (if nob > 0
      then (bp_pg p, poff p, if uint (bp_count p) > nob then nat nob else unat (bp_count p)) # cksum_pieces (nob - uint (bp_count p)) ps
      else [])"

definition piece_data :: "page_mem \<Rightarrow> page \<times> nat \<times> nat \<Rightarrow> u8 list" where
  "piece_data mem piece = (case piece of (pg, off, n) \<Rightarrow> map (mem pg) [off..<off + n])"

text \<open>
  \<open>crypto\<close> is the hash of the kernel for a checksum type: an error number when it cannot be set up, or
  the hash of a string of bytes.
\<close>

type_synonym crypto = "u32 \<Rightarrow> int + (u8 list \<Rightarrow> u32)"

definition osc_checksum_bulk :: "crypto \<Rightarrow> int \<Rightarrow> brw_page list \<Rightarrow> u32 \<Rightarrow> page_mem \<Rightarrow> u32 outcome" where
  "osc_checksum_bulk crypto nob pga cksum_type mem =
     lassert (pga \<noteq> [])
       (Ret (case crypto cksum_type of
               Inl err \<Rightarrow> of_int err
             | Inr hash \<Rightarrow> hash (concat (map (piece_data mem) (cksum_pieces nob pga)))))"

datatype cksum_verdict = CONFIRMED | WRONG_TYPE | CHANGED_ON_CLIENT | CHANGED_IN_TRANSIT | CHANGED_BOTH

text \<open>\<open>unpack\<close> is \<open>cksum_type_unpack\<close>. Everything but \<open>CONFIRMED\<close> is reported and returned as 1.\<close>

definition check_write_checksum ::
  "crypto \<Rightarrow> (u32 \<Rightarrow> u32) \<Rightarrow> obdo \<Rightarrow> u32 \<Rightarrow> u32 \<Rightarrow> int \<Rightarrow> brw_page list \<Rightarrow> u32 \<Rightarrow> page_mem \<Rightarrow> cksum_verdict outcome" where
  "check_write_checksum crypto unpack oa client_cksum server_cksum nob pga client_cksum_type mem =
     (if server_cksum = client_cksum then Ret CONFIRMED
      else
        let cksum_type = unpack (if o_valid oa AND OBD_MD_FLFLAGS \<noteq> 0 then o_flags oa else 0)
        in bindO (osc_checksum_bulk crypto nob pga cksum_type mem) (\<lambda>new_cksum.
             Ret (if cksum_type \<noteq> client_cksum_type then WRONG_TYPE
                  else if new_cksum = server_cksum then CHANGED_ON_CLIENT
                  else if new_cksum = client_cksum then CHANGED_IN_TRANSIT
                  else CHANGED_BOTH)))"

section \<open>Preparing a request\<close>

text \<open>
  What the calls outside the model return, and the settings of the client: allocation and packing of
  the request, the bulk descriptor, whether the security flavor checks the bulk itself, the checksum
  settings (\<open>pack\<close>, \<open>unpack\<close> turn a type into flags and back), and the clocks of the grant.
\<close>

record brw_env =
  be_alloc :: bool
  be_pack :: int
  be_desc :: bool
  be_flavor_bulk :: bool
  cl_checksum :: bool
  cl_cksum_type :: u32
  be_pack_type :: "u32 \<Rightarrow> u32"
  be_unpack_type :: "u32 \<Rightarrow> u32"
  be_crypto :: crypto
  be_now_shift :: clock
  be_connect_flags :: u64
  be_due :: "int \<Rightarrow> bool"
  be_full :: bool

text \<open>\<open>struct osc_brw_async_args\<close> with the parts of the request that were filled in.\<close>

record brw_req =
  rq_write :: bool
  rq_body :: obdo
  rq_niobufs :: "niobuf_remote list"
  aa_oa :: obdo
  aa_requested_nob :: int
  aa_nio_count :: nat
  aa_resends :: int
  aa_ppga :: "brw_page list"

definition mark_resend :: "bool \<Rightarrow> obdo \<Rightarrow> obdo" where
  "mark_resend resend body =
     (if resend then
        let body = (if o_valid body AND OBD_MD_FLFLAGS = 0
                    then body\<lparr>o_valid := o_valid body OR OBD_MD_FLFLAGS, o_flags := 0\<rparr> else body)
        in body\<lparr>o_flags := o_flags body OR OBD_FL_RECOV_RESEND\<rparr>
      else body)"

text \<open>The checksum of a write; \<open>oa\<close> keeps it for the reply. The result is the body and \<open>oa\<close>.\<close>

definition write_cksum :: "brw_env \<Rightarrow> int \<Rightarrow> brw_page list \<Rightarrow> page_mem \<Rightarrow> obdo \<Rightarrow> obdo \<Rightarrow> (obdo \<times> obdo) outcome" where
  "write_cksum be nob pga mem body oa =
     (if cl_checksum be \<and> \<not> be_flavor_bulk be then
        let unset = (o_valid body AND OBD_MD_FLFLAGS = 0);
            oa = (if unset then oa\<lparr>o_flags := o_flags oa AND OBD_FL_LOCAL_MASK\<rparr> else oa);
            body = (if unset then body\<lparr>o_flags := 0\<rparr> else body);
            body = body\<lparr>o_flags := o_flags body OR be_pack_type be (cl_cksum_type be),
                        o_valid := o_valid body OR (OBD_MD_FLCKSUM OR OBD_MD_FLFLAGS)\<rparr>
        in bindO (osc_checksum_bulk (be_crypto be) nob pga (cl_cksum_type be) mem) (\<lambda>cksum.
             Ret (body\<lparr>o_cksum := cksum\<rparr>,
                  oa\<lparr>o_valid := o_valid oa OR (OBD_MD_FLCKSUM OR OBD_MD_FLFLAGS),
                     o_flags := o_flags oa OR be_pack_type be (cl_cksum_type be), o_cksum := cksum\<rparr>))
      else Ret (body, oa\<lparr>o_valid := o_valid oa AND NOT OBD_MD_FLCKSUM, o_cksum := o_cksum body\<rparr>))"

definition read_cksum :: "brw_env \<Rightarrow> obdo \<Rightarrow> obdo" where
  "read_cksum be body =
     (if cl_checksum be \<and> \<not> be_flavor_bulk be then
        let body = (if o_valid body AND OBD_MD_FLFLAGS = 0 then body\<lparr>o_flags := 0\<rparr> else body)
        in body\<lparr>o_flags := o_flags body OR be_pack_type be (cl_cksum_type be),
                o_valid := o_valid body OR (OBD_MD_FLCKSUM OR OBD_MD_FLFLAGS)\<rparr>
      else body)"

text \<open>After the announcement: the mark of a request sent again, and grant that is given back with it.\<close>

definition resend_and_shrink :: "brw_env \<Rightarrow> bool \<Rightarrow> obdo \<Rightarrow> osc_cli \<Rightarrow> obdo \<times> osc_cli" where
  "resend_and_shrink be resend body cli =
     (let body = mark_resend resend body;
          (shrink, cli) = osc_should_shrink_grant (be_now_shift be) (be_connect_flags be) (be_due be) (be_full be) cli
      in if shrink then osc_shrink_grant_local (be_now_shift be) body cli else (body, cli))"

definition osc_brw_prep_request ::
  "brw_env \<Rightarrow> bool \<Rightarrow> obdo \<Rightarrow> brw_page list \<Rightarrow> bool \<Rightarrow> page_mem \<Rightarrow> osc_cli \<Rightarrow> (int \<times> brw_req option \<times> obdo \<times> osc_cli) outcome" where
  "osc_brw_prep_request be write oa pga resend mem cli =
     (if \<not> be_alloc be then Ret (- ENOMEM, None, oa, cli)
      else if be_pack be \<noteq> 0 then Ret (be_pack be, None, oa, cli)
      else if \<not> be_desc be then Ret (- ENOMEM, None, oa, cli)
      else
        bindO (brw_niobufs pga) (\<lambda>(nios, requested_nob).
        bindO (osc_announce_cached (lustre_set_wire_obdo oa) cli) (\<lambda>(body, cli).
          let (body, cli) = resend_and_shrink be resend body cli
          in bindO (if write then write_cksum be requested_nob pga mem body oa else Ret (read_cksum be body, oa)) (\<lambda>(body, oa).
             Ret (0, Some \<lparr>rq_write = write, rq_body = body, rq_niobufs = nios, aa_oa = oa, aa_requested_nob = requested_nob,
                           aa_nio_count = niocount pga, aa_resends = 0, aa_ppga = pga\<rparr>, oa, cli)))))"

section \<open>The reply\<close>

text \<open>
  What came back: the message, its body and the return codes if they could be unpacked, the bytes of
  the bulk, and what the security layer says about it.
\<close>

record brw_reply =
  rp_repmsg :: bool
  rp_body :: "obdo option"
  rp_rcs :: "u32 list option"
  bd_nob :: int
  bd_nob_transferred :: int
  rp_unwrap_write :: int
  rp_unwrap_read :: "int \<Rightarrow> int"

text \<open>The result also says whether the quota flags of the body were handed to \<open>osc_quota_setdq\<close>.\<close>

record brw_state =
  bs_cli :: osc_cli
  bs_oa :: obdo
  bs_mem :: page_mem
  bs_setdq :: "obdo option"

definition fini_write ::
  "brw_env \<Rightarrow> brw_reply \<Rightarrow> brw_req \<Rightarrow> obdo \<Rightarrow> u32 \<Rightarrow> int \<Rightarrow> brw_state \<Rightarrow> (int \<times> brw_state) outcome" where
  "fini_write be rp aa body client_cksum rc st =
     (if rc > 0 then Ret (- EPROTO, st)
      else lassert (bd_nob rp = aa_requested_nob aa)
       (if rp_unwrap_write rp \<noteq> 0 then Ret (- EAGAIN, st)
        else
          bindO (if o_valid (bs_oa st) AND OBD_MD_FLCKSUM \<noteq> 0 \<and> client_cksum \<noteq> 0
                 then check_write_checksum (be_crypto be) (be_unpack_type be) body client_cksum (o_cksum body)
                        (aa_requested_nob aa) (aa_ppga aa) (be_unpack_type be (o_flags (bs_oa st))) (bs_mem st)
                 else Ret CONFIRMED) (\<lambda>verdict.
          if verdict \<noteq> CONFIRMED then Ret (- EAGAIN, st)
          else
            let rc = check_write_rcs (rp_rcs rp) (aa_nio_count aa) (bd_nob_transferred rp) (aa_requested_nob aa)
            in Ret (rc, if rc \<ge> 0 then st\<lparr>bs_oa := lustre_get_wire_obdo (bs_oa st) body\<rparr> else st))))"

definition fini_read ::
  "brw_env \<Rightarrow> brw_reply \<Rightarrow> brw_req \<Rightarrow> obdo \<Rightarrow> u32 \<Rightarrow> int \<Rightarrow> brw_state \<Rightarrow> (int \<times> brw_state) outcome" where
  "fini_read be rp aa body client_cksum rc st =
     (let rc = rp_unwrap_read rp rc in
      if rc < 0 then Ret (- EAGAIN, st)
      else if rc > aa_requested_nob aa then Ret (- EPROTO, st)
      else if rc \<noteq> bd_nob_transferred rp then Ret (- EPROTO, st)
      else
        bindO (if rc < aa_requested_nob aa then handle_short_read rc (aa_ppga aa) (bs_mem st) else Ret (bs_mem st)) (\<lambda>mem.
        let st = st\<lparr>bs_mem := mem\<rparr> in
        bindO
          (if o_valid body AND OBD_MD_FLCKSUM \<noteq> 0 then
             let cksum_type = be_unpack_type be (if o_valid body AND OBD_MD_FLFLAGS \<noteq> 0 then o_flags body else 0)
             in bindO (osc_checksum_bulk (be_crypto be) rc (aa_ppga aa) cksum_type mem) (\<lambda>cksum.
                  if o_cksum body \<noteq> cksum then Ret (- EAGAIN, st\<lparr>bs_oa := (bs_oa st)\<lparr>o_cksum := cksum\<rparr>\<rparr>) else Ret (0, st))
           else Ret (if client_cksum \<noteq> 0 then rc else 0, st)) (\<lambda>(rc, st).
        Ret (rc, if rc \<ge> 0 then st\<lparr>bs_oa := lustre_get_wire_obdo (bs_oa st) body\<rparr> else st))))"

definition osc_brw_fini_request :: "brw_env \<Rightarrow> brw_reply \<Rightarrow> brw_req \<Rightarrow> int \<Rightarrow> brw_state \<Rightarrow> (int \<times> brw_state) outcome" where
  "osc_brw_fini_request be rp aa rc st =
     (if rc < 0 \<and> rc \<noteq> - EDQUOT then Ret (rc, st)
      else lassert (rp_repmsg rp)
       (case rp_body rp of None \<Rightarrow> Ret (- EPROTO, st)
        | Some body \<Rightarrow>
          let st = (if rq_write aa \<and> o_valid body AND (OBD_MD_FLUSRQUOTA OR OBD_MD_FLGRPQUOTA) \<noteq> 0
                    then st\<lparr>bs_setdq := Some body\<rparr> else st);
              st = st\<lparr>bs_cli := osc_update_grant body (bs_cli st)\<rparr>
          in if rc < 0 then Ret (rc, st)
             else
               let client_cksum = (if o_valid (bs_oa st) AND OBD_MD_FLCKSUM \<noteq> 0 then o_cksum (bs_oa st) else 0)
               in if rq_write aa then fini_write be rp aa body client_cksum rc st
                  else fini_read be rp aa body client_cksum rc st))"

section \<open>Sending it again\<close>

text \<open>
  The new request takes over pages and extents; the result has the time it is sent at. \<open>interrupted\<close>
  says that a page of the old request was interrupted, \<open>now\<close> is the clock in seconds, \<open>timeout\<close> that of
  the new request. The new asynchronous arguments are a copy of the old ones.
\<close>

definition osc_brw_redo_request ::
  "brw_env \<Rightarrow> bool \<Rightarrow> int \<Rightarrow> int \<Rightarrow> brw_req \<Rightarrow> page_mem \<Rightarrow> osc_cli \<Rightarrow> (int \<times> (brw_req \<times> int) option \<times> obdo \<times> osc_cli) outcome" where
  "osc_brw_redo_request be interrupted now timeout aa mem cli =
     bindO (osc_brw_prep_request be (rq_write aa) (aa_oa aa) (aa_ppga aa) True mem cli) (\<lambda>(rc, new, oa, cli).
       case new of None \<Rightarrow> Ret (rc, None, oa, cli)
       | Some req \<Rightarrow>
         if interrupted then Ret (- EINTR, None, oa, cli)
         else
           let resends = aa_resends aa + 1;
               new_aa = aa\<lparr>aa_oa := oa, aa_resends := resends, rq_body := rq_body req, rq_niobufs := rq_niobufs req\<rparr>
           in Ret (0, Some (new_aa, now + (if resends > timeout then timeout else resends)), oa, cli))"

text \<open>\<open>cl_resends\<close> limits the attempts; 0 is no limit.\<close>

definition client_should_resend :: "int \<Rightarrow> int \<Rightarrow> bool" where
  "client_should_resend resend cl_resends \<longleftrightarrow> (if cl_resends \<noteq> 0 then cl_resends > resend else True)"

section \<open>Lemmas\<close>

lemma cksum_pieces_data:
  "0 \<le> nob \<Longrightarrow> concat (map (piece_data mem) (cksum_pieces nob pga)) = take (nat nob) (read_data mem pga)"
proof (induction pga arbitrary: nob)
  case (Cons p ps)
  have c: "int (unat (bp_count p)) = uint (bp_count p)" by simp
  consider (none) "nob = 0" | (last) "0 < nob" "nob < uint (bp_count p)" | (more) "0 < nob" "uint (bp_count p) \<le> nob"
    using Cons.prems by linarith
  then show ?case
  proof cases
    case none
    then show ?thesis by simp
  next
    case last
    have rest: "cksum_pieces (nob - uint (bp_count p)) ps = []" using last by (cases ps) simp_all
    have n: "nat nob \<le> unat (bp_count p)" using last c by linarith
    then have "piece_data mem (bp_pg p, poff p, nat nob) = take (nat nob) (page_data mem p)"
      by (simp add: piece_data_def page_data_def take_map)
    then show ?thesis using last n rest by (simp add: read_data_Cons)
  next
    case more
    have n: "unat (bp_count p) \<le> nat nob" "nat (nob - uint (bp_count p)) = nat nob - unat (bp_count p)" using more c by linarith+
    have "piece_data mem (bp_pg p, poff p, unat (bp_count p)) = page_data mem p" by (simp add: piece_data_def page_data_def)
    then show ?thesis using more n Cons.IH [of "nob - uint (bp_count p)"] by (simp add: read_data_Cons not_less)
  qed
qed (simp add: read_data_def)

lemma check_write_rcs_zero:
  "check_write_rcs rcs n transferred nob = 0 \<longleftrightarrow> (\<exists>rs. rcs = Some rs \<and> (\<forall>r \<in> set (take n rs). r = 0)) \<and> transferred = nob"
  by (auto simp: check_write_rcs_def Let_def first_bad_rc_zero split: option.splits)

lemma check_write_checksum_confirmed:
  "check_write_checksum crypto unpack oa client server nob pga t mem = Ret CONFIRMED \<longleftrightarrow> server = client"
  by (auto simp: check_write_checksum_def Let_def split: if_splits)

text \<open>The attributes the client keeps never carry the bits that announce grant, so that they can be announced again.\<close>

abbreviation grant_bits :: u64 where "grant_bits \<equiv> OBD_MD_FLBLOCKS OR OBD_MD_FLGRANT"

lemma write_cksum_ok:
  assumes "pga \<noteq> []" and "o_valid oa AND grant_bits = 0"
  shows "\<exists>body' oa'. write_cksum be nob pga mem body oa = Ret (body', oa') \<and> o_valid oa' AND grant_bits = 0 \<and>
    o_sent_time oa' = o_sent_time oa \<and>
    (o_valid oa' AND OBD_MD_FLCKSUM \<noteq> 0 \<longleftrightarrow> cl_checksum be \<and> \<not> be_flavor_bulk be)"
proof -
  have k: "(OBD_MD_FLCKSUM OR OBD_MD_FLFLAGS) AND grant_bits = 0" "OBD_MD_FLCKSUM AND (OBD_MD_FLCKSUM OR OBD_MD_FLFLAGS) \<noteq> 0"
    by (simp_all add: OBD_MD_FLCKSUM_def OBD_MD_FLFLAGS_def OBD_MD_FLBLOCKS_def OBD_MD_FLGRANT_def)
  have v: "(w OR (OBD_MD_FLCKSUM OR OBD_MD_FLFLAGS)) AND grant_bits = 0" "(w AND NOT OBD_MD_FLCKSUM) AND grant_bits = 0"
    if "w AND grant_bits = 0" for w :: u64
  proof -
    show "(w OR (OBD_MD_FLCKSUM OR OBD_MD_FLFLAGS)) AND grant_bits = 0"
      using that k(1) bit.conj_disj_distrib2 [of w "OBD_MD_FLCKSUM OR OBD_MD_FLFLAGS" grant_bits] by simp
    have "(w AND NOT OBD_MD_FLCKSUM) AND grant_bits = NOT OBD_MD_FLCKSUM AND (w AND grant_bits)" by (simp only: ac_simps)
    then show "(w AND NOT OBD_MD_FLCKSUM) AND grant_bits = 0" using that by simp
  qed
  have c: "(w OR (OBD_MD_FLCKSUM OR OBD_MD_FLFLAGS)) AND OBD_MD_FLCKSUM \<noteq> 0" "(w AND NOT OBD_MD_FLCKSUM) AND OBD_MD_FLCKSUM = 0" for w :: u64
  proof -
    have "(w OR (OBD_MD_FLCKSUM OR OBD_MD_FLFLAGS)) AND OBD_MD_FLCKSUM = OBD_MD_FLCKSUM"
      by (rule bit_eqI) (auto simp: bit_and_iff bit_or_iff)
    then show "(w OR (OBD_MD_FLCKSUM OR OBD_MD_FLFLAGS)) AND OBD_MD_FLCKSUM \<noteq> 0" by (simp add: OBD_MD_FLCKSUM_def)
    show "(w AND NOT OBD_MD_FLCKSUM) AND OBD_MD_FLCKSUM = 0" by (simp add: and.assoc)
  qed
  show ?thesis using assms v(1) [OF assms(2)] v(2) [OF assms(2)] c [of "o_valid oa"]
    by (simp add: write_cksum_def osc_checksum_bulk_def Let_def)
qed

lemma prep_request_ok:
  assumes "brw_pages_ok pga" and "o_valid oa AND grant_bits = 0"
  shows "\<exists>rc new oa' cli'. osc_brw_prep_request be write oa pga resend mem cli = Ret (rc, new, oa', cli') \<and>
    (new = None \<longleftrightarrow> rc \<noteq> 0) \<and> o_valid oa' AND grant_bits = 0 \<and> o_sent_time oa' = o_sent_time oa \<and>
    (\<forall>req. new = Some req \<longrightarrow> aa_ppga req = pga \<and> aa_requested_nob req = int (total_nob pga) \<and> aa_nio_count req = niocount pga \<and>
      length (rq_niobufs req) = niocount pga \<and> concat (map nio_bytes (rq_niobufs req)) = concat (map page_bytes pga))"
proof -
  obtain nios where n: "brw_niobufs pga = Ret (nios, int (total_nob pga))" "length nios = niocount pga"
      "concat (map nio_bytes nios) = concat (map page_bytes pga)"
    using niobufs_ok [OF assms(1)] by blast
  have ne: "pga \<noteq> []" using assms(1) by (simp add: brw_pages_ok_def)
  obtain body cli1 where a: "osc_announce_cached (lustre_set_wire_obdo oa) cli = Ret (body, cli1)"
    using assms(2) by (simp add: osc_announce_cached_def Let_def lustre_set_wire_obdo_def)
  show ?thesis
  proof (cases "be_alloc be \<and> be_pack be = 0 \<and> be_desc be")
    case False
    then show ?thesis using assms(2) by (auto simp: osc_brw_prep_request_def)
  next
    case True
    obtain b c where bc: "resend_and_shrink be resend body cli1 = (b, c)" by fastforce
    obtain b' oa' where w: "write_cksum be (int (total_nob pga)) pga mem b oa = Ret (b', oa')" "o_valid oa' AND grant_bits = 0"
      "o_sent_time oa' = o_sent_time oa"
      using write_cksum_ok [OF ne assms(2)] by blast
    show ?thesis using True n a bc w assms(2) by (cases "write") (simp_all add: osc_brw_prep_request_def)
  qed
qed

section \<open>Results\<close>


text \<open>
  A bulk read that succeeds leaves in the pages the bytes that came over the wire followed by
  zeros up to the end of the request, and if the reply carried a checksum it is the hash of those
  bytes.
\<close>

theorem read_done_data:
  assumes "\<not> rq_write aa" and "osc_brw_fini_request be rp aa rc st = Ret (rc', st')" and "rc' \<ge> 0"
    and "distinct (map bp_pg (aa_ppga aa))" and "aa_requested_nob aa = int (total_nob (aa_ppga aa))"
  shows "\<exists>body n. rp_body rp = Some body \<and> int n = bd_nob_transferred rp \<and> n \<le> total_nob (aa_ppga aa) \<and>
    read_data (bs_mem st') (aa_ppga aa) = take n (read_data (bs_mem st) (aa_ppga aa)) @ replicate (total_nob (aa_ppga aa) - n) 0 \<and>
    (o_valid body AND OBD_MD_FLCKSUM \<noteq> 0 \<longrightarrow> rc' = 0 \<and>
      (\<forall>hash. be_crypto be (be_unpack_type be (if o_valid body AND OBD_MD_FLFLAGS \<noteq> 0 then o_flags body else 0)) = Inr hash \<longrightarrow>
        o_cksum body = hash (take n (read_data (bs_mem st) (aa_ppga aa)))))"
proof -
  let ?pga = "aa_ppga aa" and ?n = "rp_unwrap_read rp rc"
  obtain body where b: "rp_body rp = Some body" "\<not> rc < 0"
    using assms by (auto simp: osc_brw_fini_request_def Let_def split: if_splits option.splits)
  let ?st = "st\<lparr>bs_cli := osc_update_grant body (bs_cli st)\<rparr>"
  let ?c = "if o_valid (bs_oa st) AND OBD_MD_FLCKSUM \<noteq> 0 then o_cksum (bs_oa st) else 0"
  have f: "fini_read be rp aa body ?c rc ?st = Ret (rc', st')"
    using assms(1,2) b by (auto simp: osc_brw_fini_request_def Let_def)
  have r: "0 \<le> ?n" "?n \<le> int (total_nob ?pga)" "?n = bd_nob_transferred rp"
    using f assms(3,5) by (auto simp: fini_read_def Let_def split: if_splits)
  define n where "n = nat ?n"
  have n: "?n = int n" "n \<le> total_nob ?pga" using r(1,2) by (simp_all add: n_def)
  let ?m = "if ?n < aa_requested_nob aa then handle_short_read ?n ?pga (bs_mem st) else Ret (bs_mem st)"
  have "\<exists>mem. ?m = Ret mem \<and> read_data mem ?pga = take n (read_data (bs_mem st) ?pga) @ replicate (total_nob ?pga - n) 0"
    using short_read_ok [OF assms(4) n(2), of "bs_mem st"] n assms(5) by (auto simp: take_all)
  then obtain mem where m: "?m = Ret mem" "read_data mem ?pga = take n (read_data (bs_mem st) ?pga) @ replicate (total_nob ?pga - n) 0"
    by blast
  have nn: "n = length (take n (read_data (bs_mem st) ?pga))" using n(2) by simp
  have p: "concat (map (piece_data mem) (cksum_pieces ?n ?pga)) = take n (read_data (bs_mem st) ?pga)"
    using cksum_pieces_data [of ?n mem ?pga] n m(2) nn by simp
  have mem: "bs_mem st' = mem" using f r n m(1) assms(3) by (auto simp: fini_read_def Let_def bindO_Ret_conv split: if_splits)
  have "o_valid body AND OBD_MD_FLCKSUM \<noteq> 0 \<longrightarrow> rc' = 0 \<and>
      (\<forall>hash. be_crypto be (be_unpack_type be (if o_valid body AND OBD_MD_FLFLAGS \<noteq> 0 then o_flags body else 0)) = Inr hash \<longrightarrow>
        o_cksum body = hash (take n (read_data (bs_mem st) ?pga)))"
    using f r m(1) assms(3,5) p by (auto simp: fini_read_def Let_def bindO_Ret_conv osc_checksum_bulk_def split: if_splits)
  then show ?thesis using b(1) r(3) n m(2) mem by (intro exI [of _ body] exI [of _ n]) simp
qed

text \<open>
  Sending a request again never trips an assertion: the attributes kept from the first attempt can
  be announced once more. The pages stay, the number of attempts grows by one, and the delay grows
  with it up to the timeout. The time the QoS controller takes as the start of the round trip is that
  of the first attempt.
\<close>

theorem redo_request_ok:
  assumes "brw_pages_ok (aa_ppga aa)" and "o_valid (aa_oa aa) AND (OBD_MD_FLBLOCKS OR OBD_MD_FLGRANT) = 0"
    and "0 \<le> aa_resends aa" and "0 \<le> timeout"
  shows "\<exists>rc new oa' cli'. osc_brw_redo_request be interrupted now timeout aa mem cli = Ret (rc, new, oa', cli') \<and>
    (new = None \<longleftrightarrow> rc \<noteq> 0) \<and> o_valid oa' AND (OBD_MD_FLBLOCKS OR OBD_MD_FLGRANT) = 0 \<and>
    (\<forall>req t. new = Some (req, t) \<longrightarrow> aa_resends req = aa_resends aa + 1 \<and> now \<le> t \<and> t \<le> now + timeout \<and>
      aa_ppga req = aa_ppga aa \<and> length (rq_niobufs req) = niocount (aa_ppga aa) \<and> o_sent_time (aa_oa req) = o_sent_time (aa_oa aa))"
proof -
  obtain rc new oa' cli' where p: "osc_brw_prep_request be (rq_write aa) (aa_oa aa) (aa_ppga aa) True mem cli = Ret (rc, new, oa', cli')"
    "new = None \<longleftrightarrow> rc \<noteq> 0" "o_valid oa' AND grant_bits = 0" "o_sent_time oa' = o_sent_time (aa_oa aa)"
    "\<forall>req. new = Some req \<longrightarrow> length (rq_niobufs req) = niocount (aa_ppga aa)"
    using prep_request_ok [OF assms(1,2), of be "rq_write aa" True mem cli] by blast
  show ?thesis
  proof (cases new)
    case None
    then show ?thesis using p by (auto simp: osc_brw_redo_request_def)
  next
    case (Some req)
    then show ?thesis using p assms(3,4) by (cases interrupted) (simp_all add: osc_brw_redo_request_def Let_def)
  qed
qed

definition sample_brw_env :: brw_env where
  "sample_brw_env = \<lparr>be_alloc = True, be_pack = 0, be_desc = True, be_flavor_bulk = False, cl_checksum = True, cl_cksum_type = 2,
     be_pack_type = (\<lambda>t. 0x2000), be_unpack_type = (\<lambda>f. 2), be_crypto = (\<lambda>t. Inr (\<lambda>bs. of_nat (length bs))),
     be_now_shift = (\<lambda>d. d), be_connect_flags = 0, be_due = (\<lambda>_. False), be_full = True\<rparr>"

definition sample_req :: "bool \<Rightarrow> brw_req" where
  "sample_req write = \<lparr>rq_write = write, rq_body = zero_obdo, rq_niobufs = [], aa_oa = zero_obdo, aa_requested_nob = 8, aa_nio_count = 2,
     aa_resends = 0, aa_ppga = [sample_page 4092 4 0, sample_page 4096 4 1]\<rparr>"

definition sample_reply :: "int \<Rightarrow> brw_reply" where
  "sample_reply n = \<lparr>rp_repmsg = True, rp_body = Some (zero_obdo\<lparr>o_grant := 4096\<rparr>), rp_rcs = Some [0, 0], bd_nob = 8, bd_nob_transferred = n,
     rp_unwrap_write = 0, rp_unwrap_read = (\<lambda>n. n)\<rparr>"

definition sample_bulk :: brw_state where
  "sample_bulk = \<lparr>bs_cli = sample_osc, bs_oa = zero_obdo\<lparr>o_valid := OBD_MD_FLCKSUM\<rparr>, bs_mem = (\<lambda>_ _. 7), bs_setdq = None\<rparr>"

theorem redo_request_ok_witness:
  "\<exists>rc new oa' cli'. osc_brw_redo_request sample_brw_env False 100 30 (sample_req True) (\<lambda>_ _. 7) sample_osc = Ret (rc, new, oa', cli') \<and>
     o_valid oa' AND (OBD_MD_FLBLOCKS OR OBD_MD_FLGRANT) = 0"
proof -
  have "brw_pages_ok (aa_ppga (sample_req True))"
    by (simp add: sample_req_def brw_pages_ok_def All_less_Suc page_ok_def no_gap_def poff_def sample_page_def)
  from redo_request_ok [OF this, of 30 sample_brw_env False 100 "\<lambda>_ _. 7" sample_osc] show ?thesis
    by (auto simp: sample_req_def zero_obdo_def)
qed


theorem read_done_data_witness:
  "\<exists>st'. osc_brw_fini_request sample_brw_env (sample_reply 5) (sample_req False) 5 sample_bulk = Ret (0, st') \<and>
     read_data (bs_mem st') (aa_ppga (sample_req False)) =
       take 5 (read_data (bs_mem sample_bulk) (aa_ppga (sample_req False))) @ replicate 3 0"
proof -
  have "\<exists>st'. osc_brw_fini_request sample_brw_env (sample_reply 5) (sample_req False) 5 sample_bulk = Ret (0, st')"
    by (simp add: osc_brw_fini_request_def fini_read_def sample_reply_def sample_req_def sample_bulk_def zero_obdo_def Let_def
        handle_short_read_def sample_page_def)
  then obtain st' where "osc_brw_fini_request sample_brw_env (sample_reply 5) (sample_req False) 5 sample_bulk = Ret (0, st')" by blast
  moreover have "total_nob (aa_ppga (sample_req False)) = 8" by (simp add: sample_req_def sample_page_def)
  moreover have "\<not> rq_write (sample_req False)" "distinct (map bp_pg (aa_ppga (sample_req False)))"
    "aa_requested_nob (sample_req False) = 8" "bd_nob_transferred (sample_reply 5) = 5"
    by (simp_all add: sample_req_def sample_page_def sample_reply_def)
  ultimately show ?thesis using read_done_data [of "sample_req False" sample_brw_env "sample_reply 5" 5 sample_bulk 0 st'] by auto
qed

end
