(* ===== verification/Osc_Rpc.thy ===== *)
theory Osc_Rpc
  imports Osc_Find Osc_Bulk
begin

text \<open>
  From dirty extents to write and read RPCs (\<open>osc_cache.c\<close> from \<open>osc_max_rpc_in_flight\<close> to
  \<open>osc_io_unplug\<close>, \<open>osc_build_rpc\<close> and \<open>brw_interpret\<close> of \<open>osc_request.c\<close>): which objects and which
  extents go into the next RPC, how many RPCs are under way, and what happens when a reply comes.

  Objects are addresses. \<open>rpcs_in_flight\<close> and \<open>osc_is_ready\<close> are declared outside \<open>src/\<close> and are
  arguments. The histograms of the client are not part of the state.
\<close>

section \<open>What is ready\<close>

type_synonym oref = nat

text \<open>The lists of the client with objects that have something to send.\<close>

record osc_lists =
  cl_loi_ready_list :: "oref list"
  cl_loi_hp_ready_list :: "oref list"
  cl_loi_write_list :: "oref list"
  cl_loi_read_list :: "oref list"

definition osc_max_rpc_in_flight :: "(osc_cli \<Rightarrow> u32) \<Rightarrow> osc_cli \<Rightarrow> osc_object \<Rightarrow> bool" where
  "osc_max_rpc_in_flight in_flight cli obj \<longleftrightarrow>
     (let hprpc = (if oo_hp_exts obj = [] then 1 else 0) in in_flight cli \<ge> cl_max_rpcs_in_flight cli + hprpc)"

text \<open>\<open>invalid\<close> is \<open>imp_invalid\<close> of the import.\<close>

definition osc_makes_rpc :: "bool \<Rightarrow> osc_cli \<Rightarrow> osc_object \<Rightarrow> bool \<Rightarrow> bool" where
  "osc_makes_rpc invalid cli obj write =
     (let invalid_import = (\<not> cl_import cli \<or> invalid) in
      if write then
        if oo_nr_writes obj = 0 then False
        else if invalid_import then True
        else if oo_hp_exts obj \<noteq> [] then True
        else if oo_urgent_exts obj \<noteq> [] then True
        else if cl_cache_waiters cli \<noteq> [] then True
        else oo_nr_writes obj \<ge> uint (cl_max_pages_per_rpc cli)
      else
        if oo_nr_reads obj = 0 then False
        else if invalid_import then True
        else oo_reading_exts obj \<noteq> [])"

definition osc_makes_hprpc :: "osc_object \<Rightarrow> bool" where
  "osc_makes_hprpc obj \<longleftrightarrow> oo_hp_exts obj \<noteq> []"

definition on_list :: "oref \<Rightarrow> oref list \<Rightarrow> bool \<Rightarrow> oref list" where
  "on_list item list should_be_on =
     (if item \<notin> set list \<and> should_be_on then list @ [item]
      else if item \<in> set list \<and> \<not> should_be_on then remove1 item list
      else list)"

definition osc_list_maint ::
  "(osc_lists \<Rightarrow> oref \<Rightarrow> bool) \<Rightarrow> bool \<Rightarrow> osc_cli \<Rightarrow> osc_object \<Rightarrow> oref \<Rightarrow> osc_lists \<Rightarrow> bool \<times> osc_lists" where
  "osc_list_maint is_ready invalid cli obj o' ls =
     (let ls = (if osc_makes_hprpc obj then
                  ls\<lparr>cl_loi_ready_list := on_list o' (cl_loi_ready_list ls) False,
                     cl_loi_hp_ready_list := on_list o' (cl_loi_hp_ready_list ls) True\<rparr>
                else
                  ls\<lparr>cl_loi_hp_ready_list := on_list o' (cl_loi_hp_ready_list ls) False,
                     cl_loi_ready_list := on_list o' (cl_loi_ready_list ls)
                       (osc_makes_rpc invalid cli obj True \<or> osc_makes_rpc invalid cli obj False)\<rparr>);
          ls = ls\<lparr>cl_loi_write_list := on_list o' (cl_loi_write_list ls) (oo_nr_writes obj > 0)\<rparr>;
          ls = ls\<lparr>cl_loi_read_list := on_list o' (cl_loi_read_list ls) (oo_nr_reads obj > 0)\<rparr>
      in (is_ready ls o', ls))"

text \<open>\<open>list_to_obj\<close> takes the first object off a list.\<close>

definition osc_next_obj :: "bool \<Rightarrow> osc_cli \<Rightarrow> osc_lists \<Rightarrow> oref option \<times> osc_lists" where
  "osc_next_obj invalid cli ls =
     (case cl_loi_hp_ready_list ls of x # xs \<Rightarrow> (Some x, ls\<lparr>cl_loi_hp_ready_list := xs\<rparr>)
      | [] \<Rightarrow>
        (case cl_loi_ready_list ls of x # xs \<Rightarrow> (Some x, ls\<lparr>cl_loi_ready_list := xs\<rparr>)
         | [] \<Rightarrow>
           if cl_cache_waiters cli \<noteq> [] \<and> cl_loi_write_list ls \<noteq> []
           then (Some (hd (cl_loi_write_list ls)), ls\<lparr>cl_loi_write_list := tl (cl_loi_write_list ls)\<rparr>)
           else if \<not> cl_import cli \<or> invalid then
             (case cl_loi_write_list ls of x # xs \<Rightarrow> (Some x, ls\<lparr>cl_loi_write_list := xs\<rparr>)
              | [] \<Rightarrow> (case cl_loi_read_list ls of x # xs \<Rightarrow> (Some x, ls\<lparr>cl_loi_read_list := xs\<rparr>) | [] \<Rightarrow> (None, ls)))
           else (None, ls)))"

section \<open>Collecting extents\<close>

text \<open>
  The extents of the RPC under construction with the object, the number of their pages and the limit.
  An extent is linked when it is on a list of the object or in the RPC.
\<close>

record rpc_build =
  rb_obj :: osc_object
  rb_list :: "eref list"
  rb_count :: nat
  rb_max :: nat

definition linked :: "eref \<Rightarrow> rpc_build \<Rightarrow> bool" where
  "linked x rb \<longleftrightarrow> on_link x (rb_obj rb) \<or> x \<in> set (rb_list rb)"

text \<open>The type of the first page of an extent (\<open>cp_type\<close>, outside \<open>src/\<close>); an extent without pages has none.\<close>

definition first_type :: "(page \<Rightarrow> nat) \<Rightarrow> osc_extent \<Rightarrow> nat outcome" where
  "first_type cp_type e = (case oe_pages e of [] \<Rightarrow> Fault OVERRUN | p # _ \<Rightarrow> Ret (cp_type p))"

text \<open>Only the first extent of the list is compared: the loop ends with a break.\<close>

definition compatible :: "(page \<Rightarrow> nat) \<Rightarrow> osc_extent \<Rightarrow> osc_extent option \<Rightarrow> bool outcome" where
  "compatible cp_type e first =
     (case first of None \<Rightarrow> Ret True
      | Some tmp \<Rightarrow>
          lassert (oe_owner tmp)
           (bindO (first_type cp_type e) (\<lambda>t1. bindO (first_type cp_type tmp) (\<lambda>t2.
              Ret (t1 = t2 \<and> oe_srvlock tmp = oe_srvlock e \<and> (oe_grants tmp = 0) = (oe_grants e = 0) \<and>
                   \<not> oe_no_merge tmp \<and> \<not> oe_no_merge e)))))"

definition try_to_add_extent_for_io :: "(page \<Rightarrow> nat) \<Rightarrow> eref \<Rightarrow> rpc_build \<Rightarrow> (bool \<times> rpc_build) outcome" where
  "try_to_add_extent_for_io cp_type x rb =
     (let E = oo_ext (rb_obj rb); e = E x in
      lassert (oe_state e = OES_CACHE \<or> oe_state e = OES_LOCK_DONE)
       (let rb = rb\<lparr>rb_max := max (oe_mppr e) (rb_max rb)\<rparr> in
        if rb_count rb + oe_nr_pages e > rb_max rb then Ret (False, rb)
        else
          bindO (compatible cp_type e (map_option E (head_of (rb_list rb)))) (\<lambda>ok.
            if ok then
              Ret (True, rb\<lparr>rb_count := rb_count rb + oe_nr_pages e,
                            rb_obj := upd x (\<lambda>e. e\<lparr>oe_owner := True\<rparr>) (unlink x (rb_obj rb)),
                            rb_list := rb_list rb @ [x]\<rparr>)
            else Ret (False, rb))))"

text \<open>The flag of the loops below says whether there is room for more.\<close>

fun add_hp :: "(page \<Rightarrow> nat) \<Rightarrow> eref list \<Rightarrow> rpc_build \<Rightarrow> (bool \<times> rpc_build) outcome" where
  "add_hp cp_type [] rb = Ret (True, rb)"
| "add_hp cp_type (x # xs) rb =
     lassert (oe_state (oo_ext (rb_obj rb) x) = OES_CACHE)
      (bindO (try_to_add_extent_for_io cp_type x rb) (\<lambda>(ok, rb).
         if \<not> ok then Ret (False, rb)
         else lassert (oe_nr_pages (oo_ext (rb_obj rb) x) \<le> rb_max rb) (add_hp cp_type xs rb)))"

fun add_following :: "(page \<Rightarrow> nat) \<Rightarrow> eref list \<Rightarrow> rpc_build \<Rightarrow> (bool \<times> rpc_build) outcome" where
  "add_following cp_type [] rb = Ret (True, rb)"
| "add_following cp_type (x # xs) rb =
     (let e = oo_ext (rb_obj rb) x in
      if oe_state e \<noteq> OES_CACHE \<or> linked x rb \<and> oe_owner e then add_following cp_type xs rb
      else bindO (try_to_add_extent_for_io cp_type x rb) (\<lambda>(ok, rb). if \<not> ok then Ret (False, rb) else add_following cp_type xs rb))"

lemma try_urgent:
  "try_to_add_extent_for_io cp_type x rb = Ret (ok, rb') \<Longrightarrow>
   oo_urgent_exts (rb_obj rb') = (if ok then remove1 x (oo_urgent_exts (rb_obj rb)) else oo_urgent_exts (rb_obj rb))"
  by (auto simp: try_to_add_extent_for_io_def Let_def unlink_def upd_def split: if_splits)

lemma add_following_urgent:
  "add_following cp_type xs rb = Ret (ok, rb') \<Longrightarrow> length (oo_urgent_exts (rb_obj rb')) \<le> length (oo_urgent_exts (rb_obj rb))"
proof (induction xs arbitrary: rb)
  case (Cons x xs)
  show ?case
  proof (cases "oe_state (oo_ext (rb_obj rb) x) \<noteq> OES_CACHE \<or> linked x rb \<and> oe_owner (oo_ext (rb_obj rb) x)")
    case True
    then show ?thesis using Cons by (auto simp: Let_def)
  next
    case False
    then obtain ok1 rb1 where t: "try_to_add_extent_for_io cp_type x rb = Ret (ok1, rb1)"
      using Cons.prems by (auto simp: Let_def)
    have "length (oo_urgent_exts (rb_obj rb1)) \<le> length (oo_urgent_exts (rb_obj rb))"
      using try_urgent [OF t] by (simp add: length_remove1)
    then show ?thesis using Cons.IH [of rb1] Cons.prems False t by (cases ok1) (auto simp: Let_def)
  qed
qed simp

text \<open>Each round takes the first urgent extent off its list.\<close>

function add_urgent :: "(page \<Rightarrow> nat) \<Rightarrow> rpc_build \<Rightarrow> (bool \<times> rpc_build) outcome" where
  "add_urgent cp_type rb =
     (case oo_urgent_exts (rb_obj rb) of [] \<Rightarrow> Ret (True, rb)
      | x # _ \<Rightarrow>
        (case try_to_add_extent_for_io cp_type x rb of Fault f \<Rightarrow> Fault f
         | Ret (ok, rb) \<Rightarrow>
           if \<not> ok then Ret (False, rb)
           else if \<not> oe_intree (oo_ext (rb_obj rb) x) then add_urgent cp_type rb
           else
             (case add_following cp_type (after x (exts (rb_obj rb))) rb of Fault f \<Rightarrow> Fault f
              | Ret (ok, rb) \<Rightarrow> if \<not> ok then Ret (False, rb) else add_urgent cp_type rb)))"
  by pat_completeness auto
termination
proof (relation "measure (\<lambda>(_, rb). length (oo_urgent_exts (rb_obj rb)))", goal_cases)
  case 1
  show ?case by simp
next
  case (2 cp_type rb x xs p ok rb1)
  then show ?case using try_urgent [of cp_type x rb ok rb1] by simp
next
  case (3 cp_type rb x xs p ok rb1 q ok2 rb2)
  then have "length (oo_urgent_exts (rb_obj rb1)) < length (oo_urgent_exts (rb_obj rb))"
    using try_urgent [of cp_type x rb ok rb1] by simp
  then show ?case using add_following_urgent [of cp_type "after x (exts (rb_obj rb1))" rb1 ok2 rb2] 3 by simp
qed

declare add_urgent.simps [simp del]

definition get_write_extents :: "(page \<Rightarrow> nat) \<Rightarrow> osc_cli \<Rightarrow> osc_object \<Rightarrow> rpc_build outcome" where
  "get_write_extents cp_type cli obj =
     bindO (add_hp cp_type (oo_hp_exts obj) \<lparr>rb_obj = obj, rb_list = [], rb_count = 0, rb_max = unat (cl_max_pages_per_rpc cli)\<rparr>) (\<lambda>(ok, rb).
     if \<not> ok \<or> rb_count rb = rb_max rb then Ret rb
     else
       bindO (add_urgent cp_type rb) (\<lambda>(ok, rb).
       if \<not> ok \<or> rb_count rb = rb_max rb then Ret rb
       else bindO (add_following cp_type (exts (rb_obj rb)) rb) (\<lambda>(_, rb). Ret rb)))"

subsection \<open>The RPC under construction\<close>

text \<open>\<open>M\<close> bounds the pages per RPC of the extents.\<close>

definition sendable :: "nat \<Rightarrow> osc_extent \<Rightarrow> bool" where
  "sendable M e \<longleftrightarrow> oe_mppr e \<le> M \<and> (oe_state e = OES_CACHE \<or> oe_state e = OES_LOCK_DONE) \<and> oe_pages e \<noteq> []"

text \<open>Two extents may share an RPC.\<close>

definition same_class :: "(page \<Rightarrow> nat) \<Rightarrow> osc_extent \<Rightarrow> osc_extent \<Rightarrow> bool" where
  "same_class cp_type e f \<longleftrightarrow> cp_type (hd (oe_pages e)) = cp_type (hd (oe_pages f)) \<and> oe_srvlock f = oe_srvlock e \<and>
     (oe_grants f = 0) = (oe_grants e = 0) \<and> \<not> oe_no_merge f \<and> \<not> oe_no_merge e"

definition rpc_ok :: "nat \<Rightarrow> (page \<Rightarrow> nat) \<Rightarrow> osc_object \<Rightarrow> rpc_build \<Rightarrow> bool" where
  "rpc_ok M cp_type obj rb \<longleftrightarrow> rb_max rb \<le> M \<and>
     rb_count rb = sum_list (map (\<lambda>x. oe_nr_pages (oo_ext obj x)) (rb_list rb)) \<and> rb_count rb \<le> rb_max rb \<and> distinct (rb_list rb) \<and>
     (\<forall>x \<in> set (rb_list rb). sendable M (oo_ext obj x)) \<and>
     (\<forall>x \<in> set (tl (rb_list rb)). same_class cp_type (oo_ext obj x) (oo_ext obj (hd (rb_list rb)))) \<and>
     oo_ext (rb_obj rb) = (\<lambda>x. if x \<in> set (rb_list rb) then (oo_ext obj x)\<lparr>oe_owner := True\<rparr> else oo_ext obj x) \<and>
     exts (rb_obj rb) = exts obj \<and>
     oo_hp_exts (rb_obj rb) = filter (\<lambda>x. x \<notin> set (rb_list rb)) (oo_hp_exts obj) \<and>
     oo_urgent_exts (rb_obj rb) = filter (\<lambda>x. x \<notin> set (rb_list rb)) (oo_urgent_exts obj) \<and>
     oo_reading_exts (rb_obj rb) = filter (\<lambda>x. x \<notin> set (rb_list rb)) (oo_reading_exts obj) \<and>
     oo_nr_writes (rb_obj rb) = oo_nr_writes obj \<and> oo_nr_reads (rb_obj rb) = oo_nr_reads obj"

lemma remove1_filter_notin:
  "distinct xs \<Longrightarrow> remove1 x (filter (\<lambda>y. y \<notin> A) xs) = filter (\<lambda>y. y \<notin> insert x A) xs"
  by (induction xs) (auto simp: remove1_idem)

lemma compatible_ok:
  assumes "rpc_ok M cp_type obj rb" and "x \<notin> set (rb_list rb)" and "sendable M (oo_ext obj x)"
  shows "\<exists>ok. compatible cp_type (oo_ext (rb_obj rb) x) (map_option (oo_ext (rb_obj rb)) (head_of (rb_list rb))) = Ret ok \<and>
    (ok \<longrightarrow> rb_list rb \<noteq> [] \<longrightarrow> same_class cp_type (oo_ext obj x) (oo_ext obj (hd (rb_list rb))))"
proof (cases "rb_list rb")
  case Nil
  then show ?thesis by (auto simp: head_of_def compatible_def)
next
  case (Cons f r)
  have E: "oo_ext (rb_obj rb) f = (oo_ext obj f)\<lparr>oe_owner := True\<rparr>" "oo_ext (rb_obj rb) x = oo_ext obj x" "sendable M (oo_ext obj f)"
    using assms(1,2) Cons by (auto simp: rpc_ok_def)
  obtain p ps q qs where "oe_pages (oo_ext obj x) = p # ps" "oe_pages (oo_ext obj f) = q # qs"
    using assms(3) E(3) by (auto simp: sendable_def neq_Nil_conv)
  then show ?thesis using E(1,2) Cons by (simp add: head_of_def compatible_def first_type_def same_class_def)
qed

lemma try_ok:
  assumes rb: "rpc_ok M cp_type obj rb" and links: "links_ok obj" and x: "x \<notin> set (rb_list rb)" "sendable M (oo_ext obj x)"
  shows "\<exists>ok rb'. try_to_add_extent_for_io cp_type x rb = Ret (ok, rb') \<and> rpc_ok M cp_type obj rb' \<and>
    rb_list rb' = (if ok then rb_list rb @ [x] else rb_list rb) \<and> rb_max rb \<le> rb_max rb'"
proof -
  let ?m = "rb\<lparr>rb_max := max (oe_mppr (oo_ext obj x)) (rb_max rb)\<rparr>"
  have E: "oo_ext (rb_obj rb) x = oo_ext obj x" using rb x by (simp add: rpc_ok_def)
  have st: "oe_state (oo_ext obj x) = OES_CACHE \<or> oe_state (oo_ext obj x) = OES_LOCK_DONE" using x(2) by (simp add: sendable_def)
  obtain ok where c: "compatible cp_type (oo_ext (rb_obj rb) x) (map_option (oo_ext (rb_obj rb)) (head_of (rb_list rb))) = Ret ok"
    "ok \<longrightarrow> rb_list rb \<noteq> [] \<longrightarrow> same_class cp_type (oo_ext obj x) (oo_ext obj (hd (rb_list rb)))"
    using compatible_ok [OF rb x] by blast
  have m: "rpc_ok M cp_type obj ?m" using rb x(2) by (auto simp: rpc_ok_def sendable_def)
  show ?thesis
  proof (cases "rb_count rb + oe_nr_pages (oo_ext obj x) > rb_max ?m \<or> \<not> ok")
    case True
    then show ?thesis using m c(1) E st by (auto simp: try_to_add_extent_for_io_def Let_def)
  next
    case False
    define r where "r = ?m\<lparr>rb_count := rb_count rb + oe_nr_pages (oo_ext obj x),
      rb_obj := upd x (\<lambda>e. e\<lparr>oe_owner := True\<rparr>) (unlink x (rb_obj rb)), rb_list := rb_list rb @ [x]\<rparr>"
    have d: "distinct (oo_hp_exts obj)" "distinct (oo_urgent_exts obj)" "distinct (oo_reading_exts obj)"
      using links by (simp_all add: links_ok_def)
    have l: "rb_list r = rb_list rb @ [x]" "rb_count r = rb_count rb + oe_nr_pages (oo_ext obj x)" "rb_max r = rb_max ?m"
      by (simp_all add: r_def)
    have c': "\<forall>y \<in> set (tl (rb_list r)). same_class cp_type (oo_ext obj y) (oo_ext obj (hd (rb_list r)))"
      using rb c(2) False by (cases "rb_list rb") (auto simp: rpc_ok_def l)
    have e: "oo_ext (rb_obj r) = (\<lambda>y. if y \<in> set (rb_list r) then (oo_ext obj y)\<lparr>oe_owner := True\<rparr> else oo_ext obj y)"
      using rb x(1) by (auto simp: rpc_ok_def upd_def unlink_def fun_eq_iff r_def)
    have q: "oo_hp_exts (rb_obj r) = filter (\<lambda>y. y \<notin> set (rb_list r)) (oo_hp_exts obj)"
      "oo_urgent_exts (rb_obj r) = filter (\<lambda>y. y \<notin> set (rb_list r)) (oo_urgent_exts obj)"
      "oo_reading_exts (rb_obj r) = filter (\<lambda>y. y \<notin> set (rb_list r)) (oo_reading_exts obj)"
      using rb remove1_filter_notin [OF d(1)] remove1_filter_notin [OF d(2)] remove1_filter_notin [OF d(3)]
      by (simp_all add: rpc_ok_def upd_def unlink_def r_def)
    have f: "exts (rb_obj r) = exts (rb_obj rb)" "oo_nr_writes (rb_obj r) = oo_nr_writes (rb_obj rb)" "oo_nr_reads (rb_obj r) = oo_nr_reads (rb_obj rb)"
      by (simp_all add: exts_def upd_def unlink_def r_def)
    have "rpc_ok M cp_type obj r"
      unfolding rpc_ok_def using rb x False c' e q f m by (auto simp: rpc_ok_def l)
    moreover have "try_to_add_extent_for_io cp_type x rb = Ret (True, r)"
      using False c(1) E st by (auto simp: try_to_add_extent_for_io_def Let_def r_def)
    ultimately show ?thesis using l by auto
  qed
qed

lemma add_hp_ok:
  assumes "links_ok obj"
  shows "rpc_ok M cp_type obj rb \<Longrightarrow> distinct xs \<Longrightarrow> set xs \<inter> set (rb_list rb) = {} \<Longrightarrow>
    \<forall>x \<in> set xs. oe_state (oo_ext obj x) = OES_CACHE \<and> sendable M (oo_ext obj x) \<Longrightarrow>
    \<exists>ok rb' ys zs. add_hp cp_type xs rb = Ret (ok, rb') \<and> rpc_ok M cp_type obj rb' \<and> rb_list rb' = rb_list rb @ ys \<and> xs = ys @ zs \<and>
      (ok \<longrightarrow> zs = []) \<and> rb_max rb \<le> rb_max rb'"
proof (induction xs arbitrary: rb)
  case (Cons x xs)
  have x: "x \<notin> set (rb_list rb)" "sendable M (oo_ext obj x)" "oe_state (oo_ext (rb_obj rb) x) = OES_CACHE"
    using Cons.prems by (auto simp: rpc_ok_def)
  obtain ok rb1 where t: "try_to_add_extent_for_io cp_type x rb = Ret (ok, rb1)" "rpc_ok M cp_type obj rb1"
    "rb_list rb1 = (if ok then rb_list rb @ [x] else rb_list rb)" "rb_max rb \<le> rb_max rb1"
    using try_ok [OF Cons.prems(1) assms x(1,2)] by blast
  show ?case
  proof (cases ok)
    case False
    then show ?thesis using t x(3) by (intro exI [of _ False] exI [of _ rb1] exI [of _ "[]"] exI [of _ "x # xs"]) simp
  next
    case True
    have le: "oe_nr_pages (oo_ext (rb_obj rb1) x) \<le> rb_max rb1"
      using t(2,3) True by (auto simp: rpc_ok_def)
    obtain ok' rb' ys zs where i: "add_hp cp_type xs rb1 = Ret (ok', rb')" "rpc_ok M cp_type obj rb'" "rb_list rb' = rb_list rb1 @ ys"
      "xs = ys @ zs" "ok' \<longrightarrow> zs = []" "rb_max rb1 \<le> rb_max rb'"
      using Cons.IH [OF t(2)] Cons.prems(2-4) t(3) True by auto
    then show ?thesis using t x(3) True le
      by (intro exI [of _ ok'] exI [of _ rb'] exI [of _ "x # ys"] exI [of _ zs]) auto
  qed
qed auto

lemma add_following_ok:
  assumes "links_ok obj"
  shows "rpc_ok M cp_type obj rb \<Longrightarrow> \<forall>x \<in> set xs. oe_state (oo_ext obj x) = OES_CACHE \<longrightarrow> sendable M (oo_ext obj x) \<Longrightarrow>
    \<exists>ok rb' ys. add_following cp_type xs rb = Ret (ok, rb') \<and> rpc_ok M cp_type obj rb' \<and> rb_list rb' = rb_list rb @ ys \<and> rb_max rb \<le> rb_max rb'"
proof (induction xs arbitrary: rb)
  case (Cons x xs)
  let ?e = "oo_ext (rb_obj rb) x"
  have same: "oe_state ?e = oe_state (oo_ext obj x)" "x \<in> set (rb_list rb) \<Longrightarrow> oe_owner ?e" using Cons.prems(1) by (auto simp: rpc_ok_def)
  show ?case
  proof (cases "oe_state ?e \<noteq> OES_CACHE \<or> linked x rb \<and> oe_owner ?e")
    case True
    then show ?thesis using Cons by (auto simp: Let_def)
  next
    case False
    then have x: "x \<notin> set (rb_list rb)" "sendable M (oo_ext obj x)" using same Cons.prems(2) by (auto simp: linked_def)
    obtain ok rb1 where t: "try_to_add_extent_for_io cp_type x rb = Ret (ok, rb1)" "rpc_ok M cp_type obj rb1"
      "rb_list rb1 = (if ok then rb_list rb @ [x] else rb_list rb)" "rb_max rb \<le> rb_max rb1"
      using try_ok [OF Cons.prems(1) assms x] by blast
    show ?thesis
    proof (cases ok)
      case True
      obtain ok' rb' ys where "add_following cp_type xs rb1 = Ret (ok', rb')" "rpc_ok M cp_type obj rb'" "rb_list rb' = rb_list rb1 @ ys"
        "rb_max rb1 \<le> rb_max rb'"
        using Cons.IH [OF t(2)] Cons.prems(2) by auto
      then show ?thesis using t True False by (auto simp: Let_def)
    next
      case no: False
      then show ?thesis using t False by (auto simp: Let_def)
    qed
  qed
qed auto

lemma after_subset: "set (after x xs) \<subseteq> set xs"
  by (induction xs) auto

lemma add_urgent_ok:
  assumes links: "links_ok obj" and urgent: "\<forall>x \<in> set (oo_urgent_exts obj). sendable M (oo_ext obj x)"
    and tree: "\<forall>x \<in> set (exts obj). oe_state (oo_ext obj x) = OES_CACHE \<longrightarrow> sendable M (oo_ext obj x)"
  shows "rpc_ok M cp_type obj rb \<Longrightarrow>
    \<exists>ok rb' ys. add_urgent cp_type rb = Ret (ok, rb') \<and> rpc_ok M cp_type obj rb' \<and> rb_list rb' = rb_list rb @ ys \<and> rb_max rb \<le> rb_max rb'"
proof (induction cp_type rb rule: add_urgent.induct)
  case (1 cp_type rb)
  show ?case
  proof (cases "oo_urgent_exts (rb_obj rb)")
    case Nil
    then show ?thesis using 1(3) by (subst add_urgent.simps) auto
  next
    case (Cons x xs)
    have u: "oo_urgent_exts (rb_obj rb) = filter (\<lambda>x. x \<notin> set (rb_list rb)) (oo_urgent_exts obj)" using 1(3) by (simp add: rpc_ok_def)
    have "x \<in> set (oo_urgent_exts (rb_obj rb))" using Cons by simp
    then have "x \<in> set (oo_urgent_exts obj) \<and> x \<notin> set (rb_list rb)" unfolding u by simp
    then have x: "x \<notin> set (rb_list rb)" "sendable M (oo_ext obj x)" using urgent by auto
    obtain ok rb1 where t: "try_to_add_extent_for_io cp_type x rb = Ret (ok, rb1)" "rpc_ok M cp_type obj rb1"
      "rb_list rb1 = (if ok then rb_list rb @ [x] else rb_list rb)" "rb_max rb \<le> rb_max rb1"
      using try_ok [OF 1(3) links x] by blast
    consider (full) "\<not> ok" | (alone) ok "\<not> oe_intree (oo_ext (rb_obj rb1) x)" | (tree) ok "oe_intree (oo_ext (rb_obj rb1) x)" by blast
    then show ?thesis
    proof cases
      case full
      then show ?thesis using Cons t by (subst add_urgent.simps) auto
    next
      case alone
      then show ?thesis using 1(1) [OF Cons t(1) refl] Cons t by (subst add_urgent.simps) auto
    next
      case tree': tree
      let ?ys = "after x (exts (rb_obj rb1))"
      have "\<forall>y \<in> set ?ys. oe_state (oo_ext obj y) = OES_CACHE \<longrightarrow> sendable M (oo_ext obj y)"
        using tree after_subset [of x "exts (rb_obj rb1)"] t(2) by (auto simp: rpc_ok_def)
      then obtain ok2 rb2 ys where f: "add_following cp_type ?ys rb1 = Ret (ok2, rb2)" "rpc_ok M cp_type obj rb2" "rb_list rb2 = rb_list rb1 @ ys"
        "rb_max rb1 \<le> rb_max rb2"
        using add_following_ok [OF links t(2)] by blast
      show ?thesis
      proof (cases ok2)
        case True
        then show ?thesis using 1(2) [OF Cons t(1) refl _ _ f(1) refl] Cons t f tree' by (subst add_urgent.simps) auto
      next
        case False
        then show ?thesis using Cons t f tree' by (subst add_urgent.simps) auto
      qed
    qed
  qed
qed

definition queues_ok :: "nat \<Rightarrow> osc_object \<Rightarrow> bool" where
  "queues_ok M obj \<longleftrightarrow> links_ok obj \<and> (\<forall>x \<in> set (oo_hp_exts obj). oe_state (oo_ext obj x) = OES_CACHE \<and> sendable M (oo_ext obj x)) \<and>
     (\<forall>x \<in> set (oo_urgent_exts obj). sendable M (oo_ext obj x)) \<and>
     (\<forall>x \<in> set (exts obj). oe_state (oo_ext obj x) = OES_CACHE \<longrightarrow> sendable M (oo_ext obj x))"

lemma get_write_extents_ok:
  assumes q: "queues_ok M obj" and m: "unat (cl_max_pages_per_rpc cli) \<le> M"
  shows "\<exists>rb. get_write_extents cp_type cli obj = Ret rb \<and> rpc_ok M cp_type obj rb \<and>
    (set (oo_hp_exts obj) \<subseteq> set (rb_list rb) \<or> set (rb_list rb) \<subseteq> set (oo_hp_exts obj))"
proof -
  let ?r0 = "\<lparr>rb_obj = obj, rb_list = [], rb_count = 0, rb_max = unat (cl_max_pages_per_rpc cli)\<rparr>"
  have links: "links_ok obj" and hp: "distinct (oo_hp_exts obj)" using q by (simp_all add: queues_ok_def links_ok_def)
  have r0: "rpc_ok M cp_type obj ?r0" using m by (simp add: rpc_ok_def)
  have h: "set (oo_hp_exts obj) \<inter> set (rb_list ?r0) = {}"
    "\<forall>x \<in> set (oo_hp_exts obj). oe_state (oo_ext obj x) = OES_CACHE \<and> sendable M (oo_ext obj x)"
    using q by (simp_all add: queues_ok_def)
  obtain ok rb ys zs where 1: "add_hp cp_type (oo_hp_exts obj) ?r0 = Ret (ok, rb)" "rpc_ok M cp_type obj rb" "rb_list rb = rb_list ?r0 @ ys"
    "oo_hp_exts obj = ys @ zs" "ok \<longrightarrow> zs = []"
    using add_hp_ok [OF links r0 hp h] by blast
  show ?thesis
  proof (cases "\<not> ok \<or> rb_count rb = rb_max rb")
    case True
    then show ?thesis using 1 by (auto simp: get_write_extents_def)
  next
    case more: False
    then have all: "set (oo_hp_exts obj) \<subseteq> set (rb_list rb)" using 1 by simp
    obtain ok2 rb2 us where 2: "add_urgent cp_type rb = Ret (ok2, rb2)" "rpc_ok M cp_type obj rb2" "rb_list rb2 = rb_list rb @ us"
      using add_urgent_ok [OF links _ _ 1(2)] q by (auto simp: queues_ok_def)
    show ?thesis
    proof (cases "\<not> ok2 \<or> rb_count rb2 = rb_max rb2")
      case True
      then show ?thesis using 1(1) 2 more all by (auto simp: get_write_extents_def)
    next
      case False
      have "exts (rb_obj rb2) = exts obj" using 2(2) by (simp add: rpc_ok_def)
      then obtain ok3 rb3 vs where "add_following cp_type (exts (rb_obj rb2)) rb2 = Ret (ok3, rb3)" "rpc_ok M cp_type obj rb3" "rb_list rb3 = rb_list rb2 @ vs"
        using add_following_ok [OF links 2(2), of "exts obj"] q by (auto simp: queues_ok_def)
      then show ?thesis using 1(1) 2 more False all by (auto simp: get_write_extents_def)
    qed
  qed
qed

section \<open>Building an RPC\<close>

definition OBD_BRW_MEMALLOC :: u32 where "OBD_BRW_MEMALLOC = 0x800"
definition OBD_BRW_SOFT_SYNC :: u32 where "OBD_BRW_SOFT_SYNC = 0x4000"

text \<open>
  What the surroundings of an RPC decide: the page types, the two allocations and the attributes of
  the object (\<open>cl_req_attr_set\<close>), the soft limit of unstable pages, the time of sending, the xid of the
  request, the contents of the pages, and the parameters of the parts below.
\<close>

record rpc_env =
  re_cp_type :: "page \<Rightarrow> nat"
  re_alloc_pga :: bool
  re_alloc_oa :: bool
  re_attr :: obdo
  re_soft_sync :: bool
  re_now :: timeval
  re_xid :: u64
  re_mem :: page_mem
  re_brw :: brw_env
  re_env :: osc_env
  re_tv_sub :: tv_diff
  re_bsize :: int
  re_ready :: "page \<Rightarrow> int \<times> bool"
  re_kms :: "int + nat"
  re_in_flight :: "osc_cli \<Rightarrow> u32"
  re_is_ready :: "osc_lists \<Rightarrow> oref \<Rightarrow> bool"
  re_invalid :: bool
  re_xids :: "page \<Rightarrow> u64 \<times> u64"

text \<open>A request on its way: its arguments and its extents (\<open>aa_exts\<close>).\<close>

record osc_rpc =
  or_req :: brw_req
  or_obj :: oref
  or_exts :: "eref list"
  or_oaps :: "page list"

definition page_of :: "osc_cli \<Rightarrow> osc_object \<Rightarrow> page \<Rightarrow> brw_page" where
  "page_of cli obj p = (let oap = oo_oap obj p in
     \<lparr>bp_off = of_int (oap_obj_off oap + oap_page_off oap), bp_pg = p, bp_count = of_int (oap_count oap), bp_flag = brw_flag cli p\<rparr>)"

definition mark_pages :: "bool \<Rightarrow> bool \<Rightarrow> page list \<Rightarrow> osc_cli \<Rightarrow> osc_cli" where
  "mark_pages mem_tight soft_sync ps cli =
     fold (\<lambda>p cli. let cli = (if mem_tight then set_brw_flag p (brw_flag cli p OR OBD_BRW_MEMALLOC) cli else cli)
                   in if soft_sync then set_brw_flag p (brw_flag cli p OR OBD_BRW_SOFT_SYNC) cli else cli) ps cli"

text \<open>Only the first page may start inside a page and only the last may end inside one.\<close>

fun range_ok :: "int option \<Rightarrow> int \<Rightarrow> osc_async_page list \<Rightarrow> bool" where
  "range_ok start fin [] = True"
| "range_ok start fin (oap # ps) \<longleftrightarrow>
     (case start of None \<Rightarrow> True | Some s \<Rightarrow> s > oap_obj_off oap \<or> oap_page_off oap = 0) \<and>
     (fin < oap_obj_off oap + oap_count oap \<or> oap_page_off oap + oap_count oap = 4096) \<and>
     range_ok (case start of None \<Rightarrow> Some (oap_obj_off oap) | Some s \<Rightarrow> Some (min s (oap_obj_off oap)))
       (max fin (oap_obj_off oap + oap_count oap)) ps"

text \<open>An RPC that could not be built: its extents are finished as not sent.\<close>

fun finish_exts :: "rpc_env \<Rightarrow> bool \<Rightarrow> int \<Rightarrow> eref list \<Rightarrow> osc_object \<times> osc_cli \<Rightarrow> (osc_object \<times> osc_cli) outcome" where
  "finish_exts re sent rc [] st = Ret st"
| "finish_exts re sent rc (x # xs) st =
     bindO (osc_extent_finish (re_env re) (be_now_shift (re_brw re)) (re_xids re) (re_bsize re) x sent rc st) (finish_exts re sent rc xs)"

definition count_in_flight :: "bool \<Rightarrow> osc_cli \<Rightarrow> osc_cli" where
  "count_in_flight write cli =
     (if write then cli\<lparr>cl_w_in_flight := cl_w_in_flight cli + 1\<rparr> else cli\<lparr>cl_r_in_flight := cl_r_in_flight cli + 1\<rparr>)"

definition osc_build_rpc ::
  "rpc_env \<Rightarrow> oref \<Rightarrow> eref list \<Rightarrow> bool \<Rightarrow> osc_object \<times> osc_cli \<Rightarrow> (int \<times> osc_rpc option \<times> osc_object \<times> osc_cli) outcome" where
  "osc_build_rpc re o' ext_list write st =
     (case st of (obj, cli) \<Rightarrow>
       let E = oo_ext obj; mem_tight = list_ex (\<lambda>x. oe_memalloc (E x)) ext_list; oaps = concat (map (\<lambda>x. oe_pages (E x)) ext_list);
           fail = (\<lambda>rc cli. bindO (finish_exts re False rc ext_list (obj, cli)) (\<lambda>(obj, cli). Ret (rc, None, obj, cli)))
       in lassert (ext_list \<noteq> []) (lassert (list_all (\<lambda>x. oe_state (E x) = OES_RPC) ext_list)
         (if \<not> re_alloc_pga re then fail (- ENOMEM) cli
          else if \<not> re_alloc_oa re then fail (- ENOMEM) cli
          else
            let cli = mark_pages mem_tight (re_soft_sync re) oaps cli;
                pga = map (page_of cli obj) oaps
            in lassert (range_ok None 0 (map (oo_oap obj) oaps))
              (bindO (osc_brw_prep_request (re_brw re) write (re_attr re) (sort_brw_pages pga (length pga)) False (re_mem re) cli)
                (\<lambda>(rc, new, _, cli).
                  case new of None \<Rightarrow> fail rc cli
                  | Some req \<Rightarrow>
                    let obj = (case oaps of [] \<Rightarrow> obj | p # _ \<Rightarrow> upd_oap p (\<lambda>oap. oap\<lparr>oap_xid := Some (re_xid re)\<rparr>) obj);
                        req = req\<lparr>aa_oa := (aa_oa req)\<lparr>o_sent_time := re_now re\<rparr>\<rparr>;
                        cli = count_in_flight write cli;
                        cli = cli\<lparr>cl_qos := snd (qos_throttle (re_tv_sub re) (re_now re) (cl_qos cli))\<rparr>
                    in Ret (0, Some \<lparr>or_req = req, or_obj = o', or_exts = ext_list, or_oaps = oaps\<rparr>, obj, cli))))))"

section \<open>Sending\<close>

fun make_ready_all :: "rpc_env \<Rightarrow> eref list \<Rightarrow> osc_object \<Rightarrow> osc_object outcome" where
  "make_ready_all re [] obj = Ret obj"
| "make_ready_all re (x # xs) obj =
     bindO (if oe_state (oo_ext obj x) = OES_LOCKING
            then osc_extent_make_ready (re_env re) (re_ready re) (re_kms re) x obj else Ret obj)
       (make_ready_all re xs)"

text \<open>\<open>osc_extent_make_ready\<close> never fails, so the branch for its errors is not reached.\<close>

definition osc_send_write_rpc ::
  "rpc_env \<Rightarrow> oref \<Rightarrow> osc_object \<times> osc_cli \<Rightarrow> (int \<times> osc_rpc option \<times> osc_object \<times> osc_cli) outcome" where
  "osc_send_write_rpc re o' st =
     (case st of (obj, cli) \<Rightarrow>
       bindO (get_write_extents (re_cp_type re) cli obj) (\<lambda>rb.
       let xs = rb_list rb in
       lassert ((rb_count rb = 0) = (xs = []))
        (if xs = [] then Ret (0, None, rb_obj rb, cli)
         else
           bindO (osc_update_pending True (- int (rb_count rb)) (rb_obj rb)) (\<lambda>obj.
           lassert (list_all (\<lambda>x. oe_state (oo_ext obj x) = OES_CACHE \<or> oe_state (oo_ext obj x) = OES_LOCK_DONE) xs)
           (bindO (make_ready_all re xs
                     (fold (\<lambda>x obj. osc_extent_state_set x (if oe_state (oo_ext obj x) = OES_CACHE then OES_LOCKING else OES_RPC) obj) xs obj))
             (\<lambda>obj. lassert (list_all (\<lambda>x. oe_srvlock (oo_ext obj x) = oe_srvlock (oo_ext obj (hd xs))) xs)
                     (lassert (rb_count rb > 0) (osc_build_rpc re o' xs True (obj, cli)))))))))"

text \<open>The walk over the extents to read stops at the first that does not fit.\<close>

fun add_reading :: "(page \<Rightarrow> nat) \<Rightarrow> eref list \<Rightarrow> rpc_build \<Rightarrow> rpc_build outcome" where
  "add_reading cp_type [] rb = Ret rb"
| "add_reading cp_type (x # xs) rb =
     lassert (oe_state (oo_ext (rb_obj rb) x) = OES_LOCK_DONE)
      (bindO (try_to_add_extent_for_io cp_type x rb) (\<lambda>(ok, rb).
         if \<not> ok then Ret rb
         else
           let rb = rb\<lparr>rb_obj := osc_extent_state_set x OES_RPC (rb_obj rb)\<rparr>
           in lassert (oe_nr_pages (oo_ext (rb_obj rb) x) \<le> rb_max rb) (add_reading cp_type xs rb)))"

definition osc_send_read_rpc ::
  "rpc_env \<Rightarrow> oref \<Rightarrow> osc_object \<times> osc_cli \<Rightarrow> (int \<times> osc_rpc option \<times> osc_object \<times> osc_cli) outcome" where
  "osc_send_read_rpc re o' st =
     (case st of (obj, cli) \<Rightarrow>
       bindO (add_reading (re_cp_type re) (oo_reading_exts obj)
                \<lparr>rb_obj = obj, rb_list = [], rb_count = 0, rb_max = unat (cl_max_pages_per_rpc cli)\<rparr>) (\<lambda>rb.
       lassert (rb_count rb \<le> rb_max rb)
        (bindO (osc_update_pending False (- int (rb_count rb)) (rb_obj rb)) (\<lambda>obj.
          if rb_list rb = [] then Ret (0, None, obj, cli)
          else lassert (rb_count rb > 0) (osc_build_rpc re o' (rb_list rb) False (obj, cli))))))"

text \<open>
  The client with its objects and the requests under way. Every object keeps its own share of the
  counters of pending pages of the client.
\<close>

record osc_world =
  w_cli :: osc_cli
  w_objs :: "oref \<Rightarrow> osc_object"
  w_lists :: osc_lists
  w_rpcs :: "osc_rpc list"

definition put_result :: "oref \<Rightarrow> int \<times> osc_rpc option \<times> osc_object \<times> osc_cli \<Rightarrow> osc_world \<Rightarrow> osc_world" where
  "put_result o' r w =
     (case r of (_, new, obj, cli) \<Rightarrow>
       w\<lparr>w_cli := cli, w_objs := (w_objs w)(o' := obj), w_rpcs := w_rpcs w @ (case new of None \<Rightarrow> [] | Some rpc \<Rightarrow> [rpc])\<rparr>)"

text \<open>One object: at most one write and one read RPC, then the lists are put in order.\<close>

definition check_object :: "rpc_env \<Rightarrow> rpc_env \<Rightarrow> oref \<Rightarrow> osc_world \<Rightarrow> osc_world outcome" where
  "check_object re_w re_r o' w =
     bindO (if osc_makes_rpc (re_invalid re_w) (w_cli w) (w_objs w o') True
            then bindO (osc_send_write_rpc re_w o' (w_objs w o', w_cli w)) (\<lambda>r. Ret (put_result o' r w)) else Ret w) (\<lambda>w.
     bindO (if osc_makes_rpc (re_invalid re_r) (w_cli w) (w_objs w o') False
            then bindO (osc_send_read_rpc re_r o' (w_objs w o', w_cli w)) (\<lambda>r. Ret (put_result o' r w)) else Ret w) (\<lambda>w.
     Ret (w\<lparr>w_lists := snd (osc_list_maint (re_is_ready re_r) (re_invalid re_r) (w_cli w) (w_objs w o') o' (w_lists w))\<rparr>)))"

text \<open>
  Each round of the loop sees its own surroundings, one for the write and one for the read; when none
  are left the loop is still running.
\<close>

fun osc_check_rpcs :: "(rpc_env \<times> rpc_env) list \<Rightarrow> osc_world \<Rightarrow> osc_world outcome option" where
  "osc_check_rpcs [] w = None"
| "osc_check_rpcs ((re_w, re_r) # res) w =
     (case osc_next_obj (re_invalid re_w) (w_cli w) (w_lists w) of
        (None, ls) \<Rightarrow> Some (Ret (w\<lparr>w_lists := ls\<rparr>))
      | (Some o', ls) \<Rightarrow>
          if osc_max_rpc_in_flight (re_in_flight re_w) (w_cli w) (w_objs w o')
          then Some (Ret (w\<lparr>w_lists := snd (osc_list_maint (re_is_ready re_w) (re_invalid re_w) (w_cli w) (w_objs w o') o' ls)\<rparr>))
          else
            (case check_object re_w re_r o' (w\<lparr>w_lists := ls\<rparr>) of
               Fault f \<Rightarrow> Some (Fault f)
             | Ret w \<Rightarrow> osc_check_rpcs res w))"

text \<open>\<open>work\<close> is what \<open>ptlrpcd_queue_work\<close> returns.\<close>

definition osc_io_unplug0 ::
  "int \<Rightarrow> rpc_env \<Rightarrow> (rpc_env \<times> rpc_env) list \<Rightarrow> oref option \<Rightarrow> bool \<Rightarrow> osc_world \<Rightarrow> (int \<times> osc_world) outcome option" where
  "osc_io_unplug0 work re res osc async w =
     (let (go, w) = (case osc of None \<Rightarrow> (True, w)
                     | Some o' \<Rightarrow>
                         let (ready, ls) = osc_list_maint (re_is_ready re) (re_invalid re) (w_cli w) (w_objs w o') o' (w_lists w)
                         in (ready, w\<lparr>w_lists := ls\<rparr>))
      in if \<not> go then Some (Ret (0, w))
         else if \<not> async then map_option (\<lambda>r. bindO r (\<lambda>w. Ret (0, w))) (osc_check_rpcs res w)
         else
           Some (Ret (work, w\<lparr>w_cli := (w_cli w)\<lparr>cl_qos := snd (qos_throttle (re_tv_sub re) (re_now re) (cl_qos (w_cli w)))\<rparr>\<rparr>)))"

section \<open>The reply to an RPC\<close>

text \<open>
  What comes with a reply: the reading of the clocks and the memory for the QoS controller, the reply
  itself, whether it belongs to the current connection, \<open>osc_recoverable_error\<close> (outside \<open>src/\<close>), the
  limit of attempts, whether a page was interrupted, the time in seconds and the timeout of a new
  request, and size and known minimum size of the object.
\<close>

record reply_env =
  ry_now :: timeval
  ry_now_bw :: timeval
  ry_import_later :: bool
  ry_totalram :: u64
  ry_populate :: "int \<Rightarrow> int"
  ry_ack_time :: timeval
  ry_reply :: brw_reply
  ry_same_generation :: bool
  ry_recoverable :: "int \<Rightarrow> bool"
  ry_cl_resends :: int
  ry_interrupted :: bool
  ry_seconds :: int
  ry_timeout :: int
  ry_lvb_size :: int
  ry_kms :: int
  ry_srvlock :: "page \<Rightarrow> bool"

definition with_client :: "client_obd \<Rightarrow> osc_cli \<Rightarrow> osc_cli" where
  "with_client c cli = cli\<lparr>cl_import := cl_import c, cl_max_rpcs_in_flight := cl_max_rpcs_in_flight c,
     cl_max_pages_per_rpc := cl_max_pages_per_rpc c, cl_dirty_max_pages := cl_dirty_max_pages c, cl_qos := cl_qos c\<rparr>"

text \<open>Size and known minimum size after a write, where they grow.\<close>

definition grown_attrs :: "reply_env \<Rightarrow> osc_object \<Rightarrow> brw_page list \<Rightarrow> int option \<times> int option" where
  "grown_attrs ry obj pga =
     (let p = bp_pg (last pga); oap = oo_oap obj p; last_off = oap_count oap + oap_obj_off oap + oap_page_off oap
      in (if ry_lvb_size ry < last_off then Some last_off else None,
          if ry_kms ry < last_off \<and> \<not> ry_srvlock ry p then Some last_off else None))"

datatype reply_result = Resent "brw_req \<times> int" | Done int "int option \<times> int option"

text \<open>
  The first half: the QoS controller, the meaning of the reply and the decision to send again. The
  second component is the return code when the request is done with.
\<close>

definition judge_reply ::
  "rpc_env \<Rightarrow> reply_env \<Rightarrow> osc_rpc \<Rightarrow> int \<Rightarrow> osc_cli \<times> osc_pool \<times> page_mem \<Rightarrow>
   ((brw_req \<times> int) option \<times> int \<times> osc_cli \<times> osc_pool \<times> page_mem) outcome" where
  "judge_reply re ry rpc rc st =
     (case st of (cli, pool, mem) \<Rightarrow>
       let aa = or_req rpc; rp = ry_reply ry in
       bindO (qos_adjust (re_tv_sub re) (ry_now ry) (ry_now_bw ry) (ry_import_later ry) (ry_totalram ry) (ry_populate ry)
                (ry_ack_time ry) (o_sent_time (aa_oa aa)) (if rq_write aa then 1 else 0) (bd_nob_transferred rp)
                (client_obd.truncate cli, pool)) (\<lambda>(_, c, pool).
       bindO (osc_brw_fini_request (re_brw re) rp aa rc \<lparr>bs_cli = with_client c cli, bs_oa = aa_oa aa, bs_mem = mem, bs_setdq = None\<rparr>) (\<lambda>(rc, st).
       let cli = bs_cli st; mem = bs_mem st; aa = aa\<lparr>aa_oa := bs_oa st\<rparr> in
       if ry_recoverable ry rc then
         bindO (if ry_same_generation ry \<and> (rc = - EINPROGRESS \<or> client_should_resend (aa_resends aa) (ry_cl_resends ry))
                then osc_brw_redo_request (re_brw re) (ry_interrupted ry) (ry_seconds ry) (ry_timeout ry) aa mem cli
                else Ret (rc, None, aa_oa aa, cli)) (\<lambda>(rc, new, _, cli).
         case new of Some req \<Rightarrow> Ret (Some req, 0, cli, pool, mem)
         | None \<Rightarrow> Ret (None, if rc = - EAGAIN \<or> rc = - EINPROGRESS then - EIO else rc, cli, pool, mem))
       else Ret (None, rc, cli, pool, mem))))"

text \<open>
  The whole function. A request that is sent again takes the place of the old one with its extents;
  else the extents are finished, the RPC is no longer in flight, the threads that wait for room are
  woken and the next RPCs are sent.
\<close>

definition brw_interpret ::
  "rpc_env \<Rightarrow> reply_env \<Rightarrow> (rpc_env \<times> rpc_env) list \<Rightarrow> osc_rpc \<Rightarrow> int \<Rightarrow> osc_world \<times> osc_pool \<times> page_mem \<Rightarrow>
   (reply_result \<times> osc_world \<times> osc_pool \<times> page_mem) outcome option" where
  "brw_interpret re ry res rpc rc st =
     (case st of (w, pool, mem) \<Rightarrow>
       case judge_reply re ry rpc rc (w_cli w, pool, mem) of
         Fault f \<Rightarrow> Some (Fault f)
       | Ret (Some (req, at), _, cli, pool, mem) \<Rightarrow>
           Some (Ret (Resent (req, at), w\<lparr>w_cli := cli, w_rpcs := remove1 rpc (w_rpcs w) @ [rpc\<lparr>or_req := req\<rparr>]\<rparr>, pool, mem))
       | Ret (None, rc, cli, pool, mem) \<Rightarrow>
           let o' = or_obj rpc; write = rq_write (or_req rpc);
               attrs = (if rc = 0 \<and> write then grown_attrs ry (w_objs w o') (aa_ppga (or_req rpc)) else (None, None))
           in case finish_exts re True rc (or_exts rpc) (w_objs w o', cli) of
                Fault f \<Rightarrow> Some (Fault f)
              | Ret (obj, cli) \<Rightarrow>
                  let cli = (if write then cli\<lparr>cl_w_in_flight := cl_w_in_flight cli - 1\<rparr>
                             else cli\<lparr>cl_r_in_flight := cl_r_in_flight cli - 1\<rparr>)
                  in case osc_wake_cache_waiters (be_now_shift (re_brw re)) cli of
                       Fault f \<Rightarrow> Some (Fault f)
                     | Ret (_, cli) \<Rightarrow>
                         map_option (\<lambda>r. bindO r (\<lambda>w. Ret (Done rc attrs, w, pool, mem)))
                           (osc_check_rpcs res (w\<lparr>w_cli := cli, w_objs := (w_objs w)(o' := obj), w_rpcs := remove1 rpc (w_rpcs w)\<rparr>)))"

section \<open>RPCs in flight\<close>

text \<open>The fields of the client that decide how many RPCs may be under way.\<close>

definition same_flight :: "osc_cli \<Rightarrow> osc_cli \<Rightarrow> bool" where
  "same_flight c c' \<longleftrightarrow> cl_r_in_flight c' = cl_r_in_flight c \<and> cl_w_in_flight c' = cl_w_in_flight c \<and>
     cl_max_rpcs_in_flight c' = cl_max_rpcs_in_flight c"

lemma same_flight_refl [simp, intro]: "same_flight c c"
  by (simp add: same_flight_def)

lemma same_flight_trans: "same_flight a b \<Longrightarrow> same_flight b c \<Longrightarrow> same_flight a c"
  by (simp add: same_flight_def)

lemma enter_try_flight: "osc_enter_cache_try now p n t cli = Ret (ok, cli') \<Longrightarrow> same_flight cli cli'"
  by (auto simp: osc_enter_cache_try_def osc_reserve_grant_def osc_consume_write_grant_def osc_unreserve_grant_locked_def
      osc_update_next_shrink_def set_brw_flag_def same_flight_def Let_def split: if_splits)

lemma wake_waiters_flight: "wake_waiters now ws cli = Ret (r, cli') \<Longrightarrow> same_flight cli cli'"
proof (induction ws arbitrary: cli r)
  case (Cons w ws)
  let ?c = "cli\<lparr>cl_cache_waiters := ws\<rparr>"
  have c: "same_flight cli ?c" by (simp add: same_flight_def)
  show ?case
  proof (cases "dirty_room ?c")
    case True
    then obtain ok c2 r2 where "osc_enter_cache_try now (ocw_oap w) (ocw_grant w) False ?c = Ret (ok, c2)" "wake_waiters now ws c2 = Ret (r2, cli')"
      using Cons.prems by (auto simp: Let_def)
    then show ?thesis using Cons.IH [of c2 r2] enter_try_flight [of now "ocw_oap w" "ocw_grant w" False ?c ok c2] c same_flight_trans by blast
  next
    case False
    then obtain r2 where "wake_waiters now ws ?c = Ret (r2, cli')" using Cons.prems by (auto simp: Let_def)
    then show ?thesis using Cons.IH [of ?c r2] c same_flight_trans by blast
  qed
qed simp

lemma free_grant_flight: "osc_free_grant now n lost cli = Ret cli' \<Longrightarrow> same_flight cli cli'"
proof -
  assume "osc_free_grant now n lost cli = Ret cli'"
  then obtain r where "wake_waiters now (cl_cache_waiters (free_grant_books n lost cli)) (free_grant_books n lost cli) = Ret (r, cli')"
    by (auto simp: osc_free_grant_def osc_wake_cache_waiters_def)
  then have "same_flight (free_grant_books n lost cli) cli'" by (rule wake_waiters_flight)
  moreover have "same_flight cli (free_grant_books n lost cli)" by (simp add: free_grant_books_def same_flight_def Let_def)
  ultimately show ?thesis using same_flight_trans by blast
qed

lemma completion_flight: "same_flight (snd st) (snd (fold (osc_ap_completion xids rc) ps st))"
proof (induction ps arbitrary: st)
  case (Cons p ps)
  have c: "same_flight (snd st) (snd (osc_ap_completion xids rc p st))"
    by (cases st) (simp add: osc_ap_completion_def same_flight_def Let_def)
  show ?case unfolding fold_Cons comp_apply by (rule same_flight_trans [OF c Cons.IH])
qed simp

lemma extent_finish_flight:
  assumes "osc_extent_finish env now xids bs x sent rc (obj, cli) = Ret (obj', cli')"
  shows "same_flight cli cli'"
proof -
  obtain o1 c1 where f: "fold (osc_ap_completion xids rc) (oe_pages (oo_ext obj x)) (obj, cli) = (o1, c1)"
    by (cases "fold (osc_ap_completion xids rc) (oe_pages (oo_ext obj x)) (obj, cli)")
  then have "same_flight cli c1" using completion_flight [of "(obj, cli)" xids rc "oe_pages (oo_ext obj x)"] by simp
  moreover have "same_flight c1 cli'"
    using assms f by (auto simp: osc_extent_finish_def Let_def split: if_splits dest!: free_grant_flight)
  ultimately show ?thesis by (rule same_flight_trans)
qed

lemma finish_exts_flight: "finish_exts re sent rc xs (obj, cli) = Ret (obj', cli') \<Longrightarrow> same_flight cli cli'"
proof (induction xs arbitrary: obj cli)
  case (Cons x xs)
  then obtain o1 c1 where "osc_extent_finish (re_env re) (be_now_shift (re_brw re)) (re_xids re) (re_bsize re) x sent rc (obj, cli) = Ret (o1, c1)"
    "finish_exts re sent rc xs (o1, c1) = Ret (obj', cli')" by auto
  then show ?case using Cons.IH extent_finish_flight same_flight_trans by blast
qed simp

lemma mark_pages_flight: "same_flight cli (mark_pages tight soft ps cli)"
  unfolding mark_pages_def
proof (induction ps arbitrary: cli)
  case (Cons p ps)
  let ?c = "let cli = (if tight then set_brw_flag p (brw_flag cli p OR OBD_BRW_MEMALLOC) cli else cli)
    in if soft then set_brw_flag p (brw_flag cli p OR OBD_BRW_SOFT_SYNC) cli else cli"
  have c: "same_flight cli ?c" by (simp add: same_flight_def set_brw_flag_def Let_def)
  show ?case unfolding fold_Cons comp_apply by (rule same_flight_trans [OF c Cons.IH])
qed simp

lemma prep_request_flight: "osc_brw_prep_request be write oa pga resend mem cli = Ret (rc, new, oa', cli') \<Longrightarrow> same_flight cli cli'"
proof -
  have a: "osc_announce_cached o1 c1 = Ret (o2, c2) \<Longrightarrow> same_flight c1 c2" for o1 c1 o2 c2
    by (auto simp: osc_announce_cached_def Let_def same_flight_def split: if_splits)
  have b: "resend_and_shrink be resend o1 c1 = (o2, c2) \<Longrightarrow> same_flight c1 c2" for o1 c1 o2 c2
    by (auto simp: resend_and_shrink_def osc_should_shrink_grant_def osc_shrink_grant_local_def osc_update_next_shrink_def Let_def
        same_flight_def split: if_splits)
  assume "osc_brw_prep_request be write oa pga resend mem cli = Ret (rc, new, oa', cli')"
  then show ?thesis
    by (auto simp: osc_brw_prep_request_def split: if_splits prod.splits dest!: a b dest: same_flight_trans)
qed

text \<open>An RPC is counted exactly when it was built.\<close>

lemma build_rpc_flight:
  assumes "osc_build_rpc re o' xs write (obj, cli) = Ret (rc, new, obj', cli')"
  shows "same_flight (if new = None then cli else count_in_flight write cli) cli'"
proof -
  let ?oaps = "concat (map (\<lambda>x. oe_pages (oo_ext obj x)) xs)"
  let ?c = "mark_pages (list_ex (\<lambda>x. oe_memalloc (oo_ext obj x)) xs) (re_soft_sync re) ?oaps cli"
  let ?pga = "map (page_of ?c obj) ?oaps"
  show ?thesis
  proof (cases "re_alloc_pga re \<and> re_alloc_oa re")
    case False
    then show ?thesis using assms by (auto simp: osc_build_rpc_def Let_def split: if_splits dest!: finish_exts_flight)
  next
    case True
    then obtain rc1 req oa c2 where p: "osc_brw_prep_request (re_brw re) write (re_attr re) (sort_brw_pages ?pga (length ?pga)) False (re_mem re) ?c =
        Ret (rc1, req, oa, c2)"
      using assms by (auto simp: osc_build_rpc_def Let_def)
    have s: "same_flight cli c2" using prep_request_flight [OF p] mark_pages_flight same_flight_trans by blast
    show ?thesis
    proof (cases req)
      case None
      then have "same_flight c2 cli' \<and> new = None"
        using assms True p by (auto simp: osc_build_rpc_def Let_def dest!: finish_exts_flight)
      then show ?thesis using s same_flight_trans by auto
    next
      case (Some r)
      then show ?thesis using assms True p s by (auto simp: osc_build_rpc_def Let_def same_flight_def count_in_flight_def)
    qed
  qed
qed

definition one_more :: "bool \<Rightarrow> osc_cli \<Rightarrow> osc_cli \<Rightarrow> bool" where
  "one_more write c c' \<longleftrightarrow> same_flight c c' \<or> same_flight (count_in_flight write c) c'"

lemma send_write_flight: "osc_send_write_rpc re o' (obj, cli) = Ret (rc, new, obj', cli') \<Longrightarrow> one_more True cli cli'"
  by (auto simp: osc_send_write_rpc_def Let_def one_more_def split: if_splits dest!: build_rpc_flight)

lemma send_read_flight: "osc_send_read_rpc re o' (obj, cli) = Ret (rc, new, obj', cli') \<Longrightarrow> one_more False cli cli'"
  by (auto simp: osc_send_read_rpc_def Let_def one_more_def split: if_splits dest!: build_rpc_flight)

definition flights :: "osc_cli \<Rightarrow> nat" where
  "flights cli = unat (cl_r_in_flight cli) + unat (cl_w_in_flight cli)"

lemma one_more_flights:
  assumes "one_more write c c'" and "flights c + 1 < 2 ^ 32"
  shows "flights c' \<le> flights c + 1 \<and> cl_max_rpcs_in_flight c' = cl_max_rpcs_in_flight c"
  using assms by (auto simp: one_more_def same_flight_def count_in_flight_def flights_def unat_word_ariths split: if_splits)

lemma check_object_flights:
  assumes "check_object re_w re_r o' w = Ret w'" and "flights (w_cli w) + 2 < 2 ^ 32"
  shows "flights (w_cli w') \<le> flights (w_cli w) + 2 \<and> cl_max_rpcs_in_flight (w_cli w') = cl_max_rpcs_in_flight (w_cli w)"
proof -
  let ?wr = "if osc_makes_rpc (re_invalid re_w) (w_cli w) (w_objs w o') True
    then bindO (osc_send_write_rpc re_w o' (w_objs w o', w_cli w)) (\<lambda>r. Ret (put_result o' r w)) else Ret w"
  obtain w1 where 1: "?wr = Ret w1"
    using assms(1) by (auto simp: check_object_def bindO_Ret_conv)
  then have f1: "flights (w_cli w1) \<le> flights (w_cli w) + 1 \<and> cl_max_rpcs_in_flight (w_cli w1) = cl_max_rpcs_in_flight (w_cli w)"
    using assms(2) one_more_flights [of True "w_cli w"] by (auto simp: put_result_def split: if_splits dest!: send_write_flight)
  let ?read = "if osc_makes_rpc (re_invalid re_r) (w_cli w1) (w_objs w1 o') False
    then bindO (osc_send_read_rpc re_r o' (w_objs w1 o', w_cli w1)) (\<lambda>r. Ret (put_result o' r w1)) else Ret w1"
  obtain w2 where 2: "?read = Ret w2" "w_cli w' = w_cli w2"
    using assms(1) unfolding check_object_def 1 by auto
  then have "flights (w_cli w2) \<le> flights (w_cli w1) + 1 \<and> cl_max_rpcs_in_flight (w_cli w2) = cl_max_rpcs_in_flight (w_cli w1)"
    using f1 assms(2) one_more_flights [of False "w_cli w1"] by (auto simp: put_result_def split: if_splits dest!: send_read_flight)
  then show ?thesis using f1 2(2) by simp
qed

lemma not_max_flights:
  assumes "\<not> osc_max_rpc_in_flight in_flight cli obj" and "in_flight cli = cl_r_in_flight cli + cl_w_in_flight cli" and "flights cli < 2 ^ 32"
  shows "flights cli \<le> unat (cl_max_rpcs_in_flight cli)"
proof -
  have u: "unat (in_flight cli) = flights cli" using assms(2,3) by (simp add: flights_def unat_word_ariths)
  have "unat (cl_max_rpcs_in_flight cli + 1) \<le> unat (cl_max_rpcs_in_flight cli) + 1" by (simp add: unat_word_ariths)
  then show ?thesis using assms(1) u by (auto simp: osc_max_rpc_in_flight_def Let_def word_le_nat_alt split: if_splits)
qed

section \<open>Results\<close>


text \<open>
  The extra slot is meant for objects with high priority extents and goes to those without: with the
  limit reached an object that has nothing urgent may still send.
\<close>

theorem flight_limit_inverted:
  assumes "in_flight cli = cl_max_rpcs_in_flight cli" and "cl_max_rpcs_in_flight cli < 0xFFFFFFFF"
  shows "osc_max_rpc_in_flight in_flight cli obj \<longleftrightarrow> oo_hp_exts obj \<noteq> []"
proof -
  have "unat (cl_max_rpcs_in_flight cli) < unat (0xFFFFFFFF :: u32)" using assms(2) by (simp only: word_less_nat_alt)
  then have "unat (cl_max_rpcs_in_flight cli + 1) = unat (cl_max_rpcs_in_flight cli) + 1" by (simp add: unat_word_ariths)
  then have "\<not> cl_max_rpcs_in_flight cli + 1 \<le> cl_max_rpcs_in_flight cli" by (simp add: word_le_nat_alt)
  then show ?thesis using assms(1) by (simp add: osc_max_rpc_in_flight_def Let_def)
qed

definition sample_lists :: osc_lists where
  "sample_lists = \<lparr>cl_loi_ready_list = [3], cl_loi_hp_ready_list = [], cl_loi_write_list = [3], cl_loi_read_list = []\<rparr>"

definition sample_rpc_env :: rpc_env where
  "sample_rpc_env = \<lparr>re_cp_type = (\<lambda>_. 0), re_alloc_pga = True, re_alloc_oa = True, re_attr = zero_obdo, re_soft_sync = False,
     re_now = zero_time, re_xid = 1, re_mem = (\<lambda>_ _. 0), re_brw = sample_brw_env, re_env = sample_env, re_tv_sub = (\<lambda>_ _. 0), re_bsize = 4096,
     re_ready = (\<lambda>_. (0, False)), re_kms = Inr 0, re_in_flight = (\<lambda>cli. cl_r_in_flight cli + cl_w_in_flight cli),
     re_is_ready = (\<lambda>ls o'. o' \<in> set (cl_loi_ready_list ls) \<union> set (cl_loi_hp_ready_list ls)), re_invalid = False,
     re_xids = (\<lambda>_. (1, 1))\<rparr>"

definition sample_world :: osc_world where
  "sample_world = \<lparr>w_cli = sample_osc\<lparr>cl_w_in_flight := 9\<rparr>, w_objs = (\<lambda>_. sample_object), w_lists = sample_lists, w_rpcs = []\<rparr>"


theorem flight_limit_inverted_witness:
  "\<not> osc_max_rpc_in_flight (\<lambda>cli. cl_r_in_flight cli + cl_w_in_flight cli) (sample_osc\<lparr>cl_w_in_flight := 8\<rparr>) sample_object"
  using flight_limit_inverted [of "\<lambda>cli. cl_r_in_flight cli + cl_w_in_flight cli" "sample_osc\<lparr>cl_w_in_flight := 8\<rparr>" sample_object]
  by (simp add: sample_osc_def sample_object_def)

text \<open>
  The extents collected for a write RPC fit: their pages are counted exactly and stay within the
  limit, no extent is taken twice, all are of one kind, each is taken off the lists of the object and
  belongs to the collecting thread. Extents of high priority come first: one of them is left only when
  the RPC holds nothing else.
\<close>

theorem write_extents_fit:
  assumes "queues_ok M obj" and "unat (cl_max_pages_per_rpc cli) \<le> M"
  shows "\<exists>rb. get_write_extents cp_type cli obj = Ret rb \<and>
    rb_count rb = sum_list (map (\<lambda>x. oe_nr_pages (oo_ext obj x)) (rb_list rb)) \<and> rb_count rb \<le> M \<and> distinct (rb_list rb) \<and>
    (\<forall>x \<in> set (tl (rb_list rb)). same_class cp_type (oo_ext obj x) (oo_ext obj (hd (rb_list rb)))) \<and>
    (\<forall>x \<in> set (rb_list rb). \<not> on_link x (rb_obj rb) \<and> oe_owner (oo_ext (rb_obj rb) x)) \<and>
    (set (oo_hp_exts obj) \<subseteq> set (rb_list rb) \<or> set (rb_list rb) \<subseteq> set (oo_hp_exts obj))"
proof -
  obtain rb where rb: "get_write_extents cp_type cli obj = Ret rb" "rpc_ok M cp_type obj rb"
    "set (oo_hp_exts obj) \<subseteq> set (rb_list rb) \<or> set (rb_list rb) \<subseteq> set (oo_hp_exts obj)"
    using get_write_extents_ok [OF assms] by blast
  then have "\<forall>x \<in> set (rb_list rb). \<not> on_link x (rb_obj rb) \<and> oe_owner (oo_ext (rb_obj rb) x)"
    by (auto simp: rpc_ok_def on_link_def)
  then show ?thesis using rb by (intro exI [of _ rb]) (auto simp: rpc_ok_def)
qed

definition sample_urgent :: osc_object where
  "sample_urgent = sample_object\<lparr>oo_urgent_exts := [1]\<rparr>"

theorem write_extents_fit_witness:
  "\<exists>rb. get_write_extents (\<lambda>_. 0) sample_osc sample_urgent = Ret rb \<and> rb_count rb \<le> 256 \<and> distinct (rb_list rb)"
proof -
  have "queues_ok 256 sample_urgent"
    by (auto simp: queues_ok_def links_ok_def sendable_def sample_urgent_def sample_object_def sample_ext_def exts_def new_extent_def)
  from write_extents_fit [OF this, of sample_osc "\<lambda>_. 0"] show ?thesis by (auto simp: sample_osc_def)
qed

text \<open>
  After the lists of the client were put in order an object is on them exactly where it belongs:
  with the urgent ones when it has high priority extents, else with the ready ones when it can fill
  an RPC, and with those that have pages to write or to read when it has any.
\<close>

theorem list_maint_exact:
  assumes "distinct (cl_loi_ready_list ls)" and "distinct (cl_loi_hp_ready_list ls)" and "distinct (cl_loi_write_list ls)"
    and "distinct (cl_loi_read_list ls)" and "osc_list_maint is_ready invalid cli obj o' ls = (ready, ls')"
  shows "(o' \<in> set (cl_loi_hp_ready_list ls') \<longleftrightarrow> oo_hp_exts obj \<noteq> []) \<and>
    (o' \<in> set (cl_loi_ready_list ls') \<longleftrightarrow>
      oo_hp_exts obj = [] \<and> (osc_makes_rpc invalid cli obj True \<or> osc_makes_rpc invalid cli obj False)) \<and>
    (o' \<in> set (cl_loi_write_list ls') \<longleftrightarrow> oo_nr_writes obj > 0) \<and> (o' \<in> set (cl_loi_read_list ls') \<longleftrightarrow> oo_nr_reads obj > 0) \<and>
    (\<forall>p. p \<noteq> o' \<longrightarrow> (p \<in> set (cl_loi_ready_list ls') \<longleftrightarrow> p \<in> set (cl_loi_ready_list ls)) \<and>
      (p \<in> set (cl_loi_hp_ready_list ls') \<longleftrightarrow> p \<in> set (cl_loi_hp_ready_list ls)))"
proof -
  have on: "o' \<in> set (on_list o' xs b) \<longleftrightarrow> b" if "distinct xs" for xs b using that by (simp add: on_list_def)
  have other: "p \<in> set (on_list o' xs b) \<longleftrightarrow> p \<in> set xs" if "p \<noteq> o'" for p xs b using that by (simp add: on_list_def)
  show ?thesis using assms by (auto simp: osc_list_maint_def osc_makes_hprpc_def Let_def on other split: if_splits)
qed

theorem list_maint_exact_witness:
  "\<exists>ls'. osc_list_maint (\<lambda>_ _. True) False sample_osc sample_urgent 4 sample_lists = (True, ls') \<and> 4 \<in> set (cl_loi_ready_list ls') \<and>
     3 \<in> set (cl_loi_ready_list ls')"
proof -
  obtain ready ls' where l: "osc_list_maint (\<lambda>_ _. True) False sample_osc sample_urgent 4 sample_lists = (ready, ls')" by fastforce
  have "ready" using l by (simp add: osc_list_maint_def Let_def)
  moreover have "osc_makes_rpc False sample_osc sample_urgent True" "oo_hp_exts sample_urgent = []"
    by (simp_all add: osc_makes_rpc_def sample_urgent_def sample_object_def sample_osc_def)
  ultimately show ?thesis using list_maint_exact [OF _ _ _ _ l] l by (auto simp: sample_lists_def)
qed

end
