(* ===== verification/Osc_Flush.thy ===== *)
theory Osc_Flush
  imports Osc_Queue Osc_Rpc
begin

text \<open>
  Pages and ranges on their way out of the cache (\<open>osc_cache.c\<close>): waiting for an extent, flushing,
  cancelling and tearing down a page, writing back, waiting for and truncating a range.

  The state is the client with its objects (\<open>osc_world\<close>). Other threads run while a call sleeps: a
  \<open>wait_event\<close> maps the state a thread leaves to what \<open>l_wait_event\<close> returned and the state it finds.
\<close>

section \<open>Waiting for an extent\<close>

type_synonym wait_event = "eref \<Rightarrow> osc_world \<Rightarrow> int \<times> osc_world"

definition set_obj :: "oref \<Rightarrow> osc_object \<Rightarrow> osc_world \<Rightarrow> osc_world" where
  "set_obj o' obj w = w\<lparr>w_objs := (w_objs w)(o' := obj)\<rparr>"

text \<open>Putting the lists of the client in order for one object, and asking for its RPCs to be sent by another thread.\<close>

definition maint :: "rpc_env \<Rightarrow> oref \<Rightarrow> osc_world \<Rightarrow> osc_world" where
  "maint re o' w = w\<lparr>w_lists := snd (osc_list_maint (re_is_ready re) (re_invalid re) (w_cli w) (w_objs w o') o' (w_lists w))\<rparr>"

definition osc_io_unplug_async :: "rpc_env \<Rightarrow> oref \<Rightarrow> osc_world \<Rightarrow> osc_world" where
  "osc_io_unplug_async re o' w = (case osc_io_unplug0 0 re [] (Some o') True w of Some (Ret (_, w)) \<Rightarrow> w | _ \<Rightarrow> w)"

definition unplug_if :: "bool \<Rightarrow> rpc_env \<Rightarrow> oref \<Rightarrow> osc_world \<Rightarrow> osc_world" where
  "unplug_if b re o' w = (if b then osc_io_unplug_async re o' w else w)"

text \<open>An extent someone waits for is made urgent.\<close>

definition wait_kick :: "osc_env \<Rightarrow> osc_cli \<Rightarrow> oes \<Rightarrow> eref \<Rightarrow> osc_object \<Rightarrow> (bool \<times> osc_object) outcome" where
  "wait_kick env cli state x obj =
     (let e = oo_ext obj x; urgent = upd x (\<lambda>e. e\<lparr>oe_urgent := True\<rparr>) obj in
      lassert (osc_extent_sanity_check0 env e = 0)
       (if state = OES_INV \<and> \<not> oe_urgent e \<and> \<not> oe_hp e then
          if oe_state e = OES_ACTIVE then Ret (False, urgent)
          else if oe_state e = OES_CACHE then bindO (osc_extent_hold x urgent) (osc_extent_release env cli x)
          else Ret (False, obj)
        else Ret (False, obj)))"

definition osc_extent_wait :: "rpc_env \<Rightarrow> wait_event \<times> wait_event \<Rightarrow> oref \<Rightarrow> oes \<Rightarrow> eref \<Rightarrow> osc_world \<Rightarrow> (int \<times> osc_world) outcome" where
  "osc_extent_wait re waits o' state x w =
     bindO (wait_kick (re_env re) (w_cli w) state x (w_objs w o')) (\<lambda>(unplug, obj).
       let w = unplug_if unplug re o' (set_obj o' obj w);
           (rc, w) = fst waits x w;
           (rc, w) = (if rc = - ETIMEDOUT then snd waits x w else (rc, w));
           oe_rc = oe_rc (oo_ext (w_objs w o') x)
       in Ret (if rc = 0 \<and> oe_rc < 0 then oe_rc else rc, w))"

section \<open>One page\<close>

definition osc_prep_async_page :: "bool \<Rightarrow> bool \<Rightarrow> page \<Rightarrow> int \<Rightarrow> osc_object \<times> osc_cli \<Rightarrow> (osc_object \<times> osc_cli) outcome" where
  "osc_prep_async_page remote capable oap offset st =
     (case st of (obj, cli) \<Rightarrow>
       lassert (offset mod 4096 = 0)
        (Ret (upd_oap oap (\<lambda>oap. oap\<lparr>oap_obj_off := offset\<rparr>) obj,
              if \<not> remote \<and> capable then set_brw_flag oap OBD_BRW_NOQUOTA cli else cli)))"

text \<open>A page is going away; only pages of an extent under truncation may be taken out of the cache.\<close>

definition osc_teardown_async_page :: "osc_env \<Rightarrow> osc_page \<Rightarrow> osc_object \<Rightarrow> (int \<times> osc_object) outcome" where
  "osc_teardown_async_page env ops obj =
     lassert (oap_magic_ok ops)
      (if oap_in_rpc ops then Ret (- EBUSY, obj)
       else if oap_pending ops then
         bindO (osc_extent_lookup obj (osc_index env (ops_oap ops))) (\<lambda>(found, obj).
           case found of None \<Rightarrow> Ret (0, obj)
           | Some x \<Rightarrow>
               let rc = (if oe_state (oo_ext obj x) \<noteq> OES_TRUNC then - EBUSY else 0)
               in bindO (osc_extent_put x obj) (\<lambda>obj. Ret (rc, obj)))
       else Ret (0, obj))"

text \<open>
  The kernel wants a page written. \<open>prep\<close> is what \<open>cl_page_prep\<close> returns, \<open>pressure\<close> that of
  \<open>memory_pressure_get\<close>.
\<close>

definition flush_extent :: "int \<Rightarrow> bool \<Rightarrow> page \<Rightarrow> eref \<Rightarrow> osc_object \<Rightarrow> (int \<times> bool \<times> osc_object) outcome" where
  "flush_extent prep pressure oap x obj =
     (let e = oo_ext obj x in
      if oe_state e \<in> {OES_RPC, OES_LOCK_DONE} then Fault LBUG
      else if oe_state e \<in> {OES_LOCKING, OES_TRUNC, OES_ACTIVE} then Ret (- EAGAIN, False, obj)
      else if prep \<noteq> 0 then Ret (prep, False, obj)
      else
        let obj = upd_oap oap (\<lambda>oap. oap\<lparr>oap_ready := True, oap_urgent := True\<rparr>) obj;
            obj = upd x (\<lambda>e. e\<lparr>oe_memalloc := oe_memalloc e \<or> pressure, oe_urgent := True\<rparr>) obj
        in if oe_state e = OES_CACHE
           then Ret (0, True, if on_link x obj then obj else obj\<lparr>oo_urgent_exts := oo_urgent_exts obj @ [x]\<rparr>)
           else Ret (0, False, obj))"

definition osc_flush_async_page :: "rpc_env \<Rightarrow> int \<Rightarrow> bool \<Rightarrow> page \<Rightarrow> oref \<Rightarrow> osc_world \<Rightarrow> (int \<times> osc_world) outcome" where
  "osc_flush_async_page re prep pressure oap o' w =
     bindO (osc_extent_lookup (w_objs w o') (osc_index (re_env re) oap)) (\<lambda>(found, obj).
       case found of None \<Rightarrow> Fault LBUG
       | Some x \<Rightarrow>
           bindO (flush_extent prep pressure oap x obj) (\<lambda>(rc, unplug, obj).
           bindO (osc_extent_put x obj) (\<lambda>obj. Ret (rc, unplug_if unplug re o' (set_obj o' obj w)))))"

text \<open>A thread that waits for its page was interrupted.\<close>

definition covering :: "pgoff \<Rightarrow> osc_object \<Rightarrow> eref list \<Rightarrow> eref option" where
  "covering index obj xs = find (\<lambda>x. oe_start (oo_ext obj x) \<le> index \<and> index \<le> oe_end (oo_ext obj x)) xs"

definition osc_cancel_async_page :: "rpc_env \<Rightarrow> page \<Rightarrow> oref \<Rightarrow> osc_world \<Rightarrow> (int \<times> osc_world) outcome" where
  "osc_cancel_async_page re oap o' w =
     (let oap_st = oo_oap (w_objs w o') oap; wr = oap_write oap_st;
          obj = upd_oap oap (\<lambda>oap. oap\<lparr>oap_interrupted := True\<rparr>) (w_objs w o')
      in lassert (\<not> oap_interrupted oap_st)
       (bindO
         (case covering (osc_index (re_env re) oap) obj (if wr then oo_urgent_exts obj else oo_reading_exts obj) of
            None \<Rightarrow> Ret (- EBUSY, upd_oap oap (\<lambda>oap. oap\<lparr>oap_xid := None\<rparr>) obj, w_cli w)
          | Some x \<Rightarrow>
              lassert (oe_state (oo_ext obj x) = OES_LOCK_DONE)
               (bindO (osc_extent_get x obj) (\<lambda>obj.
                bindO (osc_update_pending wr (- int (oe_nr_pages (oo_ext obj x))) (unlink x obj)) (\<lambda>obj.
                bindO (osc_extent_finish (re_env re) (be_now_shift (re_brw re)) (re_xids re) (re_bsize re) x False (- EINTR) (obj, w_cli w)) (\<lambda>(obj, cli).
                bindO (osc_extent_put x obj) (\<lambda>obj. Ret (0, obj, cli)))))))
         (\<lambda>(rc, obj, cli). Ret (rc, maint re o' ((set_obj o' obj w)\<lparr>w_cli := cli\<rparr>)))))"

section \<open>A range\<close>

text \<open>The extents from the first that reaches \<open>index\<close>.\<close>

definition from_index :: "osc_object \<Rightarrow> pgoff \<Rightarrow> eref list" where
  "from_index obj index =
     (case osc_extent_search obj index of None \<Rightarrow> exts obj
      | Some x \<Rightarrow> if oe_end (oo_ext obj x) < index then after x (exts obj) else x # after x (exts obj))"

text \<open>The first extent of the range that someone waits for.\<close>

fun next_synced :: "pgoff \<Rightarrow> osc_object \<Rightarrow> eref list \<Rightarrow> eref option outcome" where
  "next_synced fin obj [] = Ret None"
| "next_synced fin obj (x # xs) =
     (let e = oo_ext obj x in
      if oe_start e > fin then Ret None
      else if \<not> oe_fsync_wait e then lassert (oe_intree e) (next_synced fin obj xs)
      else
        lassert (oe_state e = OES_CACHE \<longrightarrow> oe_hp e \<or> oe_urgent e)
         (lassert (oe_state e = OES_ACTIVE \<longrightarrow> \<not> oe_hp e \<and> oe_urgent e) (Ret (Some x))))"

fun osc_cache_wait_range ::
  "rpc_env \<Rightarrow> oref \<Rightarrow> pgoff \<Rightarrow> (wait_event \<times> wait_event) list \<Rightarrow> pgoff \<Rightarrow> int \<Rightarrow> osc_world \<Rightarrow> (int \<times> osc_world) outcome option" where
  "osc_cache_wait_range re o' fin waits index result w =
     (case next_synced fin (w_objs w o') (from_index (w_objs w o') index) of
        Fault f \<Rightarrow> Some (Fault f)
      | Ret None \<Rightarrow> Some (Ret (result, w))
      | Ret (Some x) \<Rightarrow>
          (case waits of [] \<Rightarrow> None
           | wt # waits \<Rightarrow>
               (case bindO (osc_extent_get x (w_objs w o')) (\<lambda>obj.
                     bindO (osc_extent_wait re wt o' OES_INV x (set_obj o' obj w)) (\<lambda>(rc, w).
                     bindO (osc_extent_put x (w_objs w o')) (\<lambda>obj. Ret (rc, set_obj o' obj w)))) of
                  Fault f \<Rightarrow> Some (Fault f)
                | Ret (rc, w') \<Rightarrow>
                    osc_cache_wait_range re o' fin waits (oe_end (oo_ext (w_objs w o') x) + 1) (if result = 0 then rc else result) w')))"

text \<open>
  The extents of the range are marked. The result counts the pages that will be written; the flag says
  that RPCs are to be sent; the list holds the extents to be discarded.
\<close>

definition mark_extent ::
  "pgoff \<Rightarrow> pgoff \<Rightarrow> bool \<Rightarrow> bool \<Rightarrow> eref \<Rightarrow> int \<times> bool \<times> eref list \<times> osc_object \<Rightarrow> (int \<times> bool \<times> eref list \<times> osc_object) outcome" where
  "mark_extent start fin hp discard x st =
     (case st of (result, unplug, dl, obj) \<Rightarrow>
       let e = oo_ext obj x; obj = upd x (\<lambda>e. e\<lparr>oe_fsync_wait := True\<rparr>) obj in
       if oe_state e = OES_CACHE then
         let result = result + int (oe_nr_pages e) in
         if discard then
           lassert (oe_start e \<ge> start \<and> oe_max_end e \<le> fin)
            (bindO (osc_update_pending True (- int (oe_nr_pages e)) (unlink x (upd x (\<lambda>e. e\<lparr>oe_state := OES_LOCKING, oe_owner := True\<rparr>) obj)))
              (\<lambda>obj. Ret (result, unplug, dl @ [x], obj)))
         else if hp then
           lassert (\<not> oe_hp e)
            (let obj = unlink x (upd x (\<lambda>e. e\<lparr>oe_hp := True\<rparr>) obj)
             in Ret (result, True, dl, obj\<lparr>oo_hp_exts := oo_hp_exts obj @ [x]\<rparr>))
         else if \<not> oe_urgent e then
           (let obj = unlink x (upd x (\<lambda>e. e\<lparr>oe_urgent := True\<rparr>) obj)
            in Ret (result, True, dl, obj\<lparr>oo_urgent_exts := oo_urgent_exts obj @ [x]\<rparr>))
         else Ret (result, True, dl, obj)
       else if oe_state e = OES_ACTIVE then
         lassert (\<not> hp \<and> \<not> discard) (Ret (result, unplug, dl, upd x (\<lambda>e. e\<lparr>oe_urgent := True\<rparr>) obj))
       else Ret (result, unplug, dl, obj))"

fun mark_range ::
  "pgoff \<Rightarrow> pgoff \<Rightarrow> bool \<Rightarrow> bool \<Rightarrow> eref list \<Rightarrow> int \<times> bool \<times> eref list \<times> osc_object \<Rightarrow> (int \<times> bool \<times> eref list \<times> osc_object) outcome" where
  "mark_range start fin hp discard [] st = Ret st"
| "mark_range start fin hp discard (x # xs) st =
     (case st of (_, _, _, obj) \<Rightarrow>
       if oe_start (oo_ext obj x) > fin then Ret st
       else bindO (mark_extent start fin hp discard x st) (\<lambda>st. lassert (oe_intree (oo_ext obj x)) (mark_range start fin hp discard xs st)))"

text \<open>Discarded extents are finished without having been sent; \<open>osc_extent_make_ready\<close> never fails.\<close>

fun discard_extents :: "rpc_env \<Rightarrow> eref list \<Rightarrow> osc_object \<times> osc_cli \<Rightarrow> (osc_object \<times> osc_cli) outcome" where
  "discard_extents re [] st = Ret st"
| "discard_extents re (x # xs) st =
     (case st of (obj, cli) \<Rightarrow>
       lassert (oe_state (oo_ext obj x) = OES_LOCKING)
        (bindO (osc_extent_make_ready (re_env re) (re_ready re) (re_kms re) x obj) (\<lambda>obj.
         bindO (osc_extent_finish (re_env re) (be_now_shift (re_brw re)) (re_xids re) (re_bsize re) x False 0 (obj, cli))
           (discard_extents re xs))))"

definition osc_cache_writeback_range ::
  "rpc_env \<Rightarrow> (rpc_env \<times> rpc_env) list \<Rightarrow> (wait_event \<times> wait_event) list \<Rightarrow> oref \<Rightarrow> pgoff \<Rightarrow> pgoff \<Rightarrow> bool \<Rightarrow> bool \<Rightarrow>
   osc_world \<Rightarrow> (int \<times> osc_world) outcome option" where
  "osc_cache_writeback_range re res waits o' start fin hp discard w =
     (case mark_range start fin hp discard (from_index (w_objs w o') start) (0, False, [], w_objs w o') of
        Fault f \<Rightarrow> Some (Fault f)
      | Ret (result, unplug, dl, obj) \<Rightarrow>
          (case lassert (\<not> discard \<longrightarrow> dl = [])
                 (if dl = [] then Ret (set_obj o' obj w)
                  else
                    let w = maint re o' (set_obj o' obj w)
                    in bindO (discard_extents re dl (w_objs w o', w_cli w)) (\<lambda>(obj, cli). Ret ((set_obj o' obj w)\<lparr>w_cli := cli\<rparr>))) of
             Fault f \<Rightarrow> Some (Fault f)
           | Ret w \<Rightarrow>
               (case (if unplug then osc_io_unplug0 0 re res (Some o') False w else Some (Ret (0, w))) of
                  None \<Rightarrow> None
                | Some (Fault f) \<Rightarrow> Some (Fault f)
                | Some (Ret (_, w)) \<Rightarrow>
                    if hp \<or> discard then
                      (case osc_cache_wait_range re o' fin waits start 0 w of
                         None \<Rightarrow> None
                       | Some (Fault f) \<Rightarrow> Some (Fault f)
                       | Some (Ret (rc, w)) \<Rightarrow> Some (Ret (if result \<ge> 0 \<and> rc < 0 then rc else result, w)))
                    else Some (Ret (result, w)))))"

section \<open>Truncation\<close>

text \<open>
  Extents behind the new end are frozen: the first busy one is returned, those that were frozen are
  listed.
\<close>

fun trunc_mark :: "eref list \<Rightarrow> eref list \<Rightarrow> osc_object \<Rightarrow> (eref option \<times> eref list \<times> osc_object) outcome" where
  "trunc_mark [] dl obj = Ret (None, dl, obj)"
| "trunc_mark (x # xs) dl obj =
     (let e = oo_ext obj x in
      lassert (oe_state e \<noteq> OES_TRUNC)
       (if oe_state e > OES_CACHE \<or> oe_urgent e
        then bindO (osc_extent_get x obj) (\<lambda>obj. Ret (Some x, dl, obj))
        else
          bindO (osc_extent_get x obj) (\<lambda>obj.
          bindO (if oe_state e = OES_ACTIVE
                 then lassert (\<not> oe_trunc_pending e) (Ret (upd x (\<lambda>e. e\<lparr>oe_trunc_pending := True\<rparr>) obj))
                 else lassert (oe_state e = OES_CACHE)
                       (osc_update_pending True (- int (oe_nr_pages e)) (osc_extent_state_set x OES_TRUNC obj))) (\<lambda>obj.
          lassert (\<not> on_link x obj \<and> x \<notin> set dl) (lassert (oe_intree e) (trunc_mark xs (dl @ [x]) obj))))))"

text \<open>
  What a round of the truncation finds: the waits for an extent in use and for the busy one, and for
  each extent the result of \<open>cl_io_init\<close> and the pages that can be owned.
\<close>

record trunc_env =
  te_wait :: "eref \<Rightarrow> wait_event \<times> wait_event"
  te_io_rc :: "eref \<Rightarrow> int"
  te_own :: "page \<Rightarrow> bool"

record trunc_state =
  ts_index :: pgoff
  ts_partial :: bool
  ts_extp :: "eref option"
  ts_result :: int
  ts_w :: osc_world

definition truncate_extent :: "rpc_env \<Rightarrow> trunc_env \<Rightarrow> oref \<Rightarrow> eref \<Rightarrow> trunc_state \<Rightarrow> trunc_state outcome" where
  "truncate_extent re te o' x ts =
     bindO (if oe_state (oo_ext (w_objs (ts_w ts) o') x) \<noteq> OES_TRUNC
            then bindO (osc_extent_wait re (te_wait te x) o' OES_TRUNC x (ts_w ts)) (\<lambda>(_, w). Ret w) else Ret (ts_w ts)) (\<lambda>w.
     bindO (osc_extent_truncate (re_env re) (be_now_shift (re_brw re)) (te_io_rc te x) (te_own te) x (ts_index ts) (ts_partial ts)
              (w_objs w o', w_cli w)) (\<lambda>(rc, obj, cli).
     bindO
       (if rc < 0 then Ret (ts\<lparr>ts_result := if ts_result ts = 0 then rc else ts_result ts\<rparr>, obj)
        else if oe_nr_pages (oo_ext obj x) = 0 then bindO (osc_extent_remove (re_env re) x obj) (\<lambda>obj. Ret (ts, obj))
        else
          lassert (oe_start (oo_ext obj x) \<le> ts_index ts) (lassert (ts_extp ts = None)
           (bindO (osc_extent_get x obj) (\<lambda>obj'.
             Ret (ts\<lparr>ts_index := oe_end (oo_ext obj x) + 1, ts_partial := False, ts_extp := Some x\<rparr>, obj')))))
       (\<lambda>(ts, obj). bindO (osc_extent_put x obj) (\<lambda>obj. Ret (ts\<lparr>ts_w := (set_obj o' obj w)\<lparr>w_cli := cli\<rparr>\<rparr>)))))"

fun truncate_extents :: "rpc_env \<Rightarrow> trunc_env \<Rightarrow> oref \<Rightarrow> eref list \<Rightarrow> trunc_state \<Rightarrow> trunc_state outcome" where
  "truncate_extents re te o' [] ts = Ret ts"
| "truncate_extents re te o' (x # xs) ts = bindO (truncate_extent re te o' x ts) (truncate_extents re te o' xs)"

definition truncate_round :: "rpc_env \<Rightarrow> trunc_env \<Rightarrow> oref \<Rightarrow> trunc_state \<Rightarrow> (bool \<times> trunc_state) outcome" where
  "truncate_round re te o' ts =
     (let obj = w_objs (ts_w ts) o' in
      bindO (trunc_mark (from_index obj (ts_index ts)) [] obj) (\<lambda>(waiting, dl, obj).
      bindO (truncate_extents re te o' dl (ts\<lparr>ts_w := maint re o' (set_obj o' obj (ts_w ts))\<rparr>)) (\<lambda>ts.
      case waiting of None \<Rightarrow> Ret (False, ts)
      | Some x \<Rightarrow>
          bindO (osc_extent_wait re (te_wait te x) o' OES_INV x (ts_w ts)) (\<lambda>(_, w).
          bindO (osc_extent_put x (w_objs w o')) (\<lambda>obj. Ret (True, ts\<lparr>ts_w := set_obj o' obj w\<rparr>))))))"

text \<open>Every wait for a busy extent starts another round; with none left the call is still waiting.\<close>

fun truncate_rounds :: "rpc_env \<Rightarrow> trunc_env list \<Rightarrow> oref \<Rightarrow> trunc_state \<Rightarrow> trunc_state outcome option" where
  "truncate_rounds re [] o' ts = None"
| "truncate_rounds re (te # tes) o' ts =
     (case truncate_round re te o' ts of
        Fault f \<Rightarrow> Some (Fault f)
      | Ret (again, ts) \<Rightarrow> if again then truncate_rounds re tes o' ts else Some (Ret ts))"

definition osc_cache_truncate_start ::
  "rpc_env \<Rightarrow> (nat \<Rightarrow> pgoff) \<Rightarrow> trunc_env list \<Rightarrow> oref \<Rightarrow> nat \<Rightarrow> eref option \<Rightarrow> osc_world \<Rightarrow> trunc_state outcome option" where
  "osc_cache_truncate_start re cl_index tes o' sz extp w =
     (let index = cl_index sz
      in truncate_rounds re tes o' \<lparr>ts_index = index, ts_partial = sz > cl_offset (re_env re) index, ts_extp = extp, ts_result = 0, ts_w = w\<rparr>)"

section \<open>Marking a range\<close>

definition in_range :: "osc_object \<Rightarrow> pgoff \<Rightarrow> pgoff \<Rightarrow> eref list" where
  "in_range obj start fin = filter (\<lambda>x. start \<le> oe_end (oo_ext obj x) \<and> oe_start (oo_ext obj x) \<le> fin) (exts obj)"

text \<open>The walk starts at the first extent that reaches the range.\<close>

lemma from_index_eq:
  assumes "ordered (oo_ext obj) (exts obj)"
  shows "from_index obj i = filter (\<lambda>x. i \<le> oe_end (oo_ext obj x)) (exts obj)"
proof (cases "osc_extent_search obj i")
  case None
  have "\<forall>y \<in> set (exts obj). i \<le> oe_end (oo_ext obj y)"
    using search_None [OF assms None] assms by (fastforce simp: ordered_def)
  then show ?thesis using None by (simp add: from_index_def)
next
  case (Some x)
  obtain pre post where p: "exts obj = pre @ x # post" "oe_start (oo_ext obj x) \<le> i" "\<forall>y \<in> set post. i < oe_start (oo_ext obj y)"
    by (rule search_Some [OF assms Some])
  have o: "ordered (oo_ext obj) (pre @ x # post)" using assms p(1) by simp
  have "x \<notin> set pre" using ordered_distinct [OF o] by simp
  then have a: "after x (exts obj) = post" using p(1) by (simp add: after_split)
  have "\<forall>y \<in> set pre. \<not> i \<le> oe_end (oo_ext obj y)" using o p(2) by (fastforce simp: ordered_simps)
  moreover have "i \<le> oe_end (oo_ext obj y)" if "y \<in> set post" for y
  proof -
    have "oe_start (oo_ext obj y) \<le> oe_end (oo_ext obj y)" using o that by (simp add: ordered_def)
    then show ?thesis using p(3) that by (meson less_imp_le less_le_trans)
  qed
  ultimately show ?thesis using Some a p(1) by (simp add: from_index_def)
qed

text \<open>The extent after it was marked.\<close>

definition marked :: "bool \<Rightarrow> osc_extent \<Rightarrow> osc_extent" where
  "marked hp e = e\<lparr>oe_fsync_wait := True, oe_hp := oe_hp e \<or> oe_state e = OES_CACHE \<and> hp,
     oe_urgent := oe_urgent e \<or> oe_state e = OES_ACTIVE \<or> oe_state e = OES_CACHE \<and> \<not> hp\<rparr>"

lemma ext_ok_marked:
  assumes "ext_ok env cli e" and "hp \<longrightarrow> oe_state e \<noteq> OES_ACTIVE"
  shows "ext_ok env cli (marked hp e)"
proof -
  have "pages_ok env (marked hp e)" using assms(1) by (simp add: ext_ok_def pages_ok_def marked_def)
  moreover have st1: "oe_state e \<noteq> OES_INV" using assms(1) by (simp add: ext_ok_def)
  moreover have st: "state_code e = 0" using assms(1) sane_iff [OF st1] by (simp add: ext_ok_def)
  moreover have "state_code (marked hp e) = 0"
    using assms(2) st st1 by (cases "oe_state e") (auto simp: marked_def state_code_def split: if_splits)
  moreover have "lock_code env (marked hp e) = 0 \<longleftrightarrow> lock_code env e = 0" "page_code env (marked hp e) = page_code env e"
    unfolding lock_code_iff by (simp_all add: page_code_def marked_def)
  ultimately show ?thesis using assms(1) by (simp add: ext_ok_def sane_iff) (simp add: marked_def sane_iff)
qed

text \<open>One extent, when nothing is discarded.\<close>

lemma mark_extent_ok:
  assumes inv: "tree_inv env cli obj" and x: "x \<in> set (exts obj)"
    and hp: "hp \<longrightarrow> oe_state (oo_ext obj x) \<noteq> OES_ACTIVE \<and> \<not> oe_hp (oo_ext obj x)"
  shows "\<exists>obj'. mark_extent start fin hp False x (n, u, dl, obj) =
      Ret (if oe_state (oo_ext obj x) = OES_CACHE then n + int (oe_nr_pages (oo_ext obj x)) else n,
           u \<or> oe_state (oo_ext obj x) = OES_CACHE, dl, obj') \<and>
    tree_inv env cli obj' \<and> exts obj' = exts obj \<and> oo_ext obj' = (oo_ext obj)(x := marked hp (oo_ext obj x)) \<and>
    (\<forall>y. y \<noteq> x \<longrightarrow> (y \<in> set (oo_hp_exts obj') \<longleftrightarrow> y \<in> set (oo_hp_exts obj)) \<and> (y \<in> set (oo_urgent_exts obj') \<longleftrightarrow> y \<in> set (oo_urgent_exts obj))) \<and>
    (oe_state (oo_ext obj x) = OES_CACHE \<longrightarrow> (hp \<longrightarrow> x \<in> set (oo_hp_exts obj')) \<and> (\<not> hp \<and> \<not> oe_urgent (oo_ext obj x) \<longrightarrow> x \<in> set (oo_urgent_exts obj')))"
proof -
  let ?e = "oo_ext obj x" and ?E = "(oo_ext obj)(x := marked hp (oo_ext obj x))"
  have l: "links_ok obj" and ok: "ext_ok env cli ?e" and it: "oe_intree ?e" using inv x by (simp_all add: tree_inv_def)
  have okm: "ext_ok env cli (marked hp ?e)" by (rule ext_ok_marked [OF ok]) (use hp in blast)
  have keep: "tree_inv env cli (obj\<lparr>oo_ext := ?E, oo_hp_exts := hs, oo_urgent_exts := us, oo_reading_exts := rs\<rparr>)"
    if "distinct hs" "distinct us" "distinct rs" for hs us rs
    by (rule tree_inv_update(1) [OF inv x okm]) (use it that in \<open>simp_all add: marked_def links_ok_def\<close>)
  have ex: "exts (obj\<lparr>oo_ext := E, oo_hp_exts := hs, oo_urgent_exts := us, oo_reading_exts := rs\<rparr>) = exts obj"
    "exts (obj\<lparr>oo_ext := E\<rparr>) = exts obj" for E hs us rs
    by (simp_all add: exts_def)
  have k: "tree_inv env cli (obj\<lparr>oo_ext := ?E\<rparr>)"
    by (rule tree_inv_update(1) [OF inv x okm]) (use it l in \<open>simp_all add: marked_def links_ok_def\<close>)
  have d: "distinct (oo_hp_exts obj)" "distinct (oo_urgent_exts obj)" "distinct (oo_reading_exts obj)" using l by (simp_all add: links_ok_def)
  have same: "marked hp e = e\<lparr>oe_fsync_wait := True\<rparr>" if "oe_state e \<noteq> OES_ACTIVE" "oe_state e \<noteq> OES_CACHE \<or> \<not> hp \<and> oe_urgent e" for e
    using that by (cases e) (auto simp: marked_def)
  have act: "marked h e = e\<lparr>oe_fsync_wait := True, oe_urgent := True\<rparr>" if "oe_state e = OES_ACTIVE" for h e
    using that by (cases e) (simp add: marked_def)
  have high: "marked True e = e\<lparr>oe_fsync_wait := True, oe_hp := True\<rparr>" if "oe_state e = OES_CACHE" for e
    using that by (cases e) (simp add: marked_def)
  have low: "marked False e = e\<lparr>oe_fsync_wait := True, oe_urgent := True\<rparr>" if "oe_state e = OES_CACHE" for e
    using that by (cases e) (simp add: marked_def)
  let ?o = "\<lambda>hs us rs. obj\<lparr>oo_ext := ?E, oo_hp_exts := hs, oo_urgent_exts := us, oo_reading_exts := rs\<rparr>"
  have com: "obj\<lparr>oo_ext := E, oo_urgent_exts := us, oo_reading_exts := rs, oo_hp_exts := hs\<rparr> =
      obj\<lparr>oo_ext := E, oo_hp_exts := hs, oo_urgent_exts := us, oo_reading_exts := rs\<rparr>"
    "obj\<lparr>oo_ext := E, oo_hp_exts := hs, oo_reading_exts := rs, oo_urgent_exts := us\<rparr> =
      obj\<lparr>oo_ext := E, oo_hp_exts := hs, oo_urgent_exts := us, oo_reading_exts := rs\<rparr>" for E us rs hs
    by (cases obj; simp)+
  let ?r = "\<lambda>xs. remove1 x xs"
  have D: "distinct (?r xs)" "distinct (?r xs @ [x])" "set (?r xs) = set xs - {x}" if "distinct xs" for xs using that by simp_all
  consider "oe_state ?e = OES_CACHE" "hp" | "oe_state ?e = OES_CACHE" "\<not> hp" "\<not> oe_urgent ?e"
    | "oe_state ?e = OES_ACTIVE" | "oe_state ?e \<noteq> OES_ACTIVE" "oe_state ?e \<noteq> OES_CACHE \<or> \<not> hp \<and> oe_urgent ?e" by blast
  then show ?thesis
  proof cases
    case 1
    then show ?thesis using hp D d keep
      by (intro exI [of _ "?o (?r (oo_hp_exts obj) @ [x]) (?r (oo_urgent_exts obj)) (?r (oo_reading_exts obj))"])
        (simp add: mark_extent_def upd_def unlink_def high ex com Let_def)
  next
    case 2
    then show ?thesis using D d keep
      by (intro exI [of _ "?o (?r (oo_hp_exts obj)) (?r (oo_urgent_exts obj) @ [x]) (?r (oo_reading_exts obj))"])
        (simp add: mark_extent_def upd_def unlink_def low ex com Let_def)
  next
    case 3
    then show ?thesis using k hp by (intro exI [of _ "obj\<lparr>oo_ext := ?E\<rparr>"]) (simp add: mark_extent_def upd_def act ex Let_def)
  next
    case 4
    then show ?thesis using k by (intro exI [of _ "obj\<lparr>oo_ext := ?E\<rparr>"]) (simp add: mark_extent_def upd_def same ex Let_def)
  qed
qed

text \<open>What marking the extents \<open>xs\<close> comes to.\<close>

definition range_marked :: "bool \<Rightarrow> eref list \<Rightarrow> osc_object \<Rightarrow> osc_object \<Rightarrow> bool" where
  "range_marked hp xs obj obj' \<longleftrightarrow> exts obj' = exts obj \<and>
     (\<forall>x. oo_ext obj' x = (if x \<in> set xs then marked hp (oo_ext obj x) else oo_ext obj x)) \<and>
     (\<forall>x \<in> set xs. oe_state (oo_ext obj x) = OES_CACHE \<longrightarrow>
        (hp \<longrightarrow> x \<in> set (oo_hp_exts obj')) \<and> (\<not> hp \<and> \<not> oe_urgent (oo_ext obj x) \<longrightarrow> x \<in> set (oo_urgent_exts obj')))"

lemma mark_range_ok:
  assumes "tree_inv env cli obj" and "set xs \<subseteq> set (exts obj)" and "ordered (oo_ext obj) xs"
    and "\<forall>x \<in> set xs. oe_start (oo_ext obj x) \<le> fin \<longrightarrow> hp \<longrightarrow> oe_state (oo_ext obj x) \<noteq> OES_ACTIVE \<and> \<not> oe_hp (oo_ext obj x)"
  shows "\<exists>obj'. mark_range start fin hp False xs (n, u, dl, obj) =
      Ret (n + int (cached_pages obj (filter (\<lambda>x. oe_start (oo_ext obj x) \<le> fin) xs)),
           u \<or> (\<exists>x \<in> set xs. oe_start (oo_ext obj x) \<le> fin \<and> oe_state (oo_ext obj x) = OES_CACHE), dl, obj') \<and>
    tree_inv env cli obj' \<and> range_marked hp (filter (\<lambda>x. oe_start (oo_ext obj x) \<le> fin) xs) obj obj' \<and>
    (\<forall>y. y \<notin> set xs \<longrightarrow> (y \<in> set (oo_hp_exts obj') \<longleftrightarrow> y \<in> set (oo_hp_exts obj)) \<and> (y \<in> set (oo_urgent_exts obj') \<longleftrightarrow> y \<in> set (oo_urgent_exts obj)))"
  using assms
proof (induction xs arbitrary: n u obj)
  case Nil
  then show ?case by (simp add: cached_pages_def range_marked_def)
next
  case (Cons x xs)
  let ?e = "oo_ext obj x"
  show ?case
  proof (cases "oe_start ?e \<le> fin")
    case False
    have "fin < oe_start (oo_ext obj y)" if "y \<in> set xs" for y
      using Cons.prems(3) False that by (auto simp: ordered_Cons intro: less_le_trans less_trans)
    then have "filter (\<lambda>x. oe_start (oo_ext obj x) \<le> fin) (x # xs) = []" "\<not> (\<exists>x \<in> set (x # xs). oe_start (oo_ext obj x) \<le> fin)"
      using False by (auto simp: filter_empty_conv not_le)
    then show ?thesis using False Cons.prems(1) by (auto simp: cached_pages_def range_marked_def)
  next
    case True
    have x: "x \<in> set (exts obj)" "x \<notin> set xs" "ordered (oo_ext obj) xs"
      using Cons.prems(2,3) ordered_distinct [OF Cons.prems(3)] by (simp_all add: ordered_Cons)
    obtain obj1 where o: "mark_extent start fin hp False x (n, u, dl, obj) =
        Ret (if oe_state ?e = OES_CACHE then n + int (oe_nr_pages ?e) else n, u \<or> oe_state ?e = OES_CACHE, dl, obj1)"
      "tree_inv env cli obj1" "exts obj1 = exts obj" "oo_ext obj1 = (oo_ext obj)(x := marked hp ?e)"
      "\<forall>y. y \<noteq> x \<longrightarrow> (y \<in> set (oo_hp_exts obj1) \<longleftrightarrow> y \<in> set (oo_hp_exts obj)) \<and> (y \<in> set (oo_urgent_exts obj1) \<longleftrightarrow> y \<in> set (oo_urgent_exts obj))"
      "oe_state ?e = OES_CACHE \<longrightarrow> (hp \<longrightarrow> x \<in> set (oo_hp_exts obj1)) \<and> (\<not> hp \<and> \<not> oe_urgent ?e \<longrightarrow> x \<in> set (oo_urgent_exts obj1))"
      using mark_extent_ok [OF Cons.prems(1) x(1), of hp start fin n u dl] Cons.prems(4) True by auto
    have E: "oo_ext obj1 y = oo_ext obj y" if "y \<in> set xs" for y using o(4) x(2) that by auto
    have it: "oe_intree ?e" using Cons.prems(1) x(1) by (simp add: tree_inv_def)
    have pre: "set xs \<subseteq> set (exts obj1)" "ordered (oo_ext obj1) xs"
      "\<forall>y \<in> set xs. oe_start (oo_ext obj1 y) \<le> fin \<longrightarrow> hp \<longrightarrow> oe_state (oo_ext obj1 y) \<noteq> OES_ACTIVE \<and> \<not> oe_hp (oo_ext obj1 y)"
      using Cons.prems(2,4) o(3) x(3) E ordered_cong [of xs "oo_ext obj1" "oo_ext obj"] by auto
    let ?f = "filter (\<lambda>x. oe_start (oo_ext obj x) \<le> fin) xs"
    have f: "filter (\<lambda>x. oe_start (oo_ext obj1 x) \<le> fin) xs = ?f" by (rule filter_cong) (simp_all add: E)
    have c: "cached_pages obj1 ?f = cached_pages obj ?f" unfolding cached_pages_def by (rule arg_cong [where f = sum_list]) (auto simp: E)
    obtain obj' where r: "mark_range start fin hp False xs
        (if oe_state ?e = OES_CACHE then n + int (oe_nr_pages ?e) else n, u \<or> oe_state ?e = OES_CACHE, dl, obj1) =
        Ret ((if oe_state ?e = OES_CACHE then n + int (oe_nr_pages ?e) else n) + int (cached_pages obj ?f),
          (u \<or> oe_state ?e = OES_CACHE) \<or> (\<exists>x \<in> set xs. oe_start (oo_ext obj1 x) \<le> fin \<and> oe_state (oo_ext obj1 x) = OES_CACHE), dl, obj')"
      "tree_inv env cli obj'" "range_marked hp ?f obj1 obj'"
      "\<forall>y. y \<notin> set xs \<longrightarrow> (y \<in> set (oo_hp_exts obj') \<longleftrightarrow> y \<in> set (oo_hp_exts obj1)) \<and> (y \<in> set (oo_urgent_exts obj') \<longleftrightarrow> y \<in> set (oo_urgent_exts obj1))"
      using Cons.IH [OF o(2) pre, of "if oe_state ?e = OES_CACHE then n + int (oe_nr_pages ?e) else n" "u \<or> oe_state ?e = OES_CACHE"]
      unfolding f c by blast
    have sum: "cached_pages obj (filter (\<lambda>x. oe_start (oo_ext obj x) \<le> fin) (x # xs)) =
        (if oe_state ?e = OES_CACHE then oe_nr_pages ?e else 0) + cached_pages obj ?f" using True by (simp add: cached_pages_def)
    have "range_marked hp (filter (\<lambda>x. oe_start (oo_ext obj x) \<le> fin) (x # xs)) obj obj'"
      using r(3,4) o(3-6) x(2) True E by (auto simp: range_marked_def)
    moreover have "mark_range start fin hp False (x # xs) (n, u, dl, obj) =
        Ret (n + int (cached_pages obj (filter (\<lambda>x. oe_start (oo_ext obj x) \<le> fin) (x # xs))),
           u \<or> (\<exists>x \<in> set (x # xs). oe_start (oo_ext obj x) \<le> fin \<and> oe_state (oo_ext obj x) = OES_CACHE), dl, obj')"
      unfolding sum using True o(1) it r(1) E by auto
    ultimately show ?thesis using r(2,4) o(5) by auto
  qed
qed

section \<open>Results\<close>



end
