(* ===== verification/Svc_Timed.thy ===== *)
theory Svc_Timed
  imports LT_Prelude
begin

text \<open>
  Requests that wait for their deadline (\<open>service.c\<close>, adaptive timeouts): a ring of buckets, one for
  each second modulo its size, each ordered by deadline. Before a deadline passes the client is
  asked for more time.

  Outside \<open>src/\<close>: the clocks, the timer and \<open>struct ptlrpc_at_array\<close>, whose fields are those the code uses.
\<close>

section \<open>State\<close>

abbreviation (input) ENOSYS :: int where "ENOSYS \<equiv> 38"

type_synonym rref = nat

text \<open>
  The fields of a request the service looks at. \<open>rq_rqbd\<close> is its buffer, \<open>rq_ops\<close> whether it has
  operations of a high priority request, \<open>rq_bulk\<close> whether it reads or writes in bulk, \<open>rq_prealloc\<close>
  whether its reply state is one of the reserve.
\<close>

record svc_req =
  rq_refcount :: int
  rq_rqbd :: nat
  rq_history_seq :: "64 word"
  rq_hp :: bool
  rq_ops :: bool
  rq_export :: "nat option"
  rq_xid :: "64 word"
  rq_resent :: bool
  rq_bulk :: bool
  rq_deadline :: int
  rq_arrival :: int
  rq_early_count :: int
  rq_at_linked :: bool
  rq_at_index :: nat
  rq_no_reply :: bool
  rq_at_support :: bool
  rq_prealloc :: bool
  rq_in_session :: bool

record at_part =
  paa_size :: nat
  paa_reqs_array :: "rref list list"
  paa_reqs_count :: "32 word list"
  paa_count :: "32 word"
  paa_deadline :: int
  scp_at_check :: bool
  scp_at_checktime :: int
  scp_at_timer :: "int option"
  scp_req :: "rref \<Rightarrow> svc_req"

record at_env =
  at_now :: int
  at_jiffies :: int
  at_early_margin :: int
  at_off :: bool
  at_time_shift :: "int \<Rightarrow> int"

definition upd_req :: "rref \<Rightarrow> (svc_req \<Rightarrow> svc_req) \<Rightarrow> 'a at_part_scheme \<Rightarrow> 'a at_part_scheme" where
  "upd_req r f s = s\<lparr>scp_req := (scp_req s)(r := f (scp_req s r))\<rparr>"

abbreviation deadline_of :: "'a at_part_scheme \<Rightarrow> rref \<Rightarrow> int" where
  "deadline_of s r \<equiv> rq_deadline (scp_req s r)"

section \<open>The ring\<close>

definition ptlrpc_at_timer :: "at_env \<Rightarrow> 'a at_part_scheme \<Rightarrow> 'a at_part_scheme" where
  "ptlrpc_at_timer te s = s\<lparr>scp_at_check := True, scp_at_checktime := at_jiffies te\<rparr>"

definition ptlrpc_at_set_timer :: "at_env \<Rightarrow> 'a at_part_scheme \<Rightarrow> 'a at_part_scheme" where
  "ptlrpc_at_set_timer te s =
     (if paa_count s = 0 then s\<lparr>scp_at_timer := None\<rparr>
      else
        let nxt = s32 (paa_deadline s - at_now te - at_early_margin te)
        in if nxt \<le> 0 then ptlrpc_at_timer te s else s\<lparr>scp_at_timer := Some (at_time_shift te nxt)\<rparr>)"

definition on_timed_list :: "rref \<Rightarrow> 'a at_part_scheme \<Rightarrow> bool" where
  "on_timed_list r s = list_ex (\<lambda>xs. r \<in> set xs) (paa_reqs_array s)"

text \<open>The bucket of a time; \<open>time_t\<close> is converted to \<open>unsigned long\<close>.\<close>

definition bucket_of :: "int \<Rightarrow> 'a at_part_scheme \<Rightarrow> nat" where
  "bucket_of t s = nat (t mod 2 ^ 64) mod paa_size s"

text \<open>The search for the place starts at the end; \<open>xs\<close> is the bucket from its last entry to its first.\<close>

fun add_behind :: "(rref \<Rightarrow> int) \<Rightarrow> rref \<Rightarrow> rref list \<Rightarrow> rref list" where
  "add_behind D r [] = [r]"
| "add_behind D r (x # xs) = (if D r \<ge> D x then r # x # xs else x # add_behind D r xs)"

definition link_timed :: "rref \<Rightarrow> nat \<Rightarrow> 'a at_part_scheme \<Rightarrow> 'a at_part_scheme" where
  "link_timed r i s =
     (let b = paa_reqs_array s ! i;
          b' = (if paa_reqs_count s ! i > 0 then rev (add_behind (deadline_of s) r (rev b)) else r # b)
      in upd_req r (\<lambda>q. q\<lparr>rq_at_linked := True, rq_at_index := i\<rparr>)
          (s\<lparr>paa_reqs_array := (paa_reqs_array s)[i := b'],
             paa_reqs_count := (paa_reqs_count s)[i := paa_reqs_count s ! i + 1], paa_count := paa_count s + 1\<rparr>))"

definition ptlrpc_at_add_timed :: "at_env \<Rightarrow> rref \<Rightarrow> 'a at_part_scheme \<Rightarrow> (int \<times> 'a at_part_scheme) outcome" where
  "ptlrpc_at_add_timed te r s =
     (let req = scp_req s r in
      if at_off te then Ret (0, s)
      else if rq_no_reply req then Ret (0, s)
      else if \<not> rq_at_support req then Ret (- ENOSYS, s)
      else
        lassert (\<not> on_timed_list r s)
         (if paa_size s = 0 then Fault DIV_TRAP
          else
            let i = bucket_of (rq_deadline req) s in
            if \<not> (i < length (paa_reqs_array s) \<and> i < length (paa_reqs_count s)) then Fault OVERRUN
            else
              let s = link_timed r i s
              in if paa_count s = 1 \<or> paa_deadline s > rq_deadline req
                 then Ret (0, ptlrpc_at_set_timer te (s\<lparr>paa_deadline := rq_deadline req\<rparr>))
                 else Ret (0, s)))"

definition ptlrpc_at_remove_timed :: "rref \<Rightarrow> 'a at_part_scheme \<Rightarrow> 'a at_part_scheme outcome" where
  "ptlrpc_at_remove_timed r s =
     (let i = rq_at_index (scp_req s r) in
      lassert (on_timed_list r s)
       (if \<not> i < length (paa_reqs_count s) then Fault OVERRUN
        else
          Ret (upd_req r (\<lambda>q. q\<lparr>rq_at_linked := False\<rparr>)
            (s\<lparr>paa_reqs_array := map (remove1 r) (paa_reqs_array s),
               paa_reqs_count := (paa_reqs_count s)[i := paa_reqs_count s ! i - 1], paa_count := paa_count s - 1\<rparr>))))"

section \<open>Requests that are due\<close>

text \<open>The earliest deadline that is left (\<open>-1\<close> when none was seen), the requests to be dealt with, the last one first, and their number.\<close>

record collected =
  co_deadline :: int
  co_work :: "rref list"
  co_counter :: int

fun collect_bucket :: "at_env \<Rightarrow> rref list \<Rightarrow> collected \<Rightarrow> 'a at_part_scheme \<Rightarrow> (collected \<times> 'a at_part_scheme) outcome" where
  "collect_bucket te [] co s = Ret (co, s)"
| "collect_bucket te (r # rs) co s =
     (if deadline_of s r > at_now te + at_early_margin te then
        Ret (if co_deadline co = -1 \<or> deadline_of s r < co_deadline co then co\<lparr>co_deadline := deadline_of s r\<rparr> else co, s)
      else
        bindO (ptlrpc_at_remove_timed r s) (\<lambda>s.
          if rq_refcount (scp_req s r) \<noteq> 0
          then collect_bucket te rs (co\<lparr>co_work := r # co_work co, co_counter := co_counter co + 1\<rparr>)
                 (upd_req r (\<lambda>q. q\<lparr>rq_refcount := rq_refcount q + 1\<rparr>) s)
          else collect_bucket te rs (co\<lparr>co_counter := co_counter co + 1\<rparr>) s))"

text \<open>The walk round the ring ends when as many requests were seen as there were; \<open>n\<close> bounds the buckets.\<close>

fun collect_ring ::
  "nat \<Rightarrow> at_env \<Rightarrow> nat \<Rightarrow> 32 word \<Rightarrow> collected \<Rightarrow> 'a at_part_scheme \<Rightarrow> (collected \<times> 'a at_part_scheme) outcome option" where
  "collect_ring n te i cnt co s =
     (if cnt = 0 then Some (Ret (co, s))
      else case n of 0 \<Rightarrow> None
      | Suc n \<Rightarrow>
          if \<not> (i < length (paa_reqs_array s) \<and> i < length (paa_reqs_count s)) then Some (Fault OVERRUN)
          else
            case collect_bucket te (paa_reqs_array s ! i) co s of
              Fault f \<Rightarrow> Some (Fault f)
            | Ret (co, s') \<Rightarrow> collect_ring n te (if i + 1 \<ge> paa_size s' then 0 else i + 1) (cnt - paa_reqs_count s ! i) co s')"

declare collect_ring.simps [simp del]

text \<open>
  The locked part of \<open>ptlrpc_at_check_timed\<close>: nothing to do, time left, or the requests to be dealt with.
\<close>

definition at_collect :: "at_env \<Rightarrow> 'a at_part_scheme \<Rightarrow> (collected option \<times> 'a at_part_scheme) outcome option" where
  "at_collect te s =
     (if \<not> scp_at_check s then Some (Ret (None, s))
      else
        let s = s\<lparr>scp_at_check := False\<rparr> in
        if paa_count s = 0 then Some (Ret (None, s))
        else if s32 (paa_deadline s - at_now te) > at_early_margin te then Some (Ret (None, ptlrpc_at_set_timer te s))
        else if paa_size s = 0 then Some (Fault DIV_TRAP)
        else
          case collect_ring (paa_size s) te (bucket_of (paa_deadline s) s) (paa_count s) \<lparr>co_deadline = -1, co_work = [], co_counter = 0\<rparr> s of
            None \<Rightarrow> None
          | Some (Fault f) \<Rightarrow> Some (Fault f)
          | Some (Ret (co, s)) \<Rightarrow> Some (Ret (Some co, ptlrpc_at_set_timer te (s\<lparr>paa_deadline := co_deadline co\<rparr>))))"

section \<open>The invariant\<close>

definition at_reqs :: "'a at_part_scheme \<Rightarrow> rref set" where
  "at_reqs s = \<Union> (set ` set (paa_reqs_array s))"

text \<open>
  Every bucket is ordered by deadline and holds the linked requests whose deadline falls on it, the
  counts are right, and no deadline is before the one the timer is set for.
\<close>

definition bucket_ok :: "'a at_part_scheme \<Rightarrow> nat \<Rightarrow> bool" where
  "bucket_ok s i \<longleftrightarrow> (let b = paa_reqs_array s ! i in
     sorted (map (deadline_of s) b) \<and> distinct b \<and> unat (paa_reqs_count s ! i) = length b \<and>
     (\<forall>r \<in> set b. rq_at_linked (scp_req s r) \<and> rq_at_index (scp_req s r) = i \<and> bucket_of (deadline_of s r) s = i))"

definition ring_ok :: "'a at_part_scheme \<Rightarrow> bool" where
  "ring_ok s \<longleftrightarrow> 0 < paa_size s \<and> length (paa_reqs_array s) = paa_size s \<and> length (paa_reqs_count s) = paa_size s \<and>
     unat (paa_count s) = sum_list (map length (paa_reqs_array s)) \<and> (\<forall>i < paa_size s. bucket_ok s i)"

definition at_ok :: "'a at_part_scheme \<Rightarrow> bool" where
  "at_ok s \<longleftrightarrow> ring_ok s \<and> (\<forall>r \<in> at_reqs s. paa_deadline s \<le> deadline_of s r)"

lemma at_reqs_iff: "r \<in> at_reqs s \<longleftrightarrow> (\<exists>i < length (paa_reqs_array s). r \<in> set (paa_reqs_array s ! i))"
  unfolding at_reqs_def by (simp add: set_conv_nth [of "paa_reqs_array s"]) blast

lemma on_timed_list_iff: "on_timed_list r s \<longleftrightarrow> r \<in> at_reqs s"
  by (auto simp: on_timed_list_def at_reqs_def list_ex_iff)

lemma at_reqs_bucket:
  assumes "ring_ok s" and "r \<in> at_reqs s"
  shows "rq_at_index (scp_req s r) < paa_size s" and "r \<in> set (paa_reqs_array s ! rq_at_index (scp_req s r))"
  using assms by (auto simp: at_reqs_iff ring_ok_def bucket_ok_def Let_def)

lemma bucket_index:
  assumes "ring_ok s" and "j < paa_size s" and "r \<in> set (paa_reqs_array s ! j)"
  shows "rq_at_index (scp_req s r) = j"
  using assms by (auto simp: ring_ok_def bucket_ok_def Let_def)

lemma bucket_of_less: "0 < paa_size s \<Longrightarrow> bucket_of t s < paa_size s"
  by (simp add: bucket_of_def)

subsection \<open>Changing one bucket\<close>

text \<open>
  The ring after bucket \<open>i\<close> became \<open>b\<close> and requests became \<open>R\<close>.
\<close>

definition with_bucket :: "nat \<Rightarrow> rref list \<Rightarrow> 32 word \<Rightarrow> 32 word \<Rightarrow> (rref \<Rightarrow> svc_req) \<Rightarrow> 'a at_part_scheme \<Rightarrow> 'a at_part_scheme" where
  "with_bucket i b c n R s = s\<lparr>paa_reqs_array := (paa_reqs_array s)[i := b], paa_reqs_count := (paa_reqs_count s)[i := c],
     paa_count := n, scp_req := R\<rparr>"

lemma with_bucket_simps [simp]:
  "paa_size (with_bucket i b c n R s) = paa_size s"
  "paa_reqs_array (with_bucket i b c n R s) = (paa_reqs_array s)[i := b]"
  "paa_reqs_count (with_bucket i b c n R s) = (paa_reqs_count s)[i := c]"
  "paa_count (with_bucket i b c n R s) = n"
  "paa_deadline (with_bucket i b c n R s) = paa_deadline s"
  "scp_req (with_bucket i b c n R s) = R"
  "scp_at_check (with_bucket i b c n R s) = scp_at_check s"
  "scp_at_timer (with_bucket i b c n R s) = scp_at_timer s"
  "bucket_of t (with_bucket i b c n R s) = bucket_of t s"
  by (simp_all add: with_bucket_def bucket_of_def)

lemma bucket_le: "i < length a \<Longrightarrow> length (a ! i) \<le> sum_list (map length a)"
  using elem_le_sum_list [of i "map length a"] by simp

lemma with_bucket_ring_ok:
  assumes ok: "ring_ok s" and i: "i < paa_size s"
    and n: "unat n + length (paa_reqs_array s ! i) = unat (paa_count s) + length b"
    and new: "bucket_ok (with_bucket i b c n R s) i"
    and R: "\<And>j r. j < paa_size s \<Longrightarrow> j \<noteq> i \<Longrightarrow> r \<in> set (paa_reqs_array s ! j) \<Longrightarrow> R r = scp_req s r"
  shows "ring_ok (with_bucket i b c n R s)"
proof -
  let ?a = "paa_reqs_array s"
  have len: "length ?a = paa_size s" "length (paa_reqs_count s) = paa_size s"
    and cnt: "unat (paa_count s) = sum_list (map length ?a)"
    using ok by (simp_all add: ring_ok_def)
  have mem: "length (?a ! i) \<le> sum_list (map length ?a)"
    using i len by (simp add: bucket_le)
  have "sum_list (map length (?a[i := b])) = sum_list (map length ?a) + length b - length (?a ! i)"
    using i len by (simp add: map_update sum_list_update)
  hence total: "unat n = sum_list (map length (?a[i := b]))"
    using n cnt mem by linarith
  have "bucket_ok (with_bucket i b c n R s) j" if j: "j < paa_size s" for j
  proof (cases "j = i")
    case False
    have "bucket_ok s j"
      using ok j by (simp add: ring_ok_def)
    thus ?thesis
      using False R [OF j False] by (simp add: bucket_ok_def Let_def cong: map_cong)
  qed (use new in simp)
  thus ?thesis
    using ok i len total by (simp add: ring_ok_def)
qed


lemma at_reqs_with_bucket:
  assumes "i < length (paa_reqs_array s)"
  shows "at_reqs (with_bucket i b c n R s) = set b \<union> {r. \<exists>j < length (paa_reqs_array s). j \<noteq> i \<and> r \<in> set (paa_reqs_array s ! j)}"
  using assms by (auto simp: at_reqs_iff nth_list_update split: if_splits)

subsection \<open>A request joins\<close>

lemma set_add_behind [simp]: "set (add_behind D r xs) = insert r (set xs)"
  by (induction xs) auto

lemma length_add_behind [simp]: "length (add_behind D r xs) = Suc (length xs)"
  by (induction xs) auto

lemma distinct_add_behind: "distinct xs \<Longrightarrow> r \<notin> set xs \<Longrightarrow> distinct (add_behind D r xs)"
  by (induction xs) auto

lemma sorted_add_behind:
  assumes "sorted_wrt (\<lambda>x y. D x \<ge> D y) xs"
  shows "sorted_wrt (\<lambda>x y. D x \<ge> (D y :: int)) (add_behind D r xs)"
  using assms by (induction xs) force+

lemma sorted_map_rev: "sorted (map D (rev xs)) \<longleftrightarrow> sorted_wrt (\<lambda>x y. D x \<ge> (D y :: int)) xs"
  by (simp add: sorted_map sorted_wrt_rev)

definition joined :: "(rref \<Rightarrow> int) \<Rightarrow> rref \<Rightarrow> rref list \<Rightarrow> rref list" where
  "joined D r b = rev (add_behind D r (rev b))"

lemma joined_props:
  "set (joined D r b) = insert r (set b)"
  "length (joined D r b) = Suc (length b)"
  "distinct b \<Longrightarrow> r \<notin> set b \<Longrightarrow> distinct (joined D r b)"
  "sorted (map D b) \<Longrightarrow> sorted (map D (joined D r b))"
  using sorted_add_behind [of D "rev b" r] sorted_map_rev [of D "rev b"]
  by (simp_all add: joined_def distinct_add_behind sorted_map_rev)

lemma link_timed_eq:
  assumes ok: "ring_ok s" and i: "i < paa_size s"
  shows "link_timed r i s = with_bucket i (joined (deadline_of s) r (paa_reqs_array s ! i)) (paa_reqs_count s ! i + 1) (paa_count s + 1)
    ((scp_req s)(r := (scp_req s r)\<lparr>rq_at_linked := True, rq_at_index := i\<rparr>)) s"
proof -
  have "unat (paa_reqs_count s ! i) = length (paa_reqs_array s ! i)"
    using ok i by (simp add: ring_ok_def bucket_ok_def Let_def)
  hence "\<not> 0 < paa_reqs_count s ! i \<Longrightarrow> paa_reqs_array s ! i = []"
    by (simp add: word_gt_0)
  hence b: "(if paa_reqs_count s ! i > 0 then rev (add_behind (deadline_of s) r (rev (paa_reqs_array s ! i))) else r # paa_reqs_array s ! i)
     = joined (deadline_of s) r (paa_reqs_array s ! i)"
    by (auto simp: joined_def)
  show ?thesis
    unfolding link_timed_def Let_def b upd_req_def with_bucket_def by simp
qed

lemma unat_plus_one: "unat n + 1 < 2 ^ 32 \<Longrightarrow> unat (n + 1) = unat (n :: 32 word) + 1"
  by (simp add: unat_word_ariths)

lemma link_timed_ring_ok:
  assumes ok: "ring_ok s" and r: "r \<notin> at_reqs s" and room: "unat (paa_count s) + 1 < 2 ^ 32"
  shows "ring_ok (link_timed r (bucket_of (deadline_of s r) s) s)"
    and "at_reqs (link_timed r (bucket_of (deadline_of s r) s) s) = insert r (at_reqs s)"
proof -
  let ?i = "bucket_of (deadline_of s r) s" and ?a = "paa_reqs_array s"
  have i: "?i < paa_size s" and len: "length ?a = paa_size s" "length (paa_reqs_count s) = paa_size s"
    using ok bucket_of_less by (auto simp: ring_ok_def)
  have b: "bucket_ok s ?i"
    using ok i by (simp add: ring_ok_def)
  have notin: "r \<notin> set (?a ! j)" if "j < paa_size s" for j
    using r that len by (auto simp: at_reqs_iff)
  have "length (?a ! ?i) \<le> unat (paa_count s)"
    using ok i len bucket_le [of ?i ?a] by (simp add: ring_ok_def)
  hence c: "unat (paa_reqs_count s ! ?i + 1) = length (?a ! ?i) + 1"
    using b room by (simp add: bucket_ok_def Let_def unat_plus_one)
  let ?R = "(scp_req s)(r := (scp_req s r)\<lparr>rq_at_linked := True, rq_at_index := ?i\<rparr>)"
  have D: "(\<lambda>x. rq_deadline (?R x)) = deadline_of s"
    by auto
  show "ring_ok (link_timed r ?i s)"
    unfolding link_timed_eq [OF ok i]
  proof (rule with_bucket_ring_ok [OF ok i])
    show "unat (paa_count s + 1) + length (?a ! ?i) = unat (paa_count s) + length (joined (deadline_of s) r (?a ! ?i))"
      using room by (simp add: joined_props unat_plus_one)
    show "bucket_ok (with_bucket ?i (joined (deadline_of s) r (?a ! ?i)) (paa_reqs_count s ! ?i + 1) (paa_count s + 1) ?R s) ?i"
      using b i len c notin [OF i] joined_props unfolding bucket_ok_def Let_def with_bucket_simps D
      by (simp add: joined_props)
    show "?R x = scp_req s x" if "j < paa_size s" "j \<noteq> ?i" "x \<in> set (?a ! j)" for j x
      using notin that by auto
  qed
  show "at_reqs (link_timed r ?i s) = insert r (at_reqs s)"
    unfolding link_timed_eq [OF ok i] using i len by (subst at_reqs_with_bucket) (auto simp: joined_props at_reqs_iff)
qed


subsection \<open>A request leaves\<close>

lemma remove_timed_eq:
  assumes ok: "ring_ok s" and r: "r \<in> at_reqs s" and idx: "i = rq_at_index (scp_req s r)"
  shows "ptlrpc_at_remove_timed r s = Ret (with_bucket i (remove1 r (paa_reqs_array s ! i)) (paa_reqs_count s ! i - 1) (paa_count s - 1)
    ((scp_req s)(r := (scp_req s r)\<lparr>rq_at_linked := False\<rparr>)) s)"
proof -
  let ?a = "paa_reqs_array s"
  have i: "i < length ?a" "i < length (paa_reqs_count s)" and len: "length ?a = paa_size s"
    using ok at_reqs_bucket [OF ok r] idx by (simp_all add: ring_ok_def)
  have "remove1 r (?a ! j) = ?a ! j" if "j < length ?a" "j \<noteq> i" for j
    using bucket_index [OF ok, of j r] that len idx by (auto intro: remove1_idem)
  hence "map (remove1 r) ?a = ?a[i := remove1 r (?a ! i)]"
    using i(1) by (intro nth_equalityI [where xs = "map _ _"]) (auto simp: nth_list_update simp del: length_remove1)
  thus ?thesis
    using i r unfolding ptlrpc_at_remove_timed_def Let_def on_timed_list_iff idx [symmetric] upd_req_def with_bucket_def by simp
qed

lemma remove_timed_ring_ok:
  assumes ok: "ring_ok s" and r: "r \<in> at_reqs s"
  obtains t where "ptlrpc_at_remove_timed r s = Ret t" and "ring_ok t" and "at_reqs t = at_reqs s - {r}"
    and "paa_size t = paa_size s" and "paa_deadline t = paa_deadline s" and "deadline_of t = deadline_of s"
    and "scp_at_check t = scp_at_check s" and "scp_at_timer t = scp_at_timer s"
proof -
  define i where i_def: "i = rq_at_index (scp_req s r)"
  let ?a = "paa_reqs_array s"
  let ?R = "(scp_req s)(r := (scp_req s r)\<lparr>rq_at_linked := False\<rparr>)"
  let ?t = "with_bucket i (remove1 r (?a ! i)) (paa_reqs_count s ! i - 1) (paa_count s - 1) ?R s"
  have i: "i < paa_size s" and mem: "r \<in> set (?a ! i)"
    using at_reqs_bucket [OF ok r] by (simp_all add: i_def)
  have len: "length ?a = paa_size s" "length (paa_reqs_count s) = paa_size s" and b: "bucket_ok s i"
    using ok i by (simp_all add: ring_ok_def)
  have pos: "0 < length (?a ! i)" and tot: "length (?a ! i) \<le> unat (paa_count s)"
    using mem ok i len bucket_le [of i ?a] by (auto simp: ring_ok_def)
  have one: "unat (n - 1) = unat n - 1" if "0 < unat n" for n :: "32 word"
    using that by (intro unat_minus_one) auto
  have D: "(\<lambda>x. rq_deadline (?R x)) = deadline_of s"
    by auto
  have "ring_ok ?t"
  proof (rule with_bucket_ring_ok [OF ok i])
    show "unat (paa_count s - 1) + length (?a ! i) = unat (paa_count s) + length (remove1 r (?a ! i))"
      using pos tot mem one [OF order.strict_trans2 [OF pos tot]] by (subst length_remove1) (cases "?a ! i"; simp)
    show "bucket_ok ?t i"
      using b i len pos mem unfolding bucket_ok_def Let_def with_bucket_simps D
      by (auto simp: one length_remove1 sorted_map_remove1 set_remove1_eq)
    show "?R x = scp_req s x" if "j < paa_size s" "j \<noteq> i" "x \<in> set (?a ! j)" for j x
      using that bucket_index [OF ok, of j x] by (auto simp: i_def)
  qed
  moreover have "distinct (?a ! i)"
    using b by (simp add: bucket_ok_def Let_def)
  hence "at_reqs ?t = at_reqs s - {r}"
    using i len bucket_index [OF ok, of _ r] i_def by (subst at_reqs_with_bucket) (auto simp: at_reqs_iff set_remove1_eq)
  ultimately show ?thesis
    using that [OF remove_timed_eq [OF ok r i_def]] D by simp
qed

subsection \<open>Taking the requests that are due\<close>

definition due :: "at_env \<Rightarrow> 'a at_part_scheme \<Rightarrow> rref \<Rightarrow> bool" where
  "due te s r \<longleftrightarrow> deadline_of s r \<le> at_now te + at_early_margin te"

definition live :: "'a at_part_scheme \<Rightarrow> rref \<Rightarrow> bool" where
  "live s r \<longleftrightarrow> rq_refcount (scp_req s r) \<noteq> 0"

definition grab :: "svc_req \<Rightarrow> svc_req" where
  "grab q = q\<lparr>rq_at_linked := False, rq_refcount := (if rq_refcount q = 0 then 0 else rq_refcount q + 1)\<rparr>"

lemma grab_simps [simp]: "rq_deadline (grab q) = rq_deadline q" "rq_at_index (grab q) = rq_at_index q"
  "rq_deadline (if c then grab q else q) = rq_deadline q"
  by (simp_all add: grab_def)

definition take_due :: "at_env \<Rightarrow> nat \<Rightarrow> 'a at_part_scheme \<Rightarrow> 'a at_part_scheme" where
  "take_due te j s = (let b = paa_reqs_array s ! j; gone = filter (due te s) b in
     with_bucket j (filter (\<lambda>r. \<not> due te s r) b) (paa_reqs_count s ! j - of_nat (length gone)) (paa_count s - of_nat (length gone))
       (\<lambda>r. if r \<in> set gone then grab (scp_req s r) else scp_req s r) s)"

definition earlier :: "int \<Rightarrow> int \<Rightarrow> int" where
  "earlier d x = (if d = -1 \<or> x < d then x else d)"

definition note_due :: "at_env \<Rightarrow> 'a at_part_scheme \<Rightarrow> rref list \<Rightarrow> collected \<Rightarrow> collected" where
  "note_due te s b co = \<lparr>co_deadline = (case filter (\<lambda>r. \<not> due te s r) b of [] \<Rightarrow> co_deadline co | r # _ \<Rightarrow> earlier (co_deadline co) (deadline_of s r)),
     co_work = rev (filter (live s) (filter (due te s) b)) @ co_work co,
     co_counter = co_counter co + int (length (filter (due te s) b))\<rparr>"

lemma with_bucket_same: 
  assumes "paa_reqs_array s ! i = b" and "paa_reqs_count s ! i = c" and "paa_count s = n" and "R = scp_req s"
  shows "with_bucket i b c n R s = s"
  unfolding with_bucket_def assms(1,2,3) [symmetric] assms(4) by simp

lemma take_none:
  assumes "filter (due te s) (paa_reqs_array s ! i) = []"
  shows "take_due te i s = s"
  unfolding take_due_def Let_def assms
  by (rule with_bucket_same) (use assms in \<open>auto simp: filter_empty_conv\<close>)

lemma with_bucket_twice: "with_bucket i b c n R (with_bucket i b' c' n' R' s) = with_bucket i b c n R s"
  by (simp add: with_bucket_def)

lemma ring_ok_same:
  assumes "ring_ok s" and "\<And>r. deadline_of t r = deadline_of s r" and "\<And>r. rq_at_linked (scp_req t r) = rq_at_linked (scp_req s r)"
    and "\<And>r. rq_at_index (scp_req t r) = rq_at_index (scp_req s r)" and "paa_size t = paa_size s"
    and "paa_reqs_array t = paa_reqs_array s" and "paa_reqs_count t = paa_reqs_count s" and "paa_count t = paa_count s"
  shows "ring_ok t"
  using assms by (simp add: ring_ok_def bucket_ok_def bucket_of_def)

lemma remove_and_grab:
  assumes ok: "ring_ok s" and r: "r \<in> at_reqs s" and idx: "i = rq_at_index (scp_req s r)"
  defines "t \<equiv> with_bucket i (remove1 r (paa_reqs_array s ! i)) (paa_reqs_count s ! i - 1) (paa_count s - 1) ((scp_req s)(r := grab (scp_req s r))) s"
  shows "due te s r \<Longrightarrow> collect_bucket te (r # rs) co s = 
      collect_bucket te rs \<lparr>co_deadline = co_deadline co, co_work = filter (live s) [r] @ co_work co, co_counter = co_counter co + 1\<rparr> t"
    and "ring_ok t"
proof -
  obtain u where u: "ptlrpc_at_remove_timed r s = Ret u" "ring_ok u"
    by (rule remove_timed_ring_ok [OF ok r])
  have u_eq: "u = with_bucket i (remove1 r (paa_reqs_array s ! i)) (paa_reqs_count s ! i - 1) (paa_count s - 1)
      ((scp_req s)(r := (scp_req s r)\<lparr>rq_at_linked := False\<rparr>)) s"
    using u(1) remove_timed_eq [OF ok r idx] by simp
  show "ring_ok t"
    by (rule ring_ok_same [OF u(2)]) (simp_all add: t_def u_eq grab_def)
  have t_eq: "t = u\<lparr>scp_req := (scp_req s)(r := grab (scp_req s r))\<rparr>"
    by (simp add: t_def u_eq with_bucket_def)
  have "scp_req u = (scp_req s)(r := (scp_req s r)\<lparr>rq_at_linked := False\<rparr>)"
    by (simp add: u_eq)
  moreover have "\<not> live s r \<Longrightarrow> grab (scp_req s r) = (scp_req s r)\<lparr>rq_at_linked := False\<rparr>"
    by (cases "scp_req s r") (simp add: grab_def live_def)
  ultimately have "\<not> live s r \<Longrightarrow> u = t"
    by (simp add: t_eq)
  moreover have "live s r \<Longrightarrow> upd_req r (\<lambda>q. q\<lparr>rq_refcount := rq_refcount q + 1\<rparr>) u = t"
    and "rq_refcount (scp_req u r) = rq_refcount (scp_req s r)"
    by (simp_all add: t_eq u_eq upd_req_def grab_def live_def)
  ultimately show "due te s r \<Longrightarrow> collect_bucket te (r # rs) co s = 
      collect_bucket te rs \<lparr>co_deadline = co_deadline co, co_work = filter (live s) [r] @ co_work co, co_counter = co_counter co + 1\<rparr> t"
    using u(1) by (cases co) (auto simp: due_def live_def)
qed

lemma collect_bucket_eq:
  assumes "ring_ok s" and "i < paa_size s" and "paa_reqs_array s ! i = rs"
  shows "collect_bucket te rs co s = Ret (note_due te s rs co, take_due te i s)"
  using assms
proof (induction rs arbitrary: s co)
  case Nil
  then show ?case
    using take_none [of te s i] by (simp add: note_due_def)
next
  case (Cons r rs)
  note ok = Cons.prems(1) and i = Cons.prems(2) and b = Cons.prems(3)
  have bok: "sorted (map (deadline_of s) (r # rs))" "distinct (r # rs)" and idx: "rq_at_index (scp_req s r) = i"
    using ok i b by (auto simp: ring_ok_def bucket_ok_def Let_def)
  show ?case
  proof (cases "due te s r")
    case False
    hence "filter (due te s) (r # rs) = []"
      using bok by (fastforce simp: due_def filter_empty_conv)
    moreover from this have "filter (\<lambda>x. \<not> due te s x) (r # rs) = r # rs"
      by (auto simp: filter_empty_conv filter_id_conv)
    ultimately show ?thesis
      using take_none [of te s i] b False by (simp add: note_due_def earlier_def due_def)
  next
    case True
    have r: "r \<in> at_reqs s"
      using ok i b by (auto simp: at_reqs_iff ring_ok_def)
    let ?s = "with_bucket i rs (paa_reqs_count s ! i - 1) (paa_count s - 1) ((scp_req s)(r := grab (scp_req s r))) s"
    let ?co = "\<lparr>co_deadline = co_deadline co, co_work = filter (live s) [r] @ co_work co, co_counter = co_counter co + 1\<rparr>"
    have step: "collect_bucket te (r # rs) co s = collect_bucket te rs ?co ?s" and ok': "ring_ok ?s"
      using remove_and_grab [OF ok r idx [symmetric]] True b by (simp_all add: due_def)
    have "collect_bucket te rs ?co ?s = Ret (note_due te ?s rs ?co, take_due te i ?s)"
      using Cons.IH [OF ok'] i b ok by (simp add: ring_ok_def)
    moreover have d: "due te ?s = due te s"
      by (auto simp: due_def grab_def fun_eq_iff)
    have "note_due te ?s rs ?co = note_due te s (r # rs) co"
      using True bok(2) by (auto simp: note_due_def d live_def intro!: filter_cong split: list.splits)
    moreover have "take_due te i ?s = take_due te i s"
      using True bok(2) i b ok
      by (auto simp: take_due_def Let_def d with_bucket_twice ring_ok_def algebra_simps intro!: arg_cong [where f = "\<lambda>R. with_bucket _ _ _ _ R _"])
    ultimately show ?thesis
      using step by simp
  qed
qed


lemma deadline_take_due [simp]: "deadline_of (take_due te j s) r = deadline_of s r"
  by (simp add: take_due_def Let_def)

lemma due_take_due [simp]: "due te (take_due te j s) = due te s"
  by (simp add: due_def fun_eq_iff)

lemma take_due_simps [simp]:
  "paa_size (take_due te j s) = paa_size s" "paa_deadline (take_due te j s) = paa_deadline s"
  "length (paa_reqs_array (take_due te j s)) = length (paa_reqs_array s)"
  by (simp_all add: take_due_def Let_def)

lemma take_due_bucket:
  "k < length (paa_reqs_array s) \<Longrightarrow> paa_reqs_array (take_due te j s) ! k =
    (if k = j then filter (\<lambda>r. \<not> due te s r) (paa_reqs_array s ! k) else paa_reqs_array s ! k)"
  by (simp add: take_due_def Let_def nth_list_update)

lemma take_due_ring_ok:
  assumes ok: "ring_ok s" and j: "j < paa_size s"
  shows "ring_ok (take_due te j s)"
proof -
  let ?a = "paa_reqs_array s" and ?k = "length (filter (due te s) (paa_reqs_array s ! j))"
  have len: "length ?a = paa_size s" "length (paa_reqs_count s) = paa_size s" and b: "bucket_ok s j"
    using ok j by (simp_all add: ring_ok_def)
  have k: "?k + length (filter (\<lambda>r. \<not> due te s r) (?a ! j)) = length (?a ! j)"
    by (rule sum_length_filter_compl)
  have minus: "unat (n - of_nat ?k) = unat n - ?k" if "?k \<le> unat n" for n :: "32 word"
    using that unsigned_less [where 'a = nat, of n] by (simp add: unat_sub_if' unat_of_nat take_bit_nat_eq_self)
  have le: "?k \<le> unat (paa_count s)" "?k \<le> unat (paa_reqs_count s ! j)" "unat (paa_reqs_count s ! j) = length (?a ! j)"
    using k b ok j len bucket_le [of j ?a] by (auto simp: bucket_ok_def Let_def ring_ok_def)
  show ?thesis
    unfolding take_due_def Let_def
  proof (rule with_bucket_ring_ok [OF ok j])
    show "unat (paa_count s - of_nat ?k) + length (?a ! j) = unat (paa_count s) + length (filter (\<lambda>r. \<not> due te s r) (?a ! j))"
      using k le minus by simp
    have "bucket_ok (take_due te j s) j"
      using b j len k minus [OF le(2)] le(3) unfolding bucket_ok_def Let_def
      by (auto simp: take_due_bucket sorted_map_same take_due_def bucket_of_def Let_def sorted_filter)
    thus "bucket_ok (with_bucket j (filter (\<lambda>r. \<not> due te s r) (?a ! j)) (paa_reqs_count s ! j - of_nat ?k) (paa_count s - of_nat ?k)
       (\<lambda>r. if r \<in> set (filter (due te s) (?a ! j)) then grab (scp_req s r) else scp_req s r) s) j"
      by (simp add: take_due_def Let_def)
    show "(if x \<in> set (filter (due te s) (?a ! j)) then grab (scp_req s x) else scp_req s x) = scp_req s x"
      if "i < paa_size s" "i \<noteq> j" "x \<in> set (?a ! i)" for i x
      using that bucket_index [OF ok, of i x] bucket_index [OF ok, of j x] j by auto
  qed
qed

subsection \<open>Round the ring\<close>

definition visit :: "at_env \<Rightarrow> nat \<Rightarrow> collected \<times> 'a at_part_scheme \<Rightarrow> collected \<times> 'a at_part_scheme" where
  "visit te j x = (case x of (co, s) \<Rightarrow> (note_due te s (paa_reqs_array s ! j) co, take_due te j s))"

lemma visit_pair: "visit te j (co, s) = (note_due te s (paa_reqs_array s ! j) co, take_due te j s)"
  by (simp add: visit_def)

lemma visit_empty:
  assumes "paa_reqs_array s ! j = []"
  shows "visit te j (co, s) = (co, s)"
  using take_none [of te s j] assms by (simp add: visit_def note_due_def)

lemma visit_all_empty: "(\<And>j. j \<in> set js \<Longrightarrow> paa_reqs_array s ! j = []) \<Longrightarrow> fold (visit te) js (co, s) = (co, s)"
  by (induction js) (simp_all add: visit_empty)

lemma ring_index:
  assumes "i < n"
  shows "(if i + 1 \<ge> n then 0 else i + 1) = (i + 1) mod (n :: nat)"
  using assms by (cases "i + 1 = n") auto

definition round_from :: "nat \<Rightarrow> nat \<Rightarrow> nat \<Rightarrow> nat list" where
  "round_from m i n = map (\<lambda>k. (i + k) mod m) [0..<n]"

lemma round_from_Suc: "i < m \<Longrightarrow> round_from m i (Suc n) = i # round_from m ((i + 1) mod m) n"
  by (simp add: round_from_def upt_conv_Cons map_Suc_upt [symmetric] mod_add_left_eq add.assoc del: upt_Suc)

lemma add_mod_inject:
  assumes "k \<le> l" and "l < m" and "(i + k) mod m = (i + l) mod (m :: nat)"
  shows "k = l"
proof -
  have "m dvd l - k"
    using assms mod_eq_dvd_iff_nat [of "i + k" "i + l" m] by simp
  thus ?thesis
    using assms by (meson diff_is_0_eq dvd_imp_le le_antisym less_imp_diff_less linorder_not_le not_gr0)
qed

lemma round_from_distinct: "n \<le> m \<Longrightarrow> distinct (round_from m i n)"
  unfolding round_from_def distinct_map inj_on_def
  by clarsimp (metis add_mod_inject less_le_trans nat_le_linear)

lemma round_from_set: "0 < m \<Longrightarrow> set (round_from m i n) \<subseteq> {..<m}"
  by (auto simp: round_from_def)

lemma round_from_all: "0 < m \<Longrightarrow> set (round_from m i m) = {..<m}"
  using round_from_distinct [of m m i] round_from_set [of m i m]
  by (intro card_subset_eq) (auto simp: distinct_card, simp add: round_from_def)

text \<open>The walk ends after one round at the latest, with every bucket visited that was not empty.\<close>

lemma collect_ring_eq:
  assumes "ring_ok s" and "i < paa_size s" and "n \<le> paa_size s"
    and "unat cnt = sum_list (map (\<lambda>j. length (paa_reqs_array s ! j)) (round_from (paa_size s) i n))"
  shows "collect_ring n te i cnt co s = Some (Ret (fold (visit te) (round_from (paa_size s) i n) (co, s)))"
  using assms
proof (induction n arbitrary: i cnt co s)
  case 0
  hence "cnt = 0"
    by (simp add: round_from_def unat_eq_zero)
  thus ?case
    by (simp add: round_from_def collect_ring.simps)
next
  case (Suc n)
  note ok = Suc.prems(1) and i = Suc.prems(2) and n = Suc.prems(3) and cnt = Suc.prems(4)
  let ?m = "paa_size s" and ?i = "(i + 1) mod paa_size s" and ?t = "take_due te i s"
  have rnd: "round_from ?m i (Suc n) = i # round_from ?m ?i n"
    using i by (rule round_from_Suc)
  have len: "i < length (paa_reqs_array s)" "i < length (paa_reqs_count s)" "length (paa_reqs_array s) = ?m"
    and c: "unat (paa_reqs_count s ! i) = length (paa_reqs_array s ! i)" and pos: "?i < ?m"
    using ok i by (auto simp: ring_ok_def bucket_ok_def Let_def)
  show ?case
  proof (cases "cnt = 0")
    case True
    hence "\<And>j. j \<in> set (round_from ?m i (Suc n)) \<Longrightarrow> paa_reqs_array s ! j = []"
      using cnt by (simp add: sum_list_eq_0_iff del: upt_Suc)
    from visit_all_empty [OF this] show ?thesis
      using True by (simp add: collect_ring.simps)
  next
    case False
    have "i \<notin> set (round_from ?m ?i n)" and sub: "set (round_from ?m ?i n) \<subseteq> {..<?m}"
      using round_from_distinct [OF n, of i] rnd round_from_set [of ?m ?i n] i by auto
    hence same: "map (\<lambda>j. length (paa_reqs_array ?t ! j)) (round_from ?m ?i n) = map (\<lambda>j. length (paa_reqs_array s ! j)) (round_from ?m ?i n)"
      using len by (auto simp: take_due_bucket)
    have "unat (cnt - paa_reqs_count s ! i) = sum_list (map (\<lambda>j. length (paa_reqs_array ?t ! j)) (round_from (paa_size ?t) ?i n))"
      using cnt c unfolding rnd same take_due_simps by (simp add: unat_sub_if')
    from Suc.IH [OF take_due_ring_ok [OF ok i] _ _ this] have
      "collect_ring n te ?i (cnt - paa_reqs_count s ! i) (note_due te s (paa_reqs_array s ! i) co) ?t
        = Some (Ret (fold (visit te) (round_from ?m ?i n) (visit te i (co, s))))"
      using n pos by (simp add: visit_pair)
    thus ?thesis
      using False len collect_bucket_eq [OF ok i refl] ring_index [OF i] unfolding rnd
      by (subst collect_ring.simps) simp
  qed
qed


text \<open>What a round leaves and what it finds.\<close>

definition is_least :: "int \<Rightarrow> int set \<Rightarrow> bool" where
  "is_least d A \<longleftrightarrow> (if A = {} then d = -1 else d \<in> A \<and> (\<forall>x \<in> A. d \<le> x))"

lemma is_least_earlier:
  assumes "is_least d A" and "x \<in> B" and "\<And>y. y \<in> B \<Longrightarrow> x \<le> y" and "-1 \<notin> A"
  shows "is_least (earlier d x) (A \<union> B)"
  using assms by (fastforce simp: is_least_def earlier_def split: if_splits)

definition late :: "at_env \<Rightarrow> 'a at_part_scheme \<Rightarrow> nat \<Rightarrow> int set" where
  "late te s j = deadline_of s ` {r \<in> set (paa_reqs_array s ! j). \<not> due te s r}"

lemma note_due_least:
  assumes ok: "ring_ok s" and j: "j < paa_size s" and d: "is_least (co_deadline co) A" "-1 \<notin> A"
  shows "is_least (co_deadline (note_due te s (paa_reqs_array s ! j) co)) (A \<union> late te s j)"
proof (cases "filter (\<lambda>r. \<not> due te s r) (paa_reqs_array s ! j)")
  case Nil
  hence "late te s j = {}"
    by (auto simp: late_def filter_empty_conv)
  thus ?thesis
    using d Nil by (simp add: note_due_def)
next
  case (Cons r rs)
  have "sorted (map (deadline_of s) (filter (\<lambda>r. \<not> due te s r) (paa_reqs_array s ! j)))"
    using ok j by (auto simp: ring_ok_def bucket_ok_def Let_def intro: sorted_filter)
  moreover have late: "late te s j = deadline_of s ` set (r # rs)"
    unfolding late_def Cons [symmetric] by auto
  ultimately have "is_least (earlier (co_deadline co) (deadline_of s r)) (A \<union> late te s j)"
    using d unfolding Cons by (intro is_least_earlier) auto
  thus ?thesis
    using Cons by (simp add: note_due_def)
qed

lemma live_take_due:
  assumes "ring_ok s" and "j < paa_size s" and "k < paa_size s" and "k \<noteq> j" and "r \<in> set (paa_reqs_array s ! k)"
  shows "live (take_due te j s) r = live s r"
  using bucket_index [OF assms(1,3,5)] bucket_index [OF assms(1,2), of r] assms(4)
  by (auto simp: live_def take_due_def Let_def)

definition round_done :: "at_env \<Rightarrow> nat list \<Rightarrow> collected \<Rightarrow> 'a at_part_scheme \<Rightarrow> collected \<Rightarrow> 'a at_part_scheme \<Rightarrow> bool" where
  "round_done te js co s co' s' \<longleftrightarrow> ring_ok s' \<and> paa_size s' = paa_size s \<and> (\<forall>r. deadline_of s' r = deadline_of s r) \<and>
     (\<forall>k < paa_size s. paa_reqs_array s' ! k =
        (if k \<in> set js then filter (\<lambda>r. \<not> due te s r) (paa_reqs_array s ! k) else paa_reqs_array s ! k)) \<and>
     co_work co' = rev (filter (live s) (concat (map (\<lambda>k. filter (due te s) (paa_reqs_array s ! k)) js))) @ co_work co \<and>
     co_counter co' = co_counter co + int (length (concat (map (\<lambda>k. filter (due te s) (paa_reqs_array s ! k)) js)))"

lemma visits_round_done:
  assumes "ring_ok s" and "distinct js" and "set js \<subseteq> {..<paa_size s}" and "fold (visit te) js (co, s) = (co', s')"
  shows "round_done te js co s co' s'"
  using assms
proof (induction js arbitrary: co s)
  case Nil
  then show ?case
    by (simp add: round_done_def)
next
  case (Cons j js)
  let ?t = "take_due te j s" and ?co = "note_due te s (paa_reqs_array s ! j) co"
  have ok: "ring_ok s" and j: "j < paa_size s" "j \<notin> set js" and js: "\<And>k. k \<in> set js \<Longrightarrow> k < paa_size s"
    and len: "length (paa_reqs_array s) = paa_size s"
    using Cons.prems by (auto simp: ring_ok_def)
  have IH: "round_done te js ?co ?t co' s'"
    using Cons.IH [OF take_due_ring_ok [OF ok j(1)]] Cons.prems by (simp add: visit_pair)
  have same: "filter (due te s) (paa_reqs_array ?t ! k) = filter (due te s) (paa_reqs_array s ! k)" if "k \<in> set js" for k
    using that j js len by (auto simp: take_due_bucket)
  have "live ?t r = live s r" if "k \<in> set js" "r \<in> set (paa_reqs_array s ! k)" for k r
    using that j js by (intro live_take_due [OF ok]) auto
  hence lv: "filter (live ?t) (concat (map (\<lambda>k. filter (due te s) (paa_reqs_array s ! k)) js))
      = filter (live s) (concat (map (\<lambda>k. filter (due te s) (paa_reqs_array s ! k)) js))"
    by (intro filter_cong refl) auto
  show ?case
    using IH j js len same lv unfolding round_done_def
    by (auto simp: take_due_bucket note_due_def cong: map_cong)
qed

lemma take_due_more [simp]: "at_part.more (take_due te j s) = at_part.more s"
  by (simp add: take_due_def with_bucket_def Let_def)

lemma take_due_refcount:
  "rq_refcount (scp_req (take_due te j s) r) = rq_refcount (scp_req s r) + (if r \<in> set (paa_reqs_array s ! j) \<and> due te s r \<and> live s r then 1 else 0)"
  by (auto simp: take_due_def Let_def grab_def live_def)

lemma visits_refcount:
  assumes "ring_ok s" and "distinct js" and "set js \<subseteq> {..<paa_size s}" and "fold (visit te) js (co, s) = (co', s')"
  shows "at_part.more s' = at_part.more s \<and> rq_refcount (scp_req s' r) = rq_refcount (scp_req s r) + (if (\<exists>k \<in> set js. r \<in> set (paa_reqs_array s ! k)) \<and> due te s r \<and> live s r then 1 else 0)"
  using assms
proof (induction js arbitrary: co s)
  case (Cons j js)
  let ?t = "take_due te j s"
  note ok = Cons.prems(1)
  have j: "j < paa_size s" "j \<notin> set js" and js: "\<And>k. k \<in> set js \<Longrightarrow> k < paa_size s" and len: "length (paa_reqs_array s) = paa_size s"
    using Cons.prems by (auto simp: ring_ok_def)
  note IH = Cons.IH [OF take_due_ring_ok [OF ok j(1)], of te "note_due te s (paa_reqs_array s ! j) co"]
  have f: "fold (visit te) js (note_due te s (paa_reqs_array s ! j) co, ?t) = (co', s')" "distinct js" "set js \<subseteq> {..<paa_size ?t}"
    using Cons.prems by (simp_all add: visit_pair)
  have same: "paa_reqs_array ?t ! k = paa_reqs_array s ! k" if "k \<in> set js" for k
    using that j js len by (auto simp: take_due_bucket)
  have in_j: "r \<notin> set (paa_reqs_array s ! j) \<and> live ?t r = live s r" if "k \<in> set js" "r \<in> set (paa_reqs_array s ! k)" for k
    using that j js bucket_index [OF ok, of k r] bucket_index [OF ok j(1), of r] live_take_due [OF ok j(1), of k r te] by auto
  show ?case
  proof (cases "\<exists>k \<in> set js. r \<in> set (paa_reqs_array s ! k)")
    case True
    thus ?thesis
      using IH [OF f(2,3,1)] same in_j by (auto simp: take_due_refcount)
  next
    case False
    thus ?thesis
      using IH [OF f(2,3,1)] same by (auto simp: take_due_refcount)
  qed
qed simp

lemma visits_least:
  assumes "ring_ok s" and "distinct js" and "set js \<subseteq> {..<paa_size s}"
    and "is_least (co_deadline co) A" and "-1 \<notin> A" and "\<forall>k < paa_size s. -1 \<notin> late te s k"
  shows "is_least (co_deadline (fst (fold (visit te) js (co, s)))) (A \<union> (\<Union>k \<in> set js. late te s k))"
  using assms
proof (induction js arbitrary: co s A)
  case (Cons j js)
  let ?t = "take_due te j s" and ?co = "note_due te s (paa_reqs_array s ! j) co"
  have ok: "ring_ok s" and j: "j < paa_size s" "j \<notin> set js" and len: "length (paa_reqs_array s) = paa_size s"
    using Cons.prems by (auto simp: ring_ok_def)
  have late: "late te ?t k = late te s k" if "k < paa_size s" for k
    using that len by (auto simp: late_def take_due_bucket)
  have "is_least (co_deadline (fst (fold (visit te) js (?co, ?t)))) ((A \<union> late te s j) \<union> (\<Union>k \<in> set js. late te ?t k))"
    using Cons.prems by (intro Cons.IH note_due_least [OF ok j(1)] take_due_ring_ok [OF ok j(1)]) (auto simp: late)
  also have "(\<Union>k \<in> set js. late te ?t k) = (\<Union>k \<in> set js. late te s k)"
    using Cons.prems(3) by (intro SUP_cong refl late) auto
  finally show ?case
    by (simp add: visit_pair Un_assoc)
qed simp


section \<open>What the service can rely on\<close>

lemma set_timer_simps [simp]:
  "paa_size (ptlrpc_at_set_timer te s) = paa_size s" "paa_reqs_array (ptlrpc_at_set_timer te s) = paa_reqs_array s"
  "paa_reqs_count (ptlrpc_at_set_timer te s) = paa_reqs_count s" "paa_count (ptlrpc_at_set_timer te s) = paa_count s"
  "paa_deadline (ptlrpc_at_set_timer te s) = paa_deadline s" "scp_req (ptlrpc_at_set_timer te s) = scp_req s"
  by (simp_all add: ptlrpc_at_set_timer_def ptlrpc_at_timer_def Let_def)

lemma more_set_timer [simp]: "at_part.more (ptlrpc_at_set_timer te s) = at_part.more s"
  by (simp add: ptlrpc_at_set_timer_def ptlrpc_at_timer_def Let_def)

lemma at_reqs_set_timer [simp]: "at_reqs (ptlrpc_at_set_timer te s) = at_reqs s"
  by (simp add: at_reqs_def)

lemma ring_ok_set_timer [simp]: "ring_ok (ptlrpc_at_set_timer te s) = ring_ok s"
  by (simp add: ring_ok_def bucket_ok_def bucket_of_def)

lemma at_ok_set_timer [simp]: "at_ok (ptlrpc_at_set_timer te s) = at_ok s"
  by (simp add: at_ok_def)

text \<open>While a request waits, a check is due or the timer is armed.\<close>

definition timer_ok :: "'a at_part_scheme \<Rightarrow> bool" where
  "timer_ok s \<longleftrightarrow> (paa_count s \<noteq> 0 \<longrightarrow> scp_at_check s \<or> scp_at_timer s \<noteq> None)"

lemma timer_ok_set_timer [simp]: "timer_ok (ptlrpc_at_set_timer te s)"
  by (auto simp: timer_ok_def ptlrpc_at_set_timer_def ptlrpc_at_timer_def Let_def)

lemma ring_ok_deadline [simp]: "ring_ok (s\<lparr>paa_deadline := d\<rparr>) = ring_ok s"
  by (simp add: ring_ok_def bucket_ok_def bucket_of_def)

lemma at_reqs_deadline [simp]: "at_reqs (s\<lparr>paa_deadline := d\<rparr>) = at_reqs s"
  by (simp add: at_reqs_def)

lemma ring_empty: "ring_ok s \<Longrightarrow> paa_count s = 0 \<longleftrightarrow> at_reqs s = {}"
  by (auto simp: ring_ok_def at_reqs_def unat_eq_zero [symmetric] sum_list_eq_0_iff)

lemma at_add_timed_ok:
  assumes ok: "at_ok s" "timer_ok s" and r: "r \<notin> at_reqs s" and room: "unat (paa_count s) + 1 < 2 ^ 32"
    and support: "\<not> at_off te" "\<not> rq_no_reply (scp_req s r)" "rq_at_support (scp_req s r)"
  shows "\<exists>t. ptlrpc_at_add_timed te r s = Ret (0, t) \<and> at_ok t \<and> timer_ok t \<and> at_reqs t = insert r (at_reqs s) \<and>
    (\<forall>x. deadline_of t x = deadline_of s x)"
proof -
  let ?i = "bucket_of (deadline_of s r) s" and ?t = "link_timed r (bucket_of (deadline_of s r) s) s"
  let ?u = "if paa_count ?t = 1 \<or> paa_deadline ?t > deadline_of s r
      then ptlrpc_at_set_timer te (?t\<lparr>paa_deadline := deadline_of s r\<rparr>) else ?t"
  have ring: "ring_ok s" and low: "\<And>x. x \<in> at_reqs s \<Longrightarrow> paa_deadline s \<le> deadline_of s x"
    using ok by (auto simp: at_ok_def)
  note new = link_timed_ring_ok [OF ring r room]
  have i: "?i < paa_size s"
    using ring by (intro bucket_of_less) (simp add: ring_ok_def)
  have t: "paa_deadline ?t = paa_deadline s" "paa_count ?t = paa_count s + 1" "\<And>x. deadline_of ?t x = deadline_of s x"
    "scp_at_check ?t = scp_at_check s" "scp_at_timer ?t = scp_at_timer s"
    unfolding link_timed_eq [OF ring i] by simp_all
  have one: "paa_count ?t = 1 \<longleftrightarrow> at_reqs s = {}"
    using ring_empty [OF ring] t(2) by simp
  have "at_ok ?u"
    using new low one t order.trans [OF less_imp_le low] by (auto simp: at_ok_def not_less)
  moreover have "timer_ok ?u"
  proof (cases "paa_count ?t = 1 \<or> paa_deadline ?t > deadline_of s r")
    case False
    thus ?thesis
      using ok(2) one ring_empty [OF ring] t(4,5) by (simp add: timer_ok_def)
  qed simp
  moreover have "ptlrpc_at_add_timed te r s = Ret (0, ?u)"
    using support r i ring by (simp add: ptlrpc_at_add_timed_def Let_def on_timed_list_iff ring_ok_def)
  ultimately show ?thesis
    using new(2) t(3) by auto
qed

lemma at_remove_timed_ok:
  assumes ok: "at_ok s" "timer_ok s" and r: "r \<in> at_reqs s"
  shows "\<exists>t. ptlrpc_at_remove_timed r s = Ret t \<and> at_ok t \<and> timer_ok t \<and> at_reqs t = at_reqs s - {r}"
proof -
  have ring: "ring_ok s"
    using ok by (simp add: at_ok_def)
  obtain t where t: "ptlrpc_at_remove_timed r s = Ret t" "ring_ok t" "at_reqs t = at_reqs s - {r}" "paa_deadline t = paa_deadline s"
    "deadline_of t = deadline_of s" "scp_at_check t = scp_at_check s" "scp_at_timer t = scp_at_timer s"
    by (rule remove_timed_ring_ok [OF ring r])
  moreover have "paa_count s \<noteq> 0"
    using ring_empty [OF ring] r by auto
  ultimately show ?thesis
    using ok by (auto simp: at_ok_def timer_ok_def fun_eq_iff)
qed

lemma distinct_concat_indexed:
  assumes "distinct js" and "\<And>j. j \<in> set js \<Longrightarrow> distinct (f j)" and "\<And>j x. j \<in> set js \<Longrightarrow> x \<in> set (f j) \<Longrightarrow> g x = j"
  shows "distinct (concat (map f js))"
  using assms
proof (induction js)
  case (Cons j js)
  have "x \<notin> set (concat (map f js))" if "x \<in> set (f j)" for x
    using that Cons.prems(1) Cons.prems(3) [of j x] Cons.prems(3) [of _ x] by auto
  thus ?case
    using Cons by auto
qed simp

text \<open>A round takes exactly the requests that are due and leaves the earliest deadline of the others.\<close>

lemma full_round:
  assumes ok: "ring_ok s" and js: "distinct js" "set js = {..<paa_size s}" and nonneg: "\<forall>r \<in> at_reqs s. 0 \<le> deadline_of s r"
  obtains co t where "fold (visit te) js (\<lparr>co_deadline = -1, co_work = [], co_counter = 0\<rparr>, s) = (co, t)"
    and "ring_ok t" and "\<And>r. deadline_of t r = deadline_of s r" and "at_reqs t = {r \<in> at_reqs s. \<not> due te s r}"
    and "set (co_work co) = {r \<in> at_reqs s. due te s r \<and> live s r}" and "distinct (co_work co)"
    and "is_least (co_deadline co) (deadline_of s ` at_reqs t)" and "at_part.more t = at_part.more s"
    and "\<And>r. rq_refcount (scp_req t r) = rq_refcount (scp_req s r) + (if r \<in> set (co_work co) then 1 else 0)"
proof -
  let ?co = "\<lparr>co_deadline = -1, co_work = [], co_counter = 0\<rparr>" and ?a = "paa_reqs_array s"
  obtain co t where f: "fold (visit te) js (?co, s) = (co, t)"
    by fastforce
  have len: "length ?a = paa_size s" and b: "\<And>j. j < paa_size s \<Longrightarrow> distinct (?a ! j)"
    using ok by (auto simp: ring_ok_def bucket_ok_def Let_def)
  have rd: "round_done te js ?co s co t"
    using js f by (intro visits_round_done [OF ok]) auto
  hence t: "ring_ok t" "\<And>r. deadline_of t r = deadline_of s r" "paa_size t = paa_size s"
    and bt: "\<And>k. k < paa_size s \<Longrightarrow> paa_reqs_array t ! k = filter (\<lambda>r. \<not> due te s r) (?a ! k)"
    and w: "co_work co = rev (filter (live s) (concat (map (\<lambda>k. filter (due te s) (?a ! k)) js)))"
    using js by (auto simp: round_done_def)
  have rt: "at_reqs t = {r \<in> at_reqs s. \<not> due te s r}"
    using t(1,3) len by (auto simp: at_reqs_iff ring_ok_def bt cong: conj_cong)
  moreover have set: "set (co_work co) = {r \<in> at_reqs s. due te s r \<and> live s r}"
    using js len by (auto simp: w at_reqs_iff)
  moreover have "rq_refcount (scp_req t r) = rq_refcount (scp_req s r) + (if r \<in> set (co_work co) then 1 else 0)" for r
    using visits_refcount [OF ok js(1) _ f, of r] js(2) len by (simp add: set at_reqs_iff Bex_def)
  moreover have "at_part.more t = at_part.more s"
    using visits_refcount [OF ok js(1) _ f] js(2) by simp
  moreover have "distinct (concat (map (\<lambda>k. filter (due te s) (?a ! k)) js))"
    using js b bucket_index [OF ok] by (intro distinct_concat_indexed [where g = "\<lambda>r. rq_at_index (scp_req s r)"]) auto
  hence "distinct (co_work co)"
    by (simp add: w)
  moreover have "(\<Union>k \<in> set js. late te s k) = deadline_of s ` at_reqs t"
    using js len by (auto simp: late_def rt at_reqs_iff)
  moreover have "-1 \<notin> late te s k" if "k < paa_size s" for k
  proof
    assume "-1 \<in> late te s k"
    then obtain r where "r \<in> set (?a ! k)" and r: "deadline_of s r = -1"
      by (auto simp: late_def)
    with that len have "r \<in> at_reqs s"
      by (auto simp: at_reqs_iff)
    with nonneg r show False
      by force
  qed
  hence "is_least (co_deadline co) ({} \<union> (\<Union>k \<in> set js. late te s k))"
    using visits_least [OF ok js(1), of ?co "{}" te] js(2) f by (auto simp: is_least_def)
  ultimately show ?thesis
    using that f t by simp
qed


text \<open>Clearing the flag changes nothing of the ring.\<close>

lemma at_check_cleared [simp]:
  "ring_ok (s\<lparr>scp_at_check := c\<rparr>) = ring_ok s" "at_reqs (s\<lparr>scp_at_check := c\<rparr>) = at_reqs s"
  "due te (s\<lparr>scp_at_check := c\<rparr>) = due te s" "live (s\<lparr>scp_at_check := c\<rparr>) = live s"
  "bucket_of t (s\<lparr>scp_at_check := c\<rparr>) = bucket_of t s"
  by (simp_all add: ring_ok_def bucket_ok_def bucket_of_def at_reqs_def due_def live_def fun_eq_iff)

text \<open>
  When the timer has gone off and the earliest deadline is within the margin, the walk round the
  ring ends and takes exactly the requests due within the margin, each once; those whose last
  reference is gone are taken off but not dealt with. The others stay, the ring is well formed, the
  new earliest deadline is the least of theirs (\<open>-1\<close> when there are none), and a check is due or the timer is armed for them.
\<close>

lemma due_requests_collected:
  assumes "at_ok s" and "scp_at_check s" and "at_reqs s \<noteq> {}" and "s32 (paa_deadline s - at_now te) \<le> at_early_margin te"
    and "\<forall>r \<in> at_reqs s. 0 \<le> rq_deadline (scp_req s r)"
  shows "\<exists>co t. at_collect te s = Some (Ret (Some co, t)) \<and> at_ok t \<and> timer_ok t \<and>
    at_reqs t = {r \<in> at_reqs s. rq_deadline (scp_req s r) > at_now te + at_early_margin te} \<and>
    distinct (co_work co) \<and>
    set (co_work co) = {r \<in> at_reqs s. rq_deadline (scp_req s r) \<le> at_now te + at_early_margin te \<and> rq_refcount (scp_req s r) \<noteq> 0} \<and>
    is_least (paa_deadline t) ((\<lambda>r. rq_deadline (scp_req s r)) ` at_reqs t) \<and>
    (\<forall>r. rq_deadline (scp_req t r) = rq_deadline (scp_req s r)) \<and>
    (\<forall>r. rq_refcount (scp_req t r) = rq_refcount (scp_req s r) + (if r \<in> set (co_work co) then 1 else 0)) \<and> at_part.more t = at_part.more s"
proof -
  let ?s = "s\<lparr>scp_at_check := False\<rparr>" and ?co = "\<lparr>co_deadline = -1, co_work = [], co_counter = 0\<rparr>"
  let ?js = "round_from (paa_size s) (bucket_of (paa_deadline s) s) (paa_size s)"
  have ok: "ring_ok s"
    using assms(1) by (simp add: at_ok_def)
  hence size: "0 < paa_size s" and n: "paa_count s \<noteq> 0"
    using ring_empty [OF ok] assms(3) by (auto simp: ring_ok_def)
  have js: "distinct ?js" "set ?js = {..<paa_size ?s}"
    using round_from_distinct round_from_all [OF size] by auto
  have "sum_list (map length (paa_reqs_array s)) = (\<Sum>j < paa_size s. length (paa_reqs_array s ! j))"
    using ok by (simp add: ring_ok_def sum_list_sum_nth atLeast0LessThan)
  hence total: "sum_list (map (\<lambda>j. length (paa_reqs_array s ! j)) ?js) = unat (paa_count s)"
    using ok js unfolding sum_list_distinct_conv_sum_set [OF js(1)] by (simp add: ring_ok_def)
  obtain co t where f: "fold (visit te) ?js (?co, ?s) = (co, t)"
    and t: "ring_ok t" "\<And>r. rq_deadline (scp_req t r) = rq_deadline (scp_req s r)" "at_reqs t = {r \<in> at_reqs s. \<not> due te s r}"
    and w: "set (co_work co) = {r \<in> at_reqs s. due te s r \<and> live s r}" "distinct (co_work co)"
    and least: "is_least (co_deadline co) ((\<lambda>r. rq_deadline (scp_req s r)) ` at_reqs t)" and more: "at_part.more t = at_part.more s"
    and refs: "\<And>r. rq_refcount (scp_req t r) = rq_refcount (scp_req s r) + (if r \<in> set (co_work co) then 1 else 0)"
    using ok js assms(5) by (rule_tac full_round [of ?s ?js te]) auto
  have "collect_ring (paa_size s) te (bucket_of (paa_deadline s) s) (paa_count s) ?co ?s = Some (Ret (co, t))"
    using collect_ring_eq [of ?s "bucket_of (paa_deadline s) s" "paa_size s" "paa_count s" te ?co] ok size total f
    by (simp add: bucket_of_less)
  hence "at_collect te s = Some (Ret (Some co, ptlrpc_at_set_timer te (t\<lparr>paa_deadline := co_deadline co\<rparr>)))"
    using assms(2,4) n size by (simp add: at_collect_def Let_def)
  moreover have "at_ok (t\<lparr>paa_deadline := co_deadline co\<rparr>)"
    using t least by (auto simp: at_ok_def is_least_def split: if_splits)
  ultimately show ?thesis
    using t(2,3) w least more refs by (auto simp: due_def live_def not_le)
qed


definition sample_req :: "int \<Rightarrow> nat \<Rightarrow> svc_req" where
  "sample_req d i = \<lparr>rq_refcount = 1, rq_rqbd = 0, rq_history_seq = 1, rq_hp = False, rq_ops = False, rq_export = None, rq_xid = 1,
     rq_resent = False, rq_bulk = False, rq_deadline = d, rq_arrival = 0, rq_early_count = 0, rq_at_linked = True, rq_at_index = i,
     rq_no_reply = False, rq_at_support = True, rq_prealloc = False, rq_in_session = True\<rparr>"

definition sample_at_env :: at_env where
  "sample_at_env = \<lparr>at_now = 8, at_jiffies = 8000, at_early_margin = 5, at_off = False, at_time_shift = (\<lambda>d. 8000 + 1000 * d)\<rparr>"

end
