(* ===== verification/Svc_Buffers.thy ===== *)
theory Svc_Buffers
  imports Svc_Timed
begin

text \<open>
  Request buffers and the history of requests (\<open>service.c\<close>): a buffer is idle, posted to the network
  or in the history, where its requests stay until newer buffers push it out. Dropping the last
  reference of a request, and asking clients for more time.

  Outside \<open>src/\<close> and therefore arguments: \<open>ptlrpc_register_rqbd\<close> (its result and the reference count
  it leaves), the allocators, \<open>at_measured\<close>, and what sending an early reply returns.
\<close>

section \<open>State\<close>

abbreviation (input) ETIMEDOUT :: int where "ETIMEDOUT \<equiv> 110"

type_synonym bref = nat

type_synonym xref = nat

record svc_part = at_part +
  rqbd_refcount :: "bref \<Rightarrow> int"
  rqbd_reqs :: "bref \<Rightarrow> rref list"
  rqbd_req :: "bref \<Rightarrow> rref"
  scp_rqbd_idle :: "bref list"
  scp_rqbd_posted :: "bref list"
  scp_nrqbds_total :: int
  scp_nrqbds_posted :: int
  scp_rqbd_allocating :: int
  scp_hist_rqbds :: "bref list"
  scp_hist_nrqbds :: int
  scp_hist_reqs :: "rref list"
  scp_hist_seq_culled :: "64 word"
  srv_hist_nrqbds_cpt_max :: int
  srv_nbuf_per_group :: int
  req_freed :: "rref list"
  exp_refcount :: "xref \<Rightarrow> int"
  exp_rpc_count :: "xref \<Rightarrow> int"
  scp_at_estimate :: int

section \<open>Request buffers\<close>

text \<open>\<open>new\<close> is the descriptor the allocator hands out, \<open>buf\<close> whether there was memory for the buffer.\<close>

definition ptlrpc_alloc_rqbd :: "bref option \<Rightarrow> bool \<Rightarrow> 'a svc_part_scheme \<Rightarrow> bref option \<times> 'a svc_part_scheme" where
  "ptlrpc_alloc_rqbd new buf s =
     (case new of None \<Rightarrow> (None, s)
      | Some b \<Rightarrow>
          if \<not> buf then (None, s)
          else (Some b, s\<lparr>rqbd_refcount := (rqbd_refcount s)(b := 0), rqbd_reqs := (rqbd_reqs s)(b := []),
                  scp_rqbd_idle := b # scp_rqbd_idle s, scp_nrqbds_total := scp_nrqbds_total s + 1\<rparr>))"

definition ptlrpc_free_rqbd :: "bref \<Rightarrow> 'a svc_part_scheme \<Rightarrow> 'a svc_part_scheme outcome" where
  "ptlrpc_free_rqbd b s =
     lassert (rqbd_refcount s b = 0) (lassert (rqbd_reqs s b = [])
      (Ret (s\<lparr>scp_rqbd_idle := remove1 b (scp_rqbd_idle s), scp_rqbd_posted := remove1 b (scp_rqbd_posted s),
             scp_hist_rqbds := remove1 b (scp_hist_rqbds s), scp_nrqbds_total := scp_nrqbds_total s - 1\<rparr>)))"

text \<open>The list is that of the idle buffers.\<close>

fun post_idle :: "(bref \<Rightarrow> int \<times> int) \<Rightarrow> int \<Rightarrow> bref list \<Rightarrow> 'a svc_part_scheme \<Rightarrow> int \<times> 'a svc_part_scheme" where
  "post_idle reg posted [] s = (posted, s\<lparr>scp_rqbd_idle := []\<rparr>)"
| "post_idle reg posted (b # bs) s =
     (let s = s\<lparr>scp_rqbd_idle := bs, scp_nrqbds_posted := scp_nrqbds_posted s + 1, scp_rqbd_posted := b # scp_rqbd_posted s\<rparr>;
          s = s\<lparr>rqbd_refcount := (rqbd_refcount s)(b := snd (reg b))\<rparr>
      in if fst (reg b) \<noteq> 0
         then (-1, s\<lparr>scp_nrqbds_posted := scp_nrqbds_posted s - 1, scp_rqbd_posted := remove1 b (scp_rqbd_posted s),
                    scp_rqbd_idle := bs @ [b]\<rparr>)
         else post_idle reg 1 bs s)"

definition ptlrpc_server_post_idle_rqbds :: "(bref \<Rightarrow> int \<times> int) \<Rightarrow> 'a svc_part_scheme \<Rightarrow> int \<times> 'a svc_part_scheme" where
  "ptlrpc_server_post_idle_rqbds reg s = post_idle reg 0 (scp_rqbd_idle s) s"

text \<open>The rounds that are left.\<close>

fun grow_loop :: "nat \<Rightarrow> (nat \<Rightarrow> bref option \<times> bool) \<Rightarrow> nat \<Rightarrow> 'a svc_part_scheme \<Rightarrow> int \<times> 'a svc_part_scheme" where
  "grow_loop 0 al i s = (0, s)"
| "grow_loop (Suc n) al i s =
     (if scp_nrqbds_posted s \<ge> srv_nbuf_per_group s then (0, s)
      else case ptlrpc_alloc_rqbd (fst (al i)) (snd (al i)) s of
             (None, s) \<Rightarrow> (- ENOMEM, s)
           | (Some b, s) \<Rightarrow> grow_loop n al (i + 1) s)"

definition ptlrpc_grow_req_bufs ::
  "(bref \<Rightarrow> int \<times> int) \<Rightarrow> (nat \<Rightarrow> bref option \<times> bool) \<Rightarrow> bool \<Rightarrow> 'a svc_part_scheme \<Rightarrow> (int \<times> 'a svc_part_scheme) outcome" where
  "ptlrpc_grow_req_bufs reg al post s =
     bindO (if scp_rqbd_allocating s \<noteq> 0 then Ret (0, s)
            else
              let s = s\<lparr>scp_rqbd_allocating := scp_rqbd_allocating s + 1\<rparr>
              in case grow_loop (nat (srv_nbuf_per_group s)) al 0 s of (rc, s) \<Rightarrow>
                   lassert (scp_rqbd_allocating s = 1) (Ret (rc, s\<lparr>scp_rqbd_allocating := scp_rqbd_allocating s - 1\<rparr>)))
       (\<lambda>(rc, s). if post \<and> rc = 0 then Ret (ptlrpc_server_post_idle_rqbds reg s) else Ret (rc, s))"

section \<open>The last reference\<close>

text \<open>A request that is not the one inside its buffer goes back to the cache.\<close>

definition ptlrpc_server_free_request :: "rref \<Rightarrow> 'a svc_part_scheme \<Rightarrow> 'a svc_part_scheme outcome" where
  "ptlrpc_server_free_request r s =
     lassert (rq_refcount (scp_req s r) = 0) (lassert (\<not> on_timed_list r s)
      (let s = upd_req r (\<lambda>q. q\<lparr>rq_prealloc := False\<rparr>) s
       in Ret (if r \<noteq> rqbd_req s (rq_rqbd (scp_req s r)) then s\<lparr>req_freed := r # req_freed s\<rparr> else s)))"

definition cull_seq :: "rref \<Rightarrow> 'a svc_part_scheme \<Rightarrow> 'a svc_part_scheme" where
  "cull_seq r s = (let q = rq_history_seq (scp_req s r) in if q > scp_hist_seq_culled s then s\<lparr>scp_hist_seq_culled := q\<rparr> else s)"

definition forget_req :: "rref \<Rightarrow> 'a svc_part_scheme \<Rightarrow> 'a svc_part_scheme" where
  "forget_req r s = (let s = cull_seq r s in s\<lparr>scp_hist_reqs := remove1 r (scp_hist_reqs s)\<rparr>)"

fun free_reqs :: "bref \<Rightarrow> rref list \<Rightarrow> 'a svc_part_scheme \<Rightarrow> 'a svc_part_scheme outcome" where
  "free_reqs b [] s = Ret s"
| "free_reqs b (r # rs) s = bindO (ptlrpc_server_free_request r (s\<lparr>rqbd_reqs := (rqbd_reqs s)(b := rs)\<rparr>)) (free_reqs b rs)"

definition cull_rqbd :: "bref \<Rightarrow> 'a svc_part_scheme \<Rightarrow> 'a svc_part_scheme outcome" where
  "cull_rqbd b s =
     bindO (free_reqs b (rqbd_reqs s b) (fold forget_req (rqbd_reqs s b) s)) (\<lambda>s.
       lassert (rq_refcount (scp_req s (rqbd_req s b)) = 0) (Ret (s\<lparr>scp_rqbd_idle := scp_rqbd_idle s @ [b]\<rparr>)))"

text \<open>The list is that of the buffers in the history.\<close>

fun cull_history :: "bref list \<Rightarrow> 'a svc_part_scheme \<Rightarrow> 'a svc_part_scheme outcome" where
  "cull_history [] s = (if scp_hist_nrqbds s > srv_hist_nrqbds_cpt_max s then Fault OVERRUN else Ret s)"
| "cull_history (b # bs) s =
     (if scp_hist_nrqbds s > srv_hist_nrqbds_cpt_max s
      then bindO (cull_rqbd b (s\<lparr>scp_hist_rqbds := bs, scp_hist_nrqbds := scp_hist_nrqbds s - 1\<rparr>)) (cull_history bs)
      else Ret s)"

text \<open>The buffer loses the reference of a request: the second half of \<open>ptlrpc_server_drop_request\<close>.\<close>

definition retire :: "rref \<Rightarrow> 'a svc_part_scheme \<Rightarrow> 'a svc_part_scheme outcome" where
  "retire r s =
     (let b = rq_rqbd (scp_req s r);
          s = s\<lparr>rqbd_reqs := (rqbd_reqs s)(b := r # rqbd_reqs s b), rqbd_refcount := (rqbd_refcount s)(b := rqbd_refcount s b - 1)\<rparr>
      in if rqbd_refcount s b = 0 then
           (let s = s\<lparr>scp_rqbd_posted := remove1 b (scp_rqbd_posted s), scp_hist_rqbds := scp_hist_rqbds s @ [b],
                      scp_hist_nrqbds := scp_hist_nrqbds s + 1\<rparr>
            in cull_history (scp_hist_rqbds s) s)
         else if rq_prealloc (scp_req s r) then
           (let s = s\<lparr>rqbd_reqs := (rqbd_reqs s)(b := remove1 r (rqbd_reqs s b)), scp_hist_reqs := remove1 r (scp_hist_reqs s)\<rparr>
            in ptlrpc_server_free_request r (cull_seq r s))
         else Ret s)"

definition put_export :: "rref \<Rightarrow> 'a svc_part_scheme \<Rightarrow> 'a svc_part_scheme" where
  "put_export r s = (case rq_export (scp_req s r) of None \<Rightarrow> s
     | Some x \<Rightarrow> upd_req r (\<lambda>q. q\<lparr>rq_export := None\<rparr>) (s\<lparr>exp_refcount := (exp_refcount s)(x := exp_refcount s x - 1)\<rparr>))"

definition ptlrpc_server_drop_request :: "rref \<Rightarrow> 'a svc_part_scheme \<Rightarrow> 'a svc_part_scheme outcome" where
  "ptlrpc_server_drop_request r s =
     (let s = upd_req r (\<lambda>q. q\<lparr>rq_refcount := rq_refcount q - 1\<rparr>) s in
      if rq_refcount (scp_req s r) \<noteq> 0 then Ret s
      else
        let s = upd_req r (\<lambda>q. q\<lparr>rq_in_session := False\<rparr>) s in
        bindO (if rq_at_linked (scp_req s r) then ptlrpc_at_remove_timed r s else Ret s) (\<lambda>s.
          lassert (\<not> on_timed_list r s) (retire r (put_export r s))))"

section \<open>Asking for more time\<close>

text \<open>
  What the code meets for one request: the clock, the failure point, whether the request is replayed
  in recovery, the time of recovery and the extra time, the new estimate from the old one and a
  measured time, memory for the copy and its message, the export of the handle and whether its device
  fails, and the results of packing and sending the reply.
\<close>

record early_env =
  ee_at :: at_env
  ee_no_early :: bool
  ee_replay :: bool
  ee_recovery_timeout :: int
  ee_at_extra :: int
  ee_measure :: "int \<Rightarrow> int \<Rightarrow> int"
  ee_copy :: bool
  ee_msg :: bool
  ee_conn :: "xref option"
  ee_obd_fail :: bool
  ee_pack_rc :: int
  ee_send_rc :: int

text \<open>The new deadline, and the estimate it is based on.\<close>

definition early_deadline :: "early_env \<Rightarrow> rref \<Rightarrow> 'a svc_part_scheme \<Rightarrow> int \<times> 'a svc_part_scheme" where
  "early_deadline ee r s =
     (let req = scp_req s r; now = at_now (ee_at ee) in
      if rq_export req \<noteq> None \<and> ee_replay ee
      then (now + min (ee_at_extra ee) (ee_recovery_timeout ee sdiv 4), s)
      else
        let s = s\<lparr>scp_at_estimate := ee_measure ee (scp_at_estimate s) (ee_at_extra ee + now - rq_arrival req)\<rparr>
        in (rq_arrival req + scp_at_estimate s, s))"

text \<open>Sending the copy of the request back: the references it takes on the export are given back.\<close>

definition send_early :: "early_env \<Rightarrow> int \<Rightarrow> rref \<Rightarrow> 'a svc_part_scheme \<Rightarrow> int \<times> 'a svc_part_scheme" where
  "send_early ee newdl r s =
     (case ee_conn ee of None \<Rightarrow> (- ENODEV, s)
      | Some x \<Rightarrow>
          let s = s\<lparr>exp_refcount := (exp_refcount s)(x := exp_refcount s x + 1), exp_rpc_count := (exp_rpc_count s)(x := exp_rpc_count s x + 1)\<rparr>;
              (rc, s) = (if ee_obd_fail ee then (- ENODEV, s)
                else if ee_pack_rc ee \<noteq> 0 then (ee_pack_rc ee, s)
                else (ee_send_rc ee, if ee_send_rc ee = 0 then upd_req r (\<lambda>q. q\<lparr>rq_deadline := newdl, rq_early_count := rq_early_count q + 1\<rparr>) s else s))
          in (rc, s\<lparr>exp_rpc_count := (exp_rpc_count s)(x := exp_rpc_count s x - 1), exp_refcount := (exp_refcount s)(x := exp_refcount s x - 1)\<rparr>))"

definition ptlrpc_at_send_early_reply :: "early_env \<Rightarrow> rref \<Rightarrow> 'a svc_part_scheme \<Rightarrow> (int \<times> 'a svc_part_scheme) outcome" where
  "ptlrpc_at_send_early_reply ee r s =
     (let req = scp_req s r; olddl = rq_deadline req - at_now (ee_at ee) in
      if ee_no_early ee then Ret (1, s)
      else if at_off (ee_at ee) then Ret (0, s)
      else if olddl < 0 then Ret (- ETIMEDOUT, s)
      else if \<not> rq_at_support req then Ret (- ENOSYS, s)
      else
        let (newdl, s) = early_deadline ee r s in
        if rq_deadline req \<ge> newdl then Ret (- ETIMEDOUT, s)
        else if \<not> ee_copy ee then Ret (- ENOMEM, s)
        else if \<not> ee_msg ee then Ret (- ENOMEM, s)
        else if rq_no_reply req then Ret (- ETIMEDOUT, s)
        else
          lassert (rq_refcount req \<noteq> 0)
           (if rq_refcount req = 1 then Ret (- EINVAL, s) else Ret (send_early ee newdl r s)))"

text \<open>The requests that were collected, in the order of the list.\<close>

fun early_work :: "(rref \<Rightarrow> early_env) \<Rightarrow> rref list \<Rightarrow> 'a svc_part_scheme \<Rightarrow> 'a svc_part_scheme outcome" where
  "early_work ees [] s = Ret s"
| "early_work ees (r # rs) s =
     bindO (ptlrpc_at_send_early_reply (ees r) r s) (\<lambda>(rc, s).
     bindO (if rc = 0 then bindO (ptlrpc_at_add_timed (ee_at (ees r)) r s) (\<lambda>(_, s). Ret s) else Ret s) (\<lambda>s.
     bindO (ptlrpc_server_drop_request r s) (early_work ees rs)))"

definition ptlrpc_at_check_timed ::
  "at_env \<Rightarrow> (rref \<Rightarrow> early_env) \<Rightarrow> 'a svc_part_scheme \<Rightarrow> (int \<times> 'a svc_part_scheme) outcome option" where
  "ptlrpc_at_check_timed te ees s =
     (case at_collect te s of
        None \<Rightarrow> None
      | Some (Fault f) \<Rightarrow> Some (Fault f)
      | Some (Ret (None, s)) \<Rightarrow> Some (Ret (0, s))
      | Some (Ret (Some co, s)) \<Rightarrow> Some (bindO (early_work ees (co_work co) s) (\<lambda>s. Ret (1, s))))"


section \<open>More time, or none\<close>

text \<open>The requests are those of \<open>s\<close>, but \<open>r\<close> may have been given more time; nothing else of the ring changed.\<close>

definition more_time :: "svc_req \<Rightarrow> svc_req \<Rightarrow> bool" where
  "more_time q q' \<longleftrightarrow> (\<exists>d > rq_deadline q. q' = q\<lparr>rq_deadline := d, rq_early_count := rq_early_count q + 1\<rparr>)"

definition same_ring :: "'a svc_part_scheme \<Rightarrow> 'a svc_part_scheme \<Rightarrow> bool" where
  "same_ring s t \<longleftrightarrow> paa_size t = paa_size s \<and> paa_reqs_array t = paa_reqs_array s \<and> paa_reqs_count t = paa_reqs_count s \<and>
     paa_count t = paa_count s \<and> paa_deadline t = paa_deadline s \<and> scp_at_check t = scp_at_check s \<and> scp_at_timer t = scp_at_timer s"

definition same_exports :: "'a svc_part_scheme \<Rightarrow> 'a svc_part_scheme \<Rightarrow> bool" where
  "same_exports s t \<longleftrightarrow> exp_refcount t = exp_refcount s \<and> exp_rpc_count t = exp_rpc_count s"

definition early_done :: "bool \<Rightarrow> rref \<Rightarrow> int \<Rightarrow> 'a svc_part_scheme \<Rightarrow> 'a svc_part_scheme \<Rightarrow> bool" where
  "early_done off r rc s t \<longleftrightarrow> same_ring s t \<and> same_exports s t \<and>
     (\<exists>q. scp_req t = (scp_req s)(r := q) \<and> (q = scp_req s r \<or> more_time (scp_req s r) q) \<and> (rc = 0 \<longrightarrow> off \<or> more_time (scp_req s r) q))"

lemma early_done_refl: "rc \<noteq> 0 \<or> off \<Longrightarrow> early_done off r rc s s"
  by (auto simp: early_done_def same_ring_def same_exports_def intro!: exI [of _ "scp_req s r"])

lemma early_done_measured:
  assumes "early_done off r rc (s\<lparr>scp_at_estimate := e\<rparr>) t"
  shows "early_done off r rc s t"
  using assms by (simp add: early_done_def same_ring_def same_exports_def)

lemma send_early_done:
  assumes "rq_deadline (scp_req s r) < newdl"
  shows "early_done off r (fst (send_early ee newdl r s)) s (snd (send_early ee newdl r s))"
proof (cases "ee_conn ee")
  case (Some x)
  have "more_time (scp_req s r) ((scp_req s r)\<lparr>rq_deadline := newdl, rq_early_count := rq_early_count (scp_req s r) + 1\<rparr>)"
    using assms by (auto simp: more_time_def)
  thus ?thesis
    using Some by (auto simp: send_early_def Let_def early_done_def same_ring_def same_exports_def upd_req_def
        intro: exI [of _ "scp_req s r"])
qed (simp add: send_early_def early_done_refl)

lemma early_reply_done:
  assumes "2 \<le> rq_refcount (scp_req s r)"
  shows "\<exists>rc t. ptlrpc_at_send_early_reply ee r s = Ret (rc, t) \<and> early_done (at_off (ee_at ee)) r rc s t"
proof -
  obtain newdl u where nd: "early_deadline ee r s = (newdl, u)"
    by fastforce
  hence u: "u = s \<or> (\<exists>e. u = s\<lparr>scp_at_estimate := e\<rparr>)"
    by (auto simp: early_deadline_def Let_def split: if_splits)
  hence ur: "scp_req u = scp_req s"
    by auto
  have lift: "early_done off r rc s t" if "early_done off r rc u t" for off rc t
    using u that early_done_measured by blast
  have sent: "early_done off r (fst (send_early ee newdl r u)) s (snd (send_early ee newdl r u))"
    if "rq_deadline (scp_req s r) < newdl" for off
    using that ur by (intro lift send_early_done) simp
  show ?thesis
    using assms lift [OF early_done_refl] sent early_done_refl [of _ _ r s]
    unfolding ptlrpc_at_send_early_reply_def Let_def nd
    by (cases "send_early ee newdl r u") (auto simp: not_le)
qed


text \<open>Nothing of the ring depends on the requests that are not on it, or on reference counts.\<close>

lemma same_ring_ok:
  assumes "same_ring s t" and "\<And>x. x \<in> at_reqs s \<Longrightarrow> scp_req t x = scp_req s x"
  shows "at_reqs t = at_reqs s" and "at_ok s \<Longrightarrow> at_ok t" and "timer_ok s \<Longrightarrow> timer_ok t"
proof -
  show reqs: "at_reqs t = at_reqs s"
    using assms(1) by (simp add: same_ring_def at_reqs_def)
  have "bucket_ok t i" if "bucket_ok s i" "i < length (paa_reqs_array s)" for i
  proof -
    have "scp_req t x = scp_req s x" if "x \<in> set (paa_reqs_array s ! i)" for x
      using assms(2) that \<open>i < _\<close> by (auto simp: at_reqs_iff)
    thus ?thesis
      using that(1) assms(1) by (simp add: bucket_ok_def same_ring_def bucket_of_def Let_def cong: map_cong)
  qed
  thus "at_ok s \<Longrightarrow> at_ok t"
    using assms reqs by (simp add: at_ok_def ring_ok_def same_ring_def)
  show "timer_ok s \<Longrightarrow> timer_ok t"
    using assms(1) by (simp add: timer_ok_def same_ring_def)
qed

lemma refcount_ring_ok:
  fixes s :: "'a svc_part_scheme"
  defines "t \<equiv> (\<lambda>r. upd_req r (\<lambda>q. q\<lparr>rq_refcount := rq_refcount q - 1\<rparr>) s)"
  shows "at_reqs (t r) = at_reqs s" and "at_ok s \<Longrightarrow> at_ok (t r)" and "timer_ok s \<Longrightarrow> timer_ok (t r)"
proof -
  show reqs: "at_reqs (t r) = at_reqs s"
    by (simp add: t_def upd_req_def at_reqs_def)
  have d: "deadline_of (t r) x = deadline_of s x" for x
    by (simp add: t_def upd_req_def)
  have "ring_ok (t r)" if "ring_ok s"
    by (rule ring_ok_same [OF that d]) (simp_all add: t_def upd_req_def)
  thus "at_ok s \<Longrightarrow> at_ok (t r)"
    using d by (simp add: at_ok_def reqs) (simp add: t_def upd_req_def)
  show "timer_ok s \<Longrightarrow> timer_ok (t r)"
    by (simp add: t_def upd_req_def timer_ok_def)
qed

lemma add_timed_frame:
  assumes "ptlrpc_at_add_timed te r s = Ret (rc, t)"
  shows "rq_refcount (scp_req t x) = rq_refcount (scp_req s x)" and "rq_deadline (scp_req t x) = rq_deadline (scp_req s x)"
    and "same_exports s t"
  using assms
  by (auto simp: ptlrpc_at_add_timed_def ptlrpc_at_set_timer_def ptlrpc_at_timer_def link_timed_def upd_req_def same_exports_def Let_def
      split: if_splits)

lemma drop_not_last:
  "rq_refcount (scp_req s r) \<noteq> 1 \<Longrightarrow> ptlrpc_server_drop_request r s = Ret (upd_req r (\<lambda>q. q\<lparr>rq_refcount := rq_refcount q - 1\<rparr>) s)"
  by (simp add: ptlrpc_server_drop_request_def upd_req_def)

definition step_ok :: "rref set \<Rightarrow> 'a svc_part_scheme \<Rightarrow> 'a svc_part_scheme \<Rightarrow> bool" where
  "step_ok W s t \<longleftrightarrow> at_ok t \<and> timer_ok t \<and> at_reqs s \<subseteq> at_reqs t \<and> at_reqs t \<subseteq> at_reqs s \<union> W \<and> same_exports s t \<and>
     (\<forall>x. rq_refcount (scp_req t x) = rq_refcount (scp_req s x) - (if x \<in> W then 1 else 0)) \<and>
     (\<forall>x. x \<notin> W \<longrightarrow> rq_deadline (scp_req t x) = rq_deadline (scp_req s x)) \<and>
     (\<forall>x \<in> at_reqs t \<inter> W. rq_deadline (scp_req t x) > rq_deadline (scp_req s x))"

lemma readd_ok:
  assumes ok: "at_ok s" "timer_ok s" and r: "r \<notin> at_reqs s" and room: "unat (paa_count s) + 1 < 2 ^ 32"
  shows "\<exists>rc t. ptlrpc_at_add_timed te r s = Ret (rc, t) \<and> at_ok t \<and> timer_ok t \<and>
    (at_reqs t = at_reqs s \<or> (\<not> at_off te \<and> at_reqs t = insert r (at_reqs s)))"
proof (cases "at_off te \<or> rq_no_reply (scp_req s r) \<or> \<not> rq_at_support (scp_req s r)")
  case True
  thus ?thesis
    using ok by (auto simp: ptlrpc_at_add_timed_def Let_def)
next
  case False
  thus ?thesis
    using at_add_timed_ok [OF ok r room, of te] by auto
qed

lemma early_step:
  assumes ok: "at_ok s" "timer_ok s" and r: "r \<notin> at_reqs s" "2 \<le> rq_refcount (scp_req s r)" and room: "unat (paa_count s) + 1 < 2 ^ 32"
  shows "\<exists>t. early_work ees (r # rs) s = early_work ees rs t \<and> step_ok {r} s t"
proof -
  let ?te = "ee_at (ees r)"
  obtain rc u where u: "ptlrpc_at_send_early_reply (ees r) r s = Ret (rc, u)" and d: "early_done (at_off ?te) r rc s u"
    using early_reply_done [OF r(2)] by blast
  obtain q where sr: "same_ring s u" and se: "same_exports s u" and q: "scp_req u = (scp_req s)(r := q)"
    "q = scp_req s r \<or> more_time (scp_req s r) q" "rc = 0 \<Longrightarrow> \<not> at_off ?te \<Longrightarrow> more_time (scp_req s r) q"
    using d by (auto simp: early_done_def)
  have off: "scp_req u x = scp_req s x" if "x \<in> at_reqs s" for x
    using r(1) q(1) that by auto
  have uok: "at_reqs u = at_reqs s" "at_ok u" "timer_ok u"
    using ok same_ring_ok [OF sr off] by simp_all
  have cnt: "unat (paa_count u) + 1 < 2 ^ 32"
    using room sr by (simp add: same_ring_def)
  have qr: "rq_refcount q = rq_refcount (scp_req s r)"
    using q(2) by (auto simp: more_time_def)
  obtain v where v: "(if rc = 0 then bindO (ptlrpc_at_add_timed ?te r u) (\<lambda>(_, s). Ret s) else Ret u) = Ret v"
    and vok: "at_ok v" "timer_ok v" "at_reqs v = at_reqs s \<or> (rc = 0 \<and> \<not> at_off ?te \<and> at_reqs v = insert r (at_reqs s))"
    and fr: "\<And>x. rq_refcount (scp_req v x) = rq_refcount (scp_req u x)" "\<And>x. rq_deadline (scp_req v x) = rq_deadline (scp_req u x)" "same_exports u v"
  proof (cases "rc = 0")
    case True
    obtain rc' v where a: "ptlrpc_at_add_timed ?te r u = Ret (rc', v)" and b: "at_ok v" "timer_ok v"
      "at_reqs v = at_reqs u \<or> (\<not> at_off ?te \<and> at_reqs v = insert r (at_reqs u))"
      using readd_ok [OF uok(2,3) _ cnt, of r ?te] r(1) uok(1) by auto
    show ?thesis
      using True a b uok(1) by (intro that [of v] add_timed_frame [OF a]) auto
  qed (use uok that [of u] in \<open>auto simp: same_exports_def\<close>)
  let ?t = "upd_req r (\<lambda>q. q\<lparr>rq_refcount := rq_refcount q - 1\<rparr>) v"
  have "rq_refcount (scp_req v r) \<noteq> 1"
    using fr(1) [of r] q(1) qr r(2) by simp
  hence "early_work ees (r # rs) s = early_work ees rs ?t"
    using u v by (simp add: drop_not_last)
  moreover have "step_ok {r} s ?t"
    unfolding step_ok_def
  proof (intro conjI)
    show "\<forall>x \<in> at_reqs ?t \<inter> {r}. rq_deadline (scp_req s x) < rq_deadline (scp_req ?t x)"
      using vok(3) r(1) q(1,3) fr(2) unfolding refcount_ring_ok(1) by (auto simp: upd_req_def more_time_def)
    show "\<forall>x. rq_refcount (scp_req ?t x) = rq_refcount (scp_req s x) - (if x \<in> {r} then 1 else 0)"
      using fr(1) q(1) qr by (simp add: upd_req_def)
    show "\<forall>x. x \<notin> {r} \<longrightarrow> rq_deadline (scp_req ?t x) = rq_deadline (scp_req s x)"
      using fr(2) q(1) by (simp add: upd_req_def)
    show "same_exports s ?t"
      using se fr(3) by (simp add: same_exports_def upd_req_def)
  qed (use vok in \<open>auto simp: refcount_ring_ok\<close>)
  ultimately show ?thesis
    by blast
qed


lemma step_ok_trans:
  assumes "step_ok {r} s u" and "step_ok W u t" and "r \<notin> W"
  shows "step_ok (insert r W) s t"
  unfolding step_ok_def
proof (intro conjI ballI allI impI)
  fix x
  assume x: "x \<in> at_reqs t \<inter> insert r W"
  show "rq_deadline (scp_req s x) < rq_deadline (scp_req t x)"
  proof (cases "x = r")
    case True
    hence "x \<in> at_reqs u" "rq_deadline (scp_req t x) = rq_deadline (scp_req u x)"
      using x assms(2,3) by (auto simp: step_ok_def)
    thus ?thesis
      using assms(1) True by (simp add: step_ok_def)
  next
    case False
    hence "rq_deadline (scp_req u x) < rq_deadline (scp_req t x)"
      using x assms(2) unfolding step_ok_def by blast
    moreover have "rq_deadline (scp_req u x) = rq_deadline (scp_req s x)"
      using False assms(1) by (simp add: step_ok_def)
    ultimately show ?thesis
      by simp
  qed
qed (use assms in \<open>auto simp: step_ok_def same_exports_def\<close>)

lemma count_is_card:
  assumes ok: "ring_ok s"
  shows "unat (paa_count s) = card (at_reqs s)"
proof -
  let ?a = "paa_reqs_array s"
  have a: "?a = map ((!) ?a) [0..<paa_size s]" and cnt: "unat (paa_count s) = sum_list (map length ?a)"
    using ok map_nth [of ?a] by (simp_all add: ring_ok_def)
  have "distinct (concat (map ((!) ?a) [0..<paa_size s]))"
    using ok bucket_index [OF ok]
    by (intro distinct_concat_indexed [where g = "\<lambda>r. rq_at_index (scp_req s r)"]) (auto simp: ring_ok_def bucket_ok_def Let_def)
  hence "distinct (concat ?a)"
    using a by simp
  thus ?thesis
    using distinct_card [of "concat ?a"] cnt by (simp add: at_reqs_def length_concat)
qed

lemma finite_at_reqs: "finite (at_reqs s)"
  by (simp add: at_reqs_def)

lemma early_work_ok:
  assumes "at_ok s" and "timer_ok s" and "distinct work" and "\<forall>r \<in> set work. r \<notin> at_reqs s \<and> 2 \<le> rq_refcount (scp_req s r)"
    and "card (at_reqs s) + length work < 2 ^ 32"
  shows "\<exists>t. early_work ees work s = Ret t \<and> step_ok (set work) s t"
  using assms
proof (induction work arbitrary: s)
  case Nil
  thus ?case
    by (simp add: step_ok_def same_exports_def)
next
  case (Cons r rs)
  have "unat (paa_count s) + 1 < 2 ^ 32"
    using Cons.prems(1,5) count_is_card [of s] by (simp add: at_ok_def)
  then obtain u where u: "early_work ees (r # rs) s = early_work ees rs u" "step_ok {r} s u"
    using early_step [OF Cons.prems(1,2), of r ees rs] Cons.prems(4) by auto
  have sub: "at_reqs u \<subseteq> insert r (at_reqs s)" and ref: "\<And>x. x \<noteq> r \<Longrightarrow> rq_refcount (scp_req u x) = rq_refcount (scp_req s x)"
    using u(2) by (auto simp: step_ok_def)
  have "card (at_reqs u) \<le> card (at_reqs s) + 1"
    using card_mono [OF _ sub] finite_at_reqs [of s] by (simp add: card_insert_if split: if_splits)
  hence "card (at_reqs u) + length rs < 2 ^ 32"
    using Cons.prems(5) by simp
  moreover have "x \<notin> at_reqs u \<and> 2 \<le> rq_refcount (scp_req u x)" if "x \<in> set rs" for x
  proof -
    have "x \<noteq> r"
      using that Cons.prems(3) by auto
    thus ?thesis
      using that Cons.prems(4) sub ref [of x] by auto
  qed
  ultimately obtain t where "early_work ees rs u = Ret t" "step_ok (set rs) u t"
    using Cons.IH [of u] u(2) Cons.prems(3) by (auto simp: step_ok_def)
  thus ?case
    using u step_ok_trans [OF u(2)] Cons.prems(3) by auto
qed

text \<open>The record fields added for the service are those of \<open>more\<close>.\<close>

lemma more_exports: "at_part.more t = at_part.more s \<Longrightarrow> same_exports s t"
  by (cases s; cases t) (simp add: same_exports_def)



text \<open>
  Three requests of buffer 0 wait in a ring of four; buffer 1 has one request, number 3, that does not
  wait any more; buffer 2 is in the history, which has room for one, with request 5.
\<close>

definition sample_svc :: svc_part where
  "sample_svc = \<lparr>paa_size = 4, paa_reqs_array = [[], [], [0, 2], [1]], paa_reqs_count = [0, 0, 2, 1], paa_count = 3,
     paa_deadline = 10, scp_at_check = True, scp_at_checktime = 0, scp_at_timer = None,
     scp_req = (\<lambda>r. if r = 0 then sample_req 10 2 else if r = 1 then sample_req 11 3 else if r = 2 then sample_req 30 2
       else if r = 3 then (sample_req 7 0)\<lparr>rq_rqbd := 1, rq_at_linked := False\<rparr>
       else (sample_req 5 0)\<lparr>rq_rqbd := 2, rq_at_linked := False, rq_refcount := 0\<rparr>),
     rqbd_refcount = (\<lambda>b. if b = 0 then 4 else if b = 1 then 1 else 0), rqbd_reqs = (\<lambda>b. if b = 2 then [5] else []), rqbd_req = (\<lambda>b. b + 10),
     scp_rqbd_idle = [], scp_rqbd_posted = [0, 1], scp_nrqbds_total = 3, scp_nrqbds_posted = 1, scp_rqbd_allocating = 0,
     scp_hist_rqbds = [2], scp_hist_nrqbds = 1, scp_hist_reqs = [5, 3, 0, 1, 2], scp_hist_seq_culled = 0, srv_hist_nrqbds_cpt_max = 1,
     srv_nbuf_per_group = 2, req_freed = [], exp_refcount = (\<lambda>_. 1), exp_rpc_count = (\<lambda>_. 0), scp_at_estimate = 10\<rparr>"

lemma sample_svc_reqs: "at_reqs sample_svc = {0, 1, 2}"
  by (auto simp: at_reqs_def sample_svc_def)

lemma sample_svc_ok: "at_ok sample_svc"
proof -
  have four: "(\<forall>i < 4. P i) \<longleftrightarrow> P 0 \<and> P 1 \<and> P 2 \<and> P (3 :: nat)" for P
    by (auto simp: eval_nat_numeral All_less_Suc)
  have "paa_size sample_svc = 4"
    by (simp add: sample_svc_def)
  thus ?thesis
    unfolding at_ok_def ring_ok_def by (simp add: four bucket_ok_def bucket_of_def at_reqs_def sample_svc_def sample_req_def)
qed

text \<open>Request 0 cannot be given more time; the others are not affected.\<close>

definition sample_early :: "rref \<Rightarrow> early_env" where
  "sample_early r = \<lparr>ee_at = sample_at_env, ee_no_early = False, ee_replay = False, ee_recovery_timeout = 100, ee_at_extra = 30,
     ee_measure = (\<lambda>_ d. d), ee_copy = True, ee_msg = r \<noteq> 0, ee_conn = Some 0, ee_obd_fail = False, ee_pack_rc = 0, ee_send_rc = 0\<rparr>"


end
