(* ===== verification/Svc_History.thy ===== *)
theory Svc_History
  imports Svc_Buffers "HOL-Library.Multiset" "HOL-Library.Sublist"
begin

text \<open>
  The history of requests is bounded and nothing is freed twice (\<open>ptlrpc_server_drop_request\<close> of
  \<open>service.c\<close>), and the pool of request buffers keeps its books.
\<close>

section \<open>The invariant\<close>

text \<open>
  A buffer is idle, posted or in the history. The requests kept with a buffer are unreferenced and
  do not wait for a deadline; an idle buffer has none. A freed request is on no buffer, is freed once
  and is not newer than the sequence number up to which the history was culled.
\<close>

definition kept_ok :: "'a svc_part_scheme \<Rightarrow> bool" where
  "kept_ok s \<longleftrightarrow> (\<forall>b. distinct (rqbd_reqs s b) \<and>
     (\<forall>r \<in> set (rqbd_reqs s b). rq_rqbd (scp_req s r) = b \<and> rq_refcount (scp_req s r) = 0 \<and> r \<notin> at_reqs s)) \<and>
     (\<forall>b \<in> set (scp_rqbd_idle s). rqbd_reqs s b = [])"

definition freed_ok :: "'a svc_part_scheme \<Rightarrow> bool" where
  "freed_ok s \<longleftrightarrow> distinct (req_freed s) \<and> (\<forall>r \<in> set (req_freed s). rq_history_seq (scp_req s r) \<le> scp_hist_seq_culled s \<and>
     r \<notin> set (rqbd_reqs s (rq_rqbd (scp_req s r))))"

definition hist_ok :: "'a svc_part_scheme \<Rightarrow> bool" where
  "hist_ok s \<longleftrightarrow> scp_hist_nrqbds s = int (length (scp_hist_rqbds s)) \<and> 0 \<le> srv_hist_nrqbds_cpt_max s \<and>
     distinct (scp_rqbd_idle s @ scp_rqbd_posted s @ scp_hist_rqbds s) \<and>
     (\<forall>b \<in> set (scp_hist_rqbds s). rqbd_refcount s b = 0 \<and> rq_refcount (scp_req s (rqbd_req s b)) = 0) \<and> kept_ok s \<and> freed_ok s"

definition buffers :: "'a svc_part_scheme \<Rightarrow> bref multiset" where
  "buffers s = mset (scp_rqbd_idle s) + mset (scp_rqbd_posted s) + mset (scp_hist_rqbds s)"

section \<open>Culling a buffer\<close>

lemma cull_seq_simps [simp]:
  "scp_req (cull_seq r s) = scp_req s" "rqbd_reqs (cull_seq r s) = rqbd_reqs s" "rqbd_refcount (cull_seq r s) = rqbd_refcount s"
  "rqbd_req (cull_seq r s) = rqbd_req s" "scp_rqbd_idle (cull_seq r s) = scp_rqbd_idle s" "scp_rqbd_posted (cull_seq r s) = scp_rqbd_posted s"
  "scp_hist_rqbds (cull_seq r s) = scp_hist_rqbds s" "scp_hist_nrqbds (cull_seq r s) = scp_hist_nrqbds s"
  "srv_hist_nrqbds_cpt_max (cull_seq r s) = srv_hist_nrqbds_cpt_max s" "req_freed (cull_seq r s) = req_freed s"
  "paa_reqs_array (cull_seq r s) = paa_reqs_array s"
  "scp_hist_seq_culled (cull_seq r s) = max (scp_hist_seq_culled s) (rq_history_seq (scp_req s r))"
  by (auto simp: cull_seq_def Let_def max_def)

lemma forget_req_simps [simp]:
  "scp_req (forget_req r s) = scp_req s" "rqbd_reqs (forget_req r s) = rqbd_reqs s" "rqbd_refcount (forget_req r s) = rqbd_refcount s"
  "rqbd_req (forget_req r s) = rqbd_req s" "scp_rqbd_idle (forget_req r s) = scp_rqbd_idle s" "scp_rqbd_posted (forget_req r s) = scp_rqbd_posted s"
  "scp_hist_rqbds (forget_req r s) = scp_hist_rqbds s" "scp_hist_nrqbds (forget_req r s) = scp_hist_nrqbds s"
  "srv_hist_nrqbds_cpt_max (forget_req r s) = srv_hist_nrqbds_cpt_max s" "req_freed (forget_req r s) = req_freed s"
  "paa_reqs_array (forget_req r s) = paa_reqs_array s"
  "scp_hist_seq_culled (forget_req r s) = max (scp_hist_seq_culled s) (rq_history_seq (scp_req s r))"
  by (simp_all add: forget_req_def Let_def)

lemma forget_reqs_simps [simp]:
  "scp_req (fold forget_req rs s) = scp_req s" "rqbd_reqs (fold forget_req rs s) = rqbd_reqs s" "rqbd_refcount (fold forget_req rs s) = rqbd_refcount s"
  "rqbd_req (fold forget_req rs s) = rqbd_req s" "scp_rqbd_idle (fold forget_req rs s) = scp_rqbd_idle s" "scp_rqbd_posted (fold forget_req rs s) = scp_rqbd_posted s"
  "scp_hist_rqbds (fold forget_req rs s) = scp_hist_rqbds s" "scp_hist_nrqbds (fold forget_req rs s) = scp_hist_nrqbds s"
  "srv_hist_nrqbds_cpt_max (fold forget_req rs s) = srv_hist_nrqbds_cpt_max s" "req_freed (fold forget_req rs s) = req_freed s"
  "paa_reqs_array (fold forget_req rs s) = paa_reqs_array s"
  by (induction rs arbitrary: s) simp_all

lemma forget_reqs_culled:
  "scp_hist_seq_culled s \<le> scp_hist_seq_culled (fold forget_req rs s) \<and>
    (\<forall>r \<in> set rs. rq_history_seq (scp_req s r) \<le> scp_hist_seq_culled (fold forget_req rs s))"
proof (induction rs arbitrary: s)
  case (Cons x xs)
  from Cons.IH [of "forget_req x s"] show ?case
    by simp
qed simp

text \<open>What freeing the requests of a buffer leaves.\<close>

definition same_but_freed :: "bref \<Rightarrow> rref list \<Rightarrow> 'a svc_part_scheme \<Rightarrow> 'a svc_part_scheme \<Rightarrow> bool" where
  "same_but_freed b rs s t \<longleftrightarrow> rqbd_refcount t = rqbd_refcount s \<and> rqbd_req t = rqbd_req s \<and>
     scp_rqbd_idle t = scp_rqbd_idle s \<and> scp_rqbd_posted t = scp_rqbd_posted s \<and> scp_hist_rqbds t = scp_hist_rqbds s \<and>
     scp_hist_nrqbds t = scp_hist_nrqbds s \<and> srv_hist_nrqbds_cpt_max t = srv_hist_nrqbds_cpt_max s \<and>
     scp_hist_seq_culled t = scp_hist_seq_culled s \<and> paa_reqs_array t = paa_reqs_array s \<and>
     (\<forall>r. rq_rqbd (scp_req t r) = rq_rqbd (scp_req s r) \<and> rq_refcount (scp_req t r) = rq_refcount (scp_req s r) \<and>
        rq_history_seq (scp_req t r) = rq_history_seq (scp_req s r)) \<and>
     req_freed t = rev (filter (\<lambda>r. r \<noteq> rqbd_req s b) rs) @ req_freed s"

lemma free_request_ok:
  assumes "rq_refcount (scp_req s r) = 0" and "r \<notin> at_reqs s" and "rq_rqbd (scp_req s r) = b"
  shows "\<exists>t. ptlrpc_server_free_request r s = Ret t \<and> same_but_freed b [r] s t \<and> rqbd_reqs t = rqbd_reqs s"
  using assms by (auto simp: ptlrpc_server_free_request_def on_timed_list_iff upd_req_def same_but_freed_def Let_def)

lemma free_reqs_ok:
  assumes "\<forall>r \<in> set rs. rq_refcount (scp_req s r) = 0 \<and> r \<notin> at_reqs s \<and> rq_rqbd (scp_req s r) = b" and "rqbd_reqs s b = rs"
  shows "\<exists>t. free_reqs b rs s = Ret t \<and> same_but_freed b rs s t \<and> rqbd_reqs t = (rqbd_reqs s)(b := [])"
  using assms
proof (induction rs arbitrary: s)
  case Nil
  thus ?case
    by (auto simp: same_but_freed_def)
next
  case (Cons r rs)
  let ?s = "s\<lparr>rqbd_reqs := (rqbd_reqs s)(b := rs)\<rparr>"
  obtain u where u: "ptlrpc_server_free_request r ?s = Ret u" "same_but_freed b [r] ?s u" "rqbd_reqs u = rqbd_reqs ?s"
    using free_request_ok [of ?s r b] Cons.prems(1) by (auto simp: at_reqs_def)
  have prem: "\<forall>x \<in> set rs. rq_refcount (scp_req u x) = 0 \<and> x \<notin> at_reqs u \<and> rq_rqbd (scp_req u x) = b"
    using Cons.prems(1) u(2) by (auto simp: same_but_freed_def at_reqs_def)
  have "rqbd_reqs u b = rs"
    using u(3) by simp
  from Cons.IH [OF prem this] obtain t where "free_reqs b rs u = Ret t" "same_but_freed b rs u t" "rqbd_reqs t = (rqbd_reqs u)(b := [])"
    by blast
  thus ?case
    using u by (auto simp: same_but_freed_def)
qed

lemma hist_ok_cull:
  assumes ok: "hist_ok s" and h: "scp_hist_rqbds s = b # bs"
  defines "s' \<equiv> s\<lparr>scp_hist_rqbds := bs, scp_hist_nrqbds := scp_hist_nrqbds s - 1\<rparr>"
  shows "\<exists>t. cull_rqbd b s' = Ret t \<and> hist_ok t \<and> scp_hist_rqbds t = bs \<and> buffers t = buffers s \<and> scp_rqbd_posted t = scp_rqbd_posted s \<and>
    scp_hist_nrqbds t = scp_hist_nrqbds s - 1 \<and> srv_hist_nrqbds_cpt_max t = srv_hist_nrqbds_cpt_max s"
proof -
  let ?u = "fold forget_req (rqbd_reqs s b) s'"
  have at: "at_reqs ?u = at_reqs s"
    by (simp add: at_reqs_def s'_def)
  have su: "scp_req ?u = scp_req s" "rqbd_reqs ?u = rqbd_reqs s" "rqbd_req ?u = rqbd_req s" "rqbd_refcount ?u = rqbd_refcount s" "req_freed ?u = req_freed s"
    "scp_rqbd_idle ?u = scp_rqbd_idle s" "scp_rqbd_posted ?u = scp_rqbd_posted s" "scp_hist_rqbds ?u = bs"
    by (simp_all add: s'_def)
  have kept: "kept_ok s" and freed: "freed_ok s"
    using ok by (simp_all add: hist_ok_def)
  obtain t where t: "free_reqs b (rqbd_reqs s b) ?u = Ret t" "same_but_freed b (rqbd_reqs s b) ?u t" "rqbd_reqs t = (rqbd_reqs s)(b := [])"
    using free_reqs_ok [of "rqbd_reqs s b" ?u b] kept at su by (auto simp: kept_ok_def)
  let ?t = "t\<lparr>scp_rqbd_idle := scp_rqbd_idle t @ [b]\<rparr>"
  have emb: "rq_refcount (scp_req t (rqbd_req t b)) = 0"
    using t(2) su ok h by (simp add: same_but_freed_def hist_ok_def)
  hence run: "cull_rqbd b s' = Ret ?t"
    using t(1) by (simp add: cull_rqbd_def s'_def)
  have at_t: "at_reqs ?t = at_reqs s"
    using t(2) at by (simp add: same_but_freed_def at_reqs_def)
  have "kept_ok ?t"
    using kept t(2,3) su at_t by (auto simp: kept_ok_def same_but_freed_def)
  moreover have "freed_ok ?t"
  proof -
    have r_of: "rq_rqbd (scp_req s r) = b" "r \<notin> set (req_freed s)" if "r \<in> set (rqbd_reqs s b)" for r
      using that kept freed by (auto simp: kept_ok_def freed_ok_def)
    have culled: "scp_hist_seq_culled s \<le> scp_hist_seq_culled ?u"
      "\<And>r. r \<in> set (rqbd_reqs s b) \<Longrightarrow> rq_history_seq (scp_req s r) \<le> scp_hist_seq_culled ?u"
      using forget_reqs_culled [where s = s' and rs = "rqbd_reqs s b"] by (auto simp: s'_def)
    have "distinct (rqbd_reqs s b)"
      using kept by (simp add: kept_ok_def)
    moreover have f: "req_freed ?t = rev (filter (\<lambda>r. r \<noteq> rqbd_req s b) (rqbd_reqs s b)) @ req_freed s" "scp_hist_seq_culled ?t = scp_hist_seq_culled ?u"
      and q: "\<And>r. rq_history_seq (scp_req ?t r) = rq_history_seq (scp_req s r)" "\<And>r. rq_rqbd (scp_req ?t r) = rq_rqbd (scp_req s r)"
      using t(2) su by (simp_all add: same_but_freed_def)
    ultimately show ?thesis
      using freed r_of culled t(3) order.trans [OF _ culled(1)] unfolding freed_ok_def f q by auto
  qed
  ultimately have "hist_ok ?t"
    using ok h t(2) su by (auto simp: hist_ok_def same_but_freed_def s'_def)
  moreover have "buffers ?t = buffers s"
    using t(2) su h by (simp add: buffers_def same_but_freed_def)
  ultimately show ?thesis
    using run t(2) by (auto simp: same_but_freed_def s'_def)
qed


section \<open>Culling the history\<close>

lemma cull_history_ok:
  assumes "hist_ok s" and "scp_hist_rqbds s = bs"
  shows "\<exists>t. cull_history bs s = Ret t \<and> hist_ok t \<and> buffers t = buffers s \<and> scp_rqbd_posted t = scp_rqbd_posted s \<and>
    scp_hist_nrqbds t = min (scp_hist_nrqbds s) (srv_hist_nrqbds_cpt_max s) \<and> srv_hist_nrqbds_cpt_max t = srv_hist_nrqbds_cpt_max s \<and>
    suffix (scp_hist_rqbds t) bs"
  using assms
proof (induction bs arbitrary: s)
  case Nil
  thus ?case
    by (simp add: hist_ok_def)
next
  case (Cons b bs)
  show ?case
  proof (cases "scp_hist_nrqbds s > srv_hist_nrqbds_cpt_max s")
    case True
    let ?s = "s\<lparr>scp_hist_rqbds := bs, scp_hist_nrqbds := scp_hist_nrqbds s - 1\<rparr>"
    obtain u where u: "cull_rqbd b ?s = Ret u" "hist_ok u" "scp_hist_rqbds u = bs" "buffers u = buffers s" "scp_rqbd_posted u = scp_rqbd_posted s"
      "scp_hist_nrqbds u = scp_hist_nrqbds s - 1" "srv_hist_nrqbds_cpt_max u = srv_hist_nrqbds_cpt_max s"
      using hist_ok_cull [OF Cons.prems] by blast
    from Cons.IH [OF u(2,3)] obtain t where t: "cull_history bs u = Ret t" "hist_ok t" "buffers t = buffers u" "scp_rqbd_posted t = scp_rqbd_posted u"
      "scp_hist_nrqbds t = min (scp_hist_nrqbds u) (srv_hist_nrqbds_cpt_max u)" "srv_hist_nrqbds_cpt_max t = srv_hist_nrqbds_cpt_max u"
      "suffix (scp_hist_rqbds t) bs"
      by blast
    have "min (scp_hist_nrqbds u) (srv_hist_nrqbds_cpt_max u) = min (scp_hist_nrqbds s) (srv_hist_nrqbds_cpt_max s)"
      using True u(6,7) by simp
    thus ?thesis
      using True u t by (auto intro: suffix_ConsI)
  next
    case False
    thus ?thesis
      using Cons.prems by (simp add: hist_ok_def)
  qed
qed

section \<open>Dropping a request\<close>

text \<open>
  What the caller of \<open>ptlrpc_server_drop_request\<close> guarantees for the last reference: the request
  belongs to a posted buffer that counts it, is not among the requests done with, is on the ring
  exactly when it is marked so, and when it is the last of its buffer no one holds the embedded request.
\<close>

definition last_ref :: "rref \<Rightarrow> 'a svc_part_scheme \<Rightarrow> bool" where
  "last_ref r s \<longleftrightarrow> (let b = rq_rqbd (scp_req s r) in
     rq_refcount (scp_req s r) = 1 \<and> b \<in> set (scp_rqbd_posted s) \<and> 0 < rqbd_refcount s b \<and>
     r \<notin> set (rqbd_reqs s b) \<and> r \<notin> set (req_freed s) \<and> (rq_at_linked (scp_req s r) \<longleftrightarrow> r \<in> at_reqs s) \<and>
     (rqbd_refcount s b = 1 \<longrightarrow> rqbd_req s b = r \<or> rq_refcount (scp_req s (rqbd_req s b)) = 0))"

text \<open>The state once the request is off the ring and its export is put.\<close>

definition put_done :: "rref \<Rightarrow> 'a svc_part_scheme \<Rightarrow> 'a svc_part_scheme \<Rightarrow> bool" where
  "put_done r s t \<longleftrightarrow> rqbd_refcount t = rqbd_refcount s \<and> rqbd_req t = rqbd_req s \<and> rqbd_reqs t = rqbd_reqs s \<and>
     scp_rqbd_idle t = scp_rqbd_idle s \<and> scp_rqbd_posted t = scp_rqbd_posted s \<and> scp_hist_rqbds t = scp_hist_rqbds s \<and>
     scp_hist_nrqbds t = scp_hist_nrqbds s \<and> srv_hist_nrqbds_cpt_max t = srv_hist_nrqbds_cpt_max s \<and>
     scp_hist_seq_culled t = scp_hist_seq_culled s \<and> req_freed t = req_freed s \<and> at_reqs t = at_reqs s - {r} \<and>
     (\<forall>x. rq_rqbd (scp_req t x) = rq_rqbd (scp_req s x) \<and> rq_history_seq (scp_req t x) = rq_history_seq (scp_req s x) \<and>
        rq_refcount (scp_req t x) = (if x = r then 0 else rq_refcount (scp_req s x)))"

lemma put_done_hist_ok:
  assumes ok: "hist_ok s" and d: "put_done r s t" and r: "last_ref r s"
  shows "hist_ok t"
proof -
  have "kept_ok t" "freed_ok t"
    using ok d by (auto simp: hist_ok_def kept_ok_def freed_ok_def put_done_def)
  thus ?thesis
    using ok d by (simp add: hist_ok_def put_done_def)
qed

lemma more_books:
  assumes "at_part.more t = at_part.more s"
  shows "rqbd_refcount t = rqbd_refcount s" "rqbd_req t = rqbd_req s" "rqbd_reqs t = rqbd_reqs s"
    "scp_rqbd_idle t = scp_rqbd_idle s" "scp_rqbd_posted t = scp_rqbd_posted s" "scp_hist_rqbds t = scp_hist_rqbds s"
    "scp_hist_nrqbds t = scp_hist_nrqbds s" "srv_hist_nrqbds_cpt_max t = srv_hist_nrqbds_cpt_max s"
    "scp_hist_seq_culled t = scp_hist_seq_culled s" "req_freed t = req_freed s"
  using assms by (cases s; cases t; simp)+

lemma put_export_done:
  assumes "at_part.more u = at_part.more s" and "at_reqs u = at_reqs s - {r}"
    and "\<And>x. rq_rqbd (scp_req u x) = rq_rqbd (scp_req s x)" and "\<And>x. rq_history_seq (scp_req u x) = rq_history_seq (scp_req s x)"
    and "\<And>x. rq_refcount (scp_req u x) = (if x = r then 0 else rq_refcount (scp_req s x))"
  shows "put_done r s (put_export r u)"
proof -
  have "at_reqs (put_export r u) = at_reqs u"
    by (simp add: put_export_def upd_req_def at_reqs_def split: option.split)
  thus ?thesis
    using assms(2-5) more_books [OF assms(1)] by (simp add: put_done_def put_export_def upd_req_def split: option.split)
qed

lemma drop_put_done:
  assumes ok: "at_ok s" and r: "last_ref r s"
  shows "\<exists>t. ptlrpc_server_drop_request r s = retire r t \<and> put_done r s t"
proof -
  let ?s = "upd_req r (\<lambda>q. q\<lparr>rq_in_session := False\<rparr>) (upd_req r (\<lambda>q. q\<lparr>rq_refcount := rq_refcount q - 1\<rparr>) s)"
  have one: "rq_refcount (scp_req s r) = 1" and link: "rq_at_linked (scp_req s r) \<longleftrightarrow> r \<in> at_reqs s"
    using r by (simp_all add: last_ref_def Let_def)
  have at: "at_reqs ?s = at_reqs s"
    by (simp add: at_reqs_def upd_req_def)
  have ring: "ring_ok ?s"
    using ok by (rule_tac ring_ok_same [of s]) (simp_all add: at_ok_def upd_req_def)
  have q: "scp_req ?s = (scp_req s)(r := (scp_req s r)\<lparr>rq_refcount := 0, rq_in_session := False\<rparr>)" "at_part.more ?s = at_part.more s"
    using one by (simp_all add: upd_req_def)
  obtain u where u: "(if rq_at_linked (scp_req ?s r) then ptlrpc_at_remove_timed r ?s else Ret ?s) = Ret u"
    and ur: "at_reqs u = at_reqs s - {r}" and frame: "put_done r s (put_export r u)"
  proof (cases "r \<in> at_reqs s")
    case True
    have rs: "r \<in> at_reqs ?s"
      using True at by simp
    obtain v where v: "ptlrpc_at_remove_timed r ?s = Ret v" "at_reqs v = at_reqs ?s - {r}"
      by (rule remove_timed_ring_ok [OF ring rs])
    from remove_timed_eq [OF ring rs refl] v(1)
    have "scp_req v = (scp_req ?s)(r := (scp_req ?s r)\<lparr>rq_at_linked := False\<rparr>)" "at_part.more v = at_part.more ?s"
      by (auto simp: with_bucket_def)
    hence "put_done r s (put_export r v)"
      using v(2) at unfolding q by (intro put_export_done) simp_all
    thus ?thesis
      using that [of v] v at link True q by simp
  next
    case False
    have "put_done r s (put_export r ?s)"
      using at False by (intro put_export_done) (simp_all add: q)
    thus ?thesis
      using that [of ?s] at link False q by simp
  qed
  have "\<not> on_timed_list r u"
    by (simp add: on_timed_list_iff ur)
  hence "ptlrpc_server_drop_request r s = retire r (put_export r u)"
    using one unfolding ptlrpc_server_drop_request_def Let_def u by (simp add: upd_req_def)
  thus ?thesis
    using frame by blast
qed


lemma keep_request:
  assumes kept: "kept_ok t" and freed: "freed_ok t" and b: "b \<notin> set (scp_rqbd_idle t)"
    and r: "r \<notin> set (rqbd_reqs t b)" "r \<notin> set (req_freed t)" "rq_rqbd (scp_req t r) = b" "rq_refcount (scp_req t r) = 0" "r \<notin> at_reqs t"
    and u: "rqbd_reqs u = (rqbd_reqs t)(b := r # rqbd_reqs t b)" "scp_req u = scp_req t" "at_reqs u = at_reqs t"
      "scp_rqbd_idle u = scp_rqbd_idle t" "req_freed u = req_freed t" "scp_hist_seq_culled u = scp_hist_seq_culled t"
  shows "kept_ok u" and "freed_ok u"
proof -
  show "kept_ok u"
    unfolding kept_ok_def u
  proof (intro conjI allI ballI)
    fix c
    show "distinct (((rqbd_reqs t)(b := r # rqbd_reqs t b)) c)"
      using kept r(1) by (simp add: kept_ok_def)
  next
    fix c x
    assume "x \<in> set (((rqbd_reqs t)(b := r # rqbd_reqs t b)) c)"
    hence "x = r \<and> c = b \<or> x \<in> set (rqbd_reqs t c)"
      by (auto split: if_splits)
    thus "rq_rqbd (scp_req t x) = c" and "rq_refcount (scp_req t x) = 0" and "x \<notin> at_reqs t"
      using kept r(3-5) unfolding kept_ok_def by blast+
  next
    fix c
    assume "c \<in> set (scp_rqbd_idle t)"
    thus "((rqbd_reqs t)(b := r # rqbd_reqs t b)) c = []"
      using kept b by (auto simp: kept_ok_def)
  qed
  have "x \<noteq> r" if "x \<in> set (req_freed t)" for x
    using that r(2) by auto
  thus "freed_ok u"
    using freed unfolding freed_ok_def u by (auto split: if_splits)
qed

lemma retire_to_history:
  assumes ok: "hist_ok s" and d: "put_done r s t" and r: "last_ref r s" and last: "rqbd_refcount s (rq_rqbd (scp_req s r)) = 1"
  shows "\<exists>v. retire r t = Ret v \<and> hist_ok v \<and> buffers v = buffers s \<and>
    scp_hist_nrqbds v = min (scp_hist_nrqbds s + 1) (srv_hist_nrqbds_cpt_max s)"
proof -
  define b where b_def: "b = rq_rqbd (scp_req s r)"
  let ?u = "t\<lparr>rqbd_reqs := (rqbd_reqs t)(b := r # rqbd_reqs t b), rqbd_refcount := (rqbd_refcount t)(b := 0),
    scp_rqbd_posted := remove1 b (scp_rqbd_posted t), scp_hist_rqbds := scp_hist_rqbds t @ [b], scp_hist_nrqbds := scp_hist_nrqbds t + 1\<rparr>"
  note tok = put_done_hist_ok [OF ok d r]
  have mem: "b \<in> set (scp_rqbd_posted t)" "b \<notin> set (scp_rqbd_idle t)" "b \<notin> set (scp_hist_rqbds t)" "distinct (scp_rqbd_posted t)"
    and new: "r \<notin> set (rqbd_reqs t b)" "r \<notin> set (req_freed t)" "rq_rqbd (scp_req t r) = b" "rq_refcount (scp_req t r) = 0" "r \<notin> at_reqs t"
    using ok d r unfolding b_def by (auto simp: hist_ok_def put_done_def last_ref_def Let_def)
  have emb: "rq_refcount (scp_req t (rqbd_req t b)) = 0"
    using d r last unfolding b_def by (auto simp: put_done_def last_ref_def Let_def)
  have "kept_ok t" "freed_ok t"
    using tok by (simp_all add: hist_ok_def)
  hence "kept_ok ?u" "freed_ok ?u"
    by (rule keep_request [OF _ _ mem(2) new]; simp add: at_reqs_def)+
  hence "hist_ok ?u"
    using tok mem emb by (auto simp: hist_ok_def distinct_remove1)
  from cull_history_ok [OF this refl] obtain v where v: "cull_history (scp_hist_rqbds ?u) ?u = Ret v" "hist_ok v" "buffers v = buffers ?u"
    "scp_hist_nrqbds v = min (scp_hist_nrqbds ?u) (srv_hist_nrqbds_cpt_max ?u)"
    by blast
  moreover have "retire r t = cull_history (scp_hist_rqbds ?u) ?u"
    using last d new(3) by (simp add: retire_def Let_def put_done_def b_def)
  moreover have "buffers ?u = buffers s"
    using mem(1) d by (simp add: buffers_def put_done_def)
  ultimately show ?thesis
    using d by (auto simp: put_done_def)
qed

lemma retire_and_keep:
  assumes ok: "hist_ok s" and d: "put_done r s t" and r: "last_ref r s" and more: "rqbd_refcount s (rq_rqbd (scp_req s r)) \<noteq> 1"
  shows "\<exists>v. retire r t = Ret v \<and> hist_ok v \<and> buffers v = buffers s \<and> scp_hist_nrqbds v = scp_hist_nrqbds s"
proof -
  define b where b_def: "b = rq_rqbd (scp_req s r)"
  let ?n = "rqbd_refcount t b - 1"
  note tok = put_done_hist_ok [OF ok d r]
  have mem: "b \<in> set (scp_rqbd_posted t)" "b \<notin> set (scp_rqbd_idle t)" "b \<notin> set (scp_hist_rqbds t)"
    and new: "r \<notin> set (rqbd_reqs t b)" "r \<notin> set (req_freed t)" "rq_rqbd (scp_req t r) = b" "rq_refcount (scp_req t r) = 0" "r \<notin> at_reqs t"
    and n: "?n \<noteq> 0"
    using ok d r more unfolding b_def by (auto simp: hist_ok_def put_done_def last_ref_def Let_def)
  have kept: "kept_ok t" and freed: "freed_ok t"
    using tok by (simp_all add: hist_ok_def)
  have bs: "buffers t = buffers s" "scp_hist_nrqbds t = scp_hist_nrqbds s"
    using d by (simp_all add: put_done_def buffers_def)
  show ?thesis
  proof (cases "rq_prealloc (scp_req t r)")
    case False
    let ?u = "t\<lparr>rqbd_reqs := (rqbd_reqs t)(b := r # rqbd_reqs t b), rqbd_refcount := (rqbd_refcount t)(b := ?n)\<rparr>"
    have "kept_ok ?u" "freed_ok ?u"
      by (rule keep_request [OF kept freed mem(2) new]; simp add: at_reqs_def)+
    hence "hist_ok ?u"
      using tok mem by (auto simp: hist_ok_def)
    moreover have "retire r t = Ret ?u"
      using False n new(3) by (simp add: retire_def Let_def)
    ultimately show ?thesis
      using bs by (simp add: buffers_def)
  next
    case True
    let ?u = "cull_seq r (t\<lparr>rqbd_reqs := (rqbd_reqs t)(b := rqbd_reqs t b), rqbd_refcount := (rqbd_refcount t)(b := ?n),
      scp_hist_reqs := remove1 r (scp_hist_reqs t)\<rparr>)"
    obtain v where v: "ptlrpc_server_free_request r ?u = Ret v" "same_but_freed b [r] ?u v" "rqbd_reqs v = rqbd_reqs ?u"
      using free_request_ok [of ?u r b] new by (auto simp: at_reqs_def)
    have "at_reqs v = at_reqs t"
      using v(2) by (simp add: same_but_freed_def at_reqs_def)
    hence "kept_ok v"
      using kept v by (auto simp: kept_ok_def same_but_freed_def)
    moreover have "freed_ok v"
      using freed v new unfolding freed_ok_def same_but_freed_def by (auto intro: max.coboundedI1)
    ultimately have "hist_ok v"
      using tok v mem by (auto simp: hist_ok_def same_but_freed_def)
    moreover have "retire r t = Ret v"
      using True n new(3) v(1) by (simp add: retire_def Let_def)
    moreover have "buffers v = buffers s" "scp_hist_nrqbds v = scp_hist_nrqbds s"
      using bs v(2) by (simp_all add: buffers_def same_but_freed_def)
    ultimately show ?thesis
      by blast
  qed
qed

text \<open>
  C39: Dropping the last reference of a request succeeds and keeps the books: every buffer stays in
  exactly one of the three lists, none is lost, no request is freed twice or while it waits for its
  deadline, and the history never grows beyond its limit; a buffer enters it when its last request is dropped.
\<close>

theorem drop_request_ok:
  assumes "at_ok s" and "hist_ok s" and "last_ref r s"
  shows "\<exists>t. ptlrpc_server_drop_request r s = Ret t \<and> hist_ok t \<and> buffers t = buffers s \<and>
    scp_hist_nrqbds t = (if rqbd_refcount s (rq_rqbd (scp_req s r)) = 1
      then min (scp_hist_nrqbds s + 1) (srv_hist_nrqbds_cpt_max s) else scp_hist_nrqbds s)"
proof -
  obtain t where t: "ptlrpc_server_drop_request r s = retire r t" "put_done r s t"
    using drop_put_done [OF assms(1,3)] by blast
  thus ?thesis
    using retire_to_history [OF assms(2) t(2) assms(3)] retire_and_keep [OF assms(2) t(2) assms(3)] by auto
qed


theorem drop_request_ok_witness:
  "\<exists>t. ptlrpc_server_drop_request 3 sample_svc = Ret t \<and> hist_ok t \<and> buffers t = {#0, 1, 2#} \<and> scp_hist_nrqbds t = 1"
proof -
  have "kept_ok sample_svc"
    unfolding kept_ok_def sample_svc_reqs by (simp add: sample_svc_def sample_req_def)
  hence "hist_ok sample_svc"
    by (simp add: hist_ok_def freed_ok_def sample_svc_def sample_req_def)
  moreover have "last_ref 3 sample_svc"
    unfolding last_ref_def Let_def sample_svc_reqs by (simp add: sample_svc_def sample_req_def)
  ultimately have "\<exists>t. ptlrpc_server_drop_request 3 sample_svc = Ret t \<and> hist_ok t \<and> buffers t = buffers sample_svc \<and>
    scp_hist_nrqbds t = (if rqbd_refcount sample_svc (rq_rqbd (scp_req sample_svc 3)) = 1
      then min (scp_hist_nrqbds sample_svc + 1) (srv_hist_nrqbds_cpt_max sample_svc) else scp_hist_nrqbds sample_svc)"
    by (rule drop_request_ok [OF sample_svc_ok])
  moreover have "buffers sample_svc = {#0, 1, 2#}"
    by (simp add: buffers_def sample_svc_def)
  ultimately show ?thesis
    by (auto simp: sample_svc_def sample_req_def)
qed


section \<open>The pool of buffers\<close>

text \<open>The counters agree with the lists, up to buffers the network has already unlinked.\<close>

lemma post_idle_books:
  assumes "scp_rqbd_idle s = bs" and "post_idle reg p bs s = (v, t)"
  shows "buffers t = buffers s" and "scp_nrqbds_posted t - int (length (scp_rqbd_posted t)) = scp_nrqbds_posted s - int (length (scp_rqbd_posted s))"
    and "scp_nrqbds_total t = scp_nrqbds_total s" and "v \<noteq> -1 \<Longrightarrow> scp_rqbd_idle t = []" and "scp_rqbd_allocating t = scp_rqbd_allocating s"
proof -
  have "buffers t = buffers s \<and> scp_nrqbds_posted t - int (length (scp_rqbd_posted t)) = scp_nrqbds_posted s - int (length (scp_rqbd_posted s)) \<and>
    scp_nrqbds_total t = scp_nrqbds_total s \<and> (v \<noteq> -1 \<longrightarrow> scp_rqbd_idle t = []) \<and> scp_rqbd_allocating t = scp_rqbd_allocating s"
    using assms
  proof (induction bs arbitrary: s p)
    case (Cons b bs)
    let ?s = "s\<lparr>scp_rqbd_idle := bs, scp_nrqbds_posted := scp_nrqbds_posted s + 1, scp_rqbd_posted := b # scp_rqbd_posted s,
      rqbd_refcount := (rqbd_refcount s)(b := snd (reg b))\<rparr>"
    show ?case
    proof (cases "fst (reg b) = 0")
      case True
      have "post_idle reg 1 bs ?s = (v, t)"
        using Cons.prems True by (simp add: Let_def)
      from Cons.IH [OF _ this] show ?thesis
        using Cons.prems(1) by (simp add: buffers_def)
    next
      case False
      thus ?thesis
        using Cons.prems by (auto simp: buffers_def Let_def)
    qed
  qed (auto simp: buffers_def)
  thus "buffers t = buffers s" and "scp_nrqbds_posted t - int (length (scp_rqbd_posted t)) = scp_nrqbds_posted s - int (length (scp_rqbd_posted s))"
    and "scp_nrqbds_total t = scp_nrqbds_total s" and "v \<noteq> -1 \<Longrightarrow> scp_rqbd_idle t = []" and "scp_rqbd_allocating t = scp_rqbd_allocating s"
    by auto
qed

lemma grow_loop_books:
  assumes "grow_loop n al i s = (rc, t)"
  shows "scp_nrqbds_total t - int (size (buffers t)) = scp_nrqbds_total s - int (size (buffers s)) \<and> scp_rqbd_allocating t = scp_rqbd_allocating s \<and>
    size (buffers s) \<le> size (buffers t) \<and> size (buffers t) \<le> size (buffers s) + n \<and>
    (scp_nrqbds_posted s \<ge> srv_nbuf_per_group s \<longrightarrow> t = s)"
  using assms
proof (induction n arbitrary: i s)
  case (Suc n)
  show ?case
  proof (cases "scp_nrqbds_posted s \<ge> srv_nbuf_per_group s")
    case False
    show ?thesis
    proof (cases "fst (al i) = None \<or> \<not> snd (al i)")
      case True
      thus ?thesis
        using Suc.prems False by (auto simp: ptlrpc_alloc_rqbd_def split: option.splits)
    next
      case ok: False
      then obtain b where b: "al i = (Some b, True)"
        by (cases "al i") auto
      from Suc.IH Suc.prems False b show ?thesis
        by (fastforce simp: ptlrpc_alloc_rqbd_def buffers_def)
    qed
  qed (use Suc.prems in auto)
qed simp

text \<open>
  Growing the pool returns, allocates nothing when enough buffers are posted, never more than a group,
  keeps the total in step with the lists and releases the right to allocate.
\<close>

theorem grow_req_bufs_ok:
  assumes "scp_rqbd_allocating s = 0"
  shows "\<exists>rc t. ptlrpc_grow_req_bufs reg al post s = Ret (rc, t) \<and> scp_rqbd_allocating t = 0 \<and>
    scp_nrqbds_total t - int (size (buffers t)) = scp_nrqbds_total s - int (size (buffers s)) \<and>
    size (buffers t) \<le> size (buffers s) + nat (srv_nbuf_per_group s) \<and>
    (scp_nrqbds_posted s \<ge> srv_nbuf_per_group s \<longrightarrow> buffers t = buffers s)"
proof -
  let ?s = "s\<lparr>scp_rqbd_allocating := 1\<rparr>"
  obtain rc u where u: "grow_loop (nat (srv_nbuf_per_group s)) al 0 ?s = (rc, u)"
    by fastforce
  let ?u = "u\<lparr>scp_rqbd_allocating := 0\<rparr>"
  have g: "scp_nrqbds_total u - int (size (buffers u)) = scp_nrqbds_total s - int (size (buffers s))" "scp_rqbd_allocating u = 1"
    "size (buffers u) \<le> size (buffers s) + nat (srv_nbuf_per_group s)" "scp_nrqbds_posted s \<ge> srv_nbuf_per_group s \<longrightarrow> u = ?s"
    using grow_loop_books [OF u] by (simp_all add: buffers_def)
  obtain v t where t: "ptlrpc_server_post_idle_rqbds reg ?u = (v, t)"
    by fastforce
  note p = post_idle_books [OF refl t [unfolded ptlrpc_server_post_idle_rqbds_def]]
  have run: "ptlrpc_grow_req_bufs reg al post s = (if post \<and> rc = 0 then Ret (v, t) else Ret (rc, ?u))"
    using assms u g(2) t by (simp add: ptlrpc_grow_req_bufs_def Let_def)
  have bu: "buffers ?u = buffers u" "scp_nrqbds_posted s \<ge> srv_nbuf_per_group s \<Longrightarrow> buffers u = buffers s"
    using g(4) by (auto simp: buffers_def)
  show ?thesis
    using run g p bu by (cases "post \<and> rc = 0") auto
qed

end
