(* ===== verification/Svc_Select.thy ===== *)
theory Svc_Select
  imports Svc_Buffers
begin

text \<open>
  Which request a service thread takes next (\<open>service.c\<close>): requests of high priority first, as long as
  they do not keep the others out, and normal requests only while a thread is left for those of high
  priority. The number of threads of a service.

  The NRS core (\<open>nrs.c\<close>) is not under \<open>src/\<close>: what the service calls of it is a record of functions on
  a state of its own, with the hypothesis \<open>nrs_laws\<close>.
\<close>

section \<open>State\<close>

record 'n svc_sched = svc_part +
  scp_nrs :: 'n
  scp_has_hp :: bool
  srv_hpreq_handler :: bool
  scp_nthrs_running :: int
  scp_nthrs_starting :: int
  srv_nthrs_cpt_limit :: int
  scp_nreqs_active :: int
  scp_nhreqs_active :: int
  scp_hreq_count :: int
  srv_hpreq_ratio :: int
  exp_reg_rpcs :: "xref \<Rightarrow> rref list"
  exp_hp_rpcs :: "xref \<Rightarrow> rref list"

text \<open>
  \<open>nrs_add\<close> also returns whether the request is of high priority afterwards, as it sets \<open>rq_hp\<close>.
\<close>

record 'n nrs_api =
  nrs_throttling :: "bool \<Rightarrow> 'n \<Rightarrow> bool"
  nrs_pending :: "bool \<Rightarrow> 'n \<Rightarrow> bool"
  nrs_get :: "bool \<Rightarrow> bool \<Rightarrow> 'n \<Rightarrow> rref option \<times> 'n"
  nrs_init :: "bool \<Rightarrow> rref \<Rightarrow> 'n \<Rightarrow> 'n"
  nrs_add :: "bool \<Rightarrow> rref \<Rightarrow> 'n \<Rightarrow> bool \<times> 'n"
  nrs_stop :: "rref \<Rightarrow> 'n \<Rightarrow> 'n"
  nrs_finalize :: "rref \<Rightarrow> 'n \<Rightarrow> 'n"

section \<open>Taking a request\<close>

text \<open>A failure point (\<open>pinch\<close>) pretends that there are as few threads as possible.\<close>

definition running_now :: "bool \<Rightarrow> ('n, 'a) svc_sched_scheme \<Rightarrow> int" where
  "running_now pinch s = (if pinch then 2 + (if srv_hpreq_handler s then 1 else 0) else scp_nthrs_running s)"

definition ptlrpc_server_allow_high :: "'n nrs_api \<Rightarrow> bool \<Rightarrow> bool \<Rightarrow> ('n, 'a) svc_sched_scheme \<Rightarrow> bool" where
  "ptlrpc_server_allow_high api pinch force s =
     (if \<not> scp_has_hp s then False
      else if force then True
      else if nrs_throttling api True (scp_nrs s) then False
      else if scp_nreqs_active s \<ge> running_now pinch s - 1 then False
      else if scp_nhreqs_active s = 0 then True
      else \<not> nrs_pending api False (scp_nrs s) \<or> scp_hreq_count s < srv_hpreq_ratio s)"

definition ptlrpc_server_high_pending :: "'n nrs_api \<Rightarrow> bool \<Rightarrow> bool \<Rightarrow> ('n, 'a) svc_sched_scheme \<Rightarrow> bool" where
  "ptlrpc_server_high_pending api pinch force s \<longleftrightarrow> ptlrpc_server_allow_high api pinch force s \<and> nrs_pending api True (scp_nrs s)"

definition ptlrpc_server_allow_normal :: "'n nrs_api \<Rightarrow> bool \<Rightarrow> bool \<Rightarrow> ('n, 'a) svc_sched_scheme \<Rightarrow> bool" where
  "ptlrpc_server_allow_normal api pinch force s =
     (if force then True
      else if nrs_throttling api False (scp_nrs s) then False
      else if scp_nreqs_active s < running_now pinch s - 2 then True
      else if scp_nreqs_active s \<ge> running_now pinch s - 1 then False
      else scp_nhreqs_active s > 0 \<or> \<not> scp_has_hp s)"

definition ptlrpc_server_normal_pending :: "'n nrs_api \<Rightarrow> bool \<Rightarrow> bool \<Rightarrow> ('n, 'a) svc_sched_scheme \<Rightarrow> bool" where
  "ptlrpc_server_normal_pending api pinch force s \<longleftrightarrow> ptlrpc_server_allow_normal api pinch force s \<and> nrs_pending api False (scp_nrs s)"

definition ptlrpc_server_request_pending :: "'n nrs_api \<Rightarrow> bool \<Rightarrow> bool \<Rightarrow> ('n, 'a) svc_sched_scheme \<Rightarrow> bool" where
  "ptlrpc_server_request_pending api pinch force s \<longleftrightarrow>
     ptlrpc_server_high_pending api pinch force s \<or> ptlrpc_server_normal_pending api pinch force s"

definition got_request :: "rref \<Rightarrow> ('n, 'a) svc_sched_scheme \<Rightarrow> ('n, 'a) svc_sched_scheme" where
  "got_request r s =
     (let s = s\<lparr>scp_nreqs_active := scp_nreqs_active s + 1\<rparr>;
          s = (if rq_hp (scp_req s r) then s\<lparr>scp_nhreqs_active := scp_nhreqs_active s + 1\<rparr> else s)
      in case rq_export (scp_req s r) of None \<Rightarrow> s | Some x \<Rightarrow> s\<lparr>exp_rpc_count := (exp_rpc_count s)(x := exp_rpc_count s x + 1)\<rparr>)"

definition get_normal :: "'n nrs_api \<Rightarrow> bool \<Rightarrow> bool \<Rightarrow> ('n, 'a) svc_sched_scheme \<Rightarrow> rref option \<times> ('n, 'a) svc_sched_scheme" where
  "get_normal api pinch force s =
     (if ptlrpc_server_normal_pending api pinch force s
      then case nrs_get api False force (scp_nrs s) of
             (None, n) \<Rightarrow> (None, s\<lparr>scp_nrs := n\<rparr>)
           | (Some r, n) \<Rightarrow> (Some r, got_request r (s\<lparr>scp_nrs := n, scp_hreq_count := 0\<rparr>))
      else (None, s))"

definition ptlrpc_server_request_get ::
  "'n nrs_api \<Rightarrow> bool \<Rightarrow> bool \<Rightarrow> ('n, 'a) svc_sched_scheme \<Rightarrow> rref option \<times> ('n, 'a) svc_sched_scheme" where
  "ptlrpc_server_request_get api pinch force s =
     (if ptlrpc_server_high_pending api pinch force s
      then case nrs_get api True force (scp_nrs s) of
             (None, n) \<Rightarrow> get_normal api pinch force (s\<lparr>scp_nrs := n\<rparr>)
           | (Some r, n) \<Rightarrow> (Some r, got_request r (s\<lparr>scp_nrs := n, scp_hreq_count := scp_hreq_count s + 1\<rparr>))
      else get_normal api pinch force s)"

section \<open>A request arrives\<close>

abbreviation (input) EBUSY :: int where "EBUSY \<equiv> 16"

text \<open>An earlier incarnation of a request that was sent again is still being handled.\<close>

definition ptlrpc_server_check_resend_in_progress :: "rref \<Rightarrow> xref \<Rightarrow> ('n, 'a) svc_sched_scheme \<Rightarrow> int" where
  "ptlrpc_server_check_resend_in_progress r x s =
     (let req = scp_req s r in
      if \<not> rq_resent req \<or> exp_rpc_count s x = 0 then 0
      else if rq_bulk req then 0
      else if list_ex (\<lambda>t. rq_xid (scp_req s t) = rq_xid req) (exp_reg_rpcs s x) then - EBUSY
      else if list_ex (\<lambda>t. rq_xid (scp_req s t) = rq_xid req) (exp_hp_rpcs s x) then - EBUSY
      else 0)"

text \<open>
  \<open>handler\<close> is the service's check for high priority, which may give the request operations, \<open>check\<close>
  the request's own; \<open>None\<close> where there is none.
\<close>

definition ptlrpc_server_hpreq_init ::
  "(svc_req \<Rightarrow> int \<times> bool) option \<Rightarrow> (svc_req \<Rightarrow> int) option \<Rightarrow> rref \<Rightarrow> ('n, 'a) svc_sched_scheme \<Rightarrow> (int \<times> ('n, 'a) svc_sched_scheme) outcome" where
  "ptlrpc_server_hpreq_init handler check r s =
     (let (rc, s) = (case handler of None \<Rightarrow> (0, s)
                     | Some h \<Rightarrow> (fst (h (scp_req s r)), upd_req r (\<lambda>q. q\<lparr>rq_ops := snd (h q)\<rparr>) s))
      in if rc < 0 then Ret (rc, s)
         else lassert (rc = 0)
          (case (rq_export (scp_req s r) \<noteq> None \<and> rq_ops (scp_req s r), check) of
             (True, Some c) \<Rightarrow> lassert (c (scp_req s r) \<le> 1) (Ret (c (scp_req s r), s))
           | _ \<Rightarrow> Ret (0, s)))"

text \<open>The handler most services use; \<open>opc\<close> is the operation code of the message.\<close>

abbreviation (input) OBD_PING :: int where "OBD_PING \<equiv> 400"
abbreviation (input) MDS_CONNECT :: int where "MDS_CONNECT \<equiv> 38"
abbreviation (input) OST_CONNECT :: int where "OST_CONNECT \<equiv> 8"

definition ptlrpc_hpreq_handler :: "int \<Rightarrow> svc_req \<Rightarrow> int \<times> bool" where
  "ptlrpc_hpreq_handler opc q =
     (0, if rq_export q \<noteq> None \<and> (opc = OBD_PING \<or> opc = MDS_CONNECT \<or> opc = OST_CONNECT) then True else rq_ops q)"

definition link_export :: "bool \<Rightarrow> rref \<Rightarrow> xref \<Rightarrow> ('n, 'a) svc_sched_scheme \<Rightarrow> ('n, 'a) svc_sched_scheme" where
  "link_export hp r x s =
     (if hp then s\<lparr>exp_hp_rpcs := (exp_hp_rpcs s)(x := r # exp_hp_rpcs s x)\<rparr> else s\<lparr>exp_reg_rpcs := (exp_reg_rpcs s)(x := r # exp_reg_rpcs s x)\<rparr>)"

definition unlink_export :: "rref \<Rightarrow> xref \<Rightarrow> ('n, 'a) svc_sched_scheme \<Rightarrow> ('n, 'a) svc_sched_scheme" where
  "unlink_export r x s =
     s\<lparr>exp_hp_rpcs := (exp_hp_rpcs s)(x := remove1 r (exp_hp_rpcs s x)), exp_reg_rpcs := (exp_reg_rpcs s)(x := remove1 r (exp_reg_rpcs s x))\<rparr>"

definition ptlrpc_server_request_add ::
  "'n nrs_api \<Rightarrow> (svc_req \<Rightarrow> int \<times> bool) option \<Rightarrow> (svc_req \<Rightarrow> int) option \<Rightarrow> rref \<Rightarrow> ('n, 'a) svc_sched_scheme \<Rightarrow> (int \<times> ('n, 'a) svc_sched_scheme) outcome" where
  "ptlrpc_server_request_add api handler check r s =
     bindO (ptlrpc_server_hpreq_init handler check r s) (\<lambda>(rc, s).
       if rc < 0 then Ret (rc, s)
       else
         let hp = rc > 0;
             s = s\<lparr>scp_nrs := nrs_init api hp r (scp_nrs s)\<rparr>;
             (rc, s) = (case rq_export (scp_req s r) of None \<Rightarrow> (0, s)
               | Some x \<Rightarrow>
                   let rc = ptlrpc_server_check_resend_in_progress r x s
                   in if rc < 0 then (rc, s\<lparr>scp_nrs := nrs_finalize api r (scp_nrs s)\<rparr>)
                      else (0, link_export (hp \<or> rq_ops (scp_req s r)) r x s))
         in if rc < 0 then Ret (rc, s)
            else
              let (f, n) = nrs_add api hp r (scp_nrs s)
              in Ret (0, upd_req r (\<lambda>q. q\<lparr>rq_hp := f\<rparr>) (s\<lparr>scp_nrs := n\<rparr>)))"

section \<open>A request is done\<close>

definition ptlrpc_server_hpreq_fini :: "rref \<Rightarrow> ('n, 'a) svc_sched_scheme \<Rightarrow> ('n, 'a) svc_sched_scheme" where
  "ptlrpc_server_hpreq_fini r s = (case rq_export (scp_req s r) of None \<Rightarrow> s | Some x \<Rightarrow> unlink_export r x s)"

definition ptlrpc_server_finish_request :: "rref \<Rightarrow> ('n, 'a) svc_sched_scheme \<Rightarrow> ('n, 'a) svc_sched_scheme outcome" where
  "ptlrpc_server_finish_request r s = ptlrpc_server_drop_request r (ptlrpc_server_hpreq_fini r s)"

definition ptlrpc_server_finish_active_request :: "'n nrs_api \<Rightarrow> rref \<Rightarrow> ('n, 'a) svc_sched_scheme \<Rightarrow> ('n, 'a) svc_sched_scheme outcome" where
  "ptlrpc_server_finish_active_request api r s =
     (let s = s\<lparr>scp_nrs := nrs_stop api r (scp_nrs s), scp_nreqs_active := scp_nreqs_active s - 1\<rparr>;
          s = (if rq_hp (scp_req s r) then s\<lparr>scp_nhreqs_active := scp_nhreqs_active s - 1\<rparr> else s);
          s = s\<lparr>scp_nrs := nrs_finalize api r (scp_nrs s)\<rparr>;
          s = (case rq_export (scp_req s r) of None \<Rightarrow> s | Some x \<Rightarrow> s\<lparr>exp_rpc_count := (exp_rpc_count s)(x := exp_rpc_count s x - 1)\<rparr>)
      in ptlrpc_server_finish_request r s)"

definition ptlrpc_request_change_export :: "rref \<Rightarrow> xref \<Rightarrow> ('n, 'a) svc_sched_scheme \<Rightarrow> ('n, 'a) svc_sched_scheme outcome" where
  "ptlrpc_request_change_export r y s =
     bindO (case rq_export (scp_req s r) of None \<Rightarrow> Ret s
            | Some x \<Rightarrow>
                lassert (r \<in> set (exp_hp_rpcs s x) \<or> r \<in> set (exp_reg_rpcs s x))
                 (let s = link_export (rq_ops (scp_req s r)) r y (unlink_export r x s);
                      s = s\<lparr>exp_rpc_count := (exp_rpc_count s)(x := exp_rpc_count s x - 1)\<rparr>
                  in Ret (s\<lparr>exp_refcount := (exp_refcount s)(x := exp_refcount s x - 1)\<rparr>)))
       (\<lambda>s. let s = upd_req r (\<lambda>q. q\<lparr>rq_export := Some y\<rparr>) (s\<lparr>exp_refcount := (exp_refcount s)(y := exp_refcount s y + 1)\<rparr>)
            in Ret (s\<lparr>exp_rpc_count := (exp_rpc_count s)(y := exp_rpc_count s y + 1)\<rparr>))"

section \<open>Threads\<close>

definition ptlrpc_threads_enough :: "('n, 'a) svc_sched_scheme \<Rightarrow> bool" where
  "ptlrpc_threads_enough s \<longleftrightarrow> scp_nreqs_active s < scp_nthrs_running s - 1 - (if srv_hpreq_handler s then 1 else 0)"

definition ptlrpc_threads_increasable :: "('n, 'a) svc_sched_scheme \<Rightarrow> bool" where
  "ptlrpc_threads_increasable s \<longleftrightarrow> scp_nthrs_running s + scp_nthrs_starting s < srv_nthrs_cpt_limit s"

definition ptlrpc_threads_need_create :: "('n, 'a) svc_sched_scheme \<Rightarrow> bool" where
  "ptlrpc_threads_need_create s \<longleftrightarrow> \<not> ptlrpc_threads_enough s \<and> ptlrpc_threads_increasable s"


section \<open>What is relied on and what stays\<close>

text \<open>
  Documented behaviour of the NRS core: it hands out only requests that were added and not handed out
  yet, from the queue it was asked about, and marks requests added with high priority.
\<close>

type_synonym 'n queues = "'n \<Rightarrow> bool \<Rightarrow> rref set"

definition nrs_laws :: "'n nrs_api \<Rightarrow> 'n queues \<Rightarrow> bool" where
  "nrs_laws api Q \<longleftrightarrow>
     (\<forall>hp force n r n'. nrs_get api hp force n = (Some r, n') \<longrightarrow> r \<in> Q n hp \<and> Q n' = (Q n)(hp := Q n hp - {r})) \<and>
     (\<forall>hp force n n'. nrs_get api hp force n = (None, n') \<longrightarrow> Q n' = Q n) \<and>
     (\<forall>hp r n f n'. nrs_add api hp r n = (f, n') \<longrightarrow> f = hp \<and> Q n' = (Q n)(hp := insert r (Q n hp))) \<and>
     (\<forall>hp r n. Q (nrs_init api hp r n) = Q n \<and> Q (nrs_stop api r n) = Q n \<and> Q (nrs_finalize api r n) = Q n)"

definition keeps :: "'a svc_part_scheme \<Rightarrow> 'a svc_part_scheme \<Rightarrow> bool" where
  "keeps s t \<longleftrightarrow> svc_part.more t = svc_part.more s \<and> (\<forall>r. rq_hp (scp_req t r) = rq_hp (scp_req s r))"

lemma keeps_refl [simp]: "keeps s s"
  by (simp add: keeps_def)

lemma keeps_trans: "keeps s t \<Longrightarrow> keeps t u \<Longrightarrow> keeps s u"
  by (simp add: keeps_def)

lemma free_request_keeps: "ptlrpc_server_free_request r s = Ret t \<Longrightarrow> keeps s t"
  by (auto simp: ptlrpc_server_free_request_def upd_req_def Let_def keeps_def split: if_splits)

lemma free_reqs_keeps: "free_reqs b rs s = Ret t \<Longrightarrow> keeps s t"
proof (induction rs arbitrary: s)
  case (Cons r rs)
  let ?s = "s\<lparr>rqbd_reqs := (rqbd_reqs s)(b := rs)\<rparr>"
  obtain u where "ptlrpc_server_free_request r ?s = Ret u" "free_reqs b rs u = Ret t"
    using Cons.prems by auto
  hence "keeps ?s t"
    using free_request_keeps Cons.IH keeps_trans by blast
  thus ?case
    by (simp add: keeps_def)
qed simp

lemma forget_keeps: "keeps s (fold forget_req rs s)"
proof (induction rs arbitrary: s)
  case (Cons r rs)
  have "keeps s (forget_req r s)"
    by (simp add: forget_req_def cull_seq_def Let_def keeps_def)
  thus ?case
    using Cons.IH keeps_trans by fastforce
qed simp

lemma cull_rqbd_keeps:
  assumes "cull_rqbd b s = Ret t"
  shows "keeps s t"
proof -
  obtain u where u: "free_reqs b (rqbd_reqs s b) (fold forget_req (rqbd_reqs s b) s) = Ret u" "t = u\<lparr>scp_rqbd_idle := scp_rqbd_idle u @ [b]\<rparr>"
    using assms by (auto simp: cull_rqbd_def)
  hence "keeps s u"
    using forget_keeps free_reqs_keeps keeps_trans by blast
  thus ?thesis
    using u(2) by (simp add: keeps_def)
qed

lemma cull_history_keeps: "cull_history bs s = Ret t \<Longrightarrow> keeps s t"
proof (induction bs arbitrary: s)
  case (Cons b bs)
  show ?case
  proof (cases "scp_hist_nrqbds s > srv_hist_nrqbds_cpt_max s")
    case True
    let ?s = "s\<lparr>scp_hist_rqbds := bs, scp_hist_nrqbds := scp_hist_nrqbds s - 1\<rparr>"
    obtain u where "cull_rqbd b ?s = Ret u" "cull_history bs u = Ret t"
      using Cons.prems True by auto
    hence "keeps ?s t"
      using cull_rqbd_keeps Cons.IH keeps_trans by blast
    thus ?thesis
      by (simp add: keeps_def)
  qed (use Cons.prems in simp)
qed (simp split: if_splits)

lemma retire_keeps: "retire r s = Ret t \<Longrightarrow> keeps s t"
  unfolding retire_def Let_def
  by (auto dest!: cull_history_keeps free_request_keeps simp: keeps_def cull_seq_def Let_def split: if_splits)

lemma drop_keeps: "ptlrpc_server_drop_request r s = Ret t \<Longrightarrow> keeps s t"
  unfolding ptlrpc_server_drop_request_def Let_def
  by (auto dest!: retire_keeps simp: keeps_def upd_req_def put_export_def ptlrpc_at_remove_timed_def Let_def split: if_splits option.splits)

section \<open>A thread is left\<close>

text \<open>
  \<open>A\<close> are the requests being served. Threads take requests, finish them, and add those that arrive, in any order.
\<close>

inductive svc_step :: "'n nrs_api \<Rightarrow> 'n queues \<Rightarrow> bool \<Rightarrow> rref set \<times> ('n, 'a) svc_sched_scheme \<Rightarrow> rref set \<times> ('n, 'a) svc_sched_scheme \<Rightarrow> bool"
  for api :: "'n nrs_api" and Q :: "'n queues" and pinch :: bool where
  take: "ptlrpc_server_request_get api pinch False s = (Some r, t) \<Longrightarrow> svc_step api Q pinch (A, s) (insert r A, t)"
| idle: "ptlrpc_server_request_get api pinch False s = (None, t) \<Longrightarrow> svc_step api Q pinch (A, s) (A, t)"
| arrive: "r \<notin> A \<Longrightarrow> r \<notin> Q (scp_nrs s) True \<Longrightarrow> r \<notin> Q (scp_nrs s) False \<Longrightarrow> ptlrpc_server_request_add api handler check r s = Ret (rc, t) \<Longrightarrow>
    svc_step api Q pinch (A, s) (A, t)"
| finish: "r \<in> A \<Longrightarrow> ptlrpc_server_finish_active_request api r s = Ret t \<Longrightarrow> svc_step api Q pinch (A, s) (A - {r}, t)"

inductive svc_reaches :: "'n nrs_api \<Rightarrow> 'n queues \<Rightarrow> bool \<Rightarrow> rref set \<times> ('n, 'a) svc_sched_scheme \<Rightarrow> rref set \<times> ('n, 'a) svc_sched_scheme \<Rightarrow> bool"
  for api :: "'n nrs_api" and Q :: "'n queues" and pinch :: bool and x :: "rref set \<times> ('n, 'a) svc_sched_scheme" where
  start: "svc_reaches api Q pinch x x"
| step: "svc_reaches api Q pinch x y \<Longrightarrow> svc_step api Q pinch y z \<Longrightarrow> svc_reaches api Q pinch x z"

inductive_cases svc_stepE: "svc_step api Q pinch (A, s) z"

text \<open>The counters count, queued requests carry the mark of their queue, and the reserve is there.\<close>

definition reserve :: "bool \<Rightarrow> ('n, 'a) svc_sched_scheme \<Rightarrow> bool" where
  "reserve pinch s \<longleftrightarrow> scp_nreqs_active s \<le> running_now pinch s - 1 \<and>
     (scp_has_hp s \<and> scp_nhreqs_active s = 0 \<longrightarrow> scp_nreqs_active s \<le> running_now pinch s - 2)"

definition hp_of :: "('n, 'a) svc_sched_scheme \<Rightarrow> rref set \<Rightarrow> rref set" where
  "hp_of s A = {r \<in> A. rq_hp (scp_req s r)}"

definition counts_ok :: "'n queues \<Rightarrow> rref set \<Rightarrow> ('n, 'a) svc_sched_scheme \<Rightarrow> bool" where
  "counts_ok Q A s \<longleftrightarrow> finite A \<and> scp_nreqs_active s = int (card A) \<and> scp_nhreqs_active s = int (card (hp_of s A)) \<and>
     (\<forall>hp. \<forall>r \<in> Q (scp_nrs s) hp. r \<notin> A \<and> rq_hp (scp_req s r) = hp)"

lemma got_request_simps [simp]:
  "scp_nrs (got_request r s) = scp_nrs s" "scp_has_hp (got_request r s) = scp_has_hp s" "srv_hpreq_handler (got_request r s) = srv_hpreq_handler s"
  "scp_nthrs_running (got_request r s) = scp_nthrs_running s" "scp_req (got_request r s) = scp_req s"
  "scp_nreqs_active (got_request r s) = scp_nreqs_active s + 1"
  "scp_nhreqs_active (got_request r s) = scp_nhreqs_active s + (if rq_hp (scp_req s r) then 1 else 0)"
  by (simp_all add: got_request_def Let_def split: option.split)

lemma hp_of_insert: "hp_of s (insert r A) = (if rq_hp (scp_req s r) then insert r (hp_of s A) else hp_of s A)"
  by (auto simp: hp_of_def)

lemma counts_ok_got:
  assumes ok: "counts_ok Q A s" and r: "r \<in> Q (scp_nrs s) hp" and n: "Q n = (Q (scp_nrs s))(hp := Q (scp_nrs s) hp - {r})"
  shows "counts_ok Q (insert r A) (got_request r (s\<lparr>scp_nrs := n, scp_hreq_count := c\<rparr>))"
proof -
  have new: "r \<notin> A" "rq_hp (scp_req s r) = hp"
    using ok r by (auto simp: counts_ok_def)
  have "hp_of (got_request r (s\<lparr>scp_nrs := n, scp_hreq_count := c\<rparr>)) (insert r A) = hp_of s (insert r A)"
    by (simp add: hp_of_def)
  moreover have "finite (hp_of s A)" "r \<notin> hp_of s A"
    using ok new by (auto simp: counts_ok_def hp_of_def)
  moreover have "x \<noteq> r" if "x \<in> Q n b" for x b
    using that ok new unfolding n by (auto simp: counts_ok_def split: if_splits)
  ultimately show ?thesis
    using ok new by (auto simp: counts_ok_def hp_of_insert n split: if_splits)
qed


definition svc_inv :: "'n queues \<Rightarrow> bool \<Rightarrow> int \<Rightarrow> bool \<Rightarrow> rref set \<times> ('n, 'a) svc_sched_scheme \<Rightarrow> bool" where
  "svc_inv Q pinch n hp x \<longleftrightarrow> counts_ok Q (fst x) (snd x) \<and> reserve pinch (snd x) \<and> running_now pinch (snd x) = n \<and> scp_has_hp (snd x) = hp"

lemma running_now_simps [simp]:
  "running_now pinch (s\<lparr>scp_nrs := n\<rparr>) = running_now pinch s"
  "running_now pinch (s\<lparr>scp_nrs := n, scp_hreq_count := c\<rparr>) = running_now pinch s"
  "running_now pinch (got_request r s) = running_now pinch s"
  by (simp_all add: running_now_def)

lemma counts_ok_nrs: "counts_ok Q A s \<Longrightarrow> Q n = Q (scp_nrs s) \<Longrightarrow> counts_ok Q A (s\<lparr>scp_nrs := n\<rparr>)"
  by (simp add: counts_ok_def hp_of_def)

lemma get_normal_inv:
  assumes laws: "nrs_laws api Q" and inv: "svc_inv Q pinch m hp (A, s)" and g: "get_normal api pinch False s = (ro, t)"
  shows "svc_inv Q pinch m hp (case ro of None \<Rightarrow> A | Some r \<Rightarrow> insert r A, t)"
proof (cases "ptlrpc_server_normal_pending api pinch False s")
  case True
  obtain q n where q: "nrs_get api False False (scp_nrs s) = (q, n)"
    by fastforce
  show ?thesis
  proof (cases q)
    case None
    hence "Q n = Q (scp_nrs s)"
      using laws q by (simp add: nrs_laws_def)
    thus ?thesis
      using g True q None inv by (auto simp: get_normal_def svc_inv_def counts_ok_nrs reserve_def)
  next
    case (Some r)
    have r: "r \<in> Q (scp_nrs s) False" "Q n = (Q (scp_nrs s))(False := Q (scp_nrs s) False - {r})"
      using laws q Some unfolding nrs_laws_def by blast+
    let ?t = "got_request r (s\<lparr>scp_nrs := n, scp_hreq_count := 0\<rparr>)"
    have t: "ro = Some r" "t = ?t"
      using g True q Some by (auto simp: get_normal_def)
    have hp: "\<not> rq_hp (scp_req s r)"
      using inv r(1) by (auto simp: svc_inv_def counts_ok_def)
    have nh: "0 \<le> scp_nhreqs_active s"
      using inv by (simp add: svc_inv_def counts_ok_def)
    have "counts_ok Q (insert r A) ?t"
      using inv r by (intro counts_ok_got) (auto simp: svc_inv_def)
    moreover have "reserve pinch ?t"
      using True inv hp nh by (auto simp: ptlrpc_server_normal_pending_def ptlrpc_server_allow_normal_def svc_inv_def reserve_def split: if_splits)
    ultimately show ?thesis
      using t inv by (simp add: svc_inv_def)
  qed
qed (use g inv in \<open>auto simp: get_normal_def\<close>)

lemma request_get_inv:
  assumes laws: "nrs_laws api Q" and inv: "svc_inv Q pinch m hp (A, s)" and g: "ptlrpc_server_request_get api pinch False s = (ro, t)"
  shows "svc_inv Q pinch m hp (case ro of None \<Rightarrow> A | Some r \<Rightarrow> insert r A, t)"
proof (cases "ptlrpc_server_high_pending api pinch False s")
  case True
  obtain q n where q: "nrs_get api True False (scp_nrs s) = (q, n)"
    by fastforce
  show ?thesis
  proof (cases q)
    case None
    hence "Q n = Q (scp_nrs s)"
      using laws q by (simp add: nrs_laws_def)
    hence "svc_inv Q pinch m hp (A, s\<lparr>scp_nrs := n\<rparr>)"
      using inv by (auto simp: svc_inv_def counts_ok_nrs reserve_def)
    thus ?thesis
      using g True q None by (intro get_normal_inv [OF laws]) (simp_all add: ptlrpc_server_request_get_def)
  next
    case (Some r)
    have r: "r \<in> Q (scp_nrs s) True" "Q n = (Q (scp_nrs s))(True := Q (scp_nrs s) True - {r})"
      using laws q Some unfolding nrs_laws_def by blast+
    let ?t = "got_request r (s\<lparr>scp_nrs := n, scp_hreq_count := scp_hreq_count s + 1\<rparr>)"
    have t: "ro = Some r" "t = ?t"
      using g True q Some by (auto simp: ptlrpc_server_request_get_def)
    have hp: "rq_hp (scp_req s r)"
      using inv r(1) by (auto simp: svc_inv_def counts_ok_def)
    have nh: "0 \<le> scp_nhreqs_active s"
      using inv by (simp add: svc_inv_def counts_ok_def)
    have "counts_ok Q (insert r A) ?t"
      using inv r by (intro counts_ok_got) (auto simp: svc_inv_def)
    moreover have "reserve pinch ?t"
      using True inv hp nh by (auto simp: ptlrpc_server_high_pending_def ptlrpc_server_allow_high_def svc_inv_def reserve_def split: if_splits)
    ultimately show ?thesis
      using t inv by (simp add: svc_inv_def)
  qed
next
  case False
  thus ?thesis
    using g by (intro get_normal_inv [OF laws inv]) (simp add: ptlrpc_server_request_get_def)
qed

text \<open>Finishing a request.\<close>

lemma more_sched:
  assumes "svc_part.more t = svc_part.more s"
  shows "scp_nrs t = scp_nrs s" "scp_has_hp t = scp_has_hp s" "srv_hpreq_handler t = srv_hpreq_handler s" "scp_nthrs_running t = scp_nthrs_running s"
    "scp_nreqs_active t = scp_nreqs_active s" "scp_nhreqs_active t = scp_nhreqs_active s"
  using assms by (cases s; cases t; simp)+

lemma keeps_counts:
  assumes "keeps s t"
  shows "counts_ok Q A t = counts_ok Q A s" and "reserve pinch t = reserve pinch s" and "running_now pinch t = running_now pinch s" and "scp_has_hp t = scp_has_hp s"
  using assms more_sched [of t s] by (simp_all add: keeps_def counts_ok_def hp_of_def reserve_def running_now_def)

definition released :: "'n nrs_api \<Rightarrow> rref \<Rightarrow> ('n, 'a) svc_sched_scheme \<Rightarrow> ('n, 'a) svc_sched_scheme" where
  "released api r s =
     (let s = s\<lparr>scp_nrs := nrs_stop api r (scp_nrs s), scp_nreqs_active := scp_nreqs_active s - 1\<rparr>;
          s = (if rq_hp (scp_req s r) then s\<lparr>scp_nhreqs_active := scp_nhreqs_active s - 1\<rparr> else s);
          s = s\<lparr>scp_nrs := nrs_finalize api r (scp_nrs s)\<rparr>;
          s = (case rq_export (scp_req s r) of None \<Rightarrow> s | Some x \<Rightarrow> s\<lparr>exp_rpc_count := (exp_rpc_count s)(x := exp_rpc_count s x - 1)\<rparr>)
      in ptlrpc_server_hpreq_fini r s)"

lemma released_simps [simp]:
  "scp_nrs (released api r s) = nrs_finalize api r (nrs_stop api r (scp_nrs s))" "scp_has_hp (released api r s) = scp_has_hp s"
  "srv_hpreq_handler (released api r s) = srv_hpreq_handler s" "scp_nthrs_running (released api r s) = scp_nthrs_running s"
  "scp_req (released api r s) = scp_req s" "scp_nreqs_active (released api r s) = scp_nreqs_active s - 1"
  "scp_nhreqs_active (released api r s) = scp_nhreqs_active s - (if rq_hp (scp_req s r) then 1 else 0)"
  by (simp_all add: released_def Let_def ptlrpc_server_hpreq_fini_def unlink_export_def split: option.split)

lemma int_card_remove: "finite B \<Longrightarrow> int (card (B - {r})) = int (card B) - (if r \<in> B then 1 else 0)"
  using card_Suc_Diff1 [of B r] by (cases "r \<in> B") auto

lemma finish_inv:
  assumes laws: "nrs_laws api Q" and inv: "svc_inv Q pinch m hp (A, s)" and r: "r \<in> A" and f: "ptlrpc_server_finish_active_request api r s = Ret t"
  shows "svc_inv Q pinch m hp (A - {r}, t)"
proof -
  let ?u = "released api r s"
  have k: "keeps ?u t"
    using f by (intro drop_keeps [of r]) (simp add: ptlrpc_server_finish_active_request_def ptlrpc_server_finish_request_def released_def Let_def)
  have q: "Q (scp_nrs ?u) = Q (scp_nrs s)"
    using laws by (simp add: nrs_laws_def)
  have A: "finite A"
    using inv by (simp add: svc_inv_def counts_ok_def)
  hence h: "hp_of ?u (A - {r}) = hp_of s A - {r}" "finite (hp_of s A)" "r \<in> hp_of s A \<longleftrightarrow> rq_hp (scp_req s r)"
    using r by (auto simp: hp_of_def)
  have c: "counts_ok Q (A - {r}) ?u"
    using inv A r h int_card_remove [OF A, of r] int_card_remove [OF h(2), of r] unfolding svc_inv_def counts_ok_def q h(1) by simp
  moreover have "running_now pinch ?u = running_now pinch s"
    by (simp add: running_now_def)
  moreover from this have "reserve pinch ?u"
    using inv r A by (auto simp: svc_inv_def reserve_def counts_ok_def)
  ultimately show ?thesis
    using inv keeps_counts [OF k] by (simp add: svc_inv_def)
qed


text \<open>Adding a request changes no other request and none of the counters.\<close>

definition arrived :: "'n queues \<Rightarrow> rref \<Rightarrow> ('n, 'a) svc_sched_scheme \<Rightarrow> ('n, 'a) svc_sched_scheme \<Rightarrow> bool" where
  "arrived Q r s t \<longleftrightarrow> (\<forall>x. x \<noteq> r \<longrightarrow> scp_req t x = scp_req s x) \<and> scp_has_hp t = scp_has_hp s \<and> srv_hpreq_handler t = srv_hpreq_handler s \<and>
     scp_nthrs_running t = scp_nthrs_running s \<and> scp_nreqs_active t = scp_nreqs_active s \<and> scp_nhreqs_active t = scp_nhreqs_active s \<and>
     (Q (scp_nrs t) = Q (scp_nrs s) \<or> (\<exists>hp. Q (scp_nrs t) = (Q (scp_nrs s))(hp := insert r (Q (scp_nrs s) hp)) \<and> rq_hp (scp_req t r) = hp))"

lemma hpreq_init_arrived: "ptlrpc_server_hpreq_init handler check r s = Ret (rc, t) \<Longrightarrow> arrived Q r s t \<and> Q (scp_nrs t) = Q (scp_nrs s)"
  by (auto simp: ptlrpc_server_hpreq_init_def arrived_def upd_req_def Let_def split: if_splits option.splits bool.splits)

lemma link_export_simps [simp]:
  "scp_nrs (link_export b r x s) = scp_nrs s" "scp_req (link_export b r x s) = scp_req s" "scp_has_hp (link_export b r x s) = scp_has_hp s"
  "srv_hpreq_handler (link_export b r x s) = srv_hpreq_handler s" "scp_nthrs_running (link_export b r x s) = scp_nthrs_running s"
  "scp_nreqs_active (link_export b r x s) = scp_nreqs_active s" "scp_nhreqs_active (link_export b r x s) = scp_nhreqs_active s"
  by (simp_all add: link_export_def)

lemma request_add_arrived:
  assumes laws: "nrs_laws api Q" and a: "ptlrpc_server_request_add api handler check r s = Ret (rc, t)"
  shows "arrived Q r s t"
proof -
  obtain c u where u: "ptlrpc_server_hpreq_init handler check r s = Ret (c, u)"
    using a by (cases "ptlrpc_server_hpreq_init handler check r s") (auto simp: ptlrpc_server_request_add_def)
  have au: "arrived Q r s u" "Q (scp_nrs u) = Q (scp_nrs s)"
    using hpreq_init_arrived [OF u] by blast+
  have q: "Q (nrs_init api hp r n) = Q n" "Q (nrs_finalize api r n) = Q n" for hp n
    using laws by (simp_all add: nrs_laws_def)
  have add: "fst (nrs_add api hp r n) = hp" "Q (snd (nrs_add api hp r n)) = (Q n)(hp := insert r (Q n hp))" for hp n
    using laws unfolding nrs_laws_def by (metis prod.collapse)+
  show ?thesis
    using a au unfolding ptlrpc_server_request_add_def u
    by (auto simp: arrived_def upd_req_def Let_def case_prod_beta q add split: if_splits option.splits)
qed

lemma arrive_inv:
  assumes inv: "svc_inv Q pinch m hp (A, s)" and r: "r \<notin> A" "r \<notin> Q (scp_nrs s) True" "r \<notin> Q (scp_nrs s) False" and a: "arrived Q r s t"
  shows "svc_inv Q pinch m hp (A, t)"
proof -
  have nq: "r \<notin> Q (scp_nrs s) b" for b
    using r(2,3) by (cases b) auto
  have h: "hp_of t A = hp_of s A"
    using a r(1) by (auto simp: hp_of_def arrived_def)
  have "x \<notin> A \<and> rq_hp (scp_req t x) = b" if "x \<in> Q (scp_nrs t) b" for x b
  proof (cases "x = r")
    case True
    thus ?thesis
      using that a r(1) nq by (auto simp: arrived_def split: if_splits)
  next
    case False
    hence "x \<in> Q (scp_nrs s) b" "scp_req t x = scp_req s x"
      using that a by (auto simp: arrived_def split: if_splits)
    thus ?thesis
      using inv by (simp add: svc_inv_def counts_ok_def)
  qed
  moreover have "running_now pinch t = running_now pinch s"
    using a by (simp add: arrived_def running_now_def)
  moreover have "scp_nreqs_active t = scp_nreqs_active s" "scp_nhreqs_active t = scp_nhreqs_active s" "scp_has_hp t = scp_has_hp s"
    using a by (simp_all add: arrived_def)
  moreover have "counts_ok Q A s" "reserve pinch s"
    using inv by (simp_all add: svc_inv_def)
  ultimately have "counts_ok Q A t" "reserve pinch t"
    using h by (simp_all add: counts_ok_def reserve_def)
  thus ?thesis
    using inv \<open>running_now pinch t = _\<close> \<open>scp_has_hp t = _\<close> by (simp add: svc_inv_def)
qed

lemma svc_step_inv:
  assumes laws: "nrs_laws api Q" and "svc_step api Q pinch x y" and "svc_inv Q pinch m hp x"
  shows "svc_inv Q pinch m hp y"
  using assms(2,3)
proof cases
  case (take s r t A)
  thus ?thesis
    using request_get_inv [OF laws, of pinch m hp A s "Some r" t] assms(3) by simp
next
  case (idle s t A)
  thus ?thesis
    using request_get_inv [OF laws, of pinch m hp A s None t] assms(3) by simp
next
  case (arrive r A s handler check rc t)
  thus ?thesis
    using arrive_inv request_add_arrived [OF laws] assms(3) by blast
next
  case (finish r A s t)
  thus ?thesis
    using finish_inv [OF laws] assms(3) by blast
qed

lemma svc_reaches_inv:
  assumes "svc_reaches api Q pinch x y" and "nrs_laws api Q" and "svc_inv Q pinch m hp x"
  shows "svc_inv Q pinch m hp y"
  using assms(1,3) by (induction rule: svc_reaches.induct) (auto intro: svc_step_inv [OF assms(2)])

text \<open>
  C12: However service threads take, finish and receive requests, they never serve more than all but one
  of them can: one thread is always left, and on a service with a queue of high priority a second
  one as long as no request of high priority is being served. The counters are exact.
\<close>

theorem threads_in_reserve:
  assumes "nrs_laws api Q" and "svc_reaches api Q pinch ({}, s) (A, t)" and "2 \<le> running_now pinch s"
    and "scp_nreqs_active s = 0" and "scp_nhreqs_active s = 0" and "\<forall>hp. \<forall>r \<in> Q (scp_nrs s) hp. rq_hp (scp_req s r) = hp"
  shows "scp_nreqs_active t = int (card A) \<and> scp_nhreqs_active t = int (card {r \<in> A. rq_hp (scp_req t r)}) \<and>
    card A \<le> nat (running_now pinch s) - 1 \<and>
    (scp_has_hp s \<and> {r \<in> A. rq_hp (scp_req t r)} = {} \<longrightarrow> card A \<le> nat (running_now pinch s) - 2)"
proof -
  have "svc_inv Q pinch (running_now pinch s) (scp_has_hp s) ({}, s)"
    using assms(3-6) by (simp add: svc_inv_def counts_ok_def hp_of_def reserve_def)
  from svc_reaches_inv [OF assms(2,1) this]
  have inv: "counts_ok Q A t" "reserve pinch t" "running_now pinch t = running_now pinch s" "scp_has_hp t = scp_has_hp s"
    by (simp_all add: svc_inv_def)
  thus ?thesis
    by (auto simp: counts_ok_def reserve_def hp_of_def)
qed


text \<open>A queue of either kind, first in first out, and a service of three threads with three requests queued.\<close>

definition fifo_api :: "(bool \<Rightarrow> rref list) nrs_api" where
  "fifo_api = \<lparr>nrs_throttling = (\<lambda>_ _. False), nrs_pending = (\<lambda>hp n. n hp \<noteq> []),
     nrs_get = (\<lambda>hp _ n. case n hp of [] \<Rightarrow> (None, n) | r # rs \<Rightarrow> (Some r, n(hp := filter (\<lambda>x. x \<noteq> r) rs))),
     nrs_init = (\<lambda>_ _ n. n), nrs_add = (\<lambda>hp r n. (hp, n(hp := n hp @ [r]))), nrs_stop = (\<lambda>_ n. n), nrs_finalize = (\<lambda>_ n. n)\<rparr>"

definition fifo_queues :: "(bool \<Rightarrow> rref list) queues" where
  "fifo_queues n hp = set (n hp)"

lemma fifo_laws: "nrs_laws fifo_api fifo_queues"
proof -
  have q: "fifo_queues (n(hp := xs)) = (fifo_queues n)(hp := set xs)" for n hp xs
    by (auto simp: fifo_queues_def fun_eq_iff)
  have m: "fifo_queues n hp = set (n hp)" for n hp
    by (simp add: fifo_queues_def)
  have "r \<in> fifo_queues n hp \<and> fifo_queues n' = (fifo_queues n)(hp := fifo_queues n hp - {r})"
    if "nrs_get fifo_api hp force n = (Some r, n')" for hp force n r n'
    using that by (cases "n hp") (auto simp: fifo_api_def q m intro!: arg_cong [where f = "\<lambda>S. (fifo_queues n)(hp := S)"])
  moreover have "fifo_queues n' = fifo_queues n" if "nrs_get fifo_api hp force n = (None, n')" for hp force n n'
    using that by (cases "n hp") (auto simp: fifo_api_def)
  moreover have "f = hp \<and> fifo_queues n' = (fifo_queues n)(hp := insert r (fifo_queues n hp))" if "nrs_add fifo_api hp r n = (f, n')" for hp r n f n'
    using that by (auto simp: fifo_api_def q m)
  moreover have "fifo_queues (nrs_init fifo_api hp r n) = fifo_queues n \<and> fifo_queues (nrs_stop fifo_api r n) = fifo_queues n \<and>
    fifo_queues (nrs_finalize fifo_api r n) = fifo_queues n" for hp r n
    by (simp add: fifo_api_def)
  ultimately show ?thesis
    unfolding nrs_laws_def by blast
qed

definition sample_sched :: "(bool \<Rightarrow> rref list) svc_sched" where
  "sample_sched = svc_part.extend sample_svc (svc_sched.fields (\<lambda>hp. if hp then [] else [0, 1, 2]) True True 3 0 8 0 0 0 1 (\<lambda>_. []) (\<lambda>_. []))"

lemma sample_sched_simps:
  "scp_req sample_sched = scp_req sample_svc" "scp_nrs sample_sched = (\<lambda>hp. if hp then [] else [0, 1, 2])" "scp_has_hp sample_sched = True"
  "scp_nthrs_running sample_sched = 3" "scp_nreqs_active sample_sched = 0" "scp_nhreqs_active sample_sched = 0" "srv_hpreq_handler sample_sched = True"
  by (simp_all add: sample_sched_def sample_svc_def svc_part.defs svc_sched.defs)

theorem threads_in_reserve_witness:
  "\<exists>A t. svc_reaches fifo_api fifo_queues False ({}, sample_sched) (A, t) \<and> A = {0} \<and> scp_nreqs_active t = 1 \<and> card A \<le> 1"
proof -
  obtain t where t: "ptlrpc_server_request_get fifo_api False False sample_sched = (Some 0, t)"
    by (simp add: ptlrpc_server_request_get_def ptlrpc_server_high_pending_def get_normal_def ptlrpc_server_normal_pending_def
        ptlrpc_server_allow_normal_def running_now_def sample_sched_simps fifo_api_def)
  have run: "svc_reaches fifo_api fifo_queues False ({}, sample_sched) ({0}, t)"
    using svc_reaches.step [OF svc_reaches.start svc_step.take [OF t]] by simp
  have "\<forall>hp. \<forall>r \<in> fifo_queues (scp_nrs sample_sched) hp. rq_hp (scp_req sample_sched r) = hp"
    by (simp add: fifo_queues_def sample_sched_simps sample_svc_def sample_req_def)
  from threads_in_reserve [OF fifo_laws run _ _ _ this] have "scp_nreqs_active t = 1"
    by (simp add: running_now_def sample_sched_simps)
  thus ?thesis
    using run by auto
qed

end
