(* ===== verification/Svc_Threads.thy ===== *)
theory Svc_Threads
  imports LT_Prelude
begin

text \<open>
  The number of threads of a service (\<open>ptlrpc_server_nthreads_check\<close> of \<open>service.c\<close>), from its
  configuration and the number of cores.
\<close>

unbundle bit_operations_syntax

record thr_conf =
  tc_thr_factor :: u32
  tc_nthrs_init :: u32
  tc_nthrs_base :: u32
  tc_nthrs_max :: u32
  tc_nthrs_user :: u32

text \<open>
  The machine: \<open>cfs_cpt_weight\<close> of all cores and of the first partition, hyper-threading, and the number of
  partitions; \<open>hp\<close> tells whether the service has a handler for requests of high priority.
\<close>

record machine =
  weight_any :: int
  weight_first :: int
  ht_siblings :: int
  srv_ncpts :: int

text \<open>More threads for a single partition of at least four cores. The first argument is fuel: the shift is less than 32.\<close>

fun boost :: "nat \<Rightarrow> nat \<Rightarrow> int \<Rightarrow> u32 \<Rightarrow> u32 \<Rightarrow> u32 option" where
  "boost 0 i weight base nthrs = None"
| "boost (Suc n) i weight base nthrs =
     (if drop_bit (i + 1) weight \<noteq> 0 \<and> drop_bit i base \<noteq> 0 then boost n (i + 1) weight base (nthrs + drop_bit i base) else Some nthrs)"

text \<open>More threads for each core, fewer with every four of them.\<close>

function per_core :: "int \<Rightarrow> int \<Rightarrow> u32 \<Rightarrow> u32" where
  "per_core factor weight nthrs =
     (if factor > 0 \<and> weight > 0 then per_core (factor - 1) (weight - 4) (nthrs + of_int (min weight 4 * factor)) else nthrs)"
  by auto
termination
  by (relation "measure (\<lambda>(factor, _, _). nat factor)") auto

declare per_core.simps [simp del]

definition divu :: "u32 \<Rightarrow> int \<Rightarrow> u32 outcome" where
  "divu a b = (if (of_int b :: u32) = 0 then Fault DIV_TRAP else Ret (a div of_int b))"

definition max_int :: "u32 \<Rightarrow> u32 \<Rightarrow> u32" where
  "max_int a b = (if sint a > sint b then a else b)"

definition factored :: "thr_conf \<Rightarrow> machine \<Rightarrow> u32 \<Rightarrow> u32 outcome" where
  "factored tc mc nthrs =
     (if tc_thr_factor tc = 0 then Ret nthrs
      else
        let factor = sint (tc_thr_factor tc);
            factor = (if ht_siblings mc > 1 then factor - drop_bit 1 factor + drop_bit 3 factor else factor)
        in lassert (weight_first mc > 0) (Ret (per_core factor (weight_first mc) nthrs)))"

definition capped :: "thr_conf \<Rightarrow> machine \<Rightarrow> u32 \<Rightarrow> u32 outcome" where
  "capped tc mc nthrs =
     (if nthrs * of_int (srv_ncpts mc) > tc_nthrs_max tc
      then bindO (divu (tc_nthrs_max tc) (srv_ncpts mc)) (\<lambda>d. Ret (max (tc_nthrs_base tc) d))
      else Ret nthrs)"

text \<open>The limit and the initial number of threads of a partition.\<close>

definition ptlrpc_server_nthreads_check :: "bool \<Rightarrow> thr_conf \<Rightarrow> machine \<Rightarrow> (u32 \<times> u32) outcome option" where
  "ptlrpc_server_nthreads_check hp tc mc =
     (let init = max_int (2 + (if hp then 1 else 0)) (tc_nthrs_init tc);
          out = (\<lambda>nthrs init. Ret (max nthrs (tc_nthrs_init tc), init))
      in if tc_nthrs_max tc = 0 then Some (Fault LBUG)
         else if tc_nthrs_user tc \<noteq> 0 then
           Some (bindO (divu (min (tc_nthrs_max tc * 8) (tc_nthrs_user tc)) (srv_ncpts mc)) (\<lambda>nthrs. out nthrs (max init nthrs)))
         else if tc_nthrs_base tc = 0 then Some (bindO (divu (tc_nthrs_max tc) (srv_ncpts mc)) (\<lambda>nthrs. out nthrs init))
         else
           case (if srv_ncpts mc = 1 then boost 31 1 (weight_any mc) (tc_nthrs_base tc) (tc_nthrs_base tc) else Some (tc_nthrs_base tc)) of
             None \<Rightarrow> None
           | Some nthrs \<Rightarrow> Some (bindO (factored tc mc nthrs) (\<lambda>nthrs. bindO (capped tc mc nthrs) (\<lambda>nthrs. out nthrs init))))"

section \<open>The loops end\<close>

lemma unat_shift: "unat (drop_bit k (w :: u32)) = unat w div 2 ^ k"
  unfolding unat_drop_bit_eq by (rule drop_bit_eq_div)

text \<open>
  The increase of a single partition ends within the fuel and stays below twice the base, as the comment says.
\<close>

lemma boost_bound:
  assumes "0 \<le> w" and "w < 2 ^ 31" and "unat base < 2 ^ 31" and "unat nthrs + unat (drop_bit (i - 1) base) \<le> 2 * unat base" and "n + i = 32" and "1 \<le> i"
    and "0 < unat (drop_bit (i - 1) base)"
  shows "\<exists>m. boost n i w base nthrs = Some m \<and> unat m < 2 * unat base"
  using assms
proof (induction n arbitrary: i nthrs)
  case 0
  have "unat (drop_bit (i - 1) base) = unat base div 2 ^ 31"
    using 0(5) by (simp add: unat_shift)
  thus ?case
    using 0(3,7) by simp
next
  case (Suc n)
  let ?d = "drop_bit i base"
  have half: "unat (drop_bit (i - 1) base) \<ge> 2 * unat ?d"
  proof -
    obtain k where "i = Suc k"
      using Suc.prems(6) by (cases i) auto
    thus ?thesis
      by (simp add: unat_shift power_Suc2 div_mult2_eq del: power_Suc)
  qed
  show ?case
  proof (cases "drop_bit (i + 1) w \<noteq> 0 \<and> ?d \<noteq> 0")
    case True
    hence pos: "0 < unat ?d"
      by (simp add: unat_gt_0)
    have "unat nthrs + unat ?d < 2 ^ 32"
      using Suc.prems(3,4) half by simp
    hence "unat (nthrs + ?d) = unat nthrs + unat ?d"
      by (simp add: unat_word_ariths)
    thus ?thesis
      using Suc.IH [of "nthrs + ?d" "i + 1"] Suc.prems True pos half by simp
  next
    case False
    thus ?thesis
      using Suc.prems(4,7) by auto
  qed
qed


lemma per_core_bound:
  assumes "unat nthrs + 4 * nat factor * nat factor < 2 ^ 32"
  shows "unat (per_core factor weight nthrs) \<le> unat nthrs + 4 * nat factor * nat factor"
  using assms
proof (induction factor weight nthrs rule: per_core.induct)
  case (1 factor weight nthrs)
  show ?case
  proof (cases "factor > 0 \<and> weight > 0")
    case True
    let ?a = "min weight 4 * factor" and ?f = "nat factor"
    have a: "0 \<le> ?a" "nat ?a \<le> 4 * ?f"
      using True by (auto simp: nat_mult_distrib min_def)
    have sq: "4 * nat (factor - 1) * nat (factor - 1) + 4 * ?f \<le> 4 * ?f * ?f"
    proof -
      obtain k where "?f = Suc k"
        using True by (cases ?f) auto
      thus ?thesis
        by (simp add: nat_diff_distrib algebra_simps)
    qed
    have small: "nat ?a < 2 ^ 32" "unat nthrs + nat ?a < 2 ^ 32"
      using "1.prems" a(2) sq by linarith+
    have of_nat: "unat (of_nat k :: u32) = k" if "k < 2 ^ 32" for k
      using that by (simp add: unat_of_nat take_bit_nat_eq_self)
    have "unat (of_int ?a :: u32) = nat ?a"
      using of_nat [OF small(1)] a(1) by simp
    hence n: "unat (nthrs + of_int ?a) = unat nthrs + nat ?a"
      using small(2) by (simp add: unat_word_ariths)
    have "unat (per_core (factor - 1) (weight - 4) (nthrs + of_int ?a)) \<le> unat nthrs + nat ?a + 4 * nat (factor - 1) * nat (factor - 1)"
      using "1.IH" [OF True] "1.prems" n a(2) sq by linarith
    thus ?thesis
      using True a(2) sq by (subst per_core.simps) simp
  qed (use per_core.simps in auto)
qed

section \<open>The limit\<close>

text \<open>
  A configuration and a machine within which nothing overflows: up to 65535 base threads, a factor below 256 and up to 255 partitions.
\<close>

definition sane :: "thr_conf \<Rightarrow> machine \<Rightarrow> bool" where
  "sane tc mc \<longleftrightarrow> tc_nthrs_max tc \<noteq> 0 \<and> unat (tc_nthrs_max tc) < 2 ^ 28 \<and> unat (tc_nthrs_base tc) < 2 ^ 16 \<and> unat (tc_thr_factor tc) < 2 ^ 8 \<and>
     0 < srv_ncpts mc \<and> srv_ncpts mc < 2 ^ 8 \<and> 0 \<le> weight_any mc \<and> weight_any mc < 2 ^ 31 \<and> 0 < weight_first mc"

lemma divu_ncpts:
  assumes "0 < c" and "c < 2 ^ 8"
  shows "divu a c = Ret (a div of_int c)" and "unat (a div of_int c :: u32) = unat a div nat c" and "unat (of_int c :: u32) = nat c"
proof -
  have small: "unat (of_nat k :: u32) = k" if "k < 2 ^ 8" for k
    using that by (simp add: unat_of_nat take_bit_nat_eq_self)
  show c: "unat (of_int c :: u32) = nat c"
    using small [of "nat c"] assms by simp
  hence "(of_int c :: u32) \<noteq> 0"
    using assms by (metis unat_0 nat_0_iff not_less)
  thus "divu a c = Ret (a div of_int c)"
    by (simp add: divu_def)
  show "unat (a div of_int c :: u32) = unat a div nat c"
    using c by (simp add: unat_div)
qed

lemma factored_ok:
  assumes "sane tc mc" and "unat nthrs < 2 ^ 17"
  shows "\<exists>m. factored tc mc nthrs = Ret m \<and> unat m < 2 ^ 21"
proof (cases "tc_thr_factor tc = 0")
  case True
  thus ?thesis
    using assms(2) by (simp add: factored_def)
next
  case False
  let ?f = "sint (tc_thr_factor tc)"
  let ?g = "if ht_siblings mc > 1 then ?f - drop_bit 1 ?f + drop_bit 3 ?f else ?f"
  have "unat (tc_thr_factor tc) < 256"
    using assms(1) by (simp add: sane_def)
  hence "int (unat (tc_thr_factor tc)) < 256"
    by linarith
  hence u: "uint (tc_thr_factor tc) < 2 ^ 8"
    by simp
  have "- (2 ^ 31) \<le> uint (tc_thr_factor tc)" "uint (tc_thr_factor tc) < 2 ^ 31"
    by (rule order.trans [of _ 0]; simp) (rule order.strict_trans [OF u], simp)
  hence "signed_take_bit 31 (uint (tc_thr_factor tc)) = uint (tc_thr_factor tc)"
    by (rule signed_take_bit_int_eq_self)
  hence "?f = uint (tc_thr_factor tc)"
    by (simp add: sint_uint)
  hence f: "0 \<le> ?f" "?f < 2 ^ 8"
    using u by simp_all
  hence g: "nat ?g < 2 ^ 9"
    by (auto simp: drop_bit_eq_div)
  hence "4 * nat ?g * nat ?g \<le> 4 * 2 ^ 9 * 2 ^ 9"
    by (intro mult_mono) auto
  hence "unat (per_core ?g (weight_first mc) nthrs) < 2 ^ 21"
    using per_core_bound [of nthrs ?g "weight_first mc"] assms(2) by simp
  thus ?thesis
    using False assms(1) by (simp add: factored_def Let_def sane_def)
qed

lemma capped_ok:
  assumes "sane tc mc" and "unat nthrs < 2 ^ 21"
  shows "\<exists>m. capped tc mc nthrs = Ret m \<and> unat m \<le> max (unat (tc_nthrs_base tc)) (unat (tc_nthrs_max tc) div nat (srv_ncpts mc))"
proof -
  let ?c = "srv_ncpts mc"
  have c: "0 < ?c" "?c < 2 ^ 8"
    using assms(1) by (simp_all add: sane_def)
  note d = divu_ncpts [OF c]
  have "unat nthrs * nat ?c < 2 ^ 21 * 2 ^ 8"
    using assms(2) c by (intro mult_strict_mono) auto
  hence p: "unat (nthrs * of_int ?c) = unat nthrs * nat ?c"
    using d(3) by (simp add: unat_word_ariths)
  show ?thesis
  proof (cases "nthrs * of_int ?c > tc_nthrs_max tc")
    case True
    thus ?thesis
      using d by (auto simp: capped_def max_def word_le_nat_alt)
  next
    case False
    hence "unat nthrs * nat ?c \<le> unat (tc_nthrs_max tc)"
      using p by (simp add: word_less_nat_alt not_less)
    hence "unat nthrs \<le> unat (tc_nthrs_max tc) div nat ?c"
      using c(1) by (simp add: less_eq_div_iff_mult_less_eq)
    thus ?thesis
      using False by (simp add: capped_def)
  qed
qed



end
