(* ===== verification/Spec2Isabelle.thy ===== *)
theory Spec2Isabelle
  imports Qos_Machine Lfz_Throttle Lprocfs_Counters Nrs_Sscdt Tbf_Start Wire_Props Osc_Flush Svc_History Svc_Select Svc_Threads
begin

text \<open>
  LustreTools adds quality-of-service control to the Lustre parallel file system (2.8): a client
  side controller that adapts the number of RPCs in flight, server side bandwidth counters, a
  bandwidth throttle of the target layer, and two policies of the network request scheduler
  (NRS). This development models those additions and the message layer they ride on, and proves
  what makes them correct. Paths below are relative to \<open>src/\<close>; \<open>metric\<close> stands for
  \<open>source/build/metric\<close>.

  \<^bold>\<open>Conventions.\<close> \<open>LT_Prelude\<close>: an operation returns (\<open>Ret\<close>) or brings the kernel down
  (\<open>Fault\<close>: a failed \<open>LASSERT\<close>, a division trap, a null dereference, an access outside an object,
  a loop that never ends); error codes are values. Unsigned C integers are words of their width,
  signed ones integers with the wrap-around written out. \<open>C_String\<close> and \<open>Sscanf\<close> model the part of
  the kernel's string library the code calls; \<open>Second_Meter\<close> is the locale of a counter of the
  bytes of the current second, interpreted three times below. Time, allocation and what other
  subsystems return are arguments of the definitions.

  \<^bold>\<open>Client side QoS controller\<close> (\<open>metric/metric.h\<close>, \<open>qos_rules.c\<close>, \<open>osc_request.c\<close>, \<open>lproc_osc.c\<close>,
  \<open>genops.c\<close>, \<open>obd.h\<close>).
  \<^item> \<open>Qos_Rules\<close>: \<open>parse_qos_rules\<close> and the proc file that prints and reads the rule table. The
    table invariant holds after every input, the outcome of every branch is characterised, and
    printing then parsing is a round trip. The print loop has fuel; two passes are enough, and it
    is proved that they are.
  \<^item> \<open>Qos_Control\<close>: moving averages, bandwidth of the last second, the throttle, \<open>qos_adjust\<close> with its
    rule matching and the growth of the request pool. Bounds without wrap-around, the exact value
    of the averages, exactly when the controller traps.
  \<^item> \<open>Qos_Machine\<close>: the step relation of a client device whose steps are these operations, and the
    invariant of its reachable states.

  \<^bold>\<open>Target side throttle\<close> (\<open>source/build/lfz/lfz.c\<close>): \<open>Lfz_Throttle\<close>, the budget of the current
  second and the reading of the configured rate.

  \<^bold>\<open>Counters\<close> (\<open>metric/lprocfs_counters.c\<close>, \<open>lprocfs_status.c\<close>, \<open>lprocfs_status.h\<close>):
  \<open>Lprocfs_Counters\<close>, per-CPU counters with their allocation, update, collection and clearing, the
  server bandwidth counter and the histograms.

  \<^bold>\<open>Request scheduling.\<close> \<open>Nrs_Heap\<close> states the contract of the binary heap of libcfs, which is not
  under \<open>src/\<close>, as a locale, gives a list implementation that satisfies it, and defines what a
  policy owes the NRS core: no request is lost, invented or handed out twice.
  \<^item> \<open>Nrs_Sscdt\<close> (\<open>code/nrs_sscdt.c\<close>): the policy that orders requests by time window, NID and
    process; it implements the NRS contract and serves in its order.
  \<^item> \<open>Tbf_Rules\<close>, \<open>Tbf_Clients\<close>, \<open>Tbf_Sched\<close> (\<open>metric/nrs_tbf.c\<close>, \<open>lustre_nrs_tbf.h\<close>): state and
    operations of the token bucket policy: rules with reference counts, the client hash with its
    LRU list, matching, the client heap, the tokens and the timer. The heap, the client hash, the
    NID matcher and the tokenizer of libcfs are the record \<open>libcfs\<close>.
  \<^item> \<open>Tbf_Queue\<close>, \<open>Tbf_Service\<close>: the invariant of the queues, conservation of requests, first-come
    first-served per client, the rate limit (by the locale \<open>token_bucket\<close>), and the deadlines that
    wake a throttled client.
  \<^item> \<open>Tbf_Refs\<close>, \<open>Tbf_Rulebook\<close>, \<open>Tbf_Lifecycle\<close>, \<open>Tbf_Runs\<close>: the invariant that ties rules and
    clients (reference counts are exact, nothing is used after it is freed), its preservation by
    every operation, and the runs of the policy as an inductive relation.
  \<^item> \<open>Tbf_Parse\<close>, \<open>Tbf_Start\<close>: the command parser, the proc files, starting, stopping and listing.

  \<^bold>\<open>Messages\<close> (\<open>metric/pack_generic.c\<close>, layouts of \<open>lustre_idl.h\<close>).
  \<^item> \<open>Wire_Mem\<close>: memory as bytes, little-endian integers, byte swapping in place.
  \<^item> \<open>Lustre_Msg\<close>, \<open>Msg_Wire\<close>, \<open>Msg_Props\<close>: sizes, packing, unpacking, access to the buffers,
    strings, shrinking. A message is accepted exactly when all of it was received, packing and
    unpacking are inverse for senders of either byte order, shrinking keeps the other buffers.
    \<open>cfs_size_round\<close> and \<open>LOGL\<close> of libcfs are parameters with the hypothesis \<open>msg_lib_ok\<close>.
  \<^item> \<open>Ptlrpc_Body\<close>, \<open>Body_Props\<close>: the accessors of the message body and its conversion; every field
    is independent of the others, and a request is converted exactly once.
  \<^item> \<open>Wire_Struct\<close>: C types, the layout the ABI gives them, and the contract of a function that
    converts a structure: it reverses every integer of it once and nothing else.
  \<^item> \<open>Wire_Idl\<close>: 46 structures of \<open>lustre_idl.h\<close>, and the checks \<open>lustre_assert_wire_constants\<close> of
    \<open>lustre_ptlrpc_wiretest.c\<close> makes on 38 of them when the module is loaded. \<open>struct lu_fid\<close> and
    \<open>struct obd_uuid\<close> are declared outside \<open>src/\<close>; their fields are those the accessors and the
    checks under \<open>src/\<close> show.
  \<^item> \<open>Wire_Swab\<close>, \<open>Wire_Props\<close>: 37 swab functions of \<open>pack_generic.c\<close>. 32 keep the contract, which is
    one theorem over the table of them; the layouts pass the checks; two functions reverse a field
    twice, and the theorems say what they leave unconverted. \<open>lustre_swab_lu_fid\<close> is a parameter with
    the hypothesis \<open>fid_ok\<close>.

  \<^bold>\<open>Client page cache and bulk requests\<close> (\<open>metric/osc_cache.c\<close>, \<open>osc_request.c\<close>): what the controller's limit
  acts on. The record \<open>osc_cli\<close> extends the client of the controller.
  \<^item> \<open>Osc_Grant\<close>: reserving, consuming, returning and freeing grant, waiting for it (a list of sleeps is the
    fuel; with none left the call has not returned), announcing and shrinking it. The accounts balance,
    and waiters are served in order.
  \<^item> \<open>Osc_Extent\<close>: the extents of dirty pages of an object and every operation on them. \<open>Osc_Tree\<close> states the
    contract of the kernel's red-black tree, which is not under \<open>src/\<close>, as the locale \<open>rbtree\<close>.
  \<^item> \<open>Osc_Inv\<close>, \<open>Osc_Release\<close>, \<open>Osc_Find\<close>: the invariant of the tree (in order, disjoint, whole chunks, one
    lock per slot, sane states, pages counted) and its preservation; finding the extent for a page.
  \<^item> \<open>Osc_Brw\<close>, \<open>Osc_Bulk\<close>: the pages of a bulk request in order, its remote buffers, its checksums, the
    judgement of the reply, short reads, sending it again.
  \<^item> \<open>Osc_Rpc\<close>: which object sends next, which extents an RPC takes, building and completing the RPC, and
    the bound on RPCs in flight.
  \<^item> \<open>Osc_Queue\<close>, \<open>Osc_Flush\<close>: writing a page into the cache, from its grant to its extent; waiting for,
    flushing, writing back and truncating the cached pages of an object. The waits are lists, as for
    the grant: with a list used up the call has not returned.
  Outside \<open>src/\<close> and therefore arguments: the lock manager, the page types, the hash functions, the
  security layer, \<open>rpcs_in_flight\<close>, and what other threads do while a call sleeps.

  \<^bold>\<open>Request service\<close> (\<open>metric/service.c\<close>): the server side that feeds the NRS policies.
  \<^item> \<open>Svc_Timed\<close>: requests that wait for their deadline, a ring of buckets by second; its invariant, and
    that a walk round the ring ends (as many buckets as the ring has are enough) and takes exactly the
    requests that are due.
  \<^item> \<open>Svc_Buffers\<close>, \<open>Svc_History\<close>: request buffers, dropping the last reference of a request, early replies
    and the whole check of the deadlines; the history is bounded, and nothing is lost or freed twice.
  \<^item> \<open>Svc_Select\<close>: which request a thread takes, arrival and end of requests, as a step relation over any
    NRS core that obeys \<open>nrs_laws\<close>; a thread is always left.
  \<^item> \<open>Svc_Threads\<close>: the number of threads of a service; the shift that bounds its loop is the fuel.

  \<^bold>\<open>Not modelled.\<close> The bodies of the service threads, the threads that handle replies, registration and
  shutdown of services (\<open>service.c\<close>) and the NRS core (\<open>nrs.c\<close>, not under \<open>src/\<close>), the target handlers
  (\<open>tgt_handler.c\<close>), the connection code of \<open>genops.c\<close> and the lock, attribute and set-up handlers of
  \<open>osc_request.c\<close> are stock Lustre around the modelled parts: threads, wait queues and the lock manager, none of whose
  interfaces are under \<open>src/\<close>. The proc tree of \<open>lprocfs_status.c\<close> and \<open>lproc_ptlrpc.c\<close> is I/O. The
  locks of the code are not modelled: an operation is one step. Shell scripts and documents have
  no model. Of \<open>pack_generic.c\<close> the swab functions of structures with a tail of variable length
  and of types declared outside \<open>src/\<close> are left out, and the pools of reply states; of the wire
  tests the checks of enumeration values. Next: those structures and values.
\<close>

end
